(* ===== verification/Ids.thy ===== *)
theory Ids
  imports Prelude
begin

section \<open>Identifiers and time values\<close>

text \<open>
  The identifiers of \<open>rewind-domain/src/id.rs\<close> and the time values of \<open>time.rs\<close>: BLAKE3 digest
  ids as 64 lowercase hexadecimal digits, version 7 UUID record ids, positive integer ids in
  canonical decimal text, signed and unsigned times.  The contract every one of them has, a
  text form that the parser accepts exactly when it is the printed form of a value, is the
  locale \<open>text_form\<close>, interpreted once per identifier; \<open>ordered_text_form\<close> adds that the byte
  order of the text is the order of the values.

  The \<open>uuid\<close> crate is not part of the repository: it is the record \<open>uuid_lib\<close>, an argument of
  the record-id operations, whose documented behaviour is \<open>uuid_lib_ok\<close>.
\<close>

subsection \<open>Canonical text forms\<close>

locale text_form =
  fixes valid :: "'a \<Rightarrow> bool"
    and display :: "'a \<Rightarrow> string"
    and parse :: "string \<Rightarrow> ('e, 'a) result"
  assumes parse_display: "valid x \<Longrightarrow> parse (display x) = Inr x"
    and display_parse: "parse s = Inr x \<Longrightarrow> valid x \<and> display x = s"
begin

lemma parse_Inr_iff: "parse s = Inr x \<longleftrightarrow> valid x \<and> display x = s"
  using parse_display display_parse by blast

lemma accepts_iff: "is_ok (parse s) \<longleftrightarrow> (\<exists>x. valid x \<and> display x = s)"
  by (auto simp: is_ok_iff parse_Inr_iff)

lemma display_inj: "valid x \<Longrightarrow> valid y \<Longrightarrow> display x = display y \<Longrightarrow> x = y"
  by (metis parse_display sum.inject(2))

lemma parse_inj: "parse s = Inr x \<Longrightarrow> parse t = Inr x \<Longrightarrow> s = t"
  using display_parse by blast

lemma parse_list: "list_all valid xs \<Longrightarrow> map_result parse (map display xs) = Inr xs"
  by (induction xs) (auto simp: parse_display)

lemma parse_option:
  "pred_option valid x \<Longrightarrow> transpose_result (map_option (\<lambda>v. parse (display v)) x) = Inr x"
  by (cases x) (auto simp: parse_display)

end

locale ordered_text_form = text_form valid display parse
  for valid :: "'a :: linorder \<Rightarrow> bool" and display and parse :: "string \<Rightarrow> ('e, 'a) result" +
  assumes display_mono: "valid x \<Longrightarrow> valid y \<Longrightarrow> x < y \<Longrightarrow> display x < display y"
begin

lemma display_less_iff: "valid x \<Longrightarrow> valid y \<Longrightarrow> display x < display y \<longleftrightarrow> x < y"
  using display_mono by (metis less_asym less_linear)

lemma display_le_iff: "valid x \<Longrightarrow> valid y \<Longrightarrow> display x \<le> display y \<longleftrightarrow> x \<le> y"
  using display_less_iff by (meson linorder_not_le)

lemma sorted_display:
  "list_all valid xs \<Longrightarrow> sorted_wrt (<) (map display xs) \<longleftrightarrow> sorted_wrt (<) xs"
  by (induction xs) (auto simp: list_all_iff display_less_iff)

end

subsection \<open>Digest identifiers\<close>

datatype digest_id_parse_error =
    DigestInvalidLength nat
  | DigestInvalidCharacter nat

definition hex_nibble :: "u8 \<Rightarrow> u8 option" where
  "hex_nibble byte =
     (if byte_of_char CHR ''0'' \<le> byte \<and> byte \<le> byte_of_char CHR ''9''
      then Some (byte - byte_of_char CHR ''0'')
      else if byte_of_char CHR ''a'' \<le> byte \<and> byte \<le> byte_of_char CHR ''f''
      then Some (byte - byte_of_char CHR ''a'' + 10)
      else None)"

fun parse_digest_pairs :: "nat \<Rightarrow> u8 list \<Rightarrow> (digest_id_parse_error, u8 list) result" where
  "parse_digest_pairs index (h # l # rest) =
     and_then (ok_or (DigestInvalidCharacter (index * 2)) (hex_nibble h)) (\<lambda>high.
     and_then (ok_or (DigestInvalidCharacter (index * 2 + 1)) (hex_nibble l)) (\<lambda>low.
     and_then (parse_digest_pairs (Suc index) rest) (\<lambda>bytes.
       Inr (or (push_bit 4 high) low # bytes))))"
| "parse_digest_pairs index _ = Inr []"

definition parse_digest :: "string \<Rightarrow> (digest_id_parse_error, u8 list) result" where
  "parse_digest input =
     (if length input \<noteq> 64 then Inl (DigestInvalidLength (length input))
      else parse_digest_pairs 0 (as_bytes input))"

definition hex_digit :: "u8 \<Rightarrow> char" where
  \<comment> \<open>one lowercase hexadecimal digit of the standard formatter\<close>
  "hex_digit n = char_of_byte (if n < 10 then byte_of_char CHR ''0'' + n
                               else byte_of_char CHR ''a'' + (n - 10))"

definition hex_byte :: "u8 \<Rightarrow> string" where
  \<comment> \<open>\<open>{byte:02x}\<close>\<close>
  "hex_byte b = [hex_digit (drop_bit 4 b), hex_digit (and b 15)]"

definition digest_text :: "u8 list \<Rightarrow> string" where
  "digest_text bytes = concat (map hex_byte bytes)"

datatype object_id = ObjectId (object_id_bytes: "u8 list")
datatype snapshot_id = SnapshotId (snapshot_id_bytes: "u8 list")

definition object_id_ok :: "object_id \<Rightarrow> bool" where
  "object_id_ok i \<longleftrightarrow> length (object_id_bytes i) = 32"

definition snapshot_id_ok :: "snapshot_id \<Rightarrow> bool" where
  "snapshot_id_ok i \<longleftrightarrow> length (snapshot_id_bytes i) = 32"

definition object_id_text :: "object_id \<Rightarrow> string" where
  "object_id_text i = digest_text (object_id_bytes i)"

definition object_id_from_str :: "string \<Rightarrow> (digest_id_parse_error, object_id) result" where
  "object_id_from_str s = map_ok ObjectId (parse_digest s)"

definition snapshot_id_text :: "snapshot_id \<Rightarrow> string" where
  "snapshot_id_text i = digest_text (snapshot_id_bytes i)"

definition snapshot_id_from_str :: "string \<Rightarrow> (digest_id_parse_error, snapshot_id) result" where
  "snapshot_id_from_str s = map_ok SnapshotId (parse_digest s)"

definition object_id_digest :: "(u8 list \<Rightarrow> u8 list) \<Rightarrow> u8 list \<Rightarrow> object_id" where
  \<comment> \<open>the first argument is \<open>blake3::hash\<close>\<close>
  "object_id_digest blake3 bytes = ObjectId (blake3 bytes)"

definition snapshot_id_digest :: "(u8 list \<Rightarrow> u8 list) \<Rightarrow> u8 list \<Rightarrow> snapshot_id" where
  "snapshot_id_digest blake3 bytes = SnapshotId (blake3 bytes)"

definition hash_ok :: "(u8 list \<Rightarrow> u8 list) \<Rightarrow> bool" where
  \<comment> \<open>documented: the digest has 32 bytes\<close>
  "hash_ok blake3 \<longleftrightarrow> (\<forall>bytes. length (blake3 bytes) = 32)"

instantiation object_id :: linorder
begin
definition less_eq_object_id :: "object_id \<Rightarrow> object_id \<Rightarrow> bool" where
  "less_eq_object_id a b \<longleftrightarrow> object_id_bytes a \<le> object_id_bytes b"
definition less_object_id :: "object_id \<Rightarrow> object_id \<Rightarrow> bool" where
  "less_object_id a b \<longleftrightarrow> object_id_bytes a < object_id_bytes b"
instance
  by standard (auto simp: less_eq_object_id_def less_object_id_def object_id.expand)
end

instantiation snapshot_id :: linorder
begin
definition less_eq_snapshot_id :: "snapshot_id \<Rightarrow> snapshot_id \<Rightarrow> bool" where
  "less_eq_snapshot_id a b \<longleftrightarrow> snapshot_id_bytes a \<le> snapshot_id_bytes b"
definition less_snapshot_id :: "snapshot_id \<Rightarrow> snapshot_id \<Rightarrow> bool" where
  "less_snapshot_id a b \<longleftrightarrow> snapshot_id_bytes a < snapshot_id_bytes b"
instance
  by standard (auto simp: less_eq_snapshot_id_def less_snapshot_id_def snapshot_id.expand)
end

lemma hex_nibble_eq:
  "hex_nibble b = (if 48 \<le> b \<and> b \<le> 57 then Some (b - 48)
                   else if 97 \<le> b \<and> b \<le> 102 then Some (b - 87) else None)"
  by (simp add: hex_nibble_def byte_of_char_def algebra_simps)

lemma hex_digit_eq: "hex_digit n = char_of_byte (if n < 10 then 48 + n else 87 + n)"
  by (simp add: hex_digit_def byte_of_char_def algebra_simps)

lemma unat_hex_digit:
  assumes "unat (n :: u8) < 16"
  shows "unat (48 + n) = 48 + unat n" "unat (87 + n) = 87 + unat n"
  using assms by (simp_all add: unat_word_ariths)

lemma hex_digit_nibble:
  assumes "unat n < 16"
  shows "hex_nibble (byte_of_char (hex_digit n)) = Some n"
  using assms unat_hex_digit [OF assms]
  by (auto simp: hex_nibble_eq hex_digit_eq word_le_nat_alt word_less_nat_alt)

lemma hex_nibble_digit:
  assumes "hex_nibble b = Some n"
  shows "unat n < 16 \<and> byte_of_char (hex_digit n) = b"
proof (cases "48 \<le> b \<and> b \<le> 57")
  case True
  then have n: "n = b - 48" and "unat n = unat b - 48"
    using assms unat_sub [of 48 b] by (auto simp: hex_nibble_eq)
  then have "unat n < 10" using True by (auto simp: word_le_nat_alt)
  then show ?thesis using n by (simp add: hex_digit_eq word_less_nat_alt)
next
  case False
  then have b: "97 \<le> b \<and> b \<le> 102" and n: "n = b - 87"
    using assms unfolding hex_nibble_eq by (auto split: if_splits)
  then have "unat n = unat b - 87"
    using unat_sub [of 87 b] by (simp add: word_le_nat_alt)
  then have "unat n < 16 \<and> 10 \<le> unat n" using b by (auto simp: word_le_nat_alt)
  then show ?thesis using n by (simp add: hex_digit_eq word_less_nat_alt)
qed

lemma hex_digit_mono:
  assumes "unat m < 16" "unat n < 16" "m < n"
  shows "hex_digit m < hex_digit n"
  using assms unat_hex_digit [of m] unat_hex_digit [of n]
  by (auto simp: hex_digit_eq word_less_nat_alt)

lemma and_15: "and b 15 = take_bit 4 (b :: u8)"
  by (simp add: take_bit_eq_mask mask_eq_exp_minus_1)

lemma byte_nibbles: "or (push_bit 4 (drop_bit 4 b)) (and b 15) = (b :: u8)"
  unfolding and_15 by (rule bit_word_eqI) (auto simp: bit_simps)

lemma unat_nibbles:
  "unat (drop_bit 4 b :: u8) = unat b div 16" "unat (and b 15 :: u8) = unat b mod 16"
  by (simp_all add: and_15 drop_bit_eq_div take_bit_eq_mod unat_div unat_mod)

lemma byte_nibbles_lt: "unat (drop_bit 4 b :: u8) < 16 \<and> unat (and b 15 :: u8) < 16"
proof -
  have "unat b < 256" using unsigned_less [of b] by simp
  then show ?thesis by (simp add: unat_nibbles less_mult_imp_div_less)
qed

lemma nibble_bits: "unat (x :: u8) < 16 \<Longrightarrow> bit x n \<Longrightarrow> n < 4"
proof -
  assume "unat x < 16" and b: "bit x n"
  then have "take_bit 4 x = x" by (simp add: take_bit_eq_mod word_unat_eq_iff unat_mod)
  then show "n < 4" using b by (metis bit_take_bit_iff)
qed

lemma nibbles_byte:
  assumes "unat (h :: u8) < 16" "unat (l :: u8) < 16"
  shows "drop_bit 4 (or (push_bit 4 h) l) = h \<and> and (or (push_bit 4 h) l) 15 = l"
proof
  show "drop_bit 4 (or (push_bit 4 h) l) = h"
    using nibble_bits [OF assms(1)] nibble_bits [OF assms(2)]
    by (intro bit_word_eqI) (fastforce simp: bit_simps)
  show "and (or (push_bit 4 h) l) 15 = l"
    unfolding and_15 using nibble_bits [OF assms(1)] nibble_bits [OF assms(2)]
    by (intro bit_word_eqI) (fastforce simp: bit_simps)
qed
lemma byte_less_nibbles:
  assumes "a < (b :: u8)"
  shows "drop_bit 4 a < drop_bit 4 b \<or> drop_bit 4 a = drop_bit 4 b \<and> and a 15 < and b 15"
  using assms unfolding word_less_nat_alt word_unat_eq_iff unat_nibbles
  by (metis div_le_mono div_mult_mod_eq less_imp_le_nat nat_add_left_cancel_less nat_less_le)

lemma hex_byte_mono: "a < b \<Longrightarrow> hex_byte a < hex_byte b"
  using byte_less_nibbles [of a b] byte_nibbles_lt [of a] byte_nibbles_lt [of b]
  by (auto simp: hex_byte_def hex_digit_mono)

lemma parse_digest_pairs_text:
  "parse_digest_pairs i (as_bytes (digest_text bytes)) = Inr bytes"
proof (induction bytes arbitrary: i)
  case (Cons b bytes)
  then show ?case
    using byte_nibbles_lt [of b]
    by (simp add: digest_text_def hex_byte_def as_bytes_def hex_digit_nibble byte_nibbles)
qed (simp add: digest_text_def as_bytes_def)

lemma digest_text_parse_pairs:
  "parse_digest_pairs i cs = Inr bytes \<Longrightarrow> even (length cs) \<Longrightarrow>
     as_bytes (digest_text bytes) = cs \<and> 2 * length bytes = length cs"
proof (induction i cs arbitrary: bytes rule: parse_digest_pairs.induct)
  case (1 i h l rest)
  then obtain x y zs where h: "hex_nibble h = Some x" and l: "hex_nibble l = Some y"
    and r: "parse_digest_pairs (Suc i) rest = Inr zs" and b: "bytes = or (push_bit 4 x) y # zs"
    by (auto simp: and_then_Inr_iff)
  have "as_bytes (digest_text zs) = rest \<and> 2 * length zs = length rest"
    using 1 h l r by simp
  then show ?case
    using hex_nibble_digit [OF h] hex_nibble_digit [OF l] nibbles_byte [of x y] b
    by (simp add: digest_text_def hex_byte_def as_bytes_def)
qed (auto simp: digest_text_def as_bytes_def)

lemma length_digest_text [simp]: "length (digest_text bytes) = 2 * length bytes"
  by (induction bytes) (auto simp: digest_text_def hex_byte_def)

lemma parse_digest_text: "length bytes = 32 \<Longrightarrow> parse_digest (digest_text bytes) = Inr bytes"
  by (simp add: parse_digest_def parse_digest_pairs_text)

lemma parse_digest_Inr: "parse_digest s = Inr bytes \<Longrightarrow> length bytes = 32 \<and> digest_text bytes = s"
proof -
  assume p: "parse_digest s = Inr bytes"
  then have len: "length s = 64" and q: "parse_digest_pairs 0 (as_bytes s) = Inr bytes"
    by (auto simp: parse_digest_def split: if_splits)
  from digest_text_parse_pairs [OF q] len have "as_bytes (digest_text bytes) = as_bytes s"
    and l: "length bytes = 32" by auto
  then have "digest_text bytes = s" by (metis of_bytes_as_bytes)
  with l show ?thesis by simp
qed

lemma digest_text_mono:
  "length a = length b \<Longrightarrow> a < b \<Longrightarrow> digest_text a < digest_text b"
proof (induction a b rule: list_induct2)
  case (Cons x xs y ys)
  then show ?case
    using hex_byte_mono [of x y]
    by (auto simp: digest_text_def hex_byte_def)
qed simp

interpretation object_id_form: ordered_text_form object_id_ok object_id_text object_id_from_str
  by unfold_locales
    (auto simp: object_id_ok_def object_id_text_def object_id_from_str_def parse_digest_text
      map_ok_Inr_iff less_object_id_def object_id.expand dest: parse_digest_Inr intro: digest_text_mono)

interpretation snapshot_id_form: ordered_text_form snapshot_id_ok snapshot_id_text snapshot_id_from_str
  by unfold_locales
    (auto simp: snapshot_id_ok_def snapshot_id_text_def snapshot_id_from_str_def parse_digest_text
      map_ok_Inr_iff less_snapshot_id_def snapshot_id.expand dest: parse_digest_Inr intro: digest_text_mono)

subsection \<open>Record identifiers\<close>

type_synonym uuid = "128 word"

record uuid_lib =
  uuid_parse_str :: "string \<Rightarrow> uuid option"
  uuid_hyphenated :: "uuid \<Rightarrow> string"

definition uuid_version_num :: "uuid \<Rightarrow> nat" where
  \<comment> \<open>the version nibble: the high four bits of byte 6 (RFC 9562)\<close>
  "uuid_version_num u = unat (and (drop_bit 76 u) 15)"

definition uuid_lib_ok :: "uuid_lib \<Rightarrow> bool" where
  \<comment> \<open>documented: the hyphenated form parses to the UUID it was printed from\<close>
  "uuid_lib_ok lib \<longleftrightarrow> (\<forall>u. uuid_parse_str lib (uuid_hyphenated lib u) = Some u)"

datatype record_id_parse_error =
    RecordIdInvalidUuid
  | RecordIdNonCanonical
  | RecordIdWrongVersion nat

definition parse_record_id :: "uuid_lib \<Rightarrow> string \<Rightarrow> (record_id_parse_error, uuid) result" where
  "parse_record_id lib input =
     and_then (ok_or RecordIdInvalidUuid (uuid_parse_str lib input)) (\<lambda>parsed.
       if uuid_hyphenated lib parsed \<noteq> input then Inl RecordIdNonCanonical
       else if uuid_version_num parsed \<noteq> 7 then Inl (RecordIdWrongVersion (uuid_version_num parsed))
       else Inr parsed)"

definition record_uuid_ok :: "uuid \<Rightarrow> bool" where
  "record_uuid_ok u \<longleftrightarrow> uuid_version_num u = 7"

datatype run_id = RunId (run_id_uuid: uuid)
datatype branch_id = BranchId (branch_id_uuid: uuid)
datatype checkpoint_id = CheckpointId (checkpoint_id_uuid: uuid)
datatype event_id = EventId (event_id_uuid: uuid)
datatype terminal_stream_id = TerminalStreamId (terminal_stream_id_uuid: uuid)

definition run_id_text :: "uuid_lib \<Rightarrow> run_id \<Rightarrow> string" where
  "run_id_text lib i = uuid_hyphenated lib (run_id_uuid i)"
definition run_id_from_str :: "uuid_lib \<Rightarrow> string \<Rightarrow> (record_id_parse_error, run_id) result" where
  "run_id_from_str lib s = map_ok RunId (parse_record_id lib s)"
definition branch_id_text :: "uuid_lib \<Rightarrow> branch_id \<Rightarrow> string" where
  "branch_id_text lib i = uuid_hyphenated lib (branch_id_uuid i)"
definition branch_id_from_str :: "uuid_lib \<Rightarrow> string \<Rightarrow> (record_id_parse_error, branch_id) result" where
  "branch_id_from_str lib s = map_ok BranchId (parse_record_id lib s)"
definition checkpoint_id_text :: "uuid_lib \<Rightarrow> checkpoint_id \<Rightarrow> string" where
  "checkpoint_id_text lib i = uuid_hyphenated lib (checkpoint_id_uuid i)"
definition checkpoint_id_from_str :: "uuid_lib \<Rightarrow> string \<Rightarrow> (record_id_parse_error, checkpoint_id) result" where
  "checkpoint_id_from_str lib s = map_ok CheckpointId (parse_record_id lib s)"
definition event_id_text :: "uuid_lib \<Rightarrow> event_id \<Rightarrow> string" where
  "event_id_text lib i = uuid_hyphenated lib (event_id_uuid i)"
definition event_id_from_str :: "uuid_lib \<Rightarrow> string \<Rightarrow> (record_id_parse_error, event_id) result" where
  "event_id_from_str lib s = map_ok EventId (parse_record_id lib s)"
definition terminal_stream_id_text :: "uuid_lib \<Rightarrow> terminal_stream_id \<Rightarrow> string" where
  "terminal_stream_id_text lib i = uuid_hyphenated lib (terminal_stream_id_uuid i)"
definition terminal_stream_id_from_str ::
    "uuid_lib \<Rightarrow> string \<Rightarrow> (record_id_parse_error, terminal_stream_id) result" where
  "terminal_stream_id_from_str lib s = map_ok TerminalStreamId (parse_record_id lib s)"

definition run_id_ok :: "run_id \<Rightarrow> bool" where "run_id_ok i \<longleftrightarrow> record_uuid_ok (run_id_uuid i)"
definition branch_id_ok :: "branch_id \<Rightarrow> bool" where "branch_id_ok i \<longleftrightarrow> record_uuid_ok (branch_id_uuid i)"
definition checkpoint_id_ok :: "checkpoint_id \<Rightarrow> bool" where
  "checkpoint_id_ok i \<longleftrightarrow> record_uuid_ok (checkpoint_id_uuid i)"
definition event_id_ok :: "event_id \<Rightarrow> bool" where "event_id_ok i \<longleftrightarrow> record_uuid_ok (event_id_uuid i)"
definition terminal_stream_id_ok :: "terminal_stream_id \<Rightarrow> bool" where
  "terminal_stream_id_ok i \<longleftrightarrow> record_uuid_ok (terminal_stream_id_uuid i)"

lemma parse_record_id_text:
  "uuid_lib_ok lib \<Longrightarrow> record_uuid_ok u \<Longrightarrow> parse_record_id lib (uuid_hyphenated lib u) = Inr u"
  by (simp add: parse_record_id_def uuid_lib_ok_def record_uuid_ok_def)

lemma parse_record_id_Inr:
  "parse_record_id lib s = Inr u \<Longrightarrow> record_uuid_ok u \<and> uuid_hyphenated lib u = s"
  by (auto simp: parse_record_id_def record_uuid_ok_def and_then_Inr_iff split: if_splits)

lemmas record_id_defs =
  run_id_text_def run_id_from_str_def run_id_ok_def
  branch_id_text_def branch_id_from_str_def branch_id_ok_def
  checkpoint_id_text_def checkpoint_id_from_str_def checkpoint_id_ok_def
  event_id_text_def event_id_from_str_def event_id_ok_def
  terminal_stream_id_text_def terminal_stream_id_from_str_def terminal_stream_id_ok_def

lemma record_id_roundtrips:
  assumes "uuid_lib_ok lib"
  shows "run_id_ok r \<Longrightarrow> run_id_from_str lib (run_id_text lib r) = Inr r"
    and "branch_id_ok b \<Longrightarrow> branch_id_from_str lib (branch_id_text lib b) = Inr b"
    and "checkpoint_id_ok c \<Longrightarrow> checkpoint_id_from_str lib (checkpoint_id_text lib c) = Inr c"
    and "event_id_ok e \<Longrightarrow> event_id_from_str lib (event_id_text lib e) = Inr e"
    and "terminal_stream_id_ok t \<Longrightarrow> terminal_stream_id_from_str lib (terminal_stream_id_text lib t) = Inr t"
  using assms by (simp_all add: record_id_defs parse_record_id_text)

lemma record_id_canonical:
  "run_id_from_str lib s = Inr r \<Longrightarrow> run_id_ok r \<and> run_id_text lib r = s"
  "branch_id_from_str lib s = Inr b \<Longrightarrow> branch_id_ok b \<and> branch_id_text lib b = s"
  "checkpoint_id_from_str lib s = Inr c \<Longrightarrow> checkpoint_id_ok c \<and> checkpoint_id_text lib c = s"
  "event_id_from_str lib s = Inr e \<Longrightarrow> event_id_ok e \<and> event_id_text lib e = s"
  "terminal_stream_id_from_str lib s = Inr t \<Longrightarrow>
     terminal_stream_id_ok t \<and> terminal_stream_id_text lib t = s"
  by (auto simp: record_id_defs map_ok_Inr_iff dest: parse_record_id_Inr)

lemma run_id_text_inj:
  assumes "uuid_lib_ok lib"
  shows "run_id_text lib a = run_id_text lib b \<longleftrightarrow> a = b"
  using assms unfolding uuid_lib_ok_def run_id_text_def
  by (metis option.inject run_id.expand)

lemma event_id_text_inj:
  assumes "uuid_lib_ok lib"
  shows "event_id_text lib a = event_id_text lib b \<longleftrightarrow> a = b"
  using assms unfolding uuid_lib_ok_def event_id_text_def
  by (metis option.inject event_id.expand)

subsection \<open>Decimal text\<close>

definition digit_char :: "nat \<Rightarrow> char" where
  "digit_char d = char_of (48 + d)"

definition digit_value :: "char \<Rightarrow> nat" where
  "digit_value c = of_char c - 48"

fun dec_text :: "nat \<Rightarrow> string" where
  \<comment> \<open>\<open>Display\<close> of an unsigned integer\<close>
  "dec_text n = (if n < 10 then [digit_char n] else dec_text (n div 10) @ [digit_char (n mod 10)])"

declare dec_text.simps [simp del]

definition int_text :: "int \<Rightarrow> string" where
  "int_text i = (if i < 0 then CHR ''-'' # dec_text (nat (- i)) else dec_text (nat i))"

fun parse_digits :: "nat \<Rightarrow> string \<Rightarrow> nat option" where
  "parse_digits acc [] = Some acc"
| "parse_digits acc (c # cs) =
     (if is_ascii_digit c then parse_digits (acc * 10 + digit_value c) cs else None)"

definition parse_unsigned :: "string \<Rightarrow> nat option" where
  \<comment> \<open>\<open>str::parse\<close> of an unsigned type before its range check: an optional plus sign, then digits\<close>
  "parse_unsigned s = (case s of [] \<Rightarrow> None
     | c # cs \<Rightarrow> if c = CHR ''+'' then (if cs = [] then None else parse_digits 0 cs)
                 else parse_digits 0 s)"

definition parse_word :: "string \<Rightarrow> 'a::len word option" where
  \<comment> \<open>\<open>parse::<u32>\<close> and \<open>parse::<u64>\<close>\<close>
  "parse_word s = (case parse_unsigned s of None \<Rightarrow> None | Some n \<Rightarrow> word_of_len n)"

definition i64_range :: "int \<Rightarrow> bool" where
  "i64_range i \<longleftrightarrow> - (2 ^ 63) \<le> i \<and> i < 2 ^ 63"

definition parse_i64 :: "string \<Rightarrow> int option" where
  "parse_i64 s = (case s of [] \<Rightarrow> None
     | c # cs \<Rightarrow>
        (case (if c = CHR ''-'' \<and> cs \<noteq> [] then map_option (\<lambda>n. - int n) (parse_digits 0 cs)
               else map_option int (parse_unsigned s)) of
           None \<Rightarrow> None | Some i \<Rightarrow> if i64_range i then Some i else None))"

lemma parse_digits_append:
  "parse_digits acc (xs @ ys) = (case parse_digits acc xs of None \<Rightarrow> None | Some n \<Rightarrow> parse_digits n ys)"
  by (induction acc xs rule: parse_digits.induct) auto

lemma digit_char_facts:
  assumes "d < 10"
  shows "is_ascii_digit (digit_char d)" "digit_value (digit_char d) = d"
  using assms by (simp_all add: is_ascii_digit_def digit_char_def digit_value_def)

lemma digit_char_value: "is_ascii_digit c \<Longrightarrow> digit_char (digit_value c) = c \<and> digit_value c < 10"
  by (auto simp: is_ascii_digit_def digit_char_def digit_value_def)

lemma parse_digits_dec_text: "parse_digits 0 (dec_text n) = Some n"
proof (induction n rule: dec_text.induct)
  case (1 n)
  show ?case
  proof (cases "n < 10")
    case True
    then show ?thesis by (simp add: dec_text.simps [of n] digit_char_facts)
  next
    case False
    then show ?thesis
      using 1 by (simp add: dec_text.simps [of n] parse_digits_append digit_char_facts)
  qed
qed

lemma dec_text_digits: "c \<in> set (dec_text n) \<Longrightarrow> is_ascii_digit c"
proof (induction n rule: dec_text.induct)
  case (1 n)
  then show ?case
    by (subst (asm) dec_text.simps) (auto split: if_splits simp: digit_char_facts)
qed

lemma dec_text_not_Nil [simp]: "dec_text n \<noteq> []"
  by (subst dec_text.simps) simp

lemma dec_text_hd: "n > 0 \<Longrightarrow> hd (dec_text n) \<noteq> CHR ''0''"
proof (induction n rule: dec_text.induct)
  case (1 n)
  show ?case
  proof (cases "n < 10")
    case True
    have "digit_value CHR ''0'' = 0" by (simp add: digit_value_def)
    then show ?thesis using True 1(2) digit_char_facts(2) [of n]
      by (auto simp: dec_text.simps [of n])
  next
    case False
    then show ?thesis using 1 by (simp add: dec_text.simps [of n] hd_append)
  qed
qed

lemma parse_digits_all: "parse_digits acc s = Some n \<Longrightarrow> c \<in> set s \<Longrightarrow> is_ascii_digit c"
  by (induction acc s rule: parse_digits.induct) (auto split: if_splits)

lemma dec_text_parse_digits:
  assumes "parse_digits 0 s = Some n" and "s \<noteq> []" and "length s > 1 \<Longrightarrow> hd s \<noteq> CHR ''0''"
  shows "dec_text n = s"
  using assms
proof (induction s arbitrary: n rule: rev_induct)
  case (snoc c s)
  then obtain m where m: "parse_digits 0 s = Some m" and d: "is_ascii_digit c"
    and n: "n = m * 10 + digit_value c"
    by (auto simp: parse_digits_append split: option.splits if_splits)
  note dv = digit_char_value [OF d]
  show ?case
  proof (cases "s = []")
    case True
    then show ?thesis using m n dv by (simp add: dec_text.simps [of "digit_value c"])
  next
    case False
    then have "hd s \<noteq> CHR ''0''" using snoc.prems(3) by (cases s) auto
    then have t: "dec_text m = s" using snoc.IH [OF m] False by simp
    have "m \<noteq> 0"
    proof
      assume "m = 0"
      then have "s = [digit_char 0]" using t by (simp add: dec_text.simps)
      then show False
        using \<open>hd s \<noteq> CHR ''0''\<close> digit_char_value [of "CHR ''0''"]
        by (simp add: is_ascii_digit_def digit_value_def)
    qed
    then show ?thesis using n dv t by (simp add: dec_text.simps [of "m * 10 + digit_value c"])
  qed
qed simp

lemma digit_not_sign: "is_ascii_digit c \<Longrightarrow> c \<noteq> CHR ''+'' \<and> c \<noteq> CHR ''-''"
  by (auto simp: is_ascii_digit_def)

lemma dec_text_Cons: obtains c cs where "dec_text n = c # cs" "is_ascii_digit c"
  using dec_text_digits [of _ n] dec_text_not_Nil [of n] by (metis list.exhaust list.set_intros(1))

lemma parse_unsigned_dec_text [simp]: "parse_unsigned (dec_text n) = Some n"
proof -
  obtain c cs where "dec_text n = c # cs" "is_ascii_digit c" by (rule dec_text_Cons)
  then show ?thesis
    using parse_digits_dec_text [of n] digit_not_sign [of c] by (simp add: parse_unsigned_def)
qed

lemma parse_word_dec_text [simp]: "parse_word (dec_text (unat w)) = Some (w :: 'a::len word)"
  by (simp add: parse_word_def)

lemma parse_i64_int_text:
  assumes "i64_range i"
  shows "parse_i64 (int_text i) = Some i"
proof (cases "i < 0")
  case True
  then show ?thesis using assms
    by (simp add: int_text_def parse_i64_def parse_digits_dec_text)
next
  case False
  obtain c cs where c: "dec_text (nat i) = c # cs" "is_ascii_digit c" by (rule dec_text_Cons)
  have "parse_unsigned (c # cs) = Some (nat i)" using c(1) parse_unsigned_dec_text by metis
  then show ?thesis
    using False assms c digit_not_sign [OF c(2)] by (simp add: int_text_def parse_i64_def)
qed

subsection \<open>Positive integer identifiers\<close>

datatype integer_id_parse_error = IntegerNonCanonical | IntegerZero | IntegerOutOfRange

definition validate_decimal :: "string \<Rightarrow> (integer_id_parse_error, unit) result" where
  "validate_decimal input =
     (if input = [] \<or> \<not> list_all is_ascii_digit input \<or> (length input > 1 \<and> starts_with ''0'' input)
      then Inl IntegerNonCanonical else Inr ())"

datatype process_id = ProcessId (process_id_get: u32)
datatype event_sequence = EventSequence (sequence_get: u64)

definition process_id_ok :: "process_id \<Rightarrow> bool" where
  \<comment> \<open>\<open>NonZeroU32\<close>\<close>
  "process_id_ok p \<longleftrightarrow> process_id_get p \<noteq> 0"

definition process_id_new :: "u32 \<Rightarrow> process_id option" where
  "process_id_new value = (if value = 0 then None else Some (ProcessId value))"

definition process_id_text :: "process_id \<Rightarrow> string" where
  "process_id_text p = dec_text (unat (process_id_get p))"

definition process_id_from_str :: "string \<Rightarrow> (integer_id_parse_error, process_id) result" where
  "process_id_from_str input =
     and_then (validate_decimal input) (\<lambda>_.
     and_then (ok_or IntegerOutOfRange (parse_word input)) (\<lambda>value.
       ok_or IntegerZero (process_id_new value)))"

definition event_sequence_ok :: "event_sequence \<Rightarrow> bool" where
  \<comment> \<open>\<open>NonZeroU64\<close>\<close>
  "event_sequence_ok s \<longleftrightarrow> sequence_get s \<noteq> 0"

definition event_sequence_first :: event_sequence where
  "event_sequence_first = EventSequence 1"

definition event_sequence_new :: "u64 \<Rightarrow> event_sequence option" where
  "event_sequence_new value = (if value = 0 then None else Some (EventSequence value))"

definition checked_next :: "event_sequence \<Rightarrow> event_sequence option" where
  "checked_next s = (case checked_add (sequence_get s) 1 of
     Some value \<Rightarrow> event_sequence_new value | None \<Rightarrow> None)"

definition event_sequence_text :: "event_sequence \<Rightarrow> string" where
  "event_sequence_text s = dec_text (unat (sequence_get s))"

definition event_sequence_from_str :: "string \<Rightarrow> (integer_id_parse_error, event_sequence) result" where
  "event_sequence_from_str input =
     and_then (validate_decimal input) (\<lambda>_.
     and_then (ok_or IntegerOutOfRange (parse_word input)) (\<lambda>value.
       ok_or IntegerZero (event_sequence_new value)))"

instantiation event_sequence :: linorder
begin
definition less_eq_event_sequence :: "event_sequence \<Rightarrow> event_sequence \<Rightarrow> bool" where
  "less_eq_event_sequence a b \<longleftrightarrow> sequence_get a \<le> sequence_get b"
definition less_event_sequence :: "event_sequence \<Rightarrow> event_sequence \<Rightarrow> bool" where
  "less_event_sequence a b \<longleftrightarrow> sequence_get a < sequence_get b"
instance
  by standard (auto simp: less_eq_event_sequence_def less_event_sequence_def event_sequence.expand)
end

lemma checked_next_Some_iff:
  "checked_next s = Some t \<longleftrightarrow> unat (sequence_get t) = Suc (unat (sequence_get s))"
proof
  assume "checked_next s = Some t"
  then show "unat (sequence_get t) = Suc (unat (sequence_get s))"
    by (auto simp: checked_next_def event_sequence_new_def checked_add_Some_iff
        split: option.splits if_splits)
next
  assume t: "unat (sequence_get t) = Suc (unat (sequence_get s))"
  then have "checked_add (sequence_get s) 1 = Some (sequence_get t)" "sequence_get t \<noteq> 0"
    by (auto simp: checked_add_Some_iff)
  then show "checked_next s = Some t"
    by (simp add: checked_next_def event_sequence_new_def)
qed

lemma checked_next_less: "checked_next s = Some t \<Longrightarrow> s < t \<and> event_sequence_ok t"
  by (auto simp: checked_next_Some_iff less_event_sequence_def word_less_nat_alt event_sequence_ok_def)

lemma checked_next_None_iff: "checked_next s = None \<longleftrightarrow> sequence_get s = - 1"
proof -
  have "checked_next s = None \<longleftrightarrow> checked_add (sequence_get s) 1 = None"
  proof (cases "checked_add (sequence_get s) 1")
    case (Some v)
    then have "v \<noteq> 0" by (auto simp: checked_add_Some_iff)
    then show ?thesis using Some by (simp add: checked_next_def event_sequence_new_def)
  qed (simp add: checked_next_def)
  also have "\<dots> \<longleftrightarrow> 2 ^ 64 \<le> unat (sequence_get s) + 1"
    by (simp add: checked_add_None_iff)
  also have "\<dots> \<longleftrightarrow> unat (sequence_get s) = 2 ^ 64 - 1"
    using unat_lt_bounds(4) [of "sequence_get s"] by auto
  also have "\<dots> \<longleftrightarrow> sequence_get s = - 1"
    by (simp add: word_unat_eq_iff unsigned_minus_1_eq_mask mask_eq_exp_minus_1)
  finally show ?thesis .
qed

lemma validate_decimal_Inr_iff:
  "validate_decimal s = Inr u \<longleftrightarrow>
     s \<noteq> [] \<and> (\<forall>c \<in> set s. is_ascii_digit c) \<and> (length s > 1 \<longrightarrow> hd s \<noteq> CHR ''0'')"
  by (cases s) (auto simp: validate_decimal_def list_all_iff split: if_splits)

lemma validate_decimal_dec_text: "validate_decimal (dec_text n) = Inr ()"
proof -
  have "length (dec_text n) > 1 \<Longrightarrow> hd (dec_text n) \<noteq> CHR ''0''"
    using dec_text_hd [of n] by (cases "n = 0") (auto simp: dec_text.simps)
  then show ?thesis using dec_text_digits by (auto simp: validate_decimal_Inr_iff)
qed

lemma parse_word_canonical:
  assumes "validate_decimal s = Inr ()" and "parse_word s = Some (w :: 'a::len word)"
  shows "dec_text (unat w) = s"
proof -
  obtain n where n: "parse_unsigned s = Some n" and w: "word_of_len n = Some w"
    using assms(2) by (auto simp: parse_word_def split: option.splits)
  have "parse_digits 0 s = Some n"
    using n assms(1) digit_not_sign
    by (auto simp: parse_unsigned_def validate_decimal_Inr_iff split: list.splits if_splits)
  then have "dec_text n = s"
    using assms(1) by (intro dec_text_parse_digits) (auto simp: validate_decimal_Inr_iff)
  then show ?thesis using w by (simp add: word_of_len_Some_iff)
qed

interpretation process_id_form: text_form process_id_ok process_id_text process_id_from_str
proof
  fix x assume "process_id_ok x"
  then show "process_id_from_str (process_id_text x) = Inr x"
    by (simp add: process_id_from_str_def process_id_text_def process_id_ok_def process_id_new_def
        validate_decimal_dec_text)
next
  fix s x assume "process_id_from_str s = Inr x"
  then show "process_id_ok x \<and> process_id_text x = s"
    by (auto simp: process_id_from_str_def process_id_text_def process_id_ok_def process_id_new_def
        and_then_Inr_iff parse_word_canonical split: if_splits)
qed

interpretation event_sequence_form:
  text_form event_sequence_ok event_sequence_text event_sequence_from_str
proof
  fix x assume "event_sequence_ok x"
  then show "event_sequence_from_str (event_sequence_text x) = Inr x"
    by (simp add: event_sequence_from_str_def event_sequence_text_def event_sequence_ok_def
        event_sequence_new_def validate_decimal_dec_text)
next
  fix s x assume "event_sequence_from_str s = Inr x"
  then show "event_sequence_ok x \<and> event_sequence_text x = s"
    by (auto simp: event_sequence_from_str_def event_sequence_text_def event_sequence_ok_def
        event_sequence_new_def and_then_Inr_iff parse_word_canonical split: if_splits)
qed

subsection \<open>Time values\<close>

datatype time_parse_error = TimeNonCanonical | TimeOutOfRange

datatype timestamp = Timestamp (as_unix_milliseconds: int)
datatype monotonic_duration = MonotonicDuration (as_nanoseconds: u64)

definition timestamp_ok :: "timestamp \<Rightarrow> bool" where
  \<comment> \<open>the representation is an \<open>i64\<close>\<close>
  "timestamp_ok t \<longleftrightarrow> i64_range (as_unix_milliseconds t)"

definition timestamp_text :: "timestamp \<Rightarrow> string" where
  "timestamp_text t = int_text (as_unix_milliseconds t)"

definition timestamp_from_str :: "string \<Rightarrow> (time_parse_error, timestamp) result" where
  "timestamp_from_str input =
     and_then (ok_or TimeOutOfRange (parse_i64 input)) (\<lambda>value.
       if int_text value \<noteq> input then Inl TimeNonCanonical else Inr (Timestamp value))"

definition monotonic_zero :: monotonic_duration where
  "monotonic_zero = MonotonicDuration 0"

definition monotonic_text :: "monotonic_duration \<Rightarrow> string" where
  "monotonic_text d = dec_text (unat (as_nanoseconds d))"

definition monotonic_from_str :: "string \<Rightarrow> (time_parse_error, monotonic_duration) result" where
  "monotonic_from_str input =
     and_then (ok_or TimeOutOfRange (parse_word input)) (\<lambda>value.
       if dec_text (unat value) \<noteq> input then Inl TimeNonCanonical else Inr (MonotonicDuration value))"

definition monotonic_try_from :: "nat \<Rightarrow> (time_parse_error, monotonic_duration) result" where
  \<comment> \<open>the argument is \<open>Duration::as_nanos\<close>\<close>
  "monotonic_try_from nanos = map_ok MonotonicDuration (ok_or TimeOutOfRange (word_of_len nanos))"

instantiation monotonic_duration :: linorder
begin
definition less_eq_monotonic_duration :: "monotonic_duration \<Rightarrow> monotonic_duration \<Rightarrow> bool" where
  "less_eq_monotonic_duration a b \<longleftrightarrow> as_nanoseconds a \<le> as_nanoseconds b"
definition less_monotonic_duration :: "monotonic_duration \<Rightarrow> monotonic_duration \<Rightarrow> bool" where
  "less_monotonic_duration a b \<longleftrightarrow> as_nanoseconds a < as_nanoseconds b"
instance
  by standard
    (auto simp: less_eq_monotonic_duration_def less_monotonic_duration_def monotonic_duration.expand)
end

instantiation timestamp :: linorder
begin
definition less_eq_timestamp :: "timestamp \<Rightarrow> timestamp \<Rightarrow> bool" where
  "less_eq_timestamp a b \<longleftrightarrow> as_unix_milliseconds a \<le> as_unix_milliseconds b"
definition less_timestamp :: "timestamp \<Rightarrow> timestamp \<Rightarrow> bool" where
  "less_timestamp a b \<longleftrightarrow> as_unix_milliseconds a < as_unix_milliseconds b"
instance
  by standard (auto simp: less_eq_timestamp_def less_timestamp_def timestamp.expand)
end

lemma parse_i64_range: "parse_i64 s = Some i \<Longrightarrow> i64_range i"
  by (auto simp: parse_i64_def split: list.splits option.splits if_splits)

interpretation timestamp_form: text_form timestamp_ok timestamp_text timestamp_from_str
proof
  fix x assume "timestamp_ok x"
  then show "timestamp_from_str (timestamp_text x) = Inr x"
    by (simp add: timestamp_from_str_def timestamp_text_def timestamp_ok_def parse_i64_int_text)
next
  fix s x assume "timestamp_from_str s = Inr x"
  then show "timestamp_ok x \<and> timestamp_text x = s"
    by (auto simp: timestamp_from_str_def timestamp_text_def timestamp_ok_def and_then_Inr_iff
        parse_i64_range split: if_splits)
qed

interpretation monotonic_form: text_form "\<lambda>_. True" monotonic_text monotonic_from_str
  by unfold_locales
    (auto simp: monotonic_from_str_def monotonic_text_def and_then_Inr_iff split: if_splits)

lemma monotonic_try_from_Inr_iff:
  "monotonic_try_from n = Inr d \<longleftrightarrow> unat (as_nanoseconds d) = n"
  by (cases d) (auto simp: monotonic_try_from_def map_ok_Inr_iff word_of_len_Some_iff)

subsection \<open>Properties\<close>

text \<open>An object id is printed as 64 lowercase hexadecimal digits and the parser accepts exactly
  the printed forms, so every id has one durable spelling.\<close>
theorem object_id_text_canonical:
  "object_id_from_str s = Inr i \<longleftrightarrow> object_id_ok i \<and> object_id_text i = s"
  by (rule object_id_form.parse_Inr_iff)

text \<open>C40: the successor of an event sequence is the next integer, and it is refused only at the
  largest 64-bit value; it never wraps to zero.\<close>
theorem event_sequence_successor:
  "(checked_next s = Some t \<longleftrightarrow> unat (sequence_get t) = Suc (unat (sequence_get s)))
   \<and> (checked_next s = None \<longleftrightarrow> sequence_get s = - 1)"
  by (simp add: checked_next_Some_iff checked_next_None_iff)

end
