(* ===== verification/Run_Model.thy ===== *)
theory Run_Model
  imports Ids
begin

section \<open>Runs and checkpoints\<close>

text \<open>
  \<open>rewind-domain/src/run.rs\<close>: platforms, capture policies, the run lifecycle, the run record
  with its cross-field invariant, checkpoints.  The persisted spellings are instances of
  \<open>text_form\<close>; the lifecycle is also given as a step relation whose runs are bounded.
\<close>

datatype enum_parse_error = EnumParseError string string

datatype platform = MacOsAarch64 | LinuxX86_64 | LinuxAarch64

fun platform_as_str :: "platform \<Rightarrow> string" where
  "platform_as_str MacOsAarch64 = ''macos_aarch64''"
| "platform_as_str LinuxX86_64 = ''linux_x86_64''"
| "platform_as_str LinuxAarch64 = ''linux_aarch64''"

definition platform_from_str :: "string \<Rightarrow> (enum_parse_error, platform) result" where
  "platform_from_str input =
     (if input = ''macos_aarch64'' then Inr MacOsAarch64
      else if input = ''linux_x86_64'' then Inr LinuxX86_64
      else if input = ''linux_aarch64'' then Inr LinuxAarch64
      else Inl (EnumParseError ''platform'' input))"

datatype input_recording_policy = PolicyAuto | PolicyAlways | PolicyNever

fun input_policy_as_str :: "input_recording_policy \<Rightarrow> string" where
  "input_policy_as_str PolicyAuto = ''auto''"
| "input_policy_as_str PolicyAlways = ''always''"
| "input_policy_as_str PolicyNever = ''never''"

definition input_policy_from_str :: "string \<Rightarrow> (enum_parse_error, input_recording_policy) result" where
  "input_policy_from_str input =
     (if input = ''auto'' then Inr PolicyAuto
      else if input = ''always'' then Inr PolicyAlways
      else if input = ''never'' then Inr PolicyNever
      else Inl (EnumParseError ''input recording policy'' input))"

record capture_policy =
  record_input :: input_recording_policy
  capture_environment :: bool

datatype run_status = Preparing | Running | Completed | Failed | Interrupted | Crashed

fun can_transition_to :: "run_status \<Rightarrow> run_status \<Rightarrow> bool" where
  "can_transition_to Preparing Running = True"
| "can_transition_to Preparing Failed = True"
| "can_transition_to Preparing Interrupted = True"
| "can_transition_to Preparing Crashed = True"
| "can_transition_to Running Completed = True"
| "can_transition_to Running Failed = True"
| "can_transition_to Running Interrupted = True"
| "can_transition_to Running Crashed = True"
| "can_transition_to _ _ = False"

datatype invalid_run_status_transition = InvalidRunStatusTransition run_status run_status

definition transition_to :: "run_status \<Rightarrow> run_status \<Rightarrow> (invalid_run_status_transition, run_status) result" where
  "transition_to self next =
     (if \<not> can_transition_to self next then Inl (InvalidRunStatusTransition self next) else Inr next)"

fun is_terminal :: "run_status \<Rightarrow> bool" where
  "is_terminal Completed = True"
| "is_terminal Failed = True"
| "is_terminal Interrupted = True"
| "is_terminal Crashed = True"
| "is_terminal _ = False"

fun run_status_as_str :: "run_status \<Rightarrow> string" where
  "run_status_as_str Preparing = ''preparing''"
| "run_status_as_str Running = ''running''"
| "run_status_as_str Completed = ''completed''"
| "run_status_as_str Failed = ''failed''"
| "run_status_as_str Interrupted = ''interrupted''"
| "run_status_as_str Crashed = ''crashed''"

definition run_status_from_str :: "string \<Rightarrow> (enum_parse_error, run_status) result" where
  "run_status_from_str input =
     (if input = ''preparing'' then Inr Preparing
      else if input = ''running'' then Inr Running
      else if input = ''completed'' then Inr Completed
      else if input = ''failed'' then Inr Failed
      else if input = ''interrupted'' then Inr Interrupted
      else if input = ''crashed'' then Inr Crashed
      else Inl (EnumParseError ''run status'' input))"

datatype process_exit_status = ExitCode int | ExitSignal int | ExitUnknown

definition i32_range :: "int \<Rightarrow> bool" where
  "i32_range i \<longleftrightarrow> - (2 ^ 31) \<le> i \<and> i < 2 ^ 31"

fun exit_status_ok :: "process_exit_status \<Rightarrow> bool" where
  \<comment> \<open>the payloads are \<open>i32\<close>\<close>
  "exit_status_ok (ExitCode c) = i32_range c"
| "exit_status_ok (ExitSignal s) = i32_range s"
| "exit_status_ok ExitUnknown = True"

fun exit_code :: "process_exit_status \<Rightarrow> int option" where
  "exit_code (ExitCode c) = Some c"
| "exit_code (ExitSignal _) = None"
| "exit_code ExitUnknown = None"

fun exit_success :: "process_exit_status \<Rightarrow> bool option" where
  "exit_success (ExitCode c) = Some (c = 0)"
| "exit_success (ExitSignal _) = Some False"
| "exit_success ExitUnknown = None"

record run_parent =
  parent_run :: run_id
  parent_checkpoint :: checkpoint_id

record run =
  run_identity :: run_id
  run_branch :: branch_id
  run_parent_link :: "run_parent option"
  run_command :: string
  run_arguments :: "string list"
  run_workspace_root :: string
  run_started_at :: timestamp
  run_finished_at :: "timestamp option"
  run_monotonic_duration :: "monotonic_duration option"
  run_state :: run_status
  run_platform :: platform
  run_capture_policy :: capture_policy
  run_initial_snapshot :: "snapshot_id option"
  run_final_snapshot :: "snapshot_id option"
  run_exit_status :: "process_exit_status option"

datatype run_validation_error =
    EmptyCommand
  | SelfParent
  | ActiveRunHasFinishMetadata
  | RunningWithoutInitialSnapshot
  | TerminalRunMissingFinishMetadata

definition run_validate :: "run \<Rightarrow> (run_validation_error, unit) result" where
  "run_validate r =
     (if run_command r = [] then Inl EmptyCommand
      else if (case run_parent_link r of None \<Rightarrow> False | Some p \<Rightarrow> parent_run p = run_identity r)
        then Inl SelfParent
      else if run_state r = Preparing then
        (if run_finished_at r \<noteq> None \<or> run_monotonic_duration r \<noteq> None
         then Inl ActiveRunHasFinishMetadata else Inr ())
      else if run_state r = Running then
        (if run_initial_snapshot r = None then Inl RunningWithoutInitialSnapshot
         else if run_finished_at r \<noteq> None \<or> run_monotonic_duration r \<noteq> None
         then Inl ActiveRunHasFinishMetadata else Inr ())
      else if run_finished_at r = None \<or> run_monotonic_duration r = None
        then Inl TerminalRunMissingFinishMetadata
      else Inr ())"

datatype checkpoint_reason =
  ReasonInitial | ReasonManual | ReasonProcessBoundary | ReasonFilesystemQuiescence
  | ReasonAgentAdapter | ReasonFinal

fun checkpoint_reason_as_str :: "checkpoint_reason \<Rightarrow> string" where
  "checkpoint_reason_as_str ReasonInitial = ''initial''"
| "checkpoint_reason_as_str ReasonManual = ''manual''"
| "checkpoint_reason_as_str ReasonProcessBoundary = ''process_boundary''"
| "checkpoint_reason_as_str ReasonFilesystemQuiescence = ''filesystem_quiescence''"
| "checkpoint_reason_as_str ReasonAgentAdapter = ''agent_adapter''"
| "checkpoint_reason_as_str ReasonFinal = ''final''"

definition checkpoint_reason_from_str :: "string \<Rightarrow> (enum_parse_error, checkpoint_reason) result" where
  "checkpoint_reason_from_str input =
     (if input = ''initial'' then Inr ReasonInitial
      else if input = ''manual'' then Inr ReasonManual
      else if input = ''process_boundary'' then Inr ReasonProcessBoundary
      else if input = ''filesystem_quiescence'' then Inr ReasonFilesystemQuiescence
      else if input = ''agent_adapter'' then Inr ReasonAgentAdapter
      else if input = ''final'' then Inr ReasonFinal
      else Inl (EnumParseError ''checkpoint reason'' input))"

record checkpoint =
  ck_id :: checkpoint_id
  ck_run :: run_id
  ck_sequence :: event_sequence
  ck_label :: "string option"
  ck_reason :: checkpoint_reason
  ck_snapshot :: snapshot_id
  ck_created_at :: timestamp
  ck_offset :: monotonic_duration

datatype checkpoint_validation_error = EmptyLabel

definition checkpoint_validate :: "checkpoint \<Rightarrow> (checkpoint_validation_error, unit) result" where
  "checkpoint_validate c = (if ck_label c = Some [] then Inl EmptyLabel else Inr ())"

subsection \<open>Persisted spellings\<close>

lemma platform_from_as_str [simp]: "platform_from_str (platform_as_str p) = Inr p"
  by (cases p) (simp_all add: platform_from_str_def)

interpretation platform_form: text_form "\<lambda>_. True" platform_as_str platform_from_str
  by unfold_locales (simp, auto simp: platform_from_str_def split: if_splits)

lemma input_policy_from_as_str [simp]: "input_policy_from_str (input_policy_as_str p) = Inr p"
  by (cases p) (simp_all add: input_policy_from_str_def)

interpretation input_policy_form: text_form "\<lambda>_. True" input_policy_as_str input_policy_from_str
  by unfold_locales (simp, auto simp: input_policy_from_str_def split: if_splits)

lemma run_status_from_as_str [simp]: "run_status_from_str (run_status_as_str s) = Inr s"
  by (cases s) (simp_all add: run_status_from_str_def)

interpretation run_status_form: text_form "\<lambda>_. True" run_status_as_str run_status_from_str
  by unfold_locales (simp, auto simp: run_status_from_str_def split: if_splits)

lemma checkpoint_reason_from_as_str [simp]:
  "checkpoint_reason_from_str (checkpoint_reason_as_str r) = Inr r"
  by (cases r) (simp_all add: checkpoint_reason_from_str_def)

interpretation checkpoint_reason_form:
  text_form "\<lambda>_. True" checkpoint_reason_as_str checkpoint_reason_from_str
  by unfold_locales (simp, auto simp: checkpoint_reason_from_str_def split: if_splits)

subsection \<open>The lifecycle\<close>

inductive lifecycle :: "run_status \<Rightarrow> run_status \<Rightarrow> bool" where
  "transition_to s next = Inr t \<Longrightarrow> lifecycle s t"

inductive_cases lifecycleE: "lifecycle s t"

inductive_simps lifecycle_simps:
  "lifecycle Preparing t" "lifecycle Running t" "lifecycle Completed t"
  "lifecycle Failed t" "lifecycle Interrupted t" "lifecycle Crashed t"

fun status_rank :: "run_status \<Rightarrow> nat" where
  "status_rank Preparing = 0"
| "status_rank Running = 1"
| "status_rank _ = 2"

lemma transition_to_Inr_iff: "transition_to s n = Inr t \<longleftrightarrow> t = n \<and> can_transition_to s n"
  by (auto simp: transition_to_def)

lemma lifecycle_iff: "lifecycle s t \<longleftrightarrow> can_transition_to s t"
  by (auto simp: lifecycle.simps transition_to_Inr_iff)

lemma transition_rank: "can_transition_to s t \<Longrightarrow> status_rank s < status_rank t"
  by (cases s; cases t) simp_all

lemma terminal_stuck: "is_terminal s \<Longrightarrow> \<not> can_transition_to s t"
  by (cases s; cases t) simp_all

lemma not_terminal_moves: "\<not> is_terminal s \<Longrightarrow> \<exists>t. can_transition_to s t"
  by (cases s) (auto intro: exI [of _ Failed])

lemma lifecycle_rank: "lifecycle\<^sup>*\<^sup>* s t \<Longrightarrow> s = t \<or> status_rank s < status_rank t"
  by (induction rule: rtranclp_induct) (auto simp: lifecycle_iff dest: transition_rank)

lemma completed_only_after_running:
  "lifecycle\<^sup>*\<^sup>* Preparing t \<Longrightarrow> t = Completed \<Longrightarrow> lifecycle\<^sup>*\<^sup>* Preparing Running \<and> lifecycle Running t"
proof (induction rule: rtranclp_induct)
  case (step y z)
  then have "y = Running" by (cases y) (auto simp: lifecycle_iff)
  then show ?case using step by simp
qed simp

subsection \<open>Run records\<close>

definition run_ok :: "run \<Rightarrow> bool" where
  "run_ok r \<longleftrightarrow> run_command r \<noteq> []
     \<and> (\<forall>p. run_parent_link r = Some p \<longrightarrow> parent_run p \<noteq> run_identity r)
     \<and> (is_terminal (run_state r) \<longrightarrow> run_finished_at r \<noteq> None \<and> run_monotonic_duration r \<noteq> None)
     \<and> (\<not> is_terminal (run_state r) \<longrightarrow> run_finished_at r = None \<and> run_monotonic_duration r = None)
     \<and> (run_state r = Running \<longrightarrow> run_initial_snapshot r \<noteq> None)"

lemma run_validate_Inr [simp]: "run_validate r = Inr () \<longleftrightarrow> run_ok r"
  by (cases "run_state r") (auto simp: run_validate_def run_ok_def split: option.splits)

lemma checkpoint_validate_Inr [simp]: "checkpoint_validate c = Inr () \<longleftrightarrow> ck_label c \<noteq> Some []"
  by (simp add: checkpoint_validate_def)

lemma run_ok_finish:
  assumes "run_ok r" and "can_transition_to (run_state r) s" and "is_terminal s"
  shows "run_ok (r\<lparr>run_state := s, run_finished_at := Some t, run_monotonic_duration := Some d\<rparr>)"
  using assms by (auto simp: run_ok_def)

lemma run_ok_start:
  assumes "run_ok r" and "run_state r = Preparing"
  shows "run_ok (r\<lparr>run_state := Running, run_initial_snapshot := Some i\<rparr>)"
  using assms by (auto simp: run_ok_def)

subsection \<open>Properties\<close>



end
