(* ===== verification/Paths.thy ===== *)
theory Paths
  imports Ids
begin

section \<open>Snapshot paths and canonical sequences\<close>

text \<open>
  \<open>SnapshotPath\<close> of \<open>rewind-domain/src/snapshot.rs\<close> and the loop that several types share: a
  sequence of items is accepted when every item is valid and the keys are strictly increasing
  (manifest entries, comparison changes, dirty paths, bundle entries).  The locale
  \<open>canonical_sequence\<close> states that contract and derives that an accepted sequence is determined
  by its set of items.
\<close>

type_synonym snapshot_path = string

definition MAX_SNAPSHOT_PATH_BYTES :: nat where
  "MAX_SNAPSHOT_PATH_BYTES = 4096"

datatype snapshot_path_error =
    PathEmpty
  | PathTooLong nat nat
  | PathAbsolute
  | PathNul
  | PathBackslash
  | PathEmptyComponent
  | PathCurrentDirectory
  | PathParentDirectory

definition backslash :: char where "backslash = char_of (92 :: nat)"
definition nul :: char where "nul = char_of (0 :: nat)"

definition check_path_component :: "string \<Rightarrow> (snapshot_path_error, unit) result" where
  "check_path_component c =
     (if c = '''' then Inl PathEmptyComponent
      else if c = ''.'' then Inl PathCurrentDirectory
      else if c = ''..'' then Inl PathParentDirectory
      else Inr ())"

definition snapshot_path_from_str :: "string \<Rightarrow> (snapshot_path_error, snapshot_path) result" where
  "snapshot_path_from_str input =
     (if input = [] then Inl PathEmpty
      else if length input > MAX_SNAPSHOT_PATH_BYTES
        then Inl (PathTooLong (length input) MAX_SNAPSHOT_PATH_BYTES)
      else if starts_with ''/'' input then Inl PathAbsolute
      else if nul \<in> set input then Inl PathNul
      else if backslash \<in> set input then Inl PathBackslash
      else and_then (for_each check_path_component (split_on CHR ''/'' input)) (\<lambda>_. Inr input))"

definition component_ok :: "string \<Rightarrow> bool" where
  "component_ok c \<longleftrightarrow> c \<noteq> [] \<and> c \<noteq> ''.'' \<and> c \<noteq> ''..''"

definition path_ok :: "snapshot_path \<Rightarrow> bool" where
  \<comment> \<open>the invariant of the type: what a constructed \<open>SnapshotPath\<close> satisfies\<close>
  "path_ok p \<longleftrightarrow> length p \<le> MAX_SNAPSHOT_PATH_BYTES \<and> nul \<notin> set p \<and> backslash \<notin> set p
     \<and> (\<forall>c \<in> set (split_on CHR ''/'' p). component_ok c)"

lemma check_path_component_Inr [simp]: "check_path_component c = Inr u \<longleftrightarrow> component_ok c"
  by (simp add: check_path_component_def component_ok_def)

lemma path_ok_not_Nil: "path_ok p \<Longrightarrow> p \<noteq> []"
  by (cases p) (simp_all add: path_ok_def component_ok_def)

lemma path_ok_not_absolute: "path_ok p \<Longrightarrow> \<not> starts_with ''/'' p"
  by (cases p) (auto simp: path_ok_def component_ok_def split: if_splits)

lemma snapshot_path_from_str_Inr_iff:
  "snapshot_path_from_str s = Inr p \<longleftrightarrow> p = s \<and> path_ok s"
proof -
  have "snapshot_path_from_str s = Inr p \<longleftrightarrow> s \<noteq> [] \<and> \<not> starts_with ''/'' s \<and> p = s \<and> path_ok s"
    by (auto simp: snapshot_path_from_str_def path_ok_def and_then_Inr_iff for_each_Inr_iff)
  then show ?thesis using path_ok_not_Nil path_ok_not_absolute by blast
qed

interpretation snapshot_path_form: text_form path_ok "\<lambda>p. p" snapshot_path_from_str
  by unfold_locales (auto simp: snapshot_path_from_str_Inr_iff)

subsection \<open>Paths stay beneath their root\<close>

fun lexical_walk :: "string list \<Rightarrow> string list \<Rightarrow> string list option" where
  \<comment> \<open>what a file system does with the components of a relative path, \<open>None\<close> above the root\<close>
  "lexical_walk stack [] = Some stack"
| "lexical_walk stack (c # cs) =
     (if c = [] \<or> c = ''.'' then lexical_walk stack cs
      else if c = ''..'' then (if stack = [] then None else lexical_walk (butlast stack) cs)
      else lexical_walk (stack @ [c]) cs)"

lemma lexical_walk_ok:
  "(\<forall>c \<in> set cs. component_ok c) \<Longrightarrow> lexical_walk stack cs = Some (stack @ cs)"
  by (induction stack cs rule: lexical_walk.induct) (auto simp: component_ok_def)

lemma path_walk: "path_ok p \<Longrightarrow> lexical_walk root (split_on CHR ''/'' p) = Some (root @ split_on CHR ''/'' p)"
  by (auto simp: path_ok_def intro: lexical_walk_ok)

subsection \<open>Canonical sequences\<close>

fun canonical_loop :: "('a \<Rightarrow> ('e, unit) result) \<Rightarrow> ('a \<Rightarrow> 'k::linorder) \<Rightarrow> ('k \<Rightarrow> 'e) \<Rightarrow> (nat \<Rightarrow> 'e)
    \<Rightarrow> nat \<Rightarrow> 'k option \<Rightarrow> 'a list \<Rightarrow> ('e, unit) result" where
  \<comment> \<open>the index and the previous key are the loop state; the match is on \<open>Ord::cmp\<close>\<close>
  "canonical_loop validate key duplicate disorder index previous [] = Inr ()"
| "canonical_loop validate key duplicate disorder index previous (x # xs) =
     and_then (validate x) (\<lambda>_.
       case previous of
         None \<Rightarrow> canonical_loop validate key duplicate disorder (Suc index) (Some (key x)) xs
       | Some p \<Rightarrow>
           if p = key x then Inl (duplicate (key x))
           else if p > key x then Inl (disorder index)
           else canonical_loop validate key duplicate disorder (Suc index) (Some (key x)) xs)"

definition strictly_sorted :: "'k::linorder list \<Rightarrow> bool" where
  "strictly_sorted ks \<longleftrightarrow> sorted_wrt (<) ks"

lemma strictly_sorted_simps [simp]:
  "strictly_sorted []"
  "strictly_sorted (x # xs) \<longleftrightarrow> (\<forall>y \<in> set xs. x < y) \<and> strictly_sorted xs"
  by (simp_all add: strictly_sorted_def)

lemma strictly_sorted_append:
  "strictly_sorted (xs @ ys) \<longleftrightarrow> strictly_sorted xs \<and> strictly_sorted ys \<and> (\<forall>x \<in> set xs. \<forall>y \<in> set ys. x < y)"
  by (auto simp: strictly_sorted_def sorted_wrt_append)

lemma strictly_sorted_iff: "strictly_sorted ks \<longleftrightarrow> sorted ks \<and> distinct ks"
  by (simp add: strictly_sorted_def strict_sorted_iff)

lemma canonical_loop_Inr_iff:
  "canonical_loop validate key duplicate disorder index previous xs = Inr () \<longleftrightarrow>
     (\<forall>x \<in> set xs. validate x = Inr ()) \<and> strictly_sorted (map key xs)
     \<and> (case previous of None \<Rightarrow> True | Some p \<Rightarrow> \<forall>x \<in> set xs. p < key x)"
proof (induction xs arbitrary: index previous)
  case (Cons x xs)
  show ?case
    by (cases previous) (auto simp: and_then_Inr_iff Cons.IH not_less intro: less_trans)
qed (auto split: option.splits)

lemma sorted_key_unique:
  assumes "strictly_sorted (map key xs)" "strictly_sorted (map key ys)" "set xs = set ys"
  shows "xs = ys"
proof -
  have "map key xs = map key ys"
    using assms by (intro sorted_distinct_set_unique) (auto simp: strictly_sorted_iff)
  moreover have "inj_on key (set xs \<union> set ys)"
    using assms by (simp add: strictly_sorted_iff distinct_map)
  ultimately show ?thesis by (metis map_inj_on)
qed

lemma strictly_sorted_sort_key:
  "strictly_sorted (map key (sort_key key xs)) \<longleftrightarrow> distinct (map key xs)"
  by (simp add: strictly_sorted_iff distinct_map)

lemma sort_key_permutation:
  assumes "distinct (map key xs)" and "mset xs = mset ys"
  shows "sort_key key xs = sort_key key ys"
proof (rule sorted_key_unique)
  have "distinct (map key ys)"
    using assms by (metis distinct_map mset_eq_imp_distinct_iff mset_eq_setD)
  then show "strictly_sorted (map key (sort_key key ys))" by (simp add: strictly_sorted_sort_key)
qed (use assms in \<open>auto simp: strictly_sorted_sort_key dest: mset_eq_setD\<close>)

locale canonical_sequence =
  fixes key :: "'a \<Rightarrow> 'k::linorder"
    and item_ok :: "'a \<Rightarrow> bool"
    and accepts :: "'a list \<Rightarrow> bool"
  assumes accepts_iff: "accepts xs \<longleftrightarrow> (\<forall>x \<in> set xs. item_ok x) \<and> strictly_sorted (map key xs)"
begin

lemma key_inj: "accepts xs \<Longrightarrow> x \<in> set xs \<Longrightarrow> y \<in> set xs \<Longrightarrow> key x = key y \<Longrightarrow> x = y"
  by (auto simp: accepts_iff strictly_sorted_iff distinct_map dest: inj_onD)

lemma accepted_distinct: "accepts xs \<Longrightarrow> distinct xs \<and> distinct (map key xs)"
  by (auto simp: accepts_iff strictly_sorted_iff distinct_map)

lemma canonical_unique: "accepts xs \<Longrightarrow> accepts ys \<Longrightarrow> set xs = set ys \<Longrightarrow> xs = ys"
  by (rule sorted_key_unique [where key = key]) (auto simp: accepts_iff)

lemma accepts_sort:
  "accepts (sort_key key xs) \<longleftrightarrow> (\<forall>x \<in> set xs. item_ok x) \<and> distinct (map key xs)"
  by (simp add: accepts_iff strictly_sorted_sort_key)

lemma accepts_filter: "accepts xs \<Longrightarrow> accepts (filter P xs)"
  by (auto simp: accepts_iff strictly_sorted_iff distinct_map_filter sorted_filter)

end

subsection \<open>Properties\<close>

lemma special_chars: "nul = CHR 0x00" "backslash = CHR 0x5C"
  by (simp_all add: nul_def backslash_def char_of_def bit_Suc_0_iff)

text \<open>C38: a string that the parser accepts as a snapshot path is kept unchanged, contains no NUL and
  no backslash, and walking its components from any root only descends: it never leaves the root.\<close>
theorem snapshot_path_stays_inside:
  assumes "snapshot_path_from_str s = Inr p"
  shows "p = s \<and> length p \<le> MAX_SNAPSHOT_PATH_BYTES \<and> nul \<notin> set p \<and> backslash \<notin> set p
    \<and> lexical_walk root (split_on CHR ''/'' p) = Some (root @ split_on CHR ''/'' p)"
  using assms path_walk by (auto simp: snapshot_path_from_str_Inr_iff path_ok_def)

theorem snapshot_path_stays_inside_witness:
  "snapshot_path_from_str ''src/a..b'' = Inr ''src/a..b''
    \<and> lexical_walk [''r''] (split_on CHR ''/'' ''src/a..b'') = Some [''r'', ''src'', ''a..b'']"
proof -
  have a: "snapshot_path_from_str ''src/a..b'' = Inr ''src/a..b''"
    by (simp add: snapshot_path_from_str_def MAX_SNAPSHOT_PATH_BYTES_def special_chars
        check_path_component_def)
  show ?thesis using a snapshot_path_stays_inside [OF a, of "[''r'']"] by simp
qed

end
