(* ===== verification/Events.thy ===== *)
theory Events
  imports Run_Model Paths
begin

section \<open>Execution events\<close>

text \<open>
  \<open>rewind-domain/src/event.rs\<close>: the event record, its payloads and their validation.  An event
  is persisted or replayed only after \<open>event_validate\<close>; \<open>payload_ok\<close> states what that
  guarantees.
\<close>

definition EVENT_SCHEMA_VERSION :: u16 where "EVENT_SCHEMA_VERSION = 1"
definition MAX_DIRTY_PATHS_PER_EVENT :: nat where "MAX_DIRTY_PATHS_PER_EVENT = 4096"
definition MAX_EVENT_TEXT_BYTES :: nat where "MAX_EVENT_TEXT_BYTES = 8192"

datatype workspace_clone_strategy = ApfsClone | LinuxReflink | MixedClone | RecursiveCopy

fun clone_strategy_as_str :: "workspace_clone_strategy \<Rightarrow> string" where
  "clone_strategy_as_str ApfsClone = ''apfs_clone''"
| "clone_strategy_as_str LinuxReflink = ''linux_reflink''"
| "clone_strategy_as_str MixedClone = ''mixed''"
| "clone_strategy_as_str RecursiveCopy = ''recursive_copy''"

datatype input_redaction_reason =
  EchoDisabled | RedactPolicyNever | EchoDetectionUnavailable | ExportPolicy

datatype process_relationship = RootProcess | DescendantProcess

record process_observation =
  obs_process_id :: process_id
  obs_parent_process_id :: "process_id option"
  obs_executable :: "string option"
  obs_command :: string
  obs_relationship :: process_relationship

datatype recorder_failure_kind =
  FailSnapshot | FailStorage | FailConcurrentWorkspaceMutation | FailResourceLimit
  | FailInternalInvariant

record recorder_failure =
  failure_kind :: recorder_failure_kind
  failure_message :: string

datatype recorder_warning_code =
  WarnCloneFallback | WarnWatcherOverflow | WarnProcessObservationIncomplete
  | WarnInputEchoDetectionUncertain | WarnStorageLimit | WarnFilesystemRace
  | WarnPrivacyCleanupFailed | WarnOther

record recorder_warning =
  warning_code :: recorder_warning_code
  warning_message :: string

datatype event_payload =
    RunStarted process_id terminal_stream_id
  | WorkspaceIsolated workspace_clone_strategy
  | TerminalInput terminal_stream_id object_id u64
  | TerminalInputRedacted terminal_stream_id u64 input_redaction_reason
  | TerminalOutput terminal_stream_id object_id u64
  | TerminalResized terminal_stream_id u16 u16
  | ProcessObserved process_observation
  | ProcessExited process_id process_exit_status
  | FilesystemPathsDirtied "snapshot_path list"
  | CheckpointStarted checkpoint_id checkpoint_reason
  | CheckpointCommitted checkpoint_id snapshot_id
  | CheckpointFailed checkpoint_id recorder_failure
  | MarkerCreated checkpoint_id string
  | RunInterrupted "int option"
  | RunCompleted run_status "process_exit_status option"
  | RecorderWarningEvent recorder_warning

record event =
  ev_id :: event_id
  ev_run :: run_id
  ev_sequence :: event_sequence
  ev_wall_clock :: timestamp
  ev_offset :: monotonic_duration
  ev_schema_version :: u16
  ev_payload :: event_payload

datatype event_payload_error =
    EmptyTerminalFrame
  | ZeroTerminalDimension
  | EmptyDirtyPaths
  | TooManyDirtyPaths nat nat
  | NonCanonicalDirtyPaths
  | EmptyMarkerLabel
  | EmptyProcessCommand
  | EmptyDiagnostic
  | TextTooLong
  | NonterminalCompletionStatus

datatype event_validation_error =
    UnsupportedEventSchema u16 u16
  | InvalidPayload event_payload_error

fun windows_ascend :: "'a::linorder list \<Rightarrow> bool" where
  \<comment> \<open>no adjacent pair with \<open>pair[0] >= pair[1]\<close>\<close>
  "windows_ascend (a # b # rest) = (\<not> a \<ge> b \<and> windows_ascend (b # rest))"
| "windows_ascend _ = True"

definition validate_dirty_paths :: "snapshot_path list \<Rightarrow> (event_payload_error, unit) result" where
  "validate_dirty_paths paths =
     (if paths = [] then Inl EmptyDirtyPaths
      else if length paths > MAX_DIRTY_PATHS_PER_EVENT
        then Inl (TooManyDirtyPaths (length paths) MAX_DIRTY_PATHS_PER_EVENT)
      else if \<not> windows_ascend paths then Inl NonCanonicalDirtyPaths
      else Inr ())"

definition validate_diagnostic :: "string \<Rightarrow> (event_payload_error, unit) result" where
  "validate_diagnostic message =
     (if message = [] then Inl EmptyDiagnostic
      else if length message > MAX_EVENT_TEXT_BYTES then Inl TextTooLong
      else Inr ())"

definition observation_validate :: "process_observation \<Rightarrow> (event_payload_error, unit) result" where
  "observation_validate p =
     (if obs_command p = [] then Inl EmptyProcessCommand
      else if length (obs_command p) > MAX_EVENT_TEXT_BYTES
          \<or> (case obs_executable p of None \<Rightarrow> False | Some v \<Rightarrow> length v > MAX_EVENT_TEXT_BYTES)
        then Inl TextTooLong
      else Inr ())"

fun payload_validate :: "event_payload \<Rightarrow> (event_payload_error, unit) result" where
  "payload_validate (TerminalInput _ _ byte_len) =
     (if byte_len = 0 then Inl EmptyTerminalFrame else Inr ())"
| "payload_validate (TerminalInputRedacted _ byte_len _) =
     (if byte_len = 0 then Inl EmptyTerminalFrame else Inr ())"
| "payload_validate (TerminalOutput _ _ byte_len) =
     (if byte_len = 0 then Inl EmptyTerminalFrame else Inr ())"
| "payload_validate (TerminalResized _ columns rows) =
     (if columns = 0 \<or> rows = 0 then Inl ZeroTerminalDimension else Inr ())"
| "payload_validate (ProcessObserved process) = observation_validate process"
| "payload_validate (FilesystemPathsDirtied paths) = validate_dirty_paths paths"
| "payload_validate (MarkerCreated _ label) =
     (if label = [] then Inl EmptyMarkerLabel
      else if length label > MAX_EVENT_TEXT_BYTES then Inl TextTooLong
      else Inr ())"
| "payload_validate (CheckpointFailed _ failure) = validate_diagnostic (failure_message failure)"
| "payload_validate (RunCompleted status _) =
     (if \<not> is_terminal status then Inl NonterminalCompletionStatus else Inr ())"
| "payload_validate (RecorderWarningEvent warning) = validate_diagnostic (warning_message warning)"
| "payload_validate (RunStarted _ _) = Inr ()"
| "payload_validate (WorkspaceIsolated _) = Inr ()"
| "payload_validate (ProcessExited _ _) = Inr ()"
| "payload_validate (CheckpointStarted _ _) = Inr ()"
| "payload_validate (CheckpointCommitted _ _) = Inr ()"
| "payload_validate (RunInterrupted _) = Inr ()"

fun dedup :: "'a list \<Rightarrow> 'a list" where
  \<comment> \<open>\<open>Vec::dedup\<close>: drops consecutive repetitions\<close>
  "dedup (a # b # rest) = (if a = b then dedup (a # rest) else a # dedup (b # rest))"
| "dedup xs = xs"

definition filesystem_paths_dirtied ::
    "snapshot_path list \<Rightarrow> (event_payload_error, event_payload) result" where
  "filesystem_paths_dirtied paths =
     (let payload = FilesystemPathsDirtied (dedup (sort paths))
      in and_then (payload_validate payload) (\<lambda>_. Inr payload))"

definition event_validate :: "event \<Rightarrow> (event_validation_error, unit) result" where
  "event_validate e =
     (if ev_schema_version e \<noteq> EVENT_SCHEMA_VERSION
      then Inl (UnsupportedEventSchema (ev_schema_version e) EVENT_SCHEMA_VERSION)
      else map_err InvalidPayload (payload_validate (ev_payload e)))"

definition event_new ::
    "event_id \<Rightarrow> run_id \<Rightarrow> event_sequence \<Rightarrow> timestamp \<Rightarrow> monotonic_duration \<Rightarrow> event_payload
     \<Rightarrow> (event_validation_error, event) result" where
  \<comment> \<open>the first argument is the freshly generated id\<close>
  "event_new fresh_id run_id sequence wall_clock monotonic_offset payload =
     (let e = \<lparr>ev_id = fresh_id, ev_run = run_id, ev_sequence = sequence,
               ev_wall_clock = wall_clock, ev_offset = monotonic_offset,
               ev_schema_version = EVENT_SCHEMA_VERSION, ev_payload = payload\<rparr>
      in and_then (event_validate e) (\<lambda>_. Inr e))"

subsection \<open>What validation guarantees\<close>

definition text_ok :: "string \<Rightarrow> bool" where
  "text_ok s \<longleftrightarrow> s \<noteq> [] \<and> length s \<le> MAX_EVENT_TEXT_BYTES"

fun payload_ok :: "event_payload \<Rightarrow> bool" where
  "payload_ok (TerminalInput _ _ n) \<longleftrightarrow> n \<noteq> 0"
| "payload_ok (TerminalInputRedacted _ n _) \<longleftrightarrow> n \<noteq> 0"
| "payload_ok (TerminalOutput _ _ n) \<longleftrightarrow> n \<noteq> 0"
| "payload_ok (TerminalResized _ c r) \<longleftrightarrow> c \<noteq> 0 \<and> r \<noteq> 0"
| "payload_ok (ProcessObserved p) \<longleftrightarrow> text_ok (obs_command p)
     \<and> (\<forall>v. obs_executable p = Some v \<longrightarrow> length v \<le> MAX_EVENT_TEXT_BYTES)"
| "payload_ok (FilesystemPathsDirtied ps) \<longleftrightarrow>
     ps \<noteq> [] \<and> length ps \<le> MAX_DIRTY_PATHS_PER_EVENT \<and> strictly_sorted ps"
| "payload_ok (MarkerCreated _ l) \<longleftrightarrow> text_ok l"
| "payload_ok (CheckpointFailed _ f) \<longleftrightarrow> text_ok (failure_message f)"
| "payload_ok (RunCompleted s _) \<longleftrightarrow> is_terminal s"
| "payload_ok (RecorderWarningEvent w) \<longleftrightarrow> text_ok (warning_message w)"
| "payload_ok _ \<longleftrightarrow> True"

definition event_ok :: "event \<Rightarrow> bool" where
  "event_ok e \<longleftrightarrow> ev_schema_version e = EVENT_SCHEMA_VERSION \<and> payload_ok (ev_payload e)"

lemma windows_ascend_iff: "windows_ascend xs \<longleftrightarrow> strictly_sorted xs"
  by (induction xs rule: windows_ascend.induct) (auto simp: not_le intro: less_trans)

definition dirty_paths_accepted :: "snapshot_path list \<Rightarrow> bool" where
  "dirty_paths_accepted ps \<longleftrightarrow> windows_ascend ps"

interpretation dirty_sequence: canonical_sequence "\<lambda>p. p" "\<lambda>_. True" dirty_paths_accepted
  by unfold_locales (simp add: dirty_paths_accepted_def windows_ascend_iff)

lemma validate_diagnostic_Inr [simp]: "validate_diagnostic m = Inr () \<longleftrightarrow> text_ok m"
  by (auto simp: validate_diagnostic_def text_ok_def)

lemma validate_dirty_paths_Inr [simp]:
  "validate_dirty_paths ps = Inr () \<longleftrightarrow>
     ps \<noteq> [] \<and> length ps \<le> MAX_DIRTY_PATHS_PER_EVENT \<and> strictly_sorted ps"
  by (auto simp: validate_dirty_paths_def windows_ascend_iff)

lemma payload_validate_Inr [simp]: "payload_validate p = Inr () \<longleftrightarrow> payload_ok p"
  by (cases p) (auto simp: observation_validate_def text_ok_def split: option.splits)

lemma event_validate_Inr [simp]: "event_validate e = Inr () \<longleftrightarrow> event_ok e"
  by (simp add: event_validate_def event_ok_def)

lemma event_new_Inr_iff:
  "event_new i r s w o' p = Inr e \<longleftrightarrow> payload_ok p \<and>
     e = \<lparr>ev_id = i, ev_run = r, ev_sequence = s, ev_wall_clock = w, ev_offset = o',
          ev_schema_version = EVENT_SCHEMA_VERSION, ev_payload = p\<rparr>"
  by (auto simp: event_new_def Let_def and_then_Inr_iff event_ok_def)

lemma set_dedup [simp]: "set (dedup xs) = set xs"
  by (induction xs rule: dedup.induct) auto

lemma dedup_sorted: "sorted xs \<Longrightarrow> strictly_sorted (dedup xs)"
proof (induction xs rule: dedup.induct)
  case (1 a b rest)
  then show ?case by (auto simp: order.strict_iff_order)
qed auto

lemma dedup_sort: "dedup (sort xs) = sorted_list_of_set (set xs)"
proof (rule sorted_key_unique [where key = "\<lambda>x. x"])
  show "strictly_sorted (map (\<lambda>x. x) (dedup (sort xs)))" by (simp add: dedup_sorted)
  show "strictly_sorted (map (\<lambda>x. x) (sorted_list_of_set (set xs)))"
    by (simp add: strictly_sorted_iff)
qed simp

lemma filesystem_paths_dirtied_Inr_iff:
  "filesystem_paths_dirtied ps = Inr p \<longleftrightarrow>
     ps \<noteq> [] \<and> card (set ps) \<le> MAX_DIRTY_PATHS_PER_EVENT
     \<and> p = FilesystemPathsDirtied (sorted_list_of_set (set ps))"
proof -
  have "strictly_sorted (sorted_list_of_set (set ps))" by (simp add: strictly_sorted_iff)
  then show ?thesis
    by (auto simp: filesystem_paths_dirtied_def Let_def and_then_Inr_iff dedup_sort)
qed

subsection \<open>Properties\<close>

text \<open>The dirty-path payload is built exactly when there is a path and at most 4096 distinct
  ones, and it then lists each path once in byte order, whatever the order of the reports.\<close>
theorem dirty_paths_normal_form:
  "filesystem_paths_dirtied ps = Inr p \<longleftrightarrow>
     ps \<noteq> [] \<and> card (set ps) \<le> 4096 \<and> p = FilesystemPathsDirtied (sorted_list_of_set (set ps))"
  by (simp add: filesystem_paths_dirtied_Inr_iff MAX_DIRTY_PATHS_PER_EVENT_def)



end
