(* ===== verification/Manifest.thy ===== *)
theory Manifest
  imports Paths
begin

section \<open>Snapshot manifests\<close>

text \<open>
  Permissions, entries and manifests of \<open>rewind-domain/src/snapshot.rs\<close>.  The constructor
  \<open>manifest_new\<close> sorts and validates, \<open>from_canonical_entries\<close> accepts only entries that are
  already in canonical order; both are instances of \<open>canonical_sequence\<close>.
\<close>

datatype unix_permissions = UnixPermissions (permission_bits: u16)

definition PERMISSIONS_MASK :: u16 where
  \<comment> \<open>octal 7777\<close>
  "PERMISSIONS_MASK = 0xFFF"

definition permissions_new :: "u16 \<Rightarrow> (u16, unix_permissions) result" where
  \<comment> \<open>the error is \<open>InvalidUnixPermissions\<close> with the rejected bits\<close>
  "permissions_new bits =
     (if and bits (not PERMISSIONS_MASK) = 0 then Inr (UnixPermissions bits) else Inl bits)"

definition permissions_ok :: "unix_permissions \<Rightarrow> bool" where
  "permissions_ok p \<longleftrightarrow> and (permission_bits p) (not PERMISSIONS_MASK) = 0"

definition is_executable :: "unix_permissions \<Rightarrow> bool" where
  \<comment> \<open>octal 111: any owner, group or other execute bit\<close>
  "is_executable p \<longleftrightarrow> and (permission_bits p) 0x49 \<noteq> 0"

datatype snapshot_entry_kind =
    Directory
  | File object_id u64 bool
  | Symlink string

record snapshot_entry =
  entry_path :: snapshot_path
  entry_kind :: snapshot_entry_kind
  entry_permissions :: unix_permissions

datatype snapshot_entry_error =
    ExecutableBitMismatch
  | EmptySymlinkTarget
  | NulSymlinkTarget
  | SymlinkTargetTooLong

definition entry_validate :: "snapshot_entry \<Rightarrow> (snapshot_entry_error, unit) result" where
  "entry_validate e = (case entry_kind e of
       File object_id byte_size executable \<Rightarrow>
         if executable \<noteq> is_executable (entry_permissions e) then Inl ExecutableBitMismatch else Inr ()
     | Symlink target \<Rightarrow>
         if target = [] then Inl EmptySymlinkTarget
         else if nul \<in> set target then Inl NulSymlinkTarget
         else if length target > MAX_SNAPSHOT_PATH_BYTES then Inl SymlinkTargetTooLong
         else Inr ()
     | Directory \<Rightarrow> Inr ())"

definition SNAPSHOT_SCHEMA_VERSION :: u16 where "SNAPSHOT_SCHEMA_VERSION = 1"

record snapshot_manifest =
  manifest_schema_version :: u16
  manifest_entries :: "snapshot_entry list"

datatype snapshot_manifest_error =
    UnsupportedSnapshotSchema u16 u16
  | InvalidEntry snapshot_path snapshot_entry_error
  | ManifestDuplicatePath snapshot_path
  | ManifestNonCanonicalOrder nat

definition from_canonical_entries ::
    "u16 \<Rightarrow> snapshot_entry list \<Rightarrow> (snapshot_manifest_error, snapshot_manifest) result" where
  "from_canonical_entries schema_version entries =
     (if schema_version \<noteq> SNAPSHOT_SCHEMA_VERSION
      then Inl (UnsupportedSnapshotSchema schema_version SNAPSHOT_SCHEMA_VERSION)
      else and_then
        (canonical_loop (\<lambda>e. map_err (InvalidEntry (entry_path e)) (entry_validate e))
           entry_path ManifestDuplicatePath ManifestNonCanonicalOrder 0 None entries)
        (\<lambda>_. Inr \<lparr>manifest_schema_version = schema_version, manifest_entries = entries\<rparr>))"

definition manifest_new ::
    "snapshot_entry list \<Rightarrow> (snapshot_manifest_error, snapshot_manifest) result" where
  "manifest_new entries =
     from_canonical_entries SNAPSHOT_SCHEMA_VERSION (sort_key entry_path entries)"

record snapshot =
  snapshot_identity :: snapshot_id
  snapshot_content :: snapshot_manifest

definition entry_ok :: "snapshot_entry \<Rightarrow> bool" where
  \<comment> \<open>what \<open>validate\<close> accepts\<close>
  "entry_ok e \<longleftrightarrow> (case entry_kind e of
       File _ _ executable \<Rightarrow> executable = is_executable (entry_permissions e)
     | Symlink target \<Rightarrow> target \<noteq> [] \<and> nul \<notin> set target \<and> length target \<le> MAX_SNAPSHOT_PATH_BYTES
     | Directory \<Rightarrow> True)"

definition manifest_ok :: "snapshot_manifest \<Rightarrow> bool" where
  "manifest_ok m \<longleftrightarrow> manifest_schema_version m = SNAPSHOT_SCHEMA_VERSION
     \<and> (\<forall>e \<in> set (manifest_entries m). entry_ok e)
     \<and> strictly_sorted (map entry_path (manifest_entries m))"

definition accepted_entries :: "snapshot_entry list \<Rightarrow> bool" where
  "accepted_entries entries \<longleftrightarrow> is_ok (from_canonical_entries SNAPSHOT_SCHEMA_VERSION entries)"

lemma permissions_new_Inr_iff [simp]:
  "permissions_new bits = Inr p \<longleftrightarrow> p = UnixPermissions bits \<and> permissions_ok p"
  by (auto simp: permissions_new_def permissions_ok_def)

lemma permissions_new_bits: "permissions_ok p \<Longrightarrow> permissions_new (permission_bits p) = Inr p"
  by simp

lemma entry_validate_Inr [simp]: "entry_validate e = Inr () \<longleftrightarrow> entry_ok e"
  by (auto simp: entry_validate_def entry_ok_def split: snapshot_entry_kind.splits)

lemma from_canonical_entries_Inr_iff:
  "from_canonical_entries v es = Inr m \<longleftrightarrow>
     manifest_ok m \<and> v = SNAPSHOT_SCHEMA_VERSION \<and> manifest_entries m = es"
  by (cases m) (auto simp: from_canonical_entries_def manifest_ok_def and_then_Inr_iff
      canonical_loop_Inr_iff)

lemma accepted_entries_iff:
  "accepted_entries es \<longleftrightarrow> (\<forall>e \<in> set es. entry_ok e) \<and> strictly_sorted (map entry_path es)"
proof
  assume "(\<forall>e \<in> set es. entry_ok e) \<and> strictly_sorted (map entry_path es)"
  then have "from_canonical_entries SNAPSHOT_SCHEMA_VERSION es =
      Inr \<lparr>manifest_schema_version = SNAPSHOT_SCHEMA_VERSION, manifest_entries = es\<rparr>"
    by (simp add: from_canonical_entries_Inr_iff manifest_ok_def)
  then show "accepted_entries es" by (simp add: accepted_entries_def)
qed (auto simp: accepted_entries_def is_ok_iff from_canonical_entries_Inr_iff manifest_ok_def)

interpretation manifest_sequence: canonical_sequence entry_path entry_ok accepted_entries
  by unfold_locales (rule accepted_entries_iff)

lemma manifest_ok_accepted: "manifest_ok m \<Longrightarrow> accepted_entries (manifest_entries m)"
  by (simp add: manifest_ok_def accepted_entries_iff)

lemma manifest_eqI:
  "manifest_ok m \<Longrightarrow> manifest_ok n \<Longrightarrow> set (manifest_entries m) = set (manifest_entries n) \<Longrightarrow> m = n"
  using manifest_sequence.canonical_unique [OF manifest_ok_accepted manifest_ok_accepted, of m n]
  by (auto simp: manifest_ok_def intro: snapshot_manifest.equality)

lemma manifest_new_Inr_iff:
  "manifest_new es = Inr m \<longleftrightarrow>
     m = \<lparr>manifest_schema_version = SNAPSHOT_SCHEMA_VERSION, manifest_entries = sort_key entry_path es\<rparr>
     \<and> (\<forall>e \<in> set es. entry_ok e) \<and> distinct (map entry_path es)"
  by (cases m) (auto simp: manifest_new_def from_canonical_entries_Inr_iff manifest_ok_def
      strictly_sorted_sort_key)

lemma manifest_new_ok:
  "manifest_new es = Inr m \<Longrightarrow> manifest_ok m \<and> set (manifest_entries m) = set es"
  by (auto simp: manifest_new_Inr_iff manifest_ok_def strictly_sorted_sort_key)

lemma manifest_new_permutation:
  assumes "mset es = mset fs" and "manifest_new es = Inr m"
  shows "manifest_new fs = Inr m"
proof -
  have "set es = set fs" using assms(1) by (rule mset_eq_setD)
  moreover have "distinct (map entry_path fs)"
    using assms by (metis manifest_new_Inr_iff mset_eq_imp_distinct_iff mset_map)
  moreover have "sort_key entry_path es = sort_key entry_path fs"
    using assms by (intro sort_key_permutation) (simp_all add: manifest_new_Inr_iff)
  ultimately show ?thesis using assms(2) by (simp add: manifest_new_Inr_iff)
qed

lemma manifest_new_entries: "manifest_ok m \<Longrightarrow> manifest_new (manifest_entries m) = Inr m"
  by (cases m) (auto simp: manifest_new_Inr_iff manifest_ok_def strictly_sorted_iff sort_key_id_if_sorted)

lemma manifest_new_error_cases:
  assumes "manifest_new es = Inl e"
  shows "(\<exists>x \<in> set es. \<not> entry_ok x) \<or> \<not> distinct (map entry_path es)"
  using assms manifest_new_Inr_iff [of es] by fastforce

lemma is_executable_mask: "is_executable (UnixPermissions (and b 0xFFF)) \<longleftrightarrow> is_executable (UnixPermissions b)"
proof -
  have "and (and b 0xFFF) (0x49 :: u16) = and b 0x49"
    by (simp add: and.assoc)
  then show ?thesis by (simp add: is_executable_def)
qed

subsection \<open>Properties\<close>

text \<open>The manifest constructor accepts a list of entries exactly when every entry is valid and no
  path repeats, and then the manifest holds the entries sorted by path.\<close>
theorem manifest_new_accepts:
  "manifest_new es = Inr m \<longleftrightarrow>
     m = \<lparr>manifest_schema_version = SNAPSHOT_SCHEMA_VERSION, manifest_entries = sort_key entry_path es\<rparr>
     \<and> (\<forall>e. e \<in> set es \<longrightarrow> entry_validate e = Inr ()) \<and> distinct (map entry_path es)"
  by (auto simp: manifest_new_Inr_iff)

text \<open>the order in which a scan finds the entries does not matter: two listings with the same
  entries build the same manifest.\<close>
theorem manifest_independent_of_scan_order:
  assumes "mset es = mset fs" and "manifest_new es = Inr m"
  shows "manifest_new fs = Inr m"
  using assms by (rule manifest_new_permutation)

theorem manifest_independent_of_scan_order_witness:
  "\<exists>m. manifest_new [\<lparr>entry_path = ''b'', entry_kind = Directory, entry_permissions = UnixPermissions 493\<rparr>,
                 \<lparr>entry_path = ''a'', entry_kind = Directory, entry_permissions = UnixPermissions 493\<rparr>] = Inr m
     \<and> manifest_new [\<lparr>entry_path = ''a'', entry_kind = Directory, entry_permissions = UnixPermissions 493\<rparr>,
                 \<lparr>entry_path = ''b'', entry_kind = Directory, entry_permissions = UnixPermissions 493\<rparr>] = Inr m"
proof -
  let ?a = "\<lparr>entry_path = ''a'', entry_kind = Directory, entry_permissions = UnixPermissions 493\<rparr>"
  let ?b = "\<lparr>entry_path = ''b'', entry_kind = Directory, entry_permissions = UnixPermissions 493\<rparr>"
  obtain m where m: "manifest_new [?b, ?a] = Inr m" by (simp add: manifest_new_Inr_iff entry_ok_def)
  have "manifest_new [?a, ?b] = Inr m"
    by (rule manifest_independent_of_scan_order [OF _ m]) simp
  with m show ?thesis by blast
qed

end
