(* ===== verification/Diff.thy ===== *)
theory Diff
  imports Manifest
begin

section \<open>Snapshot differences\<close>

text \<open>
  \<open>rewind-snapshot/src/diff.rs\<close>: the linear merge of two canonical entry lists.  The two
  indices of the loop are represented by the suffixes they point at.  The merge is shown to
  report exactly the differing paths, in canonical order, and to be lossless: applied to the
  earlier tree it gives the later one, reversed it is the difference in the other direction.
\<close>

datatype entry_change =
    EntryAdded snapshot_entry
  | EntryRemoved snapshot_entry
  | EntryModified snapshot_entry snapshot_entry

fun change_path :: "entry_change \<Rightarrow> snapshot_path" where
  "change_path (EntryAdded entry) = entry_path entry"
| "change_path (EntryRemoved entry) = entry_path entry"
| "change_path (EntryModified before _) = entry_path before"

fun change_reverse :: "entry_change \<Rightarrow> entry_change" where
  "change_reverse (EntryAdded entry) = EntryRemoved entry"
| "change_reverse (EntryRemoved entry) = EntryAdded entry"
| "change_reverse (EntryModified before after) = EntryModified after before"

record snapshot_diff =
  diff_from :: snapshot_id
  diff_to :: snapshot_id
  diff_changes :: "entry_change list"

definition diff_reversed :: "snapshot_diff \<Rightarrow> snapshot_diff" where
  "diff_reversed d = \<lparr>diff_from = diff_to d, diff_to = diff_from d,
                      diff_changes = map change_reverse (diff_changes d)\<rparr>"

fun diff_loop :: "snapshot_entry list \<Rightarrow> snapshot_entry list \<Rightarrow> entry_change list" where
  "diff_loop (b # left) (a # right) =
     (if entry_path b < entry_path a then EntryRemoved b # diff_loop left (a # right)
      else if entry_path b > entry_path a then EntryAdded a # diff_loop (b # left) right
      else if b \<noteq> a then EntryModified b a # diff_loop left right
      else diff_loop left right)"
| "diff_loop (b # left) [] = EntryRemoved b # diff_loop left []"
| "diff_loop [] (a # right) = EntryAdded a # diff_loop [] right"
| "diff_loop [] [] = []"

definition diff_snapshots :: "snapshot \<Rightarrow> snapshot \<Rightarrow> snapshot_diff" where
  "diff_snapshots before after =
     \<lparr>diff_from = snapshot_identity before, diff_to = snapshot_identity after,
      diff_changes = diff_loop (manifest_entries (snapshot_content before))
                               (manifest_entries (snapshot_content after))\<rparr>"

subsection \<open>Abstract view: trees as maps from paths\<close>

definition tree :: "snapshot_entry list \<Rightarrow> snapshot_path \<rightharpoonup> snapshot_entry" where
  "tree es = map_of (map (\<lambda>e. (entry_path e, e)) es)"

fun apply_change :: "entry_change \<Rightarrow> (snapshot_path \<rightharpoonup> snapshot_entry) \<Rightarrow> (snapshot_path \<rightharpoonup> snapshot_entry)" where
  "apply_change (EntryAdded e) t = t(entry_path e \<mapsto> e)"
| "apply_change (EntryRemoved e) t = t(entry_path e := None)"
| "apply_change (EntryModified b a) t = t(entry_path b \<mapsto> a)"

definition change_at :: "(snapshot_path \<rightharpoonup> snapshot_entry) \<Rightarrow> (snapshot_path \<rightharpoonup> snapshot_entry) \<Rightarrow>
    snapshot_path \<Rightarrow> entry_change option" where
  "change_at old new p = (case (old p, new p) of
       (Some b, Some a) \<Rightarrow> if b = a then None else Some (EntryModified b a)
     | (Some b, None) \<Rightarrow> Some (EntryRemoved b)
     | (None, Some a) \<Rightarrow> Some (EntryAdded a)
     | (None, None) \<Rightarrow> None)"

abbreviation paths_sorted :: "snapshot_entry list \<Rightarrow> bool" where
  "paths_sorted es \<equiv> strictly_sorted (map entry_path es)"

lemma tree_simps [simp]:
  "tree [] = Map.empty"
  "tree (e # es) = (tree es)(entry_path e \<mapsto> e)"
  by (simp_all add: tree_def)

lemma dom_tree [simp]: "dom (tree es) = entry_path ` set es"
  by (simp add: tree_def dom_map_of_conv_image_fst image_image)

lemma tree_path: "tree es p = Some e \<Longrightarrow> entry_path e = p \<and> e \<in> set es"
  by (induction es) (auto split: if_splits)

lemma tree_None_below: "(\<And>e. e \<in> set es \<Longrightarrow> p < entry_path e) \<Longrightarrow> tree es p = None"
  by (induction es) auto

lemma tree_Some_iff: "paths_sorted es \<Longrightarrow> tree es p = Some e \<longleftrightarrow> e \<in> set es \<and> entry_path e = p"
  by (induction es) (auto dest: tree_path)

lemma diff_loop_paths:
  "c \<in> set (diff_loop l r) \<Longrightarrow> change_path c \<in> entry_path ` set l \<union> entry_path ` set r"
  by (induction l r rule: diff_loop.induct) (auto split: if_splits)

lemma diff_loop_sorted:
  "paths_sorted l \<Longrightarrow> paths_sorted r \<Longrightarrow> strictly_sorted (map change_path (diff_loop l r))"
proof (induction l r rule: diff_loop.induct)
  case (1 b left a right)
  consider "entry_path b < entry_path a" | "entry_path a < entry_path b" | "entry_path b = entry_path a"
    by (meson linorder_cases)
  then show ?case
    using 1 by cases (force dest!: diff_loop_paths)+
qed (force dest!: diff_loop_paths)+

lemma diff_loop_reverse: "diff_loop r l = map change_reverse (diff_loop l r)"
  by (induction l r rule: diff_loop.induct) auto

lemma change_at_swap: "change_at new old p = map_option change_reverse (change_at old new p)"
  by (auto simp: change_at_def split: option.splits)

lemma diff_loop_complete:
  "paths_sorted l \<Longrightarrow> paths_sorted r \<Longrightarrow>
     c \<in> set (diff_loop l r) \<longleftrightarrow> change_at (tree l) (tree r) (change_path c) = Some c"
proof (induction l r rule: diff_loop.induct)
  case (1 b left a right)
  have below: "tree left (entry_path b) = None" "tree right (entry_path a) = None"
    using 1(5,6) by (auto intro: tree_None_below)
  consider "entry_path b < entry_path a" | "entry_path a < entry_path b" | "entry_path b = entry_path a"
    by (meson linorder_cases)
  then show ?case
  proof cases
    case lt: 1
    then have "tree right (entry_path b) = None"
      using 1(6) by (intro tree_None_below) (auto dest: less_trans)
    then show ?thesis
      using lt 1 below
      by (cases "change_path c = entry_path b") (auto simp: change_at_def split: option.splits if_splits dest: tree_path)
  next
    case gt: 2
    then have "tree left (entry_path a) = None"
      using 1(5) by (intro tree_None_below) (auto dest: less_trans)
    then show ?thesis
      using gt 1 below
      by (cases "change_path c = entry_path a") (auto simp: change_at_def split: option.splits if_splits dest: tree_path)
  next
    case eq: 3
    then show ?thesis
      using 1 below
      by (cases "change_path c = entry_path a") (auto simp: change_at_def split: option.splits if_splits dest: tree_path)
  qed
next
  case (2 b left)
  then have "tree left (entry_path b) = None" by (intro tree_None_below) auto
  then show ?case using 2
    by (cases "change_path c = entry_path b") (auto simp: change_at_def split: option.splits if_splits dest: tree_path)
next
  case (3 a right)
  then have "tree right (entry_path a) = None" by (intro tree_None_below) auto
  then show ?case using 3
    by (cases "change_path c = entry_path a") (auto simp: change_at_def split: option.splits if_splits dest: tree_path)
qed (simp add: change_at_def)

lemma change_at_path: "change_at (tree l) (tree r) p = Some c \<Longrightarrow> change_path c = p"
  by (auto simp: change_at_def dest!: tree_path split: option.splits if_splits)

lemma change_at_None: "change_at old new p = None \<longleftrightarrow> old p = new p"
  by (auto simp: change_at_def split: option.splits)

subsection \<open>Losslessness\<close>

fun change_result :: "entry_change \<Rightarrow> snapshot_entry option" where
  "change_result (EntryAdded e) = Some e"
| "change_result (EntryRemoved e) = None"
| "change_result (EntryModified b a) = Some a"

lemma apply_change_update: "apply_change c t = t(change_path c := change_result c)"
  by (cases c) auto

lemma fold_apply_other:
  "p \<notin> change_path ` set cs \<Longrightarrow> fold apply_change cs t p = t p"
  by (induction cs arbitrary: t) (auto simp: apply_change_update)

lemma fold_apply_at:
  "distinct (map change_path cs) \<Longrightarrow> c \<in> set cs \<Longrightarrow>
     fold apply_change cs t (change_path c) = change_result c"
  by (induction cs arbitrary: t) (auto simp: apply_change_update fold_apply_other)

lemma change_at_result: "change_at old new p = Some c \<Longrightarrow> change_result c = new p"
  by (auto simp: change_at_def split: option.splits if_splits)

lemma diff_loop_lossless:
  assumes "paths_sorted l" "paths_sorted r"
  shows "fold apply_change (diff_loop l r) (tree l) = tree r"
proof
  fix p
  have dist: "distinct (map change_path (diff_loop l r))"
    using diff_loop_sorted [OF assms] by (simp add: strictly_sorted_iff)
  show "fold apply_change (diff_loop l r) (tree l) p = tree r p"
  proof (cases "change_at (tree l) (tree r) p")
    case None
    then have "p \<notin> change_path ` set (diff_loop l r)"
      using diff_loop_complete [OF assms] by auto
    then show ?thesis using None by (simp add: fold_apply_other change_at_None)
  next
    case (Some c)
    then have p: "change_path c = p" by (rule change_at_path)
    then have "c \<in> set (diff_loop l r)" using Some diff_loop_complete [OF assms] by simp
    from fold_apply_at [OF dist this] p Some show ?thesis by (auto dest: change_at_result)
  qed
qed

lemma diff_loop_empty_iff:
  assumes "paths_sorted l" "paths_sorted r"
  shows "diff_loop l r = [] \<longleftrightarrow> l = r"
proof
  assume "diff_loop l r = []"
  then have "tree l = tree r" using diff_loop_lossless [OF assms] by simp
  then have "set l = set r"
    using tree_Some_iff [OF assms(1)] tree_Some_iff [OF assms(2)] by (metis subsetI subset_antisym)
  then show "l = r" using assms by (rule sorted_key_unique [rotated 2])
next
  assume "l = r"
  moreover have "diff_loop l l = []" by (induction l) auto
  ultimately show "diff_loop l r = []" by simp
qed

subsection \<open>Properties\<close>

text \<open>C3: the diff of two snapshots is exactly their difference: its changes are in strict path order,
  a change is listed if and only if it is what happened at its path, and applying the changes to
  the old tree gives the new tree.\<close>
theorem diff_is_exact:
  assumes "manifest_ok (snapshot_content before)" and "manifest_ok (snapshot_content after)"
  defines "old \<equiv> tree (manifest_entries (snapshot_content before))"
    and "new \<equiv> tree (manifest_entries (snapshot_content after))"
    and "changes \<equiv> diff_changes (diff_snapshots before after)"
  shows "strictly_sorted (map change_path changes)
    \<and> (\<forall>c. c \<in> set changes \<longleftrightarrow> change_at old new (change_path c) = Some c)
    \<and> fold apply_change changes old = new"
  using assms
  by (simp add: diff_snapshots_def manifest_ok_def diff_loop_sorted diff_loop_complete diff_loop_lossless)

theorem diff_is_exact_witness:
  "fold apply_change
     (diff_changes (diff_snapshots
        \<lparr>snapshot_identity = SnapshotId [], snapshot_content = \<lparr>manifest_schema_version = 1,
           manifest_entries = [\<lparr>entry_path = ''a'', entry_kind = Directory, entry_permissions = UnixPermissions 493\<rparr>]\<rparr>\<rparr>
        \<lparr>snapshot_identity = SnapshotId [1], snapshot_content = \<lparr>manifest_schema_version = 1,
           manifest_entries = [\<lparr>entry_path = ''b'', entry_kind = Symlink ''a'', entry_permissions = UnixPermissions 511\<rparr>]\<rparr>\<rparr>))
     (tree [\<lparr>entry_path = ''a'', entry_kind = Directory, entry_permissions = UnixPermissions 493\<rparr>])
   = tree [\<lparr>entry_path = ''b'', entry_kind = Symlink ''a'', entry_permissions = UnixPermissions 511\<rparr>]"
proof -
  let ?s = "\<lparr>snapshot_identity = SnapshotId [], snapshot_content = \<lparr>manifest_schema_version = 1,
           manifest_entries = [\<lparr>entry_path = ''a'', entry_kind = Directory, entry_permissions = UnixPermissions 493\<rparr>]\<rparr>\<rparr>"
  let ?t = "\<lparr>snapshot_identity = SnapshotId [1], snapshot_content = \<lparr>manifest_schema_version = 1,
           manifest_entries = [\<lparr>entry_path = ''b'', entry_kind = Symlink ''a'', entry_permissions = UnixPermissions 511\<rparr>]\<rparr>\<rparr>"
  have "manifest_ok (snapshot_content ?s)" "manifest_ok (snapshot_content ?t)"
    by (simp_all add: manifest_ok_def SNAPSHOT_SCHEMA_VERSION_def entry_ok_def special_chars MAX_SNAPSHOT_PATH_BYTES_def)
  from diff_is_exact [OF this] show ?thesis by simp
qed

text \<open>The diff in the other direction is the reversed diff.\<close>
theorem diff_reverses:
  "diff_snapshots after before = diff_reversed (diff_snapshots before after)"
  by (simp add: diff_snapshots_def diff_reversed_def diff_loop_reverse [of "manifest_entries (snapshot_content after)" "manifest_entries (snapshot_content before)"])

end
