(* ===== verification/Comparison.thy ===== *)
theory Comparison
  imports Diff Run_Model
begin

section \<open>Run comparison\<close>

text \<open>
  The evidence report of \<open>rewind-domain/src/comparison.rs\<close> and the pure part of
  \<open>rewind-cli/src/compare.rs\<close>: how two runs are related, and how snapshot differences become
  file changes.  The changes the client derives always satisfy the domain's validation.
\<close>

datatype run_relationship =
    SameRun
  | LeftParentOfRight checkpoint_id
  | RightParentOfLeft checkpoint_id
  | CommonAncestor run_id
  | Unrelated

record snapshot_comparison =
  comparison_left :: "snapshot_id option"
  comparison_right :: "snapshot_id option"

record run_comparison_summary =
  summary_run :: run_id
  summary_status :: run_status
  summary_exit_status :: "process_exit_status option"
  summary_duration :: "monotonic_duration option"
  summary_output_bytes :: u64
  summary_checkpoints :: u64
  summary_warnings :: u64

datatype snapshot_entry_type = TypeDirectory | TypeFile | TypeSymlink

datatype 'a value_change = ValueChange 'a 'a

datatype file_change_kind =
    ChangeAdded snapshot_entry_type "bool option"
  | ChangeDeleted snapshot_entry_type "bool option"
  | ChangeModified bool "snapshot_entry_type value_change option" "bool value_change option"
      "unix_permissions value_change option"

record file_change =
  fc_path :: snapshot_path
  fc_change :: file_change_kind

record evaluation_result =
  eval_command :: string
  eval_exit_status :: process_exit_status
  eval_duration :: monotonic_duration

record evaluation_comparison =
  eval_left :: evaluation_result
  eval_right :: evaluation_result

record comparison_result =
  cr_left :: run_comparison_summary
  cr_right :: run_comparison_summary
  cr_relationship :: run_relationship
  cr_starting_snapshots :: snapshot_comparison
  cr_final_snapshots :: snapshot_comparison
  cr_file_changes :: "file_change list"
  cr_evaluation :: "evaluation_comparison option"

datatype comparison_validation_error =
    EmptyModification
  | InvalidExecutableEvidence
  | ComparisonDuplicatePath snapshot_path
  | ComparisonNonCanonicalOrder nat
  | InvalidEvaluationCommands

definition change_kind_validate :: "file_change_kind \<Rightarrow> (comparison_validation_error, unit) result" where
  "change_kind_validate k = (case k of
       ChangeModified content_changed entry_type executable permissions \<Rightarrow>
         if \<not> content_changed \<and> entry_type = None \<and> executable = None \<and> permissions = None
         then Inl EmptyModification else Inr ()
     | ChangeAdded entry_type executable \<Rightarrow>
         if (entry_type = TypeFile) \<noteq> (executable \<noteq> None) then Inl InvalidExecutableEvidence else Inr ()
     | ChangeDeleted entry_type executable \<Rightarrow>
         if (entry_type = TypeFile) \<noteq> (executable \<noteq> None) then Inl InvalidExecutableEvidence else Inr ())"

definition evaluation_rejected :: "evaluation_comparison option \<Rightarrow> bool" where
  "evaluation_rejected evaluation = (case evaluation of
       None \<Rightarrow> False
     | Some v \<Rightarrow> eval_command (eval_left v) = [] \<or> eval_command (eval_right v) = []
                 \<or> eval_command (eval_left v) \<noteq> eval_command (eval_right v))"

definition from_canonical_parts :: "comparison_result \<Rightarrow> (comparison_validation_error, comparison_result) result" where
  \<comment> \<open>the argument collects the parameters of the source function\<close>
  "from_canonical_parts parts =
     and_then (canonical_loop (\<lambda>c. change_kind_validate (fc_change c)) fc_path
                 ComparisonDuplicatePath ComparisonNonCanonicalOrder 0 None (cr_file_changes parts)) (\<lambda>_.
       if evaluation_rejected (cr_evaluation parts) then Inl InvalidEvaluationCommands
       else Inr parts)"

definition comparison_new :: "comparison_result \<Rightarrow> (comparison_validation_error, comparison_result) result" where
  "comparison_new parts =
     from_canonical_parts (parts\<lparr>cr_file_changes := sort_key fc_path (cr_file_changes parts)\<rparr>)"

subsection \<open>Ancestry\<close>

type_synonym parents_map = "(run_id \<times> run_id option) list"

definition parents_of_runs :: "run list \<Rightarrow> parents_map" where
  \<comment> \<open>collected into a \<open>BTreeMap\<close>: the last binding of a key wins\<close>
  "parents_of_runs runs = rev (map (\<lambda>r. (run_identity r, map_option parent_run (run_parent_link r))) runs)"

definition parent_lookup :: "parents_map \<Rightarrow> run_id \<Rightarrow> run_id option" where
  \<comment> \<open>\<open>parents.get(&id).copied().flatten()\<close>\<close>
  "parent_lookup parents i = Option.bind (map_of parents i) (\<lambda>p. p)"

function ancestors_loop :: "parents_map \<Rightarrow> run_id list \<Rightarrow> run_id option \<Rightarrow> run_id list" where
  "ancestors_loop parents seen current = (case current of
       None \<Rightarrow> []
     | Some i \<Rightarrow> if i \<in> set seen then []
                 else i # ancestors_loop parents (i # seen) (parent_lookup parents i))"
  by pat_completeness auto
termination
proof (relation "measure (\<lambda>(parents, seen, current).
    case current of None \<Rightarrow> 0 | Some i \<Rightarrow> Suc (card (fst ` set parents - set seen)))", goal_cases)
  case (2 parents seen current i)
  show ?case
  proof (cases "parent_lookup parents i")
    case (Some j)
    then have "i \<in> fst ` set parents"
      by (auto simp: parent_lookup_def Option.bind_eq_Some_conv map_of_eq_Some_iff dest: map_of_SomeD intro: rev_image_eqI)
    then have "card (fst ` set parents - set (i # seen)) < card (fst ` set parents - set seen)"
      using 2 by (intro psubset_card_mono) auto
    then show ?thesis using 2 Some by simp
  qed (use 2 in simp)
qed simp

declare ancestors_loop.simps [simp del]

definition ancestors :: "run_id \<Rightarrow> parents_map \<Rightarrow> run_id list" where
  "ancestors run parents = ancestors_loop parents [] (Some run)"

definition relationship :: "run \<Rightarrow> run \<Rightarrow> run list \<Rightarrow> run_relationship" where
  "relationship left right runs =
     (if run_identity left = run_identity right then SameRun
      else case filter_option (\<lambda>p. parent_run p = run_identity left) (run_parent_link right) of
        Some p \<Rightarrow> LeftParentOfRight (parent_checkpoint p)
      | None \<Rightarrow>
          (case filter_option (\<lambda>p. parent_run p = run_identity right) (run_parent_link left) of
            Some p \<Rightarrow> RightParentOfLeft (parent_checkpoint p)
          | None \<Rightarrow>
              (let parents = parents_of_runs runs;
                   left_ancestors = ancestors (run_identity left) parents;
                   right_ancestors = set (ancestors (run_identity right) parents)
               in case find (\<lambda>i. i \<in> right_ancestors) left_ancestors of
                    None \<Rightarrow> Unrelated
                  | Some i \<Rightarrow> CommonAncestor i)))"

subsection \<open>File changes\<close>

fun entry_type_of :: "snapshot_entry_kind \<Rightarrow> snapshot_entry_type" where
  "entry_type_of Directory = TypeDirectory"
| "entry_type_of (File _ _ _) = TypeFile"
| "entry_type_of (Symlink _) = TypeSymlink"

fun executable_of :: "snapshot_entry_kind \<Rightarrow> bool option" where
  "executable_of (File _ _ executable) = Some executable"
| "executable_of Directory = None"
| "executable_of (Symlink _) = None"

fun content_identity :: "snapshot_entry_kind \<Rightarrow> string" where
  "content_identity Directory = ''directory''"
| "content_identity (File object_id byte_size _) =
     ''file:'' @ object_id_text object_id @ '':'' @ dec_text (unat byte_size)"
| "content_identity (Symlink target) = ''symlink:'' @ target"

definition modified :: "snapshot_entry \<Rightarrow> snapshot_entry \<Rightarrow> file_change" where
  "modified before after =
     (let before_type = entry_type_of (entry_kind before);
          after_type = entry_type_of (entry_kind after);
          content_changed = (content_identity (entry_kind before) \<noteq> content_identity (entry_kind after));
          executable = (case (executable_of (entry_kind before), executable_of (entry_kind after)) of
              (Some left, Some right) \<Rightarrow> if left \<noteq> right then Some (ValueChange left right) else None
            | _ \<Rightarrow> None);
          permissions = (if entry_permissions before \<noteq> entry_permissions after
              then Some (ValueChange (entry_permissions before) (entry_permissions after)) else None)
      in \<lparr>fc_path = entry_path before,
          fc_change = ChangeModified content_changed
            (if before_type \<noteq> after_type then Some (ValueChange before_type after_type) else None)
            executable permissions\<rparr>)"

fun file_change_of :: "entry_change \<Rightarrow> file_change" where
  "file_change_of (EntryAdded entry) =
     \<lparr>fc_path = entry_path entry,
      fc_change = ChangeAdded (entry_type_of (entry_kind entry)) (executable_of (entry_kind entry))\<rparr>"
| "file_change_of (EntryRemoved entry) =
     \<lparr>fc_path = entry_path entry,
      fc_change = ChangeDeleted (entry_type_of (entry_kind entry)) (executable_of (entry_kind entry))\<rparr>"
| "file_change_of (EntryModified before after) = modified before after"

subsection \<open>Accepted reports\<close>

definition change_kind_ok :: "file_change_kind \<Rightarrow> bool" where
  "change_kind_ok k \<longleftrightarrow> (case k of
       ChangeModified content t x p \<Rightarrow> content \<or> t \<noteq> None \<or> x \<noteq> None \<or> p \<noteq> None
     | ChangeAdded t x \<Rightarrow> (t = TypeFile \<longleftrightarrow> x \<noteq> None)
     | ChangeDeleted t x \<Rightarrow> (t = TypeFile \<longleftrightarrow> x \<noteq> None))"

definition comparison_ok :: "comparison_result \<Rightarrow> bool" where
  "comparison_ok r \<longleftrightarrow> (\<forall>c \<in> set (cr_file_changes r). change_kind_ok (fc_change c))
     \<and> strictly_sorted (map fc_path (cr_file_changes r))
     \<and> \<not> evaluation_rejected (cr_evaluation r)"

definition accepted_changes :: "file_change list \<Rightarrow> bool" where
  "accepted_changes cs \<longleftrightarrow>
     canonical_loop (\<lambda>c. change_kind_validate (fc_change c)) fc_path
       ComparisonDuplicatePath ComparisonNonCanonicalOrder 0 None cs = Inr ()"

lemma change_kind_validate_Inr [simp]: "change_kind_validate k = Inr () \<longleftrightarrow> change_kind_ok k"
  by (auto simp: change_kind_validate_def change_kind_ok_def split: file_change_kind.splits)

interpretation change_sequence:
  canonical_sequence fc_path "\<lambda>c. change_kind_ok (fc_change c)" accepted_changes
  by unfold_locales (simp add: accepted_changes_def canonical_loop_Inr_iff)

lemma from_canonical_parts_Inr_iff:
  "from_canonical_parts p = Inr r \<longleftrightarrow> r = p \<and> comparison_ok p"
  by (auto simp: from_canonical_parts_def comparison_ok_def and_then_Inr_iff canonical_loop_Inr_iff
      split: if_splits)

lemma comparison_new_Inr_iff:
  "comparison_new p = Inr r \<longleftrightarrow>
     r = p\<lparr>cr_file_changes := sort_key fc_path (cr_file_changes p)\<rparr>
     \<and> accepted_changes (sort_key fc_path (cr_file_changes p))
     \<and> \<not> evaluation_rejected (cr_evaluation p)"
  by (auto simp: comparison_new_def from_canonical_parts_Inr_iff comparison_ok_def
      change_sequence.accepts_iff)

definition entry_ids_ok :: "snapshot_entry \<Rightarrow> bool" where
  \<comment> \<open>a file entry refers to a real 32-byte digest\<close>
  "entry_ids_ok e \<longleftrightarrow> (case entry_kind e of File i _ _ \<Rightarrow> object_id_ok i | _ \<Rightarrow> True)"

lemma object_id_text_length: "object_id_ok i \<Longrightarrow> length (object_id_text i) = 64"
  by (simp add: object_id_text_def object_id_ok_def)

lemma dec_text_inject [simp]: "dec_text m = dec_text n \<longleftrightarrow> m = n"
  using parse_unsigned_dec_text by (metis option.inject)

lemma content_identity_inject:
  assumes "content_identity k = content_identity l"
    and "case k of File i _ _ \<Rightarrow> object_id_ok i | _ \<Rightarrow> True"
    and "case l of File i _ _ \<Rightarrow> object_id_ok i | _ \<Rightarrow> True"
  shows "entry_type_of k = entry_type_of l \<and> (executable_of k = executable_of l \<longrightarrow> k = l)"
  using assms
  by (cases k; cases l) (auto simp: object_id_text_length object_id_form.display_inj word_unat_eq_iff)

lemma modified_kind_ok_iff:
  "change_kind_ok (fc_change (modified b a)) \<longleftrightarrow>
     content_identity (entry_kind b) \<noteq> content_identity (entry_kind a)
     \<or> entry_type_of (entry_kind b) \<noteq> entry_type_of (entry_kind a)
     \<or> entry_permissions b \<noteq> entry_permissions a
     \<or> (case (executable_of (entry_kind b), executable_of (entry_kind a)) of
          (Some u, Some v) \<Rightarrow> u \<noteq> v | _ \<Rightarrow> False)"
  unfolding modified_def Let_def change_kind_ok_def
  by (cases "executable_of (entry_kind b)"; cases "executable_of (entry_kind a)") simp_all

lemma modified_evidence:
  assumes "b \<noteq> a" and "entry_path b = entry_path a" and "entry_ids_ok b" and "entry_ids_ok a"
  shows "change_kind_ok (fc_change (modified b a))"
proof (rule ccontr)
  assume n: "\<not> ?thesis"
  then have ci: "content_identity (entry_kind b) = content_identity (entry_kind a)"
    and ty: "entry_type_of (entry_kind b) = entry_type_of (entry_kind a)"
    and pe: "entry_permissions b = entry_permissions a"
    and ex: "\<not> (case (executable_of (entry_kind b), executable_of (entry_kind a)) of
          (Some u, Some v) \<Rightarrow> u \<noteq> v | _ \<Rightarrow> False)"
    unfolding modified_kind_ok_iff by blast+
  have "executable_of (entry_kind b) = executable_of (entry_kind a)"
    using ty ex by (cases "entry_kind b"; cases "entry_kind a") simp_all
  then have "entry_kind b = entry_kind a"
    using content_identity_inject [OF ci] assms(3,4) by (simp add: entry_ids_ok_def)
  with assms(2) pe have "b = a" by (intro snapshot_entry.equality) simp_all
  with assms(1) show False by contradiction
qed

lemma file_change_of_path [simp]: "fc_path (file_change_of c) = change_path c"
  by (cases c) (simp_all add: modified_def Let_def)

lemma file_changes_accepted:
  assumes l: "paths_sorted l" "\<forall>e \<in> set l. entry_ids_ok e"
    and r: "paths_sorted r" "\<forall>e \<in> set r. entry_ids_ok e"
  shows "accepted_changes (map file_change_of (diff_loop l r))"
proof -
  have "change_kind_ok (fc_change (file_change_of c))" if "c \<in> set (diff_loop l r)" for c
  proof (cases c)
    case (EntryModified b a)
    then have "tree l (entry_path b) = Some b" "tree r (entry_path b) = Some a" "b \<noteq> a"
      using that diff_loop_complete [OF l(1) r(1)] by (auto simp: change_at_def split: option.splits if_splits)
    then show ?thesis using EntryModified l r
      by (auto dest!: tree_path intro: modified_evidence)
  next
    case (EntryAdded e)
    then show ?thesis by (cases "entry_kind e") (auto simp: change_kind_ok_def)
  next
    case (EntryRemoved e)
    then show ?thesis by (cases "entry_kind e") (auto simp: change_kind_ok_def)
  qed
  then show ?thesis
    using diff_loop_sorted [OF l(1) r(1)] by (auto simp: change_sequence.accepts_iff comp_def)
qed

subsection \<open>Ancestors\<close>

definition parent_rel :: "parents_map \<Rightarrow> (run_id \<times> run_id) set" where
  "parent_rel parents = {(i, j). parent_lookup parents i = Some j}"

lemma ancestors_loop_reach:
  "x \<in> set (ancestors_loop ps seen c) \<Longrightarrow> \<exists>i. c = Some i \<and> (i, x) \<in> (parent_rel ps)\<^sup>*"
proof (induction ps seen c rule: ancestors_loop.induct)
  case (1 ps seen c)
  then obtain i where c: "c = Some i" "i \<notin> set seen"
    and x: "x = i \<or> x \<in> set (ancestors_loop ps (i # seen) (parent_lookup ps i))"
    by (subst (asm) (2) ancestors_loop.simps) (auto split: option.splits if_splits)
  show ?case
  proof (cases "x = i")
    case False
    then obtain j where "parent_lookup ps i = Some j" "(j, x) \<in> (parent_rel ps)\<^sup>*"
      using 1 c x by auto
    then show ?thesis using c by (auto simp: parent_rel_def intro: converse_rtrancl_into_rtrancl)
  qed (use c in auto)
qed

lemma ancestors_loop_closed:
  assumes "\<forall>x \<in> set seen. \<forall>y. parent_lookup ps x = Some y \<longrightarrow> y \<in> set seen \<or> c = Some y"
  defines "res \<equiv> set seen \<union> set (ancestors_loop ps seen c)"
  shows "(\<forall>x \<in> res. \<forall>y. parent_lookup ps x = Some y \<longrightarrow> y \<in> res) \<and> (\<forall>i. c = Some i \<longrightarrow> i \<in> res)"
  using assms(1) unfolding res_def
proof (induction ps seen c rule: ancestors_loop.induct)
  case (1 ps seen c)
  show ?case
  proof (cases c)
    case None
    then show ?thesis using 1(2) by (simp add: ancestors_loop.simps)
  next
    case (Some i)
    show ?thesis
    proof (cases "i \<in> set seen")
      case True
      then show ?thesis using 1(2) Some by (auto simp: ancestors_loop.simps)
    next
      case False
      have "\<forall>x \<in> set (i # seen). \<forall>y. parent_lookup ps x = Some y \<longrightarrow>
              y \<in> set (i # seen) \<or> parent_lookup ps i = Some y"
        using 1(2) Some by auto
      note IH = 1(1) [OF Some False this]
      have "set seen \<union> set (ancestors_loop ps seen c) =
          set (i # seen) \<union> set (ancestors_loop ps (i # seen) (parent_lookup ps i))"
        using Some False by (subst ancestors_loop.simps) auto
      then show ?thesis using IH Some by auto
    qed
  qed
qed

lemma set_ancestors: "set (ancestors run ps) = {x. (run, x) \<in> (parent_rel ps)\<^sup>*}"
proof
  show "set (ancestors run ps) \<subseteq> {x. (run, x) \<in> (parent_rel ps)\<^sup>*}"
    unfolding ancestors_def by (auto dest: ancestors_loop_reach)
  have cl: "run \<in> set (ancestors run ps)"
    "\<And>x y. x \<in> set (ancestors run ps) \<Longrightarrow> parent_lookup ps x = Some y \<Longrightarrow> y \<in> set (ancestors run ps)"
    using ancestors_loop_closed [of "[]" ps "Some run"] unfolding ancestors_def by auto
  have "(run, x) \<in> (parent_rel ps)\<^sup>* \<Longrightarrow> x \<in> set (ancestors run ps)" for x
    by (induction rule: rtrancl_induct) (auto simp: parent_rel_def intro: cl)
  then show "{x. (run, x) \<in> (parent_rel ps)\<^sup>*} \<subseteq> set (ancestors run ps)" by blast
qed

lemma ancestors_loop_suffix:
  "ancestors_loop ps seen c = xs @ r # ys \<Longrightarrow> y \<in> set ys \<Longrightarrow> (r, y) \<in> (parent_rel ps)\<^sup>*"
proof (induction ps seen c arbitrary: xs rule: ancestors_loop.induct)
  case (1 ps seen c)
  then obtain i where c: "c = Some i" "i \<notin> set seen"
    and l: "i # ancestors_loop ps (i # seen) (parent_lookup ps i) = xs @ r # ys"
    by (subst (asm) (2) ancestors_loop.simps) (auto split: option.splits if_splits)
  show ?case
  proof (cases xs)
    case Nil
    then have "y \<in> set (ancestors_loop ps (i # seen) (parent_lookup ps i))" and r: "r = i"
      using l 1(3) by auto
    then obtain j where "parent_lookup ps i = Some j" "(j, y) \<in> (parent_rel ps)\<^sup>*"
      using ancestors_loop_reach by blast
    then show ?thesis using r by (auto simp: parent_rel_def intro: converse_rtrancl_into_rtrancl)
  next
    case (Cons a zs)
    then show ?thesis using 1(1) [OF c] 1(3) l by auto
  qed
qed

lemma find_split: "find P xs = Some x \<Longrightarrow> \<exists>us vs. xs = us @ x # vs \<and> P x \<and> (\<forall>u \<in> set us. \<not> P u)"
  by (induction xs) (force split: if_splits intro: exI [of _ "_ # _"] exI [of _ "[]"])+

lemma nearest_ancestor:
  assumes "find (\<lambda>i. i \<in> set (ancestors b ps)) (ancestors a ps) = Some r"
  shows "(a, r) \<in> (parent_rel ps)\<^sup>* \<and> (b, r) \<in> (parent_rel ps)\<^sup>* \<and>
    (\<forall>x. (a, x) \<in> (parent_rel ps)\<^sup>* \<and> (b, x) \<in> (parent_rel ps)\<^sup>* \<longrightarrow> (r, x) \<in> (parent_rel ps)\<^sup>*)"
proof -
  obtain us vs where l: "ancestors a ps = us @ r # vs" and r: "r \<in> set (ancestors b ps)"
    and us: "\<forall>u \<in> set us. u \<notin> set (ancestors b ps)"
    using find_split [OF assms] by blast
  have "(r, x) \<in> (parent_rel ps)\<^sup>*"
    if "x \<in> set (ancestors a ps)" "x \<in> set (ancestors b ps)" for x
    using that l us ancestors_loop_suffix [of ps "[]" "Some a" us r vs x]
    by (auto simp: ancestors_def)
  moreover have "r \<in> set (ancestors a ps)" using l by simp
  ultimately show ?thesis using r by (simp add: set_ancestors)
qed

subsection \<open>Properties\<close>

text \<open>the file changes that the compare command derives from a snapshot diff always pass the
  validation of a comparison result: every modification carries evidence and the order is canonical.\<close>
theorem compare_report_accepted:
  assumes "manifest_ok (snapshot_content before)" and "manifest_ok (snapshot_content after)"
    and "\<forall>e \<in> set (manifest_entries (snapshot_content before)) \<union> set (manifest_entries (snapshot_content after)). entry_ids_ok e"
    and "\<not> evaluation_rejected (cr_evaluation parts)"
  shows "is_ok (comparison_new (parts\<lparr>cr_file_changes :=
    map file_change_of (diff_changes (diff_snapshots before after))\<rparr>))"
proof -
  let ?l = "manifest_entries (snapshot_content before)"
  let ?r = "manifest_entries (snapshot_content after)"
  have a: "accepted_changes (map file_change_of (diff_loop ?l ?r))"
    using assms by (intro file_changes_accepted) (auto simp: manifest_ok_def)
  then have "sort_key fc_path (map file_change_of (diff_loop ?l ?r)) = map file_change_of (diff_loop ?l ?r)"
    by (simp add: change_sequence.accepts_iff strictly_sorted_iff sort_key_id_if_sorted)
  then show ?thesis using a assms(4)
    by (simp add: is_ok_iff comparison_new_Inr_iff diff_snapshots_def)
qed

theorem compare_report_accepted_witness:
  "is_ok (comparison_new \<lparr>cr_left = \<lparr>summary_run = RunId 1, summary_status = Completed, summary_exit_status = Some (ExitCode 0),
       summary_duration = Some (MonotonicDuration 5), summary_output_bytes = 0, summary_checkpoints = 2, summary_warnings = 0\<rparr>,
     cr_right = \<lparr>summary_run = RunId 2, summary_status = Completed, summary_exit_status = Some (ExitCode 0),
       summary_duration = Some (MonotonicDuration 5), summary_output_bytes = 0, summary_checkpoints = 2, summary_warnings = 0\<rparr>, cr_relationship = Unrelated,
     cr_starting_snapshots = \<lparr>comparison_left = None, comparison_right = None\<rparr>,
     cr_final_snapshots = \<lparr>comparison_left = None, comparison_right = None\<rparr>,
     cr_file_changes = map file_change_of (diff_changes (diff_snapshots
        \<lparr>snapshot_identity = SnapshotId [], snapshot_content = \<lparr>manifest_schema_version = 1, manifest_entries = []\<rparr>\<rparr>
        \<lparr>snapshot_identity = SnapshotId [1], snapshot_content = \<lparr>manifest_schema_version = 1,
           manifest_entries = [\<lparr>entry_path = ''b'', entry_kind = Directory, entry_permissions = UnixPermissions 493\<rparr>]\<rparr>\<rparr>)),
     cr_evaluation = None\<rparr>)"
proof -
  let ?s = "\<lparr>snapshot_identity = SnapshotId [], snapshot_content = \<lparr>manifest_schema_version = 1, manifest_entries = []\<rparr>\<rparr>"
  let ?t = "\<lparr>snapshot_identity = SnapshotId [1], snapshot_content = \<lparr>manifest_schema_version = 1,
           manifest_entries = [\<lparr>entry_path = ''b'', entry_kind = Directory, entry_permissions = UnixPermissions 493\<rparr>]\<rparr>\<rparr>"
  have "manifest_ok (snapshot_content ?s)" "manifest_ok (snapshot_content ?t)"
    "\<forall>e \<in> set (manifest_entries (snapshot_content ?s)) \<union> set (manifest_entries (snapshot_content ?t)). entry_ids_ok e"
    by (simp_all add: manifest_ok_def SNAPSHOT_SCHEMA_VERSION_def entry_ok_def entry_ids_ok_def)
  from compare_report_accepted [OF this, of "\<lparr>cr_left = \<lparr>summary_run = RunId 1, summary_status = Completed, summary_exit_status = Some (ExitCode 0),
       summary_duration = Some (MonotonicDuration 5), summary_output_bytes = 0, summary_checkpoints = 2, summary_warnings = 0\<rparr>,
     cr_right = \<lparr>summary_run = RunId 2, summary_status = Completed, summary_exit_status = Some (ExitCode 0),
       summary_duration = Some (MonotonicDuration 5), summary_output_bytes = 0, summary_checkpoints = 2, summary_warnings = 0\<rparr>, cr_relationship = Unrelated,
     cr_starting_snapshots = \<lparr>comparison_left = None, comparison_right = None\<rparr>,
     cr_final_snapshots = \<lparr>comparison_left = None, comparison_right = None\<rparr>, cr_file_changes = [], cr_evaluation = None\<rparr>"]
  show ?thesis by (simp add: evaluation_rejected_def)
qed

text \<open>C36: when two runs are related only through earlier runs, the reported common ancestor is an
  ancestor of both, and every other common ancestor is an ancestor of it.\<close>
theorem common_ancestor_is_nearest:
  assumes "relationship left right runs = CommonAncestor r"
  defines "up \<equiv> parent_rel (parents_of_runs runs)"
  shows "(run_identity left, r) \<in> up\<^sup>* \<and> (run_identity right, r) \<in> up\<^sup>* \<and>
    (\<forall>x. (run_identity left, x) \<in> up\<^sup>* \<and> (run_identity right, x) \<in> up\<^sup>* \<longrightarrow> (r, x) \<in> up\<^sup>*)"
proof -
  have "find (\<lambda>i. i \<in> set (ancestors (run_identity right) (parents_of_runs runs)))
      (ancestors (run_identity left) (parents_of_runs runs)) = Some r"
    using assms(1) by (auto simp: relationship_def Let_def split: option.splits if_splits)
  then show ?thesis unfolding up_def by (rule nearest_ancestor)
qed

definition sample_run :: "uuid \<Rightarrow> uuid option \<Rightarrow> run" where
  "sample_run i parent =
     \<lparr>run_identity = RunId i, run_branch = BranchId 1,
      run_parent_link = map_option (\<lambda>p. \<lparr>parent_run = RunId p, parent_checkpoint = CheckpointId 1\<rparr>) parent,
      run_command = ''sh'', run_arguments = [], run_workspace_root = ''/w'', run_started_at = Timestamp 0,
      run_finished_at = None, run_monotonic_duration = None, run_state = Preparing, run_platform = LinuxX86_64,
      run_capture_policy = \<lparr>record_input = PolicyAuto, capture_environment = False\<rparr>,
      run_initial_snapshot = None, run_final_snapshot = None, run_exit_status = None\<rparr>"

theorem common_ancestor_is_nearest_witness:
  "relationship (sample_run 2 (Some 1)) (sample_run 3 (Some 1)) [sample_run 1 None, sample_run 2 (Some 1), sample_run 3 (Some 1)]
     = CommonAncestor (RunId 1)
   \<and> (RunId 2, RunId 1) \<in> (parent_rel (parents_of_runs [sample_run 1 None, sample_run 2 (Some 1), sample_run 3 (Some 1)]))\<^sup>*"
proof -
  let ?runs = "[sample_run 1 None, sample_run 2 (Some 1), sample_run 3 (Some 1)]"
  have r: "relationship (sample_run 2 (Some 1)) (sample_run 3 (Some 1)) ?runs = CommonAncestor (RunId 1)"
    by (simp add: relationship_def sample_run_def parents_of_runs_def ancestors_def parent_lookup_def
        ancestors_loop.simps Let_def)
  show ?thesis using r common_ancestor_is_nearest [OF r] by (simp add: sample_run_def)
qed

end
