(* ===== verification/Glob.thy ===== *)
theory Glob
  imports Paths
begin

section \<open>Ignore patterns\<close>

text \<open>
  \<open>IgnorePattern\<close> and \<open>glob_matches\<close> of \<open>rewind-snapshot/src/scan.rs\<close>.  The matcher is a
  dynamic program over rows of booleans; it is shown to decide the declarative meaning of a
  pattern: \<open>*\<close> stands for any text without a slash, \<open>**\<close> for any text, every other byte for
  itself.  The vectors of the source are lists of length \<open>path.len() + 1\<close>, the pattern index is
  the suffix it points at.
\<close>

definition star_byte :: u8 where "star_byte = 0x2A"
definition slash_byte :: u8 where "slash_byte = 0x2F"

fun wildcard_row :: "bool \<Rightarrow> bool \<Rightarrow> bool list \<Rightarrow> u8 list \<Rightarrow> bool list" where
  \<comment> \<open>\<open>current[1..]\<close> from \<open>current[offset - 1]\<close>, \<open>previous[1..]\<close> and the path\<close>
  "wildcard_row recursive before (p # previous) (c # path) =
     (let here = (p \<or> (before \<and> (recursive \<or> c \<noteq> slash_byte)))
      in here # wildcard_row recursive here previous path)"
| "wildcard_row recursive before _ _ = []"

fun literal_row :: "u8 \<Rightarrow> bool list \<Rightarrow> u8 list \<Rightarrow> bool list" where
  \<comment> \<open>\<open>current[1..]\<close> from \<open>previous[0..]\<close> and the path\<close>
  "literal_row x (p # previous) (c # path) = (p \<and> x = c) # literal_row x previous path"
| "literal_row x _ _ = []"

fun glob_rows :: "u8 list \<Rightarrow> bool list \<Rightarrow> u8 list \<Rightarrow> bool list" where
  "glob_rows path previous [] = previous"
| "glob_rows path previous (x # rest) =
     (if x = star_byte then
        (case rest of
           y # rest' \<Rightarrow>
             if y = star_byte
             then glob_rows path (hd previous # wildcard_row True (hd previous) (tl previous) path) rest'
             else glob_rows path (hd previous # wildcard_row False (hd previous) (tl previous) path) rest
         | [] \<Rightarrow> glob_rows path (hd previous # wildcard_row False (hd previous) (tl previous) path) rest)
      else glob_rows path (False # literal_row x previous path) rest)"

definition glob_matches :: "u8 list \<Rightarrow> u8 list \<Rightarrow> bool" where
  "glob_matches pattern path =
     last (glob_rows path (True # replicate (length path) False) pattern)"

type_synonym ignore_pattern = string

definition ignore_pattern_from_str :: "string \<Rightarrow> (snapshot_path_error, ignore_pattern) result" where
  "ignore_pattern_from_str v = and_then (snapshot_path_from_str v) (\<lambda>_. Inr v)"

definition pattern_matches :: "ignore_pattern \<Rightarrow> snapshot_path \<Rightarrow> bool" where
  "pattern_matches pattern path = glob_matches (as_bytes pattern) (as_bytes path)"

subsection \<open>Declarative meaning\<close>

datatype glob_token = Literal u8 | AnyInComponent | AnyText

fun glob_tokens :: "u8 list \<Rightarrow> glob_token list" where
  "glob_tokens [] = []"
| "glob_tokens (x # rest) =
     (if x = star_byte then
        (case rest of
           y # rest' \<Rightarrow> if y = star_byte then AnyText # glob_tokens rest' else AnyInComponent # glob_tokens rest
         | [] \<Rightarrow> [AnyInComponent])
      else Literal x # glob_tokens rest)"

fun token_text :: "glob_token \<Rightarrow> u8 list \<Rightarrow> bool" where
  "token_text (Literal x) s = (s = [x])"
| "token_text AnyInComponent s = (slash_byte \<notin> set s)"
| "token_text AnyText s = True"

fun tokens_match :: "glob_token list \<Rightarrow> u8 list \<Rightarrow> bool" where
  "tokens_match [] s = (s = [])"
| "tokens_match (t # ts) s = (\<exists>u v. s = u @ v \<and> token_text t u \<and> tokens_match ts v)"

definition extend :: "(u8 list \<Rightarrow> bool) \<Rightarrow> glob_token \<Rightarrow> u8 list \<Rightarrow> bool" where
  "extend P t s \<longleftrightarrow> (\<exists>u v. s = u @ v \<and> P u \<and> token_text t v)"

fun row :: "(u8 list \<Rightarrow> bool) \<Rightarrow> u8 list \<Rightarrow> u8 list \<Rightarrow> bool list" where
  \<comment> \<open>a row records which prefixes of the path satisfy \<open>P\<close>\<close>
  "row P pre [] = [P pre]"
| "row P pre (c # cs) = P pre # row P (pre @ [c]) cs"

lemma row_not_Nil [simp]: "row P pre cs \<noteq> []"
  by (cases cs) auto

lemma hd_row [simp]: "hd (row P pre cs) = P pre"
  by (cases cs) auto

lemma row_hd_tl: "row P pre cs = P pre # tl (row P pre cs)"
  by (cases cs) auto

lemma last_row [simp]: "last (row P pre cs) = P (pre @ cs)"
  by (induction cs arbitrary: pre) auto

lemma row_start: "row (\<lambda>s. s = []) [] path = True # replicate (length path) False"
proof -
  have "pre \<noteq> [] \<Longrightarrow> row (\<lambda>s. s = []) pre cs = replicate (Suc (length cs)) False" for pre cs
    by (induction cs arbitrary: pre) auto
  then show ?thesis by (cases path) auto
qed

lemma extend_literal_snoc: "extend P (Literal x) (pre @ [c]) \<longleftrightarrow> P pre \<and> x = c"
  by (auto simp: extend_def)

lemma extend_literal_Nil: "\<not> extend P (Literal x) []"
  by (simp add: extend_def)

lemma extend_wild_snoc:
  assumes "t = (if r then AnyText else AnyInComponent)"
  shows "extend P t (pre @ [c]) \<longleftrightarrow> P (pre @ [c]) \<or> (extend P t pre \<and> (r \<or> c \<noteq> slash_byte))"
proof
  assume "extend P t (pre @ [c])"
  then obtain u v where uv: "pre @ [c] = u @ v" "P u" "token_text t v" by (auto simp: extend_def)
  show "P (pre @ [c]) \<or> (extend P t pre \<and> (r \<or> c \<noteq> slash_byte))"
  proof (cases v rule: rev_cases)
    case (snoc w d)
    then have "pre = u @ w" "d = c" using uv(1) by auto
    then show ?thesis using uv snoc assms by (auto simp: extend_def split: if_splits)
  qed (use uv in auto)
next
  assume a: "P (pre @ [c]) \<or> (extend P t pre \<and> (r \<or> c \<noteq> slash_byte))"
  have e: "token_text t []" using assms by (cases r) auto
  from a show "extend P t (pre @ [c])"
  proof
    assume "P (pre @ [c])"
    then show ?thesis using e unfolding extend_def by blast
  next
    assume "extend P t pre \<and> (r \<or> c \<noteq> slash_byte)"
    then obtain u v where "pre = u @ v" "P u" "token_text t v" "r \<or> c \<noteq> slash_byte"
      by (auto simp: extend_def)
    then have "pre @ [c] = u @ (v @ [c])" "token_text t (v @ [c])"
      using assms by (auto split: if_splits)
    then show ?thesis using \<open>P u\<close> unfolding extend_def by blast
  qed
qed

lemma wildcard_row_correct:
  assumes "t = (if r then AnyText else AnyInComponent)"
  shows "wildcard_row r (extend P t pre) (tl (row P pre cs)) cs = tl (row (extend P t) pre cs)"
proof (induction cs arbitrary: pre)
  case (Cons c cs)
  obtain q where q: "row P (pre @ [c]) cs = P (pre @ [c]) # q" using row_hd_tl by blast
  obtain q' where q': "row (extend P t) (pre @ [c]) cs = extend P t (pre @ [c]) # q'" using row_hd_tl by blast
  show ?case using Cons [of "pre @ [c]"] q q' by (simp add: Let_def extend_wild_snoc [OF assms])
qed simp

lemma literal_row_correct:
  "literal_row x (row P pre cs) cs = tl (row (extend P (Literal x)) pre cs)"
proof (induction cs arbitrary: pre)
  case (Cons c cs)
  obtain q where q: "row (extend P (Literal x)) (pre @ [c]) cs = extend P (Literal x) (pre @ [c]) # q"
    using row_hd_tl by blast
  show ?case using Cons [of "pre @ [c]"] q by (simp add: extend_literal_snoc)
qed simp

lemma wild_step:
  assumes "t = (if r then AnyText else AnyInComponent)"
  shows "hd (row P [] path) # wildcard_row r (hd (row P [] path)) (tl (row P [] path)) path = row (extend P t) [] path"
proof -
  have e: "extend P t [] = P []" using assms by (auto simp: extend_def)
  have "row (extend P t) [] path = P [] # tl (row (extend P t) [] path)"
    unfolding e [symmetric] by (rule row_hd_tl)
  then show ?thesis using wildcard_row_correct [OF assms, of P "[]" path] e by simp
qed

lemma literal_step: "False # literal_row x (row P [] path) path = row (extend P (Literal x)) [] path"
proof -
  have "row (extend P (Literal x)) [] path = False # tl (row (extend P (Literal x)) [] path)"
    using row_hd_tl [of "extend P (Literal x)" "[]" path] by (simp add: extend_literal_Nil)
  then show ?thesis using literal_row_correct [of x P "[]" path] by simp
qed

lemmas any_text_step = wild_step [of AnyText True, simplified]
lemmas any_component_step = wild_step [of AnyInComponent False, simplified]

lemma glob_rows_correct:
  "glob_rows path (row P [] path) pattern = row (foldl extend P (glob_tokens pattern)) [] path"
proof (induction pattern arbitrary: P rule: glob_tokens.induct)
  case (2 x rest)
  show ?case
  proof (cases "x = star_byte")
    case True
    show ?thesis
    proof (cases rest)
      case Nil
      then show ?thesis using True by (simp add: any_component_step)
    next
      case (Cons y rest')
      show ?thesis
      proof (cases "y = star_byte")
        case y: True
        then show ?thesis using True Cons 2(1) [OF True Cons y] by (simp add: any_text_step)
      next
        case False
        then show ?thesis using True Cons 2(2) [OF True Cons False] by (simp add: any_component_step)
      qed
    qed
  next
    case False
    then show ?thesis using 2(3) [OF False] by (simp add: literal_step)
  qed
qed simp

lemma foldl_extend: "foldl extend P ts s \<longleftrightarrow> (\<exists>u v. s = u @ v \<and> P u \<and> tokens_match ts v)"
proof (induction ts arbitrary: P)
  case (Cons t ts)
  have "foldl extend P (t # ts) s \<longleftrightarrow> (\<exists>u v. s = u @ v \<and> extend P t u \<and> tokens_match ts v)"
    using Cons [of "extend P t"] by simp
  also have "\<dots> \<longleftrightarrow> (\<exists>u v. s = u @ v \<and> P u \<and> tokens_match (t # ts) v)"
  proof
    assume "\<exists>u v. s = u @ v \<and> extend P t u \<and> tokens_match ts v"
    then obtain a b v where "s = a @ (b @ v)" "P a" "token_text t b" "tokens_match ts v"
      by (auto simp: extend_def)
    moreover from this have "tokens_match (t # ts) (b @ v)" by auto
    ultimately show "\<exists>u v. s = u @ v \<and> P u \<and> tokens_match (t # ts) v" by blast
  next
    assume "\<exists>u v. s = u @ v \<and> P u \<and> tokens_match (t # ts) v"
    then obtain u a b where "s = (u @ a) @ b" "P u" "token_text t a" "tokens_match ts b"
      by auto
    moreover from this have "extend P t (u @ a)" by (auto simp: extend_def)
    ultimately show "\<exists>u v. s = u @ v \<and> extend P t u \<and> tokens_match ts v" by blast
  qed
  finally show ?case .
qed simp

lemma glob_matches_iff: "glob_matches pattern path \<longleftrightarrow> tokens_match (glob_tokens pattern) path"
proof -
  have "glob_matches pattern path = last (row (foldl extend (\<lambda>s. s = []) (glob_tokens pattern)) [] path)"
    unfolding glob_matches_def row_start [symmetric] glob_rows_correct ..
  then show ?thesis by (simp add: foldl_extend)
qed

lemma tokens_match_literals: "tokens_match (map Literal s) t \<longleftrightarrow> t = s"
  by (induction s arbitrary: t) auto

lemma glob_tokens_plain: "star_byte \<notin> set s \<Longrightarrow> glob_tokens s = map Literal s"
  by (induction s) auto

subsection \<open>Properties\<close>

text \<open>C34: the dynamic program of the ignore matcher accepts exactly the paths that split into pieces
  matching the pattern's tokens: a literal byte matches itself, a single star any text without a
  slash, a double star any text.\<close>
theorem glob_matcher_is_token_semantics:
  "glob_matches pattern path \<longleftrightarrow> tokens_match (glob_tokens pattern) path"
  by (rule glob_matches_iff)

end
