(* ===== verification/Tree_Check.thy ===== *)
theory Tree_Check
  imports Diff
begin

section \<open>Cross-entry checks of a manifest\<close>

text \<open>
  \<open>validate_manifest\<close> of \<open>rewind-snapshot/src/lib.rs\<close>, which scans and restores run before a
  manifest is trusted: no two paths may alias when case-folded, and every proper ancestor of
  an entry must be a directory entry.  The Unicode table behind \<open>char::to_lowercase\<close> is an
  argument (the lower-case form of one character).
\<close>

function chars :: "string \<Rightarrow> string list" where
  \<comment> \<open>\<open>str::chars\<close>: a lead byte with the continuation bytes that follow it\<close>
  "chars [] = []"
| "chars (c # cs) =
     (c # takeWhile (\<lambda>d. utf8_tail (byte_of_char d)) cs) # chars (dropWhile (\<lambda>d. utf8_tail (byte_of_char d)) cs)"
  by pat_completeness auto
termination
  by (relation "measure length") (auto simp: le_imp_less_Suc length_dropWhile_le)

definition case_fold :: "(string \<Rightarrow> string) \<Rightarrow> string \<Rightarrow> string" where
  "case_fold to_lowercase path = concat (map to_lowercase (chars path))"

datatype tree_error =
    CaseFoldCollision snapshot_path snapshot_path
  | MissingParent snapshot_path string
  | ParentNotDirectory snapshot_path snapshot_path

fun check_collisions :: "(string \<Rightarrow> string) \<Rightarrow> (string \<rightharpoonup> snapshot_entry) \<Rightarrow> snapshot_entry list
    \<Rightarrow> (tree_error, unit) result" where
  "check_collisions lower folded [] = Inr ()"
| "check_collisions lower folded (e # es) =
     (let key = case_fold lower (entry_path e) in
      case folded key of
        Some previous \<Rightarrow> Inl (CaseFoldCollision (entry_path previous) (entry_path e))
      | None \<Rightarrow> check_collisions lower (folded(key \<mapsto> e)) es)"

fun slash_prefixes :: "string \<Rightarrow> string \<Rightarrow> string list" where
  \<comment> \<open>the text before each slash; the first argument is the text already passed\<close>
  "slash_prefixes pre [] = []"
| "slash_prefixes pre (c # cs) =
     (if c = CHR ''/'' then pre # slash_prefixes (pre @ [c]) cs else slash_prefixes (pre @ [c]) cs)"

definition entry_index :: "snapshot_entry list \<Rightarrow> string \<rightharpoonup> snapshot_entry" where
  \<comment> \<open>collected into a \<open>BTreeMap\<close>: the last entry of a path wins\<close>
  "entry_index es = map_of (rev (map (\<lambda>e. (entry_path e, e)) es))"

definition check_parent :: "snapshot_entry list \<Rightarrow> snapshot_entry \<Rightarrow> string \<Rightarrow> (tree_error, unit) result" where
  "check_parent entries e parent_key =
     (case entry_index entries parent_key of
        None \<Rightarrow> Inl (MissingParent (entry_path e) parent_key)
      | Some parent \<Rightarrow>
          if entry_kind parent \<noteq> Directory then Inl (ParentNotDirectory (entry_path e) (entry_path parent))
          else Inr ())"

definition validate_manifest :: "(string \<Rightarrow> string) \<Rightarrow> snapshot_manifest \<Rightarrow> (tree_error, unit) result" where
  "validate_manifest lower manifest =
     (let entries = manifest_entries manifest in
      and_then (check_collisions lower Map.empty entries) (\<lambda>_.
        for_each (\<lambda>e. for_each (check_parent entries e) (slash_prefixes [] (entry_path e))) entries))"

subsection \<open>What an accepted manifest guarantees\<close>

lemma check_collisions_Inr_iff:
  "check_collisions lower folded es = Inr () \<longleftrightarrow>
     distinct (map (\<lambda>e. case_fold lower (entry_path e)) es)
     \<and> (\<forall>e \<in> set es. folded (case_fold lower (entry_path e)) = None)"
proof (induction es arbitrary: folded)
  case (Cons e es)
  show ?case
  proof (cases "folded (case_fold lower (entry_path e))")
    case None
    then show ?thesis
      by (simp add: Let_def Cons.IH) (metis (mono_tags, lifting) image_iff)
  qed (simp add: Let_def)
qed simp

lemma check_collisions_error:
  "check_collisions lower folded es = Inl x \<Longrightarrow> \<exists>p q. x = CaseFoldCollision p q"
  by (induction es arbitrary: folded) (auto simp: Let_def split: option.splits)

lemma slash_prefixes_iff:
  "p \<in> set (slash_prefixes pre s) \<longleftrightarrow> (\<exists>u v. s = u @ CHR ''/'' # v \<and> p = pre @ u)"
proof (induction s arbitrary: pre)
  case (Cons c cs)
  show ?case
  proof
    assume "p \<in> set (slash_prefixes pre (c # cs))"
    then consider "c = CHR ''/''" "p = pre" | "p \<in> set (slash_prefixes (pre @ [c]) cs)"
      by (auto split: if_splits)
    then show "\<exists>u v. c # cs = u @ CHR ''/'' # v \<and> p = pre @ u"
    proof cases
      case 1
      then have "c # cs = [] @ CHR ''/'' # cs \<and> p = pre @ []" by simp
      then show ?thesis by blast
    next
      case 2
      then obtain u v where "cs = u @ CHR ''/'' # v" "p = (pre @ [c]) @ u" using Cons by blast
      then have "c # cs = (c # u) @ CHR ''/'' # v \<and> p = pre @ (c # u)" by simp
      then show ?thesis by blast
    qed
  next
    assume "\<exists>u v. c # cs = u @ CHR ''/'' # v \<and> p = pre @ u"
    then obtain u v where uv: "c # cs = u @ CHR ''/'' # v" "p = pre @ u" by blast
    show "p \<in> set (slash_prefixes pre (c # cs))"
    proof (cases u)
      case Nil
      then show ?thesis using uv by simp
    next
      case (Cons d w)
      then have "cs = w @ CHR ''/'' # v" "p = (pre @ [c]) @ w" using uv by auto
      then have "p \<in> set (slash_prefixes (pre @ [c]) cs)" using Cons.IH by blast
      then show ?thesis by (cases "c = CHR ''/''") simp_all
    qed
  qed
qed simp

lemma entry_index_tree: "distinct (map entry_path es) \<Longrightarrow> entry_index es = tree es"
  unfolding entry_index_def tree_def
  by (subst map_of_inject_set) (simp_all add: comp_def rev_map [symmetric])

definition parents_present :: "snapshot_entry list \<Rightarrow> bool" where
  "parents_present es \<longleftrightarrow>
     (\<forall>e \<in> set es. \<forall>u v. entry_path e = u @ CHR ''/'' # v \<longrightarrow>
        (\<exists>d. tree es u = Some d \<and> entry_kind d = Directory))"

definition no_aliases :: "(string \<Rightarrow> string) \<Rightarrow> snapshot_entry list \<Rightarrow> bool" where
  "no_aliases lower es \<longleftrightarrow>
     (\<forall>d \<in> set es. \<forall>e \<in> set es. case_fold lower (entry_path d) = case_fold lower (entry_path e) \<longrightarrow> d = e)"

lemma check_parent_Inr_iff:
  "check_parent es e p = Inr () \<longleftrightarrow> (\<exists>d. entry_index es p = Some d \<and> entry_kind d = Directory)"
  by (auto simp: check_parent_def split: option.splits)

lemma validate_manifest_Inr_iff:
  assumes "manifest_ok m"
  shows "validate_manifest lower m = Inr () \<longleftrightarrow>
     no_aliases lower (manifest_entries m) \<and> parents_present (manifest_entries m)"
proof -
  let ?es = "manifest_entries m"
  have d: "distinct (map entry_path ?es)" "distinct ?es"
    using assms by (auto simp: manifest_ok_def strictly_sorted_iff distinct_map)
  have "validate_manifest lower m = Inr () \<longleftrightarrow>
      distinct (map (\<lambda>e. case_fold lower (entry_path e)) ?es) \<and>
      (\<forall>e \<in> set ?es. \<forall>p \<in> set (slash_prefixes [] (entry_path e)).
         \<exists>d. tree ?es p = Some d \<and> entry_kind d = Directory)"
    by (simp add: validate_manifest_def Let_def and_then_Inr_iff for_each_Inr_iff
        check_collisions_Inr_iff check_parent_Inr_iff entry_index_tree [OF d(1)])
  moreover have "distinct (map (\<lambda>e. case_fold lower (entry_path e)) ?es) \<longleftrightarrow> no_aliases lower ?es"
    using d(2) by (auto simp: no_aliases_def distinct_map inj_on_def)
  ultimately show ?thesis
    by (auto simp: parents_present_def slash_prefixes_iff)
qed

subsection \<open>Properties\<close>

text \<open>C37: a manifest is accepted for materialization exactly when no two of its paths coincide after
  case folding and every proper prefix of a path is a directory of the manifest.\<close>
theorem materializable_manifest:
  assumes "manifest_ok m"
  shows "validate_manifest lower m = Inr () \<longleftrightarrow>
     no_aliases lower (manifest_entries m) \<and> parents_present (manifest_entries m)"
  using assms by (rule validate_manifest_Inr_iff)

theorem materializable_manifest_witness:
  "validate_manifest (\<lambda>c. c) \<lparr>manifest_schema_version = 1, manifest_entries =
     [\<lparr>entry_path = ''a'', entry_kind = Directory, entry_permissions = UnixPermissions 493\<rparr>]\<rparr> = Inr ()"
  by (subst materializable_manifest)
    (simp_all add: manifest_ok_def SNAPSHOT_SCHEMA_VERSION_def entry_ok_def no_aliases_def parents_present_def
      Cons_eq_append_conv)

end
