(* ===== verification/Codec.thy ===== *)
theory Codec
  imports Prelude
begin

section \<open>Little-endian integers and byte cursors\<close>

text \<open>
  \<open>to_le_bytes\<close> and \<open>from_le_bytes\<close> of the three widths the file formats use, behind the
  locale \<open>byte_codec\<close>: a fixed-width encoding that is a bijection with the byte strings of its
  width.  The bundle, the object envelope and the control frames rest on its facts.
\<close>

fun nat_le :: "nat \<Rightarrow> nat \<Rightarrow> u8 list" where
  "nat_le 0 x = []"
| "nat_le (Suc n) x = word_of_nat (x mod 256) # nat_le n (x div 256)"

fun le_nat :: "u8 list \<Rightarrow> nat" where
  "le_nat [] = 0"
| "le_nat (b # bs) = unat b + 256 * le_nat bs"

definition u16_to_le_bytes :: "u16 \<Rightarrow> u8 list" where "u16_to_le_bytes w = nat_le 2 (unat w)"
definition u32_to_le_bytes :: "u32 \<Rightarrow> u8 list" where "u32_to_le_bytes w = nat_le 4 (unat w)"
definition u64_to_le_bytes :: "u64 \<Rightarrow> u8 list" where "u64_to_le_bytes w = nat_le 8 (unat w)"

definition u16_from_le_bytes :: "u8 list \<Rightarrow> u16" where "u16_from_le_bytes bs = word_of_nat (le_nat bs)"
definition u32_from_le_bytes :: "u8 list \<Rightarrow> u32" where "u32_from_le_bytes bs = word_of_nat (le_nat bs)"
definition u64_from_le_bytes :: "u8 list \<Rightarrow> u64" where "u64_from_le_bytes bs = word_of_nat (le_nat bs)"

lemma length_nat_le [simp]: "length (nat_le n x) = n"
  by (induction n arbitrary: x) auto

lemma le_nat_lt: "le_nat bs < 256 ^ length bs"
proof (induction bs)
  case (Cons b bs)
  have "unat b < 256" by (rule unat_lt_bounds)
  moreover have "256 * le_nat bs + 256 \<le> 256 * 256 ^ length bs" using Cons by linarith
  ultimately show ?case by simp
qed simp

lemma le_nat_nat_le: "le_nat (nat_le n x) = x mod 256 ^ n"
proof (induction n arbitrary: x)
  case (Suc n)
  have "x mod (256 * 256 ^ n) = 256 * (x div 256 mod 256 ^ n) + x mod 256"
    by (rule mod_mult2_eq)
  then show ?case using Suc by (simp add: unat_of_nat)
qed simp

lemma nat_le_le_nat: "nat_le (length bs) (le_nat bs) = bs"
proof (induction bs)
  case (Cons b bs)
  have b: "unat b < 256" by (rule unat_lt_bounds)
  then have "(unat b + 256 * le_nat bs) mod 256 = unat b" "(unat b + 256 * le_nat bs) div 256 = le_nat bs"
    by simp_all
  then show ?case using Cons by simp
qed simp

locale byte_codec =
  fixes width :: nat
    and enc :: "'a \<Rightarrow> u8 list"
    and dec :: "u8 list \<Rightarrow> 'a"
  assumes length_enc: "length (enc x) = width"
    and dec_enc: "dec (enc x) = x"
    and enc_dec: "length bs = width \<Longrightarrow> enc (dec bs) = bs"
begin

lemma enc_inj: "enc x = enc y \<longleftrightarrow> x = y"
  by (metis dec_enc)

lemma take_enc: "take width (enc x @ rest) = enc x"
  by (simp add: length_enc)

lemma drop_enc: "drop width (enc x @ rest) = rest"
  by (simp add: length_enc)

lemma dec_take_enc: "dec (take width (enc x @ rest)) = x"
  by (simp add: length_enc dec_enc)

lemma enc_dec_take: "width \<le> length bs \<Longrightarrow> enc (dec (take width bs)) @ drop width bs = bs"
  by (simp add: enc_dec)

lemma dec_eq_iff: "length bs = width \<Longrightarrow> dec bs = x \<longleftrightarrow> bs = enc x"
  by (metis dec_enc enc_dec)

end

interpretation le16: byte_codec 2 u16_to_le_bytes u16_from_le_bytes
proof
  fix bs :: "u8 list" assume l: "length bs = 2"
  show "u16_to_le_bytes (u16_from_le_bytes bs) = bs"
    using le_nat_lt [of bs] l nat_le_le_nat [of bs]
    by (simp add: u16_to_le_bytes_def u16_from_le_bytes_def unat_of_nat)
qed (use unat_lt_bounds(2) in \<open>simp_all add: u16_to_le_bytes_def u16_from_le_bytes_def le_nat_nat_le\<close>)

interpretation le32: byte_codec 4 u32_to_le_bytes u32_from_le_bytes
proof
  fix bs :: "u8 list" assume l: "length bs = 4"
  show "u32_to_le_bytes (u32_from_le_bytes bs) = bs"
    using le_nat_lt [of bs] l nat_le_le_nat [of bs]
    by (simp add: u32_to_le_bytes_def u32_from_le_bytes_def unat_of_nat)
qed (use unat_lt_bounds(3) in \<open>simp_all add: u32_to_le_bytes_def u32_from_le_bytes_def le_nat_nat_le\<close>)

interpretation le64: byte_codec 8 u64_to_le_bytes u64_from_le_bytes
proof
  fix bs :: "u8 list" assume l: "length bs = 8"
  show "u64_to_le_bytes (u64_from_le_bytes bs) = bs"
    using le_nat_lt [of bs] l nat_le_le_nat [of bs]
    by (simp add: u64_to_le_bytes_def u64_from_le_bytes_def unat_of_nat)
qed (use unat_lt_bounds(4) in \<open>simp_all add: u64_to_le_bytes_def u64_from_le_bytes_def le_nat_nat_le\<close>)

lemma length_take_drop: "i + n \<le> length bs \<Longrightarrow> length (take n (drop i bs)) = n"
  by simp

lemmas le_lengths [simp] = le16.length_enc le32.length_enc le64.length_enc
lemmas le_decodes [simp] = le16.dec_enc le32.dec_enc le64.dec_enc

end
