(* ===== verification/Bundle.thy ===== *)
theory Bundle
  imports Paths Codec
begin

section \<open>Bundles\<close>

text \<open>
  \<open>rewind-store/src/bundle.rs\<close>: the streaming encoder, \<open>encode_bundle\<close> and the decoder of
  untrusted archives.  The writer is the byte sequence it has accumulated (a failing device is
  outside the model).  The decoder is proved to invert the encoder and to accept nothing but
  encodings: an accepted archive re-encodes to the same bytes.
\<close>

definition BUNDLE_MAGIC :: "u8 list" where "BUNDLE_MAGIC = as_bytes ''RWBN''"
definition BUNDLE_VERSION :: u16 where "BUNDLE_VERSION = 1"
definition HEADER_BYTES :: nat where "HEADER_BYTES = 12"
definition ENTRY_HEADER_BYTES :: nat where "ENTRY_HEADER_BYTES = 44"
definition MAX_ARCHIVE_PATH_BYTES :: nat where "MAX_ARCHIVE_PATH_BYTES = 4096"

record bundle_entry =
  be_path :: string
  be_bytes :: "u8 list"

record bundle_limits =
  maximum_entries :: u32
  maximum_entry_bytes :: u64
  maximum_total_bytes :: u64

definition default_bundle_limits :: bundle_limits where
  "default_bundle_limits = \<lparr>maximum_entries = 1000000, maximum_entry_bytes = 16 * 1024 * 1024 * 1024,
                            maximum_total_bytes = 64 * 1024 * 1024 * 1024\<rparr>"

datatype bundle_error =
    BundleInvalidMagic
  | BundleUnsupportedVersion u16 u16
  | BundleUnsupportedFlags
  | BundleTruncated
  | BundleTrailingBytes
  | BundleNonUtf8Path
  | BundleUnsafePath string
  | BundleNonCanonicalOrder string
  | BundleTooManyEntries u32 u32
  | BundleEntryTooLarge string u64 u64
  | BundleTotalTooLarge u64
  | BundleChecksumMismatch string
  | BundleNumericRange
  | BundleEntryCountMismatch u32 u32
  | BundleSourceLengthMismatch string

definition validate_archive_path :: "string \<Rightarrow> (bundle_error, unit) result" where
  "validate_archive_path path =
     (if path = [] \<or> length path > MAX_ARCHIVE_PATH_BYTES \<or> starts_with ''/'' path
         \<or> backslash \<in> set path \<or> nul \<in> set path
         \<or> list_ex (\<lambda>c. c = [] \<or> c = ''.'' \<or> c = ''..'') (split_on CHR ''/'' path)
      then Inl (BundleUnsafePath path) else Inr ())"

subsection \<open>Streaming encoder\<close>

record bundle_writer =
  bw_out :: "u8 list"
  bw_declared :: u32
  bw_written :: u32
  bw_previous :: "string option"

definition writer_new :: "u32 \<Rightarrow> bundle_writer" where
  "writer_new entry_count =
     \<lparr>bw_out = BUNDLE_MAGIC @ u16_to_le_bytes BUNDLE_VERSION @ u16_to_le_bytes 0 @ u32_to_le_bytes entry_count,
      bw_declared = entry_count, bw_written = 0, bw_previous = None\<rparr>"

definition not_after :: "string option \<Rightarrow> string \<Rightarrow> bool" where
  \<comment> \<open>\<open>previous.is_some_and(|value| value >= path)\<close>\<close>
  "not_after previous path = (case previous of None \<Rightarrow> False | Some v \<Rightarrow> v \<ge> path)"

definition write_entry_header ::
    "bundle_writer \<Rightarrow> string \<Rightarrow> u64 \<Rightarrow> u8 list \<Rightarrow> (bundle_error, bundle_writer) result" where
  "write_entry_header w path byte_len checksum =
     and_then (validate_archive_path path) (\<lambda>_.
       if bw_written w = bw_declared w
       then Inl (BundleEntryCountMismatch (bw_declared w) (saturating_add (bw_written w) 1))
       else if not_after (bw_previous w) path
       then Inl (BundleNonCanonicalOrder path)
       else and_then (ok_or BundleNumericRange (word_of_len (length path))) (\<lambda>path_len.
         Inr (w\<lparr>bw_out := bw_out w @ u16_to_le_bytes path_len @ u16_to_le_bytes 0
                  @ u64_to_le_bytes byte_len @ checksum @ as_bytes path\<rparr>)))"

definition complete_entry :: "bundle_writer \<Rightarrow> string \<Rightarrow> bundle_writer" where
  "complete_entry w path = w\<lparr>bw_previous := Some path, bw_written := bw_written w + 1\<rparr>"

definition write_entry ::
    "(u8 list \<Rightarrow> u8 list) \<Rightarrow> bundle_writer \<Rightarrow> string \<Rightarrow> u8 list \<Rightarrow> (bundle_error, bundle_writer) result" where
  "write_entry hash w path bytes =
     and_then (ok_or BundleNumericRange (word_of_len (length bytes))) (\<lambda>byte_len.
     and_then (write_entry_header w path byte_len (hash bytes)) (\<lambda>w1.
       Inr (complete_entry (w1\<lparr>bw_out := bw_out w1 @ bytes\<rparr>) path)))"

function copy_payload :: "string \<Rightarrow> nat \<Rightarrow> u8 list \<Rightarrow> u8 list \<Rightarrow> u8 list
    \<Rightarrow> (bundle_error, u8 list \<times> u8 list \<times> u8 list) result" where
  \<comment> \<open>the loop of \<open>write_prehashed_entry\<close>: bytes remaining, output, hashed bytes, unread source;
     the standard reader of a byte slice fills the buffer as far as the source goes\<close>
  "copy_payload path remaining out hashed source =
     (if remaining = 0 then Inr (out, hashed, source)
      else let wanted = min remaining 65536; chunk = take wanted source in
        if chunk = [] then Inl (BundleSourceLengthMismatch path)
        else copy_payload path (remaining - length chunk) (out @ chunk) (hashed @ chunk)
               (drop wanted source))"
  by pat_completeness auto
termination
  by (relation "measure (\<lambda>(_, n, _). n)") (auto simp: min_def split: if_splits)

declare copy_payload.simps [simp del]

definition write_prehashed_entry ::
    "(u8 list \<Rightarrow> u8 list) \<Rightarrow> bundle_writer \<Rightarrow> string \<Rightarrow> u64 \<Rightarrow> u8 list \<Rightarrow> u8 list
     \<Rightarrow> (bundle_error, bundle_writer) result" where
  "write_prehashed_entry hash w path byte_len checksum source =
     and_then (write_entry_header w path byte_len checksum) (\<lambda>w1.
     and_then (copy_payload path (unat byte_len) (bw_out w1) [] source) (\<lambda>(out, hashed, rest).
       if rest \<noteq> [] then Inl (BundleSourceLengthMismatch path)
       else if hash hashed \<noteq> checksum then Inl (BundleChecksumMismatch path)
       else Inr (complete_entry (w1\<lparr>bw_out := out\<rparr>) path)))"

definition writer_finish :: "bundle_writer \<Rightarrow> (bundle_error, u8 list) result" where
  "writer_finish w =
     (if bw_written w \<noteq> bw_declared w
      then Inl (BundleEntryCountMismatch (bw_declared w) (bw_written w))
      else Inr (bw_out w))"

fun check_unique_paths :: "string set \<Rightarrow> bundle_entry list \<Rightarrow> (bundle_error, unit) result" where
  "check_unique_paths paths [] = Inr ()"
| "check_unique_paths paths (e # es) =
     (if be_path e \<in> paths then Inl (BundleNonCanonicalOrder (be_path e))
      else check_unique_paths (insert (be_path e) paths) es)"

definition encode_bundle ::
    "(u8 list \<Rightarrow> u8 list) \<Rightarrow> bundle_entry list \<Rightarrow> (bundle_error, u8 list) result" where
  "encode_bundle hash entries0 =
     and_then (for_each (\<lambda>e. validate_archive_path (be_path e)) entries0) (\<lambda>_.
     let entries = sort_key be_path entries0 in
     and_then (check_unique_paths {} entries) (\<lambda>_.
     and_then (ok_or BundleNumericRange (word_of_len (length entries))) (\<lambda>count.
     and_then (fold_result (\<lambda>w e. write_entry hash w (be_path e) (be_bytes e)) (writer_new count) entries)
       writer_finish)))"

subsection \<open>Decoder\<close>

definition take_slice :: "u8 list \<Rightarrow> nat \<Rightarrow> nat \<Rightarrow> (bundle_error, u8 list \<times> nat) result" where
  \<comment> \<open>the slice and the advanced cursor\<close>
  "take_slice bytes cursor n =
     (if cursor + n \<le> length bytes then Inr (take n (drop cursor bytes), cursor + n)
      else Inl BundleTruncated)"

definition decode_entry ::
    "(u8 list \<Rightarrow> u8 list) \<Rightarrow> bundle_limits \<Rightarrow> u8 list \<Rightarrow> nat \<Rightarrow> u64 \<Rightarrow> string option
     \<Rightarrow> (bundle_error, bundle_entry \<times> nat \<times> u64) result" where
  \<comment> \<open>one round of the loop: the entry, the advanced cursor and the running total\<close>
  "decode_entry hash limits bytes cursor running_total previous =
     and_then (take_slice bytes cursor ENTRY_HEADER_BYTES) (\<lambda>(header, cursor1).
     and_then (ensure (u16_from_le_bytes (take 2 (drop 2 header)) = 0) BundleUnsupportedFlags) (\<lambda>_.
     let path_len = unat (u16_from_le_bytes (take 2 header));
         byte_len = u64_from_le_bytes (take 8 (drop 4 header));
         checksum = take 32 (drop 12 header) in
     and_then (take_slice bytes cursor1 path_len) (\<lambda>(path_bytes, cursor2).
     and_then (ok_or BundleNonUtf8Path (str_from_utf8 path_bytes)) (\<lambda>path.
     and_then (validate_archive_path path) (\<lambda>_.
     and_then (ensure (\<not> not_after previous path) (BundleNonCanonicalOrder path)) (\<lambda>_.
     and_then (ensure (\<not> byte_len > maximum_entry_bytes limits)
       (BundleEntryTooLarge path byte_len (maximum_entry_bytes limits))) (\<lambda>_.
     and_then (ok_or (BundleTotalTooLarge (maximum_total_bytes limits)) (checked_add running_total byte_len)) (\<lambda>running_total1.
     and_then (ensure (\<not> running_total1 > maximum_total_bytes limits)
       (BundleTotalTooLarge (maximum_total_bytes limits))) (\<lambda>_.
     and_then (take_slice bytes cursor2 (unat byte_len)) (\<lambda>(payload, cursor3).
     and_then (ensure (hash payload = checksum) (BundleChecksumMismatch path)) (\<lambda>_.
       Inr (\<lparr>be_path = path, be_bytes = payload\<rparr>, cursor3, running_total1))))))))))))"

fun decode_entries ::
    "(u8 list \<Rightarrow> u8 list) \<Rightarrow> bundle_limits \<Rightarrow> u8 list \<Rightarrow> nat \<Rightarrow> nat \<Rightarrow> u64 \<Rightarrow> string option
     \<Rightarrow> (bundle_error, bundle_entry list \<times> nat) result" where
  \<comment> \<open>\<open>for _ in 0..count\<close>\<close>
  "decode_entries hash limits bytes 0 cursor running_total previous = Inr ([], cursor)"
| "decode_entries hash limits bytes (Suc n) cursor running_total previous =
     and_then (decode_entry hash limits bytes cursor running_total previous) (\<lambda>(e, cursor', running_total').
     and_then (decode_entries hash limits bytes n cursor' running_total' (Some (be_path e))) (\<lambda>(es, cursor'').
       Inr (e # es, cursor'')))"

definition decode_bundle ::
    "(u8 list \<Rightarrow> u8 list) \<Rightarrow> u8 list \<Rightarrow> bundle_limits \<Rightarrow> (bundle_error, bundle_entry list) result" where
  "decode_bundle hash bytes limits =
     (if length bytes < HEADER_BYTES then Inl BundleTruncated
      else if take 4 bytes \<noteq> BUNDLE_MAGIC then Inl BundleInvalidMagic
      else
        let version = u16_from_le_bytes (take 2 (drop 4 bytes)) in
        if version \<noteq> BUNDLE_VERSION then Inl (BundleUnsupportedVersion version BUNDLE_VERSION)
        else if u16_from_le_bytes (take 2 (drop 6 bytes)) \<noteq> 0 then Inl BundleUnsupportedFlags
        else
          let count = u32_from_le_bytes (take 4 (drop 8 bytes)) in
          if count > maximum_entries limits then Inl (BundleTooManyEntries count (maximum_entries limits))
          else and_then (decode_entries hash limits bytes (unat count) HEADER_BYTES 0 None)
            (\<lambda>(entries, cursor).
              if cursor \<noteq> length bytes then Inl BundleTrailingBytes else Inr entries))"

subsection \<open>The encoder\<close>

definition entry_bytes :: "(u8 list \<Rightarrow> u8 list) \<Rightarrow> bundle_entry \<Rightarrow> u8 list" where
  \<comment> \<open>the layout of one entry\<close>
  "entry_bytes hash e =
     u16_to_le_bytes (of_nat (length (be_path e))) @ u16_to_le_bytes 0
     @ u64_to_le_bytes (of_nat (length (be_bytes e))) @ hash (be_bytes e) @ as_bytes (be_path e) @ be_bytes e"

definition bundle_bytes :: "(u8 list \<Rightarrow> u8 list) \<Rightarrow> bundle_entry list \<Rightarrow> u8 list" where
  "bundle_bytes hash es =
     BUNDLE_MAGIC @ u16_to_le_bytes BUNDLE_VERSION @ u16_to_le_bytes 0
     @ u32_to_le_bytes (of_nat (length es)) @ concat (map (entry_bytes hash) es)"

definition bundle_entry_ok :: "bundle_entry \<Rightarrow> bool" where
  "bundle_entry_ok e \<longleftrightarrow> path_ok (be_path e) \<and> length (be_bytes e) < 2 ^ 64"

lemma validate_archive_path_Inr [simp]: "validate_archive_path p = Inr () \<longleftrightarrow> path_ok p"
proof
  assume "validate_archive_path p = Inr ()"
  then show "path_ok p"
    by (auto simp: validate_archive_path_def path_ok_def component_ok_def list_ex_iff
        MAX_ARCHIVE_PATH_BYTES_def MAX_SNAPSHOT_PATH_BYTES_def split: if_splits)
next
  assume p: "path_ok p"
  then show "validate_archive_path p = Inr ()"
    using path_ok_not_Nil [OF p] path_ok_not_absolute [OF p]
    by (auto simp: validate_archive_path_def path_ok_def component_ok_def list_ex_iff
        MAX_ARCHIVE_PATH_BYTES_def MAX_SNAPSHOT_PATH_BYTES_def)
qed

lemma path_ok_length: "path_ok p \<Longrightarrow> length p < 65536"
  by (simp add: path_ok_def MAX_SNAPSHOT_PATH_BYTES_def)

lemma write_entry_Inr:
  assumes "bundle_entry_ok e" and "bw_written w \<noteq> bw_declared w"
    and "\<forall>p. bw_previous w = Some p \<longrightarrow> p < be_path e"
  shows "write_entry hash w (be_path e) (be_bytes e) =
    Inr (w\<lparr>bw_out := bw_out w @ entry_bytes hash e, bw_previous := Some (be_path e),
           bw_written := bw_written w + 1\<rparr>)"
proof -
  have "word_of_len (length (be_bytes e)) = Some (of_nat (length (be_bytes e)) :: u64)"
    using assms(1) by (simp add: bundle_entry_ok_def word_of_len_def)
  moreover have "word_of_len (length (be_path e)) = Some (of_nat (length (be_path e)) :: u16)"
    using assms(1) path_ok_length by (simp add: bundle_entry_ok_def word_of_len_def)
  moreover have v: "validate_archive_path (be_path e) = Inr ()"
    using assms(1) by (simp add: bundle_entry_ok_def)
  ultimately show ?thesis
    using assms(2,3)
    by (auto simp: v write_entry_def write_entry_header_def complete_entry_def entry_bytes_def not_le
        not_after_def split: option.splits)
qed

lemma write_entries:
  assumes "\<forall>e \<in> set es. bundle_entry_ok e" and "strictly_sorted (map be_path es)"
    and "unat (bw_written w) + length es \<le> unat (bw_declared w)"
    and "\<forall>p e. bw_previous w = Some p \<longrightarrow> e \<in> set es \<longrightarrow> p < be_path e"
  shows "\<exists>p. fold_result (\<lambda>w e. write_entry hash w (be_path e) (be_bytes e)) w es =
    Inr (w\<lparr>bw_out := bw_out w @ concat (map (entry_bytes hash) es), bw_previous := p,
           bw_written := bw_written w + of_nat (length es)\<rparr>)"
  using assms
proof (induction es arbitrary: w)
  case Nil
  show ?case by (intro exI [of _ "bw_previous w"]) simp
next
  case (Cons e es)
  let ?w = "w\<lparr>bw_out := bw_out w @ entry_bytes hash e, bw_previous := Some (be_path e),
              bw_written := bw_written w + 1\<rparr>"
  have "unat (bw_written w) < unat (bw_declared w)" using Cons.prems(3) by simp
  then have ne: "bw_written w \<noteq> bw_declared w" by auto
  have up: "unat (bw_written w + 1) = unat (bw_written w) + 1"
    using Cons.prems(3) unat_lt_bounds(3) [of "bw_declared w"] by (simp add: unat_word_ariths)
  have "write_entry hash w (be_path e) (be_bytes e) = Inr ?w"
    using Cons.prems ne by (intro write_entry_Inr) auto
  moreover obtain p where "fold_result (\<lambda>w e. write_entry hash w (be_path e) (be_bytes e)) ?w es =
    Inr (?w\<lparr>bw_out := bw_out ?w @ concat (map (entry_bytes hash) es), bw_previous := p,
           bw_written := bw_written ?w + of_nat (length es)\<rparr>)"
    using Cons.IH [of ?w] Cons.prems up by auto
  ultimately show ?case by (intro exI [of _ p]) (simp add: add.assoc add.commute)
qed

lemma check_unique_paths_Inr_iff:
  "check_unique_paths S es = Inr () \<longleftrightarrow> distinct (map be_path es) \<and> be_path ` set es \<inter> S = {}"
  by (induction S es rule: check_unique_paths.induct) auto

lemma encode_bundle_Inr_iff:
  "encode_bundle hash es = Inr bs \<longleftrightarrow>
     (\<forall>e \<in> set es. bundle_entry_ok e) \<and> distinct (map be_path es) \<and> length es < 2 ^ 32
     \<and> bs = bundle_bytes hash (sort_key be_path es)" (is "?l \<longleftrightarrow> ?r")
proof -
  let ?s = "sort_key be_path es"
  let ?f = "\<lambda>w e. write_entry hash w (be_path e) (be_bytes e)"
  have succ: "\<exists>w. fold_result ?f (writer_new (of_nat (length es))) ?s = Inr w
        \<and> writer_finish w = Inr (bundle_bytes hash ?s)"
    if ok: "\<forall>e \<in> set es. bundle_entry_ok e" "distinct (map be_path es)" "length es < 2 ^ 32"
  proof -
    have n: "unat (of_nat (length es) :: u32) = length es" using ok(3) by (simp add: unat_of_nat)
    obtain p where p: "fold_result ?f (writer_new (of_nat (length es))) ?s =
       Inr ((writer_new (of_nat (length es)))\<lparr>
          bw_out := bw_out (writer_new (of_nat (length es))) @ concat (map (entry_bytes hash) ?s),
          bw_previous := p, bw_written := bw_written (writer_new (of_nat (length es))) + of_nat (length ?s)\<rparr>)"
      using write_entries [of ?s "writer_new (of_nat (length es))" hash] ok n strictly_sorted_sort_key [of be_path es]
      by (auto simp: writer_new_def)
    then show "\<exists>w. fold_result ?f (writer_new (of_nat (length es))) ?s = Inr w
        \<and> writer_finish w = Inr (bundle_bytes hash ?s)"
      by (simp add: writer_finish_def writer_new_def bundle_bytes_def)
  qed
  show ?thesis
  proof
    assume l: ?l
    then have v: "\<forall>e \<in> set es. path_ok (be_path e)" and d: "distinct (map be_path es)"
      and c: "length es < 2 ^ 32"
      and f: "\<exists>w. fold_result ?f (writer_new (of_nat (length es))) ?s = Inr w \<and> writer_finish w = Inr bs"
      by (auto simp: encode_bundle_def and_then_Inr_iff for_each_Inr_iff check_unique_paths_Inr_iff
          Let_def word_of_len_def distinct_map split: if_splits)
    have "length (be_bytes e) < 2 ^ 64" if "e \<in> set es" for e
    proof -
      from f obtain w where "fold_result ?f (writer_new (of_nat (length es))) ?s = Inr w" by blast
      from fold_result_each [OF this, of e] that obtain u v where "?f u e = Inr v" by auto
      then show ?thesis by (auto simp: write_entry_def and_then_Inr_iff word_of_len_def split: if_splits)
    qed
    then have ok: "\<forall>e \<in> set es. bundle_entry_ok e" using v by (simp add: bundle_entry_ok_def)
    from f succ [OF ok d c] have "bs = bundle_bytes hash ?s" by auto
    then show ?r using ok d c by simp
  next
    assume r: ?r
    then show ?l
      using succ
      by (auto simp: encode_bundle_def and_then_Inr_iff for_each_Inr_iff check_unique_paths_Inr_iff
          Let_def word_of_len_def distinct_map bundle_entry_ok_def)
  qed
qed

subsection \<open>The decoder\<close>

lemma take_slice_Inr_iff:
  "take_slice bytes c n = Inr x \<longleftrightarrow> c + n \<le> length bytes \<and> x = (take n (drop c bytes), c + n)"
  by (auto simp: take_slice_def)

lemma drop_take_drop: "drop c xs = take n (drop c xs) @ drop (c + n) xs"
  by (metis add.commute append_take_drop_id drop_drop)

lemma take_drop_prefix: "drop c xs = a @ r \<Longrightarrow> length a = n \<Longrightarrow> take n (drop c xs) = a \<and> drop (c + n) xs = r"
  by (metis add.commute append_eq_conv_conj drop_drop)

lemma drop_bound: "drop c xs = a @ r \<Longrightarrow> a \<noteq> [] \<Longrightarrow> c + length a \<le> length xs"
  by (metis add_le_imp_le_diff append_is_Nil_conv drop_all length_append length_drop le_add1
      le_add_diff_inverse nat_add_left_cancel_le nat_le_linear)

lemma entry_header_split:
  assumes "length h = 44"
  shows "h = u16_to_le_bytes (u16_from_le_bytes (take 2 h))
     @ u16_to_le_bytes (u16_from_le_bytes (take 2 (drop 2 h)))
     @ u64_to_le_bytes (u64_from_le_bytes (take 8 (drop 4 h))) @ take 32 (drop 12 h)"
proof -
  have "h = take 2 h @ take 2 (drop 2 h) @ take 8 (drop 4 h) @ drop 12 h"
    using drop_take_drop [of 0 h 2] drop_take_drop [of 2 h 2] drop_take_drop [of 4 h 8] by simp
  then show ?thesis using assms by (simp add: le16.enc_dec le64.enc_dec)
qed

definition payload_total :: "bundle_entry list \<Rightarrow> nat" where
  "payload_total es = sum_list (map (\<lambda>e. length (be_bytes e)) es)"

lemma payload_total_simps [simp]:
  "payload_total [] = 0"
  "payload_total (e # es) = length (be_bytes e) + payload_total es"
  by (simp_all add: payload_total_def)

lemma payload_total_sort [simp]: "payload_total (sort_key f es) = payload_total es"
  unfolding payload_total_def by (simp flip: sum_mset_sum_list)

definition entry_within :: "bundle_limits \<Rightarrow> string option \<Rightarrow> bundle_entry \<Rightarrow> bool" where
  "entry_within limits previous e \<longleftrightarrow> bundle_entry_ok e \<and> is_str (be_path e)
     \<and> (\<forall>p. previous = Some p \<longrightarrow> p < be_path e)
     \<and> length (be_bytes e) \<le> unat (maximum_entry_bytes limits)"

lemma not_after_iff: "\<not> not_after previous path \<longleftrightarrow> (\<forall>p. previous = Some p \<longrightarrow> p < path)"
  by (cases previous) (auto simp: not_after_def)

lemma decode_entry_Inr_iff:
  "decode_entry hash limits bytes c t previous = Inr (e, c', t') \<longleftrightarrow>
     (let h = take 44 (drop c bytes); n = unat (u16_from_le_bytes (take 2 h));
          m = u64_from_le_bytes (take 8 (drop 4 h)) in
      c + 44 \<le> length bytes \<and> u16_from_le_bytes (take 2 (drop 2 h)) = 0
      \<and> c + 44 + n \<le> length bytes \<and> str_from_utf8 (take n (drop (c + 44) bytes)) = Some (be_path e)
      \<and> path_ok (be_path e) \<and> \<not> not_after previous (be_path e) \<and> m \<le> maximum_entry_bytes limits
      \<and> checked_add t m = Some t' \<and> t' \<le> maximum_total_bytes limits
      \<and> c + 44 + n + unat m \<le> length bytes \<and> be_bytes e = take (unat m) (drop (c + 44 + n) bytes)
      \<and> hash (be_bytes e) = take 32 (drop 12 h) \<and> c' = c + 44 + n + unat m)"
  unfolding decode_entry_def
  apply (cases e)
  apply (simp add: and_then_Inr_iff take_slice_Inr_iff Let_def ENTRY_HEADER_BYTES_def not_less)
  apply (rule iffI; elim conjE; hypsubst?; intro conjI; (assumption | rule refl | simp only:))
  done

lemma decode_entry_sound:
  assumes h: "hash_ok hash" and d: "decode_entry hash limits bytes c t previous = Inr (e, c', t')"
  shows "drop c bytes = entry_bytes hash e @ drop c' bytes" and "c' = c + length (entry_bytes hash e)"
    and "c' \<le> length bytes" and "entry_within limits previous e"
    and "unat t' = unat t + length (be_bytes e)" and "t' \<le> maximum_total_bytes limits"
proof -
  define hd where "hd = take 44 (drop c bytes)"
  define n where "n = unat (u16_from_le_bytes (take 2 hd))"
  define m where "m = u64_from_le_bytes (take 8 (drop 4 hd))"
  note st = d [unfolded decode_entry_Inr_iff Let_def, folded hd_def, folded n_def m_def]
  have i1: "c + 44 \<le> length bytes" and z: "u16_from_le_bytes (take 2 (drop 2 hd)) = 0"
    and i2: "c + 44 + n \<le> length bytes"
    and u: "str_from_utf8 (take n (drop (c + 44) bytes)) = Some (be_path e)"
    and p: "path_ok (be_path e)" "\<not> not_after previous (be_path e)" "m \<le> maximum_entry_bytes limits"
    and t: "checked_add t m = Some t'" "t' \<le> maximum_total_bytes limits"
    and i3: "c + 44 + n + unat m \<le> length bytes"
    and bb: "be_bytes e = take (unat m) (drop (c + 44 + n) bytes)"
    and hh: "hash (be_bytes e) = take 32 (drop 12 hd)" and c': "c' = c + 44 + n + unat m"
    using st by blast+
  have lh: "length hd = 44" unfolding hd_def length_take length_drop using i1 by arith
  have path: "take n (drop (c + 44) bytes) = as_bytes (be_path e)" and str: "is_str (be_path e)"
    using u by (simp_all only: str_from_utf8_Some_iff)
  have ln: "length (be_path e) = n"
    using arg_cong [OF path, of length] i2 unfolding length_as_bytes length_take length_drop by arith
  have lm: "length (be_bytes e) = unat m"
    unfolding bb length_take length_drop using i3 by arith
  have e1: "u16_from_le_bytes (take 2 hd) = of_nat (length (be_path e))" using ln by (simp add: n_def)
  have e2: "u64_from_le_bytes (take 8 (drop 4 hd)) = of_nat (length (be_bytes e))" using lm by (simp add: m_def)
  have hd: "hd = u16_to_le_bytes (of_nat (length (be_path e))) @ u16_to_le_bytes 0
     @ u64_to_le_bytes (of_nat (length (be_bytes e))) @ hash (be_bytes e)"
    using entry_header_split [OF lh] unfolding e1 e2 z hh .
  have "drop c bytes = hd @ drop (c + 44) bytes" unfolding hd_def by (rule drop_take_drop)
  also have "drop (c + 44) bytes = as_bytes (be_path e) @ drop (c + 44 + n) bytes"
    using drop_take_drop [of "c + 44" bytes n] unfolding path .
  also have "drop (c + 44 + n) bytes = be_bytes e @ drop c' bytes"
    using drop_take_drop [of "c + 44 + n" bytes "unat m"] unfolding bb c' .
  finally show "drop c bytes = entry_bytes hash e @ drop c' bytes"
    unfolding entry_bytes_def append_assoc using hd by simp
  have "length (hash (be_bytes e)) = 32" using h by (simp add: hash_ok_def)
  then show "c' = c + length (entry_bytes hash e)" using ln lm c' by (simp add: entry_bytes_def)
  show "c' \<le> length bytes" using i3 c' by simp
  show "entry_within limits previous e"
    using p str lm unat_lt_bounds(4) [of m]
    by (simp add: entry_within_def bundle_entry_ok_def not_after_iff word_le_nat_alt)
  show "unat t' = unat t + length (be_bytes e)" using t lm by (simp add: checked_add_Some_iff)
  show "t' \<le> maximum_total_bytes limits" using t by simp
qed

lemma decode_entry_complete:
  assumes h: "hash_ok hash" and b: "drop c bytes = entry_bytes hash e @ rest"
    and e: "entry_within limits previous e"
    and t: "unat t + length (be_bytes e) \<le> unat (maximum_total_bytes limits)"
  shows "decode_entry hash limits bytes c t previous =
    Inr (e, c + length (entry_bytes hash e), t + of_nat (length (be_bytes e)))"
proof -
  have lh: "length (hash (be_bytes e)) = 32" using h by (simp add: hash_ok_def)
  have lp: "length (be_path e) < 65536" using e path_ok_length by (simp add: entry_within_def bundle_entry_ok_def)
  have lb: "length (be_bytes e) < 2 ^ 64" using e by (simp add: entry_within_def bundle_entry_ok_def)
  have up: "unat (of_nat (length (be_path e)) :: u16) = length (be_path e)" using lp by (simp add: unat_of_nat)
  have ub: "unat (of_nat (length (be_bytes e)) :: u64) = length (be_bytes e)" using lb by (simp add: unat_of_nat)
  define hh where "hh = u16_to_le_bytes (of_nat (length (be_path e))) @ u16_to_le_bytes 0
     @ u64_to_le_bytes (of_nat (length (be_bytes e))) @ hash (be_bytes e)"
  have f: "u16_from_le_bytes (take 2 hh) = of_nat (length (be_path e))"
    "u16_from_le_bytes (take 2 (drop 2 hh)) = 0"
    "u64_from_le_bytes (take 8 (drop 4 hh)) = of_nat (length (be_bytes e))"
    "take 32 (drop 12 hh) = hash (be_bytes e)" "length hh = 44"
    using lh by (simp_all add: hh_def)
  have d: "drop c bytes = hh @ as_bytes (be_path e) @ be_bytes e @ rest"
    using b by (simp add: entry_bytes_def hh_def)
  have s1: "take 44 (drop c bytes) = hh" and d1: "drop (c + 44) bytes = as_bytes (be_path e) @ be_bytes e @ rest"
    using take_drop_prefix [OF d f(5)] by simp_all
  have s2: "take (length (be_path e)) (drop (c + 44) bytes) = as_bytes (be_path e)"
    and d2: "drop (c + 44 + length (be_path e)) bytes = be_bytes e @ rest"
    using take_drop_prefix [OF d1 length_as_bytes] by simp_all
  have s3: "take (length (be_bytes e)) (drop (c + 44 + length (be_path e)) bytes) = be_bytes e"
    using take_drop_prefix [OF d2 refl] by simp
  have le: "length (entry_bytes hash e) = 44 + length (be_path e) + length (be_bytes e)"
    using lh by (simp add: entry_bytes_def)
  have len: "c + length (entry_bytes hash e) \<le> length bytes"
  proof (rule drop_bound [OF b])
    have "length (entry_bytes hash e) > 0" using lh by (simp add: entry_bytes_def)
    then show "entry_bytes hash e \<noteq> []" by blast
  qed
  have "checked_add t (of_nat (length (be_bytes e))) = Some (t + of_nat (length (be_bytes e)))"
    using t ub unat_lt_bounds(4) [of "maximum_total_bytes limits"] by (simp add: checked_add_def)
  moreover have "t + of_nat (length (be_bytes e)) \<le> maximum_total_bytes limits"
    using t ub unat_lt_bounds(4) [of "maximum_total_bytes limits"] by (simp add: word_le_nat_alt unat_word_ariths)
  moreover have "of_nat (length (be_bytes e)) \<le> maximum_entry_bytes limits"
    using e ub by (simp add: entry_within_def word_le_nat_alt)
  ultimately show ?thesis
    unfolding decode_entry_Inr_iff Let_def s1 f up ub s2 s3
    using len e le by (simp add: entry_within_def bundle_entry_ok_def not_after_iff)
qed


lemma decode_entries_sound:
  assumes "hash_ok hash" and "decode_entries hash limits bytes n c t previous = Inr (es, c')"
    and "c \<le> length bytes"
  shows "length es = n \<and> drop c bytes = concat (map (entry_bytes hash) es) @ drop c' bytes
    \<and> c' \<le> length bytes \<and> (\<forall>e \<in> set es. entry_within limits previous e)
    \<and> strictly_sorted (map be_path es)
    \<and> (n > 0 \<longrightarrow> unat t + payload_total es \<le> unat (maximum_total_bytes limits))"
  using assms(2,3)
proof (induction n arbitrary: c t previous es)
  case (Suc n)
  then obtain e c1 t1 fs where d: "decode_entry hash limits bytes c t previous = Inr (e, c1, t1)"
    and r: "decode_entries hash limits bytes n c1 t1 (Some (be_path e)) = Inr (fs, c')" and es: "es = e # fs"
    by (auto simp: and_then_Inr_iff)
  note s = decode_entry_sound [OF assms(1) d]
  note ih = Suc.IH [OF r s(3)]
  have "entry_within limits previous f" if "f \<in> set fs" for f
    using ih that s(4) by (fastforce simp: entry_within_def)
  moreover have "\<forall>f \<in> set fs. be_path e < be_path f" using ih by (simp add: entry_within_def)
  moreover have "unat t + payload_total es \<le> unat (maximum_total_bytes limits)"
    using ih s(5,6) es by (cases n) (auto simp: word_le_nat_alt)
  ultimately show ?case using ih s es by simp
qed simp

lemma decode_entries_complete:
  assumes "hash_ok hash" and "drop c bytes = concat (map (entry_bytes hash) es) @ rest"
    and "\<forall>e \<in> set es. entry_within limits previous e" and "strictly_sorted (map be_path es)"
    and "unat t + payload_total es \<le> unat (maximum_total_bytes limits)"
  shows "decode_entries hash limits bytes (length es) c t previous =
    Inr (es, c + length (concat (map (entry_bytes hash) es)))"
  using assms(2-)
proof (induction es arbitrary: c t previous)
  case (Cons e es)
  let ?t = "t + of_nat (length (be_bytes e))"
  have "entry_within limits previous e" using Cons.prems(2) by simp
  then have d: "decode_entry hash limits bytes c t previous = Inr (e, c + length (entry_bytes hash e), ?t)"
    using Cons.prems(1,4) by (intro decode_entry_complete [OF assms(1)]) auto
  have dr: "drop (c + length (entry_bytes hash e)) bytes = concat (map (entry_bytes hash) es) @ rest"
    using take_drop_prefix [of c bytes "entry_bytes hash e" "concat (map (entry_bytes hash) es) @ rest"]
      Cons.prems(1) by simp
  have "unat ?t = unat t + length (be_bytes e)"
    using Cons.prems(4) unat_lt_bounds(4) [of "maximum_total_bytes limits"]
    by (simp add: unat_word_ariths unat_of_nat)
  moreover have "\<forall>f \<in> set es. entry_within limits (Some (be_path e)) f"
    using Cons.prems(2,3) by (auto simp: entry_within_def)
  ultimately show ?case
    using Cons.IH [OF dr, of "Some (be_path e)" ?t] Cons.prems(3,4) d by (simp add: add.assoc)
qed simp

lemma take_drop_bundle_header:
  "take 4 (bundle_bytes hash es) = BUNDLE_MAGIC"
  "take 2 (drop 4 (bundle_bytes hash es)) = u16_to_le_bytes BUNDLE_VERSION"
  "take 2 (drop 6 (bundle_bytes hash es)) = u16_to_le_bytes 0"
  "take 4 (drop 8 (bundle_bytes hash es)) = u32_to_le_bytes (of_nat (length es))"
  "drop 12 (bundle_bytes hash es) = concat (map (entry_bytes hash) es)"
  "12 \<le> length (bundle_bytes hash es)"
  by (simp_all add: bundle_bytes_def BUNDLE_MAGIC_def)

lemma decode_bundle_bytes:
  assumes "hash_ok hash" and "\<forall>e \<in> set es. entry_within limits None e"
    and "strictly_sorted (map be_path es)" and "length es \<le> unat (maximum_entries limits)"
    and "payload_total es \<le> unat (maximum_total_bytes limits)"
  shows "decode_bundle hash (bundle_bytes hash es) limits = Inr es"
proof -
  have n: "unat (of_nat (length es) :: u32) = length es"
    using assms(4) unat_lt_bounds(3) [of "maximum_entries limits"] by (simp add: unat_of_nat)
  have "decode_entries hash limits (bundle_bytes hash es) (length es) 12 0 None =
      Inr (es, 12 + length (concat (map (entry_bytes hash) es)))"
    using assms by (intro decode_entries_complete [where rest = "[]"]) (simp_all add: take_drop_bundle_header)
  moreover have "12 + length (concat (map (entry_bytes hash) es)) = length (bundle_bytes hash es)"
    by (simp add: bundle_bytes_def BUNDLE_MAGIC_def)
  ultimately show ?thesis
    using take_drop_bundle_header(6) [of hash es] n assms(4)
    by (simp add: decode_bundle_def HEADER_BYTES_def take_drop_bundle_header Let_def word_less_nat_alt not_less)
qed

lemma decode_bundle_sound:
  assumes h: "hash_ok hash" and d: "decode_bundle hash bs limits = Inr es"
  shows "bs = bundle_bytes hash es \<and> (\<forall>e \<in> set es. entry_within limits None e)
    \<and> strictly_sorted (map be_path es) \<and> length es \<le> unat (maximum_entries limits)
    \<and> payload_total es \<le> unat (maximum_total_bytes limits)"
proof -
  let ?n = "u32_from_le_bytes (take 4 (drop 8 bs))"
  have l: "12 \<le> length bs" and m: "take 4 bs = BUNDLE_MAGIC"
    and v: "u16_from_le_bytes (take 2 (drop 4 bs)) = BUNDLE_VERSION"
    and fl: "u16_from_le_bytes (take 2 (drop 6 bs)) = 0" and n: "\<not> ?n > maximum_entries limits"
    and r: "decode_entries hash limits bs (unat ?n) 12 0 None = Inr (es, length bs)"
    using d by (auto simp: decode_bundle_def HEADER_BYTES_def Let_def and_then_Inr_iff split: if_splits)
  note s = decode_entries_sound [OF h r l]
  have "bs = take 4 bs @ take 2 (drop 4 bs) @ take 2 (drop 6 bs) @ take 4 (drop 8 bs) @ drop 12 bs"
    using drop_take_drop [of 0 bs 4] drop_take_drop [of 4 bs 2] drop_take_drop [of 6 bs 2]
      drop_take_drop [of 8 bs 4] by simp
  also have "take 2 (drop 4 bs) = u16_to_le_bytes BUNDLE_VERSION" using v l by (simp add: le16.dec_eq_iff)
  also have "take 2 (drop 6 bs) = u16_to_le_bytes 0" using fl l by (simp add: le16.dec_eq_iff)
  also have "take 4 (drop 8 bs) = u32_to_le_bytes (of_nat (length es))"
    using l s by (simp add: le32.dec_eq_iff [symmetric])
  also have "drop 12 bs = concat (map (entry_bytes hash) es)" using s by simp
  finally have "bs = bundle_bytes hash es" using m by (simp add: bundle_bytes_def)
  moreover have "payload_total es \<le> unat (maximum_total_bytes limits)"
    using s by (cases es) auto
  ultimately show ?thesis using s n by (simp add: word_less_nat_alt not_less)
qed

lemma decode_encode_bundle:
  assumes "hash_ok hash" and "encode_bundle hash es = Inr bs"
    and "\<forall>e \<in> set es. is_str (be_path e) \<and> length (be_bytes e) \<le> unat (maximum_entry_bytes limits)"
    and "length es \<le> unat (maximum_entries limits)"
    and "payload_total es \<le> unat (maximum_total_bytes limits)"
  shows "decode_bundle hash bs limits = Inr (sort_key be_path es)"
  using assms decode_bundle_bytes [OF assms(1), of "sort_key be_path es" limits]
  by (auto simp: encode_bundle_Inr_iff entry_within_def strictly_sorted_sort_key)

lemma encode_decode_bundle:
  assumes "hash_ok hash" and "decode_bundle hash bs limits = Inr es"
  shows "encode_bundle hash es = Inr bs"
proof -
  note s = decode_bundle_sound [OF assms]
  have "length es < 2 ^ 32" using s unat_lt_bounds(3) [of "maximum_entries limits"] by simp
  moreover have "sort_key be_path es = es"
    using s by (simp add: sort_key_id_if_sorted strictly_sorted_iff)
  ultimately show ?thesis
    using s by (auto simp: encode_bundle_Inr_iff entry_within_def strictly_sorted_iff)
qed

subsection \<open>Copying a prehashed payload\<close>

lemma copy_payload_all:
  "length source = n \<Longrightarrow> copy_payload path n out hashed (source @ rest) = Inr (out @ source, hashed @ source, rest)"
proof (induction n arbitrary: out hashed source rule: less_induct)
  case (less n)
  show ?case
  proof (cases "n = 0")
    case True
    then show ?thesis using less.prems by (simp add: copy_payload.simps)
  next
    case False
    let ?k = "min n 65536"
    have k: "take ?k (source @ rest) = take ?k source" "drop ?k (source @ rest) = drop ?k source @ rest"
      "take ?k source \<noteq> []" "length (take ?k source) = ?k"
      using less.prems False by auto
    have "copy_payload path n out hashed (source @ rest) =
        copy_payload path (n - ?k) (out @ take ?k source) (hashed @ take ?k source) (drop ?k source @ rest)"
      using False k by (subst copy_payload.simps) (simp only: Let_def if_False)
    also have "\<dots> = Inr ((out @ take ?k source) @ drop ?k source, (hashed @ take ?k source) @ drop ?k source, rest)"
      using less.prems False by (intro less.IH) auto
    finally show ?thesis by simp
  qed
qed

lemma write_prehashed_entry_eq:
  assumes "length bytes < 2 ^ 64"
  shows "write_prehashed_entry hash w path (of_nat (length bytes)) (hash bytes) bytes = write_entry hash w path bytes"
proof -
  have "unat (of_nat (length bytes) :: u64) = length bytes" using assms by (simp add: unat_of_nat)
  moreover have "word_of_len (length bytes) = Some (of_nat (length bytes) :: u64)"
    using assms by (simp add: word_of_len_def)
  ultimately show ?thesis
    using copy_payload_all [of bytes "length bytes" path _ "[]" "[]"]
    by (simp add: write_prehashed_entry_def write_entry_def)
qed

subsection \<open>Properties\<close>

text \<open>C5: an encoded bundle decodes to its entries in path order whenever they are within the
  decoder's limits.\<close>
theorem bundle_decode_encode:
  assumes "hash_ok hash" and "encode_bundle hash es = Inr bs"
    and "\<forall>e \<in> set es. is_str (be_path e) \<and> length (be_bytes e) \<le> unat (maximum_entry_bytes limits)"
    and "length es \<le> unat (maximum_entries limits)"
    and "payload_total es \<le> unat (maximum_total_bytes limits)"
  shows "decode_bundle hash bs limits = Inr (sort_key be_path es)"
  using assms by (rule decode_encode_bundle)

theorem bundle_decode_encode_witness:
  "\<exists>bs. encode_bundle (\<lambda>_. replicate 32 0) [\<lparr>be_path = ''b'', be_bytes = [1]\<rparr>, \<lparr>be_path = ''a'', be_bytes = []\<rparr>] = Inr bs
     \<and> decode_bundle (\<lambda>_. replicate 32 0) bs default_bundle_limits
       = Inr [\<lparr>be_path = ''a'', be_bytes = []\<rparr>, \<lparr>be_path = ''b'', be_bytes = [1]\<rparr>]"
proof -
  let ?h = "\<lambda>_ :: u8 list. replicate 32 0 :: u8 list"
  let ?es = "[\<lparr>be_path = ''b'', be_bytes = [1]\<rparr>, \<lparr>be_path = ''a'', be_bytes = []\<rparr>]"
  obtain bs where bs: "encode_bundle ?h ?es = Inr bs"
    by (simp add: encode_bundle_Inr_iff bundle_entry_ok_def path_ok_def component_ok_def special_chars
        MAX_SNAPSHOT_PATH_BYTES_def)
  have "decode_bundle ?h bs default_bundle_limits = Inr (sort_key be_path ?es)"
    by (rule bundle_decode_encode [OF _ bs])
      (simp_all add: hash_ok_def is_str_def as_bytes_def byte_of_char_def default_bundle_limits_def payload_total_def)
  then show ?thesis using bs by (intro exI [of _ bs]) simp
qed

text \<open>C4: whatever untrusted bytes the decoder accepts are exactly the canonical encoding of what it
  returns, every path stays inside the destination, and the entry, count and total limits hold.\<close>
theorem bundle_decode_sound:
  assumes "hash_ok hash" and "decode_bundle hash bs limits = Inr es"
  shows "encode_bundle hash es = Inr bs
    \<and> (\<forall>e \<in> set es. lexical_walk [] (split_on CHR ''/'' (be_path e)) = Some (split_on CHR ''/'' (be_path e))
         \<and> length (be_bytes e) \<le> unat (maximum_entry_bytes limits))
    \<and> length es \<le> unat (maximum_entries limits)
    \<and> payload_total es \<le> unat (maximum_total_bytes limits)"
  using encode_decode_bundle [OF assms] decode_bundle_sound [OF assms] path_walk [of _ "[]"]
  by (auto simp: entry_within_def bundle_entry_ok_def)

theorem bundle_decode_sound_witness:
  "encode_bundle (\<lambda>_. replicate 32 0) [] =
     Inr (BUNDLE_MAGIC @ u16_to_le_bytes 1 @ u16_to_le_bytes 0 @ u32_to_le_bytes 0)"
proof -
  let ?h = "\<lambda>_ :: u8 list. replicate 32 0 :: u8 list"
  let ?bs = "BUNDLE_MAGIC @ u16_to_le_bytes 1 @ u16_to_le_bytes 0 @ u32_to_le_bytes 0"
  have "decode_bundle ?h ?bs default_bundle_limits = Inr []"
    using decode_encode_bundle [of ?h "[]" ?bs default_bundle_limits]
    by (simp add: hash_ok_def encode_bundle_Inr_iff bundle_bytes_def BUNDLE_VERSION_def payload_total_def)
  from bundle_decode_sound [OF _ this] show ?thesis by (simp add: hash_ok_def)
qed

text \<open>streaming a payload whose length and digest were computed beforehand writes exactly what
  writing the bytes at once does, whatever the state of the writer.\<close>
theorem streamed_entry_equals_buffered:
  assumes "length bytes < 2 ^ 64"
  shows "write_prehashed_entry hash w path (of_nat (length bytes)) (hash bytes) bytes = write_entry hash w path bytes"
  using assms by (rule write_prehashed_entry_eq)

theorem streamed_entry_equals_buffered_witness:
  "write_prehashed_entry (\<lambda>_. replicate 32 0) (writer_new 1) ''a'' 2 (replicate 32 0) [1, 2]
   = write_entry (\<lambda>_. replicate 32 0) (writer_new 1) ''a'' [1, 2]"
  using streamed_entry_equals_buffered [of "[1, 2]" "\<lambda>_. replicate 32 0" "writer_new 1" "''a''"] by simp

end
