(* ===== verification/Objects.thy ===== *)
theory Objects
  imports Ids Codec
begin

section \<open>Immutable objects\<close>

text \<open>
  \<open>rewind-store/src/object.rs\<close>: the object envelope and the content-addressed store.  The
  directory below the store root is the state: a map from relative file names to contents.
  Operating-system failures are outside the model, a missing or short file is the \<open>StoreIo\<close>
  error the source maps it to.  BLAKE3 is an argument.  \<open>StoreError\<close> of
  \<open>rewind-store/src/lib.rs\<close> is declared here because every store component uses it; its
  free-text messages are not modelled, its structured fields are.
\<close>

datatype store_error =
    StoreIo string
  | ObjectMaintenance
  | StoreDatabase string
  | StoreMigration u32
  | NewerSchema int u32
  | SchemaMismatch int int
  | StoreLocked
  | MalformedLock
  | StoreClock
  | ObjectDigestMismatch object_id object_id
  | ObjectCollision object_id
  | ObjectReferenced object_id
  | MalformedObjectEnvelope string
  | UnsupportedObjectEnvelopeVersion u8
  | UnsupportedObjectCompression u8
  | ObjectTooLarge
  | ObjectReadLimit u64 u64
  | StoreReadOnly string
  | StoreNotFound string string
  | InvalidIdentifier string string
  | InvalidEnum string string
  | StoreSerialization string
  | StoreDeserialization string
  | EventOrder
  | InvalidEvent string
  | InvalidPageLimit u32 u32
  | InvalidRun string
  | InvalidSnapshot string
  | InvalidCheckpoint string
  | ParentCycle string string
  | StoreNumericRange string
  | StoreInvariant

subsection \<open>Envelopes\<close>

definition OBJECT_MAGIC :: "u8 list" where "OBJECT_MAGIC = as_bytes ''RWOB''"
definition OBJECT_VERSION :: u8 where "OBJECT_VERSION = 1"
definition HEADER_LEN :: nat where "HEADER_LEN = 16"
definition COMPRESSION_NONE :: u8 where "COMPRESSION_NONE = 0"

definition decode_header :: "u8 list \<Rightarrow> (store_error, u64) result" where
  "decode_header header =
     (if length header \<noteq> HEADER_LEN \<or> take 4 header \<noteq> OBJECT_MAGIC
      then Inl (MalformedObjectEnvelope ''invalid magic or truncated header'')
      else if header ! 4 \<noteq> OBJECT_VERSION then Inl (UnsupportedObjectEnvelopeVersion (header ! 4))
      else if header ! 5 \<noteq> COMPRESSION_NONE then Inl (UnsupportedObjectCompression (header ! 5))
      else if take 2 (drop 6 header) \<noteq> [0, 0]
      then Inl (MalformedObjectEnvelope ''reserved header bytes are nonzero'')
      else Inr (u64_from_le_bytes (take 8 (drop 8 header))))"

definition envelope_header :: "u64 \<Rightarrow> u8 list" where
  "envelope_header logical_len =
     OBJECT_MAGIC @ [OBJECT_VERSION] @ [COMPRESSION_NONE] @ [0, 0] @ u64_to_le_bytes logical_len"

definition object_encode :: "u8 list \<Rightarrow> (store_error, u8 list) result" where
  "object_encode bytes =
     and_then (ok_or ObjectTooLarge (word_of_len (length bytes))) (\<lambda>logical_len.
     and_then (ok_or ObjectTooLarge (word_of_len (HEADER_LEN + length bytes) :: u64 option)) (\<lambda>_.
       Inr (envelope_header logical_len @ bytes)))"

definition object_decode :: "u8 list \<Rightarrow> (store_error, u8 list) result" where
  "object_decode envelope =
     (if length envelope < HEADER_LEN \<or> take 4 envelope \<noteq> OBJECT_MAGIC
      then Inl (MalformedObjectEnvelope ''invalid magic or truncated header'')
      else and_then (decode_header (take HEADER_LEN envelope)) (\<lambda>logical_len.
        let payload = drop HEADER_LEN envelope in
        if length payload \<noteq> unat logical_len
        then Inl (MalformedObjectEnvelope ''logical length does not match payload'')
        else Inr payload))"

lemma length_envelope_header [simp]: "length (envelope_header n) = 16"
  by (simp add: envelope_header_def OBJECT_MAGIC_def)

lemma decode_header_encode [simp]: "decode_header (envelope_header n) = Inr n"
  by (simp add: decode_header_def envelope_header_def OBJECT_MAGIC_def HEADER_LEN_def as_bytes_def
      nth_append)

lemma nth_take_drop_split: "i < length xs \<Longrightarrow> drop i xs = xs ! i # drop (Suc i) xs"
  by (rule Cons_nth_drop_Suc [symmetric])

lemma decode_header_Inr:
  assumes "decode_header h = Inr n"
  shows "h = envelope_header n"
proof -
  from assms have l: "length h = 16" and m: "take 4 h = OBJECT_MAGIC" and v: "h ! 4 = OBJECT_VERSION"
    and c: "h ! 5 = COMPRESSION_NONE" and r: "take 2 (drop 6 h) = [0, 0]"
    and n: "n = u64_from_le_bytes (take 8 (drop 8 h))"
    by (auto simp: decode_header_def HEADER_LEN_def split: if_splits)
  have "u64_to_le_bytes n = drop 8 h" using l n by (simp add: le64.enc_dec)
  moreover have "h = take 4 h @ h ! 4 # h ! 5 # take 2 (drop 6 h) @ drop 8 h"
  proof -
    have "h = take 4 h @ drop 4 h" by simp
    also have "drop 4 h = h ! 4 # h ! 5 # drop 6 h"
      using l by (simp add: nth_take_drop_split [of 4 h] nth_take_drop_split [of 5 h])
    also have "drop 6 h = take 2 (drop 6 h) @ drop 8 h"
      using append_take_drop_id [of 2 "drop 6 h"] by simp
    finally show ?thesis .
  qed
  ultimately show ?thesis using m v c r by (simp add: envelope_header_def)
qed

lemma decode_header_Inr_iff: "decode_header h = Inr n \<longleftrightarrow> h = envelope_header n"
  using decode_header_Inr by auto

lemma object_encode_Inr_iff:
  "object_encode bs = Inr e \<longleftrightarrow> HEADER_LEN + length bs < 2 ^ 64 \<and> e = envelope_header (of_nat (length bs)) @ bs"
  by (auto simp: object_encode_def and_then_Inr_iff word_of_len_def HEADER_LEN_def split: if_splits)

lemma object_decode_encode:
  assumes "object_encode bs = Inr e"
  shows "object_decode e = Inr bs"
proof -
  have e: "e = envelope_header (of_nat (length bs)) @ bs" and "length bs < 2 ^ 64"
    using assms by (auto simp: object_encode_Inr_iff)
  then have "unat (of_nat (length bs) :: u64) = length bs" by (simp add: unat_of_nat)
  moreover have "take 4 (envelope_header n) = OBJECT_MAGIC" for n
    by (simp add: envelope_header_def OBJECT_MAGIC_def)
  ultimately show ?thesis using e by (simp add: object_decode_def HEADER_LEN_def)
qed

lemma object_encode_decode:
  assumes "object_decode e = Inr bs" and "length e < 2 ^ 64"
  shows "object_encode bs = Inr e"
proof -
  obtain n where h: "take HEADER_LEN e = envelope_header n" and b: "bs = drop HEADER_LEN e"
    and n: "length bs = unat n" and l: "HEADER_LEN \<le> length e"
    using assms(1) by (auto simp: object_decode_def and_then_Inr_iff decode_header_Inr_iff Let_def not_less
        split: if_splits)
  have "e = envelope_header n @ bs" using h b append_take_drop_id by metis
  moreover have "HEADER_LEN + length bs < 2 ^ 64" using b l assms(2) by simp
  moreover have "of_nat (length bs) = n" using n by simp
  ultimately show ?thesis by (simp add: object_encode_Inr_iff)
qed

subsection \<open>The bounded reader\<close>

record object_reader =
  rd_file :: "u8 list"
  rd_id :: object_id
  rd_logical_size :: u64
  rd_remaining :: u64
  rd_hashed :: "u8 list"
  rd_verified :: bool

definition reader_read ::
    "(u8 list \<Rightarrow> u8 list) \<Rightarrow> nat \<Rightarrow> object_reader \<Rightarrow> (string, u8 list \<times> object_reader) result" where
  \<comment> \<open>\<open>rd_file\<close> is the unread rest of the file, \<open>rd_hashed\<close> what the hasher has consumed; the
     second argument is the length of the caller's buffer\<close>
  "reader_read hash n rd =
     (if n = 0 then Inr ([], rd)
      else if rd_remaining rd = 0 then
        (if rd_verified rd then Inr ([], rd)
         else if rd_file rd \<noteq> [] then Inl ''object grew while it was read''
         else if ObjectId (hash (rd_hashed rd)) \<noteq> rd_id rd then Inl ''object digest mismatch''
         else Inr ([], rd\<lparr>rd_verified := True\<rparr>))
      else
        (let wanted = min (unat (rd_remaining rd)) n;
             chunk = take wanted (rd_file rd)
         in if chunk = [] then Inl ''object ended before its declared length''
            else Inr (chunk, rd\<lparr>rd_file := drop wanted (rd_file rd),
                                rd_hashed := rd_hashed rd @ chunk,
                                rd_remaining := saturating_sub (rd_remaining rd) (of_nat (length chunk))\<rparr>)))"

function read_exact ::
    "(u8 list \<Rightarrow> u8 list) \<Rightarrow> nat \<Rightarrow> object_reader \<Rightarrow> (string, u8 list \<times> object_reader) result" where
  \<comment> \<open>\<open>Read::read_exact\<close> of the standard library\<close>
  "read_exact hash n rd =
     (if n = 0 then Inr ([], rd)
      else and_then (reader_read hash n rd) (\<lambda>(chunk, rd').
        if chunk = [] then Inl ''failed to fill whole buffer''
        else and_then (read_exact hash (n - length chunk) rd') (\<lambda>(rest, rd'').
          Inr (chunk @ rest, rd''))))"
  by pat_completeness auto
termination
  by (relation "measure (\<lambda>(_, n, _). n)") auto

declare read_exact.simps [simp del]

subsection \<open>The object directory\<close>

type_synonym object_files = "string \<rightharpoonup> u8 list"

record stored_object =
  so_id :: object_id
  so_logical_size :: u64
  so_stored_size :: u64

definition path_for :: "object_id \<Rightarrow> string" where
  "path_for i = (let digest = object_id_text i in take 2 digest @ CHR ''/'' # drop 2 digest)"

definition envelope_logical_size :: "u8 list \<Rightarrow> u64 \<Rightarrow> (store_error, u64) result" where
  \<comment> \<open>the header and length checks that \<open>open_reader\<close> and \<open>verify\<close> both begin with\<close>
  "envelope_logical_size content maximum =
     (if length content < HEADER_LEN then Inl (StoreIo ''read object envelope header'')
      else and_then (decode_header (take HEADER_LEN content)) (\<lambda>logical_size.
        and_then (ok_or ObjectTooLarge (checked_add logical_size 16)) (\<lambda>expected_stored_size.
          if length content \<noteq> unat expected_stored_size
          then Inl (MalformedObjectEnvelope ''logical length does not match stored size'')
          else if logical_size > maximum then Inl (ObjectReadLimit logical_size maximum)
          else Inr logical_size)))"

definition open_reader ::
    "object_files \<Rightarrow> object_id \<Rightarrow> u64 \<Rightarrow> (store_error, object_reader) result" where
  "open_reader files i maximum =
     (case files (path_for i) of
        None \<Rightarrow> Inl (StoreIo ''open object'')
      | Some content \<Rightarrow>
          and_then (envelope_logical_size content maximum) (\<lambda>logical_size.
            Inr \<lparr>rd_file = drop HEADER_LEN content, rd_id = i, rd_logical_size = logical_size,
                 rd_remaining = logical_size, rd_hashed = [], rd_verified = False\<rparr>))"

definition object_get ::
    "(u8 list \<Rightarrow> u8 list) \<Rightarrow> object_files \<Rightarrow> object_id \<Rightarrow> u64 \<Rightarrow> (store_error, u8 list) result" where
  "object_get hash files i maximum =
     and_then (open_reader files i maximum) (\<lambda>rd.
     and_then (map_err (\<lambda>_. StoreIo ''read object payload'')
         (read_exact hash (unat (rd_logical_size rd)) rd)) (\<lambda>(bytes, rd').
     and_then (map_err (\<lambda>_. StoreIo ''verify object payload'') (reader_read hash 1 rd')) (\<lambda>(extra, _).
       if extra \<noteq> [] then Inl StoreInvariant else Inr bytes)))"

function verify_payload :: "nat \<Rightarrow> u8 list \<Rightarrow> u8 list \<Rightarrow> (store_error, u8 list) result" where
  \<comment> \<open>the chunked loop of \<open>verify\<close>; the last argument is what the hasher has consumed\<close>
  "verify_payload remaining content hashed =
     (if remaining = 0 then Inr hashed
      else let read_len = min remaining 65536 in
        if length content < read_len then Inl (StoreIo ''read object payload for verification'')
        else verify_payload (remaining - read_len) (drop read_len content) (hashed @ take read_len content))"
  by pat_completeness auto
termination
  by (relation "measure (\<lambda>(n, _, _). n)") auto

declare verify_payload.simps [simp del]

definition object_verify ::
    "(u8 list \<Rightarrow> u8 list) \<Rightarrow> object_files \<Rightarrow> object_id \<Rightarrow> u64 \<Rightarrow> (store_error, stored_object) result" where
  "object_verify hash files i maximum =
     (case files (path_for i) of
        None \<Rightarrow> Inl (StoreIo ''open object for verification'')
      | Some content \<Rightarrow>
          and_then (envelope_logical_size content maximum) (\<lambda>logical_size.
          and_then (verify_payload (unat logical_size) (drop HEADER_LEN content) []) (\<lambda>hashed.
            if ObjectId (hash hashed) \<noteq> i then Inl (ObjectDigestMismatch i (ObjectId (hash hashed)))
            else Inr \<lparr>so_id = i, so_logical_size = logical_size,
                      so_stored_size = of_nat (length content)\<rparr>)))"

definition verify_existing ::
    "(u8 list \<Rightarrow> u8 list) \<Rightarrow> object_files \<Rightarrow> object_id \<Rightarrow> u8 list \<Rightarrow> (store_error, stored_object) result" where
  "verify_existing hash files i expected_bytes =
     and_then (ok_or ObjectTooLarge (word_of_len (length expected_bytes))) (\<lambda>maximum.
     and_then (object_get hash files i maximum) (\<lambda>bytes.
       if bytes \<noteq> expected_bytes then Inl (ObjectCollision i)
       else case files (path_for i) of
         None \<Rightarrow> Inl (StoreIo ''read existing object metadata'')
       | Some content \<Rightarrow>
           and_then (ok_or ObjectTooLarge (word_of_len (length bytes))) (\<lambda>logical_size.
             Inr \<lparr>so_id = i, so_logical_size = logical_size, so_stored_size = of_nat (length content)\<rparr>)))"

definition put_verified ::
    "(u8 list \<Rightarrow> u8 list) \<Rightarrow> object_files \<Rightarrow> object_id \<Rightarrow> u8 list
     \<Rightarrow> (store_error, object_files \<times> stored_object) result" where
  "put_verified hash files expected bytes =
     (let actual = object_id_digest hash bytes in
      if actual \<noteq> expected then Inl (ObjectDigestMismatch expected actual)
      else if files (path_for expected) \<noteq> None
        then map_ok (\<lambda>stored. (files, stored)) (verify_existing hash files expected bytes)
      else and_then (object_encode bytes) (\<lambda>envelope.
        and_then (ok_or ObjectTooLarge (word_of_len (length bytes))) (\<lambda>logical_size.
        and_then (ok_or ObjectTooLarge (word_of_len (length envelope))) (\<lambda>stored_size.
          Inr (files(path_for expected \<mapsto> envelope),
               \<lparr>so_id = expected, so_logical_size = logical_size, so_stored_size = stored_size\<rparr>)))))"

definition object_put ::
    "(u8 list \<Rightarrow> u8 list) \<Rightarrow> object_files \<Rightarrow> u8 list \<Rightarrow> (store_error, object_files \<times> stored_object) result" where
  "object_put hash files bytes = put_verified hash files (object_id_digest hash bytes) bytes"

subsection \<open>Reading back\<close>

lemma hex_digit_not_slash: "unat n < 16 \<Longrightarrow> hex_digit n \<noteq> CHR ''/''"
proof
  assume n: "unat n < 16" and s: "hex_digit n = CHR ''/''"
  have "hex_nibble (byte_of_char CHR ''/'') = Some n" using hex_digit_nibble [OF n] s by simp
  then show False by (simp add: hex_nibble_eq byte_of_char_def)
qed

lemma digest_text_inject [simp]: "digest_text a = digest_text b \<longleftrightarrow> a = b"
  using parse_digest_pairs_text by (metis sum.inject(2))

lemma object_id_text_inject [simp]: "object_id_text a = object_id_text b \<longleftrightarrow> a = b"
  by (auto simp: object_id_text_def intro: object_id.expand)

lemma path_for_inject [simp]: "path_for a = path_for b \<longleftrightarrow> a = b"
proof
  assume p: "path_for a = path_for b"
  have no: "CHR ''/'' \<notin> set (object_id_text i)" for i
    using byte_nibbles_lt hex_digit_not_slash
    by (fastforce simp: object_id_text_def digest_text_def hex_byte_def)
  have "filter (\<lambda>c. c \<noteq> CHR ''/'') (path_for i) = object_id_text i" for i
  proof -
    have "filter (\<lambda>c. c \<noteq> CHR ''/'') (path_for i) =
        filter (\<lambda>c. c \<noteq> CHR ''/'') (take 2 (object_id_text i) @ drop 2 (object_id_text i))"
      unfolding path_for_def Let_def filter_append by simp
    also have "\<dots> = object_id_text i" using no [of i] by (auto simp: filter_id_conv)
    finally show ?thesis .
  qed
  then have "object_id_text a = object_id_text b" using p by metis
  then show "a = b" by simp
qed simp

definition holds_object :: "(u8 list \<Rightarrow> u8 list) \<Rightarrow> object_files \<Rightarrow> object_id \<Rightarrow> u8 list \<Rightarrow> bool" where
  \<comment> \<open>the directory has an intact envelope of \<open>bs\<close> under the name of \<open>i\<close>\<close>
  "holds_object hash files i bs \<longleftrightarrow>
     files (path_for i) = Some (envelope_header (of_nat (length bs)) @ bs)
     \<and> HEADER_LEN + length bs < 2 ^ 64 \<and> ObjectId (hash bs) = i"

lemma envelope_split:
  assumes "HEADER_LEN \<le> length content" and "decode_header (take HEADER_LEN content) = Inr n"
  shows "content = envelope_header n @ drop HEADER_LEN content"
  using decode_header_Inr [OF assms(2)] by (metis append_take_drop_id)

lemma envelope_logical_size_Inr_iff:
  "envelope_logical_size content maximum = Inr n \<longleftrightarrow>
     (\<exists>payload. content = envelope_header n @ payload \<and> length payload = unat n
        \<and> HEADER_LEN + unat n < 2 ^ 64 \<and> n \<le> maximum)" (is "?l \<longleftrightarrow> ?r")
proof
  assume a: ?l
  then have l: "HEADER_LEN \<le> length content"
    unfolding envelope_logical_size_def by (rule contrapos_pp) simp
  from a l obtain k where k: "decode_header (take HEADER_LEN content) = Inr k"
    by (cases "decode_header (take HEADER_LEN content)") (simp_all add: envelope_logical_size_def)
  from a l k obtain s where c: "checked_add k 16 = Some s"
    by (cases "checked_add k 16") (simp_all add: envelope_logical_size_def)
  from a l k c have len: "length content = unat s" and m: "k \<le> maximum" and "k = n"
    by (simp_all add: envelope_logical_size_def split: if_splits)
  then have d: "decode_header (take HEADER_LEN content) = Inr n" and m: "n \<le> maximum"
    and s: "unat s = unat n + 16" using k c by (simp_all add: checked_add_Some_iff)
  then show ?r
    using envelope_split [OF l d] unat_lt_bounds(4) [of s] len s m
    by (intro exI [of _ "drop HEADER_LEN content"]) (simp add: HEADER_LEN_def)
next
  assume ?r
  then obtain payload where p: "content = envelope_header n @ payload" "length payload = unat n"
    "HEADER_LEN + unat n < 2 ^ 64" "n \<le> maximum" by blast
  have "checked_add n 16 = Some (n + 16)" "unat (n + 16) = unat n + 16"
    using p(3) by (simp_all add: checked_add_def HEADER_LEN_def unat_word_ariths)
  then show ?l using p by (simp add: envelope_logical_size_def HEADER_LEN_def not_less)
qed

lemma open_reader_Inr_iff:
  "open_reader files i maximum = Inr rd \<longleftrightarrow>
     (\<exists>n payload. files (path_for i) = Some (envelope_header n @ payload) \<and> length payload = unat n
        \<and> HEADER_LEN + unat n < 2 ^ 64 \<and> n \<le> maximum
        \<and> rd = \<lparr>rd_file = payload, rd_id = i, rd_logical_size = n, rd_remaining = n,
                rd_hashed = [], rd_verified = False\<rparr>)"
  by (cases "files (path_for i)")
    (auto simp: open_reader_def and_then_Inr_iff envelope_logical_size_Inr_iff HEADER_LEN_def)

lemma read_exact_whole:
  assumes "length (rd_file rd) = unat (rd_remaining rd)" and "\<not> rd_verified rd" and "unat (rd_remaining rd) = n"
  shows "read_exact hash n rd =
    Inr (rd_file rd, rd\<lparr>rd_file := [], rd_remaining := 0, rd_hashed := rd_hashed rd @ rd_file rd\<rparr>)"
proof (cases "n = 0")
  case True
  then have "rd_remaining rd = 0" "rd_file rd = []" using assms by (simp_all add: unat_eq_0)
  then show ?thesis using True by (simp add: read_exact.simps)
next
  case False
  have rem: "word_of_nat n = rd_remaining rd" using assms(3) by auto
  have "rd_remaining rd \<noteq> 0" "rd_file rd \<noteq> []" using assms False by auto
  then have "reader_read hash n rd = Inr (rd_file rd,
      rd\<lparr>rd_file := [], rd_hashed := rd_hashed rd @ rd_file rd, rd_remaining := 0\<rparr>)"
    using assms False rem by (simp add: reader_read_def Let_def saturating_sub_def)
  then show ?thesis using False \<open>rd_file rd \<noteq> []\<close> assms by (simp add: read_exact.simps [of hash n] read_exact.simps [of hash 0])
qed

lemma object_get_Inr_iff:
  "object_get hash files i maximum = Inr bs \<longleftrightarrow>
     holds_object hash files i bs \<and> length bs \<le> unat maximum" (is "?l \<longleftrightarrow> ?r")
proof
  assume l: ?l
  then obtain rd where rd: "open_reader files i maximum = Inr rd"
    by (auto simp: object_get_def and_then_Inr_iff)
  then obtain n payload where p: "files (path_for i) = Some (envelope_header n @ payload)"
    "length payload = unat n" "HEADER_LEN + unat n < 2 ^ 64" "n \<le> maximum"
    "rd = \<lparr>rd_file = payload, rd_id = i, rd_logical_size = n, rd_remaining = n,
           rd_hashed = [], rd_verified = False\<rparr>" by (auto simp: open_reader_Inr_iff)
  then have "read_exact hash (unat n) rd = Inr (payload,
       rd\<lparr>rd_file := [], rd_remaining := 0, rd_hashed := payload\<rparr>)"
    using read_exact_whole [of rd "unat n" hash] by simp
  then have "bs = payload" "ObjectId (hash payload) = i"
    using l rd p(5) by (auto simp: object_get_def and_then_Inr_iff reader_read_def split: if_splits)
  then show ?r using p by (simp add: holds_object_def word_le_nat_alt)
next
  assume ?r
  then have h: "files (path_for i) = Some (envelope_header (of_nat (length bs)) @ bs)"
    "HEADER_LEN + length bs < 2 ^ 64" "ObjectId (hash bs) = i" "length bs \<le> unat maximum"
    by (auto simp: holds_object_def)
  define n :: u64 where "n = of_nat (length bs)"
  have n: "unat n = length bs" using h(2) by (simp add: n_def unat_of_nat HEADER_LEN_def)
  define rd where "rd = \<lparr>rd_file = bs, rd_id = i, rd_logical_size = n, rd_remaining = n,
           rd_hashed = [], rd_verified = False\<rparr>"
  have "open_reader files i maximum = Inr rd"
    unfolding open_reader_Inr_iff
    using h n by (intro exI [of _ n] exI [of _ bs]) (simp add: rd_def n_def word_le_nat_alt)
  moreover have "read_exact hash (unat n) rd = Inr (bs,
       rd\<lparr>rd_file := [], rd_remaining := 0, rd_hashed := bs\<rparr>)"
    using read_exact_whole [of rd "unat n" hash] n by (simp add: rd_def)
  ultimately show ?l using h(3) by (simp add: object_get_def rd_def reader_read_def)
qed

lemma verify_payload_all:
  "length content = remaining \<Longrightarrow> verify_payload remaining content hashed = Inr (hashed @ content)"
proof (induction remaining content hashed rule: verify_payload.induct)
  case (1 remaining content hashed)
  show ?case
  proof (cases "remaining = 0")
    case False
    let ?n = "min remaining 65536"
    have "verify_payload remaining content hashed =
        verify_payload (remaining - ?n) (drop ?n content) (hashed @ take ?n content)"
      using False 1(2) by (simp add: verify_payload.simps [of remaining] Let_def)
    also have "\<dots> = Inr ((hashed @ take ?n content) @ drop ?n content)"
      using 1 False by simp
    finally show ?thesis by simp
  qed (use 1 in \<open>simp add: verify_payload.simps\<close>)
qed

lemma object_verify_Inr_iff:
  "object_verify hash files i maximum = Inr so \<longleftrightarrow>
     (\<exists>bs. object_get hash files i maximum = Inr bs
        \<and> so = \<lparr>so_id = i, so_logical_size = of_nat (length bs), so_stored_size = of_nat (HEADER_LEN + length bs)\<rparr>)"
  (is "?l \<longleftrightarrow> ?r")
proof
  assume ?l
  then obtain n bs h where c: "files (path_for i) = Some (envelope_header n @ bs)" "length bs = unat n"
    "HEADER_LEN + unat n < 2 ^ 64" "n \<le> maximum" and h: "verify_payload (unat n) bs [] = Inr h" "ObjectId (hash h) = i"
    and so: "so = \<lparr>so_id = i, so_logical_size = n, so_stored_size = of_nat (HEADER_LEN + length bs)\<rparr>"
    by (auto simp: object_verify_def and_then_Inr_iff envelope_logical_size_Inr_iff HEADER_LEN_def
        split: option.splits if_splits)
  have "h = bs" using h(1) verify_payload_all [of bs "unat n" "[]"] c(2) by simp
  moreover have "of_nat (length bs) = n" using c(2) by simp
  ultimately have "object_get hash files i maximum = Inr bs"
    using c h by (simp add: object_get_Inr_iff holds_object_def word_le_nat_alt)
  then show ?r using so \<open>of_nat (length bs) = n\<close> by auto
next
  assume ?r
  then obtain bs where h: "holds_object hash files i bs" "length bs \<le> unat maximum"
    and so: "so = \<lparr>so_id = i, so_logical_size = of_nat (length bs), so_stored_size = of_nat (HEADER_LEN + length bs)\<rparr>"
    by (auto simp: object_get_Inr_iff)
  define n :: u64 where "n = of_nat (length bs)"
  have n: "unat n = length bs" using h by (simp add: n_def unat_of_nat HEADER_LEN_def holds_object_def)
  have "envelope_logical_size (envelope_header n @ bs) maximum = Inr n"
    using h n by (auto simp: envelope_logical_size_Inr_iff holds_object_def word_le_nat_alt)
  then show ?l
    using h n so verify_payload_all [of bs "length bs" "[]"]
    by (simp add: object_verify_def holds_object_def HEADER_LEN_def n_def)
qed

subsection \<open>Content-addressed storage\<close>

definition stored_metadata :: "object_id \<Rightarrow> u8 list \<Rightarrow> stored_object" where
  "stored_metadata i bs =
     \<lparr>so_id = i, so_logical_size = of_nat (length bs), so_stored_size = of_nat (HEADER_LEN + length bs)\<rparr>"

lemma holds_object_unique:
  assumes "holds_object hash files i a" and "holds_object hash files i b"
  shows "a = b"
proof -
  have "envelope_header (of_nat (length a)) @ a = envelope_header (of_nat (length b)) @ b"
    using assms by (auto simp: holds_object_def)
  then have "drop 16 (envelope_header (of_nat (length a)) @ a) = drop 16 (envelope_header (of_nat (length b)) @ b)"
    by (rule arg_cong)
  then show ?thesis by simp
qed

lemma holds_object_word: "holds_object hash files i bs \<Longrightarrow> word_of_len (length bs) = Some (of_nat (length bs) :: u64)"
  by (simp add: holds_object_def HEADER_LEN_def word_of_len_def)

lemma verify_existing_Inr_iff:
  "verify_existing hash files i bs = Inr so \<longleftrightarrow>
     holds_object hash files i bs \<and> so = stored_metadata i bs" (is "?l \<longleftrightarrow> ?r")
proof
  assume l: ?l
  then obtain m :: u64 where m: "word_of_len (length bs) = Some m"
    by (auto simp: verify_existing_def and_then_Inr_iff)
  from l m have g: "object_get hash files i m = Inr bs"
    by (cases "object_get hash files i m") (auto simp: verify_existing_def split: if_splits)
  then have h: "holds_object hash files i bs" by (simp add: object_get_Inr_iff)
  then show ?r
    using l g m h holds_object_word [OF h]
    by (auto simp: verify_existing_def holds_object_def stored_metadata_def HEADER_LEN_def)
next
  assume r: ?r
  then have h: "holds_object hash files i bs" by simp
  have "length bs < 2 ^ 64" using h by (simp add: holds_object_def HEADER_LEN_def)
  then have "object_get hash files i (of_nat (length bs)) = Inr bs"
    using h by (simp add: object_get_Inr_iff unat_of_nat)
  then show ?l
    using r holds_object_word [OF h]
    by (auto simp: verify_existing_def holds_object_def stored_metadata_def HEADER_LEN_def)
qed

lemma put_verified_Inr_iff:
  "put_verified hash files i bs = Inr (files', so) \<longleftrightarrow>
     holds_object hash files' i bs \<and> so = stored_metadata i bs
     \<and> (files' = files \<or> files (path_for i) = None
          \<and> files' = files(path_for i \<mapsto> envelope_header (of_nat (length bs)) @ bs))" (is "?l \<longleftrightarrow> ?r")
proof (cases "ObjectId (hash bs) = i \<and> HEADER_LEN + length bs < 2 ^ 64")
  case False
  then show ?thesis
    by (auto simp: put_verified_def object_id_digest_def Let_def holds_object_def and_then_Inr_iff
        object_encode_Inr_iff map_ok_Inr_iff verify_existing_Inr_iff split: if_splits)
next
  case ok: True
  then have len: "length bs < 18446744073709551600" by (simp add: HEADER_LEN_def)
  show ?thesis
  proof (cases "files (path_for i)")
    case None
    have "object_encode bs = Inr (envelope_header (of_nat (length bs)) @ bs)"
      using ok by (simp add: object_encode_Inr_iff)
    then have "put_verified hash files i bs =
        Inr (files(path_for i \<mapsto> envelope_header (of_nat (length bs)) @ bs), stored_metadata i bs)"
      using ok None len
      by (simp add: put_verified_def object_id_digest_def stored_metadata_def word_of_len_def HEADER_LEN_def)
    then show ?thesis using ok None by (auto simp: holds_object_def)
  next
    case (Some c)
    then have "put_verified hash files i bs = map_ok (\<lambda>st. (files, st)) (verify_existing hash files i bs)"
      using ok by (simp add: put_verified_def object_id_digest_def)
    then show ?thesis using Some by (auto simp: map_ok_Inr_iff verify_existing_Inr_iff)
  qed
qed

locale content_store =
  fixes ident :: "'b \<Rightarrow> 'i"
    and lookup :: "'s \<Rightarrow> 'i \<Rightarrow> 'b option"
    and insert_content :: "'s \<Rightarrow> 'b \<Rightarrow> 's option"
  assumes lookup_ident: "lookup s i = Some b \<Longrightarrow> ident b = i"
    and insert_lookup: "insert_content s b = Some t \<Longrightarrow> lookup t (ident b) = Some b"
    and insert_frame: "insert_content s b = Some t \<Longrightarrow> i \<noteq> ident b \<Longrightarrow> lookup t i = lookup s i"
    and insert_keeps: "insert_content s b = Some t \<Longrightarrow> lookup s (ident b) \<noteq> None \<Longrightarrow> t = s"
begin

lemma insert_monotone: "insert_content s b = Some t \<Longrightarrow> lookup s i = Some c \<Longrightarrow> lookup t i = Some c"
  by (cases "i = ident b") (auto simp: insert_frame dest: insert_keeps)

lemma insert_twice: "insert_content s b = Some t \<Longrightarrow> insert_content t b = Some u \<Longrightarrow> u = t"
  using insert_lookup insert_keeps by fastforce

fun insert_all :: "'s \<Rightarrow> 'b list \<Rightarrow> 's option" where
  "insert_all s [] = Some s"
| "insert_all s (b # bs) = Option.bind (insert_content s b) (\<lambda>t. insert_all t bs)"

lemma insert_all_monotone: "insert_all s bs = Some t \<Longrightarrow> lookup s i = Some c \<Longrightarrow> lookup t i = Some c"
  by (induction bs arbitrary: s) (auto simp: Option.bind_eq_Some_conv intro: insert_monotone)

lemma insert_all_lookup: "insert_all s bs = Some t \<Longrightarrow> b \<in> set bs \<Longrightarrow> lookup t (ident b) = Some b"
  by (induction bs arbitrary: s)
    (auto simp: Option.bind_eq_Some_conv intro: insert_all_monotone insert_lookup)

end

definition object_lookup :: "(u8 list \<Rightarrow> u8 list) \<Rightarrow> object_files \<Rightarrow> object_id \<Rightarrow> u8 list option" where
  "object_lookup hash files i = result_ok (object_get hash files i (- 1))"

definition object_insert :: "(u8 list \<Rightarrow> u8 list) \<Rightarrow> object_files \<Rightarrow> u8 list \<Rightarrow> object_files option" where
  "object_insert hash files bs = map_option fst (result_ok (object_put hash files bs))"

lemma result_ok_Some_iff: "result_ok r = Some x \<longleftrightarrow> r = Inr x"
  by (cases r) auto

lemma object_lookup_Some_iff: "object_lookup hash files i = Some bs \<longleftrightarrow> holds_object hash files i bs"
proof -
  have "holds_object hash files i bs \<Longrightarrow> length bs \<le> unat (- 1 :: u64)"
    by (simp add: holds_object_def HEADER_LEN_def unsigned_minus_1_eq_mask mask_eq_exp_minus_1)
  then show ?thesis by (auto simp: object_lookup_def result_ok_Some_iff object_get_Inr_iff)
qed

lemma object_insert_Some:
  assumes "object_insert hash files bs = Some files'"
  shows "holds_object hash files' (ObjectId (hash bs)) bs
    \<and> (files' = files \<or> files (path_for (ObjectId (hash bs))) = None
         \<and> files' = files(path_for (ObjectId (hash bs)) \<mapsto> envelope_header (of_nat (length bs)) @ bs))"
  using assms
  by (auto simp: object_insert_def result_ok_Some_iff object_put_def object_id_digest_def put_verified_Inr_iff)

interpretation object_store: content_store "\<lambda>bs. ObjectId (hash bs)" "object_lookup hash" "object_insert hash"
  for hash
proof
  fix s i b assume "object_lookup hash s i = Some b"
  then show "ObjectId (hash b) = i" by (simp add: object_lookup_Some_iff holds_object_def)
next
  fix s b t assume "object_insert hash s b = Some t"
  then show "object_lookup hash t (ObjectId (hash b)) = Some b"
    using object_insert_Some by (simp add: object_lookup_Some_iff)
next
  fix s b t i assume "object_insert hash s b = Some t" and i: "i \<noteq> ObjectId (hash b)"
  then have "t (path_for i) = s (path_for i)" using object_insert_Some by fastforce
  then have "holds_object hash t i c \<longleftrightarrow> holds_object hash s i c" for c by (simp add: holds_object_def)
  then show "object_lookup hash t i = object_lookup hash s i"
    using object_lookup_Some_iff by (metis option.exhaust)
next
  fix s b t assume t: "object_insert hash s b = Some t" and n: "object_lookup hash s (ObjectId (hash b)) \<noteq> None"
  then have "s (path_for (ObjectId (hash b))) \<noteq> None"
    by (auto simp: object_lookup_Some_iff holds_object_def)
  then show "t = s" using object_insert_Some [OF t] by auto
qed

subsection \<open>Properties\<close>

text \<open>C33: the object envelope is a bijection between payloads and well-formed envelopes: decoding
  inverts encoding, and a decoded envelope is the one the encoder writes.\<close>
theorem envelope_roundtrip:
  assumes "length e < 2 ^ 64"
  shows "object_encode bs = Inr e \<longleftrightarrow> object_decode e = Inr bs"
  using assms object_decode_encode object_encode_decode by blast

theorem envelope_roundtrip_witness:
  "object_decode (envelope_header 3 @ [1, 2, 3]) = Inr [1, 2, 3]"
proof -
  have "object_encode [1, 2, 3] = Inr (envelope_header 3 @ [1, 2, 3])"
    by (simp add: object_encode_Inr_iff HEADER_LEN_def)
  then show ?thesis using envelope_roundtrip [of "envelope_header 3 @ [1, 2, 3]" "[1, 2, 3]"] by simp
qed

text \<open>C6: what the object store returns for an identity has that identity as its digest, is no longer
  than the caller's limit, and is what the stored file holds; a corrupted, truncated or extended
  file is never returned.\<close>
theorem object_get_verifies:
  "object_get hash files i maximum = Inr bs \<longleftrightarrow>
     ObjectId (hash bs) = i \<and> length bs \<le> unat maximum \<and> HEADER_LEN + length bs < 2 ^ 64
     \<and> files (path_for i) = Some (envelope_header (of_nat (length bs)) @ bs)"
  by (auto simp: object_get_Inr_iff holds_object_def)

text \<open>C32: storing content makes it readable under its digest, leaves every other object as it was,
  and storing it again changes nothing.\<close>
theorem object_put_then_get:
  assumes "object_put hash files bs = Inr (files', so)"
  shows "so = stored_metadata (ObjectId (hash bs)) bs
    \<and> object_get hash files' (ObjectId (hash bs)) (so_logical_size so) = Inr bs
    \<and> (\<forall>i m. i \<noteq> ObjectId (hash bs) \<longrightarrow> object_get hash files' i m = object_get hash files i m)
    \<and> object_put hash files' bs = Inr (files', so)"
proof -
  let ?i = "ObjectId (hash bs)"
  have p: "holds_object hash files' ?i bs" "so = stored_metadata ?i bs"
    and f: "files' = files \<or> files' = files(path_for ?i \<mapsto> envelope_header (of_nat (length bs)) @ bs)"
    using assms by (auto simp: object_put_def object_id_digest_def put_verified_Inr_iff)
  have "unat (so_logical_size so) = length bs"
    using p by (simp add: stored_metadata_def holds_object_def HEADER_LEN_def unat_of_nat)
  then have "object_get hash files' ?i (so_logical_size so) = Inr bs" using p by (simp add: object_get_Inr_iff)
  moreover have "object_get hash files' i m = object_get hash files i m" if "i \<noteq> ?i" for i m
    using f that by (auto simp: object_get_def open_reader_def)
  moreover have "object_put hash files' bs = Inr (files', so)"
    using p by (simp add: object_put_def object_id_digest_def put_verified_Inr_iff)
  ultimately show ?thesis using p(2) by blast
qed

theorem object_put_then_get_witness:
  "\<exists>files so. object_put (\<lambda>_. replicate 32 0) Map.empty [7] = Inr (files, so)
    \<and> object_get (\<lambda>_. replicate 32 0) files (ObjectId (replicate 32 0)) (so_logical_size so) = Inr [7]"
proof -
  obtain files so where p: "object_put (\<lambda>_. replicate 32 0) Map.empty [7] = Inr (files, so)"
    by (simp add: object_put_def object_id_digest_def put_verified_def object_encode_def word_of_len_def
        HEADER_LEN_def Let_def)
  with object_put_then_get [OF p] show ?thesis by blast
qed

end
