(* ===== verification/Store_Tables.thy ===== *)
theory Store_Tables
  imports Objects Events Manifest
begin

section \<open>The metadata database\<close>

text \<open>
  The tables of \<open>rewind-store/src/schema.rs\<close> and the small helpers of \<open>lib.rs\<close> and \<open>run.rs\<close>
  that every store operation uses.  A table is the list of its rows, a row a record of its
  columns; \<open>INTEGER\<close> columns are integers, \<open>TEXT\<close> columns strings, nullable columns options.
  Each \<open>insert_\<close> function is the \<open>INSERT\<close> of one row and enforces what the table's DDL declares:
  \<open>None\<close> stands for the constraint failure SQLite reports.  \<open>update_runs\<close> is an \<open>UPDATE\<close> of the
  \<open>runs\<close> table with the same checks on the new rows.

  The libraries the store calls are the record \<open>env\<close>: UUID text, BLAKE3, and \<open>serde_json\<close>, whose
  documents are the type variable \<open>'j\<close>.  A transaction is an operation on the database that
  returns the new database only when it commits.
\<close>

subsection \<open>Libraries\<close>

record 'j env =
  env_uuid :: uuid_lib
  env_hash :: "u8 list \<Rightarrow> u8 list"
  env_to_json :: "event_payload \<Rightarrow> 'j option"
  env_from_json :: "'j \<Rightarrow> event_payload option"
  env_json_valid :: "'j \<Rightarrow> bool"
  env_manifest_json :: "snapshot_manifest \<Rightarrow> u8 list option"

definition env_ok :: "'j env \<Rightarrow> bool" where
  \<comment> \<open>documented: printed UUIDs parse back, digests have 32 bytes, and what the serializer writes
     is valid JSON that the deserializer reads back\<close>
  "env_ok env \<longleftrightarrow> uuid_lib_ok (env_uuid env) \<and> hash_ok (env_hash env)
     \<and> (\<forall>p j. env_to_json env p = Some j \<longrightarrow> env_json_valid env j \<and> env_from_json env j = Some p)"

subsection \<open>Rows\<close>

record object_row =
  ob_id :: string
  ob_logical_size :: int
  ob_stored_size :: int
  ob_compression :: string
  ob_created :: int

record snapshot_row =
  sn_id :: string
  sn_schema_version :: int
  sn_entry_count :: int
  sn_logical_bytes :: int
  sn_created :: int

record entry_row =
  se_snapshot :: string
  se_path :: string
  se_kind :: string
  se_object :: "string option"
  se_target :: "string option"
  se_executable :: bool
  se_mode :: int
  se_logical_size :: int

record run_row =
  rr_id :: string
  rr_branch :: string
  rr_command :: string
  rr_root :: string
  rr_started :: int
  rr_finished :: "int option"
  rr_duration :: "int option"
  rr_status :: string
  rr_platform :: string
  rr_input :: string
  rr_environment :: bool
  rr_initial :: "string option"
  rr_final :: "string option"
  rr_exit_kind :: "string option"
  rr_exit_value :: "int option"

record argument_row =
  ar_run :: string
  ar_position :: int
  ar_value :: string

record parent_row =
  pr_child :: string
  pr_parent :: string
  pr_checkpoint :: string

record 'j event_row =
  er_run :: string
  er_sequence :: int
  er_id :: string
  er_wall :: int
  er_offset :: int
  er_schema_version :: int
  er_kind :: string
  er_payload :: 'j

record checkpoint_row =
  kr_id :: string
  kr_run :: string
  kr_sequence :: int
  kr_label :: "string option"
  kr_reason :: string
  kr_snapshot :: string
  kr_created :: int
  kr_offset :: int

record chunk_row =
  tc_run :: string
  tc_stream :: string
  tc_first :: int
  tc_last :: int
  tc_object :: string
  tc_bytes :: int

record warning_row =
  wr_run :: string
  wr_sequence :: int
  wr_code :: string
  wr_message :: string
  wr_created :: int

record 'j db =
  tb_objects :: "object_row list"
  tb_snapshots :: "snapshot_row list"
  tb_entries :: "entry_row list"
  tb_runs :: "run_row list"
  tb_arguments :: "argument_row list"
  tb_parents :: "parent_row list"
  tb_events :: "'j event_row list"
  tb_checkpoints :: "checkpoint_row list"
  tb_chunks :: "chunk_row list"
  tb_warnings :: "warning_row list"

definition empty_db :: "'j db" where
  "empty_db = \<lparr>tb_objects = [], tb_snapshots = [], tb_entries = [], tb_runs = [], tb_arguments = [],
     tb_parents = [], tb_events = [], tb_checkpoints = [], tb_chunks = [], tb_warnings = []\<rparr>"

definition has_key :: "('r \<Rightarrow> 'k) \<Rightarrow> 'k \<Rightarrow> 'r list \<Rightarrow> bool" where
  "has_key key k rows = list_ex (\<lambda>r. key r = k) rows"

definition references :: "('r \<Rightarrow> 'k) \<Rightarrow> 'k option \<Rightarrow> 'r list \<Rightarrow> bool" where
  \<comment> \<open>a nullable foreign key\<close>
  "references key k rows = (case k of None \<Rightarrow> True | Some v \<Rightarrow> has_key key v rows)"

lemma has_key_iff [simp]: "has_key key k rows \<longleftrightarrow> k \<in> key ` set rows"
  by (auto simp: has_key_def list_ex_iff)

lemma references_iff: "references key k rows \<longleftrightarrow> (\<forall>v. k = Some v \<longrightarrow> v \<in> key ` set rows)"
  by (cases k) (auto simp: references_def)

subsection \<open>Inserting rows\<close>

definition insert_object :: "object_row \<Rightarrow> 'j db \<Rightarrow> 'j db option" where
  "insert_object r db =
     (if length (ob_id r) = 64 \<and> 0 \<le> ob_logical_size r \<and> 0 \<le> ob_stored_size r
         \<and> ob_compression r = ''none'' \<and> \<not> has_key ob_id (ob_id r) (tb_objects db)
      then Some (db\<lparr>tb_objects := tb_objects db @ [r]\<rparr>) else None)"

definition insert_snapshot :: "snapshot_row \<Rightarrow> 'j db \<Rightarrow> 'j db option" where
  "insert_snapshot r db =
     (if length (sn_id r) = 64 \<and> 1 \<le> sn_schema_version r \<and> 0 \<le> sn_entry_count r
         \<and> 0 \<le> sn_logical_bytes r \<and> \<not> has_key sn_id (sn_id r) (tb_snapshots db)
      then Some (db\<lparr>tb_snapshots := tb_snapshots db @ [r]\<rparr>) else None)"

definition entry_columns_ok :: "entry_row \<Rightarrow> bool" where
  "entry_columns_ok r \<longleftrightarrow>
     se_kind r = ''file'' \<and> se_object r \<noteq> None \<and> se_target r = None
     \<or> se_kind r = ''directory'' \<and> se_object r = None \<and> se_target r = None \<and> se_logical_size r = 0
     \<or> se_kind r = ''symlink'' \<and> se_object r = None \<and> se_target r \<noteq> None \<and> se_logical_size r = 0"

definition insert_entry :: "entry_row \<Rightarrow> 'j db \<Rightarrow> 'j db option" where
  "insert_entry r db =
     (if has_key sn_id (se_snapshot r) (tb_snapshots db) \<and> se_path r \<noteq> []
         \<and> se_kind r \<in> {''file'', ''directory'', ''symlink''}
         \<and> references ob_id (se_object r) (tb_objects db)
         \<and> 0 \<le> se_mode r \<and> se_mode r \<le> 4095 \<and> 0 \<le> se_logical_size r
         \<and> entry_columns_ok r
         \<and> \<not> has_key (\<lambda>r. (se_snapshot r, se_path r)) (se_snapshot r, se_path r) (tb_entries db)
      then Some (db\<lparr>tb_entries := tb_entries db @ [r]\<rparr>) else None)"

definition active_status :: "string \<Rightarrow> bool" where
  \<comment> \<open>\<open>status IN ('preparing', 'running')\<close>\<close>
  "active_status s \<longleftrightarrow> s = ''preparing'' \<or> s = ''running''"

definition run_columns_ok :: "run_row \<Rightarrow> bool" where
  "run_columns_ok r \<longleftrightarrow> rr_command r \<noteq> []
     \<and> (case rr_duration r of None \<Rightarrow> True | Some d \<Rightarrow> 0 \<le> d)
     \<and> rr_status r \<in> {''preparing'', ''running'', ''completed'', ''failed'', ''interrupted'', ''crashed''}
     \<and> rr_platform r \<in> {''macos_aarch64'', ''linux_x86_64'', ''linux_aarch64''}
     \<and> rr_input r \<in> {''auto'', ''always'', ''never''}
     \<and> (case rr_exit_kind r of None \<Rightarrow> True | Some k \<Rightarrow> k \<in> {''code'', ''signal'', ''unknown''})
     \<and> (active_status (rr_status r) \<longleftrightarrow> rr_finished r = None)
     \<and> (active_status (rr_status r) \<longleftrightarrow> rr_duration r = None)
     \<and> (rr_exit_kind r = None \<and> rr_exit_value r = None
        \<or> rr_exit_kind r \<in> {Some ''code'', Some ''signal''} \<and> rr_exit_value r \<noteq> None
        \<or> rr_exit_kind r = Some ''unknown'' \<and> rr_exit_value r = None)"

definition run_references_ok :: "run_row \<Rightarrow> 'j db \<Rightarrow> bool" where
  "run_references_ok r db \<longleftrightarrow> references sn_id (rr_initial r) (tb_snapshots db)
     \<and> references sn_id (rr_final r) (tb_snapshots db)"

definition insert_run :: "run_row \<Rightarrow> 'j db \<Rightarrow> 'j db option" where
  "insert_run r db =
     (if run_columns_ok r \<and> run_references_ok r db \<and> \<not> has_key rr_id (rr_id r) (tb_runs db)
      then Some (db\<lparr>tb_runs := tb_runs db @ [r]\<rparr>) else None)"

definition update_runs :: "(run_row \<Rightarrow> bool) \<Rightarrow> (run_row \<Rightarrow> run_row) \<Rightarrow> 'j db \<Rightarrow> ('j db \<times> nat) option" where
  \<comment> \<open>\<open>UPDATE runs SET .. WHERE ..\<close> with the number of changed rows; the identity column is not set\<close>
  "update_runs P g db =
     (if list_all (\<lambda>r. P r \<longrightarrow> run_columns_ok (g r) \<and> run_references_ok (g r) db) (tb_runs db)
      then Some (db\<lparr>tb_runs := map (\<lambda>r. if P r then g r else r) (tb_runs db)\<rparr>,
                 length (filter P (tb_runs db)))
      else None)"

definition insert_argument :: "argument_row \<Rightarrow> 'j db \<Rightarrow> 'j db option" where
  "insert_argument r db =
     (if has_key rr_id (ar_run r) (tb_runs db) \<and> 0 \<le> ar_position r
         \<and> \<not> has_key (\<lambda>r. (ar_run r, ar_position r)) (ar_run r, ar_position r) (tb_arguments db)
      then Some (db\<lparr>tb_arguments := tb_arguments db @ [r]\<rparr>) else None)"

definition insert_parent :: "parent_row \<Rightarrow> 'j db \<Rightarrow> 'j db option" where
  "insert_parent r db =
     (if has_key rr_id (pr_child r) (tb_runs db) \<and> has_key rr_id (pr_parent r) (tb_runs db)
         \<and> pr_child r \<noteq> pr_parent r
         \<and> has_key (\<lambda>k. (kr_run k, kr_id k)) (pr_parent r, pr_checkpoint r) (tb_checkpoints db)
         \<and> \<not> has_key pr_child (pr_child r) (tb_parents db)
      then Some (db\<lparr>tb_parents := tb_parents db @ [r]\<rparr>) else None)"

definition insert_event :: "'j env \<Rightarrow> 'j event_row \<Rightarrow> 'j db \<Rightarrow> 'j db option" where
  "insert_event env r db =
     (if has_key rr_id (er_run r) (tb_runs db) \<and> 0 \<le> er_sequence r
         \<and> \<not> has_key er_id (er_id r) (tb_events db)
         \<and> 0 \<le> er_offset r \<and> 1 \<le> er_schema_version r \<and> env_json_valid env (er_payload r)
         \<and> \<not> has_key (\<lambda>r. (er_run r, er_sequence r)) (er_run r, er_sequence r) (tb_events db)
      then Some (db\<lparr>tb_events := tb_events db @ [r]\<rparr>) else None)"

definition insert_checkpoint :: "checkpoint_row \<Rightarrow> 'j db \<Rightarrow> 'j db option" where
  "insert_checkpoint r db =
     (if has_key rr_id (kr_run r) (tb_runs db) \<and> 0 \<le> kr_sequence r
         \<and> kr_reason r \<in> {''initial'', ''manual'', ''process_boundary'', ''filesystem_quiescence'',
                           ''agent_adapter'', ''final''}
         \<and> has_key sn_id (kr_snapshot r) (tb_snapshots db) \<and> 0 \<le> kr_offset r
         \<and> \<not> has_key kr_id (kr_id r) (tb_checkpoints db)
         \<and> \<not> has_key (\<lambda>r. (kr_run r, kr_sequence r)) (kr_run r, kr_sequence r) (tb_checkpoints db)
      then Some (db\<lparr>tb_checkpoints := tb_checkpoints db @ [r]\<rparr>) else None)"

definition insert_chunk :: "chunk_row \<Rightarrow> 'j db \<Rightarrow> 'j db option" where
  "insert_chunk r db =
     (if has_key rr_id (tc_run r) (tb_runs db) \<and> 0 \<le> tc_first r \<and> tc_first r \<le> tc_last r
         \<and> has_key ob_id (tc_object r) (tb_objects db) \<and> 0 \<le> tc_bytes r
         \<and> \<not> has_key (\<lambda>r. (tc_run r, tc_stream r, tc_first r)) (tc_run r, tc_stream r, tc_first r)
               (tb_chunks db)
      then Some (db\<lparr>tb_chunks := tb_chunks db @ [r]\<rparr>) else None)"

definition insert_warning :: "warning_row \<Rightarrow> 'j db \<Rightarrow> 'j db option" where
  "insert_warning r db =
     (if has_key rr_id (wr_run r) (tb_runs db) \<and> 0 \<le> wr_sequence r
         \<and> \<not> has_key (\<lambda>r. (wr_run r, wr_sequence r)) (wr_run r, wr_sequence r) (tb_warnings db)
      then Some (db\<lparr>tb_warnings := tb_warnings db @ [r]\<rparr>) else None)"

definition select_row :: "('r \<Rightarrow> 'k) \<Rightarrow> 'k \<Rightarrow> 'r list \<Rightarrow> 'r option" where
  \<comment> \<open>\<open>SELECT .. WHERE key = ?\<close> on a primary key, as \<open>query_row(..).optional()\<close>\<close>
  "select_row key k rows = find (\<lambda>r. key r = k) rows"

subsection \<open>Numbers and identifiers in columns\<close>

definition sql_u64 :: "string \<Rightarrow> u64 \<Rightarrow> (store_error, int) result" where
  "sql_u64 field v = (if uint v < 2 ^ 63 then Inr (uint v) else Inl (StoreNumericRange field))"

definition sql_usize :: "string \<Rightarrow> nat \<Rightarrow> (store_error, int) result" where
  \<comment> \<open>\<open>i64::try_from\<close> of a length or an index\<close>
  "sql_usize field n = (if n < 2 ^ 63 then Inr (int n) else Inl (StoreNumericRange field))"

definition decode_u64 :: "string \<Rightarrow> int \<Rightarrow> (store_error, u64) result" where
  \<comment> \<open>the argument is an \<open>i64\<close>\<close>
  "decode_u64 field v = (if 0 \<le> v then Inr (of_int v) else Inl StoreInvariant)"

definition parse_id :: "(string \<Rightarrow> ('e, 'a) result) \<Rightarrow> string \<Rightarrow> string \<Rightarrow> (store_error, 'a) result" where
  "parse_id parse kind v = map_err (\<lambda>_. InvalidIdentifier kind v) (parse v)"

definition parse_enum :: "(string \<Rightarrow> ('e, 'a) result) \<Rightarrow> string \<Rightarrow> string \<Rightarrow> (store_error, 'a) result" where
  "parse_enum parse kind v = map_err (\<lambda>_. InvalidEnum kind v) (parse v)"

lemma sql_u64_Inr_iff: "sql_u64 f v = Inr i \<longleftrightarrow> i = uint v \<and> uint v < 2 ^ 63"
  by (auto simp: sql_u64_def)

lemma sql_usize_Inr_iff: "sql_usize f n = Inr i \<longleftrightarrow> i = int n \<and> n < 2 ^ 63"
  by (auto simp: sql_usize_def)

lemma decode_u64_Inr_iff: "decode_u64 f i = Inr v \<longleftrightarrow> 0 \<le> i \<and> v = of_int i"
  by (auto simp: decode_u64_def)

lemma decode_u64_uint [simp]: "decode_u64 f (uint v) = Inr v"
  by (simp add: decode_u64_def)

lemma decode_sql_u64: "sql_u64 f v = Inr i \<Longrightarrow> decode_u64 g i = Inr v"
  by (auto simp: sql_u64_Inr_iff)

lemma parse_id_Inr_iff [simp]: "parse_id parse kind v = Inr x \<longleftrightarrow> parse v = Inr x"
  by (simp add: parse_id_def)

lemma parse_enum_Inr_iff [simp]: "parse_enum parse kind v = Inr x \<longleftrightarrow> parse v = Inr x"
  by (simp add: parse_enum_def)

lemma parse_id_Inr [simp]: "parse v = Inr x \<Longrightarrow> parse_id parse kind v = Inr x"
  by simp

lemma parse_enum_Inr [simp]: "parse v = Inr x \<Longrightarrow> parse_enum parse kind v = Inr x"
  by simp

subsection \<open>The table contract\<close>

lemma select_row_append:
  "select_row key k (xs @ ys) = (case select_row key k xs of Some r \<Rightarrow> Some r | None \<Rightarrow> select_row key k ys)"
  by (induction xs) (auto simp: select_row_def)

lemma select_row_Nil [simp]: "select_row key k [] = None"
  by (simp add: select_row_def)

lemma select_row_Cons [simp]:
  "select_row key k (r # rs) = (if key r = k then Some r else select_row key k rs)"
  by (simp add: select_row_def)

lemma select_row_None: "select_row key k rows = None \<longleftrightarrow> k \<notin> key ` set rows"
  by (induction rows) auto

lemma select_row_Some: "select_row key k rows = Some r \<Longrightarrow> r \<in> set rows \<and> key r = k"
  by (induction rows) (auto split: if_splits)

lemma select_row_mem:
  "distinct (map key rows) \<Longrightarrow> select_row key k rows = Some r \<longleftrightarrow> r \<in> set rows \<and> key r = k"
  by (induction rows) (auto simp: image_iff)

locale keyed_table =
  fixes rows :: "'d \<Rightarrow> 'r list"
    and key :: "'r \<Rightarrow> 'k"
    and insert_row :: "'r \<Rightarrow> 'd \<Rightarrow> 'd option"
  assumes insert_rows: "insert_row r d = Some d' \<Longrightarrow> rows d' = rows d @ [r]"
    and insert_fresh: "insert_row r d = Some d' \<Longrightarrow> key r \<notin> key ` set (rows d)"
begin

definition unique :: "'d \<Rightarrow> bool" where
  "unique d \<longleftrightarrow> distinct (map key (rows d))"

lemma insert_unique: "insert_row r d = Some d' \<Longrightarrow> unique d \<Longrightarrow> unique d'"
  using insert_rows insert_fresh by (fastforce simp: unique_def)

lemma select_after:
  assumes "insert_row r d = Some d'"
  shows "select_row key k (rows d') = (if k = key r then Some r else select_row key k (rows d))"
proof (cases "k = key r")
  case True
  then have "select_row key k (rows d) = None" using insert_fresh [OF assms] by (simp add: select_row_None)
  then show ?thesis using insert_rows [OF assms] True by (simp add: select_row_append)
next
  case False
  then show ?thesis using insert_rows [OF assms] by (simp add: select_row_append split: option.splits)
qed

lemma select_monotone:
  "insert_row r d = Some d' \<Longrightarrow> select_row key k (rows d) = Some x \<Longrightarrow> select_row key k (rows d') = Some x"
  using insert_rows by (simp add: select_row_append)

lemma select_mem: "unique d \<Longrightarrow> select_row key k (rows d) = Some r \<longleftrightarrow> r \<in> set (rows d) \<and> key r = k"
  unfolding unique_def by (rule select_row_mem)

end

lemmas insert_defs = insert_object_def insert_snapshot_def insert_entry_def insert_run_def
  insert_argument_def insert_parent_def insert_event_def insert_checkpoint_def insert_chunk_def
  insert_warning_def

interpretation objects_table: keyed_table tb_objects ob_id insert_object
  by unfold_locales (auto simp: insert_defs split: if_splits)

interpretation snapshots_table: keyed_table tb_snapshots sn_id insert_snapshot
  by unfold_locales (auto simp: insert_defs split: if_splits)

interpretation entries_table: keyed_table tb_entries "\<lambda>r. (se_snapshot r, se_path r)" insert_entry
  by unfold_locales (auto simp: insert_defs split: if_splits)

interpretation runs_table: keyed_table tb_runs rr_id insert_run
  by unfold_locales (auto simp: insert_defs split: if_splits)

interpretation arguments_table: keyed_table tb_arguments "\<lambda>r. (ar_run r, ar_position r)" insert_argument
  by unfold_locales (auto simp: insert_defs split: if_splits)

interpretation parents_table: keyed_table tb_parents pr_child insert_parent
  by unfold_locales (auto simp: insert_defs split: if_splits)

interpretation events_table: keyed_table tb_events "\<lambda>r. (er_run r, er_sequence r)" "insert_event env" for env
  by unfold_locales (auto simp: insert_defs split: if_splits)

interpretation event_ids_table: keyed_table tb_events er_id "insert_event env" for env
  by unfold_locales (auto simp: insert_defs split: if_splits)

interpretation checkpoints_table: keyed_table tb_checkpoints kr_id insert_checkpoint
  by unfold_locales (auto simp: insert_defs split: if_splits)

interpretation chunks_table: keyed_table tb_chunks "\<lambda>r. (tc_run r, tc_stream r, tc_first r)" insert_chunk
  by unfold_locales (auto simp: insert_defs split: if_splits)

interpretation warnings_table: keyed_table tb_warnings "\<lambda>r. (wr_run r, wr_sequence r)" insert_warning
  by unfold_locales (auto simp: insert_defs split: if_splits)

subsection \<open>Updates of the runs table\<close>

lemma update_runs_Some_iff:
  "update_runs P g db = Some (db', n) \<longleftrightarrow>
     (\<forall>r \<in> set (tb_runs db). P r \<longrightarrow> run_columns_ok (g r) \<and> run_references_ok (g r) db)
     \<and> db' = db\<lparr>tb_runs := map (\<lambda>r. if P r then g r else r) (tb_runs db)\<rparr>
     \<and> n = length (filter P (tb_runs db))"
  by (auto simp: update_runs_def list_all_iff)

lemma select_row_map:
  "(\<And>r. r \<in> set rows \<Longrightarrow> key (f r) = key r) \<Longrightarrow> select_row key k (map f rows) = map_option f (select_row key k rows)"
  by (induction rows) auto

lemma has_key_map:
  "(\<And>r. r \<in> set rows \<Longrightarrow> key (f r) = key r) \<Longrightarrow> key ` set (map f rows) = key ` set rows"
  by (auto simp: image_iff)

lemma filter_unique_key:
  "distinct (map key rows) \<Longrightarrow>
     length (filter (\<lambda>r. key r = k \<and> P r) rows) =
       (case select_row key k rows of Some r \<Rightarrow> if P r then 1 else 0 | None \<Rightarrow> 0)"
proof (induction rows)
  case (Cons r rows)
  have "key r \<notin> key ` set rows \<Longrightarrow> filter (\<lambda>x. key x = key r \<and> P x) rows = []"
    by (auto simp: filter_empty_conv image_iff)
  then show ?case using Cons by (cases "key r = k") auto
qed simp

end
