(* ===== verification/Store_Objects.thy ===== *)
theory Store_Objects
  imports Store_Tables
begin

section \<open>The store handle and its object index\<close>

text \<open>
  The handle and the object operations of \<open>rewind-store/src/lib.rs\<close>.  A handle is the metadata
  database, the object directory and whether it holds the writer lock.  An operation that
  touches the directory before it can fail returns the new handle beside its result, so that
  what a failure leaves behind is visible.  \<open>index_ok\<close> is the contract between the two halves of
  the store: every indexed object has an intact envelope of the recorded sizes.
\<close>

record 'j store =
  st_db :: "'j db"
  st_files :: object_files
  st_writer :: bool

definition is_read_only :: "'j store \<Rightarrow> bool" where
  "is_read_only st = (\<not> st_writer st)"

definition require_writer :: "'j store \<Rightarrow> string \<Rightarrow> (store_error, unit) result" where
  "require_writer st operation = ensure (st_writer st) (StoreReadOnly operation)"

definition insert_object_or_ignore :: "object_row \<Rightarrow> 'j db \<Rightarrow> 'j db option" where
  \<comment> \<open>\<open>INSERT .. ON CONFLICT(id) DO NOTHING\<close>; the other constraints still apply\<close>
  "insert_object_or_ignore r db =
     (if has_key ob_id (ob_id r) (tb_objects db)
      then if length (ob_id r) = 64 \<and> 0 \<le> ob_logical_size r \<and> 0 \<le> ob_stored_size r
              \<and> ob_compression r = ''none'' then Some db else None
      else insert_object r db)"

definition record_object :: "'j db \<Rightarrow> stored_object \<Rightarrow> int \<Rightarrow> (store_error, 'j db) result" where
  "record_object db stored created_unix_ms =
     and_then (sql_u64 ''object logical size'' (so_logical_size stored)) (\<lambda>logical_size.
     and_then (sql_u64 ''object stored size'' (so_stored_size stored)) (\<lambda>stored_size.
     and_then (ok_or (StoreDatabase ''record object metadata'')
       (insert_object_or_ignore
          \<lparr>ob_id = object_id_text (so_id stored), ob_logical_size = logical_size,
           ob_stored_size = stored_size, ob_compression = ''none'', ob_created = created_unix_ms\<rparr> db)) (\<lambda>db'.
     and_then (ok_or (StoreDatabase ''verify object metadata'')
       (select_row ob_id (object_id_text (so_id stored)) (tb_objects db'))) (\<lambda>recorded.
       if (ob_logical_size recorded, ob_stored_size recorded, ob_compression recorded)
            \<noteq> (logical_size, stored_size, ''none'')
       then Inl StoreInvariant else Inr db'))))"

definition finish_put ::
    "'j store \<Rightarrow> int \<Rightarrow> (store_error, object_files \<times> stored_object) result
     \<Rightarrow> 'j store \<times> (store_error, stored_object) result" where
  \<comment> \<open>what \<open>put_object\<close> and \<open>import_object\<close> do after the directory operation\<close>
  "finish_put st created_unix_ms installed = (case installed of
       Inl e \<Rightarrow> (st, Inl e)
     | Inr (files, stored) \<Rightarrow>
         (case record_object (st_db st) stored created_unix_ms of
            Inl e \<Rightarrow> (st\<lparr>st_files := files\<rparr>, Inl e)
          | Inr db \<Rightarrow> (st\<lparr>st_files := files, st_db := db\<rparr>, Inr stored)))"

definition put_object ::
    "'j env \<Rightarrow> 'j store \<Rightarrow> u8 list \<Rightarrow> int \<Rightarrow> 'j store \<times> (store_error, stored_object) result" where
  "put_object env st bytes created_unix_ms =
     (case require_writer st ''store an object'' of
        Inl e \<Rightarrow> (st, Inl e)
      | Inr _ \<Rightarrow> finish_put st created_unix_ms (object_put (env_hash env) (st_files st) bytes))"

definition import_object ::
    "'j env \<Rightarrow> 'j store \<Rightarrow> object_id \<Rightarrow> u8 list \<Rightarrow> int \<Rightarrow> 'j store \<times> (store_error, stored_object) result" where
  "import_object env st expected bytes created_unix_ms =
     (case require_writer st ''import an object'' of
        Inl e \<Rightarrow> (st, Inl e)
      | Inr _ \<Rightarrow> finish_put st created_unix_ms (put_verified (env_hash env) (st_files st) expected bytes))"

definition load_object :: "'j env \<Rightarrow> 'j store \<Rightarrow> object_id \<Rightarrow> u64 \<Rightarrow> (store_error, u8 list) result" where
  "load_object env st i maximum = object_get (env_hash env) (st_files st) i maximum"

definition object_exists :: "'j db \<Rightarrow> object_id \<Rightarrow> bool" where
  "object_exists db i = (select_row ob_id (object_id_text i) (tb_objects db) \<noteq> None)"

subsection \<open>The index\<close>

definition object_indexed :: "'j env \<Rightarrow> object_files \<Rightarrow> object_row \<Rightarrow> bool" where
  "object_indexed env files r \<longleftrightarrow> (\<exists>i bs. object_id_ok i \<and> ob_id r = object_id_text i
     \<and> holds_object (env_hash env) files i bs
     \<and> ob_logical_size r = int (length bs) \<and> ob_stored_size r = int (HEADER_LEN + length bs)
     \<and> ob_compression r = ''none'')"

definition index_ok :: "'j env \<Rightarrow> 'j store \<Rightarrow> bool" where
  "index_ok env st \<longleftrightarrow> objects_table.unique (st_db st)
     \<and> (\<forall>r \<in> set (tb_objects (st_db st)). object_indexed env (st_files st) r)"

lemma require_writer_Inr [simp]: "require_writer st op' = Inr u \<longleftrightarrow> st_writer st"
  by (simp add: require_writer_def)

lemma object_exists_iff: "object_exists db i \<longleftrightarrow> object_id_text i \<in> ob_id ` set (tb_objects db)"
  using select_row_None [of ob_id "object_id_text i" "tb_objects db"] by (auto simp: object_exists_def)

lemma sizes_uint:
  assumes "holds_object hash files i bs"
  shows "uint (so_logical_size (stored_metadata i bs)) = int (length bs)"
    and "uint (so_stored_size (stored_metadata i bs)) = int (HEADER_LEN + length bs)"
  using assms by (simp_all add: holds_object_def stored_metadata_def HEADER_LEN_def uint_nat unat_of_nat
      unat_word_ariths)

lemma insert_object_or_ignore_Some_iff:
  "insert_object_or_ignore r db = Some db' \<longleftrightarrow>
     length (ob_id r) = 64 \<and> 0 \<le> ob_logical_size r \<and> 0 \<le> ob_stored_size r \<and> ob_compression r = ''none''
     \<and> db' = (if ob_id r \<in> ob_id ` set (tb_objects db) then db else db\<lparr>tb_objects := tb_objects db @ [r]\<rparr>)"
  by (auto simp: insert_object_or_ignore_def insert_object_def)

definition record_columns :: "stored_object \<Rightarrow> int \<Rightarrow> object_row" where
  "record_columns stored created =
     \<lparr>ob_id = object_id_text (so_id stored), ob_logical_size = uint (so_logical_size stored),
      ob_stored_size = uint (so_stored_size stored), ob_compression = ''none'', ob_created = created\<rparr>"

lemma record_object_Inr:
  assumes "record_object db stored created = Inr db'"
  shows "uint (so_logical_size stored) < 2 ^ 63 \<and> uint (so_stored_size stored) < 2 ^ 63
    \<and> (if object_id_text (so_id stored) \<in> ob_id ` set (tb_objects db) then db' = db
       else db' = db\<lparr>tb_objects := tb_objects db @ [record_columns stored created]\<rparr>)
    \<and> (\<exists>r. select_row ob_id (object_id_text (so_id stored)) (tb_objects db') = Some r
         \<and> ob_logical_size r = uint (so_logical_size stored)
         \<and> ob_stored_size r = uint (so_stored_size stored) \<and> ob_compression r = ''none'')"
  using assms
  by (simp add: record_object_def and_then_Inr_iff sql_u64_Inr_iff insert_object_or_ignore_Some_iff
      record_columns_def split: if_splits) (elim exE conjE; hypsubst; (blast | simp))+

lemma holds_object_mono:
  assumes "put_verified hash files i bs = Inr (files', so)" and "holds_object hash files j cs"
  shows "holds_object hash files' j cs"
  using assms by (auto simp: put_verified_Inr_iff holds_object_def)

lemma object_indexed_mono:
  "put_verified (env_hash env) files i bs = Inr (files', so) \<Longrightarrow> object_indexed env files r
     \<Longrightarrow> object_indexed env files' r"
  unfolding object_indexed_def by (blast intro: holds_object_mono)

lemma finish_put_index_ok:
  assumes ok: "index_ok env st" and h: "hash_ok (env_hash env)"
    and res: "finish_put st created (put_verified (env_hash env) (st_files st) i bs) = (st', r)"
  shows "index_ok env st'"
proof (cases "put_verified (env_hash env) (st_files st) i bs")
  case (Inl e)
  then show ?thesis using ok res by (simp add: finish_put_def)
next
  case (Inr p)
  obtain files so where p: "p = (files, so)" by (cases p)
  note put = Inr [unfolded p]
  have keep: "\<forall>r \<in> set (tb_objects (st_db st)). object_indexed env files r"
    using ok put by (auto simp: index_ok_def intro: object_indexed_mono)
  show ?thesis
  proof (cases "record_object (st_db st) so created")
    case (Inl e)
    then show ?thesis using ok keep put res p Inr by (auto simp: finish_put_def index_ok_def)
  next
    case rec: (Inr db)
    have holds: "holds_object (env_hash env) files i bs" and so: "so = stored_metadata i bs"
      using put by (simp_all add: put_verified_Inr_iff)
    have "object_id_ok i" using holds h by (auto simp: holds_object_def object_id_ok_def hash_ok_def)
    then have new: "object_indexed env files (record_columns so created)"
      unfolding object_indexed_def
      using holds sizes_uint [OF holds] so
      by (intro exI [of _ i] exI [of _ bs]) (simp add: record_columns_def stored_metadata_def)
    have "objects_table.unique db \<and> (\<forall>r \<in> set (tb_objects db). object_indexed env files r)"
      using record_object_Inr [OF rec] ok keep new
      by (auto simp: index_ok_def objects_table.unique_def record_columns_def split: if_splits)
    then show ?thesis using rec put res p Inr by (auto simp: finish_put_def index_ok_def)
  qed
qed

lemma finish_put_Inr:
  assumes "finish_put st created (put_verified (env_hash env) (st_files st) i bs) = (st', Inr so)"
  shows "so = stored_metadata i bs \<and> holds_object (env_hash env) (st_files st') i bs
    \<and> object_exists (st_db st') i \<and> st_writer st' = st_writer st"
  using assms record_object_Inr [of "st_db st" so created]
  by (auto simp: finish_put_def put_verified_Inr_iff object_exists_def stored_metadata_def
      split: sum.splits prod.splits)

lemma put_object_eq_import:
  "put_object env st bs created =
     (if st_writer st then import_object env st (ObjectId (env_hash env bs)) bs created
      else (st, Inl (StoreReadOnly ''store an object'')))"
  by (simp add: put_object_def import_object_def require_writer_def object_put_def object_id_digest_def)

lemma import_object_index_ok:
  assumes "index_ok env st" and "hash_ok (env_hash env)" and "import_object env st i bs created = (st', r)"
  shows "index_ok env st'"
  using assms by (auto simp: import_object_def require_writer_def ensure_def split: if_splits
      intro: finish_put_index_ok)

lemma put_object_index_ok:
  assumes "index_ok env st" and "hash_ok (env_hash env)" and "put_object env st bs created = (st', r)"
  shows "index_ok env st'"
  using assms import_object_index_ok by (auto simp: put_object_eq_import split: if_splits)

lemma import_object_Inr:
  assumes "import_object env st i bs created = (st', Inr so)"
  shows "so = stored_metadata i bs \<and> holds_object (env_hash env) (st_files st') i bs
    \<and> object_exists (st_db st') i \<and> st_writer st"
  using assms finish_put_Inr [of st created env i bs st' so]
  by (auto simp: import_object_def require_writer_def ensure_def split: if_splits)

lemma load_object_Inr_iff:
  "load_object env st i maximum = Inr bs \<longleftrightarrow>
     holds_object (env_hash env) (st_files st) i bs \<and> length bs \<le> unat maximum"
  by (simp add: load_object_def object_get_Inr_iff)

lemma index_ok_load:
  assumes "index_ok env st" and "object_id_ok i" and "object_exists (st_db st) i"
  shows "\<exists>bs. load_object env st i (- 1) = Inr bs"
proof -
  obtain r where "r \<in> set (tb_objects (st_db st))" "ob_id r = object_id_text i"
    using assms(3) by (auto simp: object_exists_iff)
  then obtain j bs where "object_id_ok j" "object_id_text j = object_id_text i"
    and h: "holds_object (env_hash env) (st_files st) j bs"
    using assms(1) by (auto simp: index_ok_def object_indexed_def)
  then have "j = i" using assms(2) object_id_form.display_inj by blast
  then show ?thesis using h
    by (auto simp: load_object_Inr_iff holds_object_def HEADER_LEN_def unsigned_minus_1_eq_mask
        mask_eq_exp_minus_1)
qed

end
