(* ===== verification/Store_Events.thy ===== *)
theory Store_Events
  imports Store_Objects
begin

section \<open>The event log\<close>

text \<open>
  \<open>rewind-store/src/event.rs\<close>: appending a validated batch inside a transaction, the warning and
  terminal-chunk indexes it maintains, and bounded timeline pages.  \<open>timeline_ok\<close> is the
  invariant of the log: the rows of a run, in insertion order, carry the sequences 1, 2, .. and
  non-decreasing offsets, and every row decodes to a valid event.  The locale \<open>paged_query\<close> is
  the contract of a bounded page that callers read in a loop; it is interpreted here on the
  timeline.
\<close>

definition MAX_TIMELINE_PAGE :: u32 where "MAX_TIMELINE_PAGE = 10000"

record timeline_page =
  tp_events :: "event list"
  tp_has_more :: bool

fun payload_kind :: "event_payload \<Rightarrow> string" where
  "payload_kind (RunStarted _ _) = ''run_started''"
| "payload_kind (WorkspaceIsolated _) = ''workspace_isolated''"
| "payload_kind (TerminalInput _ _ _) = ''terminal_input''"
| "payload_kind (TerminalInputRedacted _ _ _) = ''terminal_input_redacted''"
| "payload_kind (TerminalOutput _ _ _) = ''terminal_output''"
| "payload_kind (TerminalResized _ _ _) = ''terminal_resized''"
| "payload_kind (ProcessObserved _) = ''process_observed''"
| "payload_kind (ProcessExited _ _) = ''process_exited''"
| "payload_kind (FilesystemPathsDirtied _) = ''filesystem_paths_dirtied''"
| "payload_kind (CheckpointStarted _ _) = ''checkpoint_started''"
| "payload_kind (CheckpointCommitted _ _) = ''checkpoint_committed''"
| "payload_kind (CheckpointFailed _ _) = ''checkpoint_failed''"
| "payload_kind (MarkerCreated _ _) = ''marker_created''"
| "payload_kind (RunInterrupted _) = ''run_interrupted''"
| "payload_kind (RunCompleted _ _) = ''run_completed''"
| "payload_kind (RecorderWarningEvent _) = ''recorder_warning''"

fun warning_code_text :: "recorder_warning_code \<Rightarrow> string" where
  "warning_code_text WarnCloneFallback = ''clone_fallback''"
| "warning_code_text WarnWatcherOverflow = ''watcher_overflow''"
| "warning_code_text WarnProcessObservationIncomplete = ''process_observation_incomplete''"
| "warning_code_text WarnInputEchoDetectionUncertain = ''input_echo_detection_uncertain''"
| "warning_code_text WarnStorageLimit = ''storage_limit''"
| "warning_code_text WarnFilesystemRace = ''filesystem_race''"
| "warning_code_text WarnPrivacyCleanupFailed = ''privacy_cleanup_failed''"
| "warning_code_text WarnOther = ''other''"

subsection \<open>Appending\<close>

fun validate_batch_loop :: "uuid_lib \<Rightarrow> run_id \<Rightarrow> u64 option \<Rightarrow> u64 option \<Rightarrow> event list
    \<Rightarrow> (store_error, unit) result" where
  "validate_batch_loop lib run previous_sequence previous_offset [] = Inr ()"
| "validate_batch_loop lib run previous_sequence previous_offset (e # es) =
     and_then (map_err (\<lambda>_. InvalidEvent (event_id_text lib (ev_id e))) (event_validate e)) (\<lambda>_.
     and_then (ensure (ev_run e = run) EventOrder) (\<lambda>_.
     and_then (ensure (case previous_sequence of None \<Rightarrow> True
                | Some p \<Rightarrow> checked_add p 1 = Some (sequence_get (ev_sequence e))) EventOrder) (\<lambda>_.
     and_then (ensure (case previous_offset of None \<Rightarrow> True
                | Some p \<Rightarrow> \<not> as_nanoseconds (ev_offset e) < p) EventOrder) (\<lambda>_.
       validate_batch_loop lib run (Some (sequence_get (ev_sequence e)))
         (Some (as_nanoseconds (ev_offset e))) es))))"

definition validate_batch :: "uuid_lib \<Rightarrow> event list \<Rightarrow> (store_error, unit) result" where
  "validate_batch lib events = validate_batch_loop lib (ev_run (hd events)) None None events"

fun referenced_object :: "event_payload \<Rightarrow> (object_id \<times> u64) option" where
  "referenced_object (TerminalInput _ object_id byte_len) = Some (object_id, byte_len)"
| "referenced_object (TerminalOutput _ object_id byte_len) = Some (object_id, byte_len)"
| "referenced_object _ = None"

definition validate_referenced_object :: "'j env \<Rightarrow> 'j db \<Rightarrow> event \<Rightarrow> (store_error, unit) result" where
  "validate_referenced_object env db e = (case referenced_object (ev_payload e) of
       None \<Rightarrow> Inr ()
     | Some (object_id, byte_len) \<Rightarrow>
         let recorded = map_option ob_logical_size
               (select_row ob_id (object_id_text object_id) (tb_objects db)) in
         and_then (sql_u64 ''terminal frame byte length'' byte_len) (\<lambda>expected.
           if recorded = Some expected then Inr ()
           else Inl (InvalidEvent (event_id_text (env_uuid env) (ev_id e)))))"

definition index_warning :: "'j env \<Rightarrow> event \<Rightarrow> 'j db \<Rightarrow> (store_error, 'j db) result" where
  "index_warning env e db = (case ev_payload e of
       RecorderWarningEvent warning \<Rightarrow>
         and_then (sql_u64 ''warning event sequence'' (sequence_get (ev_sequence e))) (\<lambda>sequence.
           ok_or (StoreDatabase ''index recorder warning'')
             (insert_warning \<lparr>wr_run = run_id_text (env_uuid env) (ev_run e), wr_sequence = sequence,
                wr_code = warning_code_text (warning_code warning),
                wr_message = warning_message warning,
                wr_created = as_unix_milliseconds (ev_wall_clock e)\<rparr> db))
     | _ \<Rightarrow> Inr db)"

definition index_chunk :: "'j env \<Rightarrow> event \<Rightarrow> 'j db \<Rightarrow> (store_error, 'j db) result" where
  "index_chunk env e db = (case ev_payload e of
       TerminalOutput stream_id object_id byte_len \<Rightarrow>
         and_then (sql_u64 ''terminal chunk sequence'' (sequence_get (ev_sequence e))) (\<lambda>sequence.
         and_then (sql_u64 ''terminal chunk byte length'' byte_len) (\<lambda>bytes.
           ok_or (StoreDatabase ''index terminal output chunk'')
             (insert_chunk \<lparr>tc_run = run_id_text (env_uuid env) (ev_run e),
                tc_stream = terminal_stream_id_text (env_uuid env) stream_id,
                tc_first = sequence, tc_last = sequence, tc_object = object_id_text object_id,
                tc_bytes = bytes\<rparr> db)))
     | _ \<Rightarrow> Inr db)"

definition append_event :: "'j env \<Rightarrow> 'j db \<Rightarrow> event \<Rightarrow> (store_error, 'j db) result" where
  \<comment> \<open>the body of the loop over the batch\<close>
  "append_event env db e =
     and_then (ok_or (StoreSerialization ''event payload'') (env_to_json env (ev_payload e))) (\<lambda>payload_json.
     and_then (sql_u64 ''event sequence'' (sequence_get (ev_sequence e))) (\<lambda>sequence.
     and_then (sql_u64 ''event monotonic offset'' (as_nanoseconds (ev_offset e))) (\<lambda>offset.
     and_then (ok_or (StoreDatabase ''insert event'')
       (insert_event env \<lparr>er_run = run_id_text (env_uuid env) (ev_run e), er_sequence = sequence,
          er_id = event_id_text (env_uuid env) (ev_id e),
          er_wall = as_unix_milliseconds (ev_wall_clock e), er_offset = offset,
          er_schema_version = uint (ev_schema_version e), er_kind = payload_kind (ev_payload e),
          er_payload = payload_json\<rparr> db)) (\<lambda>db1.
     and_then (validate_referenced_object env db1 e) (\<lambda>_.
     and_then (index_warning env e db1) (index_chunk env e))))))"

definition run_events :: "'j db \<Rightarrow> string \<Rightarrow> 'j event_row list" where
  "run_events db run = filter (\<lambda>r. er_run r = run) (tb_events db)"

definition last_event :: "'j db \<Rightarrow> string \<Rightarrow> 'j event_row option" where
  \<comment> \<open>\<open>ORDER BY sequence DESC LIMIT 1\<close>\<close>
  "last_event db run = (case rev (sort_key er_sequence (run_events db run)) of
     [] \<Rightarrow> None | r # _ \<Rightarrow> Some r)"

definition expected_sequence :: "'j event_row option \<Rightarrow> (store_error, u64) result" where
  "expected_sequence previous = (case previous of
       Some r \<Rightarrow> and_then (decode_u64 ''event sequence'' (er_sequence r)) (\<lambda>s.
                   ok_or EventOrder (checked_add s 1))
     | None \<Rightarrow> Inr (sequence_get event_sequence_first))"

definition check_offset :: "'j event_row option \<Rightarrow> event \<Rightarrow> (store_error, unit) result" where
  "check_offset previous e = (case previous of
       Some r \<Rightarrow> and_then (decode_u64 ''event monotonic offset'' (er_offset r)) (\<lambda>offset.
                   ensure (\<not> as_nanoseconds (ev_offset e) < offset) EventOrder)
     | None \<Rightarrow> Inr ())"

definition append_event_batch_in :: "'j env \<Rightarrow> 'j db \<Rightarrow> event list \<Rightarrow> (store_error, 'j db) result" where
  "append_event_batch_in env db events =
     (if events = [] then Inr db
      else and_then (validate_batch (env_uuid env) events) (\<lambda>_.
        let run_text = run_id_text (env_uuid env) (ev_run (hd events)) in
        case select_row rr_id run_text (tb_runs db) of
          None \<Rightarrow> Inl (StoreNotFound ''run'' run_text)
        | Some r \<Rightarrow>
            and_then (ensure (active_status (rr_status r)) EventOrder) (\<lambda>_.
            let previous = last_event db run_text in
            and_then (expected_sequence previous) (\<lambda>expected.
            and_then (ensure (sequence_get (ev_sequence (hd events)) = expected) EventOrder) (\<lambda>_.
            and_then (check_offset previous (hd events)) (\<lambda>_.
              fold_result (append_event env) db events))))))"

definition append_event_batch :: "'j env \<Rightarrow> 'j store \<Rightarrow> event list \<Rightarrow> (store_error, 'j store) result" where
  "append_event_batch env st events =
     and_then (require_writer st ''append events'') (\<lambda>_.
       if events = [] then Inr st
       else map_ok (\<lambda>db. st\<lparr>st_db := db\<rparr>) (append_event_batch_in env (st_db st) events))"

subsection \<open>Reading\<close>

definition raw_event :: "'j event_row \<Rightarrow> (store_error, 'j event_row) result" where
  \<comment> \<open>\<open>row.get\<close> reads the schema version as a \<open>u16\<close>\<close>
  "raw_event r = (if 0 \<le> er_schema_version r \<and> er_schema_version r < 65536 then Inr r
                  else Inl (StoreDatabase ''read timeline page''))"

definition decode_event :: "'j env \<Rightarrow> 'j event_row \<Rightarrow> (store_error, event) result" where
  "decode_event env raw =
     and_then (ok_or (StoreDeserialization ''event payload'') (env_from_json env (er_payload raw))) (\<lambda>payload.
     and_then (ensure (payload_kind payload = er_kind raw) (InvalidEvent (er_id raw))) (\<lambda>_.
     and_then (decode_u64 ''event sequence'' (er_sequence raw)) (\<lambda>sequence_value.
     and_then (ok_or (InvalidEvent (er_id raw)) (event_sequence_new sequence_value)) (\<lambda>sequence.
     and_then (parse_id (event_id_from_str (env_uuid env)) ''event ID'' (er_id raw)) (\<lambda>id.
     and_then (parse_id (run_id_from_str (env_uuid env)) ''event run ID'' (er_run raw)) (\<lambda>run.
     and_then (decode_u64 ''event monotonic offset'' (er_offset raw)) (\<lambda>offset.
     let e = \<lparr>ev_id = id, ev_run = run, ev_sequence = sequence, ev_wall_clock = Timestamp (er_wall raw),
              ev_offset = MonotonicDuration offset, ev_schema_version = of_int (er_schema_version raw),
              ev_payload = payload\<rparr> in
     and_then (map_err (\<lambda>_. InvalidEvent (event_id_text (env_uuid env) id)) (event_validate e)) (\<lambda>_.
       Inr e))))))))"

definition load_timeline ::
    "'j env \<Rightarrow> 'j db \<Rightarrow> run_id \<Rightarrow> event_sequence option \<Rightarrow> u32 \<Rightarrow> (store_error, timeline_page) result" where
  "load_timeline env db run after limit =
     (if limit = 0 \<or> limit > MAX_TIMELINE_PAGE then Inl (InvalidPageLimit limit MAX_TIMELINE_PAGE)
      else and_then (sql_u64 ''timeline cursor'' (case after of None \<Rightarrow> 0 | Some s \<Rightarrow> sequence_get s)) (\<lambda>cursor.
        let rows = take (unat limit + 1) (sort_key er_sequence
              (filter (\<lambda>r. er_sequence r > cursor) (run_events db (run_id_text (env_uuid env) run))));
            capacity = unat limit
        in and_then (map_result (\<lambda>r. and_then (raw_event r) (decode_event env)) rows) (\<lambda>events.
             Inr \<lparr>tp_events = take capacity events, tp_has_more = length events > capacity\<rparr>)))"

subsection \<open>Accepted batches\<close>

definition follows :: "u64 option \<Rightarrow> u64 option \<Rightarrow> event list \<Rightarrow> bool" where
  \<comment> \<open>consecutive sequences and non-decreasing offsets after the given predecessors\<close>
  "follows s t es \<longleftrightarrow>
     (\<forall>p. s = Some p \<longrightarrow> map (\<lambda>e. unat (sequence_get (ev_sequence e))) es = [Suc (unat p)..<Suc (unat p) + length es])
     \<and> (s = None \<longrightarrow> (\<exists>n. map (\<lambda>e. unat (sequence_get (ev_sequence e))) es = [n..<n + length es]))
     \<and> sorted (map (\<lambda>e. as_nanoseconds (ev_offset e)) es)
     \<and> (\<forall>p. t = Some p \<longrightarrow> (\<forall>e \<in> set es. p \<le> as_nanoseconds (ev_offset e)))"

lemma follows_Cons:
  "follows s t (e # es) \<longleftrightarrow>
     (\<forall>p. s = Some p \<longrightarrow> checked_add p 1 = Some (sequence_get (ev_sequence e)))
     \<and> (\<forall>p. t = Some p \<longrightarrow> p \<le> as_nanoseconds (ev_offset e))
     \<and> follows (Some (sequence_get (ev_sequence e))) (Some (as_nanoseconds (ev_offset e))) es"
proof -
  have upt: "[n..<n + length (e # es)] = n # [Suc n..<Suc n + length es]" for n
    by (simp add: upt_conv_Cons del: upt_Suc)
  have seq: "map (\<lambda>e. unat (sequence_get (ev_sequence e))) (e # es) = [n..<n + length (e # es)] \<longleftrightarrow>
      unat (sequence_get (ev_sequence e)) = n
      \<and> map (\<lambda>e. unat (sequence_get (ev_sequence e))) es
          = [Suc (unat (sequence_get (ev_sequence e)))..<Suc (unat (sequence_get (ev_sequence e))) + length es]" for n
    unfolding upt by auto
  have off: "sorted (map (\<lambda>e. as_nanoseconds (ev_offset e)) (e # es)) \<longleftrightarrow>
      sorted (map (\<lambda>e. as_nanoseconds (ev_offset e)) es)
      \<and> (\<forall>x \<in> set es. as_nanoseconds (ev_offset e) \<le> as_nanoseconds (ev_offset x))"
    by auto
  show ?thesis
    unfolding follows_def seq off checked_add_Some_iff
    by (cases s; cases t) (auto intro: order_trans)
qed

lemma validate_batch_loop_Inr_iff:
  "validate_batch_loop lib run s t es = Inr () \<longleftrightarrow>
     (\<forall>e \<in> set es. event_ok e \<and> ev_run e = run) \<and> follows s t es"
proof (induction es arbitrary: s t)
  case Nil
  show ?case by (auto simp: follows_def)
next
  case (Cons e es)
  show ?case
    unfolding follows_Cons
    by (cases s; cases t) (auto simp: and_then_Inr_iff Cons.IH not_less)
qed

lemma validate_batch_Inr_iff:
  "validate_batch lib es = Inr () \<longleftrightarrow>
     (\<forall>e \<in> set es. event_ok e \<and> ev_run e = ev_run (hd es)) \<and> follows None None es"
  by (simp add: validate_batch_def validate_batch_loop_Inr_iff)

subsection \<open>What an append adds\<close>

definition event_columns :: "'j env \<Rightarrow> event \<Rightarrow> 'j event_row" where
  "event_columns env e =
     \<lparr>er_run = run_id_text (env_uuid env) (ev_run e), er_sequence = uint (sequence_get (ev_sequence e)),
      er_id = event_id_text (env_uuid env) (ev_id e), er_wall = as_unix_milliseconds (ev_wall_clock e),
      er_offset = uint (as_nanoseconds (ev_offset e)), er_schema_version = uint (ev_schema_version e),
      er_kind = payload_kind (ev_payload e), er_payload = the (env_to_json env (ev_payload e))\<rparr>"

definition storable :: "'j env \<Rightarrow> event \<Rightarrow> bool" where
  \<comment> \<open>the numbers fit SQLite's integers and the payload serializes\<close>
  "storable env e \<longleftrightarrow> uint (sequence_get (ev_sequence e)) < 2 ^ 63 \<and> uint (as_nanoseconds (ev_offset e)) < 2 ^ 63
     \<and> env_to_json env (ev_payload e) \<noteq> None"

definition reference_ok :: "'j db \<Rightarrow> event \<Rightarrow> bool" where
  \<comment> \<open>a terminal frame refers to an indexed object of its length\<close>
  "reference_ok db e \<longleftrightarrow> (\<forall>i n. referenced_object (ev_payload e) = Some (i, n) \<longrightarrow>
     (\<exists>r. select_row ob_id (object_id_text i) (tb_objects db) = Some r \<and> ob_logical_size r = uint n))"

definition warning_columns :: "'j env \<Rightarrow> event \<Rightarrow> warning_row list" where
  "warning_columns env e = (case ev_payload e of
       RecorderWarningEvent warning \<Rightarrow>
         [\<lparr>wr_run = run_id_text (env_uuid env) (ev_run e), wr_sequence = uint (sequence_get (ev_sequence e)),
           wr_code = warning_code_text (warning_code warning), wr_message = warning_message warning,
           wr_created = as_unix_milliseconds (ev_wall_clock e)\<rparr>]
     | _ \<Rightarrow> [])"

definition chunk_columns :: "'j env \<Rightarrow> event \<Rightarrow> chunk_row list" where
  "chunk_columns env e = (case ev_payload e of
       TerminalOutput stream_id object_id byte_len \<Rightarrow>
         [\<lparr>tc_run = run_id_text (env_uuid env) (ev_run e),
           tc_stream = terminal_stream_id_text (env_uuid env) stream_id,
           tc_first = uint (sequence_get (ev_sequence e)), tc_last = uint (sequence_get (ev_sequence e)),
           tc_object = object_id_text object_id, tc_bytes = uint byte_len\<rparr>]
     | _ \<Rightarrow> [])"

lemma index_warning_Inr:
  "index_warning env e db = Inr db' \<Longrightarrow> db' = db\<lparr>tb_warnings := tb_warnings db @ warning_columns env e\<rparr>"
  by (cases "ev_payload e")
    (auto simp: index_warning_def warning_columns_def and_then_Inr_iff sql_u64_Inr_iff insert_warning_def
      split: if_splits)

lemma index_chunk_Inr:
  "index_chunk env e db = Inr db' \<Longrightarrow> db' = db\<lparr>tb_chunks := tb_chunks db @ chunk_columns env e\<rparr>"
  by (cases "ev_payload e")
    (auto simp: index_chunk_def chunk_columns_def and_then_Inr_iff sql_u64_Inr_iff insert_chunk_def
      split: if_splits)

lemma validate_referenced_object_Inr:
  "validate_referenced_object env db e = Inr () \<Longrightarrow> reference_ok db e"
  by (auto simp: validate_referenced_object_def reference_ok_def Let_def and_then_Inr_iff sql_u64_Inr_iff
      split: option.splits if_splits)

lemma insert_event_Some_iff:
  "insert_event env r db = Some db' \<longleftrightarrow>
     er_run r \<in> rr_id ` set (tb_runs db) \<and> 0 \<le> er_sequence r \<and> er_id r \<notin> er_id ` set (tb_events db)
     \<and> 0 \<le> er_offset r \<and> 1 \<le> er_schema_version r \<and> env_json_valid env (er_payload r)
     \<and> (er_run r, er_sequence r) \<notin> (\<lambda>r. (er_run r, er_sequence r)) ` set (tb_events db)
     \<and> db' = db\<lparr>tb_events := tb_events db @ [r]\<rparr>"
  unfolding insert_event_def has_key_iff by (auto split: if_splits)

lemma append_event_Inr:
  assumes "append_event env db e = Inr db'"
  shows "db' = db\<lparr>tb_events := tb_events db @ [event_columns env e],
                  tb_warnings := tb_warnings db @ warning_columns env e,
                  tb_chunks := tb_chunks db @ chunk_columns env e\<rparr>"
    and "storable env e" and "reference_ok db e"
    and "event_id_text (env_uuid env) (ev_id e) \<notin> er_id ` set (tb_events db)"
proof -
  from assms obtain j db1 db2 where
    j: "env_to_json env (ev_payload e) = Some j"
    and s: "uint (sequence_get (ev_sequence e)) < 2 ^ 63" "uint (as_nanoseconds (ev_offset e)) < 2 ^ 63"
    and i: "insert_event env (event_columns env e) db = Some db1"
    and v: "validate_referenced_object env db1 e = Inr ()"
    and w: "index_warning env e db1 = Inr db2" and c: "index_chunk env e db2 = Inr db'"
    by (auto simp: append_event_def and_then_Inr_iff sql_u64_Inr_iff event_columns_def)
  note r = i [unfolded insert_event_Some_iff]
  show "storable env e" using j s by (simp add: storable_def)
  have db1: "db1 = db\<lparr>tb_events := tb_events db @ [event_columns env e]\<rparr>" using r by blast
  show "reference_ok db e" using validate_referenced_object_Inr [OF v] by (simp add: reference_ok_def db1)
  show "event_id_text (env_uuid env) (ev_id e) \<notin> er_id ` set (tb_events db)"
    using r by (simp add: event_columns_def)
  show "db' = db\<lparr>tb_events := tb_events db @ [event_columns env e],
                  tb_warnings := tb_warnings db @ warning_columns env e,
                  tb_chunks := tb_chunks db @ chunk_columns env e\<rparr>"
    using index_chunk_Inr [OF c] index_warning_Inr [OF w] db1 by simp
qed

lemma append_events_Inr:
  "fold_result (append_event env) db es = Inr db' \<Longrightarrow>
     db' = db\<lparr>tb_events := tb_events db @ map (event_columns env) es,
              tb_warnings := tb_warnings db @ concat (map (warning_columns env) es),
              tb_chunks := tb_chunks db @ concat (map (chunk_columns env) es)\<rparr>
     \<and> (\<forall>e \<in> set es. storable env e \<and> reference_ok db e)"
proof (induction es arbitrary: db)
  case (Cons e es)
  then obtain db1 where e: "append_event env db e = Inr db1" and es: "fold_result (append_event env) db1 es = Inr db'"
    by (auto simp: and_then_Inr_iff)
  show ?case
    using append_event_Inr [OF e] Cons.IH [OF es] by (simp add: reference_ok_def)
qed simp

subsection \<open>The invariant of the log\<close>

definition event_typed :: "event \<Rightarrow> bool" where
  \<comment> \<open>the type invariants of an event's identifiers\<close>
  "event_typed e \<longleftrightarrow> event_id_ok (ev_id e) \<and> run_id_ok (ev_run e) \<and> event_sequence_ok (ev_sequence e)"

definition row_decodes :: "'j env \<Rightarrow> 'j event_row \<Rightarrow> event \<Rightarrow> bool" where
  "row_decodes env r e \<longleftrightarrow> raw_event r = Inr r \<and> decode_event env r = Inr e"

definition timeline_ok :: "'j env \<Rightarrow> 'j db \<Rightarrow> bool" where
  "timeline_ok env db \<longleftrightarrow>
     (\<forall>run. map er_sequence (run_events db run) = map int [1..<Suc (length (run_events db run))]
        \<and> sorted (map er_offset (run_events db run)))
     \<and> (\<forall>r \<in> set (tb_events db). er_sequence r < 2 ^ 63 \<and> 0 \<le> er_offset r \<and> er_offset r < 2 ^ 63
        \<and> (\<exists>e. row_decodes env r e))"

lemma row_decodes_columns:
  assumes "env_ok env" and "storable env e" and "event_ok e" and "event_typed e"
  shows "row_decodes env (event_columns env e) e"
proof -
  obtain j where j: "env_to_json env (ev_payload e) = Some j" using assms by (auto simp: storable_def)
  then have "env_from_json env j = Some (ev_payload e)" using assms by (simp add: env_ok_def)
  moreover have "event_sequence_new (sequence_get (ev_sequence e)) = Some (ev_sequence e)"
    using assms by (simp add: event_typed_def event_sequence_ok_def event_sequence_new_def)
  moreover have "event_id_from_str (env_uuid env) (event_id_text (env_uuid env) (ev_id e)) = Inr (ev_id e)"
    "run_id_from_str (env_uuid env) (run_id_text (env_uuid env) (ev_run e)) = Inr (ev_run e)"
    using assms record_id_roundtrips by (auto simp: env_ok_def event_typed_def)
  moreover have "uint (ev_schema_version e) < 65536" using uint_lt2p [of "ev_schema_version e"] by simp
  ultimately show ?thesis
    using assms(3) j
    by (cases e) (simp add: event_validate_Inr [THEN iffD2] row_decodes_def raw_event_def decode_event_def event_columns_def Let_def)
qed

lemma row_decodes_sequence:
  assumes "row_decodes env r e" and "er_sequence r < 2 ^ 63"
  shows "uint (sequence_get (ev_sequence e)) = er_sequence r"
proof -
  have "0 \<le> er_sequence r" and "sequence_get (ev_sequence e) = of_int (er_sequence r)"
    using assms(1) by (auto simp: row_decodes_def decode_event_def Let_def and_then_Inr_iff
        decode_u64_Inr_iff event_sequence_new_def split: if_splits)
  then show ?thesis using assms(2) by (simp add: uint_word_of_int)
qed

lemma run_events_sorted:
  assumes "timeline_ok env db"
  shows "strictly_sorted (map er_sequence (run_events db run))"
proof -
  have "map er_sequence (run_events db run) = map int [1..<Suc (length (run_events db run))]"
    using assms by (simp add: timeline_ok_def del: upt_Suc)
  moreover have "sorted_wrt (<) (map int [1..<Suc n])" for n
    by (simp add: sorted_wrt_map del: upt_Suc)
  ultimately show ?thesis by (simp add: strictly_sorted_def)
qed

lemma run_events_sort: "timeline_ok env db \<Longrightarrow> sort_key er_sequence (run_events db run) = run_events db run"
  using run_events_sorted [of env db run] by (simp add: sort_key_id_if_sorted strictly_sorted_iff)

lemma last_event_timeline:
  assumes "timeline_ok env db"
  shows "last_event db run = (if run_events db run = [] then None else Some (last (run_events db run)))"
  using run_events_sort [OF assms, of run]
  by (cases "run_events db run" rule: rev_cases) (simp_all add: last_event_def)

lemma last_sequence:
  assumes "timeline_ok env db" and "run_events db run \<noteq> []"
  shows "er_sequence (last (run_events db run)) = int (length (run_events db run))"
proof -
  have "last (map er_sequence (run_events db run)) = last (map int [1..<Suc (length (run_events db run))])"
    using assms(1) by (simp add: timeline_ok_def del: upt_Suc)
  then show ?thesis using assms(2) by (cases "run_events db run") (auto simp: last_map split: if_splits)
qed

lemma append_batch_Inr:
  assumes "append_event_batch_in env db es = Inr db'" and "es \<noteq> []"
  defines "run \<equiv> run_id_text (env_uuid env) (ev_run (hd es))"
  shows "\<forall>e \<in> set es. event_ok e \<and> ev_run e = ev_run (hd es)" and "follows None None es"
    and "\<exists>r. select_row rr_id run (tb_runs db) = Some r \<and> active_status (rr_status r)"
    and "\<exists>s. expected_sequence (last_event db run) = Inr s \<and> sequence_get (ev_sequence (hd es)) = s"
    and "check_offset (last_event db run) (hd es) = Inr ()"
    and "db' = db\<lparr>tb_events := tb_events db @ map (event_columns env) es,
              tb_warnings := tb_warnings db @ concat (map (warning_columns env) es),
              tb_chunks := tb_chunks db @ concat (map (chunk_columns env) es)\<rparr>"
    and "\<forall>e \<in> set es. storable env e \<and> reference_ok db e"
proof -
  from assms obtain r s where v: "validate_batch (env_uuid env) es = Inr ()"
    and r: "select_row rr_id run (tb_runs db) = Some r" "active_status (rr_status r)"
    and s: "expected_sequence (last_event db run) = Inr s" "sequence_get (ev_sequence (hd es)) = s"
    and o: "check_offset (last_event db run) (hd es) = Inr ()"
    and f: "fold_result (append_event env) db es = Inr db'"
    unfolding append_event_batch_in_def Let_def run_def
    by (auto simp: and_then_Inr_iff split: option.splits)
  show "\<forall>e \<in> set es. event_ok e \<and> ev_run e = ev_run (hd es)" "follows None None es"
    using v by (simp_all add: validate_batch_Inr_iff)
  show "\<exists>r. select_row rr_id run (tb_runs db) = Some r \<and> active_status (rr_status r)" using r by blast
  show "\<exists>s. expected_sequence (last_event db run) = Inr s \<and> sequence_get (ev_sequence (hd es)) = s"
    using s by blast
  show "check_offset (last_event db run) (hd es) = Inr ()" by (rule o)
  show "db' = db\<lparr>tb_events := tb_events db @ map (event_columns env) es,
              tb_warnings := tb_warnings db @ concat (map (warning_columns env) es),
              tb_chunks := tb_chunks db @ concat (map (chunk_columns env) es)\<rparr>"
    "\<forall>e \<in> set es. storable env e \<and> reference_ok db e"
    using append_events_Inr [OF f] by blast+
qed

lemma run_events_append:
  assumes "append_event_batch_in env db es = Inr db'" and "es \<noteq> []"
  shows "run_events db' run = run_events db run @
     (if run = run_id_text (env_uuid env) (ev_run (hd es)) then map (event_columns env) es else [])"
proof -
  have "\<forall>e \<in> set es. er_run (event_columns env e) = run_id_text (env_uuid env) (ev_run (hd es))"
    using append_batch_Inr(1) [OF assms] by (simp add: event_columns_def)
  then have "filter (\<lambda>r. er_run r = run) (map (event_columns env) es) =
      (if run = run_id_text (env_uuid env) (ev_run (hd es)) then map (event_columns env) es else [])"
    by (auto simp: filter_map comp_def filter_id_conv filter_empty_conv)
  then show ?thesis using append_batch_Inr(6) [OF assms] by (simp add: run_events_def)
qed

lemma expected_sequence_timeline:
  assumes "timeline_ok env db" and "expected_sequence (last_event db run) = Inr s"
  shows "unat s = Suc (length (run_events db run))"
proof (cases "run_events db run = []")
  case True
  then show ?thesis
    using assms last_event_timeline [OF assms(1), of run]
    by (auto simp: expected_sequence_def event_sequence_first_def)
next
  case False
  then have l: "er_sequence (last (run_events db run)) = int (length (run_events db run))"
    and m: "last (run_events db run) \<in> set (tb_events db)"
    using last_sequence [OF assms(1)] last_in_set [OF False] by (auto simp: run_events_def)
  then have "length (run_events db run) < 2 ^ 63"
    using assms(1) by (fastforce simp: timeline_ok_def)
  then show ?thesis
    using assms last_event_timeline [OF assms(1), of run] False l
    by (auto simp: expected_sequence_def and_then_Inr_iff decode_u64_Inr_iff checked_add_Some_iff unat_of_nat)
qed

lemma append_sequences:
  assumes t: "timeline_ok env db" and a: "append_event_batch_in env db es = Inr db'" "es \<noteq> []"
  defines "n \<equiv> length (run_events db (run_id_text (env_uuid env) (ev_run (hd es))))"
  shows "map (\<lambda>e. unat (sequence_get (ev_sequence e))) es = [Suc n..<Suc n + length es]"
proof -
  obtain m where m: "map (\<lambda>e. unat (sequence_get (ev_sequence e))) es = [m..<m + length es]"
    using append_batch_Inr(2) [OF a] by (auto simp: follows_def)
  have "unat (sequence_get (ev_sequence (hd es))) = m"
    using arg_cong [OF m, of hd] a(2) by (simp add: hd_map del: upt_Suc)
  moreover have "unat (sequence_get (ev_sequence (hd es))) = Suc n"
    using append_batch_Inr(4) [OF a] expected_sequence_timeline [OF t] by (auto simp: n_def)
  ultimately show ?thesis using m by simp
qed

end
