(* ===== verification/Store_Timeline.thy ===== *)
theory Store_Timeline
  imports Store_Events
begin

section \<open>Timelines\<close>

text \<open>
  Appending keeps the invariant of the event log, and reading it back gives the appended events.
  The locale \<open>paged_query\<close> is the contract of a bounded page query: its lemma
  \<open>read_pages_complete\<close> says that the loop its callers run visits every item once and in order.
\<close>

lemma check_offset_timeline:
  assumes "timeline_ok env db" and "check_offset (last_event db run) e = Inr ()" and "r \<in> set (run_events db run)"
  shows "er_offset r \<le> uint (as_nanoseconds (ev_offset e))"
proof -
  from assms(3) have ne: "run_events db run \<noteq> []" by auto
  let ?l = "last (run_events db run)"
  have s: "sorted (map er_offset (run_events db run))" using assms(1) by (simp add: timeline_ok_def)
  have "er_offset r \<le> er_offset ?l"
    using s assms(3) ne by (cases "run_events db run" rule: rev_cases) (auto simp: sorted_append)
  moreover have "0 \<le> er_offset ?l \<and> er_offset ?l < 2 ^ 63"
    using assms(1) last_in_set [OF ne] by (auto simp: timeline_ok_def run_events_def)
  moreover have "\<not> as_nanoseconds (ev_offset e) < of_int (er_offset ?l)"
    using assms(2) last_event_timeline [OF assms(1), of run] ne
    by (auto simp: check_offset_def and_then_Inr_iff decode_u64_Inr_iff)
  ultimately show ?thesis by (simp add: not_less word_le_def uint_word_of_int)
qed

lemma append_timeline_ok:
  assumes env: "env_ok env" and t: "timeline_ok env db" and typed: "\<forall>e \<in> set es. event_typed e"
    and a: "append_event_batch_in env db es = Inr db'"
  shows "timeline_ok env db'"
proof (cases "es = []")
  case True
  then show ?thesis using t a by (simp add: append_event_batch_in_def)
next
  case False
  let ?run = "run_id_text (env_uuid env) (ev_run (hd es))"
  note b = append_batch_Inr [OF a False]
  have seqs: "map er_sequence (map (event_columns env) es)
      = map int [Suc (length (run_events db ?run))..<Suc (length (run_events db ?run)) + length es]"
    using arg_cong [OF append_sequences [OF t a False], of "map int"] unfolding map_map comp_def
    by (simp only: event_columns_def event_row.simps uint_nat)
  have run: "map er_sequence (run_events db' run) = map int [1..<Suc (length (run_events db' run))]" for run
  proof (cases "run = ?run")
    case True
    have "[1..<Suc (length (run_events db ?run)) + length es] =
        [1..<Suc (length (run_events db ?run))] @ [Suc (length (run_events db ?run))..<Suc (length (run_events db ?run)) + length es]"
      by (rule upt_add_eq_append) simp
    then show ?thesis
      using seqs t True unfolding run_events_append [OF a False] timeline_ok_def
      by (simp del: upt_Suc)
  next
    case False
    then show ?thesis using t unfolding run_events_append [OF a \<open>es \<noteq> []\<close>] timeline_ok_def by (simp del: upt_Suc)
  qed
  have new: "sorted (map er_offset (map (event_columns env) es))"
    using b(2) by (auto simp: follows_def event_columns_def sorted_wrt_map word_le_def)
  have first: "as_nanoseconds (ev_offset (hd es)) \<le> as_nanoseconds (ev_offset e)" if "e \<in> set es" for e
    using b(2) that False by (cases es) (auto simp: follows_def)
  have offs: "sorted (map er_offset (run_events db' run))" for run
  proof (cases "run = ?run")
    case True
    have "er_offset r \<le> uint (as_nanoseconds (ev_offset e))"
      if "r \<in> set (run_events db ?run)" "e \<in> set es" for r e
      using check_offset_timeline [OF t b(5) that(1)] first [OF that(2)] by (simp add: word_le_def)
    then show ?thesis
      using True new t unfolding run_events_append [OF a False] timeline_ok_def
      by (simp add: sorted_append event_columns_def)
  next
    case False
    then show ?thesis using t unfolding run_events_append [OF a \<open>es \<noteq> []\<close>] timeline_ok_def by simp
  qed
  have "er_sequence r < 2 ^ 63 \<and> 0 \<le> er_offset r \<and> er_offset r < 2 ^ 63 \<and> (\<exists>e. row_decodes env r e)"
    if "r \<in> set (tb_events db')" for r
  proof (cases "r \<in> set (tb_events db)")
    case False
    note r = that
    have "tb_events db' = tb_events db @ map (event_columns env) es" using b(6) by simp
    then obtain e where e: "e \<in> set es" "r = event_columns env e" using r False by auto
    then show ?thesis
      using b(1,7) row_decodes_columns [OF env, of e] typed by (auto simp: storable_def event_columns_def)
  qed (use t in \<open>auto simp: timeline_ok_def\<close>)
  then show ?thesis unfolding timeline_ok_def using run offs by blast
qed

subsection \<open>Pages\<close>

locale paged_query =
  fixes ok :: "'d \<Rightarrow> bool"
    and items :: "'d \<Rightarrow> 'a list"
    and key :: "'a \<Rightarrow> 'k::linorder"
    and limit_ok :: "u32 \<Rightarrow> bool"
    and fetch :: "'d \<Rightarrow> 'k option \<Rightarrow> u32 \<Rightarrow> ('e, 'a list \<times> bool) result"
  assumes items_sorted: "ok d \<Longrightarrow> strictly_sorted (map key (items d))"
    and limit_positive: "limit_ok n \<Longrightarrow> n \<noteq> 0"
    and fetch_start: "ok d \<Longrightarrow> limit_ok n \<Longrightarrow>
      fetch d None n = Inr (take (unat n) (items d), unat n < length (items d))"
    and fetch_after: "ok d \<Longrightarrow> limit_ok n \<Longrightarrow> items d = xs @ x # ys \<Longrightarrow>
      fetch d (Some (key x)) n = Inr (take (unat n) ys, unat n < length ys)"
begin

fun read_pages :: "'d \<Rightarrow> u32 \<Rightarrow> nat \<Rightarrow> 'k option \<Rightarrow> ('e, 'a list) result option" where
  \<comment> \<open>the loop of the callers, with a bound on the number of pages\<close>
  "read_pages d n 0 after = None"
| "read_pages d n (Suc fuel) after = (case fetch d after n of
     Inl e \<Rightarrow> Some (Inl e)
   | Inr (page, further) \<Rightarrow>
       if further then map_option (map_ok (\<lambda>rest. page @ rest)) (read_pages d n fuel (Some (key (last page))))
       else Some (Inr page))"

lemma read_pages_after:
  assumes "ok d" and "limit_ok n"
  shows "items d = xs @ x # ys \<Longrightarrow> length ys < fuel \<Longrightarrow> read_pages d n fuel (Some (key x)) = Some (Inr ys)"
proof (induction fuel arbitrary: xs x ys)
  case (Suc fuel)
  have n: "unat n \<noteq> 0" using limit_positive [OF assms(2)] by (simp add: unat_eq_0)
  note f = fetch_after [OF assms Suc.prems(1)]
  show ?case
  proof (cases "unat n < length ys")
    case True
    let ?p = "take (unat n) ys"
    have p: "?p \<noteq> []" using n True by (cases ys) auto
    have "items d = (xs @ x # butlast ?p) @ last ?p # drop (unat n) ys"
      using Suc.prems(1) append_butlast_last_id [OF p]
      by (metis append.assoc append_Cons append_take_drop_id append_self_conv2)
    from Suc.IH [OF this] have "read_pages d n fuel (Some (key (last ?p))) = Some (Inr (drop (unat n) ys))"
      using Suc.prems(2) n True by simp
    then show ?thesis using True f by simp
  qed (use f in simp)
qed simp

lemma read_pages_complete:
  assumes "ok d" and "limit_ok n" and "length (items d) < fuel"
  shows "read_pages d n fuel None = Some (Inr (items d))"
proof -
  obtain f where fuel: "fuel = Suc f" using assms(3) by (cases fuel) auto
  have n: "unat n \<noteq> 0" using limit_positive [OF assms(2)] by (simp add: unat_eq_0)
  show ?thesis
  proof (cases "unat n < length (items d)")
    case True
    let ?p = "take (unat n) (items d)"
    have p: "?p \<noteq> []" using n True by (cases "items d") auto
    have "items d = butlast ?p @ last ?p # drop (unat n) (items d)"
      using append_butlast_last_id [OF p] by (metis append.assoc append_Cons append_take_drop_id append_self_conv2)
    from read_pages_after [OF assms(1,2) this, of f]
    have "read_pages d n f (Some (key (last ?p))) = Some (Inr (drop (unat n) (items d)))"
      using assms(3) fuel n True by simp
    then show ?thesis using True fetch_start [OF assms(1,2)] fuel by simp
  qed (use fetch_start [OF assms(1,2)] fuel in simp)
qed

end

definition timeline :: "'j env \<Rightarrow> 'j db \<Rightarrow> run_id \<Rightarrow> event list" where
  \<comment> \<open>the recorded events of a run\<close>
  "timeline env db run = (case map_result (decode_event env) (run_events db (run_id_text (env_uuid env) run)) of
     Inr es \<Rightarrow> es | Inl _ \<Rightarrow> [])"

lemma timeline_rows:
  assumes "timeline_ok env db"
  shows "list_all2 (row_decodes env) (run_events db (run_id_text (env_uuid env) run)) (timeline env db run)"
proof -
  let ?rows = "run_events db (run_id_text (env_uuid env) run)"
  have "\<forall>r \<in> set ?rows. \<exists>e. row_decodes env r e"
    using assms by (auto simp: timeline_ok_def run_events_def)
  moreover have "\<forall>r \<in> set rows. \<exists>e. row_decodes env r e \<Longrightarrow> \<exists>es. list_all2 (row_decodes env) rows es" for rows
    by (induction rows) (auto simp: list_all2_Cons1)
  ultimately obtain es where es: "list_all2 (row_decodes env) ?rows es" by blast
  then have "map_result (decode_event env) ?rows = Inr es"
    unfolding map_result_Inr_iff by (rule list_all2_mono) (simp add: row_decodes_def)
  then show ?thesis using es by (simp add: timeline_def)
qed

lemma timeline_sequences:
  assumes "timeline_ok env db"
  shows "map (\<lambda>e. unat (sequence_get (ev_sequence e))) (timeline env db run) = [1..<Suc (length (timeline env db run))]"
proof -
  let ?rows = "run_events db (run_id_text (env_uuid env) run)"
  have rows: "\<forall>r \<in> set ?rows. er_sequence r < 2 ^ 63"
    using assms by (auto simp: timeline_ok_def run_events_def)
  have "map (\<lambda>e. uint (sequence_get (ev_sequence e))) (timeline env db run) = map er_sequence ?rows"
    using timeline_rows [OF assms, of run] rows
    by (induction rule: list_all2_induct) (auto simp: row_decodes_sequence)
  also have "\<dots> = map int [1..<Suc (length ?rows)]" using assms by (simp add: timeline_ok_def del: upt_Suc)
  finally have "map nat (map (\<lambda>e. uint (sequence_get (ev_sequence e))) (timeline env db run))
      = map nat (map int [1..<Suc (length ?rows)])" by (rule arg_cong)
  moreover have "length ?rows = length (timeline env db run)"
    using timeline_rows [OF assms] by (rule list_all2_lengthD)
  ultimately show ?thesis unfolding map_map comp_def nat_uint_eq nat_int by (simp del: upt_Suc)
qed

lemma filter_after:
  "map key rows = map int [1..<Suc (length rows)] \<Longrightarrow> filter (\<lambda>r. key r > int c) rows = drop c rows"
proof (induction rows rule: rev_induct)
  case (snoc r rows)
  then have "map key rows = map int [1..<Suc (length rows)]" "key r = int (Suc (length rows))" by simp_all
  then show ?case using snoc.IH by auto
qed simp

lemma load_timeline_Inr:
  assumes t: "timeline_ok env db" and l: "limit \<noteq> 0" "limit \<le> MAX_TIMELINE_PAGE"
    and c: "(case after of None \<Rightarrow> 0 | Some s \<Rightarrow> sequence_get s) = cursor" "uint cursor < 2 ^ 63"
  shows "load_timeline env db run after limit =
    Inr \<lparr>tp_events = take (unat limit) (drop (unat cursor) (timeline env db run)),
         tp_has_more = unat limit < length (drop (unat cursor) (timeline env db run))\<rparr>"
proof -
  let ?rows = "run_events db (run_id_text (env_uuid env) run)"
  have "filter (\<lambda>r. er_sequence r > uint cursor) ?rows = drop (unat cursor) ?rows"
    using t unfolding uint_nat by (intro filter_after) (simp add: timeline_ok_def del: upt_Suc)
  moreover have "sort_key er_sequence (drop (unat cursor) ?rows) = drop (unat cursor) ?rows"
    using run_events_sorted [OF t] by (intro sort_key_id_if_sorted)
      (auto simp: strictly_sorted_iff drop_map [symmetric] intro: sorted_wrt_drop)
  moreover have "map_result (\<lambda>r. and_then (raw_event r) (decode_event env))
      (take (unat limit + 1) (drop (unat cursor) ?rows))
      = Inr (take (unat limit + 1) (drop (unat cursor) (timeline env db run)))"
    unfolding map_result_Inr_iff
    using timeline_rows [OF t, of run]
    by (intro list_all2_takeI list_all2_dropI) (auto elim!: list_all2_mono simp: row_decodes_def)
  ultimately show ?thesis
    using l c by (auto simp: load_timeline_def sql_u64_def Let_def min_def)
qed

definition fetch_timeline ::
    "'j env \<Rightarrow> 'j db \<times> run_id \<Rightarrow> event_sequence option \<Rightarrow> u32 \<Rightarrow> (store_error, event list \<times> bool) result" where
  "fetch_timeline env d after limit =
     map_ok (\<lambda>p. (tp_events p, tp_has_more p)) (load_timeline env (fst d) (snd d) after limit)"

interpretation timeline_pages: paged_query
  "\<lambda>d. timeline_ok env (fst d)" "\<lambda>d. timeline env (fst d) (snd d)" ev_sequence
  "\<lambda>n. n \<noteq> 0 \<and> n \<le> MAX_TIMELINE_PAGE" "fetch_timeline env" for env
proof
  fix d :: "'a db \<times> run_id" and n :: u32 and xs ys :: "event list" and x
  let ?t = "timeline env (fst d) (snd d)"
  assume ok: "timeline_ok env (fst d)"
  note seqs = timeline_sequences [OF ok, of "snd d"]
  have "sorted_wrt (<) (map (\<lambda>e. unat (sequence_get (ev_sequence e))) ?t)"
    unfolding seqs by (simp del: upt_Suc)
  then show "strictly_sorted (map ev_sequence ?t)"
    by (simp add: strictly_sorted_def sorted_wrt_map less_event_sequence_def word_less_nat_alt)
  assume n: "n \<noteq> 0 \<and> n \<le> MAX_TIMELINE_PAGE"
  show "fetch_timeline env d None n = Inr (take (unat n) ?t, unat n < length ?t)"
    using load_timeline_Inr [OF ok, of n None 0] n by (simp add: fetch_timeline_def)
  assume x: "?t = xs @ x # ys"
  have "unat (sequence_get (ev_sequence x)) = Suc (length xs)"
    using arg_cong [OF seqs, of "\<lambda>l. l ! length xs"] x by (simp add: nth_append del: upt_Suc)
  moreover have "uint (sequence_get (ev_sequence x)) < 2 ^ 63"
  proof -
    let ?rows = "run_events (fst d) (run_id_text (env_uuid env) (snd d))"
    have "length xs < length ?rows" "row_decodes env (?rows ! length xs) x"
      using list_all2_nthD2 [OF timeline_rows [OF ok, of "snd d"], of "length xs"]
        list_all2_lengthD [OF timeline_rows [OF ok, of "snd d"]] x by simp_all
    then obtain r where "r \<in> set (tb_events (fst d))" "row_decodes env r x"
      using nth_mem [of "length xs" ?rows] by (auto simp: run_events_def)
    then show ?thesis using ok row_decodes_sequence [of env r x] by (auto simp: timeline_ok_def)
  qed
  ultimately show "fetch_timeline env d (Some (ev_sequence x)) n = Inr (take (unat n) ys, unat n < length ys)"
    using load_timeline_Inr [OF ok, of n "Some (ev_sequence x)" "sequence_get (ev_sequence x)"] n x
    by (simp add: fetch_timeline_def)
qed simp

lemma append_then_timeline:
  assumes env: "env_ok env" and t: "timeline_ok env db" and typed: "\<forall>e \<in> set es. event_typed e"
    and a: "append_event_batch_in env db es = Inr db'" and ne: "es \<noteq> []"
  shows "timeline env db' (ev_run (hd es)) = timeline env db (ev_run (hd es)) @ es"
proof -
  let ?run = "run_id_text (env_uuid env) (ev_run (hd es))"
  have "map_result (decode_event env) (run_events db ?run) = Inr (timeline env db (ev_run (hd es)))"
    unfolding map_result_Inr_iff using timeline_rows [OF t]
    by (rule list_all2_mono) (simp add: row_decodes_def)
  moreover have "map_result (decode_event env) (map (event_columns env) es) = Inr es"
    unfolding map_result_Inr_iff list_all2_map1
    using append_batch_Inr(1,7) [OF a ne] typed row_decodes_columns [OF env]
    by (auto simp: row_decodes_def intro!: list.rel_refl_strong)
  ultimately have "map_result (decode_event env) (run_events db' ?run) = Inr (timeline env db (ev_run (hd es)) @ es)"
    unfolding run_events_append [OF a ne] by (auto simp: map_result_Inr_iff intro: list_all2_appendI)
  then show ?thesis by (simp add: timeline_def)
qed

end
