(* ===== verification/Store_Schema.thy ===== *)
theory Store_Schema
  imports Store_Tables
begin

section \<open>Referential integrity\<close>

text \<open>
  What the declarations of \<open>rewind-store/src/schema.rs\<close> guarantee of every committed state:
  primary keys are unique and foreign keys resolve.  Each single-row statement keeps it, so each
  store operation does.
\<close>

definition keys_ok :: "'j db \<Rightarrow> bool" where
  "keys_ok db \<longleftrightarrow> objects_table.unique db \<and> snapshots_table.unique db \<and> entries_table.unique db
     \<and> runs_table.unique db \<and> arguments_table.unique db \<and> parents_table.unique db
     \<and> events_table.unique db \<and> event_ids_table.unique db \<and> checkpoints_table.unique db
     \<and> chunks_table.unique db \<and> warnings_table.unique db"

definition references_ok :: "'j db \<Rightarrow> bool" where
  "references_ok db \<longleftrightarrow>
     se_snapshot ` set (tb_entries db) \<subseteq> sn_id ` set (tb_snapshots db)
     \<and> (\<Union>r \<in> set (tb_entries db). set_option (se_object r)) \<subseteq> ob_id ` set (tb_objects db)
     \<and> (\<Union>r \<in> set (tb_runs db). set_option (rr_initial r)) \<subseteq> sn_id ` set (tb_snapshots db)
     \<and> (\<Union>r \<in> set (tb_runs db). set_option (rr_final r)) \<subseteq> sn_id ` set (tb_snapshots db)
     \<and> ar_run ` set (tb_arguments db) \<subseteq> rr_id ` set (tb_runs db)
     \<and> pr_child ` set (tb_parents db) \<subseteq> rr_id ` set (tb_runs db)
     \<and> pr_parent ` set (tb_parents db) \<subseteq> rr_id ` set (tb_runs db)
     \<and> (\<lambda>r. (pr_parent r, pr_checkpoint r)) ` set (tb_parents db)
         \<subseteq> (\<lambda>k. (kr_run k, kr_id k)) ` set (tb_checkpoints db)
     \<and> er_run ` set (tb_events db) \<subseteq> rr_id ` set (tb_runs db)
     \<and> kr_run ` set (tb_checkpoints db) \<subseteq> rr_id ` set (tb_runs db)
     \<and> kr_snapshot ` set (tb_checkpoints db) \<subseteq> sn_id ` set (tb_snapshots db)
     \<and> tc_run ` set (tb_chunks db) \<subseteq> rr_id ` set (tb_runs db)
     \<and> tc_object ` set (tb_chunks db) \<subseteq> ob_id ` set (tb_objects db)
     \<and> wr_run ` set (tb_warnings db) \<subseteq> rr_id ` set (tb_runs db)
     \<and> list_all run_columns_ok (tb_runs db)"

definition schema_ok :: "'j db \<Rightarrow> bool" where
  "schema_ok db \<longleftrightarrow> keys_ok db \<and> references_ok db"

lemmas unique_defs = objects_table.unique_def snapshots_table.unique_def entries_table.unique_def
  runs_table.unique_def arguments_table.unique_def parents_table.unique_def events_table.unique_def
  event_ids_table.unique_def checkpoints_table.unique_def chunks_table.unique_def warnings_table.unique_def

lemma empty_db_ok: "schema_ok empty_db"
  by (simp add: schema_ok_def keys_ok_def references_ok_def unique_defs empty_db_def)

lemma if_Some_iff: "(if c then Some x else None) = Some y \<longleftrightarrow> c \<and> y = x"
  by auto

lemma references_subset: "references key k rows \<longleftrightarrow> set_option k \<subseteq> key ` set rows"
  by (cases k) (auto simp: references_def)

lemmas schema_defs = schema_ok_def keys_ok_def references_ok_def unique_defs run_references_ok_def
  references_subset if_Some_iff has_key_iff

lemma insert_object_schema: "insert_object r db = Some db' \<Longrightarrow> schema_ok db \<Longrightarrow> schema_ok db'"
  by (simp only: insert_object_def schema_defs) (simp add: subset_insertI2)

lemma insert_snapshot_schema: "insert_snapshot r db = Some db' \<Longrightarrow> schema_ok db \<Longrightarrow> schema_ok db'"
  by (simp only: insert_snapshot_def schema_defs) (simp add: subset_insertI2)

lemma insert_entry_schema: "insert_entry r db = Some db' \<Longrightarrow> schema_ok db \<Longrightarrow> schema_ok db'"
  by (simp only: insert_entry_def schema_defs) (simp add: subset_insertI2)

lemma insert_run_schema: "insert_run r db = Some db' \<Longrightarrow> schema_ok db \<Longrightarrow> schema_ok db'"
  by (simp only: insert_run_def schema_defs) (simp add: subset_insertI2)

lemma insert_argument_schema: "insert_argument r db = Some db' \<Longrightarrow> schema_ok db \<Longrightarrow> schema_ok db'"
  by (simp only: insert_argument_def schema_defs) (simp add: subset_insertI2)

lemma insert_parent_schema: "insert_parent r db = Some db' \<Longrightarrow> schema_ok db \<Longrightarrow> schema_ok db'"
  by (simp only: insert_parent_def schema_defs) (simp add: subset_insertI2)

lemma insert_event_schema: "insert_event env r db = Some db' \<Longrightarrow> schema_ok db \<Longrightarrow> schema_ok db'"
  by (simp only: insert_event_def schema_defs) (simp add: subset_insertI2)

lemma insert_checkpoint_schema: "insert_checkpoint r db = Some db' \<Longrightarrow> schema_ok db \<Longrightarrow> schema_ok db'"
  by (simp only: insert_checkpoint_def schema_defs) (simp add: subset_insertI2)

lemma insert_chunk_schema: "insert_chunk r db = Some db' \<Longrightarrow> schema_ok db \<Longrightarrow> schema_ok db'"
  by (simp only: insert_chunk_def schema_defs) (simp add: subset_insertI2)

lemma insert_warning_schema: "insert_warning r db = Some db' \<Longrightarrow> schema_ok db \<Longrightarrow> schema_ok db'"
  by (simp only: insert_warning_def schema_defs) (simp add: subset_insertI2)

lemmas insert_schema = insert_object_schema insert_snapshot_schema insert_entry_schema insert_run_schema
  insert_argument_schema insert_parent_schema insert_event_schema insert_checkpoint_schema
  insert_chunk_schema insert_warning_schema

lemma update_runs_schema:
  assumes "update_runs P g db = Some (db', n)" and "schema_ok db"
    and id: "\<And>r. rr_id (g r) = rr_id r"
  shows "schema_ok db'"
proof -
  let ?f = "\<lambda>r. if P r then g r else r"
  have new: "\<forall>r \<in> set (tb_runs db). P r \<longrightarrow> run_columns_ok (g r) \<and> run_references_ok (g r) db"
    and db': "db' = db\<lparr>tb_runs := map ?f (tb_runs db)\<rparr>"
    using assms(1) by (auto simp: update_runs_Some_iff)
  have keys: "map rr_id (map ?f (tb_runs db)) = map rr_id (tb_runs db)" by (simp add: id)
  then have ids: "rr_id ` set (map ?f (tb_runs db)) = rr_id ` set (tb_runs db)" by (metis list.set_map)
  have old: "list_all run_columns_ok (tb_runs db)"
    "(\<Union>r \<in> set (tb_runs db). set_option (rr_initial r)) \<subseteq> sn_id ` set (tb_snapshots db)"
    "(\<Union>r \<in> set (tb_runs db). set_option (rr_final r)) \<subseteq> sn_id ` set (tb_snapshots db)"
    using assms(2) by (simp_all add: schema_ok_def references_ok_def)
  have "list_all run_columns_ok (map ?f (tb_runs db))"
    using new old(1) by (auto simp: list_all_iff)
  moreover have "set_option (rr_initial (?f r)) \<subseteq> sn_id ` set (tb_snapshots db)
      \<and> set_option (rr_final (?f r)) \<subseteq> sn_id ` set (tb_snapshots db)" if "r \<in> set (tb_runs db)" for r
    using new old(2,3) that unfolding run_references_ok_def references_subset
    by (cases "P r") (simp_all add: UN_subset_iff)
  then have "(\<Union>r \<in> set (map ?f (tb_runs db)). set_option (rr_initial r)) \<subseteq> sn_id ` set (tb_snapshots db)"
    "(\<Union>r \<in> set (map ?f (tb_runs db)). set_option (rr_final r)) \<subseteq> sn_id ` set (tb_snapshots db)"
    unfolding UN_subset_iff set_map by blast+
  moreover have "distinct (map rr_id (map ?f (tb_runs db)))"
    unfolding keys using assms(2) by (simp add: schema_ok_def keys_ok_def unique_defs)
  ultimately show ?thesis
    using assms(2) ids unfolding db' schema_ok_def keys_ok_def references_ok_def unique_defs by simp
qed

end
