(* ===== verification/Store_Runs.thy ===== *)
theory Store_Runs
  imports Store_Timeline Store_Schema "HOL-Library.Product_Lexorder"
begin

section \<open>Run records\<close>

text \<open>
  \<open>rewind-store/src/run.rs\<close>: creating a run with its arguments and parent edge, the status
  transitions, atomic finalization with the terminal events, and reading runs back.
\<close>

record run_finish =
  rf_status :: run_status
  rf_finished_at :: timestamp
  rf_monotonic_duration :: monotonic_duration
  rf_final_snapshot :: "snapshot_id option"
  rf_exit_status :: "process_exit_status option"

fun encode_exit_status :: "process_exit_status option \<Rightarrow> string option \<times> int option" where
  "encode_exit_status None = (None, None)"
| "encode_exit_status (Some (ExitCode v)) = (Some ''code'', Some v)"
| "encode_exit_status (Some (ExitSignal v)) = (Some ''signal'', Some v)"
| "encode_exit_status (Some ExitUnknown) = (Some ''unknown'', None)"

definition decode_exit_status ::
    "string option \<Rightarrow> int option \<Rightarrow> (store_error, process_exit_status option) result" where
  "decode_exit_status kind v = (case (kind, v) of
       (None, None) \<Rightarrow> Inr None
     | (Some k, Some n) \<Rightarrow>
         if k = ''code'' then Inr (Some (ExitCode n))
         else if k = ''signal'' then Inr (Some (ExitSignal n))
         else Inl (InvalidEnum ''process exit status'' k)
     | (Some k, None) \<Rightarrow>
         if k = ''unknown'' then Inr (Some ExitUnknown) else Inl (InvalidEnum ''process exit status'' k)
     | (None, Some _) \<Rightarrow> Inl (InvalidEnum ''process exit status'' ''''))"

subsection \<open>Creation\<close>

lemma ancestor_rows_measure:
  fixes parents :: "parent_row list"
  shows "r \<in> set seen \<Longrightarrow>
      card ((set queue \<union> pr_parent ` set parents) - set seen)
        = card ((set (r # queue) \<union> pr_parent ` set parents) - set seen)"
    and "r \<notin> set seen \<Longrightarrow>
      card ((set (queue @ map pr_parent (filter P parents)) \<union> pr_parent ` set parents) - set (r # seen))
        < card ((set (r # queue) \<union> pr_parent ` set parents) - set seen)"
proof -
  assume "r \<in> set seen"
  then have "(set queue \<union> pr_parent ` set parents) - set seen = (set (r # queue) \<union> pr_parent ` set parents) - set seen"
    by auto
  then show "card ((set queue \<union> pr_parent ` set parents) - set seen)
        = card ((set (r # queue) \<union> pr_parent ` set parents) - set seen)" by (rule arg_cong)
next
  assume r: "r \<notin> set seen"
  have "(set (queue @ map pr_parent (filter P parents)) \<union> pr_parent ` set parents) - set (r # seen)
      \<subset> (set (r # queue) \<union> pr_parent ` set parents) - set seen" using r by auto
  then show "card ((set (queue @ map pr_parent (filter P parents)) \<union> pr_parent ` set parents) - set (r # seen))
        < card ((set (r # queue) \<union> pr_parent ` set parents) - set seen)" by (intro psubset_card_mono) auto
qed

function ancestor_rows :: "parent_row list \<Rightarrow> string list \<Rightarrow> string list \<Rightarrow> string list" where
  \<comment> \<open>\<open>WITH RECURSIVE .. UNION\<close>: the queue of new rows and the rows already produced\<close>
  "ancestor_rows parents seen [] = seen"
| "ancestor_rows parents seen (r # queue) =
     (if r \<in> set seen then ancestor_rows parents seen queue
      else ancestor_rows parents (r # seen)
             (queue @ map pr_parent (filter (\<lambda>p. pr_child p = r) parents)))"
  by pat_completeness auto
termination
proof (relation "measures [\<lambda>(parents, seen, queue). card ((set queue \<union> pr_parent ` set parents) - set seen),
    \<lambda>(parents, seen, queue). length queue]")
  fix parents :: "parent_row list" and seen :: "string list" and r and queue :: "string list"
  assume "r \<in> set seen"
  from ancestor_rows_measure(1) [OF this, of queue parents]
  show "((parents, seen, queue), (parents, seen, r # queue)) \<in>
    measures [\<lambda>(parents, seen, queue). card ((set queue \<union> pr_parent ` set parents) - set seen),
    \<lambda>(parents, seen, queue). length queue]"
    unfolding in_measures prod.case by simp
next
  fix parents :: "parent_row list" and seen :: "string list" and r and queue :: "string list"
  assume "r \<notin> set seen"
  from ancestor_rows_measure(2) [OF this, of queue "\<lambda>p. pr_child p = r" parents]
  show "((parents, r # seen, queue @ map pr_parent (filter (\<lambda>p. pr_child p = r) parents)), (parents, seen, r # queue)) \<in>
    measures [\<lambda>(parents, seen, queue). card ((set queue \<union> pr_parent ` set parents) - set seen),
    \<lambda>(parents, seen, queue). length queue]"
    unfolding in_measures prod.case by blast
qed simp

definition reject_parent_cycle :: "'j env \<Rightarrow> 'j db \<Rightarrow> run_id \<Rightarrow> run_id \<Rightarrow> (store_error, unit) result" where
  "reject_parent_cycle env db child parent =
     (let child_text = run_id_text (env_uuid env) child; parent_text = run_id_text (env_uuid env) parent in
      if child = parent then Inl (ParentCycle child_text parent_text)
      else if child_text \<in> set (ancestor_rows (tb_parents db) [] [parent_text])
      then Inl (ParentCycle child_text parent_text)
      else Inr ())"

definition run_columns :: "'j env \<Rightarrow> run \<Rightarrow> (store_error, run_row) result" where
  \<comment> \<open>the parameters of the \<open>INSERT\<close>\<close>
  "run_columns env r =
     (let (exit_kind, exit_value) = encode_exit_status (run_exit_status r) in
      and_then (transpose_result (map_option (\<lambda>d. sql_u64 ''run monotonic duration'' (as_nanoseconds d))
         (run_monotonic_duration r))) (\<lambda>duration.
        Inr \<lparr>rr_id = run_id_text (env_uuid env) (run_identity r),
             rr_branch = branch_id_text (env_uuid env) (run_branch r),
             rr_command = run_command r, rr_root = run_workspace_root r,
             rr_started = as_unix_milliseconds (run_started_at r),
             rr_finished = map_option as_unix_milliseconds (run_finished_at r),
             rr_duration = duration, rr_status = run_status_as_str (run_state r),
             rr_platform = platform_as_str (run_platform r),
             rr_input = input_policy_as_str (record_input (run_capture_policy r)),
             rr_environment = capture_environment (run_capture_policy r),
             rr_initial = map_option snapshot_id_text (run_initial_snapshot r),
             rr_final = map_option snapshot_id_text (run_final_snapshot r),
             rr_exit_kind = exit_kind, rr_exit_value = exit_value\<rparr>))"

fun insert_arguments :: "string \<Rightarrow> nat \<Rightarrow> string list \<Rightarrow> 'j db \<Rightarrow> (store_error, 'j db) result" where
  \<comment> \<open>the loop over \<open>arguments.iter().enumerate()\<close>\<close>
  "insert_arguments run position [] db = Inr db"
| "insert_arguments run position (argument # rest) db =
     and_then (sql_usize ''run argument position'' position) (\<lambda>i.
     and_then (ok_or (StoreDatabase ''insert run argument'')
       (insert_argument \<lparr>ar_run = run, ar_position = i, ar_value = argument\<rparr> db))
       (insert_arguments run (Suc position) rest))"

definition create_run_in :: "'j env \<Rightarrow> 'j db \<Rightarrow> run \<Rightarrow> (store_error, 'j db) result" where
  \<comment> \<open>the transaction of \<open>create_run\<close>\<close>
  "create_run_in env db r =
     (let run_text = run_id_text (env_uuid env) (run_identity r) in
      and_then (case run_parent_link r of None \<Rightarrow> Inr ()
                | Some parent \<Rightarrow> reject_parent_cycle env db (run_identity r) (parent_run parent)) (\<lambda>_.
      and_then (run_columns env r) (\<lambda>row.
      and_then (ok_or (StoreDatabase ''insert run'') (insert_run row db)) (\<lambda>db1.
      and_then (insert_arguments run_text 0 (run_arguments r) db1) (\<lambda>db2.
      case run_parent_link r of None \<Rightarrow> Inr db2
      | Some parent \<Rightarrow> ok_or (StoreDatabase ''insert run parent'')
          (insert_parent \<lparr>pr_child = run_text,
             pr_parent = run_id_text (env_uuid env) (parent_run parent),
             pr_checkpoint = checkpoint_id_text (env_uuid env) (parent_checkpoint parent)\<rparr> db2))))))"

definition create_run :: "'j env \<Rightarrow> 'j store \<Rightarrow> run \<Rightarrow> (store_error, 'j store) result" where
  "create_run env st r =
     (let run_text = run_id_text (env_uuid env) (run_identity r) in
      and_then (require_writer st ''create a run'') (\<lambda>_.
      and_then (map_err (\<lambda>_. InvalidRun run_text) (run_validate r)) (\<lambda>_.
      and_then (ensure (run_state r = Preparing) (InvalidRun run_text)) (\<lambda>_.
      and_then (ensure (is_str (run_workspace_root r)) (InvalidRun run_text)) (\<lambda>_.
        map_ok (\<lambda>db. st\<lparr>st_db := db\<rparr>) (create_run_in env (st_db st) r))))))"

subsection \<open>Transitions\<close>

definition missing_or_state_error :: "'j env \<Rightarrow> 'j db \<Rightarrow> run_id \<Rightarrow> store_error" where
  "missing_or_state_error env db run =
     (let run_text = run_id_text (env_uuid env) run in
      case select_row rr_id run_text (tb_runs db) of
        Some _ \<Rightarrow> InvalidRun run_text
      | None \<Rightarrow> StoreNotFound ''run'' run_text)"

definition mark_run_running :: "'j env \<Rightarrow> 'j store \<Rightarrow> run_id \<Rightarrow> snapshot_id \<Rightarrow> (store_error, 'j store) result" where
  "mark_run_running env st run initial_snapshot =
     and_then (require_writer st ''mark a run running'') (\<lambda>_.
     and_then (ok_or (StoreDatabase ''mark run running'')
       (update_runs (\<lambda>r. rr_id r = run_id_text (env_uuid env) run \<and> rr_status r = ''preparing'')
          (\<lambda>r. r\<lparr>rr_status := ''running'', rr_initial := Some (snapshot_id_text initial_snapshot)\<rparr>)
          (st_db st))) (\<lambda>(db, changed).
       if changed = 1 then Inr (st\<lparr>st_db := db\<rparr>)
       else Inl (missing_or_state_error env db run)))"

definition finish_columns :: "run_finish \<Rightarrow> int \<Rightarrow> run_row \<Rightarrow> run_row" where
  "finish_columns finish duration r =
     (let (exit_kind, exit_value) = encode_exit_status (rf_exit_status finish) in
      r\<lparr>rr_status := run_status_as_str (rf_status finish),
        rr_finished := Some (as_unix_milliseconds (rf_finished_at finish)),
        rr_duration := Some duration,
        rr_final := map_option snapshot_id_text (rf_final_snapshot finish),
        rr_exit_kind := exit_kind, rr_exit_value := exit_value\<rparr>)"

definition finish_run_in :: "'j env \<Rightarrow> 'j db \<Rightarrow> run_id \<Rightarrow> run_finish \<Rightarrow> (store_error, 'j db) result" where
  "finish_run_in env db run finish =
     (let run_text = run_id_text (env_uuid env) run in
      and_then (ensure (is_terminal (rf_status finish)) (InvalidRun run_text)) (\<lambda>_.
      and_then (ok_or (StoreNotFound ''run'' run_text) (select_row rr_id run_text (tb_runs db))) (\<lambda>row.
      and_then (parse_enum run_status_from_str ''run status'' (rr_status row)) (\<lambda>current.
      and_then (ensure (can_transition_to current (rf_status finish)) (InvalidRun run_text)) (\<lambda>_.
      and_then (sql_u64 ''run monotonic duration'' (as_nanoseconds (rf_monotonic_duration finish))) (\<lambda>duration.
      and_then (ok_or (StoreDatabase ''update finalized run'')
        (update_runs (\<lambda>r. rr_id r = run_text) (finish_columns finish duration) db)) (\<lambda>(db', _).
        Inr db')))))))"

definition finish_run :: "'j env \<Rightarrow> 'j store \<Rightarrow> run_id \<Rightarrow> run_finish \<Rightarrow> (store_error, 'j store) result" where
  "finish_run env st run finish =
     and_then (require_writer st ''finish a run'') (\<lambda>_.
       map_ok (\<lambda>db. st\<lparr>st_db := db\<rparr>) (finish_run_in env (st_db st) run finish))"

definition check_terminal_event :: "'j env \<Rightarrow> run_id \<Rightarrow> run_finish \<Rightarrow> event \<Rightarrow> (store_error, unit) result" where
  "check_terminal_event env run finish e = (case ev_payload e of
       RunCompleted status exit_status \<Rightarrow>
         ensure (ev_run e = run \<and> status = rf_status finish \<and> exit_status = rf_exit_status finish)
           (InvalidEvent (event_id_text (env_uuid env) (ev_id e)))
     | _ \<Rightarrow> Inl (InvalidEvent (event_id_text (env_uuid env) (ev_id e))))"

definition finish_run_with_events ::
    "'j env \<Rightarrow> 'j store \<Rightarrow> run_id \<Rightarrow> run_finish \<Rightarrow> event list \<Rightarrow> (store_error, 'j store) result" where
  "finish_run_with_events env st run finish events =
     and_then (require_writer st ''finish a run with terminal events'') (\<lambda>_.
     if events = [] then Inl EventOrder
     else and_then (check_terminal_event env run finish (last events)) (\<lambda>_.
       and_then (append_event_batch_in env (st_db st) events) (\<lambda>db1.
       map_ok (\<lambda>db. st\<lparr>st_db := db\<rparr>) (finish_run_in env db1 run finish))))"

subsection \<open>Reading\<close>

record raw_run =
  raw_row :: run_row
  raw_parent_run :: "string option"
  raw_parent_checkpoint :: "string option"

definition raw_run_of :: "'j db \<Rightarrow> run_row \<Rightarrow> raw_run" where
  \<comment> \<open>\<open>runs LEFT JOIN run_parents ON run_parents.child_run_id = runs.id\<close>\<close>
  "raw_run_of db r = (let p = select_row pr_child (rr_id r) (tb_parents db) in
     \<lparr>raw_row = r, raw_parent_run = map_option pr_parent p, raw_parent_checkpoint = map_option pr_checkpoint p\<rparr>)"

definition raw_run_get :: "string \<Rightarrow> raw_run \<Rightarrow> (store_error, raw_run) result" where
  \<comment> \<open>\<open>row.get\<close> reads the exit value as an \<open>i32\<close>\<close>
  "raw_run_get operation raw =
     map_ok (\<lambda>_. raw) (ensure (pred_option i32_range (rr_exit_value (raw_row raw))) (StoreDatabase operation))"

definition decode_parent :: "'j env \<Rightarrow> raw_run \<Rightarrow> (store_error, run_parent option) result" where
  "decode_parent env raw = (case (raw_parent_run raw, raw_parent_checkpoint raw) of
       (Some run, Some checkpoint) \<Rightarrow>
         and_then (parse_id (run_id_from_str (env_uuid env)) ''parent run ID'' run) (\<lambda>parent.
         and_then (parse_id (checkpoint_id_from_str (env_uuid env)) ''parent checkpoint ID'' checkpoint) (\<lambda>ck.
           Inr (Some \<lparr>parent_run = parent, parent_checkpoint = ck\<rparr>)))
     | (None, None) \<Rightarrow> Inr None
     | _ \<Rightarrow> Inl (InvalidRun (rr_id (raw_row raw))))"

definition decode_run :: "'j env \<Rightarrow> raw_run \<Rightarrow> string list \<Rightarrow> (store_error, run) result" where
  "decode_run env raw arguments =
     (let row = raw_row raw in
     and_then (parse_id (run_id_from_str (env_uuid env)) ''run ID'' (rr_id row)) (\<lambda>id.
     and_then (decode_parent env raw) (\<lambda>parent.
     and_then (transpose_result (map_option (decode_u64 ''run monotonic duration'') (rr_duration row))) (\<lambda>duration.
     and_then (parse_id (branch_id_from_str (env_uuid env)) ''branch ID'' (rr_branch row)) (\<lambda>branch.
     and_then (parse_enum run_status_from_str ''run status'' (rr_status row)) (\<lambda>status.
     and_then (parse_enum platform_from_str ''platform'' (rr_platform row)) (\<lambda>plat.
     and_then (parse_enum input_policy_from_str ''input recording policy'' (rr_input row)) (\<lambda>policy.
     and_then (transpose_result (map_option (parse_id snapshot_id_from_str ''initial snapshot ID'') (rr_initial row))) (\<lambda>initial.
     and_then (transpose_result (map_option (parse_id snapshot_id_from_str ''final snapshot ID'') (rr_final row))) (\<lambda>final.
     and_then (decode_exit_status (rr_exit_kind row) (rr_exit_value row)) (\<lambda>exit_status.
     let r = \<lparr>run_identity = id, run_branch = branch, run_parent_link = parent,
              run_command = rr_command row, run_arguments = arguments, run_workspace_root = rr_root row,
              run_started_at = Timestamp (rr_started row),
              run_finished_at = map_option Timestamp (rr_finished row),
              run_monotonic_duration = map_option MonotonicDuration duration,
              run_state = status, run_platform = plat,
              run_capture_policy = \<lparr>record_input = policy, capture_environment = rr_environment row\<rparr>,
              run_initial_snapshot = initial, run_final_snapshot = final, run_exit_status = exit_status\<rparr> in
     and_then (map_err (\<lambda>_. InvalidRun (run_id_text (env_uuid env) id)) (run_validate r)) (\<lambda>_.
       Inr r))))))))))))"

fun collect_arguments :: "'j env \<Rightarrow> (run_id \<Rightarrow> string list) \<Rightarrow> argument_row list
    \<Rightarrow> (store_error, run_id \<Rightarrow> string list) result" where
  \<comment> \<open>a run without arguments is absent from the source's map, here it has the empty list\<close>
  "collect_arguments env arguments [] = Inr arguments"
| "collect_arguments env arguments (r # rs) =
     and_then (parse_id (run_id_from_str (env_uuid env)) ''run ID'' (ar_run r)) (\<lambda>id.
     and_then (sql_usize ''run argument position'' (length (arguments id))) (\<lambda>expected.
     and_then (ensure (ar_position r = expected) (InvalidRun (ar_run r))) (\<lambda>_.
       collect_arguments env (arguments(id := arguments id @ [ar_value r])) rs)))"

definition load_arguments :: "'j env \<Rightarrow> 'j db \<Rightarrow> run_id option \<Rightarrow> (store_error, run_id \<Rightarrow> string list) result" where
  "load_arguments env db run =
     collect_arguments env (\<lambda>_. []) (sort_key (\<lambda>r. (ar_run r, ar_position r))
       (filter (\<lambda>r. case run of None \<Rightarrow> True | Some i \<Rightarrow> ar_run r = run_id_text (env_uuid env) i)
          (tb_arguments db)))"

definition load_run :: "'j env \<Rightarrow> 'j db \<Rightarrow> run_id \<Rightarrow> (store_error, run) result" where
  "load_run env db run =
     (let run_text = run_id_text (env_uuid env) run in
      and_then (transpose_result (map_option (\<lambda>r. raw_run_get ''load run'' (raw_run_of db r))
        (select_row rr_id run_text (tb_runs db)))) (\<lambda>found.
      and_then (ok_or (StoreNotFound ''run'' run_text) found) (\<lambda>raw.
      and_then (load_arguments env db (Some run)) (\<lambda>arguments.
        decode_run env raw (arguments run)))))"

fun decode_runs :: "'j env \<Rightarrow> (run_id \<Rightarrow> string list) \<Rightarrow> raw_run list \<Rightarrow> (store_error, run list) result" where
  "decode_runs env arguments [] = Inr []"
| "decode_runs env arguments (raw # rest) =
     and_then (parse_id (run_id_from_str (env_uuid env)) ''run ID'' (rr_id (raw_row raw))) (\<lambda>id.
     and_then (decode_run env raw (arguments id)) (\<lambda>r.
     and_then (decode_runs env (arguments(id := [])) rest) (\<lambda>rs.
       Inr (r # rs))))"

definition list_runs :: "'j env \<Rightarrow> 'j db \<Rightarrow> (store_error, run list) result" where
  "list_runs env db =
     and_then (map_result (\<lambda>r. raw_run_get ''read run listing'' (raw_run_of db r))
       (rev (sort_key (\<lambda>r. (rr_started r, rr_id r)) (tb_runs db)))) (\<lambda>raw_runs.
     and_then (load_arguments env db None) (\<lambda>arguments.
       decode_runs env arguments raw_runs))"

end
