(* ===== verification/Store_Lifecycle.thy ===== *)
theory Store_Lifecycle
  imports Store_Runs
begin

section \<open>The durable run lifecycle\<close>

text \<open>
  What the operations of \<open>Store_Runs\<close> keep and establish: ancestry stays acyclic, statuses move
  only along \<open>lifecycle\<close>, a finalized run is closed to further events and finalizations, and a
  created run reads back as it was written.
\<close>

subsection \<open>Exit results\<close>

lemma decode_encode_exit [simp]:
  "decode_exit_status (fst (encode_exit_status s)) (snd (encode_exit_status s)) = Inr s"
  by (cases s rule: encode_exit_status.cases) (simp_all add: decode_exit_status_def)

lemma encode_decode_exit:
  "decode_exit_status k v = Inr s \<Longrightarrow> encode_exit_status s = (k, v)"
  by (auto simp: decode_exit_status_def split: option.splits if_splits)

subsection \<open>Ancestry\<close>

definition parent_edges :: "parent_row list \<Rightarrow> (string \<times> string) set" where
  "parent_edges parents = (\<lambda>p. (pr_child p, pr_parent p)) ` set parents"

lemma ancestor_rows_sound:
  "x \<in> set (ancestor_rows parents seen queue) \<Longrightarrow>
     x \<in> set seen \<or> (\<exists>q \<in> set queue. (q, x) \<in> (parent_edges parents)\<^sup>*)"
proof (induction parents seen queue rule: ancestor_rows.induct)
  case (2 parents seen r queue)
  have step: "(r, y) \<in> parent_edges parents"
    if "y \<in> set (map pr_parent (filter (\<lambda>p. pr_child p = r) parents))" for y
    using that by (auto simp: parent_edges_def image_iff)
  show ?case
  proof (cases "r \<in> set seen")
    case True
    then show ?thesis using 2 by auto
  next
    case False
    then have "x \<in> set (r # seen) \<or>
       (\<exists>q \<in> set (queue @ map pr_parent (filter (\<lambda>p. pr_child p = r) parents)). (q, x) \<in> (parent_edges parents)\<^sup>*)"
      using 2 by simp
    then show ?thesis using step by (auto intro: converse_rtrancl_into_rtrancl)
  qed
qed simp

lemma ancestor_rows_closed:
  assumes "\<forall>s \<in> set seen. \<forall>y. (s, y) \<in> parent_edges parents \<longrightarrow> y \<in> set seen \<union> set queue"
  shows "set seen \<union> set queue \<subseteq> set (ancestor_rows parents seen queue)
    \<and> (\<forall>s \<in> set (ancestor_rows parents seen queue). \<forall>y. (s, y) \<in> parent_edges parents
         \<longrightarrow> y \<in> set (ancestor_rows parents seen queue))"
  using assms
proof (induction parents seen queue rule: ancestor_rows.induct)
  case (2 parents seen r queue)
  show ?case
  proof (cases "r \<in> set seen")
    case True
    then show ?thesis using 2 by auto
  next
    case False
    have "\<forall>s \<in> set (r # seen). \<forall>y. (s, y) \<in> parent_edges parents \<longrightarrow>
        y \<in> set (r # seen) \<union> set (queue @ map pr_parent (filter (\<lambda>p. pr_child p = r) parents))"
      using 2(3) by (auto simp: parent_edges_def)
    then show ?thesis using 2(2) False by auto
  qed
qed simp

lemma set_ancestor_rows: "set (ancestor_rows parents [] [r]) = {x. (r, x) \<in> (parent_edges parents)\<^sup>*}"
proof -
  have c: "r \<in> set (ancestor_rows parents [] [r])"
    "\<forall>s \<in> set (ancestor_rows parents [] [r]). \<forall>y. (s, y) \<in> parent_edges parents
         \<longrightarrow> y \<in> set (ancestor_rows parents [] [r])"
    using ancestor_rows_closed [of "[]" parents "[r]"] by auto
  have "x \<in> set (ancestor_rows parents [] [r])" if "(r, x) \<in> (parent_edges parents)\<^sup>*" for x
    using that by (induction rule: rtrancl_induct) (use c in auto)
  then show ?thesis using ancestor_rows_sound [of _ parents "[]" "[r]"] by auto
qed

lemma reject_parent_cycle_Inr_iff:
  assumes "uuid_lib_ok (env_uuid env)"
  shows "reject_parent_cycle env db child parent = Inr () \<longleftrightarrow>
    (run_id_text (env_uuid env) parent, run_id_text (env_uuid env) child) \<notin> (parent_edges (tb_parents db))\<^sup>*"
  using run_id_text_inj [OF assms, of child parent]
  by (auto simp: reject_parent_cycle_def Let_def set_ancestor_rows simp del: ancestor_rows.simps)

definition ancestry_ok :: "'j db \<Rightarrow> bool" where
  "ancestry_ok db \<longleftrightarrow> acyclic (parent_edges (tb_parents db))"

subsection \<open>Creation\<close>

definition argument_rows :: "string \<Rightarrow> nat \<Rightarrow> string list \<Rightarrow> argument_row list" where
  "argument_rows run n values =
     map (\<lambda>(i, v). \<lparr>ar_run = run, ar_position = int i, ar_value = v\<rparr>) (zip [n..<n + length values] values)"

lemma argument_rows_Cons:
  "argument_rows run n (v # vs) = \<lparr>ar_run = run, ar_position = int n, ar_value = v\<rparr> # argument_rows run (Suc n) vs"
  by (simp add: argument_rows_def upt_conv_Cons del: upt_Suc)

lemma insert_arguments_Inr:
  "insert_arguments run n values db = Inr db' \<Longrightarrow>
     db' = db\<lparr>tb_arguments := tb_arguments db @ argument_rows run n values\<rparr>
     \<and> (schema_ok db \<longrightarrow> schema_ok db')"
proof (induction run n "values" db rule: insert_arguments.induct)
  case (1 run n db)
  then show ?case by (simp add: argument_rows_def)
next
  case (2 run n v vs db)
  then obtain d where d: "insert_argument \<lparr>ar_run = run, ar_position = int n, ar_value = v\<rparr> db = Some d"
    "insert_arguments run (Suc n) vs d = Inr db'" by (auto simp: and_then_Inr_iff sql_usize_Inr_iff)
  have "sql_usize ''run argument position'' n = Inr (int n)"
    using 2(2) by (auto simp: and_then_Inr_iff sql_usize_Inr_iff)
  then have "db' = d\<lparr>tb_arguments := tb_arguments d @ argument_rows run (Suc n) vs\<rparr>
      \<and> (schema_ok d \<longrightarrow> schema_ok db')"
    using 2(1) d by simp
  moreover have "d = db\<lparr>tb_arguments := tb_arguments db @ [\<lparr>ar_run = run, ar_position = int n, ar_value = v\<rparr>]\<rparr>"
    using d(1) by (simp add: insert_argument_def if_Some_iff)
  ultimately show ?case using insert_argument_schema [OF d(1)] by (auto simp: argument_rows_Cons)
qed

definition parent_rows :: "'j env \<Rightarrow> run \<Rightarrow> parent_row list" where
  "parent_rows env r = (case run_parent_link r of None \<Rightarrow> []
     | Some p \<Rightarrow> [\<lparr>pr_child = run_id_text (env_uuid env) (run_identity r),
                   pr_parent = run_id_text (env_uuid env) (parent_run p),
                   pr_checkpoint = checkpoint_id_text (env_uuid env) (parent_checkpoint p)\<rparr>])"

lemma create_run_in_Inr:
  assumes "create_run_in env db r = Inr db'"
  shows "\<exists>row. run_columns env r = Inr row
    \<and> rr_id row \<notin> rr_id ` set (tb_runs db)
    \<and> db' = db\<lparr>tb_runs := tb_runs db @ [row],
              tb_arguments := tb_arguments db @ argument_rows (run_id_text (env_uuid env) (run_identity r)) 0 (run_arguments r),
              tb_parents := tb_parents db @ parent_rows env r\<rparr>
    \<and> (\<forall>p. run_parent_link r = Some p \<longrightarrow>
         reject_parent_cycle env db (run_identity r) (parent_run p) = Inr ())
    \<and> (schema_ok db \<longrightarrow> schema_ok db')"
proof -
  from assms obtain row db1 db2 where row: "run_columns env r = Inr row" and i: "insert_run row db = Some db1"
    and a: "insert_arguments (run_id_text (env_uuid env) (run_identity r)) 0 (run_arguments r) db1 = Inr db2"
    and c: "\<forall>p. run_parent_link r = Some p \<longrightarrow>
         reject_parent_cycle env db (run_identity r) (parent_run p) = Inr ()"
    and p: "(case run_parent_link r of None \<Rightarrow> Inr db2
      | Some parent \<Rightarrow> ok_or (StoreDatabase ''insert run parent'')
          (insert_parent \<lparr>pr_child = run_id_text (env_uuid env) (run_identity r),
             pr_parent = run_id_text (env_uuid env) (parent_run parent),
             pr_checkpoint = checkpoint_id_text (env_uuid env) (parent_checkpoint parent)\<rparr> db2)) = Inr db'"
    by (auto simp: create_run_in_def Let_def and_then_Inr_iff split: option.splits)
  have run: "db1 = db\<lparr>tb_runs := tb_runs db @ [row]\<rparr>" "rr_id row \<notin> rr_id ` set (tb_runs db)"
    using i by (simp_all add: insert_run_def if_Some_iff)
  note args = insert_arguments_Inr [OF a]
  have par: "db' = db2\<lparr>tb_parents := tb_parents db2 @ parent_rows env r\<rparr> \<and> (schema_ok db2 \<longrightarrow> schema_ok db')"
  proof (cases "run_parent_link r")
    case (Some q)
    then have q: "insert_parent \<lparr>pr_child = run_id_text (env_uuid env) (run_identity r),
             pr_parent = run_id_text (env_uuid env) (parent_run q),
             pr_checkpoint = checkpoint_id_text (env_uuid env) (parent_checkpoint q)\<rparr> db2 = Some db'"
      using p by simp
    then show ?thesis
      using insert_parent_schema [OF q] Some by (simp add: insert_parent_def if_Some_iff parent_rows_def)
  qed (use p in \<open>simp add: parent_rows_def\<close>)
  have schema: "schema_ok db \<longrightarrow> schema_ok db'" using args par insert_run_schema [OF i] by blast
  have "db' = db\<lparr>tb_runs := tb_runs db @ [row],
              tb_arguments := tb_arguments db @ argument_rows (run_id_text (env_uuid env) (run_identity r)) 0 (run_arguments r),
              tb_parents := tb_parents db @ parent_rows env r\<rparr>"
    using run(1) args par by simp
  then show ?thesis using row run(2) c schema by blast
qed

lemma create_run_ancestry:
  assumes "create_run_in env db r = Inr db'" and "uuid_lib_ok (env_uuid env)" and "ancestry_ok db"
  shows "ancestry_ok db'"
proof -
  obtain row where db': "db' = db\<lparr>tb_runs := tb_runs db @ [row],
              tb_arguments := tb_arguments db @ argument_rows (run_id_text (env_uuid env) (run_identity r)) 0 (run_arguments r),
              tb_parents := tb_parents db @ parent_rows env r\<rparr>"
    and c: "\<forall>p. run_parent_link r = Some p \<longrightarrow> reject_parent_cycle env db (run_identity r) (parent_run p) = Inr ()"
    using create_run_in_Inr [OF assms(1)] by blast
  show ?thesis
  proof (cases "run_parent_link r")
    case None
    then show ?thesis using assms(3) db' by (simp add: ancestry_ok_def parent_rows_def)
  next
    case (Some p)
    then have "parent_edges (tb_parents db') = insert (run_id_text (env_uuid env) (run_identity r),
        run_id_text (env_uuid env) (parent_run p)) (parent_edges (tb_parents db))"
      using db' by (simp add: parent_edges_def parent_rows_def)
    then show ?thesis
      using c Some assms(3) by (simp add: ancestry_ok_def acyclic_insert reject_parent_cycle_Inr_iff [OF assms(2)])
  qed
qed

subsection \<open>Reading a created run\<close>

definition run_typed :: "run \<Rightarrow> bool" where
  \<comment> \<open>the type invariants of a run's fields\<close>
  "run_typed r \<longleftrightarrow> run_id_ok (run_identity r) \<and> branch_id_ok (run_branch r)
     \<and> pred_option (\<lambda>p. run_id_ok (parent_run p) \<and> checkpoint_id_ok (parent_checkpoint p)) (run_parent_link r)
     \<and> pred_option snapshot_id_ok (run_initial_snapshot r) \<and> pred_option snapshot_id_ok (run_final_snapshot r)
     \<and> pred_option exit_status_ok (run_exit_status r)"

lemma collect_argument_rows:
  assumes "run_id_from_str (env_uuid env) run = Inr i"
  shows "values = [] \<or> length (args i) + length values \<le> 2 ^ 63 \<Longrightarrow>
    collect_arguments env args (argument_rows run (length (args i)) values) = Inr (args(i := args i @ values))"
proof (induction "values" arbitrary: args)
  case (Cons v vs)
  let ?args = "args(i := args i @ [v])"
  have "collect_arguments env ?args (argument_rows run (length (?args i)) vs) = Inr (?args(i := ?args i @ vs))"
    using Cons.prems by (intro Cons.IH) auto
  then show ?case using Cons.prems assms by (auto simp: argument_rows_Cons sql_usize_def fun_upd_def)
qed (simp add: argument_rows_def)

lemma argument_rows_sorted:
  "sort_key (\<lambda>r. (ar_run r, ar_position r)) (argument_rows run n values) = argument_rows run n values"
proof (rule sort_key_id_if_sorted)
  show "sorted (map (\<lambda>r. (ar_run r, ar_position r)) (argument_rows run n values))"
  proof (induction "values" arbitrary: n)
    case (Cons v vs)
    have "int n \<le> ar_position r \<and> ar_run r = run" if "r \<in> set (argument_rows run (Suc n) vs)" for r
      using that by (auto simp: argument_rows_def dest!: set_zip_leftD)
    then show ?case using Cons [of "Suc n"] by (auto simp: argument_rows_Cons)
  qed (simp add: argument_rows_def)
qed

lemma argument_rows_length:
  "insert_arguments run n values db = Inr db' \<Longrightarrow> values = [] \<or> n + length values \<le> 2 ^ 63"
proof (induction run n "values" db rule: insert_arguments.induct)
  case (2 run n v vs db)
  then show ?case by (cases vs) (auto simp: and_then_Inr_iff sql_usize_Inr_iff)
qed simp

lemma create_then_load:
  assumes env: "env_ok env" and s: "schema_ok (st_db st)" and typed: "run_typed r"
    and c: "create_run env st r = Inr st'"
  shows "load_run env (st_db st') (run_identity r) = Inr r"
proof -
  let ?t = "run_id_text (env_uuid env) (run_identity r)"
  have v: "run_ok r" "run_state r = Preparing"
    using c by (auto simp: create_run_def Let_def and_then_Inr_iff)
  then have act: "run_monotonic_duration r = None" "run_finished_at r = None" by (auto simp: run_ok_def)
  obtain db' where db': "create_run_in env (st_db st) r = Inr db'" "st_db st' = db'"
    using c by (auto simp: create_run_def Let_def and_then_Inr_iff map_ok_Inr_iff)
  obtain row where row: "run_columns env r = Inr row" and fresh: "rr_id row \<notin> rr_id ` set (tb_runs (st_db st))"
    and d: "db' = (st_db st)\<lparr>tb_runs := tb_runs (st_db st) @ [row],
              tb_arguments := tb_arguments (st_db st) @ argument_rows ?t 0 (run_arguments r),
              tb_parents := tb_parents (st_db st) @ parent_rows env r\<rparr>"
    using create_run_in_Inr [OF db'(1)] by blast
  obtain ek ev where e: "encode_exit_status (run_exit_status r) = (ek, ev)" by fastforce
  then have row_eq: "row = \<lparr>rr_id = ?t, rr_branch = branch_id_text (env_uuid env) (run_branch r),
             rr_command = run_command r, rr_root = run_workspace_root r,
             rr_started = as_unix_milliseconds (run_started_at r),
             rr_finished = None, rr_duration = None, rr_status = run_status_as_str Preparing,
             rr_platform = platform_as_str (run_platform r),
             rr_input = input_policy_as_str (record_input (run_capture_policy r)),
             rr_environment = capture_environment (run_capture_policy r),
             rr_initial = map_option snapshot_id_text (run_initial_snapshot r),
             rr_final = map_option snapshot_id_text (run_final_snapshot r),
             rr_exit_kind = ek, rr_exit_value = ev\<rparr>"
    using row act v by (simp add: run_columns_def)
  have id: "rr_id row = ?t" by (simp add: row_eq)
  have ids: "run_id_from_str (env_uuid env) ?t = Inr (run_identity r)"
    "branch_id_from_str (env_uuid env) (branch_id_text (env_uuid env) (run_branch r)) = Inr (run_branch r)"
    using env typed record_id_roundtrips by (auto simp: env_ok_def run_typed_def)
  have sel: "select_row rr_id ?t (tb_runs db') = Some row"
    using fresh id d select_row_None [of rr_id ?t "tb_runs (st_db st)"] by (simp add: select_row_append)
  have none: "?t \<notin> pr_child ` set (tb_parents (st_db st))" "?t \<notin> ar_run ` set (tb_arguments (st_db st))"
    using s fresh id unfolding schema_ok_def references_ok_def by auto
  then have par: "select_row pr_child ?t (tb_parents db') = select_row pr_child ?t (parent_rows env r)"
    using d select_row_None [of pr_child ?t "tb_parents (st_db st)"] by (simp add: select_row_append)
  have "filter (\<lambda>r. ar_run r = ?t) (tb_arguments (st_db st)) = []"
    using none by (auto simp: filter_empty_conv image_iff)
  moreover have "\<forall>a \<in> set (argument_rows ?t 0 (run_arguments r)). ar_run a = ?t"
    by (auto simp: argument_rows_def)
  ultimately have args: "filter (\<lambda>a. ar_run a = ?t) (tb_arguments db') = argument_rows ?t 0 (run_arguments r)"
    using d by (simp add: filter_id_conv)
  have "run_arguments r = [] \<or> length (run_arguments r) \<le> 2 ^ 63"
    using db'(1) argument_rows_length [of ?t 0 "run_arguments r"]
    by (auto simp: create_run_in_def Let_def and_then_Inr_iff)
  then have load: "load_arguments env db' (Some (run_identity r)) =
      Inr ((\<lambda>_. [])(run_identity r := run_arguments r))"
    using collect_argument_rows [OF ids(1), of "run_arguments r" "\<lambda>_. []"]
    by (auto simp: load_arguments_def args argument_rows_sorted)
  have parent: "decode_parent env (raw_run_of db' row) = Inr (run_parent_link r)"
  proof (cases "run_parent_link r")
    case (Some p)
    then have "run_id_from_str (env_uuid env) (run_id_text (env_uuid env) (parent_run p)) = Inr (parent_run p)"
      "checkpoint_id_from_str (env_uuid env) (checkpoint_id_text (env_uuid env) (parent_checkpoint p))
        = Inr (parent_checkpoint p)"
      using env typed record_id_roundtrips by (auto simp: env_ok_def run_typed_def)
    then show ?thesis using Some par id by (simp add: decode_parent_def raw_run_of_def parent_rows_def)
  qed (use par id in \<open>simp add: decode_parent_def raw_run_of_def parent_rows_def\<close>)
  have snaps: "transpose_result (map_option (parse_id snapshot_id_from_str k) (map_option snapshot_id_text x)) = Inr x"
    if "pred_option snapshot_id_ok x" for x k
    using that by (cases x) (simp_all add: parse_id_def snapshot_id_form.parse_display)
  have exit: "decode_exit_status ek ev = Inr (run_exit_status r)" "pred_option i32_range ev"
    using decode_encode_exit [of "run_exit_status r"] typed e
    by (auto simp: run_typed_def elim!: encode_exit_status.elims)
  have "decode_run env (raw_run_of db' row) (run_arguments r) = Inr r"
    using parent ids exit v act typed
    by (cases r; cases "run_capture_policy r") (simp add: decode_run_def raw_run_of_def row_eq snaps run_typed_def Let_def run_validate_Inr [THEN iffD2]
        run_status_from_str_def)
  moreover have "raw_run_get ''load run'' (raw_run_of db' row) = Inr (raw_run_of db' row)"
    using exit(2) by (simp add: raw_run_get_def raw_run_of_def Let_def row_eq)
  ultimately show ?thesis
    using sel load db'(2) by (simp add: load_run_def)
qed

subsection \<open>Transitions\<close>

definition status_of :: "'j db \<Rightarrow> string \<Rightarrow> string option" where
  "status_of db run = map_option rr_status (select_row rr_id run (tb_runs db))"

lemma status_of_update:
  assumes "\<And>r. rr_id (g r) = rr_id r"
  shows "status_of (db\<lparr>tb_runs := map (\<lambda>r. if P r then g r else r) (tb_runs db)\<rparr>) run =
    map_option (\<lambda>r. rr_status (if P r then g r else r)) (select_row rr_id run (tb_runs db))"
  by (simp add: status_of_def select_row_map assms option.map_comp comp_def)

lemma mark_run_running_Inr:
  assumes "mark_run_running env st run snap = Inr st'" and "schema_ok (st_db st)"
  defines "t \<equiv> run_id_text (env_uuid env) run"
  shows "st_writer st \<and> status_of (st_db st) t = Some ''preparing'' \<and> status_of (st_db st') t = Some ''running''
    \<and> (\<forall>u. u \<noteq> t \<longrightarrow> status_of (st_db st') u = status_of (st_db st) u)
    \<and> snapshot_id_text snap \<in> sn_id ` set (tb_snapshots (st_db st)) \<and> schema_ok (st_db st')
    \<and> (\<exists>rs. st' = st\<lparr>st_db := (st_db st)\<lparr>tb_runs := rs\<rparr>\<rparr>)"
proof -
  let ?P = "\<lambda>r. rr_id r = t \<and> rr_status r = ''preparing''"
  let ?g = "\<lambda>r. r\<lparr>rr_status := ''running'', rr_initial := Some (snapshot_id_text snap)\<rparr>"
  obtain db' where w: "st_writer st" and u: "update_runs ?P ?g (st_db st) = Some (db', 1)" and st': "st' = st\<lparr>st_db := db'\<rparr>"
    using assms(1) by (auto simp: mark_run_running_def and_then_Inr_iff t_def split: if_splits)
  have d: "db' = (st_db st)\<lparr>tb_runs := map (\<lambda>r. if ?P r then ?g r else r) (tb_runs (st_db st))\<rparr>"
    and n: "length (filter ?P (tb_runs (st_db st))) = 1"
    and ok: "\<forall>r \<in> set (tb_runs (st_db st)). ?P r \<longrightarrow> run_references_ok (?g r) (st_db st)"
    using u [unfolded update_runs_Some_iff] by auto
  have "distinct (map rr_id (tb_runs (st_db st)))" using assms(2) by (simp add: schema_ok_def keys_ok_def unique_defs)
  from n [unfolded filter_unique_key [OF this]] obtain r where
    r: "select_row rr_id t (tb_runs (st_db st)) = Some r" "rr_status r = ''preparing''"
    by (auto split: option.splits if_splits)
  then have "r \<in> set (tb_runs (st_db st))" "rr_id r = t" using select_row_Some by fastforce+
  then have snap: "snapshot_id_text snap \<in> sn_id ` set (tb_snapshots (st_db st))"
    using ok r by (auto simp: run_references_ok_def references_iff)
  have st: "status_of db' x = map_option (\<lambda>r. rr_status (if ?P r then ?g r else r)) (select_row rr_id x (tb_runs (st_db st)))" for x
    unfolding d by (rule status_of_update) simp
  have "status_of (st_db st') t = Some ''running''" using r \<open>rr_id r = t\<close> st by (simp add: st')
  moreover have "status_of (st_db st') x = status_of (st_db st) x" if "x \<noteq> t" for x
    using st [of x] that unfolding status_of_def st'
    by (cases "select_row rr_id x (tb_runs (st_db st))") (auto dest: select_row_Some)
  ultimately show ?thesis
    using w r snap update_runs_schema [OF u assms(2)] st' d by (auto simp: status_of_def)
qed

lemma finish_run_in_Inr:
  assumes "finish_run_in env db run finish = Inr db'" and "schema_ok db"
  defines "t \<equiv> run_id_text (env_uuid env) run"
  shows "is_terminal (rf_status finish)
    \<and> (\<exists>s. status_of db t = Some (run_status_as_str s) \<and> lifecycle s (rf_status finish))
    \<and> status_of db' t = Some (run_status_as_str (rf_status finish))
    \<and> (\<forall>u. u \<noteq> t \<longrightarrow> status_of db' u = status_of db u) \<and> schema_ok db'
    \<and> (\<exists>rs. db' = db\<lparr>tb_runs := rs\<rparr>)"
proof -
  let ?P = "\<lambda>r :: run_row. rr_id r = t"
  obtain row current duration n where
    fin: "is_terminal (rf_status finish)" and row: "select_row rr_id t (tb_runs db) = Some row"
    and cur: "run_status_from_str (rr_status row) = Inr current" and can: "can_transition_to current (rf_status finish)"
    and u: "update_runs ?P (finish_columns finish duration) db = Some (db', n)"
    using assms(1) by (auto simp: finish_run_in_def Let_def and_then_Inr_iff t_def)
  have id: "rr_id (finish_columns finish duration r) = rr_id r"
    and status: "rr_status (finish_columns finish duration r) = run_status_as_str (rf_status finish)" for r
    by (simp_all add: finish_columns_def split: prod.splits)
  have d: "db' = db\<lparr>tb_runs := map (\<lambda>r. if ?P r then finish_columns finish duration r else r) (tb_runs db)\<rparr>"
    using u [unfolded update_runs_Some_iff] by blast
  have st: "status_of db' x = map_option (\<lambda>r. rr_status (if ?P r then finish_columns finish duration r else r))
      (select_row rr_id x (tb_runs db))" for x
    unfolding d by (rule status_of_update) (rule id)
  have "status_of db' t = Some (run_status_as_str (rf_status finish))"
    using row st select_row_Some [OF row] by (simp add: status)
  moreover have "status_of db' x = status_of db x" if "x \<noteq> t" for x
    using st [of x] that unfolding status_of_def
    by (cases "select_row rr_id x (tb_runs db)") (auto dest: select_row_Some)
  moreover have "status_of db t = Some (run_status_as_str current)"
    using row run_status_form.display_parse [OF cur] by (simp add: status_of_def)
  ultimately show ?thesis
    using fin can update_runs_schema [OF u assms(2)] id d by (auto simp: lifecycle_iff)
qed

lemma active_status_iff: "active_status (run_status_as_str s) \<longleftrightarrow> \<not> is_terminal s"
  by (cases s) (simp_all add: active_status_def)

lemma closed_to_events:
  assumes "status_of db (run_id_text (env_uuid env) (ev_run (hd es))) = Some (run_status_as_str s)"
    and "is_terminal s" and "es \<noteq> []"
  shows "\<not> is_ok (append_event_batch_in env db es)"
proof
  assume "is_ok (append_event_batch_in env db es)"
  then obtain db' where "append_event_batch_in env db es = Inr db'" by (auto simp: is_ok_iff)
  from append_batch_Inr(3) [OF this assms(3)] show False
    using assms active_status_iff [of s] by (auto simp: status_of_def)
qed

lemma closed_to_finish:
  assumes "status_of db (run_id_text (env_uuid env) run) = Some (run_status_as_str s)" and "is_terminal s"
  shows "\<not> is_ok (finish_run_in env db run finish)"
proof
  assume "is_ok (finish_run_in env db run finish)"
  then obtain current where "can_transition_to current (rf_status finish)"
    "run_status_from_str (run_status_as_str s) = Inr current"
    using assms(1) by (auto simp: is_ok_iff finish_run_in_def Let_def and_then_Inr_iff status_of_def)
  then show False using terminal_stuck assms(2) by auto
qed

end
