(* ===== verification/Store_Snapshots.thy ===== *)
theory Store_Snapshots
  imports Store_Lifecycle
begin

section \<open>Stored snapshots and checkpoints\<close>

text \<open>
  \<open>rewind-store/src/snapshot.rs\<close>: persisting a canonical manifest after verifying its digest,
  reading it back with full revalidation, and committing a checkpoint with its snapshot and its
  timeline event in one transaction.
\<close>

subsection \<open>Snapshots\<close>

definition validate_snapshot :: "'j env \<Rightarrow> snapshot \<Rightarrow> (store_error, unit) result" where
  "validate_snapshot env s =
     and_then (ok_or (StoreSerialization ''snapshot manifest'') (env_manifest_json env (snapshot_content s))) (\<lambda>canonical.
       let actual = snapshot_id_digest (env_hash env) canonical in
       if actual \<noteq> snapshot_identity s then Inl (InvalidSnapshot (snapshot_id_text (snapshot_identity s)))
       else Inr ())"

fun sum_logical_bytes :: "u64 \<Rightarrow> snapshot_entry list \<Rightarrow> u64 option" where
  \<comment> \<open>\<open>try_fold\<close> with \<open>checked_add\<close> over the file sizes\<close>
  "sum_logical_bytes running_total [] = Some running_total"
| "sum_logical_bytes running_total (e # es) = (case entry_kind e of
       File _ byte_size _ \<Rightarrow>
         (case checked_add running_total byte_size of
            None \<Rightarrow> None | Some t \<Rightarrow> sum_logical_bytes t es)
     | Directory \<Rightarrow> sum_logical_bytes running_total es
     | Symlink _ \<Rightarrow> sum_logical_bytes running_total es)"

definition entry_columns :: "string \<Rightarrow> snapshot_entry \<Rightarrow> (store_error, entry_row) result" where
  \<comment> \<open>the parameters of the \<open>INSERT\<close> of one entry\<close>
  "entry_columns snapshot_text e =
     and_then (case entry_kind e of
         Directory \<Rightarrow> Inr (''directory'', None, None, False, 0)
       | File object_id byte_size executable \<Rightarrow>
           and_then (sql_u64 ''snapshot file size'' byte_size) (\<lambda>logical_size.
             Inr (''file'', Some (object_id_text object_id), None, executable, logical_size))
       | Symlink target \<Rightarrow> Inr (''symlink'', None, Some target, False, 0))
     (\<lambda>(kind, object_id, symlink_target, executable, logical_size).
       Inr \<lparr>se_snapshot = snapshot_text, se_path = entry_path e, se_kind = kind, se_object = object_id,
            se_target = symlink_target, se_executable = executable,
            se_mode = uint (permission_bits (entry_permissions e)), se_logical_size = logical_size\<rparr>)"

definition store_entry :: "string \<Rightarrow> 'j db \<Rightarrow> snapshot_entry \<Rightarrow> (store_error, 'j db) result" where
  "store_entry snapshot_text db e =
     and_then (entry_columns snapshot_text e) (\<lambda>row.
       ok_or (StoreDatabase ''insert snapshot entry'') (insert_entry row db))"

definition decode_entry_kind ::
    "string \<Rightarrow> entry_row \<Rightarrow> u64 \<Rightarrow> u64 \<Rightarrow> (store_error, snapshot_entry_kind \<times> u64) result" where
  \<comment> \<open>the match on the columns; the last argument is the running byte total, returned updated\<close>
  "decode_entry_kind snapshot_text raw byte_size logical_bytes =
     (if se_kind raw = ''directory'' \<and> se_object raw = None \<and> se_target raw = None
         \<and> \<not> se_executable raw \<and> byte_size = 0
      then Inr (Directory, logical_bytes)
      else if se_kind raw = ''file'' \<and> se_object raw \<noteq> None \<and> se_target raw = None
      then and_then (ok_or (InvalidSnapshot snapshot_text) (checked_add logical_bytes byte_size)) (\<lambda>t.
           and_then (parse_id object_id_from_str ''object ID'' (the (se_object raw))) (\<lambda>object_id.
             Inr (File object_id byte_size (se_executable raw), t)))
      else if se_kind raw = ''symlink'' \<and> se_object raw = None \<and> se_target raw \<noteq> None
         \<and> \<not> se_executable raw \<and> byte_size = 0
      then Inr (Symlink (the (se_target raw)), logical_bytes)
      else Inl (InvalidSnapshot snapshot_text))"

definition decode_entry_row ::
    "string \<Rightarrow> snapshot_entry list \<times> u64 \<Rightarrow> entry_row \<Rightarrow> (store_error, snapshot_entry list \<times> u64) result" where
  \<comment> \<open>one round of the loop of \<open>load_snapshot_from\<close>: the entries so far and the byte total\<close>
  "decode_entry_row snapshot_text acc raw =
     (let (entries, logical_bytes) = acc in
     and_then (ensure (0 \<le> se_mode raw \<and> se_mode raw < 65536) (InvalidSnapshot snapshot_text)) (\<lambda>_.
     and_then (map_err (\<lambda>_. InvalidSnapshot snapshot_text) (permissions_new (of_int (se_mode raw)))) (\<lambda>permissions.
     and_then (decode_u64 ''snapshot entry logical size'' (se_logical_size raw)) (\<lambda>byte_size.
     and_then (decode_entry_kind snapshot_text raw byte_size logical_bytes) (\<lambda>(kind, logical_bytes').
     and_then (map_err (\<lambda>_. InvalidSnapshot snapshot_text) (snapshot_path_from_str (se_path raw))) (\<lambda>path.
       Inr (entries @ [\<lparr>entry_path = path, entry_kind = kind, entry_permissions = permissions\<rparr>],
            logical_bytes')))))))"

definition load_snapshot_from :: "'j env \<Rightarrow> 'j db \<Rightarrow> snapshot_id \<Rightarrow> (store_error, snapshot) result" where
  "load_snapshot_from env db i =
     (let snapshot_text = snapshot_id_text i in
     case select_row sn_id snapshot_text (tb_snapshots db) of
       None \<Rightarrow> Inl (StoreNotFound ''snapshot'' snapshot_text)
     | Some metadata \<Rightarrow>
        and_then (ensure (0 \<le> sn_schema_version metadata \<and> sn_schema_version metadata < 65536)
          (StoreDatabase ''load snapshot metadata'')) (\<lambda>_.
        and_then (fold_result (decode_entry_row snapshot_text) ([], 0)
          (sort_key se_path (filter (\<lambda>r. se_snapshot r = snapshot_text) (tb_entries db)))) (\<lambda>(entries, logical_bytes).
        and_then (ensure (int (length entries) < 2 ^ 63 \<and> int (length entries) = sn_entry_count metadata)
          (InvalidSnapshot snapshot_text)) (\<lambda>_.
        and_then (sql_u64 ''snapshot logical bytes'' logical_bytes) (\<lambda>bytes.
        and_then (ensure (bytes = sn_logical_bytes metadata) (InvalidSnapshot snapshot_text)) (\<lambda>_.
        and_then (map_err (\<lambda>_. InvalidSnapshot snapshot_text)
          (from_canonical_entries (of_int (sn_schema_version metadata)) entries)) (\<lambda>manifest.
        let s = \<lparr>snapshot_identity = i, snapshot_content = manifest\<rparr> in
        and_then (validate_snapshot env s) (\<lambda>_. Inr s))))))))"

definition insert_snapshot_or_ignore :: "snapshot_row \<Rightarrow> 'j db \<Rightarrow> ('j db \<times> nat) option" where
  \<comment> \<open>\<open>INSERT .. ON CONFLICT(id) DO NOTHING\<close> with the number of inserted rows\<close>
  "insert_snapshot_or_ignore r db =
     (if has_key sn_id (sn_id r) (tb_snapshots db)
      then if length (sn_id r) = 64 \<and> 1 \<le> sn_schema_version r \<and> 0 \<le> sn_entry_count r
              \<and> 0 \<le> sn_logical_bytes r then Some (db, 0) else None
      else map_option (\<lambda>d. (d, 1)) (insert_snapshot r db))"

definition store_snapshot_in :: "'j env \<Rightarrow> 'j db \<Rightarrow> snapshot \<Rightarrow> timestamp \<Rightarrow> (store_error, 'j db) result" where
  "store_snapshot_in env db s created_at =
     (let snapshot_text = snapshot_id_text (snapshot_identity s);
          entries = manifest_entries (snapshot_content s) in
     and_then (sql_usize ''snapshot entry count'' (length entries)) (\<lambda>entry_count.
     and_then (ok_or (StoreNumericRange ''snapshot logical bytes'') (sum_logical_bytes 0 entries)) (\<lambda>logical_bytes.
     and_then (sql_u64 ''snapshot logical bytes'' logical_bytes) (\<lambda>bytes.
     and_then (ok_or (StoreDatabase ''insert snapshot'')
       (insert_snapshot_or_ignore
          \<lparr>sn_id = snapshot_text, sn_schema_version = uint (manifest_schema_version (snapshot_content s)),
           sn_entry_count = entry_count, sn_logical_bytes = bytes,
           sn_created = as_unix_milliseconds created_at\<rparr> db)) (\<lambda>(db1, inserted).
       if inserted = 0 then
         and_then (load_snapshot_from env db1 (snapshot_identity s)) (\<lambda>existing.
           if existing \<noteq> s then Inl (InvalidSnapshot snapshot_text) else Inr db1)
       else fold_result (store_entry snapshot_text) db1 entries)))))"

definition store_snapshot :: "'j env \<Rightarrow> 'j store \<Rightarrow> snapshot \<Rightarrow> timestamp \<Rightarrow> (store_error, 'j store) result" where
  "store_snapshot env st s created_at =
     and_then (require_writer st ''store a snapshot'') (\<lambda>_.
     and_then (validate_snapshot env s) (\<lambda>_.
       map_ok (\<lambda>db. st\<lparr>st_db := db\<rparr>) (store_snapshot_in env (st_db st) s created_at)))"

definition load_snapshot :: "'j env \<Rightarrow> 'j store \<Rightarrow> snapshot_id \<Rightarrow> (store_error, snapshot) result" where
  "load_snapshot env st i = load_snapshot_from env (st_db st) i"

subsection \<open>Checkpoints\<close>

definition validate_checkpoint_snapshot :: "'j env \<Rightarrow> checkpoint \<Rightarrow> snapshot \<Rightarrow> (store_error, unit) result" where
  "validate_checkpoint_snapshot env c s =
     (let checkpoint_text = checkpoint_id_text (env_uuid env) (ck_id c) in
     and_then (map_err (\<lambda>_. InvalidCheckpoint checkpoint_text) (checkpoint_validate c)) (\<lambda>_.
     and_then (ensure (ck_snapshot c = snapshot_identity s) (InvalidCheckpoint checkpoint_text)) (\<lambda>_.
       validate_snapshot env s)))"

definition set_run_initial :: "'j env \<Rightarrow> 'j db \<Rightarrow> run_id \<Rightarrow> snapshot_id \<Rightarrow> (store_error, 'j db) result" where
  \<comment> \<open>\<open>set_run_snapshot\<close> for the column \<open>initial_snapshot_id\<close>\<close>
  "set_run_initial env db run i =
     and_then (ok_or (StoreDatabase ''link checkpoint snapshot to run'')
       (update_runs (\<lambda>r. rr_id r = run_id_text (env_uuid env) run
            \<and> (rr_initial r = None \<or> rr_initial r = Some (snapshot_id_text i)))
          (\<lambda>r. r\<lparr>rr_initial := Some (snapshot_id_text i)\<rparr>) db)) (\<lambda>(db', changed).
       if changed = 1 then Inr db' else Inl (InvalidCheckpoint (snapshot_id_text i)))"

definition set_run_final :: "'j env \<Rightarrow> 'j db \<Rightarrow> run_id \<Rightarrow> snapshot_id \<Rightarrow> (store_error, 'j db) result" where
  \<comment> \<open>\<open>set_run_snapshot\<close> for the column \<open>final_snapshot_id\<close>\<close>
  "set_run_final env db run i =
     and_then (ok_or (StoreDatabase ''link checkpoint snapshot to run'')
       (update_runs (\<lambda>r. rr_id r = run_id_text (env_uuid env) run
            \<and> (rr_final r = None \<or> rr_final r = Some (snapshot_id_text i)))
          (\<lambda>r. r\<lparr>rr_final := Some (snapshot_id_text i)\<rparr>) db)) (\<lambda>(db', changed).
       if changed = 1 then Inr db' else Inl (InvalidCheckpoint (snapshot_id_text i)))"

definition commit_checkpoint_in :: "'j env \<Rightarrow> 'j db \<Rightarrow> checkpoint \<Rightarrow> snapshot \<Rightarrow> (store_error, 'j db) result" where
  "commit_checkpoint_in env db c s =
     and_then (store_snapshot_in env db s (ck_created_at c)) (\<lambda>db1.
     and_then (sql_u64 ''checkpoint sequence'' (sequence_get (ck_sequence c))) (\<lambda>sequence.
     and_then (sql_u64 ''checkpoint monotonic offset'' (as_nanoseconds (ck_offset c))) (\<lambda>offset.
     and_then (ok_or (StoreDatabase ''insert checkpoint'')
       (insert_checkpoint \<lparr>kr_id = checkpoint_id_text (env_uuid env) (ck_id c),
          kr_run = run_id_text (env_uuid env) (ck_run c), kr_sequence = sequence, kr_label = ck_label c,
          kr_reason = checkpoint_reason_as_str (ck_reason c), kr_snapshot = snapshot_id_text (ck_snapshot c),
          kr_created = as_unix_milliseconds (ck_created_at c), kr_offset = offset\<rparr> db1)) (\<lambda>db2.
       case ck_reason c of
         ReasonInitial \<Rightarrow> set_run_initial env db2 (ck_run c) (ck_snapshot c)
       | ReasonFinal \<Rightarrow> set_run_final env db2 (ck_run c) (ck_snapshot c)
       | _ \<Rightarrow> Inr db2))))"

definition commit_checkpoint :: "'j env \<Rightarrow> 'j store \<Rightarrow> checkpoint \<Rightarrow> snapshot \<Rightarrow> (store_error, 'j store) result" where
  "commit_checkpoint env st c s =
     and_then (require_writer st ''commit a checkpoint'') (\<lambda>_.
     and_then (validate_checkpoint_snapshot env c s) (\<lambda>_.
       map_ok (\<lambda>db. st\<lparr>st_db := db\<rparr>) (commit_checkpoint_in env (st_db st) c s)))"

definition event_describes_checkpoint :: "event \<Rightarrow> checkpoint \<Rightarrow> bool" where
  "event_describes_checkpoint e c \<longleftrightarrow> ev_run e = ck_run c \<and> ev_sequence e = ck_sequence c
     \<and> ev_wall_clock e = ck_created_at c \<and> ev_offset e = ck_offset c
     \<and> (case ev_payload e of
          CheckpointCommitted checkpoint_id snapshot_id \<Rightarrow> checkpoint_id = ck_id c \<and> snapshot_id = ck_snapshot c
        | _ \<Rightarrow> False)"

definition commit_checkpoint_with_event ::
    "'j env \<Rightarrow> 'j store \<Rightarrow> checkpoint \<Rightarrow> snapshot \<Rightarrow> event \<Rightarrow> (store_error, 'j store) result" where
  "commit_checkpoint_with_event env st c s e =
     and_then (require_writer st ''commit a checkpoint event'') (\<lambda>_.
     and_then (validate_checkpoint_snapshot env c s) (\<lambda>_.
     and_then (ensure (event_describes_checkpoint e c)
       (InvalidCheckpoint (checkpoint_id_text (env_uuid env) (ck_id c)))) (\<lambda>_.
     and_then (commit_checkpoint_in env (st_db st) c s) (\<lambda>db1.
       map_ok (\<lambda>db. st\<lparr>st_db := db\<rparr>) (append_event_batch_in env db1 [e])))))"

definition decode_checkpoint :: "'j env \<Rightarrow> checkpoint_row \<Rightarrow> (store_error, checkpoint) result" where
  "decode_checkpoint env raw =
     and_then (decode_u64 ''checkpoint sequence'' (kr_sequence raw)) (\<lambda>sequence_value.
     and_then (ok_or (InvalidCheckpoint (kr_id raw)) (event_sequence_new sequence_value)) (\<lambda>sequence.
     and_then (parse_id (checkpoint_id_from_str (env_uuid env)) ''checkpoint ID'' (kr_id raw)) (\<lambda>id.
     and_then (parse_id (run_id_from_str (env_uuid env)) ''checkpoint run ID'' (kr_run raw)) (\<lambda>run.
     and_then (parse_enum checkpoint_reason_from_str ''checkpoint reason'' (kr_reason raw)) (\<lambda>reason.
     and_then (parse_id snapshot_id_from_str ''checkpoint snapshot ID'' (kr_snapshot raw)) (\<lambda>s.
     and_then (decode_u64 ''checkpoint monotonic offset'' (kr_offset raw)) (\<lambda>offset.
     let c = \<lparr>ck_id = id, ck_run = run, ck_sequence = sequence, ck_label = kr_label raw, ck_reason = reason,
              ck_snapshot = s, ck_created_at = Timestamp (kr_created raw), ck_offset = MonotonicDuration offset\<rparr> in
     and_then (map_err (\<lambda>_. InvalidCheckpoint (checkpoint_id_text (env_uuid env) id)) (checkpoint_validate c)) (\<lambda>_.
       Inr c))))))))"

definition load_checkpoint :: "'j env \<Rightarrow> 'j db \<Rightarrow> checkpoint_id \<Rightarrow> (store_error, checkpoint) result" where
  "load_checkpoint env db i =
     (let checkpoint_text = checkpoint_id_text (env_uuid env) i in
      case select_row kr_id checkpoint_text (tb_checkpoints db) of
        None \<Rightarrow> Inl (StoreNotFound ''checkpoint'' checkpoint_text)
      | Some raw \<Rightarrow> decode_checkpoint env raw)"

definition load_checkpoints :: "'j env \<Rightarrow> 'j db \<Rightarrow> run_id \<Rightarrow> (store_error, checkpoint list) result" where
  "load_checkpoints env db run =
     map_result (decode_checkpoint env)
       (sort_key kr_sequence (filter (\<lambda>r. kr_run r = run_id_text (env_uuid env) run) (tb_checkpoints db)))"

subsection \<open>Storing and reading a snapshot\<close>

definition entry_row_of :: "string \<Rightarrow> snapshot_entry \<Rightarrow> entry_row" where
  "entry_row_of t e = \<lparr>se_snapshot = t, se_path = entry_path e,
     se_kind = (case entry_kind e of Directory \<Rightarrow> ''directory'' | File _ _ _ \<Rightarrow> ''file'' | Symlink _ \<Rightarrow> ''symlink''),
     se_object = (case entry_kind e of File i _ _ \<Rightarrow> Some (object_id_text i) | _ \<Rightarrow> None),
     se_target = (case entry_kind e of Symlink target \<Rightarrow> Some target | _ \<Rightarrow> None),
     se_executable = (case entry_kind e of File _ _ x \<Rightarrow> x | _ \<Rightarrow> False),
     se_mode = uint (permission_bits (entry_permissions e)),
     se_logical_size = (case entry_kind e of File _ n _ \<Rightarrow> uint n | _ \<Rightarrow> 0)\<rparr>"

lemma entry_row_of_simps [simp]:
  "se_snapshot (entry_row_of t e) = t" "se_path (entry_row_of t e) = entry_path e"
  by (simp_all add: entry_row_of_def)

lemma entry_columns_Inr: "entry_columns t e = Inr row \<Longrightarrow> row = entry_row_of t e"
  by (auto simp: entry_columns_def entry_row_of_def and_then_Inr_iff sql_u64_Inr_iff split: snapshot_entry_kind.splits)

definition entry_typed :: "snapshot_entry \<Rightarrow> bool" where
  \<comment> \<open>the type invariants of an entry's fields\<close>
  "entry_typed e \<longleftrightarrow> path_ok (entry_path e) \<and> permissions_ok (entry_permissions e)
     \<and> (case entry_kind e of File i _ _ \<Rightarrow> object_id_ok i | _ \<Rightarrow> True)"

definition snapshot_typed :: "snapshot \<Rightarrow> bool" where
  "snapshot_typed s \<longleftrightarrow> snapshot_id_ok (snapshot_identity s) \<and> manifest_ok (snapshot_content s)
     \<and> list_all entry_typed (manifest_entries (snapshot_content s))"

lemma decode_entry_row_of:
  assumes "entry_typed e" and "sum_logical_bytes acc (e # es) = Some z"
  shows "\<exists>acc'. decode_entry_row t (done_entries, acc) (entry_row_of t e) = Inr (done_entries @ [e], acc')
    \<and> sum_logical_bytes acc' es = Some z"
proof -
  have mode: "uint (permission_bits (entry_permissions e)) < 65536"
    using unsigned_less [of "permission_bits (entry_permissions e)", where 'a = int] by simp
  have perm: "permissions_new (permission_bits (entry_permissions e)) = Inr (entry_permissions e)"
    using assms(1) by (simp add: entry_typed_def)
  have path: "snapshot_path_from_str (entry_path e) = Inr (entry_path e)"
    using assms(1) by (simp add: entry_typed_def snapshot_path_form.parse_display)
  obtain acc' where kind: "decode_entry_kind t (entry_row_of t e)
      (case entry_kind e of File _ n _ \<Rightarrow> n | _ \<Rightarrow> 0) acc = Inr (entry_kind e, acc')"
    and rest: "sum_logical_bytes acc' es = Some z"
    using assms by (cases "entry_kind e")
      (auto simp: decode_entry_kind_def entry_row_of_def entry_typed_def object_id_form.parse_display
        split: option.splits)
  have size: "decode_u64 f (se_logical_size (entry_row_of t e)) = Inr (case entry_kind e of File _ n _ \<Rightarrow> n | _ \<Rightarrow> 0)"
    for f by (simp add: entry_row_of_def decode_u64_def split: snapshot_entry_kind.split)
  have "se_mode (entry_row_of t e) = uint (permission_bits (entry_permissions e))"
    by (simp add: entry_row_of_def)
  then have "decode_entry_row t (done_entries, acc) (entry_row_of t e) = Inr (done_entries @ [e], acc')"
    using mode perm path kind size by (cases e) (simp add: decode_entry_row_def permissions_new_bits)
  with rest show ?thesis by blast
qed

lemma decode_entry_rows:
  "list_all entry_typed es \<Longrightarrow> sum_logical_bytes acc es = Some z \<Longrightarrow>
     fold_result (decode_entry_row t) (done_entries, acc) (map (entry_row_of t) es) = Inr (done_entries @ es, z)"
proof (induction es arbitrary: done_entries acc)
  case (Cons e es)
  obtain acc' where "decode_entry_row t (done_entries, acc) (entry_row_of t e) = Inr (done_entries @ [e], acc')"
    "sum_logical_bytes acc' es = Some z"
    using decode_entry_row_of [of e acc es z t done_entries] Cons.prems by auto
  then show ?case using Cons.IH [of acc' "done_entries @ [e]"] Cons.prems by simp
qed simp

lemma store_entry_Inr: "store_entry t db e = Inr d \<Longrightarrow> insert_entry (entry_row_of t e) db = Some d"
  using entry_columns_Inr [of t e] by (auto simp: store_entry_def and_then_Inr_iff)

lemma entries_have_snapshots:
  "schema_ok db \<Longrightarrow> t \<notin> sn_id ` set (tb_snapshots db) \<Longrightarrow> filter (\<lambda>r. se_snapshot r = t) (tb_entries db) = []"
proof -
  assume "schema_ok db" and t: "t \<notin> sn_id ` set (tb_snapshots db)"
  then have "se_snapshot ` set (tb_entries db) \<subseteq> sn_id ` set (tb_snapshots db)"
    by (simp add: schema_ok_def references_ok_def)
  with t show ?thesis unfolding filter_empty_conv by blast
qed

lemma store_entries_Inr:
  "fold_result (store_entry t) db es = Inr db' \<Longrightarrow>
     db' = db\<lparr>tb_entries := tb_entries db @ map (entry_row_of t) es\<rparr>
     \<and> (\<forall>e \<in> set es. \<forall>i n x. entry_kind e = File i n x \<longrightarrow> object_id_text i \<in> ob_id ` set (tb_objects db))
     \<and> (schema_ok db \<longrightarrow> schema_ok db')"
proof (induction es arbitrary: db)
  case (Cons e es)
  then obtain d where d: "insert_entry (entry_row_of t e) db = Some d" and rest: "fold_result (store_entry t) d es = Inr db'"
    by (auto simp: and_then_Inr_iff dest: store_entry_Inr)
  have eq: "d = db\<lparr>tb_entries := tb_entries db @ [entry_row_of t e]\<rparr>"
    and ref: "references ob_id (se_object (entry_row_of t e)) (tb_objects db)"
    using d by (simp_all add: insert_entry_def if_Some_iff)
  have "object_id_text i \<in> ob_id ` set (tb_objects db)" if "entry_kind e = File i n x" for i n x
    using ref that by (simp add: entry_row_of_def references_iff)
  then show ?case using Cons.IH [OF rest] insert_entry_schema [OF d] by (auto simp: eq)
qed simp

lemma insert_or_ignore_cases:
  assumes "insert_snapshot_or_ignore r db = Some (db', n)"
  shows "n = 0 \<and> db' = db \<and> sn_id r \<in> sn_id ` set (tb_snapshots db)
    \<or> n = 1 \<and> insert_snapshot r db = Some db' \<and> sn_id r \<notin> sn_id ` set (tb_snapshots db)
       \<and> db' = db\<lparr>tb_snapshots := tb_snapshots db @ [r]\<rparr>"
  using assms by (auto simp: insert_snapshot_or_ignore_def insert_snapshot_def split: if_splits)

definition stores_objects :: "'j db \<Rightarrow> snapshot \<Rightarrow> bool" where
  \<comment> \<open>every file of the snapshot has its object in the index\<close>
  "stores_objects db s \<longleftrightarrow> (\<forall>e \<in> set (manifest_entries (snapshot_content s)). \<forall>i n x.
     entry_kind e = File i n x \<longrightarrow> object_id_text i \<in> ob_id ` set (tb_objects db))"

definition snapshot_rows_of :: "'j db \<Rightarrow> string \<Rightarrow> entry_row list" where
  "snapshot_rows_of db t = sort_key se_path (filter (\<lambda>r. se_snapshot r = t) (tb_entries db))"

lemma load_snapshot_cong:
  assumes "select_row sn_id (snapshot_id_text i) (tb_snapshots db) = select_row sn_id (snapshot_id_text i) (tb_snapshots db')"
    and "snapshot_rows_of db (snapshot_id_text i) = snapshot_rows_of db' (snapshot_id_text i)"
  shows "load_snapshot_from env db i = load_snapshot_from env db' i"
  using assms by (cases "select_row sn_id (snapshot_id_text i) (tb_snapshots db')")
    (simp_all add: load_snapshot_from_def snapshot_rows_of_def [symmetric] Let_def)

lemma store_snapshot_in_Inr:
  assumes "store_snapshot_in env db s at_time = Inr db'" and schema: "schema_ok db"
    and typed: "snapshot_typed s" and valid: "validate_snapshot env s = Inr ()"
  shows "load_snapshot_from env db' (snapshot_identity s) = Inr s \<and> schema_ok db'
    \<and> (\<exists>sn se. db' = db\<lparr>tb_snapshots := sn, tb_entries := se\<rparr>)
    \<and> snapshot_id_text (snapshot_identity s) \<in> sn_id ` set (tb_snapshots db')
    \<and> sn_id ` set (tb_snapshots db) \<subseteq> sn_id ` set (tb_snapshots db')
    \<and> (\<forall>j. snapshot_id_text j \<noteq> snapshot_id_text (snapshot_identity s)
          \<longrightarrow> load_snapshot_from env db' j = load_snapshot_from env db j)
    \<and> (snapshot_id_text (snapshot_identity s) \<notin> sn_id ` set (tb_snapshots db) \<longrightarrow> stores_objects db s)"
proof -
  let ?t = "snapshot_id_text (snapshot_identity s)" and ?es = "manifest_entries (snapshot_content s)"
  obtain z db1 n where len: "length ?es < 2 ^ 63" and sum: "sum_logical_bytes 0 ?es = Some z" and z: "uint z < 2 ^ 63"
    and ins: "insert_snapshot_or_ignore \<lparr>sn_id = ?t, sn_schema_version = uint (manifest_schema_version (snapshot_content s)),
           sn_entry_count = int (length ?es), sn_logical_bytes = uint z,
           sn_created = as_unix_milliseconds at_time\<rparr> db = Some (db1, n)"
    and rest: "(if n = 0 then and_then (load_snapshot_from env db1 (snapshot_identity s)) (\<lambda>existing.
           if existing \<noteq> s then Inl (InvalidSnapshot ?t) else Inr db1)
       else fold_result (store_entry ?t) db1 ?es) = Inr db'"
    using assms(1) by (auto simp: store_snapshot_in_def Let_def and_then_Inr_iff sql_u64_Inr_iff sql_usize_Inr_iff
        simp del: not_None_eq)
  from insert_or_ignore_cases [OF ins] show ?thesis
  proof (elim disjE conjE)
    assume "n = 0" "db1 = db" "sn_id \<lparr>sn_id = ?t, sn_schema_version = uint (manifest_schema_version (snapshot_content s)),
           sn_entry_count = int (length ?es), sn_logical_bytes = uint z,
           sn_created = as_unix_milliseconds at_time\<rparr> \<in> sn_id ` set (tb_snapshots db)"
    moreover from this have "load_snapshot_from env db (snapshot_identity s) = Inr s" "db' = db"
      using rest by (auto simp: and_then_Inr_iff split: if_splits)
    moreover have "\<exists>sn se. db = db\<lparr>tb_snapshots := sn, tb_entries := se\<rparr>"
      by (intro exI [of _ "tb_snapshots db"] exI [of _ "tb_entries db"]) simp
    ultimately show ?thesis using schema by simp
  next
    let ?row = "\<lparr>sn_id = ?t, sn_schema_version = uint (manifest_schema_version (snapshot_content s)),
           sn_entry_count = int (length ?es), sn_logical_bytes = uint z,
           sn_created = as_unix_milliseconds at_time\<rparr>"
    assume n: "n = 1" and i: "insert_snapshot ?row db = Some db1" and fresh: "sn_id ?row \<notin> sn_id ` set (tb_snapshots db)"
      and db1: "db1 = db\<lparr>tb_snapshots := tb_snapshots db @ [?row]\<rparr>"
    have es: "fold_result (store_entry ?t) db1 ?es = Inr db'" using rest n by simp
    note st = store_entries_Inr [OF es]
    have d: "db' = db\<lparr>tb_snapshots := tb_snapshots db @ [?row], tb_entries := tb_entries db @ map (entry_row_of ?t) ?es\<rparr>"
      using st db1 by simp
    have "filter (\<lambda>r. se_snapshot r = ?t) (tb_entries db) = []"
      using entries_have_snapshots [OF schema] fresh by simp
    moreover have "filter (\<lambda>r. se_snapshot r = ?t) (map (entry_row_of ?t) ?es) = map (entry_row_of ?t) ?es"
      by (simp add: filter_id_conv)
    moreover have "sort_key se_path (map (entry_row_of ?t) ?es) = map (entry_row_of ?t) ?es"
      using typed by (intro sort_key_id_if_sorted) (simp add: snapshot_typed_def manifest_ok_def strictly_sorted_iff comp_def)
    ultimately have rows: "snapshot_rows_of db' ?t = map (entry_row_of ?t) ?es" using d by (simp add: snapshot_rows_of_def)
    have sel: "select_row sn_id ?t (tb_snapshots db') = Some ?row"
      using snapshots_table.select_after [OF i, of ?t] d db1 by simp
    have version: "manifest_schema_version (snapshot_content s) = SNAPSHOT_SCHEMA_VERSION"
      using typed by (simp add: snapshot_typed_def manifest_ok_def)
    have manifest: "from_canonical_entries SNAPSHOT_SCHEMA_VERSION ?es = Inr (snapshot_content s)"
      using typed by (simp add: snapshot_typed_def from_canonical_entries_Inr_iff)
    have "fold_result (decode_entry_row ?t) ([], 0) (snapshot_rows_of db' ?t) = Inr (?es, z)"
      using decode_entry_rows [of ?es 0 z ?t "[]"] typed sum by (simp add: rows snapshot_typed_def)
    then have "load_snapshot_from env db' (snapshot_identity s) = Inr s"
      using sel version manifest valid len z
      by (cases s) (simp add: load_snapshot_from_def snapshot_rows_of_def [symmetric] sql_u64_def SNAPSHOT_SCHEMA_VERSION_def)
    moreover have "load_snapshot_from env db' j = load_snapshot_from env db j" if "snapshot_id_text j \<noteq> ?t" for j
      using that d by (intro load_snapshot_cong) (auto simp: select_row_append snapshot_rows_of_def comp_def split: option.split)
    moreover have "schema_ok db'" using st insert_snapshot_schema [OF i schema] by blast
    ultimately show ?thesis using d st db1 by (auto simp: stores_objects_def)
  qed
qed

subsection \<open>Committing a checkpoint\<close>

lemma append_event_schema: "append_event env db e = Inr db' \<Longrightarrow> schema_ok db \<Longrightarrow> schema_ok db'"
  by (cases "ev_payload e")
    (auto simp: append_event_def index_warning_def index_chunk_def and_then_Inr_iff dest: insert_schema)

lemma append_batch_schema:
  assumes "append_event_batch_in env db es = Inr db'" and "schema_ok db"
  shows "schema_ok db'"
proof (cases "es = []")
  case False
  then have "fold_result (append_event env) db es = Inr db'"
    using assms(1) by (auto simp: append_event_batch_in_def Let_def and_then_Inr_iff split: option.splits)
  then show ?thesis using assms(2) append_event_schema by (rule fold_result_invariant)
qed (use assms in \<open>simp add: append_event_batch_in_def\<close>)

lemma update_one_run:
  assumes u: "update_runs (\<lambda>r. rr_id r = t \<and> P r) g db = Some (db', 1)" and s: "schema_ok db"
    and id: "\<And>r. rr_id (g r) = rr_id r"
  shows "\<exists>r. select_row rr_id t (tb_runs db) = Some r \<and> P r
    \<and> select_row rr_id t (tb_runs db') = Some (g r)
    \<and> (\<forall>v. v \<noteq> t \<longrightarrow> select_row rr_id v (tb_runs db') = select_row rr_id v (tb_runs db))
    \<and> (\<exists>rs. db' = db\<lparr>tb_runs := rs\<rparr>) \<and> schema_ok db'"
proof -
  let ?f = "\<lambda>r. if rr_id r = t \<and> P r then g r else r"
  have d: "db' = db\<lparr>tb_runs := map ?f (tb_runs db)\<rparr>"
    and n: "length (filter (\<lambda>r. rr_id r = t \<and> P r) (tb_runs db)) = 1"
    using u [unfolded update_runs_Some_iff] by auto
  have "distinct (map rr_id (tb_runs db))" using s by (simp add: schema_ok_def keys_ok_def unique_defs)
  from n [unfolded filter_unique_key [OF this]] obtain r where r: "select_row rr_id t (tb_runs db) = Some r" "P r"
    by (auto split: option.splits if_splits)
  have sel: "select_row rr_id v (tb_runs db') = map_option ?f (select_row rr_id v (tb_runs db))" for v
    unfolding d by (simp add: select_row_map id)
  have "select_row rr_id t (tb_runs db') = Some (g r)"
    using r select_row_Some [OF r(1)] by (simp add: sel)
  moreover have "select_row rr_id v (tb_runs db') = select_row rr_id v (tb_runs db)" if "v \<noteq> t" for v
    using that by (cases "select_row rr_id v (tb_runs db)") (auto simp: sel dest: select_row_Some)
  ultimately show ?thesis using r d update_runs_schema [OF u s id] by blast
qed

definition run_link :: "'j db \<Rightarrow> string \<Rightarrow> checkpoint_reason \<Rightarrow> string option" where
  \<comment> \<open>the snapshot a run row names for a reason\<close>
  "run_link db t reason = (case select_row rr_id t (tb_runs db) of None \<Rightarrow> None
     | Some r \<Rightarrow> (case reason of ReasonInitial \<Rightarrow> rr_initial r | ReasonFinal \<Rightarrow> rr_final r | _ \<Rightarrow> None))"

definition link_of :: "checkpoint_reason \<Rightarrow> string \<Rightarrow> string option" where
  "link_of reason snap = (if reason = ReasonInitial \<or> reason = ReasonFinal then Some snap else None)"

definition checkpoint_columns :: "'j env \<Rightarrow> checkpoint \<Rightarrow> checkpoint_row" where
  "checkpoint_columns env c = \<lparr>kr_id = checkpoint_id_text (env_uuid env) (ck_id c),
          kr_run = run_id_text (env_uuid env) (ck_run c), kr_sequence = uint (sequence_get (ck_sequence c)), kr_label = ck_label c,
          kr_reason = checkpoint_reason_as_str (ck_reason c), kr_snapshot = snapshot_id_text (ck_snapshot c),
          kr_created = as_unix_milliseconds (ck_created_at c), kr_offset = uint (as_nanoseconds (ck_offset c))\<rparr>"

definition checkpoint_typed :: "checkpoint \<Rightarrow> bool" where
  "checkpoint_typed c \<longleftrightarrow> checkpoint_id_ok (ck_id c) \<and> run_id_ok (ck_run c) \<and> event_sequence_ok (ck_sequence c)
     \<and> snapshot_id_ok (ck_snapshot c)"

lemma decode_checkpoint_columns:
  assumes "uuid_lib_ok (env_uuid env)" and "checkpoint_typed c" and "ck_label c \<noteq> Some []"
  shows "decode_checkpoint env (checkpoint_columns env c) = Inr c"
proof -
  have "event_sequence_new (sequence_get (ck_sequence c)) = Some (ck_sequence c)"
    using assms(2) by (simp add: checkpoint_typed_def event_sequence_ok_def event_sequence_new_def)
  moreover have "checkpoint_id_from_str (env_uuid env) (checkpoint_id_text (env_uuid env) (ck_id c)) = Inr (ck_id c)"
    "run_id_from_str (env_uuid env) (run_id_text (env_uuid env) (ck_run c)) = Inr (ck_run c)"
    "snapshot_id_from_str (snapshot_id_text (ck_snapshot c)) = Inr (ck_snapshot c)"
    using assms record_id_roundtrips snapshot_id_form.parse_display by (auto simp: checkpoint_typed_def)
  ultimately show ?thesis
    using assms(3) by (cases c) (simp add: decode_checkpoint_def checkpoint_columns_def checkpoint_validate_def Let_def)
qed

lemma set_run_initial_Inr:
  assumes "set_run_initial env db run i = Inr db'" and "schema_ok db"
  defines "t \<equiv> run_id_text (env_uuid env) run"
  shows "schema_ok db' \<and> run_link db' t ReasonInitial = Some (snapshot_id_text i)
    \<and> run_link db t ReasonInitial \<in> {None, Some (snapshot_id_text i)}
    \<and> (\<forall>v. status_of db' v = status_of db v) \<and> (\<exists>rs. db' = db\<lparr>tb_runs := rs\<rparr>)"
proof -
  have "update_runs (\<lambda>r. rr_id r = t \<and> (rr_initial r = None \<or> rr_initial r = Some (snapshot_id_text i)))
      (\<lambda>r. r\<lparr>rr_initial := Some (snapshot_id_text i)\<rparr>) db = Some (db', 1)"
    using assms(1) by (auto simp: set_run_initial_def t_def and_then_Inr_iff split: if_splits)
  from update_one_run [OF this assms(2)] obtain r where
    r: "select_row rr_id t (tb_runs db) = Some r" "rr_initial r = None \<or> rr_initial r = Some (snapshot_id_text i)"
      "select_row rr_id t (tb_runs db') = Some (r\<lparr>rr_initial := Some (snapshot_id_text i)\<rparr>)"
      "\<forall>v. v \<noteq> t \<longrightarrow> select_row rr_id v (tb_runs db') = select_row rr_id v (tb_runs db)"
      "\<exists>rs. db' = db\<lparr>tb_runs := rs\<rparr>" "schema_ok db'" by auto
  then have "status_of db' v = status_of db v" for v by (cases "v = t") (simp_all add: status_of_def)
  with r show ?thesis by (auto simp: run_link_def)
qed

lemma set_run_final_Inr:
  assumes "set_run_final env db run i = Inr db'" and "schema_ok db"
  defines "t \<equiv> run_id_text (env_uuid env) run"
  shows "schema_ok db' \<and> run_link db' t ReasonFinal = Some (snapshot_id_text i)
    \<and> run_link db t ReasonFinal \<in> {None, Some (snapshot_id_text i)}
    \<and> (\<forall>v. status_of db' v = status_of db v) \<and> (\<exists>rs. db' = db\<lparr>tb_runs := rs\<rparr>)"
proof -
  have "update_runs (\<lambda>r. rr_id r = t \<and> (rr_final r = None \<or> rr_final r = Some (snapshot_id_text i)))
      (\<lambda>r. r\<lparr>rr_final := Some (snapshot_id_text i)\<rparr>) db = Some (db', 1)"
    using assms(1) by (auto simp: set_run_final_def t_def and_then_Inr_iff split: if_splits)
  from update_one_run [OF this assms(2)] obtain r where
    r: "select_row rr_id t (tb_runs db) = Some r" "rr_final r = None \<or> rr_final r = Some (snapshot_id_text i)"
      "select_row rr_id t (tb_runs db') = Some (r\<lparr>rr_final := Some (snapshot_id_text i)\<rparr>)"
      "\<forall>v. v \<noteq> t \<longrightarrow> select_row rr_id v (tb_runs db') = select_row rr_id v (tb_runs db)"
      "\<exists>rs. db' = db\<lparr>tb_runs := rs\<rparr>" "schema_ok db'" by auto
  then have "status_of db' v = status_of db v" for v by (cases "v = t") (simp_all add: status_of_def)
  with r show ?thesis by (auto simp: run_link_def)
qed

lemma commit_checkpoint_in_Inr:
  assumes c: "commit_checkpoint_in env db c s = Inr db'" and schema: "schema_ok db"
    and typed: "snapshot_typed s" and valid: "validate_checkpoint_snapshot env c s = Inr ()"
  defines "t \<equiv> run_id_text (env_uuid env) (ck_run c)"
  shows "load_snapshot_from env db' (ck_snapshot c) = Inr s \<and> schema_ok db'
    \<and> select_row kr_id (checkpoint_id_text (env_uuid env) (ck_id c)) (tb_checkpoints db') = Some (checkpoint_columns env c)
    \<and> tb_checkpoints db' = tb_checkpoints db @ [checkpoint_columns env c]
    \<and> (\<forall>v. status_of db' v = status_of db v)
    \<and> (\<forall>snap. link_of (ck_reason c) (snapshot_id_text (ck_snapshot c)) = Some snap \<longrightarrow>
         run_link db' t (ck_reason c) = Some snap \<and> run_link db t (ck_reason c) \<in> {None, Some snap})
    \<and> (\<exists>sn se ks rs. db' = db\<lparr>tb_snapshots := sn, tb_entries := se, tb_checkpoints := ks, tb_runs := rs\<rparr>)"
proof -
  have v: "validate_snapshot env s = Inr ()" and id: "ck_snapshot c = snapshot_identity s"
    using valid by (auto simp: validate_checkpoint_snapshot_def Let_def and_then_Inr_iff)
  obtain db1 db2 where db1: "store_snapshot_in env db s (ck_created_at c) = Inr db1"
    and k: "insert_checkpoint (checkpoint_columns env c) db1 = Some db2"
    and l: "(case ck_reason c of
         ReasonInitial \<Rightarrow> set_run_initial env db2 (ck_run c) (ck_snapshot c)
       | ReasonFinal \<Rightarrow> set_run_final env db2 (ck_run c) (ck_snapshot c)
       | _ \<Rightarrow> Inr db2) = Inr db'"
    using c unfolding commit_checkpoint_in_def
    by (auto simp only: and_then_Inr_iff sql_u64_Inr_iff ok_or_Inr_iff checkpoint_columns_def)
  note st = store_snapshot_in_Inr [OF db1 schema typed v]
  have db2: "db2 = db1\<lparr>tb_checkpoints := tb_checkpoints db1 @ [checkpoint_columns env c]\<rparr>" and s2: "schema_ok db2"
    using k insert_checkpoint_schema [OF k] st by (simp_all add: insert_checkpoint_def if_Some_iff)
  obtain sn se where d1: "db1 = db\<lparr>tb_snapshots := sn, tb_entries := se\<rparr>" using st by blast
  have same: "status_of db2 w = status_of db w" "run_link db2 w q = run_link db w q" for w q
    by (simp_all add: status_of_def run_link_def db2 d1)
  have fin: "schema_ok db' \<and> (\<forall>v. status_of db' v = status_of db2 v) \<and> (\<exists>rs. db' = db2\<lparr>tb_runs := rs\<rparr>)
    \<and> (\<forall>snap. link_of (ck_reason c) (snapshot_id_text (ck_snapshot c)) = Some snap \<longrightarrow>
         run_link db' t (ck_reason c) = Some snap \<and> run_link db2 t (ck_reason c) \<in> {None, Some snap})"
  proof (cases "ck_reason c = ReasonInitial \<or> ck_reason c = ReasonFinal")
    case True
    then show ?thesis
      using l set_run_initial_Inr [OF _ s2, of env "ck_run c" "ck_snapshot c" db']
        set_run_final_Inr [OF _ s2, of env "ck_run c" "ck_snapshot c" db']
      by (auto simp: link_of_def t_def)
  next
    case False
    then have "db' = db2" using l by (cases "ck_reason c") auto
    moreover have "\<exists>rs. db2 = db2\<lparr>tb_runs := rs\<rparr>" by (rule exI [of _ "tb_runs db2"]) simp
    ultimately show ?thesis using False s2 by (simp add: link_of_def)
  qed
  then obtain rs where rs: "db' = db2\<lparr>tb_runs := rs\<rparr>" by blast
  have "load_snapshot_from env db' (ck_snapshot c) = load_snapshot_from env db1 (ck_snapshot c)"
    by (rule load_snapshot_cong) (simp_all add: rs db2 snapshot_rows_of_def)
  then have "load_snapshot_from env db' (ck_snapshot c) = Inr s" using st id by simp
  moreover have "select_row kr_id (checkpoint_id_text (env_uuid env) (ck_id c)) (tb_checkpoints db') = Some (checkpoint_columns env c)"
    using checkpoints_table.select_after [OF k] by (simp add: rs checkpoint_columns_def)
  moreover have frame: "db' = db\<lparr>tb_snapshots := sn, tb_entries := se,
      tb_checkpoints := tb_checkpoints db @ [checkpoint_columns env c], tb_runs := rs\<rparr>"
    by (simp add: rs db2 d1)
  moreover have "tb_checkpoints db' = tb_checkpoints db @ [checkpoint_columns env c]" by (simp add: frame)
  moreover have "\<exists>sn se ks rs. db' = db\<lparr>tb_snapshots := sn, tb_entries := se, tb_checkpoints := ks, tb_runs := rs\<rparr>"
    using frame by blast
  ultimately show ?thesis using fin unfolding same by blast
qed

lemma timeline_cong:
  assumes "tb_events db = tb_events db'"
  shows "timeline_ok env db = timeline_ok env db'" and "timeline env db run = timeline env db' run"
  using assms by (simp_all add: timeline_ok_def timeline_def run_events_def)

lemma commit_checkpoint_with_event_Inr:
  assumes env: "env_ok env" and schema: "schema_ok (st_db st)" and time: "timeline_ok env (st_db st)"
    and typed: "snapshot_typed s" "checkpoint_typed c" "event_typed e"
    and c: "commit_checkpoint_with_event env st c s e = Inr st'"
  shows "load_snapshot env st' (ck_snapshot c) = Inr s \<and> load_checkpoint env (st_db st') (ck_id c) = Inr c
    \<and> timeline env (st_db st') (ck_run c) = timeline env (st_db st) (ck_run c) @ [e]
    \<and> ev_sequence e = ck_sequence c \<and> ev_payload e = CheckpointCommitted (ck_id c) (ck_snapshot c)
    \<and> (\<forall>snap. link_of (ck_reason c) (snapshot_id_text (ck_snapshot c)) = Some snap \<longrightarrow>
         run_link (st_db st') (run_id_text (env_uuid env) (ck_run c)) (ck_reason c) = Some snap
         \<and> run_link (st_db st) (run_id_text (env_uuid env) (ck_run c)) (ck_reason c) \<in> {None, Some snap})
    \<and> schema_ok (st_db st') \<and> timeline_ok env (st_db st')"
proof -
  obtain db1 db2 where v: "validate_checkpoint_snapshot env c s = Inr ()" and d: "event_describes_checkpoint e c"
    and db1: "commit_checkpoint_in env (st_db st) c s = Inr db1"
    and db2: "append_event_batch_in env db1 [e] = Inr db2" and st': "st' = st\<lparr>st_db := db2\<rparr>"
    using c unfolding commit_checkpoint_with_event_def
    by (auto simp: and_then_Inr_iff map_ok_Inr_iff)
  note ck = commit_checkpoint_in_Inr [OF db1 schema typed(1) v]
  have ev: "tb_events db1 = tb_events (st_db st)" using ck by auto
  note same = timeline_cong [OF ev, of env]
  have t1: "timeline_ok env db1" using time same by simp
  have run: "ev_run (hd [e]) = ck_run c" using d by (simp add: event_describes_checkpoint_def)
  have append: "timeline env db2 (ck_run c) = timeline env db1 (ck_run c) @ [e]"
    using append_then_timeline [OF env t1 _ db2] typed(3) run by simp
  have t2: "timeline_ok env db2" using append_timeline_ok [OF env t1 _ db2] typed(3) by simp
  have s2: "schema_ok db2" using append_batch_schema [OF db2] ck by blast
  obtain es ws cs where db2_eq: "db2 = db1\<lparr>tb_events := es, tb_warnings := ws, tb_chunks := cs\<rparr>"
    using append_batch_Inr(6) [OF db2] by auto
  have snap: "load_snapshot_from env db2 (ck_snapshot c) = load_snapshot_from env db1 (ck_snapshot c)"
    by (rule load_snapshot_cong) (simp_all add: db2_eq snapshot_rows_of_def)
  have link: "run_link db2 w q = run_link db1 w q" for w q by (simp add: run_link_def db2_eq)
  have "ck_label c \<noteq> Some []" using v by (auto simp: validate_checkpoint_snapshot_def Let_def and_then_Inr_iff)
  then have "decode_checkpoint env (checkpoint_columns env c) = Inr c"
    using decode_checkpoint_columns [OF _ typed(2), of env] env by (simp add: env_ok_def)
  moreover have "tb_checkpoints db2 = tb_checkpoints db1" by (simp add: db2_eq)
  then have "select_row kr_id (checkpoint_id_text (env_uuid env) (ck_id c)) (tb_checkpoints db2) = Some (checkpoint_columns env c)"
    using ck by metis
  ultimately have "load_checkpoint env db2 (ck_id c) = Inr c" by (simp add: load_checkpoint_def)
  moreover have "ev_payload e = CheckpointCommitted (ck_id c) (ck_snapshot c)" "ev_sequence e = ck_sequence c"
    using d by (auto simp: event_describes_checkpoint_def split: event_payload.splits)
  ultimately show ?thesis
    using ck append t2 s2 snap link same by (simp add: st' load_snapshot_def)
qed

end
