(* ===== verification/Store_Recovery.thy ===== *)
theory Store_Recovery
  imports Store_Snapshots
begin

section \<open>Recovery of interrupted runs\<close>

text \<open>
  \<open>rewind-store/src/recovery.rs\<close>: a writer that opens the store closes the runs a crashed recorder
  left active, with the last recorded offset as their duration and a separate warning; then the
  diagnostics and the metadata evidence a comparison reads.
\<close>

subsection \<open>Closing active runs\<close>

definition max_offset :: "'j db \<Rightarrow> string \<Rightarrow> int" where
  \<comment> \<open>\<open>COALESCE((SELECT MAX(monotonic_offset_ns) ..), 0)\<close>\<close>
  "max_offset db run = (case map er_offset (run_events db run) of [] \<Rightarrow> 0 | os \<Rightarrow> Max (set os))"

definition next_warning_sequence :: "'j db \<Rightarrow> string \<Rightarrow> int" where
  \<comment> \<open>\<open>COALESCE((SELECT MAX(sequence) + 1 ..), 1)\<close>\<close>
  "next_warning_sequence db run = (case map wr_sequence (filter (\<lambda>w. wr_run w = run) (tb_warnings db)) of
     [] \<Rightarrow> 1 | ss \<Rightarrow> Max (set ss) + 1)"

definition interrupted_columns :: "'j db \<Rightarrow> timestamp \<Rightarrow> run_row \<Rightarrow> run_row" where
  "interrupted_columns db recovered_at r = r\<lparr>rr_status := ''interrupted'',
     rr_finished := Some (as_unix_milliseconds recovered_at), rr_duration := Some (max_offset db (rr_id r))\<rparr>"

definition recovery_warning :: "'j db \<Rightarrow> timestamp \<Rightarrow> string \<Rightarrow> warning_row" where
  "recovery_warning db recovered_at run = \<lparr>wr_run = run, wr_sequence = next_warning_sequence db run,
     wr_code = ''incomplete_run_recovered'',
     wr_message = ''A previous recorder stopped without finalizing this run.'',
     wr_created = as_unix_milliseconds recovered_at\<rparr>"

definition recover_run ::
    "'j env \<Rightarrow> timestamp \<Rightarrow> 'j db \<times> run_id list \<Rightarrow> string \<Rightarrow> (store_error, 'j db \<times> run_id list) result" where
  \<comment> \<open>the body of the loop; an overflowing sequence is not an \<open>INTEGER\<close> and fails the insert\<close>
  "recover_run env recovered_at acc raw_id =
     (let (db, run_ids) = acc in
     and_then (parse_id (run_id_from_str (env_uuid env)) ''run ID'' raw_id) (\<lambda>run.
     let run_text = run_id_text (env_uuid env) run in
     and_then (ok_or (StoreDatabase ''mark interrupted run'')
       (update_runs (\<lambda>r. rr_id r = run_text \<and> active_status (rr_status r))
          (interrupted_columns db recovered_at) db)) (\<lambda>(db1, _).
     and_then (ensure (next_warning_sequence db1 run_text < 2 ^ 63)
       (StoreDatabase ''record interrupted-run warning'')) (\<lambda>_.
     and_then (ok_or (StoreDatabase ''record interrupted-run warning'')
       (insert_warning (recovery_warning db1 recovered_at run_text) db1)) (\<lambda>db2.
       Inr (db2, run_ids @ [run]))))))"

definition active_ids :: "'j db \<Rightarrow> string list" where
  "active_ids db = sort (map rr_id (filter (\<lambda>r. active_status (rr_status r)) (tb_runs db)))"

definition mark_interrupted_runs ::
    "'j env \<Rightarrow> 'j store \<Rightarrow> timestamp \<Rightarrow> (store_error, 'j store \<times> run_id list) result" where
  "mark_interrupted_runs env st recovered_at =
     and_then (require_writer st ''recover interrupted runs'') (\<lambda>_.
       map_ok (\<lambda>(db, run_ids). (st\<lparr>st_db := db\<rparr>, run_ids))
         (fold_result (recover_run env recovered_at) (st_db st, []) (active_ids (st_db st))))"

subsection \<open>Diagnostics and evidence\<close>

record warning_record =
  wc_run :: run_id
  wc_sequence :: u64
  wc_code :: string
  wc_message :: string
  wc_created :: timestamp

definition load_warnings :: "'j env \<Rightarrow> 'j db \<Rightarrow> run_id \<Rightarrow> (store_error, warning_record list) result" where
  "load_warnings env db run =
     map_result (\<lambda>w. and_then (decode_u64 ''warning sequence'' (wr_sequence w)) (\<lambda>s.
         Inr \<lparr>wc_run = run, wc_sequence = s, wc_code = wr_code w, wc_message = wr_message w,
              wc_created = Timestamp (wr_created w)\<rparr>))
       (sort_key wr_sequence (filter (\<lambda>w. wr_run w = run_id_text (env_uuid env) run) (tb_warnings db)))"

record comparison_input =
  ci_run :: run
  ci_checkpoint_count :: u64
  ci_terminal_output_bytes :: u64
  ci_warning_count :: u64

definition load_comparison_input :: "'j env \<Rightarrow> 'j db \<Rightarrow> run_id \<Rightarrow> (store_error, comparison_input) result" where
  \<comment> \<open>\<open>SUM\<close> over integers raises an error when it overflows an \<open>i64\<close>\<close>
  "load_comparison_input env db run =
     and_then (load_run env db run) (\<lambda>r.
     let t = run_id_text (env_uuid env) run;
         checkpoints = int (length (filter (\<lambda>k. kr_run k = t) (tb_checkpoints db)));
         bytes = sum_list (map tc_bytes (filter (\<lambda>c. tc_run c = t) (tb_chunks db)));
         warnings = int (length (filter (\<lambda>w. wr_run w = t) (tb_warnings db))) in
     and_then (ensure (bytes < 2 ^ 63) (StoreDatabase ''load comparison evidence'')) (\<lambda>_.
     and_then (decode_u64 ''checkpoint count'' checkpoints) (\<lambda>checkpoint_count.
     and_then (decode_u64 ''terminal output bytes'' bytes) (\<lambda>terminal_output_bytes.
     and_then (decode_u64 ''warning count'' warnings) (\<lambda>warning_count.
       Inr \<lparr>ci_run = r, ci_checkpoint_count = checkpoint_count,
            ci_terminal_output_bytes = terminal_output_bytes, ci_warning_count = warning_count\<rparr>)))))"

subsection \<open>What recovery does\<close>

definition interrupt_when :: "(string \<Rightarrow> bool) \<Rightarrow> 'j db \<Rightarrow> timestamp \<Rightarrow> run_row \<Rightarrow> run_row" where
  "interrupt_when P db recovered_at r =
     (if P (rr_id r) \<and> active_status (rr_status r) then interrupted_columns db recovered_at r else r)"

lemma interrupt_when_id [simp]: "rr_id (interrupt_when P db t r) = rr_id r"
  by (simp add: interrupt_when_def interrupted_columns_def)

lemma interrupt_when_none [simp]: "map (interrupt_when (\<lambda>_. False) db t) rs = rs"
  by (simp add: interrupt_when_def map_idI)

lemma interrupted_not_active [simp]: "\<not> active_status (rr_status (interrupted_columns db t r))"
  by (simp add: interrupted_columns_def active_status_def)

lemma max_offset_cong: "tb_events db = tb_events db' \<Longrightarrow> max_offset db run = max_offset db' run"
  by (simp add: max_offset_def run_events_def)

lemma interrupted_columns_cong:
  "tb_events db = tb_events db' \<Longrightarrow> interrupted_columns db t r = interrupted_columns db' t r"
  using max_offset_cong [of db db'] by (simp add: interrupted_columns_def)

lemma recover_run_Inr:
  assumes "recover_run env t (db, run_ids) raw = Inr (db', run_ids')"
  shows "(\<exists>run. run_id_from_str (env_uuid env) raw = Inr run \<and> run_ids' = run_ids @ [run])
    \<and> db' = db\<lparr>tb_runs := map (interrupt_when (\<lambda>i. i = raw) db t) (tb_runs db),
              tb_warnings := tb_warnings db @ [recovery_warning db t raw]\<rparr>
    \<and> (schema_ok db \<longrightarrow> schema_ok db')"
proof -
  obtain run db1 n where run: "run_id_from_str (env_uuid env) raw = Inr run" "run_ids' = run_ids @ [run]"
    and u: "update_runs (\<lambda>r. rr_id r = run_id_text (env_uuid env) run \<and> active_status (rr_status r))
          (interrupted_columns db t) db = Some (db1, n)"
    and w: "insert_warning (recovery_warning db1 t (run_id_text (env_uuid env) run)) db1 = Some db'"
    using assms by (auto simp: recover_run_def Let_def and_then_Inr_iff)
  have raw: "run_id_text (env_uuid env) run = raw" using record_id_canonical(1) [OF run(1)] by simp
  have db1: "db1 = db\<lparr>tb_runs := map (interrupt_when (\<lambda>i. i = raw) db t) (tb_runs db)\<rparr>"
    using u unfolding update_runs_Some_iff raw interrupt_when_def by blast
  have "recovery_warning db1 t raw = recovery_warning db t raw"
    by (simp add: recovery_warning_def next_warning_sequence_def db1)
  then have "db' = db1\<lparr>tb_warnings := tb_warnings db @ [recovery_warning db t raw]\<rparr>"
    using w unfolding raw insert_warning_def if_Some_iff by (simp add: db1)
  then show ?thesis
    using run db1 insert_warning_schema [OF w] update_runs_schema [OF u] by (auto simp: interrupted_columns_def)
qed

lemma recover_runs_Inr:
  "fold_result (recover_run env t) (db, run_ids) raws = Inr (db', run_ids') \<Longrightarrow> distinct raws \<Longrightarrow>
     db' = db\<lparr>tb_runs := map (interrupt_when (\<lambda>i. i \<in> set raws) db t) (tb_runs db),
              tb_warnings := tb_warnings db @ map (recovery_warning db t) raws\<rparr>
     \<and> (\<exists>runs. run_ids' = run_ids @ runs \<and> list_all2 (\<lambda>raw run. run_id_from_str (env_uuid env) raw = Inr run) raws runs)
     \<and> (schema_ok db \<longrightarrow> schema_ok db')"
proof (induction raws arbitrary: db run_ids)
  case (Cons raw raws)
  then obtain db1 run_ids1 where one: "recover_run env t (db, run_ids) raw = Inr (db1, run_ids1)"
    and rest: "fold_result (recover_run env t) (db1, run_ids1) raws = Inr (db', run_ids')"
    by (auto simp: and_then_Inr_iff)
  obtain run where run: "run_id_from_str (env_uuid env) raw = Inr run" "run_ids1 = run_ids @ [run]"
    and db1: "db1 = db\<lparr>tb_runs := map (interrupt_when (\<lambda>i. i = raw) db t) (tb_runs db),
              tb_warnings := tb_warnings db @ [recovery_warning db t raw]\<rparr>"
    and s: "schema_ok db \<longrightarrow> schema_ok db1"
    using recover_run_Inr [OF one] by blast
  have "interrupt_when (\<lambda>i. i \<in> set raws) db1 t (interrupt_when (\<lambda>i. i = raw) db t r)
      = interrupt_when (\<lambda>i. i \<in> set (raw # raws)) db t r" for r
    using interrupted_columns_cong [of db1 db t r] by (auto simp: interrupt_when_def db1)
  then have runs: "map (interrupt_when (\<lambda>i. i \<in> set raws) db1 t) (tb_runs db1)
      = map (interrupt_when (\<lambda>i. i \<in> set (raw # raws)) db t) (tb_runs db)"
    by (simp add: db1 del: list.set)
  have "recovery_warning db1 t r = recovery_warning db t r" if "r \<in> set raws" for r
    using that Cons.prems(2) by (auto simp: recovery_warning_def next_warning_sequence_def db1)
  then have warnings: "map (recovery_warning db1 t) raws = map (recovery_warning db t) raws" by simp
  have "db' = db1\<lparr>tb_runs := map (interrupt_when (\<lambda>i. i \<in> set raws) db1 t) (tb_runs db1),
              tb_warnings := tb_warnings db1 @ map (recovery_warning db1 t) raws\<rparr>"
    using Cons.IH [OF rest] Cons.prems(2) by simp
  then have "db' = db\<lparr>tb_runs := map (interrupt_when (\<lambda>i. i \<in> set (raw # raws)) db t) (tb_runs db),
              tb_warnings := tb_warnings db @ map (recovery_warning db t) (raw # raws)\<rparr>"
    unfolding runs warnings by (simp add: db1)
  moreover have "\<exists>runs. run_ids' = run_ids @ runs
      \<and> list_all2 (\<lambda>raw run. run_id_from_str (env_uuid env) raw = Inr run) (raw # raws) runs"
    using Cons.IH [OF rest] Cons.prems(2) run by fastforce
  moreover have "schema_ok db \<longrightarrow> schema_ok db'" using Cons.IH [OF rest] Cons.prems(2) s by auto
  ultimately show ?case by blast
qed (simp add: interrupt_when_def)


lemma schema_run_ok:
  assumes "schema_ok db" and "r \<in> set (tb_runs db)"
  shows "run_columns_ok r \<and> run_references_ok r db"
proof -
  have "list_all run_columns_ok (tb_runs db)"
    "(\<Union>r \<in> set (tb_runs db). set_option (rr_initial r)) \<subseteq> sn_id ` set (tb_snapshots db)"
    "(\<Union>r \<in> set (tb_runs db). set_option (rr_final r)) \<subseteq> sn_id ` set (tb_snapshots db)"
    using assms(1) by (simp_all add: schema_ok_def references_ok_def)
  then show ?thesis
    using assms(2) unfolding run_references_ok_def references_subset UN_subset_iff list_all_iff by blast
qed

lemma set_active_ids: "set (active_ids db) = rr_id ` {r \<in> set (tb_runs db). active_status (rr_status r)}"
  by (simp add: active_ids_def)

lemma distinct_active_ids: "schema_ok db \<Longrightarrow> distinct (active_ids db)"
  by (simp add: active_ids_def schema_ok_def keys_ok_def unique_defs distinct_map_filter)

definition recovered :: "'j db \<Rightarrow> timestamp \<Rightarrow> 'j db" where
  \<comment> \<open>the specification of recovery: all active runs closed at once\<close>
  "recovered db t = db\<lparr>tb_runs := map (interrupt_when (\<lambda>_. True) db t) (tb_runs db),
     tb_warnings := tb_warnings db @ map (recovery_warning db t) (active_ids db)\<rparr>"

lemma recovered_no_active: "active_ids (recovered db t) = []"
proof -
  have "filter (\<lambda>r. active_status (rr_status r)) (map (interrupt_when (\<lambda>_. True) db t) (tb_runs db)) = []"
    by (auto simp: interrupt_when_def filter_empty_conv)
  then show ?thesis by (simp add: active_ids_def recovered_def)
qed

lemma mark_interrupted_runs_Inr:
  assumes "mark_interrupted_runs env st t = Inr (st', runs)" and schema: "schema_ok (st_db st)"
  shows "st_writer st \<and> st' = st\<lparr>st_db := recovered (st_db st) t\<rparr> \<and> schema_ok (st_db st')
    \<and> map (run_id_text (env_uuid env)) runs = active_ids (st_db st)"
proof -
  obtain db' where w: "st_writer st" and st': "st' = st\<lparr>st_db := db'\<rparr>"
    and f: "fold_result (recover_run env t) (st_db st, []) (active_ids (st_db st)) = Inr (db', runs)"
    using assms(1) by (auto simp: mark_interrupted_runs_def and_then_Inr_iff map_ok_Inr_iff)
  note r = recover_runs_Inr [OF f distinct_active_ids [OF schema]]
  have "interrupt_when (\<lambda>i. i \<in> set (active_ids (st_db st))) (st_db st) t row = interrupt_when (\<lambda>_. True) (st_db st) t row"
    if "row \<in> set (tb_runs (st_db st))" for row
    using that by (auto simp: interrupt_when_def set_active_ids)
  then have "db' = recovered (st_db st) t" using r by (simp add: recovered_def cong: map_cong)
  moreover have "list_all2 (\<lambda>raw run. run_id_text (env_uuid env) run = raw) (active_ids (st_db st)) runs"
    using r by (auto elim!: list_all2_mono dest: record_id_canonical(1))
  then have "map (run_id_text (env_uuid env)) runs = active_ids (st_db st)"
    by (induction rule: list_all2_induct) simp_all
  ultimately show ?thesis using w st' r schema by (metis store.select_convs(1) store.surjective store.update_convs(1))
qed

subsection \<open>Recovery succeeds\<close>

definition recoverable :: "'j env \<Rightarrow> 'j db \<Rightarrow> string list \<Rightarrow> bool" where
  \<comment> \<open>identifiers are canonical, offsets natural, and no warning of the listed runs has the last sequence\<close>
  "recoverable env db ids \<longleftrightarrow>
     (\<forall>r \<in> set (tb_runs db). is_ok (run_id_from_str (env_uuid env) (rr_id r)))
     \<and> (\<forall>e \<in> set (tb_events db). 0 \<le> er_offset e)
     \<and> (\<forall>w \<in> set (tb_warnings db). wr_run w \<in> set ids \<longrightarrow> 0 \<le> wr_sequence w \<and> wr_sequence w + 1 < 2 ^ 63)"

lemma max_offset_nonneg:
  assumes "\<forall>e \<in> set (tb_events db). 0 \<le> er_offset e"
  shows "0 \<le> max_offset db run"
proof (cases "map er_offset (run_events db run)")
  case (Cons x xs)
  then have "Max (set (x # xs)) \<in> set (map er_offset (run_events db run))" using Max_in [of "set (x # xs)"] by simp
  then have "0 \<le> Max (set (x # xs))" using assms by (auto simp: run_events_def)
  then show ?thesis by (simp only: max_offset_def Cons list.case)
qed (simp add: max_offset_def)

lemma next_warning_fresh:
  assumes "\<forall>w \<in> set (tb_warnings db). wr_run w = run \<longrightarrow> 0 \<le> wr_sequence w \<and> wr_sequence w + 1 < 2 ^ 63"
  shows "0 \<le> next_warning_sequence db run \<and> next_warning_sequence db run < 2 ^ 63
    \<and> (\<forall>w \<in> set (tb_warnings db). wr_run w = run \<longrightarrow> wr_sequence w < next_warning_sequence db run)"
proof (cases "map wr_sequence (filter (\<lambda>w. wr_run w = run) (tb_warnings db))")
  case Nil
  then show ?thesis by (auto simp: next_warning_sequence_def filter_empty_conv)
next
  case (Cons x xs)
  let ?S = "set (map wr_sequence (filter (\<lambda>w. wr_run w = run) (tb_warnings db)))"
  have n: "next_warning_sequence db run = Max ?S + 1"
    by (simp only: next_warning_sequence_def Cons list.case)
  have "?S \<noteq> {}" unfolding Cons by simp
  then have "Max ?S \<in> ?S" by (rule Max_in [rotated]) simp
  then obtain m where m: "m = Max ?S" "m \<in> ?S" by simp
  then have "0 \<le> m \<and> m + 1 < 2 ^ 63" using assms by auto
  moreover have "wr_sequence w \<le> m" if "w \<in> set (tb_warnings db)" "wr_run w = run" for w
    using that unfolding m(1) by (intro Max_ge) auto
  ultimately show ?thesis unfolding n m(1) [symmetric] by fastforce
qed

lemma recover_run_succeeds:
  assumes schema: "schema_ok db" and rec: "recoverable env db ids" and raw: "raw \<in> rr_id ` set (tb_runs db)" "raw \<in> set ids"
  shows "\<exists>x. recover_run env t (db, run_ids) raw = Inr x"
proof -
  obtain run where run: "run_id_from_str (env_uuid env) raw = Inr run"
    using rec raw by (auto simp: recoverable_def is_ok_iff)
  have same_id: "run_id_text (env_uuid env) run = raw" using record_id_canonical(1) [OF run] by simp
  have "run_columns_ok (interrupted_columns db t r) \<and> run_references_ok (interrupted_columns db t r) db"
    if "r \<in> set (tb_runs db)" for r
    using schema_run_ok [OF schema that] max_offset_nonneg [of db "rr_id r"] rec
    by (simp add: run_columns_ok_def run_references_ok_def interrupted_columns_def active_status_def recoverable_def)
  then obtain db1 n where u: "update_runs (\<lambda>r. rr_id r = raw \<and> active_status (rr_status r)) (interrupted_columns db t) db = Some (db1, n)"
    by (simp add: update_runs_def list_all_iff)
  then have db1: "db1 = db\<lparr>tb_runs := map (interrupt_when (\<lambda>i. i = raw) db t) (tb_runs db)\<rparr>"
    unfolding update_runs_Some_iff interrupt_when_def by blast
  then have same: "tb_warnings db1 = tb_warnings db" "rr_id ` set (tb_runs db1) = rr_id ` set (tb_runs db)"
    using has_key_map [of "tb_runs db" rr_id "interrupt_when (\<lambda>i. i = raw) db t"] by simp_all
  have "\<forall>w \<in> set (tb_warnings db1). wr_run w = raw \<longrightarrow> 0 \<le> wr_sequence w \<and> wr_sequence w + 1 < 2 ^ 63"
    using rec raw(2) unfolding same recoverable_def by blast
  note fresh = next_warning_fresh [OF this]
  then have "\<exists>db2. insert_warning (recovery_warning db1 t raw) db1 = Some db2"
    using raw same(2) by (fastforce simp: insert_warning_def recovery_warning_def image_iff)
  then show ?thesis
    using run u fresh same_id by (auto simp: recover_run_def)
qed


lemma recover_runs_succeed:
  "schema_ok db \<Longrightarrow> recoverable env db raws \<Longrightarrow> distinct raws \<Longrightarrow> set raws \<subseteq> rr_id ` set (tb_runs db) \<Longrightarrow>
     \<exists>x. fold_result (recover_run env t) (db, run_ids) raws = Inr x"
proof (induction raws arbitrary: db run_ids)
  case (Cons raw raws)
  then obtain db1 run_ids1 where one: "recover_run env t (db, run_ids) raw = Inr (db1, run_ids1)"
    using recover_run_succeeds [of db env "raw # raws" raw t run_ids] by auto
  have db1: "db1 = db\<lparr>tb_runs := map (interrupt_when (\<lambda>i. i = raw) db t) (tb_runs db),
              tb_warnings := tb_warnings db @ [recovery_warning db t raw]\<rparr>" and s: "schema_ok db1"
    using recover_run_Inr [OF one] Cons.prems(1) by blast+
  have ids: "rr_id ` set (tb_runs db1) = rr_id ` set (tb_runs db)"
    using has_key_map [of "tb_runs db" rr_id "interrupt_when (\<lambda>i. i = raw) db t"] by (simp add: db1)
  have "recoverable env db1 raws"
    using Cons.prems(2,3) by (auto simp: recoverable_def db1 recovery_warning_def)
  then have "\<exists>x. fold_result (recover_run env t) (db1, run_ids1) raws = Inr x"
    using Cons.IH [OF s] Cons.prems(3,4) ids by simp
  then show ?case by (simp add: one)
qed simp

lemma mark_interrupted_runs_succeeds:
  assumes "st_writer st" and schema: "schema_ok (st_db st)" and "recoverable env (st_db st) (active_ids (st_db st))"
  shows "\<exists>runs. mark_interrupted_runs env st t = Inr (st\<lparr>st_db := recovered (st_db st) t\<rparr>, runs)
    \<and> map (run_id_text (env_uuid env)) runs = active_ids (st_db st)"
proof -
  have "set (active_ids (st_db st)) \<subseteq> rr_id ` set (tb_runs (st_db st))" by (auto simp: set_active_ids)
  then obtain x where "fold_result (recover_run env t) (st_db st, []) (active_ids (st_db st)) = Inr x"
    using recover_runs_succeed [OF schema assms(3) distinct_active_ids [OF schema]] by blast
  then obtain st' runs where m: "mark_interrupted_runs env st t = Inr (st', runs)"
    using assms(1) by (cases x) (simp add: mark_interrupted_runs_def require_writer_def)
  show ?thesis using m mark_interrupted_runs_Inr [OF m schema] by blast
qed

lemma recovered_timeline: "timeline_ok env (recovered db t) = timeline_ok env db"
  "timeline env (recovered db t) run = timeline env db run"
  by (rule timeline_cong, simp add: recovered_def)+

lemma recovered_status:
  "status_of (recovered db t) run = (case status_of db run of
     None \<Rightarrow> None | Some s \<Rightarrow> Some (if active_status s then ''interrupted'' else s))"
  by (cases "select_row rr_id run (tb_runs db)")
    (simp_all add: status_of_def recovered_def select_row_map interrupt_when_def interrupted_columns_def)

end
