(* ===== verification/Store_Maintenance.thy ===== *)
theory Store_Maintenance
  imports Store_Recovery
begin

section \<open>Maintenance of the object store\<close>

text \<open>
  \<open>rewind-store/src/maintenance.rs\<close>: which objects durable records reference, deletion of an
  unreferenced object, bounded listings (interpretations of \<open>paged_query\<close>) and the verification
  sample with its read budget.  SQLite's \<open>json_extract\<close> on a payload document is a parameter:
  \<open>js_kind\<close> is the text at \<open>$.type\<close>, \<open>js_object\<close> the text at \<open>$.data.object_id\<close>, both \<open>None\<close> when
  the value is not a text.
\<close>

record 'j json_lib =
  js_kind :: "'j \<Rightarrow> string option"
  js_object :: "'j \<Rightarrow> string option"

definition json_lib_ok :: "'j env \<Rightarrow> 'j json_lib \<Rightarrow> bool" where
  \<comment> \<open>the adjacently tagged encoding serde documents for \<open>EventPayload\<close>\<close>
  "json_lib_ok env js \<longleftrightarrow> (\<forall>j p. env_from_json env j = Some p \<longrightarrow> js_kind js j = Some (payload_kind p)
     \<and> (\<forall>i n. referenced_object p = Some (i, n) \<longrightarrow> object_id_ok i \<and> js_object js j = Some (object_id_text i)))"

subsection \<open>References\<close>

definition terminal_kinds :: "string list" where
  "terminal_kinds = [''terminal_input'', ''terminal_output'']"

definition is_hex_char :: "char \<Rightarrow> bool" where
  \<comment> \<open>the class \<open>[0-9a-f]\<close>\<close>
  "is_hex_char c \<longleftrightarrow> is_ascii_digit c \<or> (97::nat) \<le> of_char c \<and> (of_char c :: nat) \<le> 102"

definition malformed_reference :: "'j json_lib \<Rightarrow> 'j event_row \<Rightarrow> bool" where
  "malformed_reference js e \<longleftrightarrow> js_kind js (er_payload e) = None
     \<or> js_kind js (er_payload e) \<noteq> Some (er_kind e)
     \<or> (the (js_kind js (er_payload e)) \<in> set terminal_kinds
        \<and> (case js_object js (er_payload e) of None \<Rightarrow> True
           | Some t \<Rightarrow> length t \<noteq> 64 \<or> list_ex (\<lambda>c. \<not> is_hex_char c) t))"

definition validate_event_object_references :: "'j json_lib \<Rightarrow> 'j db \<Rightarrow> (store_error, unit) result" where
  "validate_event_object_references js db =
     (if list_ex (malformed_reference js) (tb_events db) then Inl StoreInvariant else Inr ())"

definition event_object :: "'j json_lib \<Rightarrow> 'j event_row \<Rightarrow> string option" where
  \<comment> \<open>the object text of a terminal event\<close>
  "event_object js e = (case js_kind js (er_payload e) of None \<Rightarrow> None
     | Some k \<Rightarrow> if k \<in> set terminal_kinds then js_object js (er_payload e) else None)"

definition object_is_referenced :: "'j json_lib \<Rightarrow> 'j db \<Rightarrow> object_id \<Rightarrow> bool" where
  "object_is_referenced js db i = (let t = object_id_text i in
     list_ex (\<lambda>r. se_object r = Some t) (tb_entries db)
     \<or> list_ex (\<lambda>c. tc_object c = t) (tb_chunks db)
     \<or> list_ex (\<lambda>e. event_object js e = Some t) (tb_events db))"

definition validate_gc_references :: "'j json_lib \<Rightarrow> 'j store \<Rightarrow> (store_error, unit) result" where
  "validate_gc_references js st = validate_event_object_references js (st_db st)"

subsection \<open>Deletion\<close>

record deleted_object =
  do_id :: object_id
  do_stored_size :: u64

definition delete_object_row :: "string \<Rightarrow> 'j db \<Rightarrow> 'j db option" where
  \<comment> \<open>\<open>DELETE FROM objects WHERE id = ?\<close> under the foreign keys that refer to it\<close>
  "delete_object_row t db =
     (if list_ex (\<lambda>r. se_object r = Some t) (tb_entries db) \<or> list_ex (\<lambda>c. tc_object c = t) (tb_chunks db)
      then None else Some (db\<lparr>tb_objects := filter (\<lambda>r. ob_id r \<noteq> t) (tb_objects db)\<rparr>))"

definition delete_object ::
    "'j json_lib \<Rightarrow> 'j store \<Rightarrow> object_id \<Rightarrow> 'j store \<times> (store_error, deleted_object) result" where
  \<comment> \<open>the file is removed before the transaction commits, and the size is decoded after it\<close>
  "delete_object js st i =
     (case require_writer st ''delete an object'' of Inl e \<Rightarrow> (st, Inl e) | Inr _ \<Rightarrow>
     (case select_row ob_id (object_id_text i) (tb_objects (st_db st)) of
        None \<Rightarrow> (st, Inl (StoreNotFound ''object'' (object_id_text i)))
      | Some r \<Rightarrow>
     (case validate_event_object_references js (st_db st) of Inl e \<Rightarrow> (st, Inl e) | Inr _ \<Rightarrow>
        if object_is_referenced js (st_db st) i then (st, Inl (ObjectReferenced i))
        else let st1 = st\<lparr>st_files := (st_files st)(path_for i := None)\<rparr> in
          (case delete_object_row (object_id_text i) (st_db st1) of
             None \<Rightarrow> (st1, Inl (StoreDatabase ''delete object metadata''))
           | Some db \<Rightarrow> (st1\<lparr>st_db := db\<rparr>,
               map_ok (\<lambda>n. \<lparr>do_id = i, do_stored_size = n\<rparr>)
                 (decode_u64 ''deleted object stored size'' (ob_stored_size r)))))))"

subsection \<open>Bounded listings\<close>

definition MAX_OBJECT_PAGE :: u32 where "MAX_OBJECT_PAGE = MAX_TIMELINE_PAGE"

record object_record =
  or_id :: object_id
  or_logical_size :: u64
  or_stored_size :: u64
  or_physical_size :: "u64 option"
  or_created :: timestamp

record object_page =
  op_objects :: "object_record list"
  op_has_more :: bool

record object_id_page =
  oi_ids :: "object_id list"
  oi_has_more :: bool

definition page_capacity :: "u32 \<Rightarrow> (store_error, nat) result" where
  "page_capacity limit =
     (if limit = 0 \<or> limit > MAX_OBJECT_PAGE then Inl (InvalidPageLimit limit MAX_OBJECT_PAGE)
      else Inr (unat limit))"

definition parse_compression :: "string \<Rightarrow> (store_error, unit) result" where
  \<comment> \<open>\<open>ObjectCompression\<close> has the single value \<open>None\<close>\<close>
  "parse_compression v = (if v = ''none'' then Inr () else Inl (InvalidEnum ''object compression'' v))"

definition page_cursor :: "object_id option \<Rightarrow> string" where
  "page_cursor after = (case after of None \<Rightarrow> [] | Some i \<Rightarrow> object_id_text i)"

definition object_record_of :: "object_files \<Rightarrow> object_row \<Rightarrow> (store_error, object_record) result" where
  \<comment> \<open>one round of the loop of \<open>list_objects\<close>\<close>
  "object_record_of files r =
     and_then (parse_id object_id_from_str ''object ID'' (ob_id r)) (\<lambda>i.
     let physical_size = map_option (\<lambda>content. of_nat (length content)) (files (path_for i)) in
     and_then (decode_u64 ''object logical size'' (ob_logical_size r)) (\<lambda>logical_size.
     and_then (decode_u64 ''object stored size'' (ob_stored_size r)) (\<lambda>stored_size.
     and_then (parse_compression (ob_compression r)) (\<lambda>_.
       Inr \<lparr>or_id = i, or_logical_size = logical_size, or_stored_size = stored_size,
            or_physical_size = physical_size, or_created = Timestamp (ob_created r)\<rparr>))))"

definition list_objects :: "'j store \<Rightarrow> object_id option \<Rightarrow> u32 \<Rightarrow> (store_error, object_page) result" where
  "list_objects st after limit =
     and_then (page_capacity limit) (\<lambda>capacity.
     and_then (map_result (object_record_of (st_files st))
       (take (unat limit + 1) (sort_key ob_id
          (filter (\<lambda>r. ob_id r > page_cursor after) (tb_objects (st_db st)))))) (\<lambda>objects.
       Inr \<lparr>op_objects = take capacity objects, op_has_more = length objects > capacity\<rparr>))"

definition query_object_ids :: "string list \<Rightarrow> object_id option \<Rightarrow> u32 \<Rightarrow> (store_error, object_id_page) result" where
  \<comment> \<open>the first argument is the union the statement selects from\<close>
  "query_object_ids selected after limit =
     and_then (page_capacity limit) (\<lambda>capacity.
     and_then (map_result (parse_id object_id_from_str ''object ID'')
       (take (unat limit + 1) (sort (filter (\<lambda>t. t > page_cursor after) (remdups selected))))) (\<lambda>ids.
       Inr \<lparr>oi_ids = take capacity ids, oi_has_more = length ids > capacity\<rparr>))"

definition referenced_texts :: "'j json_lib \<Rightarrow> 'j db \<Rightarrow> string list" where
  "referenced_texts js db = List.map_filter se_object (tb_entries db) @ map tc_object (tb_chunks db)
     @ List.map_filter (event_object js) (tb_events db)"

definition list_referenced_object_ids ::
    "'j json_lib \<Rightarrow> 'j store \<Rightarrow> object_id option \<Rightarrow> u32 \<Rightarrow> (store_error, object_id_page) result" where
  "list_referenced_object_ids js st after limit = query_object_ids (referenced_texts js (st_db st)) after limit"

definition run_snapshot_texts :: "'j db \<Rightarrow> string \<Rightarrow> string list" where
  \<comment> \<open>the snapshots of a run: its checkpoints' and its links'\<close>
  "run_snapshot_texts db t =
     map kr_snapshot (filter (\<lambda>k. kr_run k = t) (tb_checkpoints db))
     @ List.map_filter rr_initial (filter (\<lambda>r. rr_id r = t) (tb_runs db))
     @ List.map_filter rr_final (filter (\<lambda>r. rr_id r = t) (tb_runs db))"

definition run_object_texts :: "'j json_lib \<Rightarrow> 'j db \<Rightarrow> string \<Rightarrow> string list" where
  "run_object_texts js db t =
     List.map_filter se_object (filter (\<lambda>r. se_snapshot r \<in> set (run_snapshot_texts db t)) (tb_entries db))
     @ List.map_filter (event_object js) (filter (\<lambda>e. er_run e = t) (tb_events db))"

definition list_run_object_ids ::
    "'j env \<Rightarrow> 'j json_lib \<Rightarrow> 'j store \<Rightarrow> run_id \<Rightarrow> object_id option \<Rightarrow> u32
     \<Rightarrow> (store_error, object_id_page) result" where
  "list_run_object_ids env js st run after limit =
     query_object_ids (run_object_texts js (st_db st) (run_id_text (env_uuid env) run)) after limit"

subsection \<open>The verification sample\<close>

record object_verification =
  ov_checked :: u32
  ov_corrupt :: "object_id list"
  ov_skipped :: "(object_id \<times> u64) list"

definition sample_record ::
    "'j env \<Rightarrow> object_files \<Rightarrow> object_verification \<times> u64 \<Rightarrow> object_record
     \<Rightarrow> (store_error, object_verification \<times> u64) result" where
  \<comment> \<open>one round of the loop; the second component is the remaining read budget\<close>
  "sample_record env files acc r =
     (let (v, remaining) = acc in
      if or_logical_size r > remaining
      then Inr (v\<lparr>ov_skipped := ov_skipped v @ [(or_id r, or_logical_size r)]\<rparr>, remaining)
      else and_then (ok_or (StoreNumericRange ''verified object count'') (checked_add (ov_checked v) 1)) (\<lambda>checked.
        let v' = v\<lparr>ov_checked := checked\<rparr>; remaining' = remaining - or_logical_size r in
        (case object_verify (env_hash env) files (or_id r) (or_logical_size r) of
           Inr measured \<Rightarrow>
             if so_logical_size measured = or_logical_size r \<and> so_stored_size measured = or_stored_size r
             then Inr (v', remaining')
             else Inr (v'\<lparr>ov_corrupt := ov_corrupt v' @ [or_id r]\<rparr>, remaining')
         | Inl _ \<Rightarrow> Inr (v'\<lparr>ov_corrupt := ov_corrupt v' @ [or_id r]\<rparr>, remaining'))))"

definition sample_object_corruption ::
    "'j env \<Rightarrow> 'j store \<Rightarrow> u32 \<Rightarrow> u64 \<Rightarrow> (store_error, object_verification) result" where
  "sample_object_corruption env st limit maximum_logical_bytes =
     and_then (list_objects st None limit) (\<lambda>page.
       map_ok fst (fold_result (sample_record env (st_files st))
         (\<lparr>ov_checked = 0, ov_corrupt = [], ov_skipped = []\<rparr>, maximum_logical_bytes) (op_objects page)))"

subsection \<open>Deletion keeps the store whole\<close>

lemma in_map_filter: "y \<in> set (List.map_filter f xs) \<longleftrightarrow> (\<exists>x \<in> set xs. f x = Some y)"
  by (force simp: List.map_filter_def image_iff)

lemma object_is_referenced_iff:
  "object_is_referenced js db i \<longleftrightarrow> object_id_text i \<in> set (referenced_texts js db)"
proof -
  have "list_ex (\<lambda>c. tc_object c = t) (tb_chunks db) \<longleftrightarrow> t \<in> set (map tc_object (tb_chunks db))" for t
    by (induction "tb_chunks db") (auto simp: list_ex_iff)
  then show ?thesis
    by (simp add: object_is_referenced_def referenced_texts_def Let_def in_map_filter list_ex_iff)
qed

lemma decode_indexed_size:
  assumes "object_indexed env files r"
  shows "\<exists>n. decode_u64 f (ob_stored_size r) = Inr n \<and> uint n = ob_stored_size r"
proof -
  obtain i bs where h: "holds_object (env_hash env) files i bs" and s: "ob_stored_size r = int (HEADER_LEN + length bs)"
    using assms by (auto simp: object_indexed_def)
  then have "ob_stored_size r = uint (so_stored_size (stored_metadata i bs))" by (simp only: sizes_uint(2) [OF h])
  then show ?thesis by (simp only: decode_u64_uint) blast
qed

lemma delete_object_cases:
  assumes "delete_object js st i = (st', res)" and index: "index_ok env st"
  shows "(\<exists>e. res = Inl e \<and> st' = st)
    \<or> (\<exists>d r. res = Inr d \<and> st_writer st \<and> \<not> object_is_referenced js (st_db st) i
        \<and> validate_event_object_references js (st_db st) = Inr ()
        \<and> select_row ob_id (object_id_text i) (tb_objects (st_db st)) = Some r
        \<and> do_id d = i \<and> uint (do_stored_size d) = ob_stored_size r
        \<and> st' = st\<lparr>st_files := (st_files st)(path_for i := None),
                   st_db := (st_db st)\<lparr>tb_objects := filter (\<lambda>r. ob_id r \<noteq> object_id_text i) (tb_objects (st_db st))\<rparr>\<rparr>)"
proof (cases "st_writer st")
  case False
  then show ?thesis using assms(1) by (auto simp: delete_object_def require_writer_def)
next
  case w: True
  show ?thesis
  proof (cases "select_row ob_id (object_id_text i) (tb_objects (st_db st))")
    case None
    then show ?thesis using assms(1) w by (auto simp: delete_object_def require_writer_def)
  next
    case (Some r)
    have "r \<in> set (tb_objects (st_db st))" using select_row_Some [OF Some] by simp
    then obtain n where n: "decode_u64 ''deleted object stored size'' (ob_stored_size r) = Inr n" "uint n = ob_stored_size r"
      using index decode_indexed_size [of env "st_files st" r] by (auto simp: index_ok_def)
    have "\<not> object_is_referenced js (st_db st) i \<Longrightarrow>
        \<not> list_ex (\<lambda>r. se_object r = Some (object_id_text i)) (tb_entries (st_db st))
        \<and> \<not> list_ex (\<lambda>c. tc_object c = object_id_text i) (tb_chunks (st_db st))"
      by (auto simp: object_is_referenced_def Let_def)
    then show ?thesis
      using assms(1) w Some n
      by (auto simp: delete_object_def require_writer_def delete_object_row_def Let_def
          validate_event_object_references_def split: if_splits)
  qed
qed

lemma delete_object_index_ok:
  assumes "delete_object js st i = (st', res)" and index: "index_ok env st"
  shows "index_ok env st'"
  using delete_object_cases [OF assms]
proof (elim disjE exE conjE)
  fix d r
  assume st': "st' = st\<lparr>st_files := (st_files st)(path_for i := None),
                   st_db := (st_db st)\<lparr>tb_objects := filter (\<lambda>r. ob_id r \<noteq> object_id_text i) (tb_objects (st_db st))\<rparr>\<rparr>"
  have "object_indexed env (st_files st') r" if "object_indexed env (st_files st) r" "ob_id r \<noteq> object_id_text i" for r
    using that unfolding object_indexed_def by (fastforce simp: st' holds_object_def)
  then show ?thesis
    using index by (auto simp: index_ok_def objects_table.unique_def st' distinct_map_filter)
qed (use index in simp)

lemma delete_object_schema_ok:
  assumes "delete_object js st i = (st', res)" and "index_ok env st" and schema: "schema_ok (st_db st)"
  shows "schema_ok (st_db st')"
  using delete_object_cases [OF assms(1,2)]
proof (elim disjE exE conjE)
  let ?t = "object_id_text i"
  fix d r
  assume ref: "\<not> object_is_referenced js (st_db st) i"
    and st': "st' = st\<lparr>st_files := (st_files st)(path_for i := None),
                   st_db := (st_db st)\<lparr>tb_objects := filter (\<lambda>r. ob_id r \<noteq> ?t) (tb_objects (st_db st))\<rparr>\<rparr>"
  have keep: "ob_id ` {r \<in> set (tb_objects (st_db st)). ob_id r \<noteq> ?t} = ob_id ` set (tb_objects (st_db st)) - {?t}"
    by auto
  have "?t \<notin> (\<Union>r \<in> set (tb_entries (st_db st)). set_option (se_object r))" "?t \<notin> tc_object ` set (tb_chunks (st_db st))"
    using ref by (auto simp: object_is_referenced_def list_ex_iff Let_def)
  then show ?thesis
    using schema by (simp add: schema_ok_def keys_ok_def references_ok_def unique_defs st' distinct_map_filter keep
        subset_Diff_insert)
qed (use schema in simp)

lemma delete_object_keeps:
  assumes "delete_object js st i = (st', res)" and "index_ok env st" and "j \<noteq> i"
  shows "load_object env st' j n = load_object env st j n"
proof -
  have "path_for j \<noteq> path_for i" using assms(3) by simp
  then have "st_files st' (path_for j) = st_files st (path_for j)"
    using delete_object_cases [OF assms(1,2)] by auto
  then show ?thesis by (simp add: load_object_def object_get_def open_reader_def)
qed

subsection \<open>Referenced objects\<close>

lemma terminal_kind_iff: "payload_kind p \<in> set terminal_kinds \<longleftrightarrow> referenced_object p \<noteq> None"
  by (cases p) (simp_all add: terminal_kinds_def)

lemma hex_digit_is_hex: "unat n < 16 \<Longrightarrow> is_hex_char (hex_digit n)"
  using unat_hex_digit [of n]
  by (auto simp: hex_digit_eq is_hex_char_def is_ascii_digit_def word_less_nat_alt)

lemma object_id_text_hex: "c \<in> set (object_id_text i) \<Longrightarrow> is_hex_char c"
  using byte_nibbles_lt by (auto simp: object_id_text_def digest_text_def hex_byte_def intro!: hex_digit_is_hex)

lemma row_decodes_payload:
  "row_decodes env r e \<Longrightarrow> env_from_json env (er_payload r) = Some (ev_payload e) \<and> er_kind r = payload_kind (ev_payload e)"
  by (auto simp: row_decodes_def decode_event_def Let_def and_then_Inr_iff)

lemma event_object_of:
  assumes "json_lib_ok env js" and "row_decodes env r e"
  shows "event_object js r = map_option (\<lambda>(i, _). object_id_text i) (referenced_object (ev_payload e))"
  using assms row_decodes_payload [OF assms(2)] terminal_kind_iff [of "ev_payload e"]
  by (cases "referenced_object (ev_payload e)") (auto simp: event_object_def json_lib_ok_def)

lemma validate_references_ok:
  assumes js: "json_lib_ok env js" and t: "timeline_ok env db"
  shows "validate_event_object_references js db = Inr ()"
proof -
  have "\<not> malformed_reference js r" if r: "r \<in> set (tb_events db)" for r
  proof -
    have "\<forall>r \<in> set (tb_events db). \<exists>e. row_decodes env r e" using t by (simp add: timeline_ok_def)
    then obtain e where e: "row_decodes env r e" using r by blast
    note p = row_decodes_payload [OF e]
    show ?thesis
    proof (cases "referenced_object (ev_payload e)")
      case None
      then show ?thesis
        using js p terminal_kind_iff [of "ev_payload e"] by (auto simp: malformed_reference_def json_lib_ok_def)
    next
      case (Some x)
      then obtain i n where "referenced_object (ev_payload e) = Some (i, n)" by (cases x) auto
      then have "object_id_ok i" "js_object js (er_payload r) = Some (object_id_text i)"
        "js_kind js (er_payload r) = Some (er_kind r)"
        using js p by (auto simp: json_lib_ok_def)
      then show ?thesis
        using object_id_text_hex [of _ i]
        by (auto simp: malformed_reference_def object_id_text_def object_id_ok_def list_ex_iff)
    qed
  qed
  then show ?thesis by (auto simp: validate_event_object_references_def list_ex_iff)
qed

lemma timeline_reference:
  assumes js: "json_lib_ok env js" and t: "timeline_ok env db"
    and e: "e \<in> set (timeline env db run)" and r: "referenced_object (ev_payload e) = Some (i, n)"
  shows "object_is_referenced js db i"
proof -
  obtain k where "k < length (timeline env db run)" "timeline env db run ! k = e"
    using e by (auto simp: in_set_conv_nth)
  then obtain row where row: "row \<in> set (run_events db (run_id_text (env_uuid env) run))" "row_decodes env row e"
    using timeline_rows [OF t, of run] by (metis list_all2_conv_all_nth nth_mem)
  then have "event_object js row = Some (object_id_text i)" "row \<in> set (tb_events db)"
    using event_object_of [OF js row(2)] r by (simp_all add: run_events_def)
  then show ?thesis by (auto simp: object_is_referenced_def list_ex_iff Let_def)
qed

subsection \<open>Listings are complete\<close>

lemma filter_after_sorted:
  assumes "strictly_sorted (map key (xs @ x # ys))"
  shows "filter (\<lambda>r. key x < key r) (xs @ x # ys) = ys"
proof -
  have "filter (\<lambda>r. key x < key r) xs = []" "filter (\<lambda>r. key x < key r) ys = ys"
    using assms by (force simp: strictly_sorted_def sorted_wrt_append filter_empty_conv filter_id_conv)+
  then show ?thesis by simp
qed

lemma decode_page_start:
  assumes "list_all2 (\<lambda>r x. decode r = Inr x) rows xs" and "\<forall>r \<in> set rows. key r \<noteq> []"
  shows "map_result decode (take n (filter (\<lambda>r. [] < key r) rows)) = Inr (take n xs)"
proof -
  have "filter (\<lambda>r. [] < key r) rows = rows" using assms(2) by (auto simp: filter_id_conv neq_Nil_conv)
  then show ?thesis using assms(1) by (simp add: map_result_Inr_iff list_all2_takeI)
qed

lemma decode_page_after:
  assumes d: "list_all2 (\<lambda>r x. decode r = Inr x) rows (xs @ x # ys)" and s: "strictly_sorted (map key rows)"
    and k: "\<And>r. decode r = Inr x \<Longrightarrow> key r = c"
  shows "map_result decode (take n (filter (\<lambda>r. c < key r) rows)) = Inr (take n ys)"
proof -
  obtain us r vs where rows: "rows = us @ r # vs" and "decode r = Inr x" and v: "list_all2 (\<lambda>r x. decode r = Inr x) vs ys"
    using d by (auto simp: list_all2_append2 list_all2_Cons2)
  then have "filter (\<lambda>r. c < key r) rows = vs" using filter_after_sorted [of key us r vs] s k by simp
  then show ?thesis using v by (simp add: map_result_Inr_iff list_all2_takeI)
qed

lemma page_of_take: "take n (take (n + 1) xs) = take n xs" "length (take (n + 1) xs) > n \<longleftrightarrow> n < length xs"
  by (auto simp: min_def)

definition object_rows :: "'j store \<Rightarrow> object_row list" where
  "object_rows st = sort_key ob_id (tb_objects (st_db st))"

definition object_records :: "'j store \<Rightarrow> object_record list" where
  \<comment> \<open>every indexed object in digest order\<close>
  "object_records st = (case map_result (object_record_of (st_files st)) (object_rows st) of Inr xs \<Rightarrow> xs | Inl _ \<Rightarrow> [])"

lemma object_record_of_Inr:
  "object_record_of files r = Inr x \<Longrightarrow> object_id_ok (or_id x) \<and> ob_id r = object_id_text (or_id x)
     \<and> or_logical_size x = of_int (ob_logical_size r) \<and> or_stored_size x = of_int (ob_stored_size r)"
  by (auto simp: object_record_of_def Let_def and_then_Inr_iff object_id_form.parse_Inr_iff decode_u64_Inr_iff)

lemma object_record_of_indexed:
  assumes "object_indexed env files r"
  shows "\<exists>x. object_record_of files r = Inr x"
proof -
  obtain i bs where "object_id_ok i" "ob_id r = object_id_text i" "holds_object (env_hash env) files i bs"
    "ob_logical_size r = int (length bs)"
    "ob_stored_size r = int (HEADER_LEN + length bs)" "ob_compression r = ''none''"
    using assms unfolding object_indexed_def by blast
  then show ?thesis
    by (simp add: object_record_of_def object_id_form.parse_display decode_u64_def parse_compression_def)
qed

lemma object_records_rows:
  assumes "index_ok env st"
  shows "list_all2 (\<lambda>r x. object_record_of (st_files st) r = Inr x) (object_rows st) (object_records st)"
proof -
  have "\<forall>r \<in> set (object_rows st). \<exists>x. object_record_of (st_files st) r = Inr x"
    using assms object_record_of_indexed [of env "st_files st"] by (auto simp: object_rows_def index_ok_def)
  then obtain f where "\<And>r. r \<in> set (object_rows st) \<Longrightarrow> object_record_of (st_files st) r = Inr (f r)" by metis
  then have "map_result (object_record_of (st_files st)) (object_rows st) = Inr (map f (object_rows st))"
    by (rule map_result_all_ok)
  then show ?thesis by (simp add: object_records_def map_result_Inr_iff [symmetric])
qed

lemma object_rows_sorted: "index_ok env st \<Longrightarrow> strictly_sorted (map ob_id (object_rows st))"
  by (simp add: object_rows_def index_ok_def objects_table.unique_def strictly_sorted_sort_key)

lemma object_records_sorted:
  assumes "index_ok env st"
  shows "strictly_sorted (map or_id (object_records st))"
proof -
  have "list_all2 (\<lambda>r x. object_record_of (st_files st) r = Inr x) rs xs \<Longrightarrow>
      map ob_id rs = map object_id_text (map or_id xs) \<and> list_all object_id_ok (map or_id xs)" for rs xs
    by (induction rule: list_all2_induct) (auto dest: object_record_of_Inr)
  from this [OF object_records_rows [OF assms]] show ?thesis
    using object_rows_sorted [OF assms] object_id_form.sorted_display [of "map or_id (object_records st)"]
    by (simp add: strictly_sorted_def)
qed

lemma object_rows_filter:
  "sort_key ob_id (filter P (tb_objects (st_db st))) = filter P (object_rows st)"
  by (simp add: object_rows_def filter_sort)

definition fetch_objects :: "'j store \<Rightarrow> object_id option \<Rightarrow> u32 \<Rightarrow> (store_error, object_record list \<times> bool) result" where
  "fetch_objects st after limit = map_ok (\<lambda>p. (op_objects p, op_has_more p)) (list_objects st after limit)"

definition page_limit_ok :: "u32 \<Rightarrow> bool" where
  "page_limit_ok n \<longleftrightarrow> n \<noteq> 0 \<and> n \<le> MAX_OBJECT_PAGE"

lemma page_capacity_ok: "page_limit_ok n \<Longrightarrow> page_capacity n = Inr (unat n)"
  by (auto simp: page_limit_ok_def page_capacity_def)

lemma object_id_text_not_Nil: "object_id_ok i \<Longrightarrow> object_id_text i \<noteq> []"
  by (auto simp: object_id_ok_def object_id_text_def simp flip: length_greater_0_conv)

lemma fetch_objects_start:
  assumes "index_ok env st" and "page_limit_ok n"
  shows "fetch_objects st None n = Inr (take (unat n) (object_records st), unat n < length (object_records st))"
proof -
  have "\<forall>r \<in> set (object_rows st). ob_id r \<noteq> []"
    using assms(1) object_id_text_not_Nil by (auto simp: index_ok_def object_indexed_def object_rows_def)
  then have "map_result (object_record_of (st_files st)) (take (unat n + 1) (filter (\<lambda>r. ob_id r > []) (object_rows st)))
      = Inr (take (unat n + 1) (object_records st))"
    by (rule decode_page_start [OF object_records_rows [OF assms(1)]])
  then show ?thesis
    using page_of_take [of "unat n" "object_records st"]
    by (simp add: fetch_objects_def list_objects_def object_rows_filter page_cursor_def page_capacity_ok [OF assms(2)])
qed

lemma fetch_objects_after:
  assumes "index_ok env st" and "page_limit_ok n" and "object_records st = xs @ x # ys"
  shows "fetch_objects st (Some (or_id x)) n = Inr (take (unat n) ys, unat n < length ys)"
proof -
  have "map_result (object_record_of (st_files st)) (take (unat n + 1)
      (filter (\<lambda>r. ob_id r > object_id_text (or_id x)) (object_rows st))) = Inr (take (unat n + 1) ys)"
    using object_records_rows [OF assms(1)] object_rows_sorted [OF assms(1)] object_record_of_Inr
    unfolding assms(3) by (intro decode_page_after) auto
  then show ?thesis
    using page_of_take [of "unat n" ys]
    by (simp add: fetch_objects_def list_objects_def object_rows_filter page_cursor_def page_capacity_ok [OF assms(2)])
qed

interpretation object_pages: paged_query "index_ok env" object_records or_id page_limit_ok fetch_objects for env
  by unfold_locales
    (simp_all add: object_records_sorted fetch_objects_start fetch_objects_after page_limit_ok_def)

definition id_texts_ok :: "string list \<Rightarrow> bool" where
  "id_texts_ok selected \<longleftrightarrow> (\<forall>t \<in> set selected. is_ok (object_id_from_str t))"

definition sorted_object_ids :: "string list \<Rightarrow> object_id list" where
  \<comment> \<open>the identities of a union, each once and in order\<close>
  "sorted_object_ids selected = (case map_result (parse_id object_id_from_str ''object ID'') (sort (remdups selected)) of
     Inr ids \<Rightarrow> ids | Inl _ \<Rightarrow> [])"

lemma sorted_object_ids_rows:
  assumes "id_texts_ok selected"
  shows "list_all2 (\<lambda>t i. parse_id object_id_from_str ''object ID'' t = Inr i) (sort (remdups selected)) (sorted_object_ids selected)"
proof -
  have "\<forall>t \<in> set (sort (remdups selected)). \<exists>i. parse_id object_id_from_str ''object ID'' t = Inr i"
    using assms by (auto simp: id_texts_ok_def is_ok_iff)
  then obtain f where "\<And>t. t \<in> set (sort (remdups selected)) \<Longrightarrow> parse_id object_id_from_str ''object ID'' t = Inr (f t)"
    by metis
  then have m: "map_result (parse_id object_id_from_str ''object ID'') (sort (remdups selected)) = Inr (map f (sort (remdups selected)))"
    by (rule map_result_all_ok)
  show ?thesis unfolding sorted_object_ids_def m sum.case by (rule m [unfolded map_result_Inr_iff])
qed

lemma sorted_object_ids_texts:
  assumes "id_texts_ok selected"
  shows "map object_id_text (sorted_object_ids selected) = sort (remdups selected)"
    and "list_all object_id_ok (sorted_object_ids selected)"
proof -
  have "list_all2 (\<lambda>t i. parse_id object_id_from_str ''object ID'' t = Inr i) ts ids \<Longrightarrow>
      map object_id_text ids = ts \<and> list_all object_id_ok ids" for ts ids
    by (induction rule: list_all2_induct) (auto simp: object_id_form.parse_Inr_iff)
  from this [OF sorted_object_ids_rows [OF assms]]
  show "map object_id_text (sorted_object_ids selected) = sort (remdups selected)"
    "list_all object_id_ok (sorted_object_ids selected)" by blast+
qed

lemma strictly_sorted_remdups: "strictly_sorted (sort (remdups (selected :: string list)))"
  by (simp add: strictly_sorted_iff)

definition fetch_object_ids :: "string list \<Rightarrow> object_id option \<Rightarrow> u32 \<Rightarrow> (store_error, object_id list \<times> bool) result" where
  "fetch_object_ids selected after limit = map_ok (\<lambda>p. (oi_ids p, oi_has_more p)) (query_object_ids selected after limit)"

lemma fetch_object_ids_start:
  assumes "id_texts_ok selected" and "page_limit_ok n"
  shows "fetch_object_ids selected None n
    = Inr (take (unat n) (sorted_object_ids selected), unat n < length (sorted_object_ids selected))"
proof -
  have "\<forall>t \<in> set (sort (remdups selected)). t \<noteq> []"
    using assms(1) object_id_text_not_Nil by (auto simp: id_texts_ok_def is_ok_iff object_id_form.parse_Inr_iff)
  then have "map_result (parse_id object_id_from_str ''object ID'')
      (take (unat n + 1) (filter (\<lambda>t. t > []) (sort (remdups selected)))) = Inr (take (unat n + 1) (sorted_object_ids selected))"
    by (rule decode_page_start [OF sorted_object_ids_rows [OF assms(1)]])
  then show ?thesis
    using page_of_take [of "unat n" "sorted_object_ids selected"]
    by (simp add: fetch_object_ids_def query_object_ids_def filter_sort [where f = "\<lambda>t. t", symmetric] page_cursor_def
        page_capacity_ok [OF assms(2)])
qed

lemma fetch_object_ids_after:
  assumes "id_texts_ok selected" and "page_limit_ok n" and "sorted_object_ids selected = xs @ i # ys"
  shows "fetch_object_ids selected (Some i) n = Inr (take (unat n) ys, unat n < length ys)"
proof -
  have "map_result (parse_id object_id_from_str ''object ID'')
      (take (unat n + 1) (filter (\<lambda>t. t > object_id_text i) (sort (remdups selected)))) = Inr (take (unat n + 1) ys)"
    using sorted_object_ids_rows [OF assms(1)] strictly_sorted_remdups [of selected]
    unfolding assms(3) by (intro decode_page_after) (auto simp: object_id_form.parse_Inr_iff)
  then show ?thesis
    using page_of_take [of "unat n" ys]
    by (simp add: fetch_object_ids_def query_object_ids_def filter_sort [where f = "\<lambda>t. t", symmetric] page_cursor_def
        page_capacity_ok [OF assms(2)])
qed

lemma sorted_object_ids_sorted:
  assumes "id_texts_ok selected"
  shows "strictly_sorted (sorted_object_ids selected)"
  using strictly_sorted_remdups [of selected] object_id_form.sorted_display [OF sorted_object_ids_texts(2) [OF assms]]
  by (simp add: strictly_sorted_def sorted_object_ids_texts(1) [OF assms])

interpretation object_id_pages: paged_query id_texts_ok sorted_object_ids "\<lambda>i. i" page_limit_ok fetch_object_ids
  by unfold_locales
    (simp_all add: sorted_object_ids_sorted fetch_object_ids_start fetch_object_ids_after page_limit_ok_def)

lemma sorted_object_ids_referenced:
  assumes "id_texts_ok (referenced_texts js db)" and "object_id_ok i"
  shows "i \<in> set (sorted_object_ids (referenced_texts js db)) \<longleftrightarrow> object_is_referenced js db i"
proof -
  have "object_is_referenced js db i \<longleftrightarrow> object_id_text i \<in> set (map object_id_text (sorted_object_ids (referenced_texts js db)))"
    by (simp only: object_is_referenced_iff sorted_object_ids_texts(1) [OF assms(1)] set_sort set_remdups)
  then show ?thesis by (auto simp: image_iff)
qed

subsection \<open>The sample finds no fault in an intact store\<close>

lemma object_verify_indexed:
  assumes "object_indexed env files r" and "object_record_of files r = Inr x"
  shows "\<exists>m. object_verify (env_hash env) files (or_id x) (or_logical_size x) = Inr m
    \<and> so_logical_size m = or_logical_size x \<and> so_stored_size m = or_stored_size x"
proof -
  obtain i bs where i: "object_id_ok i" "ob_id r = object_id_text i" and h: "holds_object (env_hash env) files i bs"
    and s: "ob_logical_size r = int (length bs)" "ob_stored_size r = int (HEADER_LEN + length bs)"
    using assms(1) by (auto simp: object_indexed_def)
  let ?m = "stored_metadata i bs"
  have size: "unat (so_logical_size ?m) = length bs" using sizes_uint(1) [OF h] by (simp add: unat_eq_nat_uint)
  have "or_id x = i" using object_record_of_Inr [OF assms(2)] i object_id_form.display_inj by auto
  moreover have "or_logical_size x = so_logical_size ?m" "or_stored_size x = so_stored_size ?m"
    using object_record_of_Inr [OF assms(2)] unfolding s(1,2) sizes_uint [OF h, symmetric] by simp_all
  moreover have "object_verify (env_hash env) files i (so_logical_size ?m) = Inr ?m"
    using h size unfolding object_verify_Inr_iff object_get_Inr_iff
    by (intro exI [of _ bs]) (simp add: stored_metadata_def)
  ultimately show ?thesis by auto
qed

lemma sample_record_skip:
  "or_logical_size x > budget \<Longrightarrow> sample_record env files (v, budget) x
     = Inr (v\<lparr>ov_skipped := ov_skipped v @ [(or_id x, or_logical_size x)]\<rparr>, budget)"
  by (simp add: sample_record_def)

lemma sample_record_intact:
  assumes "\<not> or_logical_size x > budget" and "object_indexed env files r" and "object_record_of files r = Inr x"
  shows "sample_record env files (v, budget) x =
    and_then (ok_or (StoreNumericRange ''verified object count'') (checked_add (ov_checked v) 1)) (\<lambda>c.
      Inr (v\<lparr>ov_checked := c\<rparr>, budget - or_logical_size x))"
  using object_verify_indexed [OF assms(2,3)] assms(1) by (auto simp: sample_record_def Let_def)

lemma sample_records_intact:
  assumes "list_all2 (\<lambda>r x. object_record_of files r = Inr x) rows xs" and "\<forall>r \<in> set rows. object_indexed env files r"
    and "fold_result (sample_record env files) (v, budget) xs = Inr (v', rest)"
  shows "ov_corrupt v' = ov_corrupt v
    \<and> unat (ov_checked v') + length (ov_skipped v') = unat (ov_checked v) + length (ov_skipped v) + length xs
    \<and> set (ov_skipped v') \<subseteq> set (ov_skipped v) \<union> (\<lambda>x. (or_id x, or_logical_size x)) ` set xs
    \<and> rest \<le> budget"
  using assms
proof (induction arbitrary: v budget rule: list_all2_induct)
  case (Cons r rows x xs)
  have rest: "\<forall>r \<in> set rows. object_indexed env files r" and ind: "object_indexed env files r" using Cons by simp_all
  show ?case
  proof (cases "or_logical_size x > budget")
    case True
    then have "fold_result (sample_record env files) (v\<lparr>ov_skipped := ov_skipped v @ [(or_id x, or_logical_size x)]\<rparr>, budget) xs
        = Inr (v', rest)"
      using Cons.prems(2) by (simp add: sample_record_skip)
    from Cons.IH [OF rest this] show ?thesis by auto
  next
    case False
    then obtain c where c: "checked_add (ov_checked v) 1 = Some c"
      "fold_result (sample_record env files) (v\<lparr>ov_checked := c\<rparr>, budget - or_logical_size x) xs = Inr (v', rest)"
      using Cons.prems(2) by (auto simp: sample_record_intact [OF False ind Cons.hyps(1)] and_then_Inr_iff)
    have "budget - or_logical_size x \<le> budget" using False by (simp add: word_sub_le not_less)
    with Cons.IH [OF rest c(2)] c(1) show ?thesis by (auto simp: checked_add_Some_iff)
  qed
qed simp

end
