(* ===== verification/Store_Orphans.thy ===== *)
theory Store_Orphans
  imports Store_Maintenance
begin

section \<open>Crash artifacts in the object directory\<close>

text \<open>
  The second half of \<open>rewind-store/src/maintenance.rs\<close>: files below \<open>objects/\<close> that no row of the
  index names.  Enumerating a directory is the operating system's: \<open>fanout\<close> gives for a fan-out
  prefix the entries in the order \<open>read_dir\<close> returns them, each with its length if it is a regular
  file, and \<open>None\<close> when the prefix is not a directory.  Names that are not UTF-8 are skipped by the
  code and are left out of \<open>fanout\<close>.
\<close>

datatype orphan_file_kind = OrphanObject object_id | OrphanTemporary

record orphan_file =
  of_relative :: string
  of_kind :: orphan_file_kind
  of_stored_size :: u64

record orphan_file_page =
  fp_files :: "orphan_file list"
  fp_has_more :: bool

type_synonym fanout = "string \<Rightarrow> (string \<times> u64 option) list option"

subsection \<open>Recognized names\<close>

definition digest_name :: "string \<Rightarrow> string \<Rightarrow> object_id option" where
  "digest_name prefix name =
     (if length name \<noteq> 62 \<or> \<not> list_all is_hex_char name then None
      else result_ok (object_id_from_str (prefix @ name)))"

definition temporary_name :: "string \<Rightarrow> bool" where
  "temporary_name name =
     (if \<not> starts_with ''.tmp-'' name then False
      else case split_once CHR ''-'' (drop 5 name) of
        None \<Rightarrow> False
      | Some (pid, sequence) \<Rightarrow> pid \<noteq> [] \<and> sequence \<noteq> []
          \<and> list_all is_ascii_digit pid \<and> list_all is_ascii_digit sequence)"

definition fanout_prefixes :: "string list" where
  \<comment> \<open>\<open>00\<close> to \<open>ff\<close>\<close>
  "fanout_prefixes = map (\<lambda>n. hex_byte (of_nat n)) [0..<256]"

subsection \<open>The bounded scan\<close>

fun btree_insert :: "orphan_file \<Rightarrow> orphan_file list \<Rightarrow> orphan_file list" where
  \<comment> \<open>\<open>BTreeMap::insert\<close> keyed by the relative path\<close>
  "btree_insert x [] = [x]"
| "btree_insert x (y # ys) =
     (if of_relative x < of_relative y then x # y # ys
      else if of_relative x = of_relative y then x # ys
      else y # btree_insert x ys)"

definition retain :: "nat \<Rightarrow> orphan_file \<Rightarrow> orphan_file list \<Rightarrow> orphan_file list" where
  \<comment> \<open>insert, then \<open>pop_last\<close> when the map grew past the retained number\<close>
  "retain retained x files =
     (let files' = btree_insert x files in
      if length files' > retained then butlast files' else files')"

definition orphan_of :: "'j db \<Rightarrow> string \<Rightarrow> string \<Rightarrow> string \<times> u64 option \<Rightarrow> orphan_file option" where
  \<comment> \<open>the body of the inner loop up to the insertion; \<open>None\<close> is \<open>continue\<close>\<close>
  "orphan_of db cursor prefix entry =
     (let (name, regular_len) = entry; relative_path = prefix @ ''/'' @ name in
      if relative_path \<le> cursor then None
      else case (case digest_name prefix name of
             Some i \<Rightarrow> if object_exists db i then None else Some (OrphanObject i)
           | None \<Rightarrow> if temporary_name name then Some OrphanTemporary else None) of
        None \<Rightarrow> None
      | Some kind \<Rightarrow> (case regular_len of
           None \<Rightarrow> None
         | Some n \<Rightarrow> Some \<lparr>of_relative = relative_path, of_kind = kind, of_stored_size = n\<rparr>))"

definition scan_entry :: "'j db \<Rightarrow> string \<Rightarrow> nat \<Rightarrow> string \<Rightarrow> orphan_file list \<Rightarrow> string \<times> u64 option \<Rightarrow> orphan_file list" where
  "scan_entry db cursor retained prefix files entry = (case orphan_of db cursor prefix entry of
       None \<Rightarrow> files | Some x \<Rightarrow> retain retained x files)"

definition scan_prefix :: "'j db \<Rightarrow> fanout \<Rightarrow> string \<Rightarrow> nat \<Rightarrow> orphan_file list \<Rightarrow> string \<Rightarrow> orphan_file list" where
  "scan_prefix db dirs cursor retained files prefix = (case dirs prefix of
       None \<Rightarrow> files
     | Some entries \<Rightarrow> foldl (scan_entry db cursor retained prefix) files entries)"

definition list_physical_orphans ::
    "'j store \<Rightarrow> fanout \<Rightarrow> string option \<Rightarrow> u32 \<Rightarrow> (store_error, orphan_file_page) result" where
  "list_physical_orphans st dirs after limit =
     and_then (require_writer st ''scan physical object crash artifacts'') (\<lambda>_.
     and_then (page_capacity limit) (\<lambda>capacity.
     let retained = capacity + 1;
         cursor = (case after of None \<Rightarrow> [] | Some c \<Rightarrow> c);
         files = foldl (scan_prefix (st_db st) dirs cursor retained) [] fanout_prefixes
     in Inr \<lparr>fp_files = take capacity files, fp_has_more = length files > capacity\<rparr>))"

subsection \<open>Deleting an artifact\<close>

definition path_components :: "string \<Rightarrow> string list" where
  \<comment> \<open>\<open>Path::components\<close> on Unix, each as text: a root or a leading dot is kept, empty and
     \<open>.\<close> components are not\<close>
  "path_components s =
     (if starts_with ''/'' s then [''/''] else if hd (split_on CHR ''/'' s) = ''.'' then [''.''] else [])
     @ filter (\<lambda>c. c \<noteq> [] \<and> c \<noteq> ''.'') (split_on CHR ''/'' s)"

definition orphan_valid :: "string option \<Rightarrow> string option \<Rightarrow> orphan_file_kind \<Rightarrow> bool" where
  "orphan_valid prefix name kind = (case (prefix, name, kind) of
       (Some p, Some n, OrphanObject i) \<Rightarrow> digest_name p n = Some i
     | (Some p, Some n, OrphanTemporary) \<Rightarrow> length p = 2 \<and> list_all is_hex_char p \<and> temporary_name n
     | _ \<Rightarrow> False)"

definition validate_orphan :: "orphan_file \<Rightarrow> (store_error, unit) result" where
  "validate_orphan orphan =
     (let cs = path_components (of_relative orphan) in
      if length cs > 2 then Inl StoreInvariant
      else if \<not> orphan_valid (if length cs > 0 then Some (cs ! 0) else None)
                (if length cs > 1 then Some (cs ! 1) else None) (of_kind orphan)
      then Inl StoreInvariant else Inr ())"

definition relative_components :: "string \<Rightarrow> (store_error, string list) result" where
  \<comment> \<open>\<open>rewind-platform/src/filesystem.rs\<close>: what a descriptor-relative operation accepts\<close>
  "relative_components relative =
     (if relative = [] \<or> starts_with ''/'' relative then Inl ObjectMaintenance
      else map_result (\<lambda>c. if c = [] \<or> c = ''.'' \<or> c = ''..'' \<or> nul \<in> set c then Inl ObjectMaintenance else Inr c)
        (split_on CHR ''/'' relative))"

definition remove_relative_file :: "object_files \<Rightarrow> string \<Rightarrow> (store_error, object_files) result" where
  \<comment> \<open>\<open>remove_relative_entry\<close> of a file below the object root; a missing one is no error\<close>
  "remove_relative_file files relative =
     map_ok (\<lambda>_. files(relative := None)) (relative_components relative)"

definition delete_physical_orphan ::
    "'j json_lib \<Rightarrow> 'j store \<Rightarrow> orphan_file \<Rightarrow> (store_error, 'j store \<times> orphan_file) result" where
  "delete_physical_orphan js st orphan =
     and_then (require_writer st ''delete physical object crash artifact'') (\<lambda>_.
     and_then (case of_kind orphan of
         OrphanObject i \<Rightarrow>
           and_then (validate_event_object_references js (st_db st)) (\<lambda>_.
             ensure (\<not> (object_exists (st_db st) i \<or> object_is_referenced js (st_db st) i)) (ObjectReferenced i))
       | OrphanTemporary \<Rightarrow> Inr ()) (\<lambda>_.
     and_then (validate_orphan orphan) (\<lambda>_.
     and_then (remove_relative_file (st_files st) (of_relative orphan)) (\<lambda>files.
       Inr (st\<lparr>st_files := files\<rparr>, orphan)))))"

subsection \<open>The scan keeps the first artifacts\<close>

lemma btree_insert_fresh:
  "of_relative x \<notin> of_relative ` set ys \<Longrightarrow> btree_insert x ys = insort_key of_relative x ys"
  by (induction ys) auto

lemma take_insort_take: "take k (insort_key f x (take k ys)) = take k (insort_key f x ys)"
proof (induction ys arbitrary: k)
  case (Cons y ys)
  then show ?case by (cases k) (auto simp: take_Cons')
qed simp

lemma retain_fresh:
  assumes "of_relative x \<notin> of_relative ` set ys"
  shows "retain k x (take k ys) = take k (insort_key of_relative x ys)"
proof -
  have "of_relative x \<notin> of_relative ` set (take k ys)" using assms set_take_subset [of k ys] by blast
  then have b: "btree_insert x (take k ys) = insort_key of_relative x (take k ys)" by (rule btree_insert_fresh)
  have "retain k x (take k ys) = take k (insort_key of_relative x (take k ys))"
    by (auto simp: retain_def b Let_def butlast_conv_take min_def less_Suc_eq_le dest: le_antisym)
  then show ?thesis by (simp add: take_insort_take)
qed

lemma retain_all:
  "distinct (map of_relative xs) \<Longrightarrow> foldl (\<lambda>files x. retain k x files) [] xs = take k (sort_key of_relative xs)"
proof (induction xs rule: rev_induct)
  case (snoc x xs)
  have "sort_key of_relative (xs @ [x]) = sort_key of_relative (x # xs)"
    using snoc.prems by (intro sort_key_permutation) simp_all
  then show ?case using snoc retain_fresh [of x "sort_key of_relative xs" k] by simp
qed simp

definition orphans_below :: "'j db \<Rightarrow> fanout \<Rightarrow> string \<Rightarrow> string \<Rightarrow> orphan_file list" where
  "orphans_below db dirs cursor prefix = (case dirs prefix of None \<Rightarrow> []
     | Some entries \<Rightarrow> List.map_filter (orphan_of db cursor prefix) entries)"

definition all_orphans :: "'j db \<Rightarrow> fanout \<Rightarrow> string \<Rightarrow> orphan_file list" where
  \<comment> \<open>every artifact after the cursor, in the order of the enumeration\<close>
  "all_orphans db dirs cursor = concat (map (orphans_below db dirs cursor) fanout_prefixes)"

lemma scan_entries:
  "foldl (scan_entry db cursor k prefix) files entries
     = foldl (\<lambda>files x. retain k x files) files (List.map_filter (orphan_of db cursor prefix) entries)"
  by (induction entries arbitrary: files) (simp_all add: scan_entry_def List.map_filter_simps split: option.split)

lemma scan_all:
  "foldl (scan_prefix db dirs cursor k) files prefixes
     = foldl (\<lambda>files x. retain k x files) files (concat (map (orphans_below db dirs cursor) prefixes))"
  by (induction prefixes arbitrary: files)
    (simp_all add: scan_prefix_def orphans_below_def scan_entries split: option.split)

lemma orphan_of_cursor:
  "orphan_of db cursor prefix entry = filter_option (\<lambda>x. of_relative x > cursor) (orphan_of db [] prefix entry)"
  by (cases entry) (auto simp: orphan_of_def Let_def not_le split: option.splits orphan_file_kind.splits)

lemma map_filter_filter_option: "List.map_filter (\<lambda>x. filter_option P (f x)) xs = filter P (List.map_filter f xs)"
  by (induction xs) (auto simp: List.map_filter_simps filter_option_def split: option.splits)

lemma all_orphans_cursor:
  "all_orphans db dirs cursor = filter (\<lambda>x. of_relative x > cursor) (all_orphans db dirs [])"
proof -
  have "orphans_below db dirs cursor prefix = filter (\<lambda>x. of_relative x > cursor) (orphans_below db dirs [] prefix)" for prefix
    unfolding orphans_below_def orphan_of_cursor [of db cursor]
    by (cases "dirs prefix") (simp_all add: map_filter_filter_option)
  then have "orphans_below db dirs cursor = (\<lambda>prefix. filter (\<lambda>x. of_relative x > cursor) (orphans_below db dirs [] prefix))"
    by blast
  then show ?thesis unfolding all_orphans_def filter_concat by (simp add: comp_def)
qed

definition fanout_ok :: "fanout \<Rightarrow> bool" where
  \<comment> \<open>documented: a directory lists each name once\<close>
  "fanout_ok dirs \<longleftrightarrow> (\<forall>p entries. dirs p = Some entries \<longrightarrow> distinct (map fst entries))"

lemma length_hex_byte [simp]: "length (hex_byte b) = 2"
  by (simp add: hex_byte_def)

lemma fanout_prefixes_ok: "distinct fanout_prefixes" "\<forall>p \<in> set fanout_prefixes. length p = 2"
proof -
  have "inj hex_byte" by (rule injI) (metis hex_byte_mono less_irrefl linorder_neqE)
  moreover have "inj_on (of_nat :: nat \<Rightarrow> u8) {0..<256}"
    by (rule inj_on_inverseI [of _ unat]) (simp add: unat_of_nat)
  ultimately show "distinct fanout_prefixes"
    by (auto simp: fanout_prefixes_def distinct_map inj_on_def)
qed (simp add: fanout_prefixes_def)

lemma orphan_of_relative: "orphan_of db cursor prefix entry = Some x \<Longrightarrow> of_relative x = prefix @ ''/'' @ fst entry"
  by (cases entry) (auto simp: orphan_of_def Let_def split: if_splits option.splits)

lemma map_filter_distinct:
  "distinct (map fst entries) \<Longrightarrow> distinct (map of_relative (List.map_filter (orphan_of db cursor prefix) entries))"
proof (induction entries)
  case (Cons e entries)
  have "of_relative x \<noteq> of_relative y"
    if x: "orphan_of db cursor prefix e = Some x" and y: "y \<in> set (List.map_filter (orphan_of db cursor prefix) entries)" for x y
  proof -
    obtain f where "f \<in> set entries" "orphan_of db cursor prefix f = Some y" using y by (auto simp: in_map_filter)
    then show ?thesis using orphan_of_relative [OF x] orphan_of_relative [of db cursor prefix f y] Cons.prems by auto
  qed
  then show ?case using Cons by (auto simp: List.map_filter_simps split: option.split)
qed (simp add: List.map_filter_simps)

lemma all_orphans_distinct:
  assumes "fanout_ok dirs"
  shows "distinct (map of_relative (all_orphans db dirs cursor))"
proof -
  have d: "distinct (map of_relative (orphans_below db dirs cursor p))" for p
    using assms by (cases "dirs p") (simp_all add: orphans_below_def fanout_ok_def map_filter_distinct)
  have t: "take 2 (of_relative x) = p" if "x \<in> set (orphans_below db dirs cursor p)" "length p = 2" for x p
    using that by (cases "dirs p") (auto simp: orphans_below_def in_map_filter dest!: orphan_of_relative)
  have "distinct ps \<Longrightarrow> \<forall>p \<in> set ps. length p = 2 \<Longrightarrow>
      distinct (map of_relative (concat (map (orphans_below db dirs cursor) ps)))" for ps
  proof (induction ps)
    case (Cons p ps)
    have "of_relative x \<noteq> of_relative y"
      if "x \<in> set (orphans_below db dirs cursor p)" "q \<in> set ps" "y \<in> set (orphans_below db dirs cursor q)" for x y q
      using t [OF that(1)] t [OF that(3)] Cons.prems that(2) by auto
    then show ?case using Cons d [of p] by auto
  qed simp
  then show ?thesis using fanout_prefixes_ok by (simp add: all_orphans_def)
qed

definition sorted_orphans :: "'j store \<times> fanout \<Rightarrow> orphan_file list" where
  "sorted_orphans d = sort_key of_relative (all_orphans (st_db (fst d)) (snd d) [])"

lemma sorted_orphans_sorted: "fanout_ok (snd d) \<Longrightarrow> strictly_sorted (map of_relative (sorted_orphans d))"
  by (simp add: sorted_orphans_def strictly_sorted_sort_key all_orphans_distinct)

definition fetch_orphans ::
    "'j store \<times> fanout \<Rightarrow> string option \<Rightarrow> u32 \<Rightarrow> (store_error, orphan_file list \<times> bool) result" where
  "fetch_orphans d after limit = map_ok (\<lambda>p. (fp_files p, fp_has_more p)) (list_physical_orphans (fst d) (snd d) after limit)"

lemma list_physical_orphans_eq:
  fixes after :: "string option"
  assumes "fanout_ok dirs" and "st_writer st" and "page_limit_ok n"
  defines "xs \<equiv> filter (\<lambda>x. of_relative x > (case after of None \<Rightarrow> [] | Some c \<Rightarrow> c)) (sorted_orphans (st, dirs))"
  shows "fetch_orphans (st, dirs) after n = Inr (take (unat n) xs, unat n < length xs)"
proof -
  let ?c = "case after of None \<Rightarrow> [] | Some c \<Rightarrow> c"
  have "foldl (scan_prefix (st_db st) dirs ?c (unat n + 1)) [] fanout_prefixes
      = take (unat n + 1) (sort_key of_relative (all_orphans (st_db st) dirs ?c))"
    unfolding scan_all all_orphans_def [symmetric] by (rule retain_all) (rule all_orphans_distinct [OF assms(1)])
  also have "sort_key of_relative (all_orphans (st_db st) dirs ?c) = xs"
    unfolding all_orphans_cursor [of _ _ ?c] by (simp add: xs_def sorted_orphans_def filter_sort)
  finally show ?thesis
    using assms(2) page_of_take [of "unat n" xs]
    by (simp add: fetch_orphans_def list_physical_orphans_def page_capacity_ok [OF assms(3)] require_writer_def Let_def)
qed

interpretation orphan_pages: paged_query "\<lambda>d. fanout_ok (snd d) \<and> st_writer (fst d)" sorted_orphans of_relative
  page_limit_ok fetch_orphans
proof
  fix d :: "'a store \<times> fanout" and n :: u32 and xs ys :: "orphan_file list" and x
  assume d: "fanout_ok (snd d) \<and> st_writer (fst d)"
  show "strictly_sorted (map of_relative (sorted_orphans d))" using d by (simp add: sorted_orphans_sorted)
  assume n: "page_limit_ok n"
  have "[] < p @ c # q" for p q and c :: char by (cases p) simp_all
  then have "\<forall>x \<in> set (sorted_orphans d). of_relative x > []"
    by (auto simp: sorted_orphans_def all_orphans_def orphans_below_def in_map_filter split: option.splits
        dest!: orphan_of_relative)
  then have "filter (\<lambda>x. of_relative x > []) (sorted_orphans d) = sorted_orphans d" by (simp add: filter_id_conv)
  then show "fetch_orphans d None n = Inr (take (unat n) (sorted_orphans d), unat n < length (sorted_orphans d))"
    using list_physical_orphans_eq [of "snd d" "fst d" n None] d n by simp
  assume x: "sorted_orphans d = xs @ x # ys"
  have "filter (\<lambda>y. of_relative y > of_relative x) (sorted_orphans d) = ys"
    using sorted_orphans_sorted [of d] d unfolding x by (intro filter_after_sorted) simp
  then show "fetch_orphans d (Some (of_relative x)) n = Inr (take (unat n) ys, unat n < length ys)"
    using list_physical_orphans_eq [of "snd d" "fst d" n "Some (of_relative x)"] d n by simp
qed (simp add: page_limit_ok_def)

subsection \<open>Deleting an artifact touches no indexed object\<close>

lemma relative_components_Inr:
  assumes "relative_components r = Inr cs"
  shows "cs = split_on CHR ''/'' r \<and> (\<forall>c \<in> set cs. c \<noteq> [] \<and> c \<noteq> ''.'' \<and> c \<noteq> ''..'') \<and> \<not> starts_with ''/'' r"
proof -
  let ?f = "\<lambda>c. if c = [] \<or> c = ''.'' \<or> c = ''..'' \<or> nul \<in> set c then Inl ObjectMaintenance else Inr c"
  have m: "map_result ?f (split_on CHR ''/'' r) = Inr cs" and s: "\<not> starts_with ''/'' r"
    using assms by (auto simp: relative_components_def split: if_splits)
  have "list_all2 (\<lambda>x y. ?f x = Inr y) xs ys \<Longrightarrow> ys = xs \<and> (\<forall>c \<in> set ys. c \<noteq> [] \<and> c \<noteq> ''.'' \<and> c \<noteq> ''..'')" for xs ys
    by (induction rule: list_all2_induct) (auto split: if_splits)
  with m s show ?thesis unfolding map_result_Inr_iff by blast
qed

lemma valid_orphan_relative:
  assumes v: "validate_orphan x = Inr ()" and r: "relative_components (of_relative x) = Inr cs"
  shows "\<exists>p n. of_relative x = p @ CHR ''/'' # n \<and> CHR ''/'' \<notin> set p \<and> orphan_valid (Some p) (Some n) (of_kind x)"
proof -
  note c = relative_components_Inr [OF r]
  have "hd cs \<in> set cs" using c by (cases cs) (auto simp: split_on_not_Nil [of "CHR ''/''" "of_relative x", symmetric])
  then have "hd cs \<noteq> ''.''" using c by blast
  then have pc: "path_components (of_relative x) = cs" using c by (auto simp: path_components_def filter_id_conv)
  have len: "length cs \<le> 2" and ok: "orphan_valid (if length cs > 0 then Some (cs ! 0) else None)
                (if length cs > 1 then Some (cs ! 1) else None) (of_kind x)"
    using v by (auto simp: validate_orphan_def Let_def pc not_less split: if_splits)
  have "length cs > 1" using ok by (auto simp: orphan_valid_def split: option.splits if_splits orphan_file_kind.splits)
  then obtain p n where pn: "cs = [p, n]"
    using len by (cases cs; cases "tl cs"; cases "tl (tl cs)") auto
  then have "of_relative x = p @ CHR ''/'' # n" using c join_split_on [of "CHR ''/''" "of_relative x"] by simp
  moreover have "p \<in> set (split_on CHR ''/'' (of_relative x))" using c pn by (metis list.set_intros(1))
  then have "CHR ''/'' \<notin> set p" by (rule split_on_no_sep)
  ultimately show ?thesis using ok pn by auto
qed

lemma digest_name_path:
  assumes "digest_name p n = Some i"
  shows "p @ CHR ''/'' # n = path_for i"
proof -
  have "object_id_from_str (p @ n) = Inr i" "length n = 62"
    using assms by (auto simp: digest_name_def result_ok_def split: if_splits sum.splits)
  then have t: "object_id_text i = p @ n" and "object_id_ok i" by (auto simp: object_id_form.parse_Inr_iff)
  then have "length (p @ n) = 64" by (simp add: object_id_text_def object_id_ok_def flip: t)
  then have "length p = 2" using \<open>length n = 62\<close> by simp
  then show ?thesis by (simp add: path_for_def Let_def t)
qed

lemma temporary_name_path:
  assumes "temporary_name n" and "length p = 2"
  shows "p @ CHR ''/'' # n \<noteq> path_for i"
proof
  assume e: "p @ CHR ''/'' # n = path_for i"
  obtain m where n: "n = CHR ''.'' # m"
    using assms(1) by (cases n) (auto simp: temporary_name_def split: if_splits)
  have "drop 2 (object_id_text i) = n"
  proof (cases "2 \<le> length (object_id_text i)")
    case True
    then have "p = take 2 (object_id_text i)" "CHR ''/'' # n = CHR ''/'' # drop 2 (object_id_text i)"
      using e assms(2) by (simp_all add: path_for_def Let_def append_eq_append_conv)
    then show ?thesis by simp
  next
    case False
    then show ?thesis using arg_cong [OF e, of length] assms(2) n by (simp add: path_for_def Let_def)
  qed
  then have "CHR ''.'' \<in> set (object_id_text i)" using n set_drop_subset [of 2 "object_id_text i"] by auto
  then have "is_hex_char CHR ''.''" by (rule object_id_text_hex)
  then show False by (simp add: is_hex_char_def is_ascii_digit_def)
qed

lemma delete_physical_orphan_Inr:
  assumes "delete_physical_orphan js st x = Inr (st', y)"
  shows "y = x \<and> st_writer st \<and> st' = st\<lparr>st_files := (st_files st)(of_relative x := None)\<rparr>
    \<and> (case of_kind x of
        OrphanObject i \<Rightarrow> of_relative x = path_for i \<and> \<not> object_exists (st_db st) i \<and> \<not> object_is_referenced js (st_db st) i
      | OrphanTemporary \<Rightarrow> \<forall>i. of_relative x \<noteq> path_for i)"
proof -
  obtain files where w: "st_writer st" and v: "validate_orphan x = Inr ()"
    and f: "remove_relative_file (st_files st) (of_relative x) = Inr files"
    and r: "st' = st\<lparr>st_files := files\<rparr>" "y = x"
    and g: "\<forall>i. of_kind x = OrphanObject i \<longrightarrow> \<not> object_exists (st_db st) i \<and> \<not> object_is_referenced js (st_db st) i"
    using assms by (auto simp: delete_physical_orphan_def and_then_Inr_iff split: orphan_file_kind.splits)
  obtain cs where cs: "relative_components (of_relative x) = Inr cs" and files: "files = (st_files st)(of_relative x := None)"
    using f by (auto simp: remove_relative_file_def map_ok_Inr_iff)
  obtain p n where pn: "of_relative x = p @ CHR ''/'' # n" "orphan_valid (Some p) (Some n) (of_kind x)"
    using valid_orphan_relative [OF v cs] by blast
  then show ?thesis
    using w r g files digest_name_path temporary_name_path
    by (cases "of_kind x") (simp_all add: orphan_valid_def)
qed

lemma delete_physical_orphan_index_ok:
  assumes "delete_physical_orphan js st x = Inr (st', y)" and index: "index_ok env st"
  shows "index_ok env st'"
proof -
  note d = delete_physical_orphan_Inr [OF assms(1)]
  have "object_indexed env (st_files st') r" if r: "r \<in> set (tb_objects (st_db st))" for r
  proof -
    obtain i bs where i: "object_id_ok i" "ob_id r = object_id_text i" "holds_object (env_hash env) (st_files st) i bs"
      "ob_logical_size r = int (length bs)" "ob_stored_size r = int (HEADER_LEN + length bs)" "ob_compression r = ''none''"
      using index r unfolding index_ok_def object_indexed_def by blast
    have "object_exists (st_db st) i" using imageI [OF r, of ob_id] i(2) by (simp add: object_exists_iff)
    then have "of_relative x \<noteq> path_for i"
      using d by (cases "of_kind x") auto
    then have "holds_object (env_hash env) (st_files st') i bs" using i(3) d by (simp add: holds_object_def)
    then show ?thesis using i unfolding object_indexed_def by blast
  qed
  then show ?thesis using index d by (simp add: index_ok_def)
qed

end
