(* ===== verification/Store_Invariants.thy ===== *)
theory Store_Invariants
  imports Store_Orphans
begin

section \<open>The store as a state machine\<close>

text \<open>
  \<open>store_step\<close> is one call of a mutating operation of \<open>Store\<close>, including the calls that fail after
  they touched the object directory.  Its guards are the type invariants of the arguments.  Every
  store reachable from an empty one satisfies \<open>store_ok\<close>, its run statuses only advance and its
  timelines only grow.
\<close>

definition empty_store :: "'j store" where
  "empty_store = \<lparr>st_db = empty_db, st_files = (\<lambda>_. None), st_writer = True\<rparr>"

inductive store_step :: "'j env \<Rightarrow> 'j json_lib \<Rightarrow> 'j store \<Rightarrow> 'j store \<Rightarrow> bool"
  for env :: "'j env" and js :: "'j json_lib" where
  put: "put_object env st bytes created = (st', r) \<Longrightarrow> store_step env js st st'"
| import: "import_object env st i bytes created = (st', r) \<Longrightarrow> store_step env js st st'"
| append: "append_event_batch env st es = Inr st' \<Longrightarrow> \<forall>e \<in> set es. event_typed e \<Longrightarrow> store_step env js st st'"
| create: "create_run env st r = Inr st' \<Longrightarrow> run_typed r \<Longrightarrow> store_step env js st st'"
| running: "mark_run_running env st run snap = Inr st' \<Longrightarrow> store_step env js st st'"
| finish: "finish_run env st run outcome = Inr st' \<Longrightarrow> store_step env js st st'"
| finish_events: "finish_run_with_events env st run outcome es = Inr st' \<Longrightarrow> \<forall>e \<in> set es. event_typed e
    \<Longrightarrow> store_step env js st st'"
| snapshot: "store_snapshot env st s created_at = Inr st' \<Longrightarrow> snapshot_typed s \<Longrightarrow> store_step env js st st'"
| checkpoint: "commit_checkpoint env st c s = Inr st' \<Longrightarrow> snapshot_typed s \<Longrightarrow> store_step env js st st'"
| checkpoint_event: "commit_checkpoint_with_event env st c s e = Inr st' \<Longrightarrow> snapshot_typed s \<Longrightarrow> event_typed e
    \<Longrightarrow> store_step env js st st'"
| recover: "mark_interrupted_runs env st recovered_at = Inr (st', runs) \<Longrightarrow> store_step env js st st'"
| delete: "delete_object js st i = (st', d) \<Longrightarrow> store_step env js st st'"
| delete_orphan: "delete_physical_orphan js st x = Inr (st', y) \<Longrightarrow> store_step env js st st'"

definition snapshots_ok :: "'j env \<Rightarrow> 'j db \<Rightarrow> bool" where
  "snapshots_ok env db \<longleftrightarrow> (\<forall>t \<in> sn_id ` set (tb_snapshots db).
     \<exists>i s. snapshot_id_ok i \<and> snapshot_id_text i = t \<and> load_snapshot_from env db i = Inr s)"

definition store_ok :: "'j env \<Rightarrow> 'j store \<Rightarrow> bool" where
  "store_ok env st \<longleftrightarrow> schema_ok (st_db st) \<and> timeline_ok env (st_db st) \<and> ancestry_ok (st_db st)
     \<and> index_ok env st \<and> snapshots_ok env (st_db st)"

subsection \<open>Frames\<close>

lemma index_cong:
  "tb_objects (st_db st) = tb_objects (st_db st') \<Longrightarrow> st_files st = st_files st' \<Longrightarrow> index_ok env st = index_ok env st'"
  by (simp add: index_ok_def objects_table.unique_def)

lemma ancestry_cong: "tb_parents db = tb_parents db' \<Longrightarrow> ancestry_ok db = ancestry_ok db'"
  by (simp add: ancestry_ok_def)

lemma load_snapshot_tables:
  "tb_snapshots db = tb_snapshots db' \<Longrightarrow> tb_entries db = tb_entries db' \<Longrightarrow>
     load_snapshot_from env db i = load_snapshot_from env db' i"
  by (rule load_snapshot_cong) (simp_all add: snapshot_rows_of_def)

lemma snapshots_cong:
  "tb_snapshots db = tb_snapshots db' \<Longrightarrow> tb_entries db = tb_entries db' \<Longrightarrow> snapshots_ok env db = snapshots_ok env db'"
  using load_snapshot_tables [of db db' env] by (simp add: snapshots_ok_def)

lemma status_cong: "tb_runs db = tb_runs db' \<Longrightarrow> status_of db t = status_of db' t"
  by (simp add: status_of_def)

lemma record_object_schema:
  assumes "record_object db stored created = Inr db'" and "schema_ok db"
  shows "schema_ok db' \<and> (\<exists>os. db' = db\<lparr>tb_objects := os\<rparr>)"
proof -
  obtain r where r: "insert_object_or_ignore r db = Some db'"
    using assms(1) by (auto simp: record_object_def and_then_Inr_iff split: if_splits)
  have "\<exists>os. db' = db\<lparr>tb_objects := os\<rparr>"
    using r by (auto simp: insert_object_or_ignore_Some_iff intro: exI [of _ "tb_objects db"])
  moreover have "schema_ok db'"
    using r assms(2) by (auto simp: insert_object_or_ignore_def split: if_splits dest: insert_object_schema)
  ultimately show ?thesis by blast
qed

lemma import_object_frame:
  assumes "import_object env st i bytes created = (st', r)" and "schema_ok (st_db st)"
  shows "schema_ok (st_db st') \<and> (\<exists>os. st_db st' = (st_db st)\<lparr>tb_objects := os\<rparr>)"
proof -
  have same: "\<exists>os. db = db\<lparr>tb_objects := os\<rparr>" for db :: "'a db" by (rule exI [of _ "tb_objects db"]) simp
  show ?thesis
    using assms same record_object_schema [OF _ assms(2)]
    by (auto simp: import_object_def finish_put_def split: sum.splits prod.splits)
qed

lemma put_object_frame:
  assumes "put_object env st bytes created = (st', r)" and "schema_ok (st_db st)"
  shows "schema_ok (st_db st') \<and> (\<exists>os. st_db st' = (st_db st)\<lparr>tb_objects := os\<rparr>)"
proof -
  have "\<exists>os. st_db st = (st_db st)\<lparr>tb_objects := os\<rparr>" by (rule exI [of _ "tb_objects (st_db st)"]) simp
  then show ?thesis
    using assms import_object_frame [of env st _ bytes created st' r]
    by (auto simp: put_object_eq_import split: if_splits)
qed

lemma append_batch_frame:
  assumes "append_event_batch_in env db es = Inr db'"
  shows "\<exists>ev ws cs. db' = db\<lparr>tb_events := ev, tb_warnings := ws, tb_chunks := cs\<rparr>"
proof (cases "es = []")
  case True
  then have "db' = db\<lparr>tb_events := tb_events db, tb_warnings := tb_warnings db, tb_chunks := tb_chunks db\<rparr>"
    using assms by (simp add: append_event_batch_in_def)
  then show ?thesis by blast
next
  case False
  then show ?thesis using append_batch_Inr(6) [OF assms] by blast
qed

lemma append_extends_timeline:
  assumes env: "env_ok env" and t: "timeline_ok env db" and typed: "\<forall>e \<in> set es. event_typed e"
    and a: "append_event_batch_in env db es = Inr db'"
  shows "\<exists>new. timeline env db' run = timeline env db run @ new"
proof (cases "es = []")
  case True
  then show ?thesis using a by (simp add: append_event_batch_in_def)
next
  case False
  show ?thesis
  proof (cases "run = ev_run (hd es)")
    case True
    then show ?thesis using append_then_timeline [OF env t typed a False] by simp
  next
    case other: False
    then have "run_id_text (env_uuid env) run \<noteq> run_id_text (env_uuid env) (ev_run (hd es))"
      using env by (simp add: env_ok_def run_id_text_inj)
    then show ?thesis using run_events_append [OF a False] by (simp add: timeline_def)
  qed
qed

subsection \<open>History\<close>

definition evolves :: "'j env \<Rightarrow> 'j db \<Rightarrow> 'j db \<Rightarrow> bool" where
  \<comment> \<open>timelines grow, those of closed runs do not, and statuses follow the lifecycle\<close>
  "evolves env db db' \<longleftrightarrow>
     (\<forall>run. \<exists>new. timeline env db' run = timeline env db run @ new
        \<and> (\<forall>s. status_of db (run_id_text (env_uuid env) run) = Some (run_status_as_str s) \<and> is_terminal s \<longrightarrow> new = []))
     \<and> (\<forall>t s. status_of db t = Some (run_status_as_str s) \<longrightarrow>
          (\<exists>s'. status_of db' t = Some (run_status_as_str s') \<and> lifecycle\<^sup>*\<^sup>* s s'))"

definition db_ok :: "'j env \<Rightarrow> 'j db \<Rightarrow> bool" where
  "db_ok env db \<longleftrightarrow> schema_ok db \<and> timeline_ok env db \<and> ancestry_ok db \<and> snapshots_ok env db"

lemma store_ok_iff: "store_ok env st \<longleftrightarrow> db_ok env (st_db st) \<and> index_ok env st"
  by (auto simp: store_ok_def db_ok_def)

lemma terminal_closed: "lifecycle\<^sup>*\<^sup>* s t \<Longrightarrow> is_terminal s \<Longrightarrow> t = s"
  by (induction rule: rtranclp_induct) (auto simp: lifecycle_iff dest: terminal_stuck)

lemma evolves_trans:
  assumes "evolves env db1 db2" and "evolves env db2 db3"
  shows "evolves env db1 db3"
proof -
  have time: "\<exists>new. timeline env db3 run = timeline env db1 run @ new
      \<and> (\<forall>s. status_of db1 (run_id_text (env_uuid env) run) = Some (run_status_as_str s) \<and> is_terminal s \<longrightarrow> new = [])" for run
  proof -
    let ?t = "run_id_text (env_uuid env) run"
    obtain a where a: "timeline env db2 run = timeline env db1 run @ a"
      "\<forall>s. status_of db1 ?t = Some (run_status_as_str s) \<and> is_terminal s \<longrightarrow> a = []"
      using assms(1) unfolding evolves_def by blast
    obtain b where b: "timeline env db3 run = timeline env db2 run @ b"
      "\<forall>s. status_of db2 ?t = Some (run_status_as_str s) \<and> is_terminal s \<longrightarrow> b = []"
      using assms(2) unfolding evolves_def by blast
    have "b = []" if s: "status_of db1 ?t = Some (run_status_as_str s)" "is_terminal s" for s
    proof -
      obtain s' where "status_of db2 ?t = Some (run_status_as_str s')" "lifecycle\<^sup>*\<^sup>* s s'"
        using assms(1) s(1) unfolding evolves_def by blast
      then show ?thesis using b(2) terminal_closed s(2) by blast
    qed
    then show ?thesis using a b by (intro exI [of _ "a @ b"]) auto
  qed
  have "\<exists>s'. status_of db3 t = Some (run_status_as_str s') \<and> lifecycle\<^sup>*\<^sup>* s s'"
    if "status_of db1 t = Some (run_status_as_str s)" for t s
    using assms that unfolding evolves_def by (meson rtranclp_trans)
  then show ?thesis using time unfolding evolves_def by blast
qed

lemma evolves_events:
  assumes "tb_events db' = tb_events db"
    and "\<And>t s. status_of db t = Some (run_status_as_str s) \<Longrightarrow>
      \<exists>s'. status_of db' t = Some (run_status_as_str s') \<and> lifecycle\<^sup>*\<^sup>* s s'"
  shows "evolves env db db'"
  using assms timeline_cong(2) [of db' db env] by (simp add: evolves_def)

lemma evolves_same: "tb_events db' = tb_events db \<Longrightarrow> \<forall>t. status_of db' t = status_of db t \<Longrightarrow> evolves env db db'"
  by (rule evolves_events) auto

lemma evolves_refl: "evolves env db db"
  by (rule evolves_same) simp_all

lemma append_step:
  assumes "env_ok env" and ok: "db_ok env db" and typed: "\<forall>e \<in> set es. event_typed e"
    and a: "append_event_batch_in env db es = Inr db'"
  shows "db_ok env db' \<and> evolves env db db'"
proof -
  obtain ev ws cs where d: "db' = db\<lparr>tb_events := ev, tb_warnings := ws, tb_chunks := cs\<rparr>"
    using append_batch_frame [OF a] by blast
  have t: "timeline_ok env db" using ok by (simp add: db_ok_def)
  have "\<exists>new. timeline env db' run = timeline env db run @ new
      \<and> (\<forall>s. status_of db (run_id_text (env_uuid env) run) = Some (run_status_as_str s) \<and> is_terminal s \<longrightarrow> new = [])" for run
  proof (cases "es = [] \<or> run_id_text (env_uuid env) run \<noteq> run_id_text (env_uuid env) (ev_run (hd es))")
    case True
    then have "run_events db' (run_id_text (env_uuid env) run) = run_events db (run_id_text (env_uuid env) run)"
      using a run_events_append [OF a] by (cases "es = []") (auto simp: append_event_batch_in_def)
    then have "timeline env db' run = timeline env db run" by (simp add: timeline_def)
    then show ?thesis by simp
  next
    case False
    then have "\<forall>s. status_of db (run_id_text (env_uuid env) run) = Some (run_status_as_str s) \<longrightarrow> \<not> is_terminal s"
      using closed_to_events [of db env es] a by (auto simp: is_ok_iff)
    then show ?thesis using append_extends_timeline [OF assms(1) t typed a] by blast
  qed
  then have "evolves env db db'" by (auto simp: evolves_def d status_of_def)
  moreover have "db_ok env db'"
    using ok append_batch_schema [OF a] append_timeline_ok [OF assms(1) t typed a]
      ancestry_cong [of db' db] snapshots_cong [of db' db env] by (simp add: db_ok_def d)
  ultimately show ?thesis by blast
qed

lemma finish_step:
  assumes ok: "db_ok env db" and f: "finish_run_in env db run outcome = Inr db'"
  shows "db_ok env db' \<and> evolves env db db'"
proof -
  have "schema_ok db" using ok by (simp add: db_ok_def)
  note r = finish_run_in_Inr [OF f this]
  obtain rs where d: "db' = db\<lparr>tb_runs := rs\<rparr>" using r by blast
  have "\<exists>s'. status_of db' t = Some (run_status_as_str s') \<and> lifecycle\<^sup>*\<^sup>* s s'"
    if "status_of db t = Some (run_status_as_str s)" for t s
  proof (cases "t = run_id_text (env_uuid env) run")
    case True
    obtain sa where "status_of db t = Some (run_status_as_str sa)" "lifecycle sa (rf_status outcome)"
      using r True by blast
    moreover from this have "s = sa" using that run_status_form.display_inj [of s sa] by simp
    ultimately show ?thesis using r True by blast
  next
    case False
    then show ?thesis using r that by auto
  qed
  then have "evolves env db db'" by (intro evolves_events) (simp_all add: d)
  moreover have "db_ok env db'"
    using ok r timeline_cong [of db' db env] ancestry_cong [of db' db] snapshots_cong [of db' db env] by (simp add: db_ok_def d)
  ultimately show ?thesis by blast
qed

lemma create_step:
  assumes env: "env_ok env" and ok: "db_ok env db" and c: "create_run_in env db r = Inr db'"
  shows "db_ok env db' \<and> evolves env db db'"
proof -
  obtain row where d: "db' = db\<lparr>tb_runs := tb_runs db @ [row],
              tb_arguments := tb_arguments db @ argument_rows (run_id_text (env_uuid env) (run_identity r)) 0 (run_arguments r),
              tb_parents := tb_parents db @ parent_rows env r\<rparr>"
    and s: "schema_ok db \<longrightarrow> schema_ok db'"
    using create_run_in_Inr [OF c] by blast
  have "\<exists>s'. status_of db' t = Some (run_status_as_str s') \<and> lifecycle\<^sup>*\<^sup>* s s'"
    if "status_of db t = Some (run_status_as_str s)" for t s
    using that by (auto simp: status_of_def d select_row_append)
  then have "evolves env db db'" by (intro evolves_events) (simp_all add: d)
  moreover have "ancestry_ok db'" using create_run_ancestry [OF c] env ok by (simp add: env_ok_def db_ok_def)
  then have "db_ok env db'"
    using ok s timeline_cong [of db' db env] snapshots_cong [of db' db env] by (simp add: db_ok_def d)
  ultimately show ?thesis by blast
qed

lemma recovered_step:
  assumes ok: "db_ok env db" and s: "schema_ok (recovered db t)"
  shows "db_ok env (recovered db t) \<and> evolves env db (recovered db t)"
proof -
  have "\<exists>s'. status_of (recovered db t) u = Some (run_status_as_str s') \<and> lifecycle\<^sup>*\<^sup>* s s'"
    if u: "status_of db u = Some (run_status_as_str s)" for u s
  proof (cases "is_terminal s")
    case True
    then show ?thesis using u by (auto simp: recovered_status active_status_iff)
  next
    case False
    then have "lifecycle s Interrupted" by (cases s) (simp_all add: lifecycle_iff)
    then show ?thesis using u False by (intro exI [of _ Interrupted]) (auto simp: recovered_status active_status_iff)
  qed
  then have "evolves env db (recovered db t)" by (intro evolves_events) (simp_all add: recovered_def)
  moreover have "db_ok env (recovered db t)"
    using ok s recovered_timeline(1) [of env db t] ancestry_cong [of "recovered db t" db] snapshots_cong [of "recovered db t" db env]
    by (simp add: db_ok_def recovered_def)
  ultimately show ?thesis by blast
qed

lemma store_snapshot_in_ids:
  assumes "store_snapshot_in env db s created_at = Inr db'"
  shows "sn_id ` set (tb_snapshots db') \<subseteq> insert (snapshot_id_text (snapshot_identity s)) (sn_id ` set (tb_snapshots db))"
proof -
  let ?t = "snapshot_id_text (snapshot_identity s)"
  obtain row db1 n where i: "insert_snapshot_or_ignore row db = Some (db1, n)" and row: "sn_id row = ?t"
    and rest: "(if n = 0 then and_then (load_snapshot_from env db1 (snapshot_identity s)) (\<lambda>existing.
           if existing \<noteq> s then Inl (InvalidSnapshot ?t) else Inr db1)
       else fold_result (store_entry ?t) db1 (manifest_entries (snapshot_content s))) = Inr db'"
    using assms by (auto simp: store_snapshot_in_def Let_def and_then_Inr_iff)
  have "tb_snapshots db' = tb_snapshots db1"
  proof (cases "n = 0")
    case True
    then show ?thesis using rest by (auto simp: and_then_Inr_iff split: if_splits)
  next
    case False
    then have "fold_result (store_entry ?t) db1 (manifest_entries (snapshot_content s)) = Inr db'" using rest by simp
    then show ?thesis by (auto dest!: store_entries_Inr)
  qed
  then show ?thesis using insert_or_ignore_cases [OF i] row by auto
qed

lemma snapshot_step:
  assumes ok: "db_ok env db" and typed: "snapshot_typed s" and v: "validate_snapshot env s = Inr ()"
    and st: "store_snapshot_in env db s created_at = Inr db'"
  shows "db_ok env db' \<and> evolves env db db'"
proof -
  have schema: "schema_ok db" using ok by (simp add: db_ok_def)
  note r = store_snapshot_in_Inr [OF st schema typed v]
  obtain sn se where d: "db' = db\<lparr>tb_snapshots := sn, tb_entries := se\<rparr>" using r by blast
  let ?t = "snapshot_id_text (snapshot_identity s)"
  have "\<exists>i x. snapshot_id_ok i \<and> snapshot_id_text i = t \<and> load_snapshot_from env db' i = Inr x"
    if t: "t \<in> sn_id ` set (tb_snapshots db')" for t
  proof (cases "t = ?t")
    case True
    then show ?thesis using r typed by (auto simp: snapshot_typed_def)
  next
    case False
    then have "t \<in> sn_id ` set (tb_snapshots db)"
      using t store_snapshot_in_ids [OF st] by blast
    then obtain i x where "snapshot_id_ok i" "snapshot_id_text i = t" "load_snapshot_from env db i = Inr x"
      using ok by (fastforce simp: db_ok_def snapshots_ok_def)
    then show ?thesis using r False by auto
  qed
  then have "snapshots_ok env db'" by (simp add: snapshots_ok_def)
  then have "db_ok env db'"
    using ok r timeline_cong [of db' db env] ancestry_cong [of db' db] by (simp add: db_ok_def d)
  moreover have "evolves env db db'" by (rule evolves_same) (simp_all add: d status_of_def)
  ultimately show ?thesis by blast
qed

lemma commit_checkpoint_in_snapshots:
  assumes "commit_checkpoint_in env db c s = Inr db'"
  shows "\<exists>db1. store_snapshot_in env db s (ck_created_at c) = Inr db1
    \<and> tb_snapshots db' = tb_snapshots db1 \<and> tb_entries db' = tb_entries db1"
proof -
  obtain db1 db2 row where db1: "store_snapshot_in env db s (ck_created_at c) = Inr db1"
    and db2: "insert_checkpoint row db1 = Some db2"
    and l: "(case ck_reason c of
         ReasonInitial \<Rightarrow> set_run_initial env db2 (ck_run c) (ck_snapshot c)
       | ReasonFinal \<Rightarrow> set_run_final env db2 (ck_run c) (ck_snapshot c)
       | _ \<Rightarrow> Inr db2) = Inr db'"
    using assms unfolding commit_checkpoint_in_def by (auto simp only: and_then_Inr_iff ok_or_Inr_iff)
  have "tb_snapshots db' = tb_snapshots db2 \<and> tb_entries db' = tb_entries db2"
    using l by (cases "ck_reason c")
      (auto simp: set_run_initial_def set_run_final_def and_then_Inr_iff update_runs_Some_iff split: if_splits)
  moreover have "tb_snapshots db2 = tb_snapshots db1 \<and> tb_entries db2 = tb_entries db1"
    using db2 by (simp add: insert_checkpoint_def if_Some_iff)
  ultimately show ?thesis using db1 by auto
qed

lemma checkpoint_step:
  assumes ok: "db_ok env db" and typed: "snapshot_typed s" and v: "validate_checkpoint_snapshot env c s = Inr ()"
    and c: "commit_checkpoint_in env db c s = Inr db'"
  shows "db_ok env db' \<and> evolves env db db'"
proof -
  have schema: "schema_ok db" using ok by (simp add: db_ok_def)
  note r = commit_checkpoint_in_Inr [OF c schema typed v]
  obtain sn se ks rs where d: "db' = db\<lparr>tb_snapshots := sn, tb_entries := se, tb_checkpoints := ks, tb_runs := rs\<rparr>"
    using r by blast
  obtain db1 where db1: "store_snapshot_in env db s (ck_created_at c) = Inr db1"
    and same: "tb_snapshots db' = tb_snapshots db1" "tb_entries db' = tb_entries db1"
    using commit_checkpoint_in_snapshots [OF c] by blast
  have "validate_snapshot env s = Inr ()" using v by (auto simp: validate_checkpoint_snapshot_def Let_def and_then_Inr_iff)
  then have "snapshots_ok env db'"
    using snapshot_step [OF ok typed _ db1] snapshots_cong [OF same, of env] by (simp add: db_ok_def)
  moreover have "schema_ok db'" using r by blast
  ultimately have "db_ok env db'"
    using ok timeline_cong [of db' db env] ancestry_cong [of db' db] by (simp add: db_ok_def d)
  moreover have "tb_events db' = tb_events db" by (simp add: d)
  then have "evolves env db db'" using r by (intro evolves_same) blast+
  ultimately show ?thesis by blast
qed

subsection \<open>Every reachable store is well formed\<close>

lemma index_kept:
  assumes "index_ok env st" and "st' = st\<lparr>st_db := db\<rparr>" and "tb_objects db = tb_objects (st_db st)"
  shows "index_ok env st'"
  using index_cong [of st' st env] assms by simp

lemma db_same_step:
  assumes "db_ok env db" and "db' = db\<lparr>tb_objects := os\<rparr>" and "schema_ok db'"
  shows "db_ok env db' \<and> evolves env db db'"
  using assms timeline_cong [of db' db env] ancestry_cong [of db' db] snapshots_cong [of db' db env]
    evolves_same [of db' db env] by (simp add: db_ok_def status_of_def)

lemma store_step_ok:
  assumes "store_step env js st st'" and env: "env_ok env" and ok: "store_ok env st"
  shows "store_ok env st' \<and> evolves env (st_db st) (st_db st')"
proof -
  have db: "db_ok env (st_db st)" and index: "index_ok env st" and schema: "schema_ok (st_db st)"
    using ok by (simp_all add: store_ok_iff db_ok_def)
  have hash: "hash_ok (env_hash env)" using env by (simp add: env_ok_def)
  have kept: ?thesis
    if "st' = st\<lparr>st_db := d\<rparr>" "tb_objects d = tb_objects (st_db st)" "db_ok env d \<and> evolves env (st_db st) d" for d
    using that index_kept [OF index that(1,2)] by (simp add: store_ok_iff)
  show ?thesis using assms(1)
  proof cases
    case (put bytes created r)
    then show ?thesis
      using put_object_frame [OF put schema] db_same_step [OF db] put_object_index_ok [OF index hash put]
      by (auto simp: store_ok_iff)
  next
    case (import i bytes created r)
    then show ?thesis
      using import_object_frame [OF import schema] db_same_step [OF db] import_object_index_ok [OF index hash import]
      by (auto simp: store_ok_iff)
  next
    case (append es)
    show ?thesis
    proof (cases "es = []")
      case True
      then have "st' = st" using append(1) by (auto simp: append_event_batch_def and_then_Inr_iff)
      then show ?thesis using ok evolves_refl by simp
    next
      case False
      then obtain d where d: "append_event_batch_in env (st_db st) es = Inr d" "st' = st\<lparr>st_db := d\<rparr>"
        using append(1) by (auto simp: append_event_batch_def and_then_Inr_iff map_ok_Inr_iff)
      then show ?thesis
        using kept [OF d(2)] append_step [OF env db append(2) d(1)] append_batch_frame [OF d(1)] by auto
    qed
  next
    case (create r)
    then obtain d where d: "create_run_in env (st_db st) r = Inr d" "st' = st\<lparr>st_db := d\<rparr>"
      by (auto simp: create_run_def Let_def and_then_Inr_iff map_ok_Inr_iff)
    then show ?thesis
      using kept [OF d(2)] create_step [OF env db d(1)] create_run_in_Inr [OF d(1)] by auto
  next
    case (running run snap)
    note r = mark_run_running_Inr [OF running schema]
    obtain rs where d: "st' = st\<lparr>st_db := (st_db st)\<lparr>tb_runs := rs\<rparr>\<rparr>" using r by blast
    have "\<exists>s'. status_of (st_db st') t = Some (run_status_as_str s') \<and> lifecycle\<^sup>*\<^sup>* s s'"
      if s: "status_of (st_db st) t = Some (run_status_as_str s)" for t s
    proof (cases "t = run_id_text (env_uuid env) run")
      case True
      then have "status_of (st_db st) t = Some ''preparing''" using r by blast
      then have "run_status_as_str s = ''preparing''" using s by simp
      then have "s = Preparing" by (cases s) simp_all
      moreover have "lifecycle Preparing Running" by (simp add: lifecycle_iff)
      moreover have "status_of (st_db st') t = Some (run_status_as_str Running)" using r True by simp
      ultimately show ?thesis by blast
    next
      case False
      then show ?thesis using r s by auto
    qed
    then have "evolves env (st_db st) (st_db st')" by (intro evolves_events) (simp_all add: d)
    moreover have "db_ok env (st_db st')"
      using db r timeline_cong [of "st_db st'" "st_db st" env] ancestry_cong [of "st_db st'" "st_db st"]
        snapshots_cong [of "st_db st'" "st_db st" env] by (simp add: db_ok_def d)
    ultimately show ?thesis using kept [OF d] by (simp add: d)
  next
    case (finish run outcome)
    then obtain d where d: "finish_run_in env (st_db st) run outcome = Inr d" "st' = st\<lparr>st_db := d\<rparr>"
      by (auto simp: finish_run_def and_then_Inr_iff map_ok_Inr_iff)
    then show ?thesis
      using kept [OF d(2)] finish_step [OF db d(1)] finish_run_in_Inr [OF d(1) schema] by auto
  next
    case (finish_events run outcome es)
    then obtain d1 d where d: "append_event_batch_in env (st_db st) es = Inr d1"
      "finish_run_in env d1 run outcome = Inr d" "st' = st\<lparr>st_db := d\<rparr>"
      by (auto simp: finish_run_with_events_def and_then_Inr_iff map_ok_Inr_iff split: if_splits)
    have one: "db_ok env d1 \<and> evolves env (st_db st) d1" by (rule append_step [OF env db finish_events(2) d(1)])
    then have two: "db_ok env d \<and> evolves env d1 d" using finish_step [OF _ d(2)] by blast
    have "tb_objects d = tb_objects (st_db st)"
      using append_batch_frame [OF d(1)] finish_run_in_Inr [OF d(2)] one by (auto simp: db_ok_def)
    then show ?thesis using kept [OF d(3)] one two evolves_trans by blast
  next
    case (snapshot s created_at)
    then obtain d where v: "validate_snapshot env s = Inr ()"
      and d: "store_snapshot_in env (st_db st) s created_at = Inr d" "st' = st\<lparr>st_db := d\<rparr>"
      by (auto simp: store_snapshot_def and_then_Inr_iff map_ok_Inr_iff)
    then show ?thesis
      using kept [OF d(2)] snapshot_step [OF db snapshot(2) v d(1)] store_snapshot_in_Inr [OF d(1) schema snapshot(2) v]
      by auto
  next
    case (checkpoint c s)
    then obtain d where v: "validate_checkpoint_snapshot env c s = Inr ()"
      and d: "commit_checkpoint_in env (st_db st) c s = Inr d" "st' = st\<lparr>st_db := d\<rparr>"
      by (auto simp: commit_checkpoint_def and_then_Inr_iff map_ok_Inr_iff)
    then show ?thesis
      using kept [OF d(2)] checkpoint_step [OF db checkpoint(2) v d(1)]
        commit_checkpoint_in_Inr [OF d(1) schema checkpoint(2) v] by auto
  next
    case (checkpoint_event c s e)
    then obtain d1 d where v: "validate_checkpoint_snapshot env c s = Inr ()"
      and d: "commit_checkpoint_in env (st_db st) c s = Inr d1" "append_event_batch_in env d1 [e] = Inr d" "st' = st\<lparr>st_db := d\<rparr>"
      by (auto simp: commit_checkpoint_with_event_def and_then_Inr_iff map_ok_Inr_iff)
    have one: "db_ok env d1 \<and> evolves env (st_db st) d1" by (rule checkpoint_step [OF db checkpoint_event(2) v d(1)])
    then have two: "db_ok env d \<and> evolves env d1 d" using append_step [OF env _ _ d(2)] checkpoint_event(3) by simp
    have "tb_objects d = tb_objects (st_db st)"
      using append_batch_frame [OF d(2)] commit_checkpoint_in_Inr [OF d(1) schema checkpoint_event(2) v] by auto
    then show ?thesis using kept [OF d(3)] one two evolves_trans by blast
  next
    case (recover recovered_at runs)
    have r: "st' = st\<lparr>st_db := recovered (st_db st) recovered_at\<rparr>" "schema_ok (st_db st')"
      using mark_interrupted_runs_Inr [OF recover schema] by blast+
    then show ?thesis using kept [OF r(1)] recovered_step [OF db] by (simp add: recovered_def)
  next
    case (delete i d)
    have s: "schema_ok (st_db st')" by (rule delete_object_schema_ok [OF delete index schema])
    have "\<exists>os. st_db st' = (st_db st)\<lparr>tb_objects := os\<rparr>"
      using delete_object_cases [OF delete index] by (auto intro: exI [of _ "tb_objects (st_db st)"])
    then show ?thesis
      using db_same_step [OF db _ s] delete_object_index_ok [OF delete index] by (auto simp: store_ok_iff)
  next
    case (delete_orphan x y)
    have "st_db st' = st_db st" using delete_physical_orphan_Inr [OF delete_orphan] by simp
    then show ?thesis
      using db delete_physical_orphan_index_ok [OF delete_orphan index] evolves_refl by (simp add: store_ok_iff)
  qed
qed

lemma empty_store_ok: "store_ok env empty_store"
proof -
  have "timeline_ok env empty_db" by (simp add: timeline_ok_def run_events_def empty_db_def del: upt_Suc)
  moreover have "ancestry_ok empty_db" by (simp add: ancestry_ok_def parent_edges_def empty_db_def acyclic_def)
  moreover have "index_ok env empty_store" "snapshots_ok env empty_db"
    by (simp_all add: index_ok_def objects_table.unique_def snapshots_ok_def empty_store_def empty_db_def)
  ultimately show ?thesis using empty_db_ok by (simp add: store_ok_def empty_store_def)
qed

lemma reachable_store_ok:
  assumes "(store_step env js)\<^sup>*\<^sup>* st st'" and "env_ok env" and "store_ok env st"
  shows "store_ok env st' \<and> evolves env (st_db st) (st_db st')"
  using assms(1)
proof (induction rule: rtranclp_induct)
  case base
  then show ?case using assms(3) evolves_refl by blast
next
  case (step b c)
  then show ?case using store_step_ok [OF _ assms(2)] evolves_trans by blast
qed

subsection \<open>Recorded history stays readable\<close>

definition terminal_objects_ok :: "'j env \<Rightarrow> 'j db \<Rightarrow> bool" where
  \<comment> \<open>every recorded terminal frame has its indexed object\<close>
  "terminal_objects_ok env db \<longleftrightarrow> (\<forall>r \<in> set (tb_events db). \<forall>e. row_decodes env r e \<longrightarrow> reference_ok db e)"

lemma reference_ok_objects: "tb_objects db' = tb_objects db \<Longrightarrow> reference_ok db' e = reference_ok db e"
  by (simp add: reference_ok_def)

lemma terminal_same:
  "tb_events db' = tb_events db \<Longrightarrow> tb_objects db' = tb_objects db \<Longrightarrow> terminal_objects_ok env db \<Longrightarrow> terminal_objects_ok env db'"
  by (simp add: terminal_objects_ok_def reference_ok_def)

lemma terminal_append_objects:
  assumes "terminal_objects_ok env db" and "tb_events db' = tb_events db" and "tb_objects db' = tb_objects db @ os"
  shows "terminal_objects_ok env db'"
proof -
  have "select_row ob_id k (tb_objects db') = Some r" if "select_row ob_id k (tb_objects db) = Some r" for k r
    using that assms(3) by (simp add: select_row_append)
  then have "reference_ok db' e" if "reference_ok db e" for e
    using that unfolding reference_ok_def by blast
  then show ?thesis using assms(1,2) by (simp add: terminal_objects_ok_def)
qed

lemma terminal_put:
  assumes "import_object env st i bytes created = (st', r)" and t: "terminal_objects_ok env (st_db st)"
  shows "terminal_objects_ok env (st_db st')"
proof -
  have "record_object db so created = Inr db' \<Longrightarrow> \<exists>os. tb_events db' = tb_events db \<and> tb_objects db' = tb_objects db @ os"
    for db db' :: "'a db" and so
    using record_object_Inr [of db so created db'] by (auto split: if_splits)
  then have "\<exists>os. tb_events (st_db st') = tb_events (st_db st) \<and> tb_objects (st_db st') = tb_objects (st_db st) @ os"
    using assms(1) by (auto simp: import_object_def finish_put_def split: sum.splits prod.splits)
  then show ?thesis using terminal_append_objects [OF t] by blast
qed

lemma terminal_append:
  assumes env: "env_ok env" and t: "terminal_objects_ok env db" and typed: "\<forall>e \<in> set es. event_typed e"
    and a: "append_event_batch_in env db es = Inr db'"
  shows "terminal_objects_ok env db'"
proof (cases "es = []")
  case True
  then show ?thesis using a t by (simp add: append_event_batch_in_def)
next
  case False
  note b = append_batch_Inr [OF a False]
  have objs: "tb_objects db' = tb_objects db" and evs: "tb_events db' = tb_events db @ map (event_columns env) es"
    using b(6) by simp_all
  have "reference_ok db x" if "e \<in> set es" "row_decodes env (event_columns env e) x" for e x
  proof -
    have "row_decodes env (event_columns env e) e"
      using that(1) b(1,7) typed by (intro row_decodes_columns [OF env]) auto
    then have "x = e" using that(2) by (simp add: row_decodes_def)
    then show ?thesis using that(1) b(7) by blast
  qed
  then show ?thesis using t unfolding terminal_objects_ok_def evs reference_ok_objects [OF objs] by auto
qed

lemma terminal_delete:
  assumes js: "json_lib_ok env js" and t: "terminal_objects_ok env (st_db st)" and index: "index_ok env st"
    and d: "delete_object js st i = (st', d)"
  shows "terminal_objects_ok env (st_db st')"
  using delete_object_cases [OF d index]
proof (elim disjE exE conjE)
  fix x r
  assume ref: "\<not> object_is_referenced js (st_db st) i"
    and st': "st' = st\<lparr>st_files := (st_files st)(path_for i := None),
                   st_db := (st_db st)\<lparr>tb_objects := filter (\<lambda>r. ob_id r \<noteq> object_id_text i) (tb_objects (st_db st))\<rparr>\<rparr>"
  have sel: "select_row ob_id k (filter (\<lambda>r. ob_id r \<noteq> u) rows) = select_row ob_id k rows" if "k \<noteq> u" for k u rows
    using that by (induction rows) auto
  have "reference_ok (st_db st') e"
    if r: "r \<in> set (tb_events (st_db st))" "row_decodes env r e" "reference_ok (st_db st) e" for r e
  proof -
    have "object_id_text j \<noteq> object_id_text i" if "referenced_object (ev_payload e) = Some (j, n)" for j n
    proof
      assume "object_id_text j = object_id_text i"
      then have "event_object js r = Some (object_id_text i)" using event_object_of [OF js r(2)] that by simp
      then show False using ref r(1) by (auto simp: object_is_referenced_def list_ex_iff Let_def)
    qed
    then show ?thesis using r(3) by (simp add: reference_ok_def st' sel)
  qed
  then show ?thesis using t by (simp add: terminal_objects_ok_def st')
qed (use t in simp)

lemma commit_checkpoint_in_tables:
  assumes "commit_checkpoint_in env db c s = Inr db'" and "schema_ok db" and "snapshot_typed s"
    and "validate_checkpoint_snapshot env c s = Inr ()"
  shows "tb_events db' = tb_events db \<and> tb_objects db' = tb_objects db"
  using commit_checkpoint_in_Inr [OF assms] by auto

lemma store_step_terminal:
  assumes "store_step env js st st'" and env: "env_ok env" and js: "json_lib_ok env js" and ok: "store_ok env st"
    and t: "terminal_objects_ok env (st_db st)"
  shows "terminal_objects_ok env (st_db st')"
proof -
  have index: "index_ok env st" and schema: "schema_ok (st_db st)" using ok by (simp_all add: store_ok_def)
  have kept: ?thesis if "tb_events (st_db st') = tb_events (st_db st) \<and> tb_objects (st_db st') = tb_objects (st_db st)"
    using terminal_same [of "st_db st'" "st_db st" env] that t by blast
  show ?thesis using assms(1)
  proof cases
    case (put bytes created r)
    then show ?thesis
      using t terminal_put [of env st _ bytes created st' r] by (auto simp: put_object_eq_import split: if_splits)
  next
    case (import i bytes created r)
    then show ?thesis using t by (rule terminal_put)
  next
    case (append es)
    show ?thesis
    proof (cases "es = []")
      case True
      then show ?thesis using append(1) t by (auto simp: append_event_batch_def and_then_Inr_iff)
    next
      case False
      then obtain d where d: "append_event_batch_in env (st_db st) es = Inr d" "st' = st\<lparr>st_db := d\<rparr>"
        using append(1) by (auto simp: append_event_batch_def and_then_Inr_iff map_ok_Inr_iff)
      then show ?thesis using terminal_append [OF env t append(2) d(1)] by simp
    qed
  next
    case (create r)
    then obtain d where d: "create_run_in env (st_db st) r = Inr d" "st' = st\<lparr>st_db := d\<rparr>"
      by (auto simp: create_run_def Let_def and_then_Inr_iff map_ok_Inr_iff)
    then show ?thesis using create_run_in_Inr [OF d(1)] by (intro kept) auto
  next
    case (running run snap)
    then show ?thesis using mark_run_running_Inr [OF running schema] by (intro kept) auto
  next
    case (finish run outcome)
    then obtain d where d: "finish_run_in env (st_db st) run outcome = Inr d" "st' = st\<lparr>st_db := d\<rparr>"
      by (auto simp: finish_run_def and_then_Inr_iff map_ok_Inr_iff)
    then show ?thesis using finish_run_in_Inr [OF d(1) schema] by (intro kept) auto
  next
    case (finish_events run outcome es)
    then obtain d1 d where d: "append_event_batch_in env (st_db st) es = Inr d1"
      "finish_run_in env d1 run outcome = Inr d" "st' = st\<lparr>st_db := d\<rparr>"
      by (auto simp: finish_run_with_events_def and_then_Inr_iff map_ok_Inr_iff split: if_splits)
    have "schema_ok d1" by (rule append_batch_schema [OF d(1) schema])
    then show ?thesis
      using terminal_append [OF env t finish_events(2) d(1)] finish_run_in_Inr [OF d(2)] terminal_same [of d d1 env]
      by (auto simp: d(3))
  next
    case (snapshot s created_at)
    then obtain d where v: "validate_snapshot env s = Inr ()"
      and d: "store_snapshot_in env (st_db st) s created_at = Inr d" "st' = st\<lparr>st_db := d\<rparr>"
      by (auto simp: store_snapshot_def and_then_Inr_iff map_ok_Inr_iff)
    then show ?thesis using store_snapshot_in_Inr [OF d(1) schema snapshot(2) v] by (intro kept) auto
  next
    case (checkpoint c s)
    then obtain d where v: "validate_checkpoint_snapshot env c s = Inr ()"
      and d: "commit_checkpoint_in env (st_db st) c s = Inr d" "st' = st\<lparr>st_db := d\<rparr>"
      by (auto simp: commit_checkpoint_def and_then_Inr_iff map_ok_Inr_iff)
    then show ?thesis using commit_checkpoint_in_tables [OF d(1) schema checkpoint(2) v] by (intro kept) simp
  next
    case (checkpoint_event c s e)
    then obtain d1 d where v: "validate_checkpoint_snapshot env c s = Inr ()"
      and d: "commit_checkpoint_in env (st_db st) c s = Inr d1" "append_event_batch_in env d1 [e] = Inr d" "st' = st\<lparr>st_db := d\<rparr>"
      by (auto simp: commit_checkpoint_with_event_def and_then_Inr_iff map_ok_Inr_iff)
    have "terminal_objects_ok env d1"
      using terminal_same [of d1 "st_db st" env] commit_checkpoint_in_tables [OF d(1) schema checkpoint_event(2) v] t by simp
    then show ?thesis using terminal_append [OF env _ _ d(2)] checkpoint_event(3) d(3) by simp
  next
    case (recover recovered_at runs)
    then show ?thesis using mark_interrupted_runs_Inr [OF recover schema] by (intro kept) (auto simp: recovered_def)
  next
    case (delete i d)
    then show ?thesis using terminal_delete [OF js t index] by blast
  next
    case (delete_orphan x y)
    then show ?thesis using delete_physical_orphan_Inr [OF delete_orphan] by (intro kept) simp
  qed
qed

lemma reachable_terminal:
  assumes "(store_step env js)\<^sup>*\<^sup>* st st'" and env: "env_ok env" and js: "json_lib_ok env js" and ok: "store_ok env st"
    and "terminal_objects_ok env (st_db st)"
  shows "terminal_objects_ok env (st_db st')"
  using assms(1)
proof (induction rule: rtranclp_induct)
  case (step b c)
  then show ?case using store_step_terminal [OF _ env js] reachable_store_ok [OF step(1) env ok] by blast
qed (rule assms(5))

lemma indexed_object_loads:
  assumes "index_ok env st" and "object_id_ok i"
    and "select_row ob_id (object_id_text i) (tb_objects (st_db st)) = Some r" and "ob_logical_size r = uint n"
  shows "\<exists>bs. load_object env st i n = Inr bs \<and> length bs = unat n \<and> ObjectId (env_hash env bs) = i"
proof -
  have r: "r \<in> set (tb_objects (st_db st))" "ob_id r = object_id_text i" using select_row_Some [OF assms(3)] by blast+
  then obtain j bs where j: "object_id_ok j" "ob_id r = object_id_text j"
    and h: "holds_object (env_hash env) (st_files st) j bs" and s: "ob_logical_size r = int (length bs)"
    using assms(1) unfolding index_ok_def object_indexed_def by blast
  have "j = i" using j r(2) by simp
  moreover have "length bs = unat n" using s assms(4) by (simp add: unat_eq_nat_uint)
  ultimately show ?thesis
    using h unfolding load_object_Inr_iff by (intro exI [of _ bs]) (simp add: holds_object_def)
qed

lemma terminal_frame_loads:
  assumes js: "json_lib_ok env js" and ok: "store_ok env st" and t: "terminal_objects_ok env (st_db st)"
    and e: "e \<in> set (timeline env (st_db st) run)" and r: "referenced_object (ev_payload e) = Some (i, n)"
  shows "\<exists>bs. load_object env st i n = Inr bs \<and> length bs = unat n \<and> ObjectId (env_hash env bs) = i"
proof -
  have time: "timeline_ok env (st_db st)" using ok by (simp add: store_ok_def)
  obtain k where "k < length (timeline env (st_db st) run)" "timeline env (st_db st) run ! k = e"
    using e by (auto simp: in_set_conv_nth)
  then obtain row where row: "row \<in> set (run_events (st_db st) (run_id_text (env_uuid env) run))" "row_decodes env row e"
    using timeline_rows [OF time, of run] by (metis list_all2_conv_all_nth nth_mem)
  then have "reference_ok (st_db st) e" using t by (auto simp: terminal_objects_ok_def run_events_def)
  moreover have "object_id_ok i" using row_decodes_payload [OF row(2)] js r by (auto simp: json_lib_ok_def)
  ultimately show ?thesis using indexed_object_loads ok r unfolding reference_ok_def store_ok_def by blast
qed

lemma decode_entry_rows_objects:
  "fold_result (decode_entry_row t) (es0, acc) rows = Inr (es, z) \<Longrightarrow>
     \<exists>ds. es = es0 @ ds \<and> list_all2 (\<lambda>r e. \<forall>j n x. entry_kind e = File j n x \<longrightarrow> se_object r = Some (object_id_text j) \<and> object_id_ok j) rows ds"
proof (induction rows arbitrary: es0 acc)
  case (Cons r rows)
  then obtain p where p: "decode_entry_row t (es0, acc) r = Inr p" "fold_result (decode_entry_row t) p rows = Inr (es, z)"
    by (auto simp: and_then_Inr_iff)
  obtain e acc' where e: "p = (es0 @ [e], acc')"
    and k: "\<forall>j n x. entry_kind e = File j n x \<longrightarrow> se_object r = Some (object_id_text j) \<and> object_id_ok j"
    using p(1) by (auto simp: decode_entry_row_def decode_entry_kind_def and_then_Inr_iff object_id_form.parse_Inr_iff
        split: if_splits)
  obtain ds where "es = (es0 @ [e]) @ ds"
    "list_all2 (\<lambda>r e. \<forall>j n x. entry_kind e = File j n x \<longrightarrow> se_object r = Some (object_id_text j) \<and> object_id_ok j) rows ds"
    using Cons.IH [of "es0 @ [e]" acc'] p(2) e by blast
  then show ?case using k by (intro exI [of _ "e # ds"]) simp
qed simp

lemma load_snapshot_from_entries:
  assumes "load_snapshot_from env db i = Inr s"
  shows "\<exists>z. fold_result (decode_entry_row (snapshot_id_text i)) ([], 0)
      (sort_key se_path (filter (\<lambda>r. se_snapshot r = snapshot_id_text i) (tb_entries db)))
    = Inr (manifest_entries (snapshot_content s), z)"
  using assms by (auto simp: load_snapshot_from_def Let_def and_then_Inr_iff from_canonical_entries_Inr_iff split: option.splits)

lemma snapshot_file_loads:
  assumes schema: "schema_ok (st_db st)" and index: "index_ok env st" and l: "load_snapshot env st i = Inr s"
    and e: "e \<in> set (manifest_entries (snapshot_content s))" and k: "entry_kind e = File j n x"
  shows "\<exists>bs. load_object env st j (- 1) = Inr bs \<and> ObjectId (env_hash env bs) = j"
proof -
  let ?rows = "sort_key se_path (filter (\<lambda>r. se_snapshot r = snapshot_id_text i) (tb_entries (st_db st)))"
  obtain z where "fold_result (decode_entry_row (snapshot_id_text i)) ([], 0) ?rows = Inr (manifest_entries (snapshot_content s), z)"
    using load_snapshot_from_entries l unfolding load_snapshot_def by blast
  from decode_entry_rows_objects [OF this]
  have "list_all2 (\<lambda>r e. \<forall>j n x. entry_kind e = File j n x \<longrightarrow> se_object r = Some (object_id_text j) \<and> object_id_ok j) ?rows
      (manifest_entries (snapshot_content s))" by simp
  then obtain r where "r \<in> set ?rows" and o: "se_object r = Some (object_id_text j)" "object_id_ok j"
    using e k unfolding list_all2_conv_all_nth in_set_conv_nth by (metis nth_mem in_set_conv_nth)
  then have r: "r \<in> set (tb_entries (st_db st))" by simp
  have "(\<Union>r \<in> set (tb_entries (st_db st)). set_option (se_object r)) \<subseteq> ob_id ` set (tb_objects (st_db st))"
    using schema by (simp add: schema_ok_def references_ok_def)
  then have "object_exists (st_db st) j" using r o(1) by (force simp: object_exists_iff)
  then obtain bs where "load_object env st j (- 1) = Inr bs" using index_ok_load [OF index o(2)] by blast
  moreover from this have "ObjectId (env_hash env bs) = j" by (simp add: load_object_Inr_iff holds_object_def)
  ultimately show ?thesis by blast
qed

end
