(* ===== verification/Store_Progress.thy ===== *)
theory Store_Progress
  imports Store_Invariants
begin

section \<open>Recovery always goes through\<close>

text \<open>
  The conditions under which \<open>mark_interrupted_runs\<close> cannot fail are themselves an invariant of
  the store: run identifiers are canonical, and a warning of an active run belongs to an event of
  that run, because the only warnings without an event are those recovery writes while it closes
  the run.
\<close>

definition progress_ok :: "'j env \<Rightarrow> 'j db \<Rightarrow> bool" where
  "progress_ok env db \<longleftrightarrow>
     (\<forall>t. status_of db t \<noteq> None \<longrightarrow> is_ok (run_id_from_str (env_uuid env) t))
     \<and> (\<forall>w \<in> set (tb_warnings db). \<forall>s. status_of db (wr_run w) = Some s \<and> active_status s \<longrightarrow>
          (\<exists>e \<in> set (tb_events db). er_run e = wr_run w \<and> er_sequence e = wr_sequence w))"

lemma status_of_row: "schema_ok db \<Longrightarrow> r \<in> set (tb_runs db) \<Longrightarrow> status_of db (rr_id r) = Some (rr_status r)"
  using runs_table.select_mem [of db "rr_id r" r] by (simp add: status_of_def schema_ok_def keys_ok_def)

lemma status_of_known:
  assumes "schema_ok db" and "t \<in> rr_id ` set (tb_runs db)"
  shows "\<exists>s. status_of db t = Some (run_status_as_str s)"
proof -
  obtain r where r: "r \<in> set (tb_runs db)" "t = rr_id r" using assms(2) by blast
  then have "run_columns_ok r" using assms(1) by (simp add: schema_ok_def references_ok_def list_all_iff)
  then have "rr_status r \<in> run_status_as_str ` {Preparing, Running, Completed, Failed, Interrupted, Crashed}"
    by (simp add: run_columns_ok_def)
  then obtain s where "rr_status r = run_status_as_str s" by (auto simp only:)
  then show ?thesis using status_of_row [OF assms(1) r(1)] r(2) by auto
qed

lemma active_before:
  assumes "schema_ok db" and "evolves env db db'" and "t \<in> rr_id ` set (tb_runs db)"
    and "status_of db' t = Some s'" and "active_status s'"
  shows "\<exists>s. status_of db t = Some s \<and> active_status s"
proof -
  obtain s where s: "status_of db t = Some (run_status_as_str s)" using status_of_known [OF assms(1,3)] by blast
  then obtain u where u: "status_of db' t = Some (run_status_as_str u)" "lifecycle\<^sup>*\<^sup>* s u"
    using assms(2) unfolding evolves_def by blast
  have "\<not> is_terminal s" using terminal_closed [OF u(2)] u(1) assms(4,5) by (auto simp: active_status_iff)
  then show ?thesis using s by (auto simp: active_status_iff)
qed

lemma progress_step:
  assumes schema: "schema_ok db" and ev: "evolves env db db'" and p: "progress_ok env db"
    and events: "set (tb_events db) \<subseteq> set (tb_events db')"
    and warnings: "\<And>w. w \<in> set (tb_warnings db') \<Longrightarrow> w \<in> set (tb_warnings db)
      \<or> (\<exists>e \<in> set (tb_events db'). er_run e = wr_run w \<and> er_sequence e = wr_sequence w)"
    and ids: "\<And>t. status_of db' t \<noteq> None \<Longrightarrow> status_of db t \<noteq> None \<or> is_ok (run_id_from_str (env_uuid env) t)"
  shows "progress_ok env db'"
proof -
  have "\<exists>e \<in> set (tb_events db'). er_run e = wr_run w \<and> er_sequence e = wr_sequence w"
    if w: "w \<in> set (tb_warnings db')" "status_of db' (wr_run w) = Some s" "active_status s" for w s
  proof (cases "w \<in> set (tb_warnings db)")
    case True
    then have "wr_run w \<in> rr_id ` set (tb_runs db)" using schema by (auto simp: schema_ok_def references_ok_def)
    from active_before [OF schema ev this w(2,3)] show ?thesis using p True events unfolding progress_ok_def by blast
  next
    case False
    then show ?thesis using warnings [OF w(1)] by blast
  qed
  then show ?thesis using ids p unfolding progress_ok_def by blast
qed

lemma warning_has_event:
  assumes "w \<in> set (warning_columns env e)"
  shows "er_run (event_columns env e) = wr_run w \<and> er_sequence (event_columns env e) = wr_sequence w"
  using assms by (auto simp: warning_columns_def event_columns_def split: event_payload.splits)

lemma progress_append:
  assumes "env_ok env" and ok: "db_ok env db" and p: "progress_ok env db" and "\<forall>e \<in> set es. event_typed e"
    and a: "append_event_batch_in env db es = Inr db'"
  shows "progress_ok env db'"
proof (cases "es = []")
  case True
  then show ?thesis using a p by (simp add: append_event_batch_in_def)
next
  case False
  note b = append_batch_Inr(6) [OF a False]
  have "w \<in> set (tb_warnings db)
      \<or> (\<exists>e \<in> set (tb_events db'). er_run e = wr_run w \<and> er_sequence e = wr_sequence w)"
    if "w \<in> set (tb_warnings db')" for w
    using that warning_has_event [of w env] by (auto simp: b)
  moreover have "status_of db' t = status_of db t" for t by (simp add: b status_of_def)
  ultimately show ?thesis
    using append_step [OF assms(1) ok assms(4) a] ok
    by (intro progress_step [of db env db', OF _ _ p]) (auto simp: db_ok_def b)
qed

lemma progress_runs:
  \<comment> \<open>the steps that write no event and no warning\<close>
  assumes "schema_ok db" and "evolves env db db'" and "progress_ok env db"
    and "tb_events db' = tb_events db" and "tb_warnings db' = tb_warnings db"
    and "\<And>t. status_of db' t \<noteq> None \<Longrightarrow> status_of db t \<noteq> None \<or> is_ok (run_id_from_str (env_uuid env) t)"
  shows "progress_ok env db'"
  using assms by (intro progress_step [of db env db']) auto

lemma progress_recovered:
  assumes "progress_ok env db" and "schema_ok db"
  shows "progress_ok env (recovered db t)"
proof -
  have closed: "\<not> active_status s" if "status_of (recovered db t) u = Some s" for u s
    using that by (auto simp: recovered_status active_status_def split: option.splits if_splits)
  have "status_of (recovered db t) u \<noteq> None \<Longrightarrow> status_of db u \<noteq> None" for u
    by (simp add: recovered_status split: option.splits)
  then show ?thesis using closed assms(1) unfolding progress_ok_def by blast
qed

lemma status_of_append:
  "tb_runs db' = tb_runs db @ [row] \<Longrightarrow> status_of db' t \<noteq> None \<Longrightarrow> status_of db t \<noteq> None \<or> t = rr_id row"
  by (auto simp: status_of_def select_row_append split: option.splits if_splits)

lemma run_columns_id: "run_columns env r = Inr row \<Longrightarrow> rr_id row = run_id_text (env_uuid env) (run_identity r)"
  by (auto simp: run_columns_def and_then_Inr_iff Let_def split: prod.splits option.splits)

lemma progress_create:
  assumes "db_ok env db" and "evolves env db db'" and "progress_ok env db" and "env_ok env" and "run_typed r"
    and c: "create_run_in env db r = Inr db'"
  shows "progress_ok env db'"
proof -
  obtain row where row: "run_columns env r = Inr row" and d: "tb_runs db' = tb_runs db @ [row]"
    "tb_events db' = tb_events db" "tb_warnings db' = tb_warnings db"
    using create_run_in_Inr [OF c] by auto
  have "run_id_from_str (env_uuid env) (rr_id row) = Inr (run_identity r)"
    using assms(4,5) run_columns_id [OF row] by (simp add: run_typed_def env_ok_def record_id_roundtrips(1))
  then have "is_ok (run_id_from_str (env_uuid env) (rr_id row))" by simp
  then show ?thesis
    using assms(1-3) status_of_append [OF d(1)] d by (intro progress_runs [of db env db']) (auto simp: db_ok_def)
qed

lemma progress_same_status:
  assumes "schema_ok db" and "evolves env db db'" and "progress_ok env db"
    and "tb_events db' = tb_events db" and "tb_warnings db' = tb_warnings db"
    and "\<And>t. status_of db' t \<noteq> None \<Longrightarrow> status_of db t \<noteq> None"
  shows "progress_ok env db'"
  using assms by (intro progress_runs [of db env db']) blast+

lemma store_step_progress:
  assumes "store_step env js st st'" and env: "env_ok env" and ok: "store_ok env st" and p: "progress_ok env (st_db st)"
  shows "progress_ok env (st_db st')"
proof -
  have db: "db_ok env (st_db st)" and index: "index_ok env st" and schema: "schema_ok (st_db st)"
    using ok by (simp_all add: store_ok_iff db_ok_def)
  have ev: "evolves env (st_db st) (st_db st')" using store_step_ok [OF assms(1) env ok] by blast
  note same = progress_same_status [OF schema ev p]
  have objects: ?thesis if "\<exists>os. st_db st' = (st_db st)\<lparr>tb_objects := os\<rparr>"
    using that by (intro same) (auto simp: status_of_def)
  show ?thesis using assms(1)
  proof cases
    case (put bytes created r)
    then show ?thesis using put_object_frame [OF put schema] by (intro objects) blast
  next
    case (import i bytes created r)
    then show ?thesis using import_object_frame [OF import schema] by (intro objects) blast
  next
    case (append es)
    show ?thesis
    proof (cases "es = []")
      case True
      then show ?thesis using append(1) p by (auto simp: append_event_batch_def and_then_Inr_iff)
    next
      case False
      then obtain d where "append_event_batch_in env (st_db st) es = Inr d" "st' = st\<lparr>st_db := d\<rparr>"
        using append(1) by (auto simp: append_event_batch_def and_then_Inr_iff map_ok_Inr_iff)
      then show ?thesis using progress_append [OF env db p append(2)] by simp
    qed
  next
    case (create r)
    then obtain d where "create_run_in env (st_db st) r = Inr d" "st' = st\<lparr>st_db := d\<rparr>"
      by (auto simp: create_run_def Let_def and_then_Inr_iff map_ok_Inr_iff)
    then show ?thesis using progress_create [OF db _ p env create(2)] ev by simp
  next
    case (running run snap)
    note r = mark_run_running_Inr [OF running schema]
    show ?thesis using r by (intro same) (auto, metis)
  next
    case (finish run outcome)
    then obtain d where d: "finish_run_in env (st_db st) run outcome = Inr d" "st' = st\<lparr>st_db := d\<rparr>"
      by (auto simp: finish_run_def and_then_Inr_iff map_ok_Inr_iff)
    show ?thesis using finish_run_in_Inr [OF d(1) schema] d(2) by (intro same) (auto, metis)
  next
    case (finish_events run outcome es)
    then obtain d1 d where d: "append_event_batch_in env (st_db st) es = Inr d1"
      "finish_run_in env d1 run outcome = Inr d" "st' = st\<lparr>st_db := d\<rparr>"
      by (auto simp: finish_run_with_events_def and_then_Inr_iff map_ok_Inr_iff split: if_splits)
    have one: "db_ok env d1" using append_step [OF env db finish_events(2) d(1)] by blast
    have schema1: "schema_ok d1" using one by (simp add: db_ok_def)
    note f = finish_run_in_Inr [OF d(2) schema1]
    have "evolves env d1 d" using finish_step [OF one d(2)] by blast
    then have "progress_ok env d"
      using f progress_append [OF env db p finish_events(2) d(1)]
      by (intro progress_same_status [of d1 env d, OF schema1]) (auto, metis)
    then show ?thesis by (simp add: d(3))
  next
    case (snapshot s created_at)
    then obtain d where v: "validate_snapshot env s = Inr ()"
      and d: "store_snapshot_in env (st_db st) s created_at = Inr d" "st' = st\<lparr>st_db := d\<rparr>"
      by (auto simp: store_snapshot_def and_then_Inr_iff map_ok_Inr_iff)
    show ?thesis using store_snapshot_in_Inr [OF d(1) schema snapshot(2) v] d(2) by (intro same) (auto simp: status_of_def)
  next
    case (checkpoint c s)
    then obtain d where v: "validate_checkpoint_snapshot env c s = Inr ()"
      and d: "commit_checkpoint_in env (st_db st) c s = Inr d" "st' = st\<lparr>st_db := d\<rparr>"
      by (auto simp: commit_checkpoint_def and_then_Inr_iff map_ok_Inr_iff)
    show ?thesis using commit_checkpoint_in_Inr [OF d(1) schema checkpoint(2) v] d(2) by (intro same) auto
  next
    case (checkpoint_event c s e)
    then obtain d1 d where v: "validate_checkpoint_snapshot env c s = Inr ()"
      and d: "commit_checkpoint_in env (st_db st) c s = Inr d1" "append_event_batch_in env d1 [e] = Inr d" "st' = st\<lparr>st_db := d\<rparr>"
      by (auto simp: commit_checkpoint_with_event_def and_then_Inr_iff map_ok_Inr_iff)
    note k = commit_checkpoint_in_Inr [OF d(1) schema checkpoint_event(2) v]
    have "progress_ok env d1"
      using k evolves_same [of d1 "st_db st" env]
      by (intro progress_same_status [of "st_db st" env d1, OF schema _ p]) auto
    moreover have "db_ok env d1" using checkpoint_step [OF db checkpoint_event(2) v d(1)] by blast
    ultimately show ?thesis using progress_append [OF env _ _ _ d(2)] checkpoint_event(3) d(3) by simp
  next
    case (recover recovered_at runs)
    then show ?thesis using mark_interrupted_runs_Inr [OF recover schema] progress_recovered [OF p schema] by auto
  next
    case (delete i d)
    then show ?thesis using delete_object_cases [OF delete index] p by (intro objects) (auto intro: exI [of _ "tb_objects (st_db st)"])
  next
    case (delete_orphan x y)
    then show ?thesis using delete_physical_orphan_Inr [OF delete_orphan] p by auto
  qed
qed

lemma reachable_progress:
  assumes "(store_step env js)\<^sup>*\<^sup>* empty_store st" and env: "env_ok env"
  shows "progress_ok env (st_db st)"
  using assms(1)
proof (induction rule: rtranclp_induct)
  case base
  show ?case by (simp add: progress_ok_def empty_store_def empty_db_def status_of_def)
next
  case (step b c)
  then show ?case using store_step_progress [OF _ env] reachable_store_ok [OF step(1) env empty_store_ok] by blast
qed

lemma reachable_recoverable:
  assumes ok: "db_ok env db" and p: "progress_ok env db" and small: "length (tb_events db) + 1 < 2 ^ 63"
  shows "recoverable env db (active_ids db)"
proof -
  have schema: "schema_ok db" and time: "timeline_ok env db" using ok by (simp_all add: db_ok_def)
  have "0 \<le> wr_sequence w \<and> wr_sequence w + 1 < 2 ^ 63" if w: "w \<in> set (tb_warnings db)" "wr_run w \<in> set (active_ids db)" for w
  proof -
    obtain r where r: "r \<in> set (tb_runs db)" "rr_id r = wr_run w" "active_status (rr_status r)"
      using w(2) by (auto simp: set_active_ids)
    then have "status_of db (wr_run w) = Some (rr_status r)" using status_of_row [OF schema r(1)] by simp
    then obtain e where e: "e \<in> set (tb_events db)" "er_run e = wr_run w" "er_sequence e = wr_sequence w"
      using p r(3) w(1) unfolding progress_ok_def by blast
    then have "e \<in> set (run_events db (wr_run w))" by (simp add: run_events_def)
    then have "wr_sequence w \<in> set (map er_sequence (run_events db (wr_run w)))" using e(3) by force
    moreover have "map er_sequence (run_events db (wr_run w)) = map int [1..<Suc (length (run_events db (wr_run w)))]"
      using time by (simp add: timeline_ok_def del: upt_Suc)
    ultimately have "1 \<le> wr_sequence w \<and> wr_sequence w \<le> int (length (run_events db (wr_run w)))" by (auto simp del: upt_Suc)
    moreover have "length (run_events db (wr_run w)) \<le> length (tb_events db)" by (simp add: run_events_def)
    ultimately show ?thesis using small by auto
  qed
  moreover have "is_ok (run_id_from_str (env_uuid env) (rr_id r))" if "r \<in> set (tb_runs db)" for r
    using p status_of_row [OF schema that] unfolding progress_ok_def by blast
  moreover have "\<forall>e \<in> set (tb_events db). 0 \<le> er_offset e" using time by (simp add: timeline_ok_def)
  ultimately show ?thesis by (simp add: recoverable_def)
qed

end
