(* ===== verification/Store_Examples.thy ===== *)
theory Store_Examples
  imports Store_Progress
begin

section \<open>A concrete session\<close>

text \<open>
  Library functions and one small recording, used to show that the hypotheses of the store's
  properties hold together: a run is created, gets a first checkpoint with a one-directory
  snapshot, an object and an output event, and is finished.  The libraries satisfy what \<open>env_ok\<close>
  and \<open>json_lib_ok\<close> document: payloads are their own documents.
\<close>

definition ex_uuid_lib :: uuid_lib where
  "ex_uuid_lib = \<lparr>uuid_parse_str = parse_word, uuid_hyphenated = (\<lambda>u. dec_text (unat u))\<rparr>"

definition ex_document :: "event_payload \<Rightarrow> event_payload option" where
  "ex_document p = (case referenced_object p of None \<Rightarrow> Some p
     | Some (i, _) \<Rightarrow> if object_id_ok i then Some p else None)"

definition ex_env :: "event_payload env" where
  "ex_env = \<lparr>env_uuid = ex_uuid_lib, env_hash = (\<lambda>_. replicate 32 0), env_to_json = ex_document,
     env_from_json = ex_document, env_json_valid = (\<lambda>_. True), env_manifest_json = (\<lambda>_. Some [])\<rparr>"

definition ex_js :: "event_payload json_lib" where
  "ex_js = \<lparr>js_kind = (\<lambda>p. Some (payload_kind p)),
     js_object = (\<lambda>p. map_option (\<lambda>(i, _). object_id_text i) (referenced_object p))\<rparr>"

lemma ex_uuid_lib_ok: "uuid_lib_ok ex_uuid_lib"
  by (simp add: uuid_lib_ok_def ex_uuid_lib_def)

lemma ex_env_ok: "env_ok ex_env"
  by (auto simp: env_ok_def ex_env_def ex_uuid_lib_ok hash_ok_def ex_document_def split: option.splits if_splits)

lemma ex_js_ok: "json_lib_ok ex_env ex_js"
  by (auto simp: json_lib_ok_def ex_env_def ex_js_def ex_document_def split: option.splits if_splits)

definition ex_run_id :: run_id where "ex_run_id = RunId 0x70000000000000000001"
definition ex_branch_id :: branch_id where "ex_branch_id = BranchId 0x70000000000000000002"
definition ex_checkpoint_id :: checkpoint_id where "ex_checkpoint_id = CheckpointId 0x70000000000000000003"
definition ex_stream_id :: terminal_stream_id where "ex_stream_id = TerminalStreamId 0x70000000000000000004"
definition ex_object_id :: object_id where "ex_object_id = ObjectId (replicate 32 0)"
definition ex_snapshot_id :: snapshot_id where "ex_snapshot_id = SnapshotId (replicate 32 0)"

lemma ex_ids_ok: "run_id_ok ex_run_id" "branch_id_ok ex_branch_id" "checkpoint_id_ok ex_checkpoint_id"
  "object_id_ok ex_object_id" "snapshot_id_ok ex_snapshot_id"
  by (simp_all add: run_id_ok_def branch_id_ok_def checkpoint_id_ok_def record_uuid_ok_def uuid_version_num_def
      ex_run_id_def ex_branch_id_def ex_checkpoint_id_def object_id_ok_def ex_object_id_def snapshot_id_ok_def
      ex_snapshot_id_def)

definition ex_run :: run where
  "ex_run = \<lparr>run_identity = ex_run_id, run_branch = ex_branch_id, run_parent_link = None,
     run_command = ''sh'', run_arguments = [''-c'', ''make''], run_workspace_root = ''/w'',
     run_started_at = Timestamp 1000, run_finished_at = None, run_monotonic_duration = None,
     run_state = Preparing, run_platform = LinuxX86_64,
     run_capture_policy = \<lparr>record_input = PolicyNever, capture_environment = False\<rparr>,
     run_initial_snapshot = None, run_final_snapshot = None, run_exit_status = None\<rparr>"

definition ex_snapshot :: snapshot where
  "ex_snapshot = \<lparr>snapshot_identity = ex_snapshot_id,
     snapshot_content = \<lparr>manifest_schema_version = 1,
       manifest_entries = [\<lparr>entry_path = ''a'', entry_kind = Directory, entry_permissions = UnixPermissions 493\<rparr>]\<rparr>\<rparr>"

definition ex_checkpoint :: checkpoint where
  "ex_checkpoint = \<lparr>ck_id = ex_checkpoint_id, ck_run = ex_run_id, ck_sequence = EventSequence 1,
     ck_label = Some ''start'', ck_reason = ReasonInitial, ck_snapshot = ex_snapshot_id,
     ck_created_at = Timestamp 1001, ck_offset = MonotonicDuration 5\<rparr>"

definition ex_event :: "uuid \<Rightarrow> u64 \<Rightarrow> timestamp \<Rightarrow> monotonic_duration \<Rightarrow> event_payload \<Rightarrow> event" where
  "ex_event n sequence wall offset p =
     \<lparr>ev_id = EventId n, ev_run = ex_run_id, ev_sequence = EventSequence sequence, ev_wall_clock = wall,
      ev_offset = offset, ev_schema_version = EVENT_SCHEMA_VERSION, ev_payload = p\<rparr>"

definition ex_event1 :: event where
  "ex_event1 = ex_event 0x70000000000000000011 1 (Timestamp 1001) (MonotonicDuration 5) (CheckpointCommitted ex_checkpoint_id ex_snapshot_id)"
definition ex_event2 :: event where
  "ex_event2 = ex_event 0x70000000000000000012 2 (Timestamp 1002) (MonotonicDuration 7) (TerminalOutput ex_stream_id ex_object_id 3)"
definition ex_event3 :: event where
  "ex_event3 = ex_event 0x70000000000000000013 3 (Timestamp 1003) (MonotonicDuration 7) (RunCompleted Failed (Some (ExitCode 2)))"

definition ex_finish :: run_finish where
  "ex_finish = \<lparr>rf_status = Failed, rf_finished_at = Timestamp 1003, rf_monotonic_duration = MonotonicDuration 7,
     rf_final_snapshot = None, rf_exit_status = Some (ExitCode 2)\<rparr>"

definition ex_run_text :: string where "ex_run_text = run_id_text ex_uuid_lib ex_run_id"

definition ex_run_row :: run_row where
  "ex_run_row = \<lparr>rr_id = ex_run_text, rr_branch = branch_id_text ex_uuid_lib ex_branch_id, rr_command = ''sh'',
     rr_root = ''/w'', rr_started = 1000, rr_finished = None, rr_duration = None, rr_status = ''preparing'',
     rr_platform = ''linux_x86_64'', rr_input = ''never'', rr_environment = False, rr_initial = None, rr_final = None,
     rr_exit_kind = None, rr_exit_value = None\<rparr>"

definition ex_store1 :: "event_payload store" where
  \<comment> \<open>the run is created\<close>
  "ex_store1 = \<lparr>st_db = empty_db\<lparr>tb_runs := [ex_run_row],
       tb_arguments := [\<lparr>ar_run = ex_run_text, ar_position = 0, ar_value = ''-c''\<rparr>,
                        \<lparr>ar_run = ex_run_text, ar_position = 1, ar_value = ''make''\<rparr>]\<rparr>,
     st_files = (\<lambda>_. None), st_writer = True\<rparr>"

definition ex_snapshot_text :: string where "ex_snapshot_text = snapshot_id_text ex_snapshot_id"

definition ex_store2 :: "event_payload store" where
  \<comment> \<open>and its first checkpoint is committed\<close>
  "ex_store2 = ex_store1\<lparr>st_db := (st_db ex_store1)\<lparr>
     tb_snapshots := [\<lparr>sn_id = ex_snapshot_text, sn_schema_version = 1, sn_entry_count = 1, sn_logical_bytes = 0, sn_created = 1001\<rparr>],
     tb_entries := [entry_row_of ex_snapshot_text \<lparr>entry_path = ''a'', entry_kind = Directory, entry_permissions = UnixPermissions 493\<rparr>],
     tb_checkpoints := [checkpoint_columns ex_env ex_checkpoint],
     tb_runs := [ex_run_row\<lparr>rr_initial := Some ex_snapshot_text\<rparr>],
     tb_events := [event_columns ex_env ex_event1]\<rparr>\<rparr>"

definition ex_object_row :: object_row where
  "ex_object_row = \<lparr>ob_id = object_id_text ex_object_id, ob_logical_size = 3, ob_stored_size = 19,
     ob_compression = ''none'', ob_created = 1002\<rparr>"

definition ex_store3 :: "event_payload store" where
  \<comment> \<open>an object of three bytes is stored\<close>
  "ex_store3 = ex_store2\<lparr>st_db := (st_db ex_store2)\<lparr>tb_objects := [ex_object_row]\<rparr>,
     st_files := [path_for ex_object_id \<mapsto> envelope_header 3 @ [1, 2, 3]]\<rparr>"

definition ex_store4 :: "event_payload store" where
  \<comment> \<open>it is recorded as terminal output\<close>
  "ex_store4 = ex_store3\<lparr>st_db := (st_db ex_store3)\<lparr>
     tb_events := [event_columns ex_env ex_event1, event_columns ex_env ex_event2],
     tb_chunks := chunk_columns ex_env ex_event2\<rparr>\<rparr>"

definition ex_store5 :: "event_payload store" where
  \<comment> \<open>and the run fails\<close>
  "ex_store5 = ex_store4\<lparr>st_db := (st_db ex_store4)\<lparr>
     tb_events := [event_columns ex_env ex_event1, event_columns ex_env ex_event2, event_columns ex_env ex_event3],
     tb_runs := [ex_run_row\<lparr>rr_initial := Some ex_snapshot_text, rr_status := ''failed'', rr_finished := Some 1003,
        rr_duration := Some 7, rr_exit_kind := Some ''code'', rr_exit_value := Some 2\<rparr>]\<rparr>\<rparr>"

lemma ex_env_simps [simp]: "env_uuid ex_env = ex_uuid_lib" "env_hash ex_env bs = replicate 32 0"
  "env_to_json ex_env = ex_document" "env_json_valid ex_env j" "env_manifest_json ex_env m = Some []"
  by (simp_all add: ex_env_def)

lemma ex_create: "create_run ex_env empty_store ex_run = Inr ex_store1"
  by (simp add: create_run_def create_run_in_def Let_def empty_store_def empty_db_def ex_run_def ex_store1_def ex_run_row_def
      run_ok_def is_str_def as_bytes_def byte_of_char_def run_columns_def insert_run_def run_columns_ok_def run_references_ok_def
      references_def active_status_def insert_argument_def sql_usize_def ex_run_text_def require_writer_def run_validate_def)

lemma ex_snapshot_valid: "validate_snapshot ex_env ex_snapshot = Inr ()"
  by (simp add: validate_snapshot_def snapshot_id_digest_def ex_snapshot_def ex_snapshot_id_def Let_def)

lemma ex_checkpoint_valid: "validate_checkpoint_snapshot ex_env ex_checkpoint ex_snapshot = Inr ()"
  using ex_snapshot_valid
  by (simp add: validate_checkpoint_snapshot_def Let_def checkpoint_validate_def ex_checkpoint_def ex_snapshot_def)

lemma ex_texts: "length ex_snapshot_text = 64" "length (object_id_text ex_object_id) = 64"
  by (simp_all add: ex_snapshot_text_def ex_snapshot_id_def ex_object_id_def object_id_text_def snapshot_id_text_def)

lemma ex_store_snapshot:
  "store_snapshot_in ex_env (st_db ex_store1) ex_snapshot (Timestamp 1001)
     = Inr ((st_db ex_store1)\<lparr>tb_snapshots := tb_snapshots (st_db ex_store2), tb_entries := tb_entries (st_db ex_store2)\<rparr>)"
  using ex_texts
  by (simp add: store_snapshot_in_def Let_def ex_snapshot_def ex_store1_def ex_store2_def empty_db_def sql_usize_def
      sql_u64_def insert_snapshot_or_ignore_def insert_snapshot_def ex_snapshot_text_def
      store_entry_def entry_columns_def insert_entry_def entry_columns_ok_def references_def entry_row_of_def)

lemma ex_append_checkpoint:
  "append_event_batch_in ex_env ((st_db ex_store2)\<lparr>tb_events := []\<rparr>) [ex_event1] = Inr (st_db ex_store2)"
  by (simp add: append_event_batch_in_def validate_batch_def Let_def ex_event1_def ex_event_def event_validate_def
      ex_store2_def ex_store1_def empty_db_def ex_run_row_def active_status_def last_event_def run_events_def
      expected_sequence_def check_offset_def append_event_def ex_document_def sql_u64_def insert_event_def
      validate_referenced_object_def index_warning_def index_chunk_def event_columns_def ex_run_text_def
      event_sequence_first_def references_def EVENT_SCHEMA_VERSION_def)

lemma ex_commit_in:
  "commit_checkpoint_in ex_env (st_db ex_store1) ex_checkpoint ex_snapshot = Inr ((st_db ex_store2)\<lparr>tb_events := []\<rparr>)"
  using ex_store_snapshot
  by (simp add: commit_checkpoint_in_def ex_checkpoint_def ex_store1_def ex_store2_def empty_db_def sql_u64_def
      insert_checkpoint_def set_run_initial_def update_runs_def ex_run_row_def ex_run_text_def ex_snapshot_text_def
      run_columns_ok_def run_references_ok_def references_def checkpoint_columns_def active_status_def)

lemma ex_commit: "commit_checkpoint_with_event ex_env ex_store1 ex_checkpoint ex_snapshot ex_event1 = Inr ex_store2"
proof -
  have "event_describes_checkpoint ex_event1 ex_checkpoint"
    by (simp add: event_describes_checkpoint_def ex_event1_def ex_event_def ex_checkpoint_def)
  moreover have "st_writer ex_store1" and "ex_store1\<lparr>st_db := st_db ex_store2\<rparr> = ex_store2"
    by (simp_all add: ex_store1_def ex_store2_def)
  ultimately show ?thesis
    using ex_checkpoint_valid ex_commit_in ex_append_checkpoint
    by (simp add: commit_checkpoint_with_event_def require_writer_def)
qed

lemma ex_put: "put_object ex_env ex_store2 [1, 2, 3] 1002 = (ex_store3, Inr (stored_metadata ex_object_id [1, 2, 3]))"
  using ex_texts
  by (simp add: put_object_def require_writer_def ex_store2_def ex_store1_def ex_store3_def finish_put_def object_put_def
      put_verified_def record_object_def sql_u64_def insert_object_or_ignore_def insert_object_def stored_metadata_def
      ex_object_row_def ex_object_id_def object_id_digest_def object_encode_def word_of_len_def HEADER_LEN_def Let_def
      empty_db_def envelope_header_def OBJECT_MAGIC_def)

lemma ex_texts_differ:
  "event_id_text ex_uuid_lib (EventId 0x70000000000000000012) \<noteq> event_id_text ex_uuid_lib (EventId 0x70000000000000000011)"
  "event_id_text ex_uuid_lib (EventId 0x70000000000000000013) \<noteq> event_id_text ex_uuid_lib (EventId 0x70000000000000000011)"
  "event_id_text ex_uuid_lib (EventId 0x70000000000000000013) \<noteq> event_id_text ex_uuid_lib (EventId 0x70000000000000000012)"
  by (simp_all add: event_id_text_inj [OF ex_uuid_lib_ok])

lemmas ex_append_defs = append_event_batch_in_def validate_batch_def Let_def ex_event_def event_validate_def
  ex_run_row_def active_status_def last_event_def run_events_def expected_sequence_def check_offset_def append_event_def
  ex_document_def sql_u64_def insert_event_def validate_referenced_object_def index_warning_def index_chunk_def
  event_columns_def chunk_columns_def insert_chunk_def ex_run_text_def event_sequence_first_def references_def
  EVENT_SCHEMA_VERSION_def empty_db_def decode_u64_def event_sequence_new_def checked_add_def ex_object_row_def

lemma ex_append_in: "append_event_batch_in ex_env (st_db ex_store3) [ex_event2] = Inr (st_db ex_store4)"
  using ex_texts_differ ex_ids_ok(4)
  by (simp add: ex_append_defs ex_event1_def ex_event2_def ex_store4_def ex_store3_def ex_store2_def ex_store1_def)

lemma ex_append: "append_event_batch ex_env ex_store3 [ex_event2] = Inr ex_store4"
  using ex_append_in
  by (simp add: append_event_batch_def require_writer_def ex_store4_def ex_store3_def ex_store2_def ex_store1_def)

lemma ex_append_completed:
  "append_event_batch_in ex_env (st_db ex_store4) [ex_event3]
     = Inr ((st_db ex_store4)\<lparr>tb_events := tb_events (st_db ex_store5)\<rparr>)"
  using ex_texts_differ ex_ids_ok(4)
  by (simp add: ex_append_defs ex_event1_def ex_event2_def ex_event3_def ex_store5_def ex_store4_def ex_store3_def
      ex_store2_def ex_store1_def)

lemma ex_finish_in:
  "finish_run_in ex_env ((st_db ex_store4)\<lparr>tb_events := tb_events (st_db ex_store5)\<rparr>) ex_run_id ex_finish = Inr (st_db ex_store5)"
  by (simp add: finish_run_in_def Let_def ex_finish_def ex_store5_def ex_store4_def ex_store3_def ex_store2_def ex_store1_def
      ex_run_row_def ex_run_text_def empty_db_def run_status_from_str_def sql_u64_def update_runs_def finish_columns_def
      run_columns_ok_def active_status_def run_references_ok_def references_def)

lemma ex_finish_run: "finish_run_with_events ex_env ex_store4 ex_run_id ex_finish [ex_event3] = Inr ex_store5"
proof -
  have "st_writer ex_store4" and "ex_store4\<lparr>st_db := st_db ex_store5\<rparr> = ex_store5"
    by (simp_all add: ex_store5_def ex_store4_def ex_store3_def ex_store2_def ex_store1_def)
  moreover have "check_terminal_event ex_env ex_run_id ex_finish ex_event3 = Inr ()"
    by (simp add: check_terminal_event_def ex_event3_def ex_event_def ex_finish_def)
  ultimately show ?thesis
    using ex_append_completed ex_finish_in by (simp add: finish_run_with_events_def require_writer_def)
qed

subsection \<open>The session is reachable\<close>

lemma ex_typed: "run_typed ex_run" "snapshot_typed ex_snapshot" "checkpoint_typed ex_checkpoint"
  "event_typed ex_event1" "event_typed ex_event2" "event_typed ex_event3"
  using ex_ids_ok
  by (simp_all add: run_typed_def ex_run_def snapshot_typed_def ex_snapshot_def checkpoint_typed_def ex_checkpoint_def
      event_typed_def ex_event1_def ex_event2_def ex_event3_def ex_event_def entry_typed_def event_id_ok_def
      record_uuid_ok_def uuid_version_num_def event_sequence_ok_def manifest_ok_def
      SNAPSHOT_SCHEMA_VERSION_def entry_ok_def path_ok_def permissions_ok_def component_ok_def MAX_SNAPSHOT_PATH_BYTES_def
      PERMISSIONS_MASK_def nul_def backslash_def char_of_eq_iff)

lemma ex_steps:
  "store_step ex_env ex_js empty_store ex_store1" "store_step ex_env ex_js ex_store1 ex_store2"
  "store_step ex_env ex_js ex_store2 ex_store3" "store_step ex_env ex_js ex_store3 ex_store4"
  "store_step ex_env ex_js ex_store4 ex_store5"
  using store_step.create [OF ex_create ex_typed(1)] store_step.checkpoint_event [OF ex_commit ex_typed(2,4)]
    store_step.put [OF ex_put] store_step.append [OF ex_append] store_step.finish_events [OF ex_finish_run] ex_typed
  by simp_all

lemma ex_reachable:
  "(store_step ex_env ex_js)\<^sup>*\<^sup>* empty_store ex_store1" "(store_step ex_env ex_js)\<^sup>*\<^sup>* empty_store ex_store2"
  "(store_step ex_env ex_js)\<^sup>*\<^sup>* empty_store ex_store3" "(store_step ex_env ex_js)\<^sup>*\<^sup>* empty_store ex_store4"
  "(store_step ex_env ex_js)\<^sup>*\<^sup>* empty_store ex_store5" "(store_step ex_env ex_js)\<^sup>*\<^sup>* ex_store3 ex_store5"
  using ex_steps by (meson r_into_rtranclp rtranclp.rtrancl_into_rtrancl)+

lemma ex_store_ok: "store_ok ex_env ex_store1" "store_ok ex_env ex_store2" "store_ok ex_env ex_store3"
  "store_ok ex_env ex_store4" "store_ok ex_env ex_store5"
  using reachable_store_ok [OF _ ex_env_ok empty_store_ok] ex_reachable by blast+

lemmas ex_stores = ex_store1_def ex_store2_def ex_store3_def ex_store4_def ex_store5_def empty_db_def

end
