(* ===== verification/Store_Theorems.thy ===== *)
theory Store_Theorems
  imports Store_Examples
begin

section \<open>Properties of the store\<close>

text \<open>
  What \<open>rewind-store\<close> promises its callers, over the states reachable from an empty store by its
  own operations.  Each theorem that has a hypothesis is followed by an instance at the session
  of \<open>Store_Examples\<close>.
\<close>

definition reachable_store :: "'j env \<Rightarrow> 'j json_lib \<Rightarrow> 'j store \<Rightarrow> bool" where
  "reachable_store env js st \<longleftrightarrow> (store_step env js)\<^sup>*\<^sup>* empty_store st"

lemma reachable_ok: "env_ok env \<Longrightarrow> reachable_store env js st \<Longrightarrow> store_ok env st"
  using reachable_store_ok [OF _ _ empty_store_ok] by (auto simp: reachable_store_def)

lemma reachable_frames:
  assumes "env_ok env" and "json_lib_ok env js" and "reachable_store env js st"
  shows "terminal_objects_ok env (st_db st)"
proof -
  have "terminal_objects_ok env (st_db empty_store)" by (simp add: terminal_objects_ok_def empty_store_def empty_db_def)
  then show ?thesis using assms reachable_terminal empty_store_ok unfolding reachable_store_def by blast
qed

lemma ex_reachable_store: "reachable_store ex_env ex_js ex_store3" "reachable_store ex_env ex_js ex_store4"
  "reachable_store ex_env ex_js ex_store5"
  using ex_reachable by (simp_all add: reachable_store_def)

subsection \<open>Invariants\<close>

text \<open>C1: In every reachable store primary and foreign keys hold, each run's rows are numbered 1, 2, .. with
  non-decreasing offsets and decode to valid events, no run is its own ancestor, every indexed object has an intact
  file of the recorded size, and every stored snapshot loads.\<close>
theorem reachable_stores_are_sound:
  assumes "env_ok env" and "reachable_store env js st"
  shows "schema_ok (st_db st) \<and> timeline_ok env (st_db st) \<and> ancestry_ok (st_db st) \<and> index_ok env st
    \<and> snapshots_ok env (st_db st)"
  using reachable_ok [OF assms] by (simp add: store_ok_def)

lemma reachable_stores_are_sound_witness:
  "index_ok ex_env ex_store5 \<and> ancestry_ok (st_db ex_store5) \<and> length (tb_events (st_db ex_store5)) = 3"
  using reachable_stores_are_sound [OF ex_env_ok ex_reachable_store(3)] by (simp add: ex_store5_def)

text \<open>C2: History is append-only: whatever operations run on a reachable store, the timeline of a run only gets longer,
  that of a run whose status is final does not change, and a status only moves along the lifecycle.\<close>
theorem history_is_append_only:
  assumes "env_ok env" and "reachable_store env js st" and "(store_step env js)\<^sup>*\<^sup>* st st'"
  shows "(\<exists>new. timeline env (st_db st') run = timeline env (st_db st) run @ new
      \<and> (\<forall>s. status_of (st_db st) (run_id_text (env_uuid env) run) = Some (run_status_as_str s) \<and> is_terminal s \<longrightarrow> new = []))
    \<and> (\<forall>s. status_of (st_db st) t = Some (run_status_as_str s) \<longrightarrow>
         (\<exists>s'. status_of (st_db st') t = Some (run_status_as_str s') \<and> lifecycle\<^sup>*\<^sup>* s s'))"
  using reachable_store_ok [OF assms(3,1) reachable_ok [OF assms(1,2)]] unfolding evolves_def by blast

lemma history_is_append_only_witness:
  "\<exists>new. timeline ex_env (st_db ex_store5) ex_run_id = timeline ex_env (st_db ex_store3) ex_run_id @ new"
  using history_is_append_only [OF ex_env_ok ex_reachable_store(1) ex_reachable(6)] by blast

text \<open>C7: No reachable store has lost recorded bytes: the object a recorded terminal frame refers to loads under the
  frame's length as its limit, has exactly that length and digest, and it cannot be deleted.\<close>
theorem recorded_frames_load:
  assumes "env_ok env" and "json_lib_ok env js" and "reachable_store env js st"
    and "e \<in> set (timeline env (st_db st) run)" and "referenced_object (ev_payload e) = Some (i, n)"
  shows "(\<exists>bs. load_object env st i n = Inr bs \<and> length bs = unat n \<and> ObjectId (env_hash env bs) = i)
    \<and> \<not> is_ok (snd (delete_object js st i)) \<and> fst (delete_object js st i) = st"
proof -
  have ok: "store_ok env st" by (rule reachable_ok [OF assms(1,3)])
  then have "object_is_referenced js (st_db st) i"
    using timeline_reference [OF assms(2) _ assms(4,5)] by (simp add: store_ok_def)
  moreover have "index_ok env st" using ok by (simp add: store_ok_def)
  ultimately have "\<exists>x. snd (delete_object js st i) = Inl x \<and> fst (delete_object js st i) = st"
    using delete_object_cases [of js st i "fst (delete_object js st i)" "snd (delete_object js st i)" env] by auto
  moreover have "terminal_objects_ok env (st_db st)" by (rule reachable_frames [OF assms(1-3)])
  ultimately show ?thesis using terminal_frame_loads [OF assms(2) ok _ assms(4,5)] by auto
qed

lemma ex_timeline: "timeline ex_env (st_db ex_store4) ex_run_id = [ex_event1, ex_event2]"
proof -
  have t2: "timeline_ok ex_env (st_db ex_store2)" "timeline_ok ex_env (st_db ex_store3)"
    using ex_store_ok by (simp_all add: store_ok_def)
  have run: "ev_run ex_event1 = ex_run_id" "ev_run ex_event2 = ex_run_id"
    by (simp_all add: ex_event1_def ex_event2_def ex_event_def)
  have "timeline_ok ex_env ((st_db ex_store2)\<lparr>tb_events := []\<rparr>)"
    by (simp add: timeline_ok_def run_events_def del: upt_Suc)
  from append_then_timeline [OF ex_env_ok this _ ex_append_checkpoint]
  have "timeline ex_env (st_db ex_store2) ex_run_id = [ex_event1]"
    using ex_typed run by (simp add: timeline_def run_events_def)
  moreover have "timeline ex_env (st_db ex_store3) ex_run_id = timeline ex_env (st_db ex_store2) ex_run_id"
    by (rule timeline_cong(2)) (simp add: ex_store3_def)
  moreover from append_then_timeline [OF ex_env_ok t2(2) _ ex_append_in]
  have "timeline ex_env (st_db ex_store4) ex_run_id = timeline ex_env (st_db ex_store3) ex_run_id @ [ex_event2]"
    using ex_typed run by simp
  ultimately show ?thesis by simp
qed

lemma recorded_frames_load_witness:
  "\<exists>bs. load_object ex_env ex_store4 ex_object_id 3 = Inr bs \<and> length bs = 3"
proof -
  have e: "ex_event2 \<in> set (timeline ex_env (st_db ex_store4) ex_run_id)" by (simp add: ex_timeline)
  have r: "referenced_object (ev_payload ex_event2) = Some (ex_object_id, 3)" by (simp add: ex_event2_def ex_event_def)
  from recorded_frames_load [OF ex_env_ok ex_js_ok ex_reachable_store(2) e r] show ?thesis by auto
qed

subsection \<open>Writing history\<close>

lemma expected_sequence_succeeds:
  assumes "timeline_ok env db"
  shows "\<exists>x. expected_sequence (last_event db run) = Inr x"
proof (cases "run_events db run = []")
  case True
  then show ?thesis using last_event_timeline [OF assms, of run] by (simp add: expected_sequence_def)
next
  case False
  let ?l = "last (run_events db run)"
  have "?l \<in> set (tb_events db)" using last_in_set [OF False] by (simp add: run_events_def)
  then have "er_sequence ?l < 2 ^ 63" "0 \<le> er_sequence ?l"
    using assms last_sequence [OF assms False] by (auto simp: timeline_ok_def)
  then have "uint (of_int (er_sequence ?l) :: u64) < 9223372036854775808" by (simp add: uint_word_of_int)
  then have "unat (of_int (er_sequence ?l) :: u64) < 9223372036854775808"
    using uint_nat [of "of_int (er_sequence ?l) :: u64"] by linarith
  then show ?thesis
    using False last_event_timeline [OF assms, of run] \<open>0 \<le> er_sequence ?l\<close>
    by (simp add: expected_sequence_def decode_u64_def checked_add_def)
qed

text \<open>C25: An accepted batch is what the run's timeline gains, in order, the timelines of all other runs stay as they
  were, the whole timeline is numbered 1, 2, .. without a gap, and the run was still active.\<close>
theorem append_extends_history:
  assumes "env_ok env" and "reachable_store env js st" and "\<forall>e \<in> set es. event_typed e" and "es \<noteq> []"
    and "append_event_batch env st es = Inr st'"
  defines "run \<equiv> ev_run (hd es)"
  shows "timeline env (st_db st') run = timeline env (st_db st) run @ es
    \<and> (\<forall>other. other \<noteq> run \<longrightarrow> timeline env (st_db st') other = timeline env (st_db st) other)
    \<and> map (\<lambda>e. unat (sequence_get (ev_sequence e))) (timeline env (st_db st') run)
        = [1..<Suc (length (timeline env (st_db st') run))]
    \<and> (\<exists>s. status_of (st_db st) (run_id_text (env_uuid env) run) = Some s \<and> active_status s)"
proof -
  have ok: "store_ok env st" by (rule reachable_ok [OF assms(1,2)])
  then have db: "db_ok env (st_db st)" and time: "timeline_ok env (st_db st)" by (simp_all add: store_ok_iff db_ok_def)
  obtain d where d: "append_event_batch_in env (st_db st) es = Inr d" "st_db st' = d"
    using assms(4,5) by (auto simp: append_event_batch_def and_then_Inr_iff map_ok_Inr_iff)
  have time': "timeline_ok env d" using append_step [OF assms(1) db assms(3) d(1)] by (simp add: db_ok_def)
  have "timeline env d other = timeline env (st_db st) other" if "other \<noteq> run" for other
  proof -
    have "run_id_text (env_uuid env) other \<noteq> run_id_text (env_uuid env) (ev_run (hd es))"
      using that assms(1) by (simp add: env_ok_def run_id_text_inj run_def)
    then show ?thesis using run_events_append [OF d(1) assms(4)] by (simp add: timeline_def)
  qed
  then show ?thesis
    using append_then_timeline [OF assms(1) time assms(3) d(1) assms(4)] timeline_sequences [OF time', of run]
      append_batch_Inr(3) [OF d(1) assms(4)] by (auto simp: run_def d(2) status_of_def simp del: upt_Suc)
qed

lemma append_extends_history_witness:
  "timeline ex_env (st_db ex_store4) ex_run_id = timeline ex_env (st_db ex_store3) ex_run_id @ [ex_event2]"
  using append_extends_history [OF ex_env_ok ex_reachable_store(1) _ _ ex_append] ex_typed
  by (simp add: ex_event2_def ex_event_def)

text \<open>A well-formed batch for a run that is over, or one that does not begin at the successor of the run's last
  sequence, is refused as an ordering error.\<close>
theorem append_refuses_disorder:
  assumes "env_ok env" and "reachable_store env js st" and "st_writer st" and "validate_batch (env_uuid env) es = Inr ()"
    and "es \<noteq> []" and "status_of (st_db st) (run_id_text (env_uuid env) (ev_run (hd es))) = Some (run_status_as_str s)"
    and "is_terminal s \<or> unat (sequence_get (ev_sequence (hd es))) \<noteq> Suc (length (timeline env (st_db st) (ev_run (hd es))))"
  shows "append_event_batch env st es = Inl EventOrder"
proof -
  let ?t = "run_id_text (env_uuid env) (ev_run (hd es))"
  obtain row where row: "select_row rr_id ?t (tb_runs (st_db st)) = Some row" "rr_status row = run_status_as_str s"
    using assms(6) by (auto simp: status_of_def)
  have time: "timeline_ok env (st_db st)" using reachable_ok [OF assms(1,2)] by (simp add: store_ok_def)
  then have n: "length (run_events (st_db st) ?t) = length (timeline env (st_db st) (ev_run (hd es)))"
    using list_all2_lengthD [OF timeline_rows] by blast
  obtain x where x: "expected_sequence (last_event (st_db st) ?t) = Inr x" using expected_sequence_succeeds [OF time] by blast
  then have "unat x = Suc (length (run_events (st_db st) ?t))" by (rule expected_sequence_timeline [OF time])
  then have "is_terminal s \<or> sequence_get (ev_sequence (hd es)) \<noteq> x" using assms(7) n by auto
  then show ?thesis
    using assms(3,4,5) row x
    by (cases "is_terminal s") (auto simp: append_event_batch_def append_event_batch_in_def require_writer_def Let_def active_status_iff)
qed

lemma append_refuses_disorder_witness:
  "append_event_batch ex_env ex_store5 [ex_event2] = Inl EventOrder"
proof -
  have s: "status_of (st_db ex_store5) (run_id_text (env_uuid ex_env) (ev_run (hd [ex_event2]))) = Some (run_status_as_str Failed)"
    by (simp add: status_of_def ex_store5_def ex_event2_def ex_event_def ex_run_row_def ex_run_text_def)
  have v: "validate_batch (env_uuid ex_env) [ex_event2] = Inr ()"
    by (simp add: validate_batch_def ex_event2_def ex_event_def event_validate_def)
  have "st_writer ex_store5" by (simp add: ex_stores)
  from append_refuses_disorder [OF ex_env_ok ex_reachable_store(3) this v _ s] show ?thesis by simp
qed

subsection \<open>Reading history in pages\<close>

text \<open>C26: Whatever page size within the limit a reader chooses, following the pages of \<open>load_timeline\<close> from the
  start gives the whole timeline of the run, each event once and in order.\<close>
theorem timeline_pages_are_complete:
  assumes "env_ok env" and "reachable_store env js st" and "n \<noteq> 0" and "n \<le> MAX_TIMELINE_PAGE"
    and "length (timeline env (st_db st) run) < pages"
  shows "timeline_pages.read_pages env (st_db st, run) n pages None = Some (Inr (timeline env (st_db st) run))"
proof -
  have "timeline_ok env (fst (st_db st, run))" using reachable_ok [OF assms(1,2)] by (simp add: store_ok_def)
  from timeline_pages.read_pages_complete [OF this] show ?thesis using assms(3-5) by simp
qed

lemma timeline_pages_are_complete_witness:
  "timeline_pages.read_pages ex_env (st_db ex_store4, ex_run_id) 1 3 None = Some (Inr [ex_event1, ex_event2])"
  using timeline_pages_are_complete [OF ex_env_ok ex_reachable_store(2), of 1 ex_run_id 3]
  by (simp add: ex_timeline MAX_TIMELINE_PAGE_def)

subsection \<open>The end of a run\<close>

text \<open>C24: Finishing a run with its last events is all or nothing: on success the batch is appended, it ends with the
  completion event of exactly the stored status and exit, the status is final, and no further event, completion or
  restart is accepted for the run.\<close>
theorem finishing_closes_the_run:
  assumes "env_ok env" and "reachable_store env js st" and "\<forall>e \<in> set es. event_typed e"
    and "finish_run_with_events env st run outcome es = Inr st'"
  shows "is_terminal (rf_status outcome)
    \<and> status_of (st_db st') (run_id_text (env_uuid env) run) = Some (run_status_as_str (rf_status outcome))
    \<and> timeline env (st_db st') run = timeline env (st_db st) run @ es
    \<and> ev_payload (last es) = RunCompleted (rf_status outcome) (rf_exit_status outcome)
    \<and> (\<forall>more_events. more_events \<noteq> [] \<and> ev_run (hd more_events) = run \<longrightarrow> \<not> is_ok (append_event_batch env st' more_events))
    \<and> (\<forall>again. \<not> is_ok (finish_run env st' run again)) \<and> (\<forall>snap. \<not> is_ok (mark_run_running env st' run snap))"
proof -
  let ?t = "run_id_text (env_uuid env) run"
  have ok: "store_ok env st" by (rule reachable_ok [OF assms(1,2)])
  then have db: "db_ok env (st_db st)" and time: "timeline_ok env (st_db st)" by (simp_all add: store_ok_iff db_ok_def)
  obtain d1 d where ne: "es \<noteq> []" and check: "check_terminal_event env run outcome (last es) = Inr ()"
    and d1: "append_event_batch_in env (st_db st) es = Inr d1" and d: "finish_run_in env d1 run outcome = Inr d"
    and st': "st' = st\<lparr>st_db := d\<rparr>"
    using assms(4) by (auto simp: finish_run_with_events_def and_then_Inr_iff map_ok_Inr_iff split: if_splits)
  have payload: "ev_payload (last es) = RunCompleted (rf_status outcome) (rf_exit_status outcome)" "ev_run (last es) = run"
    using check by (auto simp: check_terminal_event_def split: event_payload.splits)
  then have run: "ev_run (hd es) = run" using append_batch_Inr(1) [OF d1 ne] last_in_set [OF ne] by auto
  have ok1: "db_ok env d1" using append_step [OF assms(1) db assms(3) d1] by blast
  then have schema: "schema_ok d1" by (simp add: db_ok_def)
  note f = finish_run_in_Inr [OF d schema]
  have time_d: "timeline env d run = timeline env d1 run" by (rule timeline_cong(2)) (use f in auto)
  have closed: "status_of (st_db st') ?t = Some (run_status_as_str (rf_status outcome))" "is_terminal (rf_status outcome)"
    using f by (simp_all add: st')
  have "\<not> is_ok (append_event_batch env st' es')" if "es' \<noteq> []" "ev_run (hd es') = run" for es'
    using closed_to_events [of "st_db st'" env es'] closed that
    by (auto simp: append_event_batch_def is_ok_iff and_then_Inr_iff map_ok_Inr_iff)
  moreover have "\<not> is_ok (finish_run env st' run again)" for again
    using closed_to_finish [OF closed, of again] by (auto simp: finish_run_def is_ok_iff and_then_Inr_iff map_ok_Inr_iff)
  moreover have "\<not> is_ok (mark_run_running env st' run snap)" for snap
  proof
    assume "is_ok (mark_run_running env st' run snap)"
    then obtain x where x: "mark_run_running env st' run snap = Inr x" by (auto simp: is_ok_iff)
    have "schema_ok (st_db st')" using f by (simp add: st')
    from mark_run_running_Inr [OF x this] have "status_of (st_db st') ?t = Some (run_status_as_str Preparing)" by simp
    then show False using closed by (cases "rf_status outcome") simp_all
  qed
  ultimately show ?thesis
    using closed payload(1) append_then_timeline [OF assms(1) time assms(3) d1 ne] time_d by (simp add: run st')
qed

lemma finishing_closes_the_run_witness:
  "timeline ex_env (st_db ex_store5) ex_run_id = [ex_event1, ex_event2, ex_event3]
   \<and> \<not> is_ok (append_event_batch ex_env ex_store5 [ex_event3])"
  using finishing_closes_the_run [OF ex_env_ok ex_reachable_store(2) _ ex_finish_run] ex_typed(6)
  by (simp add: ex_timeline) (simp add: ex_event3_def ex_event_def)

subsection \<open>Runs, snapshots and checkpoints\<close>

text \<open>A created run reads back exactly as it was given, its timeline is empty and its status is \<open>preparing\<close>; a
  second run of the same identity is refused.\<close>
theorem created_run_loads:
  assumes "env_ok env" and "reachable_store env js st" and "run_typed r" and "create_run env st r = Inr st'"
  shows "load_run env (st_db st') (run_identity r) = Inr r \<and> run_state r = Preparing
    \<and> timeline env (st_db st') (run_identity r) = [] \<and> \<not> is_ok (create_run env st' r)"
proof -
  let ?t = "run_id_text (env_uuid env) (run_identity r)"
  have ok: "store_ok env st" by (rule reachable_ok [OF assms(1,2)])
  then have schema: "schema_ok (st_db st)" by (simp add: store_ok_def)
  obtain d where d: "create_run_in env (st_db st) r = Inr d" "st_db st' = d" and p: "run_state r = Preparing"
    using assms(4) by (auto simp: create_run_def Let_def and_then_Inr_iff map_ok_Inr_iff)
  obtain row where row: "run_columns env r = Inr row" "rr_id row \<notin> rr_id ` set (tb_runs (st_db st))"
    and new: "d = (st_db st)\<lparr>tb_runs := tb_runs (st_db st) @ [row],
      tb_arguments := tb_arguments (st_db st) @ argument_rows ?t 0 (run_arguments r),
      tb_parents := tb_parents (st_db st) @ parent_rows env r\<rparr>"
    using create_run_in_Inr [OF d(1)] by blast
  have runs: "tb_runs d = tb_runs (st_db st) @ [row]" and ev: "tb_events d = tb_events (st_db st)" by (simp_all add: new)
  have id: "rr_id row = ?t" by (rule run_columns_id [OF row(1)])
  have "er_run ` set (tb_events (st_db st)) \<subseteq> rr_id ` set (tb_runs (st_db st))"
    using schema by (simp add: schema_ok_def references_ok_def)
  moreover have "?t \<notin> rr_id ` set (tb_runs (st_db st))" using row(2) by (simp only: id not_False_eq_True)
  ultimately have "\<forall>e \<in> set (tb_events (st_db st)). er_run e \<noteq> ?t" by (metis image_subset_iff)
  then have "run_events (st_db st) ?t = []" by (simp only: run_events_def filter_empty_conv not_False_eq_True)
  then have "run_events d ?t = []" by (simp add: run_events_def ev)
  moreover have "\<not> is_ok (create_run env st' r)"
  proof
    assume "is_ok (create_run env st' r)"
    then obtain d' where "create_run_in env d r = Inr d'"
      using d(2) by (auto simp: is_ok_iff create_run_def Let_def and_then_Inr_iff map_ok_Inr_iff)
    then obtain row' where "run_columns env r = Inr row'" "rr_id row' \<notin> rr_id ` set (tb_runs d)"
      using create_run_in_Inr [of env d r d'] by blast
    then show False using row(1) runs by simp
  qed
  ultimately show ?thesis
    using create_then_load [OF assms(1) schema assms(3,4)] p by (simp add: timeline_def d(2))
qed

lemma created_run_loads_witness: "load_run ex_env (st_db ex_store1) (run_identity ex_run) = Inr ex_run"
proof -
  have "reachable_store ex_env ex_js empty_store" by (simp add: reachable_store_def)
  from created_run_loads [OF ex_env_ok this ex_typed(1) ex_create] show ?thesis by blast
qed

text \<open>C28: A stored snapshot reads back as it was given and keeps every other snapshot readable as before; each of its
  files has an object in the store that loads with the recorded digest.\<close>
theorem stored_snapshot_loads:
  assumes "env_ok env" and "reachable_store env js st" and "snapshot_typed s" and "store_snapshot env st s created_at = Inr st'"
  shows "load_snapshot env st' (snapshot_identity s) = Inr s
    \<and> (\<forall>j. snapshot_id_text j \<noteq> snapshot_id_text (snapshot_identity s) \<longrightarrow> load_snapshot env st' j = load_snapshot env st j)
    \<and> (\<forall>e \<in> set (manifest_entries (snapshot_content s)). \<forall>i n x. entry_kind e = File i n x \<longrightarrow>
         (\<exists>bs. load_object env st' i (- 1) = Inr bs \<and> ObjectId (env_hash env bs) = i))"
proof -
  have ok: "store_ok env st" by (rule reachable_ok [OF assms(1,2)])
  obtain d where v: "validate_snapshot env s = Inr ()"
    and d: "store_snapshot_in env (st_db st) s created_at = Inr d" "st' = st\<lparr>st_db := d\<rparr>"
    using assms(4) by (auto simp: store_snapshot_def and_then_Inr_iff map_ok_Inr_iff)
  have schema: "schema_ok (st_db st)" using ok by (simp add: store_ok_def)
  note r = store_snapshot_in_Inr [OF d(1) schema assms(3) v]
  then have l: "load_snapshot env st' (snapshot_identity s) = Inr s" and k: "schema_ok (st_db st')"
    by (simp_all add: load_snapshot_def d(2))
  have "store_step env js st st'" by (rule store_step.snapshot [OF assms(4,3)])
  then have "store_ok env st'" using store_step_ok [OF _ assms(1) ok] by blast
  then have "index_ok env st'" by (simp add: store_ok_def)
  then show ?thesis using l r snapshot_file_loads [OF k _ l] by (simp add: load_snapshot_def d(2))
qed

lemma stored_snapshot_loads_witness:
  "\<exists>st'. store_snapshot ex_env ex_store1 ex_snapshot (Timestamp 1001) = Inr st'
    \<and> load_snapshot ex_env st' (snapshot_identity ex_snapshot) = Inr ex_snapshot"
proof -
  have "is_ok (store_snapshot ex_env ex_store1 ex_snapshot (Timestamp 1001))"
    using ex_store_snapshot ex_snapshot_valid by (simp add: store_snapshot_def require_writer_def ex_store1_def)
  then obtain st' where st': "store_snapshot ex_env ex_store1 ex_snapshot (Timestamp 1001) = Inr st'" by (auto simp: is_ok_iff)
  have "reachable_store ex_env ex_js ex_store1" using ex_reachable by (simp add: reachable_store_def)
  from stored_snapshot_loads [OF ex_env_ok this ex_typed(2) st'] show ?thesis using st' by blast
qed

text \<open>C27: A checkpoint committed with its event is visible as a whole: its snapshot and its record load, the timeline
  gains exactly the event that names them, and an initial or final checkpoint is linked to its run, never replacing
  another link.\<close>
theorem committed_checkpoint_loads:
  assumes "env_ok env" and "reachable_store env js st" and "snapshot_typed s" and "checkpoint_typed c" and "event_typed e"
    and "commit_checkpoint_with_event env st c s e = Inr st'"
  shows "load_snapshot env st' (ck_snapshot c) = Inr s \<and> load_checkpoint env (st_db st') (ck_id c) = Inr c
    \<and> timeline env (st_db st') (ck_run c) = timeline env (st_db st) (ck_run c) @ [e]
    \<and> ev_sequence e = ck_sequence c \<and> ev_payload e = CheckpointCommitted (ck_id c) (ck_snapshot c)
    \<and> (\<forall>snap. link_of (ck_reason c) (snapshot_id_text (ck_snapshot c)) = Some snap \<longrightarrow>
         run_link (st_db st') (run_id_text (env_uuid env) (ck_run c)) (ck_reason c) = Some snap
         \<and> run_link (st_db st) (run_id_text (env_uuid env) (ck_run c)) (ck_reason c) \<in> {None, Some snap})"
  using commit_checkpoint_with_event_Inr [OF assms(1) _ _ assms(3-6)] reachable_ok [OF assms(1,2)]
  by (simp add: store_ok_def)

lemma committed_checkpoint_loads_witness:
  "load_checkpoint ex_env (st_db ex_store2) ex_checkpoint_id = Inr ex_checkpoint"
proof -
  have "reachable_store ex_env ex_js ex_store1" using ex_reachable by (simp add: reachable_store_def)
  from committed_checkpoint_loads [OF ex_env_ok this ex_typed(2,3,4) ex_commit] show ?thesis
    by (simp add: ex_checkpoint_def)
qed

subsection \<open>Recovery\<close>

text \<open>C23: Recovery after a crash always goes through and leaves no run open: from any reachable store with the writer lock
  and fewer than 2^63 - 1 events it returns the runs that were active, marks exactly those interrupted, and changes no
  timeline.\<close>
theorem recovery_closes_every_run:
  assumes "env_ok env" and "reachable_store env js st" and "st_writer st" and "length (tb_events (st_db st)) + 1 < 2 ^ 63"
  shows "\<exists>st' runs. mark_interrupted_runs env st t = Inr (st', runs)
    \<and> map (run_id_text (env_uuid env)) runs = active_ids (st_db st) \<and> active_ids (st_db st') = []
    \<and> (\<forall>run. timeline env (st_db st') run = timeline env (st_db st) run)
    \<and> (\<forall>u. status_of (st_db st') u =
         map_option (\<lambda>s. if active_status s then ''interrupted'' else s) (status_of (st_db st) u))
    \<and> reachable_store env js st'"
proof -
  have ok: "db_ok env (st_db st)" using reachable_ok [OF assms(1,2)] by (simp add: store_ok_iff)
  have "recoverable env (st_db st) (active_ids (st_db st))"
    using reachable_recoverable [OF ok reachable_progress [OF _ assms(1)] assms(4)] assms(2)
    by (simp add: reachable_store_def)
  from mark_interrupted_runs_succeeds [OF assms(3) _ this, of t] ok obtain runs where
    m: "mark_interrupted_runs env st t = Inr (st\<lparr>st_db := recovered (st_db st) t\<rparr>, runs)"
    and runs: "map (run_id_text (env_uuid env)) runs = active_ids (st_db st)"
    by (auto simp: db_ok_def)
  have "reachable_store env js (st\<lparr>st_db := recovered (st_db st) t\<rparr>)"
    using assms(2) store_step.recover [OF m, of js] unfolding reachable_store_def by (rule rtranclp.rtrancl_into_rtrancl)
  then show ?thesis
    using m runs recovered_no_active [of "st_db st" t] recovered_timeline(2) [of env "st_db st" t]
    by (intro exI [of _ "st\<lparr>st_db := recovered (st_db st) t\<rparr>"] exI [of _ runs])
      (simp add: recovered_status split: option.split)
qed

lemma recovery_closes_every_run_witness:
  "\<exists>st' runs. mark_interrupted_runs ex_env ex_store4 (Timestamp 2000) = Inr (st', runs) \<and> active_ids (st_db st') = []"
  using recovery_closes_every_run [OF ex_env_ok ex_reachable_store(2), of "Timestamp 2000"]
  by (simp add: ex_stores) blast

end
