(* ===== verification/Store_Upkeep.thy ===== *)
theory Store_Upkeep
  imports Store_Theorems
begin

section \<open>Properties of maintenance\<close>

text \<open>
  Garbage collection and verification over reachable stores: what deleting an object can and cannot
  do, that the bounded listings a collector reads are complete, and that the verification sample
  raises no false alarm.
\<close>

subsection \<open>Deletion\<close>



definition ex_temporary :: orphan_file where
  "ex_temporary = \<lparr>of_relative = ''0a/.tmp-1-2'', of_kind = OrphanTemporary, of_stored_size = 0\<rparr>"

text \<open>C31: Removing a crash artifact never touches an indexed object: on success exactly the file named by the artifact is
  gone, it was not the file of an indexed or referenced object, and every indexed object loads as before.\<close>
theorem orphan_deletion_is_safe:
  assumes "delete_physical_orphan js st x = Inr (st', y)"
  shows "y = x \<and> st_db st' = st_db st \<and> st_files st' = (st_files st)(of_relative x := None)
    \<and> (\<forall>i. object_exists (st_db st) i \<or> object_is_referenced js (st_db st) i \<longrightarrow>
         of_relative x \<noteq> path_for i \<and> load_object env st' i n = load_object env st i n)"
proof -
  note d = delete_physical_orphan_Inr [OF assms]
  have "of_relative x \<noteq> path_for i" if "object_exists (st_db st) i \<or> object_is_referenced js (st_db st) i" for i
    using d that by (cases "of_kind x") auto
  moreover from this have "load_object env st' i n = load_object env st i n"
    if "object_exists (st_db st) i \<or> object_is_referenced js (st_db st) i" for i
    using d that by (force simp: load_object_def object_get_def open_reader_def)
  ultimately show ?thesis using d by auto
qed

lemma orphan_deletion_is_safe_witness:
  "\<exists>st'. delete_physical_orphan ex_js ex_store5 ex_temporary = Inr (st', ex_temporary)
     \<and> st_files st' = (st_files ex_store5)(''0a/.tmp-1-2'' := None)"
proof -
  have "is_ok (delete_physical_orphan ex_js ex_store5 ex_temporary)"
    by (simp add: delete_physical_orphan_def ex_temporary_def require_writer_def ex_stores validate_orphan_def
        remove_relative_file_def relative_components_def path_components_def orphan_valid_def temporary_name_def
        nul_def char_of_eq_iff is_ascii_digit_def is_hex_char_def)
  then obtain st' y where d: "delete_physical_orphan ex_js ex_store5 ex_temporary = Inr (st', y)" by (auto simp: is_ok_iff)
  from orphan_deletion_is_safe [OF d] d show ?thesis by (simp add: ex_temporary_def)
qed

subsection \<open>Listings\<close>

lemma object_records_ids:
  assumes "index_ok env st"
  shows "or_id ` set (object_records st) = {i. object_id_ok i \<and> object_exists (st_db st) i}"
proof -
  note rows = object_records_rows [OF assms]
  have ids: "map ob_id (object_rows st) = map object_id_text (map or_id (object_records st)) \<and> list_all object_id_ok (map or_id (object_records st))"
    using rows by (induction rule: list_all2_induct) (auto dest: object_record_of_Inr)
  have "ob_id ` set (tb_objects (st_db st)) = object_id_text ` or_id ` set (object_records st)"
    using arg_cong [OF conjunct1 [OF ids], of set] by (simp only: object_rows_def set_map set_sort)
  then show ?thesis using ids by (auto simp: object_exists_iff list_all_iff image_iff)
qed

text \<open>Listing objects page by page, with any page size within the limit, gives every indexed object exactly once, in
  digest order.\<close>
theorem object_listing_is_complete:
  assumes "env_ok env" and "reachable_store env js st" and "page_limit_ok n" and "length (object_records st) < pages"
  shows "object_pages.read_pages st n pages None = Some (Inr (object_records st))
    \<and> or_id ` set (object_records st) = {i. object_id_ok i \<and> object_exists (st_db st) i}
    \<and> strictly_sorted (map or_id (object_records st))"
proof -
  have index: "index_ok env st" using reachable_ok [OF assms(1,2)] by (simp add: store_ok_def)
  show ?thesis
    using object_pages.read_pages_complete [OF index assms(3,4)] object_records_ids [OF index] object_records_sorted [OF index] by blast
qed

lemma object_listing_is_complete_witness:
  "\<exists>records. object_pages.read_pages ex_store5 1 2 None = Some (Inr records) \<and> ex_object_id \<in> or_id ` set records"
proof -
  have index: "index_ok ex_env ex_store5" using ex_store_ok by (simp add: store_ok_def)
  have "length (object_records ex_store5) = length (object_rows ex_store5)"
    using list_all2_lengthD [OF object_records_rows [OF index]] by simp
  then have "length (object_records ex_store5) < 2" by (simp add: object_rows_def ex_stores)
  moreover have "page_limit_ok 1" by (simp add: page_limit_ok_def MAX_OBJECT_PAGE_def MAX_TIMELINE_PAGE_def)
  moreover have "object_exists (st_db ex_store5) ex_object_id" by (simp add: object_exists_iff ex_stores ex_object_row_def)
  ultimately show ?thesis
    using object_listing_is_complete [OF ex_env_ok ex_reachable_store(3), of 1 2] ex_ids_ok(4) by blast
qed

lemma referenced_ids_ok:
  assumes "json_lib_ok env js" and ok: "store_ok env st"
  shows "id_texts_ok (referenced_texts js (st_db st))"
proof -
  have refs: "(\<Union>r \<in> set (tb_entries (st_db st)). set_option (se_object r)) \<subseteq> ob_id ` set (tb_objects (st_db st))"
    "tc_object ` set (tb_chunks (st_db st)) \<subseteq> ob_id ` set (tb_objects (st_db st))"
    using ok by (simp_all add: store_ok_def schema_ok_def references_ok_def)
  have indexed: "is_ok (object_id_from_str t)" if "t \<in> ob_id ` set (tb_objects (st_db st))" for t
    using ok that by (auto simp: store_ok_def index_ok_def object_indexed_def object_id_form.parse_display)
  have "is_ok (object_id_from_str t)" if t: "r \<in> set (tb_events (st_db st))" "event_object js r = Some t" for r t
  proof -
    have "timeline_ok env (st_db st)" using ok by (simp add: store_ok_def)
    then obtain e where e: "row_decodes env r e" using t(1) unfolding timeline_ok_def by blast
    then obtain i n where "referenced_object (ev_payload e) = Some (i, n)" "t = object_id_text i"
      using event_object_of [OF assms(1) e] t(2) by (cases "referenced_object (ev_payload e)") auto
    moreover from this have "object_id_ok i" using row_decodes_payload [OF e] assms(1) by (auto simp: json_lib_ok_def)
    ultimately show ?thesis by (simp add: object_id_form.parse_display)
  qed
  moreover have "is_ok (object_id_from_str t)" if "r \<in> set (tb_entries (st_db st))" "se_object r = Some t" for r t
    using refs(1) that by (intro indexed) force
  moreover have "is_ok (object_id_from_str (tc_object c))" if "c \<in> set (tb_chunks (st_db st))" for c
    using refs(2) that by (intro indexed) blast
  ultimately show ?thesis by (auto simp: id_texts_ok_def referenced_texts_def in_map_filter)
qed

text \<open>C30: The pages of referenced objects, which decide what garbage collection keeps, list exactly the objects that a
  snapshot entry, a terminal chunk or a terminal event refers to, each once and in order.\<close>
theorem referenced_listing_is_complete:
  assumes "env_ok env" and "json_lib_ok env js" and "reachable_store env js st" and "page_limit_ok n"
    and "length (sorted_object_ids (referenced_texts js (st_db st))) < pages"
  shows "\<exists>ids. object_id_pages.read_pages (referenced_texts js (st_db st)) n pages None = Some (Inr ids)
    \<and> strictly_sorted ids \<and> (\<forall>i. object_id_ok i \<longrightarrow> (i \<in> set ids \<longleftrightarrow> object_is_referenced js (st_db st) i))"
proof -
  have ids: "id_texts_ok (referenced_texts js (st_db st))"
    by (rule referenced_ids_ok [OF assms(2) reachable_ok [OF assms(1,3)]])
  show ?thesis
    using object_id_pages.read_pages_complete [OF ids assms(4,5)] sorted_object_ids_sorted [OF ids]
      sorted_object_ids_referenced [OF ids] by blast
qed

lemma referenced_listing_is_complete_witness:
  "\<exists>ids. object_id_pages.read_pages (referenced_texts ex_js (st_db ex_store5)) 7
      (Suc (length (sorted_object_ids (referenced_texts ex_js (st_db ex_store5))))) None = Some (Inr ids) \<and> ex_object_id \<in> set ids"
proof -
  have "page_limit_ok 7" by (simp add: page_limit_ok_def MAX_OBJECT_PAGE_def MAX_TIMELINE_PAGE_def)
  moreover have "tc_object ` set (tb_chunks (st_db ex_store5)) = {object_id_text ex_object_id}"
    by (simp add: ex_stores chunk_columns_def ex_event2_def ex_event_def)
  then have "object_is_referenced ex_js (st_db ex_store5) ex_object_id"
    by (auto simp: object_is_referenced_iff referenced_texts_def)
  ultimately show ?thesis
    using referenced_listing_is_complete [OF ex_env_ok ex_js_ok ex_reachable_store(3), of 7
        "Suc (length (sorted_object_ids (referenced_texts ex_js (st_db ex_store5))))"] ex_ids_ok(4) by blast
qed

text \<open>The scan for crash artifacts, which keeps only the first ones of an unordered directory walk in memory, gives
  page by page exactly the recognizable artifacts of the directory that no row of the index names, sorted.\<close>
theorem orphan_listing_is_complete:
  assumes "fanout_ok dirs" and "st_writer st" and "page_limit_ok n" and "length (sorted_orphans (st, dirs)) < pages"
  shows "\<exists>files. orphan_pages.read_pages (st, dirs) n pages None = Some (Inr files)
    \<and> strictly_sorted (map of_relative files)
    \<and> (\<forall>x. x \<in> set files \<longleftrightarrow> (\<exists>p \<in> set fanout_prefixes. \<exists>entries. dirs p = Some entries
         \<and> (\<exists>entry \<in> set entries. orphan_of (st_db st) [] p entry = Some x)))
    \<and> (\<forall>x i. x \<in> set files \<and> of_kind x = OrphanObject i \<longrightarrow> \<not> object_exists (st_db st) i)"
proof -
  have "fanout_ok (snd (st, dirs)) \<and> st_writer (fst (st, dirs))" using assms(1,2) by simp
  note pages = orphan_pages.read_pages_complete [OF this assms(3,4)]
  have mem: "x \<in> set (sorted_orphans (st, dirs)) \<longleftrightarrow> (\<exists>p \<in> set fanout_prefixes. \<exists>entries. dirs p = Some entries
      \<and> (\<exists>entry \<in> set entries. orphan_of (st_db st) [] p entry = Some x))" for x
  proof -
    have "x \<in> set (orphans_below (st_db st) dirs [] p) \<longleftrightarrow> (\<exists>entries. dirs p = Some entries
        \<and> (\<exists>entry \<in> set entries. orphan_of (st_db st) [] p entry = Some x))" for p
      by (cases "dirs p") (simp_all add: orphans_below_def in_map_filter)
    then show ?thesis by (simp add: sorted_orphans_def all_orphans_def)
  qed
  have "\<not> object_exists (st_db st) i"
    if "orphan_of (st_db st) [] p entry = Some x" "of_kind x = OrphanObject i" for p entry x i
    using that by (cases entry) (auto simp: orphan_of_def Let_def split: if_splits option.splits)
  then show ?thesis
    using pages mem sorted_orphans_sorted [of "(st, dirs)"] assms(1) by (intro exI [of _ "sorted_orphans (st, dirs)"]) auto
qed

definition ex_fanout :: fanout where
  "ex_fanout = (\<lambda>p. if p = ''0a'' then Some [(''.tmp-1-2'', Some 9), (''notes'', Some 1)] else None)"

lemma orphan_listing_is_complete_witness:
  "\<exists>files. orphan_pages.read_pages (ex_store5, ex_fanout) 7 (Suc (length (sorted_orphans (ex_store5, ex_fanout)))) None = Some (Inr files)
     \<and> strictly_sorted (map of_relative files)"
proof -
  have "fanout_ok ex_fanout" by (simp add: fanout_ok_def ex_fanout_def)
  moreover have "page_limit_ok 7" by (simp add: page_limit_ok_def MAX_OBJECT_PAGE_def MAX_TIMELINE_PAGE_def)
  moreover have "st_writer ex_store5" by (simp add: ex_stores)
  ultimately show ?thesis
    using orphan_listing_is_complete [of ex_fanout ex_store5 7 "Suc (length (sorted_orphans (ex_store5, ex_fanout)))"] by blast
qed

subsection \<open>Verification\<close>

lemma sample_records_succeed:
  assumes "list_all2 (\<lambda>r x. object_record_of files r = Inr x) rows xs" and "\<forall>r \<in> set rows. object_indexed env files r"
    and "unat (ov_checked v) + length xs < 2 ^ 32"
  shows "\<exists>z. fold_result (sample_record env files) (v, budget) xs = Inr z"
  using assms
proof (induction arbitrary: v budget rule: list_all2_induct)
  case (Cons r rows x xs)
  have rest: "\<forall>r \<in> set rows. object_indexed env files r" and ind: "object_indexed env files r" using Cons.prems by simp_all
  show ?case
  proof (cases "or_logical_size x > budget")
    case True
    then show ?thesis using Cons.IH [OF rest] Cons.prems(2) by (simp add: sample_record_skip)
  next
    case False
    have c: "checked_add (ov_checked v) 1 = Some (ov_checked v + 1)" using Cons.prems(2) by (simp add: checked_add_def)
    then have "unat (ov_checked v + 1) = unat (ov_checked v) + 1" by (simp add: checked_add_Some_iff)
    then show ?thesis
      using Cons.IH [OF rest, of "v\<lparr>ov_checked := ov_checked v + 1\<rparr>" "budget - or_logical_size x"] Cons.prems(2) c
      by (simp add: sample_record_intact [OF False ind Cons.hyps(1)])
  qed
qed simp

text \<open>Verifying the first objects of a reachable store raises no false alarm: it succeeds for every page size
  within the limit, reports no object as corrupt, and accounts for each object of the page as checked or as skipped for
  the byte budget.\<close>
theorem verification_raises_no_false_alarm:
  assumes "env_ok env" and "reachable_store env js st" and "page_limit_ok n"
  shows "\<exists>v. sample_object_corruption env st n budget = Inr v \<and> ov_corrupt v = []
    \<and> unat (ov_checked v) + length (ov_skipped v) = min (unat n) (length (object_records st))"
proof -
  have index: "index_ok env st" using reachable_ok [OF assms(1,2)] by (simp add: store_ok_def)
  let ?xs = "take (unat n) (object_records st)" and ?rows = "take (unat n) (object_rows st)"
  let ?v = "\<lparr>ov_checked = 0, ov_corrupt = [], ov_skipped = []\<rparr>"
  obtain page where page: "list_objects st None n = Inr page" "op_objects page = ?xs"
    using fetch_objects_start [OF index assms(3)] by (auto simp: fetch_objects_def map_ok_Inr_iff)
  have rows: "list_all2 (\<lambda>r x. object_record_of (st_files st) r = Inr x) ?rows ?xs"
    by (rule list_all2_takeI [OF object_records_rows [OF index]])
  have intact: "\<forall>r \<in> set ?rows. object_indexed env (st_files st) r"
    using index by (auto simp: index_ok_def object_rows_def dest: in_set_takeD)
  have "unat n < 2 ^ 32" using unsigned_less [of n, where 'a = nat] by simp
  then have "unat (ov_checked ?v) + length ?xs < 2 ^ 32" by simp
  from sample_records_succeed [OF rows intact this] obtain v left where
    f: "fold_result (sample_record env (st_files st)) (?v, budget) ?xs = Inr (v, left)" by fast
  from sample_records_intact [OF rows intact f] have "ov_corrupt v = []"
    "unat (ov_checked v) + length (ov_skipped v) = min (unat n) (length (object_records st))" by (simp_all add: min.commute)
  then show ?thesis using page f by (simp add: sample_object_corruption_def)
qed

lemma verification_raises_no_false_alarm_witness:
  "\<exists>v. sample_object_corruption ex_env ex_store5 5 100 = Inr v \<and> ov_corrupt v = []"
proof -
  have "page_limit_ok 5" by (simp add: page_limit_ok_def MAX_OBJECT_PAGE_def MAX_TIMELINE_PAGE_def)
  from verification_raises_no_false_alarm [OF ex_env_ok ex_reachable_store(3) this] show ?thesis by blast
qed

end
