(* ===== verification/Effects.thy ===== *)
theory Effects
  imports Prelude
begin

section \<open>Operations that change a state and may fail\<close>

text \<open>
  The operations above the object store call the operating system, and what they did before
  they failed stays done.  An \<open>effect\<close> therefore returns the new state beside the result, on
  the error path too.  \<open>and_do\<close> is the \<open>?\<close> of the source over effects, \<open>rescue\<close> a match on the
  error, \<open>outcome\<close> a match on the whole result, \<open>each\<close> a loop whose body may return early with
  an error.  The proofs use \<open>after m Q E s\<close>, the weakest precondition of an effect: \<open>Q\<close> holds of
  the value and the state if it succeeds from \<open>s\<close>, and \<open>E\<close> of the error and the state if not.
\<close>

type_synonym ('s, 'e, 'a) effect = "'s \<Rightarrow> ('e, 'a) result \<times> 's"

definition give :: "'a \<Rightarrow> ('s, 'e, 'a) effect" where
  "give x s = (Inr x, s)"

definition stop :: "'e \<Rightarrow> ('s, 'e, 'a) effect" where
  "stop e s = (Inl e, s)"

definition lift :: "('e, 'a) result \<Rightarrow> ('s, 'e, 'a) effect" where
  "lift r s = (r, s)"

definition inspect :: "('s \<Rightarrow> 'a) \<Rightarrow> ('s, 'e, 'a) effect" where
  "inspect g s = (Inr (g s), s)"

definition change :: "('s \<Rightarrow> 's) \<Rightarrow> ('s, 'e, unit) effect" where
  "change g s = (Inr (), g s)"

definition and_do :: "('s, 'e, 'a) effect \<Rightarrow> ('a \<Rightarrow> ('s, 'e, 'b) effect) \<Rightarrow> ('s, 'e, 'b) effect" where
  "and_do m f s = (case m s of (Inl e, t) \<Rightarrow> (Inl e, t) | (Inr x, t) \<Rightarrow> f x t)"

definition rescue :: "('s, 'e, 'a) effect \<Rightarrow> ('e \<Rightarrow> ('s, 'f, 'a) effect) \<Rightarrow> ('s, 'f, 'a) effect" where
  "rescue m h s = (case m s of (Inl e, t) \<Rightarrow> h e t | (Inr x, t) \<Rightarrow> (Inr x, t))"

definition outcome :: "('s, 'e, 'a) effect \<Rightarrow> ('s, 'f, ('e, 'a) result) effect" where
  "outcome m s = (case m s of (r, t) \<Rightarrow> (Inr r, t))"

definition with_err :: "('e \<Rightarrow> 'f) \<Rightarrow> ('s, 'e, 'a) effect \<Rightarrow> ('s, 'f, 'a) effect" where
  "with_err g m s = (case m s of (r, t) \<Rightarrow> (map_err g r, t))"

definition at_part :: "('s \<Rightarrow> 't) \<Rightarrow> ('t \<Rightarrow> 's \<Rightarrow> 's) \<Rightarrow> ('t, 'e, 'a) effect \<Rightarrow> ('s, 'e, 'a) effect" where
  \<comment> \<open>an effect on a part of the state\<close>
  "at_part get put m s = (case m (get s) of (r, t) \<Rightarrow> (r, put t s))"

fun each :: "('a \<Rightarrow> ('s, 'e, unit) effect) \<Rightarrow> 'a list \<Rightarrow> ('s, 'e, unit) effect" where
  "each f [] = give ()"
| "each f (x # xs) = and_do (f x) (\<lambda>_. each f xs)"

fun fold_do :: "('a \<Rightarrow> 'r \<Rightarrow> ('s, 'e, 'r) effect) \<Rightarrow> 'a list \<Rightarrow> 'r \<Rightarrow> ('s, 'e, 'r) effect" where
  \<comment> \<open>a loop that also updates a local variable\<close>
  "fold_do f [] r = give r"
| "fold_do f (x # xs) r = and_do (f x r) (fold_do f xs)"

lemma and_do_cong [fundef_cong]:
  assumes "m = m'" and "\<And>x s t. m' s = (Inr x, t) \<Longrightarrow> f x = f' x"
  shows "and_do m f = and_do m' f'"
proof
  fix s
  show "and_do m f s = and_do m' f' s"
  proof (cases "m' s")
    case (Pair r t)
    then show ?thesis using assms by (cases r) (auto simp: and_do_def)
  qed
qed

lemma each_cong [fundef_cong]:
  "xs = ys \<Longrightarrow> (\<And>x. x \<in> set ys \<Longrightarrow> f x = g x) \<Longrightarrow> each f xs = each g ys"
  by (induction xs arbitrary: ys) auto

lemma each_append: "each f (xs @ ys) = and_do (each f xs) (\<lambda>_. each f ys)"
proof (induction xs)
  case Nil
  show ?case by (rule ext) (simp add: and_do_def give_def)
next
  case (Cons x xs)
  show ?case
    by (rule ext) (simp add: Cons.IH and_do_def split: prod.splits sum.splits)
qed

subsection \<open>Weakest preconditions\<close>

definition after :: "('s, 'e, 'a) effect \<Rightarrow> ('a \<Rightarrow> 's \<Rightarrow> bool) \<Rightarrow> ('e \<Rightarrow> 's \<Rightarrow> bool) \<Rightarrow> 's \<Rightarrow> bool" where
  "after m Q E s \<longleftrightarrow> (case m s of (Inl e, t) \<Rightarrow> E e t | (Inr x, t) \<Rightarrow> Q x t)"

lemma after_give [simp]: "after (give x) Q E s \<longleftrightarrow> Q x s"
  by (simp add: after_def give_def)

lemma after_stop [simp]: "after (stop e) Q E s \<longleftrightarrow> E e s"
  by (simp add: after_def stop_def)

lemma after_inspect [simp]: "after (inspect g) Q E s \<longleftrightarrow> Q (g s) s"
  by (simp add: after_def inspect_def)

lemma after_change [simp]: "after (change f) Q E s \<longleftrightarrow> Q () (f s)"
  by (simp add: after_def change_def)

lemma after_lift: "after (lift r) Q E s \<longleftrightarrow> (case r of Inl e \<Rightarrow> E e s | Inr x \<Rightarrow> Q x s)"
  by (simp add: after_def lift_def split: sum.splits)

lemma after_and_do [simp]: "after (and_do m f) Q E s \<longleftrightarrow> after m (\<lambda>x. after (f x) Q E) E s"
  by (auto simp: after_def and_do_def split: prod.splits sum.splits)

lemma after_rescue [simp]: "after (rescue m h) Q E s \<longleftrightarrow> after m Q (\<lambda>e. after (h e) Q E) s"
  by (auto simp: after_def rescue_def split: prod.splits sum.splits)

lemma after_outcome [simp]:
  "after (outcome m) Q E s \<longleftrightarrow> after m (\<lambda>x. Q (Inr x)) (\<lambda>e. Q (Inl e)) s"
  by (auto simp: after_def outcome_def split: prod.splits sum.splits)

lemma after_with_err [simp]: "after (with_err g m) Q E s \<longleftrightarrow> after m Q (\<lambda>e. E (g e)) s"
  by (auto simp: after_def with_err_def split: prod.splits sum.splits)

lemma after_at_part [simp]:
  "after (at_part get put m) Q E s \<longleftrightarrow> after m (\<lambda>x t. Q x (put t s)) (\<lambda>e t. E e (put t s)) (get s)"
  by (auto simp: after_def at_part_def split: prod.splits sum.splits)

lemma after_if [simp]:
  "after (if b then m else n) Q E s \<longleftrightarrow> (if b then after m Q E s else after n Q E s)"
  by simp

lemma after_mono:
  "after m Q E s \<Longrightarrow> (\<And>x t. Q x t \<Longrightarrow> Q' x t) \<Longrightarrow> (\<And>e t. E e t \<Longrightarrow> E' e t) \<Longrightarrow> after m Q' E' s"
  by (auto simp: after_def split: prod.splits sum.splits)

lemma after_conj:
  "after m Q E s \<Longrightarrow> after m Q' E' s \<Longrightarrow> after m (\<lambda>x t. Q x t \<and> Q' x t) (\<lambda>e t. E e t \<and> E' e t) s"
  by (auto simp: after_def split: prod.splits sum.splits)

lemma after_ok: "after m Q E s \<Longrightarrow> m s = (Inr x, t) \<Longrightarrow> Q x t"
  and after_err: "after m Q E s \<Longrightarrow> m s = (Inl e, t) \<Longrightarrow> E e t"
  by (simp_all add: after_def)

lemma after_total: "after m Q (\<lambda>_ _. False) s \<Longrightarrow> \<exists>x t. m s = (Inr x, t) \<and> Q x t"
  by (auto simp: after_def split: prod.splits sum.splits)

lemma after_okI: "(\<And>x t. m s = (Inr x, t) \<Longrightarrow> Q x t) \<Longrightarrow> (\<And>e t. m s = (Inl e, t) \<Longrightarrow> E e t) \<Longrightarrow> after m Q E s"
  by (auto simp: after_def split: prod.splits sum.splits)

lemma after_each:
  \<comment> \<open>the invariant names the elements already passed\<close>
  assumes "I [] s"
    and "\<And>passed x rest s. xs = passed @ x # rest \<Longrightarrow> I passed s \<Longrightarrow> after (f x) (\<lambda>_. I (passed @ [x])) E s"
  shows "after (each f xs) (\<lambda>_. I xs) E s"
proof -
  have "after (each f rest) (\<lambda>_. I xs) E s" if "xs = before @ rest" and "I before s" for before rest s
    using that
  proof (induction rest arbitrary: before s)
    case (Cons x rest)
    then have "after (f x) (\<lambda>_. I (before @ [x])) E s" using assms(2) by blast
    then have "after (f x) (\<lambda>_. after (each f rest) (\<lambda>_. I xs) E) E s"
      by (rule after_mono) (use Cons in auto)
    then show ?case by simp
  qed simp
  from this [of "[]" xs s] show ?thesis using assms(1) by simp
qed

lemma after_each_keeps:
  assumes "I s" and "\<And>x s. x \<in> set xs \<Longrightarrow> I s \<Longrightarrow> after (f x) (\<lambda>_. I) E s"
  shows "after (each f xs) (\<lambda>_. I) E s"
  using after_each [of "\<lambda>_. I" s xs f E] assms by auto

lemma after_fold_do:
  assumes "I [] r s"
    and "\<And>passed x rest r s. xs = passed @ x # rest \<Longrightarrow> I passed r s \<Longrightarrow> after (f x r) (I (passed @ [x])) E s"
  shows "after (fold_do f xs r) (I xs) E s"
proof -
  have "after (fold_do f rest r) (I xs) E s" if "xs = before @ rest" and "I before r s" for before rest r s
    using that
  proof (induction rest arbitrary: before r s)
    case (Cons x rest)
    then have "after (f x r) (I (before @ [x])) E s" using assms(2) by blast
    then have "after (f x r) (\<lambda>r'. after (fold_do f rest r') (I xs) E) E s"
      by (rule after_mono) (use Cons in auto)
    then show ?case by simp
  qed simp
  from this [of "[]" xs r s] show ?thesis using assms(1) by simp
qed

end
