(* ===== verification/File_Tree.thy ===== *)
theory File_Tree
  imports Effects Paths "HOL-Library.Sublist"
begin

section \<open>The file system below the program\<close>

text \<open>
  The kernel interface of \<open>rewind-platform/src/filesystem.rs\<close>.  A file system is a tree of
  nodes; a descriptor of an open directory is the path of that directory from the root of the
  tree, as a list of names.  Every call of the kernel counts in \<open>w_calls\<close>, and \<open>w_faults\<close> says
  which calls fail for a reason that is not visible in the tree (a device error, a full disk, an
  exhausted table), so a theorem about all worlds covers a failure at every single call.  The
  errors a caller distinguishes (\<open>ENOENT\<close>, \<open>ENOTDIR\<close>, \<open>ELOOP\<close>, \<open>EEXIST\<close>, ..) are statements
  about the tree, and the calls give them exactly when the documented condition holds.

  The calls follow POSIX for a process that owns the files: a directory must grant the owner
  search permission to look a name up and write permission to change its entries, a file or
  directory read permission to be opened for reading, unless the process is privileged.
  Creation modes are those the caller passes (a \<open>umask\<close> that removes owner bits is not
  modelled).  Other processes do not change the tree between the calls.
\<close>

record attributes =
  at_ino :: nat
  at_mode :: u32
  at_modified :: int
  at_changed :: int

datatype node =
    DirNode attributes "(string \<times> node) list"
  | FileNode attributes "u8 list"
  | LinkNode attributes string
  | OtherNode attributes

type_synonym descriptor = "string list"

record world =
  w_tree :: node
  w_calls :: nat
  w_faults :: "nat \<Rightarrow> (int \<times> nat) option"
  w_next_ino :: nat
  w_privileged :: bool
  w_link_mode :: u32

datatype io_error =
    ENOENT | ENOTDIR | ELOOP | EEXIST | ENOTEMPTY | EISDIR | EACCES | EINVAL
  | OtherError int

datatype file_kind = KindDirectory | KindFile | KindSymlink | KindOther

record stat =
  \<comment> \<open>the fields of \<open>libc::stat\<close> and \<open>fs::Metadata\<close> that are compared; seconds and nanoseconds
     of a timestamp are one number, the device is the same for every node\<close>
  st_kind :: file_kind
  st_mode :: u32
  st_size :: u64
  st_ino :: nat
  st_modified :: int
  st_changed :: int

subsection \<open>Nodes and paths\<close>

fun node_attributes :: "node \<Rightarrow> attributes" where
  "node_attributes (DirNode a _) = a"
| "node_attributes (FileNode a _) = a"
| "node_attributes (LinkNode a _) = a"
| "node_attributes (OtherNode a) = a"

fun with_attributes :: "(attributes \<Rightarrow> attributes) \<Rightarrow> node \<Rightarrow> node" where
  "with_attributes f (DirNode a cs) = DirNode (f a) cs"
| "with_attributes f (FileNode a bs) = FileNode (f a) bs"
| "with_attributes f (LinkNode a t) = LinkNode (f a) t"
| "with_attributes f (OtherNode a) = OtherNode (f a)"

fun children :: "node \<Rightarrow> (string \<times> node) list" where
  "children (DirNode _ cs) = cs"
| "children _ = []"

fun is_dir :: "node \<Rightarrow> bool" where
  "is_dir (DirNode _ _) = True"
| "is_dir _ = False"

fun at :: "node \<Rightarrow> string list \<Rightarrow> node option" where
  "at n [] = Some n"
| "at n (c # p) = (case map_of (children n) c of None \<Rightarrow> None | Some k \<Rightarrow> at k p)"

fun alter :: "string list \<Rightarrow> (node \<Rightarrow> node) \<Rightarrow> node \<Rightarrow> node" where
  \<comment> \<open>the tree with the node at a path replaced\<close>
  "alter [] f n = f n"
| "alter (c # p) f (DirNode a cs) = DirNode a (map (\<lambda>(d, k). (d, if d = c then alter p f k else k)) cs)"
| "alter (c # p) f n = n"

definition on_children ::
    "int \<Rightarrow> ((string \<times> node) list \<Rightarrow> (string \<times> node) list) \<Rightarrow> node \<Rightarrow> node" where
  \<comment> \<open>a change of the entries of a directory stamps the directory\<close>
  "on_children now f n = (case n of
       DirNode a cs \<Rightarrow> DirNode (a\<lparr>at_modified := now, at_changed := now\<rparr>) (f cs)
     | _ \<Rightarrow> n)"

definition without :: "string \<Rightarrow> (string \<times> node) list \<Rightarrow> (string \<times> node) list" where
  "without c cs = filter (\<lambda>(d, _). d \<noteq> c) cs"

definition stat_of :: "node \<Rightarrow> stat" where
  "stat_of n =
     \<lparr>st_kind = (case n of DirNode _ _ \<Rightarrow> KindDirectory | FileNode _ _ \<Rightarrow> KindFile
                   | LinkNode _ _ \<Rightarrow> KindSymlink | OtherNode _ \<Rightarrow> KindOther),
      st_mode = at_mode (node_attributes n),
      st_size = (case n of FileNode _ bs \<Rightarrow> of_nat (length bs) | LinkNode _ t \<Rightarrow> of_nat (length t) | _ \<Rightarrow> 0),
      st_ino = at_ino (node_attributes n),
      st_modified = at_modified (node_attributes n), st_changed = at_changed (node_attributes n)\<rparr>"

definition name_ok :: "string \<Rightarrow> bool" where
  \<comment> \<open>what a directory can hold as a name\<close>
  "name_ok c \<longleftrightarrow> component_ok c \<and> CHR ''/'' \<notin> set c \<and> nul \<notin> set c"

definition MAX_FILE_LEN :: nat where
  \<comment> \<open>the range of \<open>off_t\<close>; 27 is \<open>EFBIG\<close>\<close>
  "MAX_FILE_LEN = 2 ^ 63 - 1"

definition S_IRUSR :: u32 where "S_IRUSR = 0x100"
definition S_IWUSR :: u32 where "S_IWUSR = 0x80"
definition S_IXUSR :: u32 where "S_IXUSR = 0x40"

definition grants :: "u32 \<Rightarrow> node \<Rightarrow> world \<Rightarrow> bool" where
  "grants bits n w \<longleftrightarrow> w_privileged w \<or> and (at_mode (node_attributes n)) bits = bits"

subsection \<open>Kernel calls\<close>

definition now :: "world \<Rightarrow> int" where
  "now w = int (w_calls w)"

definition counted :: "world \<Rightarrow> world" where
  "counted w = w\<lparr>w_calls := Suc (w_calls w)\<rparr>"

definition kernel :: "(world \<Rightarrow> (io_error, 'a) result \<times> world) \<Rightarrow> (world, io_error, 'a) effect" where
  "kernel body w = (case w_faults w (w_calls w) of
       Some (code, _) \<Rightarrow> (Inl (OtherError code), counted w)
     | None \<Rightarrow> body (counted w))"

definition alter_tree :: "string list \<Rightarrow> (node \<Rightarrow> node) \<Rightarrow> world \<Rightarrow> world" where
  "alter_tree p f w = w\<lparr>w_tree := alter p f (w_tree w)\<rparr>"

definition directory_entry :: "u32 \<Rightarrow> descriptor \<Rightarrow> string \<Rightarrow> world \<Rightarrow> (io_error, node) result" where
  \<comment> \<open>the entry a name denotes in an open directory which must grant the permissions \<open>bits\<close>\<close>
  "directory_entry bits parent name w = (case at (w_tree w) parent of
       None \<Rightarrow> Inl ENOENT
     | Some d \<Rightarrow>
         if \<not> is_dir d then Inl ENOTDIR
         else if \<not> grants bits d w then Inl EACCES
         else ok_or ENOENT (map_of (children d) name))"

definition resolve :: "descriptor \<Rightarrow> string \<Rightarrow> string list" where
  "resolve parent name =
     (if name = ''.'' then parent else if name = ''..'' then butlast parent else parent @ [name])"

definition open_directory_at :: "descriptor \<Rightarrow> string \<Rightarrow> (world, io_error, descriptor) effect" where
  \<comment> \<open>\<open>openat\<close> with \<open>O_RDONLY | O_DIRECTORY | O_NOFOLLOW\<close>\<close>
  "open_directory_at parent name = kernel (\<lambda>w.
     (and_then (if name = ''.'' \<or> name = ''..'' then ok_or ENOENT (at (w_tree w) (resolve parent name))
                else directory_entry S_IXUSR parent name w) (\<lambda>n.
        case n of
          DirNode _ _ \<Rightarrow> if grants S_IRUSR n w then Inr (resolve parent name) else Inl EACCES
        | LinkNode _ _ \<Rightarrow> Inl ELOOP
        | _ \<Rightarrow> Inl ENOTDIR), w))"

definition open_file_at :: "descriptor \<Rightarrow> string \<Rightarrow> (world, io_error, descriptor) effect" where
  \<comment> \<open>\<open>openat\<close> with \<open>O_RDONLY | O_NOFOLLOW | O_NONBLOCK\<close>\<close>
  "open_file_at parent name = kernel (\<lambda>w.
     (and_then (directory_entry S_IXUSR parent name w) (\<lambda>n.
        case n of
          LinkNode _ _ \<Rightarrow> Inl ELOOP
        | _ \<Rightarrow> if grants S_IRUSR n w then Inr (parent @ [name]) else Inl EACCES), w))"

definition metadata :: "descriptor \<Rightarrow> (world, io_error, stat) effect" where
  \<comment> \<open>\<open>fstat\<close> of an open descriptor; 9 is \<open>EBADF\<close>\<close>
  "metadata fd = kernel (\<lambda>w. (ok_or (OtherError 9) (map_option stat_of (at (w_tree w) fd)), w))"

definition fstatat_entry :: "descriptor \<Rightarrow> string \<Rightarrow> (world, io_error, stat) effect" where
  \<comment> \<open>\<open>fstatat\<close> with \<open>AT_SYMLINK_NOFOLLOW\<close>\<close>
  "fstatat_entry parent name = kernel (\<lambda>w. (map_ok stat_of (directory_entry S_IXUSR parent name w), w))"

definition add_entry :: "descriptor \<Rightarrow> string \<Rightarrow> (attributes \<Rightarrow> node) \<Rightarrow> u32 \<Rightarrow> world
    \<Rightarrow> (io_error, unit) result \<times> world" where
  "add_entry parent name build mode w =
     (case directory_entry (or S_IWUSR S_IXUSR) parent name w of
        Inr _ \<Rightarrow> (Inl EEXIST, w)
      | Inl e \<Rightarrow>
          if e \<noteq> ENOENT \<or> at (w_tree w) parent = None then (Inl e, w)
          else if \<not> name_ok name then (Inl EINVAL, w)
          else (Inr (), alter_tree parent
                 (on_children (now w) (\<lambda>cs. cs @ [(name, build \<lparr>at_ino = w_next_ino w, at_mode = mode,
                    at_modified = now w, at_changed = now w\<rparr>)]))
                 (w\<lparr>w_next_ino := Suc (w_next_ino w)\<rparr>)))"

definition mkdir_at :: "descriptor \<Rightarrow> string \<Rightarrow> u32 \<Rightarrow> (world, io_error, unit) effect" where
  "mkdir_at parent name mode = kernel (add_entry parent name (\<lambda>a. DirNode a []) mode)"

definition create_file_at :: "descriptor \<Rightarrow> string \<Rightarrow> u32 \<Rightarrow> (world, io_error, descriptor) effect" where
  \<comment> \<open>\<open>openat\<close> with \<open>O_WRONLY | O_CREAT | O_EXCL | O_NOFOLLOW\<close>\<close>
  "create_file_at parent name mode = and_do
     (kernel (add_entry parent name (\<lambda>a. FileNode a []) mode)) (\<lambda>_. give (parent @ [name]))"

definition symlink_at :: "string \<Rightarrow> descriptor \<Rightarrow> string \<Rightarrow> (world, io_error, unit) effect" where
  "symlink_at target parent name = kernel (\<lambda>w.
     if target = [] then (Inl ENOENT, w)
     else add_entry parent name (\<lambda>a. LinkNode a target) (w_link_mode w) w)"

definition file_length :: "node option \<Rightarrow> nat" where
  "file_length n = (case n of Some (FileNode _ bs) \<Rightarrow> length bs | _ \<Rightarrow> 0)"

definition write_all :: "descriptor \<Rightarrow> u8 list \<Rightarrow> (world, io_error, unit) effect" where
  \<comment> \<open>writing at the end of an open file; a failure keeps the bytes written before it\<close>
  "write_all fd bytes w =
     (let store = (\<lambda>bs n. case n of
            FileNode a old \<Rightarrow> FileNode (a\<lparr>at_modified := now w, at_changed := now w\<rparr>) (old @ bs)
          | _ \<Rightarrow> n) in
      case w_faults w (w_calls w) of
        Some (code, written) \<Rightarrow>
          (Inl (OtherError code),
           alter_tree fd (store (take (min written (MAX_FILE_LEN - file_length (at (w_tree w) fd))) bytes)) (counted w))
      | None \<Rightarrow>
          if file_length (at (w_tree w) fd) + length bytes > MAX_FILE_LEN
          then (Inl (OtherError 27), counted w)
          else (Inr (), alter_tree fd (store bytes) (counted w)))"

definition set_permissions :: "descriptor \<Rightarrow> u32 \<Rightarrow> (world, io_error, unit) effect" where
  "set_permissions fd mode = kernel (\<lambda>w.
     (Inr (), alter_tree fd (with_attributes (\<lambda>a. a\<lparr>at_mode := mode, at_changed := now w\<rparr>)) w))"

definition sync_all :: "descriptor \<Rightarrow> (world, io_error, unit) effect" where
  "sync_all fd = kernel (\<lambda>w. (Inr (), w))"

definition try_clone :: "descriptor \<Rightarrow> (world, io_error, descriptor) effect" where
  "try_clone fd = kernel (\<lambda>w. (Inr fd, w))"

definition replaceable :: "node \<Rightarrow> node \<Rightarrow> (io_error, unit) result" where
  \<comment> \<open>what \<open>renameat\<close> requires of an existing destination\<close>
  "replaceable moved old =
     (if is_dir moved then
        (if \<not> is_dir old then Inl ENOTDIR else if children old \<noteq> [] then Inl ENOTEMPTY else Inr ())
      else if is_dir old then Inl EISDIR else Inr ())"

definition rename_at :: "descriptor \<Rightarrow> string \<Rightarrow> string \<Rightarrow> (world, io_error, unit) effect" where
  \<comment> \<open>\<open>renameat\<close> between two names of one directory\<close>
  "rename_at parent old new = kernel (\<lambda>w.
     case directory_entry (or S_IWUSR S_IXUSR) parent old w of
       Inl e \<Rightarrow> (Inl e, w)
     | Inr moved \<Rightarrow>
         if old = new then (Inr (), w)
         else if \<not> name_ok new then (Inl EINVAL, w)
         else
           (case (case directory_entry (or S_IWUSR S_IXUSR) parent new w of
                    Inl _ \<Rightarrow> Inr () | Inr existing \<Rightarrow> replaceable moved existing) of
              Inl e \<Rightarrow> (Inl e, w)
            | Inr _ \<Rightarrow> (Inr (), alter_tree parent
                  (on_children (now w) (\<lambda>cs. without new (without old cs) @ [(new, moved)])) w)))"

definition unlink_at :: "descriptor \<Rightarrow> string \<Rightarrow> bool \<Rightarrow> (world, io_error, unit) effect" where
  \<comment> \<open>\<open>unlinkat\<close>; the last argument is whether \<open>AT_REMOVEDIR\<close> is given\<close>
  "unlink_at parent name removedir = kernel (\<lambda>w.
     case directory_entry (or S_IWUSR S_IXUSR) parent name w of
       Inl e \<Rightarrow> (Inl e, w)
     | Inr n \<Rightarrow>
         if removedir \<and> \<not> is_dir n then (Inl ENOTDIR, w)
         else if removedir \<and> children n \<noteq> [] then (Inl ENOTEMPTY, w)
         else if \<not> removedir \<and> is_dir n then (Inl EISDIR, w)
         else (Inr (), alter_tree parent (on_children (now w) (without name)) w))"

definition read_link :: "descriptor \<Rightarrow> string \<Rightarrow> nat \<Rightarrow> (world, io_error, string) effect" where
  \<comment> \<open>\<open>readlinkat\<close>: at most \<open>capacity\<close> bytes of the target\<close>
  "read_link parent name capacity = kernel (\<lambda>w.
     (and_then (directory_entry S_IXUSR parent name w) (\<lambda>n.
        case n of LinkNode _ t \<Rightarrow> Inr (take capacity t) | _ \<Rightarrow> Inl EINVAL), w))"

definition open_stream :: "descriptor \<Rightarrow> (world, io_error, string list) effect" where
  \<comment> \<open>\<open>fdopendir\<close>: the names the stream will return, the dot entries among them\<close>
  "open_stream fd = kernel (\<lambda>w. (case at (w_tree w) fd of
       Some (DirNode _ cs) \<Rightarrow> Inr (''.'' # ''..'' # map fst cs)
     | _ \<Rightarrow> Inl ENOTDIR, w))"

definition next_name :: "string list \<Rightarrow> (world, io_error, string option) effect" where
  "next_name names = kernel (\<lambda>w. (Inr (case names of [] \<Rightarrow> None | n # _ \<Rightarrow> Some n), w))"

definition read_bytes :: "descriptor \<Rightarrow> nat \<Rightarrow> nat \<Rightarrow> (world, io_error, u8 list) effect" where
  \<comment> \<open>\<open>read\<close> of at most \<open>count\<close> bytes at the descriptor's offset\<close>
  "read_bytes fd offset wanted = kernel (\<lambda>w. (case at (w_tree w) fd of
       Some (FileNode _ bs) \<Rightarrow> Inr (take wanted (drop offset bs))
     | _ \<Rightarrow> Inl EISDIR, w))"

definition reserve :: "nat \<Rightarrow> (world, unit, unit) effect" where
  \<comment> \<open>\<open>try_reserve_exact\<close>: an allocation, which may fail\<close>
  "reserve wanted = with_err (\<lambda>_. ()) (kernel (\<lambda>w. (Inr (), w)))"

fun reach :: "world \<Rightarrow> node \<Rightarrow> string list \<Rightarrow> (io_error, node) result" where
  \<comment> \<open>the node of a path without symbolic links, from a directory\<close>
  "reach w n [] = Inr n"
| "reach w n (c # p) =
     (if \<not> is_dir n then Inl ENOTDIR
      else if \<not> grants S_IXUSR n w then Inl EACCES
      else and_then (ok_or ENOENT (map_of (children n) c)) (\<lambda>k. reach w k p))"

definition open_directory_path :: "string list \<Rightarrow> (world, io_error, descriptor) effect" where
  \<comment> \<open>\<open>open\<close> with \<open>O_DIRECTORY | O_NOFOLLOW\<close>; the directories of the path are resolved\<close>
  "open_directory_path p = kernel (\<lambda>w.
     (and_then (reach w (w_tree w) p) (\<lambda>n.
        case n of
          DirNode _ _ \<Rightarrow> if grants S_IRUSR n w then Inr p else Inl EACCES
        | LinkNode _ _ \<Rightarrow> Inl ELOOP
        | _ \<Rightarrow> Inl ENOTDIR), w))"

definition symlink_metadata :: "string list \<Rightarrow> (world, io_error, stat) effect" where
  \<comment> \<open>\<open>lstat\<close>\<close>
  "symlink_metadata p = kernel (\<lambda>w. (map_ok stat_of (reach w (w_tree w) p), w))"

end
