(* ===== verification/File_Views.thy ===== *)
theory File_Views
  imports File_Tree
begin

section \<open>The file system as a map from paths\<close>

text \<open>
  \<open>disk w\<close> is the abstraction the proofs use: what a world shows at each path, without inode
  numbers and times.  Every kernel call has one lemma which gives its effect on \<open>disk\<close>, says
  that a failing call leaves it unchanged (apart from a partial write), and in a calm world
  (one without device errors) excludes failure under the documented precondition.  \<open>steady\<close>
  collects what every call keeps.
\<close>

datatype item = ItemDir u32 | ItemFile u32 "u8 list" | ItemLink u32 string | ItemOther u32

fun item_of :: "node \<Rightarrow> item" where
  "item_of (DirNode a _) = ItemDir (at_mode a)"
| "item_of (FileNode a bs) = ItemFile (at_mode a) bs"
| "item_of (LinkNode a t) = ItemLink (at_mode a) t"
| "item_of (OtherNode a) = ItemOther (at_mode a)"

definition view :: "node \<Rightarrow> string list \<Rightarrow> item option" where
  "view n p = map_option item_of (at n p)"

definition disk :: "world \<Rightarrow> string list \<Rightarrow> item option" where
  "disk w = view (w_tree w)"

fun node_ok :: "node \<Rightarrow> bool" where
  "node_ok (DirNode a cs) =
     (distinct (map fst cs) \<and> list_all (\<lambda>c. name_ok (fst c)) cs \<and> list_all (\<lambda>c. node_ok (snd c)) cs)"
| "node_ok (FileNode a bs) = (length bs \<le> MAX_FILE_LEN)"
| "node_ok (LinkNode a t) = True"
| "node_ok (OtherNode a) = True"

definition tree_ok :: "world \<Rightarrow> bool" where
  "tree_ok w \<longleftrightarrow> node_ok (w_tree w)"

definition calm :: "world \<Rightarrow> bool" where
  "calm w \<longleftrightarrow> w_faults w = (\<lambda>_. None)"

definition steady :: "world \<Rightarrow> world \<Rightarrow> bool" where
  "steady w w' \<longleftrightarrow> w_faults w' = w_faults w \<and> w_privileged w' = w_privileged w
     \<and> w_link_mode w' = w_link_mode w \<and> (tree_ok w \<longrightarrow> tree_ok w')"

definition allows :: "world \<Rightarrow> u32 \<Rightarrow> u32 \<Rightarrow> bool" where
  "allows w mode bits \<longleftrightarrow> w_privileged w \<or> and mode bits = bits"

lemma steady_refl [simp]: "steady w w"
  by (simp add: steady_def)

lemma steady_trans: "steady u v \<Longrightarrow> steady v w \<Longrightarrow> steady u w"
  by (simp add: steady_def)

lemma steady_calm: "steady w w' \<Longrightarrow> calm w' = calm w"
  by (simp add: steady_def calm_def)

lemma steady_allows: "steady w w' \<Longrightarrow> allows w' = allows w"
  by (simp add: steady_def allows_def fun_eq_iff)

subsection \<open>Looking paths up\<close>

lemma at_append: "at n (p @ q) = Option.bind (at n p) (\<lambda>m. at m q)"
  by (induction p arbitrary: n) (auto split: option.splits)

lemma view_append: "at n p = Some m \<Longrightarrow> view n (p @ q) = view m q"
  by (simp add: view_def at_append)

lemma view_below_None: "view n p = None \<Longrightarrow> view n (p @ q) = None"
  by (simp add: view_def at_append)

lemma at_child: "at n p = Some m \<Longrightarrow> at n (p @ [c]) = map_of (children m) c"
  by (simp add: at_append split: option.splits)

lemma view_parent_dir:
  "view n (p @ c # q) = Some i \<Longrightarrow> \<exists>m. view n p = Some (ItemDir m)"
proof -
  assume "view n (p @ c # q) = Some i"
  then obtain m where m: "at n p = Some m" "view m (c # q) = Some i"
    by (cases "at n p") (auto simp: view_def at_append)
  then show ?thesis by (cases m) (auto simp: view_def)
qed

lemma map_of_alter:
  "map_of (map (\<lambda>(d, k). (d, if d = c then f k else k)) cs) e
     = (if e = c then map_option f (map_of cs e) else map_of cs e)"
  by (induction cs) auto

lemma at_alter_below: "at (alter p f n) (p @ q) = Option.bind (at n p) (\<lambda>m. at (f m) q)"
proof (induction p arbitrary: n)
  case (Cons c p)
  show ?case
    by (cases n) (auto simp: map_of_alter Cons.IH split: option.splits)
qed simp

lemma view_alter_below: "at n p = Some m \<Longrightarrow> view (alter p f n) (p @ q) = view (f m) q"
  by (simp add: view_def at_alter_below)

lemma alter_missing: "at n p = None \<Longrightarrow> view (alter p f n) = view n"
proof (induction p arbitrary: n)
  case (Cons c p)
  show ?case
  proof
    fix q
    show "view (alter (c # p) f n) q = view n q"
    proof (cases n)
      case (DirNode a cs)
      then show ?thesis
      proof (cases q)
        case (Cons d q')
        show ?thesis
        proof (cases "d = c")
          case True
          then show ?thesis using DirNode Cons Cons.prems Cons.IH
            by (auto simp: view_def map_of_alter fun_eq_iff split: option.splits)
        next
          case False
          then show ?thesis using DirNode Cons by (simp add: view_def map_of_alter split: option.splits)
        qed
      qed (simp add: view_def)
    qed simp_all
  qed
qed simp

lemma view_alter_other: "\<not> prefix p q \<Longrightarrow> view (alter p f n) q = view n q"
proof (induction p arbitrary: n q)
  case (Cons c p)
  show ?case
  proof (cases n)
    case (DirNode a cs)
    then show ?thesis
    proof (cases q)
      case (Cons d q')
      show ?thesis
      proof (cases "d = c")
        case True
        then have "\<not> prefix p q'" using Cons.prems Cons by simp
        then have "view (alter p f k) q' = view k q'" for k by (rule Cons.IH)
        then show ?thesis using True DirNode Cons
          by (auto simp: view_def map_of_alter split: option.splits)
      next
        case False
        then show ?thesis using DirNode Cons by (simp add: view_def map_of_alter split: option.splits)
      qed
    qed (simp add: view_def)
  qed simp_all
qed simp

lemma view_alter:
  assumes "at n p = Some m"
  shows "view (alter p f n) q = (if prefix p q then view (f m) (drop (length p) q) else view n q)"
  using view_alter_below [OF assms, of f "drop (length p) q"] view_alter_other [of p q f n]
  by (auto simp: prefix_def)

lemma node_ok_at: "node_ok n \<Longrightarrow> at n p = Some m \<Longrightarrow> node_ok m"
proof (induction p arbitrary: n)
  case (Cons c p)
  then obtain k where k: "map_of (children n) c = Some k" "at k p = Some m" by (auto split: option.splits)
  then have "(c, k) \<in> set (children n)" by (simp add: map_of_SomeD)
  then have "node_ok k" using Cons.prems(1) by (cases n) (auto simp: list_all_iff)
  then show ?case using Cons.IH k(2) by blast
qed simp

lemma node_ok_alter:
  "node_ok n \<Longrightarrow> (\<And>m. at n p = Some m \<Longrightarrow> node_ok m \<Longrightarrow> node_ok (f m)) \<Longrightarrow> node_ok (alter p f n)"
proof (induction p arbitrary: n)
  case (Cons c p)
  show ?case
  proof (cases n)
    case (DirNode a cs)
    have names: "map fst (map (\<lambda>(d, k). (d, if d = c then alter p f k else k)) cs) = map fst cs"
      by (induction cs) auto
    have "node_ok (alter p f k)" if ck: "(c, k) \<in> set cs" for k
    proof (rule Cons.IH)
      have ok: "distinct (map fst cs)" "node_ok k"
        using Cons.prems(1) DirNode ck by (auto simp: list_all_iff)
      show "node_ok k" by (rule ok)
      have "map_of cs c = Some k" using ok(1) ck by simp
      then show "node_ok (f m)" if "at k p = Some m" "node_ok m" for m
        using Cons.prems(2) DirNode that by simp
    qed
    then have "list_all (\<lambda>c. node_ok (snd c)) (map (\<lambda>(d, k). (d, if d = c then alter p f k else k)) cs)"
      using Cons.prems(1) DirNode by (simp add: list_all_iff split_beta) (metis prod.collapse)
    moreover have "list_all (\<lambda>c. name_ok (fst c)) (map (\<lambda>(d, k). (d, if d = c then alter p f k else k)) cs)"
      using Cons.prems(1) DirNode by (simp add: list_all_iff split_beta)
    ultimately show ?thesis using Cons.prems(1) by (simp only: DirNode alter.simps node_ok.simps names)
  qed (use Cons.prems in simp_all)
qed simp

subsection \<open>Calls that only read\<close>

definition quiet :: "world \<Rightarrow> world \<Rightarrow> bool" where
  "quiet w w' \<longleftrightarrow> w' = w\<lparr>w_calls := w_calls w'\<rparr>"

lemma quiet_counted [simp]: "quiet w (counted w)"
  by (simp add: quiet_def counted_def)

lemma quiet_refl [simp]: "quiet w w"
  by (simp add: quiet_def)

lemma quiet_trans: "quiet u v \<Longrightarrow> quiet v w \<Longrightarrow> quiet u w"
  by (auto simp: quiet_def) (metis world.surjective world.update_convs(2))

lemma quiet_fields:
  assumes "quiet w w'"
  shows "w_tree w' = w_tree w" "w_faults w' = w_faults w" "w_next_ino w' = w_next_ino w"
    "w_privileged w' = w_privileged w" "w_link_mode w' = w_link_mode w"
proof -
  have e: "w' = w\<lparr>w_calls := w_calls w'\<rparr>" using assms by (simp add: quiet_def)
  show "w_tree w' = w_tree w" by (subst e) simp
  show "w_faults w' = w_faults w" by (subst e) simp
  show "w_next_ino w' = w_next_ino w" by (subst e) simp
  show "w_privileged w' = w_privileged w" by (subst e) simp
  show "w_link_mode w' = w_link_mode w" by (subst e) simp
qed

lemma quiet_disk: "quiet w w' \<Longrightarrow> disk w' = disk w"
  by (simp add: disk_def quiet_fields)

lemma quiet_steady: "quiet w w' \<Longrightarrow> steady w w'"
  by (simp add: steady_def tree_ok_def quiet_fields)

lemma quiet_calm: "quiet w w' \<Longrightarrow> calm w' = calm w"
  by (simp add: calm_def quiet_fields)

lemma quiet_allows: "quiet w w' \<Longrightarrow> allows w' = allows w"
  by (simp add: allows_def quiet_fields fun_eq_iff)

lemma counted_fields [simp]:
  "w_tree (counted w) = w_tree w" "w_faults (counted w) = w_faults w"
  "w_privileged (counted w) = w_privileged w" "w_link_mode (counted w) = w_link_mode w"
  by (simp_all add: counted_def)

lemma grants_allows: "grants bits n w = allows w (at_mode (node_attributes n)) bits"
  by (simp add: grants_def allows_def)

lemma grants_counted [simp]: "grants bits n (counted w) = grants bits n w"
  by (simp add: grants_def)

lemma directory_entry_counted [simp]:
  "directory_entry bits parent name (counted w) = directory_entry bits parent name w"
  by (simp add: directory_entry_def split: option.splits)

lemma reach_counted [simp]: "reach (counted w) n p = reach w n p"
  by (induction p arbitrary: n) (simp_all cong: if_cong)

lemma after_kernel:
  "after (kernel body) Q E w \<longleftrightarrow> (case w_faults w (w_calls w) of
      Some (c, _) \<Rightarrow> E (OtherError c) (counted w) | None \<Rightarrow> after body Q E (counted w))"
  by (auto simp: after_def kernel_def split: option.splits)

lemma after_plain: "after (\<lambda>w. (r w, g w)) Q E w \<longleftrightarrow> (case r w of Inl e \<Rightarrow> E e (g w) | Inr x \<Rightarrow> Q x (g w))"
  by (simp add: after_def split: sum.splits)

definition device :: "world \<Rightarrow> io_error \<Rightarrow> bool" where
  "device w e \<longleftrightarrow> \<not> calm w \<and> (\<exists>c. e = OtherError c)"

lemma device_calm [simp]: "calm w \<Longrightarrow> \<not> device w e"
  by (simp add: device_def)

lemma device_names [simp]:
  "\<not> device w ENOENT" "\<not> device w ENOTDIR" "\<not> device w ELOOP" "\<not> device w EEXIST" "\<not> device w ENOTEMPTY"
  "\<not> device w EISDIR" "\<not> device w EACCES" "\<not> device w EINVAL"
  by (simp_all add: device_def)

lemma faulty_not_calm: "w_faults w n = Some x \<Longrightarrow> \<not> calm w"
  by (auto simp: calm_def)

lemma after_read:
  assumes "r (counted w) = r w"
  shows "after (kernel (\<lambda>w. (r w, w))) (\<lambda>x w'. quiet w w' \<and> r w = Inr x)
    (\<lambda>e w'. quiet w w' \<and> (r w = Inl e \<or> device w e)) w"
  using assms
  by (auto simp: after_kernel after_plain device_def faulty_not_calm split: option.splits sum.splits)

subsection \<open>Entries of a directory\<close>

lemma is_dir_view: "is_dir n \<longleftrightarrow> (\<exists>m. item_of n = ItemDir m)"
  by (cases n) auto

lemma directory_entry_Inr:
  "directory_entry bits p c w = Inr n \<longleftrightarrow>
     (\<exists>a cs. at (w_tree w) p = Some (DirNode a cs) \<and> allows w (at_mode a) bits \<and> map_of cs c = Some n)"
  (is "_ = ?r")
proof (cases "at (w_tree w) p")
  case (Some d)
  then show ?thesis by (cases d) (auto simp: directory_entry_def grants_allows)
qed (simp add: directory_entry_def)

lemma directory_entry_node: "directory_entry bits p c w = Inr n \<Longrightarrow> at (w_tree w) (p @ [c]) = Some n"
  by (auto simp: directory_entry_Inr at_child)

lemma disk_dir: "disk w p = Some (ItemDir m) \<longleftrightarrow> (\<exists>a cs. at (w_tree w) p = Some (DirNode a cs) \<and> at_mode a = m)"
proof (cases "at (w_tree w) p")
  case (Some n)
  then show ?thesis by (cases n) (auto simp: disk_def view_def)
qed (simp add: disk_def view_def)

lemma directory_entry_total:
  assumes "disk w p = Some (ItemDir m)" and "allows w m bits"
  shows "directory_entry bits p c w = ok_or ENOENT (at (w_tree w) (p @ [c]))"
  using assms by (auto simp: disk_dir directory_entry_def grants_allows at_child)

lemma directory_entry_ENOENT:
  "directory_entry bits p c w = Inl ENOENT \<Longrightarrow> disk w (p @ [c]) = None"
proof (cases "at (w_tree w) p")
  case (Some d)
  assume "directory_entry bits p c w = Inl ENOENT"
  then show ?thesis using Some
    by (auto simp: directory_entry_def disk_def view_def at_child ok_or_Inl_iff split: if_splits)
qed (simp add: disk_def view_def at_append)

lemma directory_entry_Inl:
  assumes "directory_entry bits p c w = Inl e"
  shows "e = ENOENT \<and> disk w (p @ [c]) = None \<or> e = ENOTDIR \<and> (\<forall>m. disk w p \<noteq> Some (ItemDir m))
    \<or> e = EACCES \<and> (\<exists>m. disk w p = Some (ItemDir m) \<and> \<not> allows w m bits)"
proof (cases "at (w_tree w) p")
  case None
  then show ?thesis using assms by (simp add: directory_entry_def disk_def view_def at_append)
next
  case (Some d)
  then show ?thesis using assms
    by (cases d) (auto simp: directory_entry_def disk_def view_def at_child grants_allows ok_or_Inl_iff split: if_splits)
qed

lemma open_directory_at_spec:
  assumes c: "c \<noteq> ''.''" "c \<noteq> ''..''"
  shows "after (open_directory_at p c)
    (\<lambda>fd w'. quiet w w' \<and> fd = p @ [c] \<and> (\<exists>m. disk w fd = Some (ItemDir m)))
    (\<lambda>e w'. quiet w w'
       \<and> (device w e
          \<or> e = ENOENT \<and> disk w (p @ [c]) = None
          \<or> e \<in> {ENOTDIR, ELOOP} \<and> (\<forall>m. disk w (p @ [c]) \<noteq> Some (ItemDir m))
          \<or> e = EACCES \<and> ((\<exists>m. disk w p = Some (ItemDir m) \<and> \<not> allows w m S_IXUSR)
              \<or> (\<exists>m. disk w (p @ [c]) = Some (ItemDir m) \<and> \<not> allows w m S_IRUSR)))) w"
proof -
  show ?thesis
    unfolding open_directory_at_def
  proof (rule after_mono [OF after_read], goal_cases)
    case (2 fd w')
    then obtain n where n: "directory_entry S_IXUSR p c w = Inr n" and fd: "(case n of
          DirNode _ _ \<Rightarrow> if grants S_IRUSR n w then Inr (resolve p c) else Inl EACCES
        | LinkNode _ _ \<Rightarrow> Inl ELOOP | _ \<Rightarrow> Inl ENOTDIR) = Inr fd" and q: "quiet w w'"
      using c by (auto simp: and_then_Inr_iff)
    show ?case using fd q c directory_entry_node [OF n]
      by (cases n) (simp_all add: resolve_def disk_dir split: if_splits)
  next
    case (3 e w')
    then have q: "quiet w w'" by simp
    from 3 consider "device w e" | "directory_entry S_IXUSR p c w = Inl e"
      | n where "directory_entry S_IXUSR p c w = Inr n" "(case n of
          DirNode _ _ \<Rightarrow> if grants S_IRUSR n w then Inr (resolve p c) else Inl EACCES
        | LinkNode _ _ \<Rightarrow> Inl ELOOP | _ \<Rightarrow> Inl ENOTDIR) = Inl e"
      using c by (auto simp: and_then_Inl_iff)
    then show ?case
    proof cases
      case 2
      have "\<forall>m. disk w p \<noteq> Some (ItemDir m) \<Longrightarrow> \<forall>m. disk w (p @ [c]) \<noteq> Some (ItemDir m)"
        using view_parent_dir [of "w_tree w" p c "[]"] by (auto simp: disk_def)
      then show ?thesis using directory_entry_Inl [OF 2] q by blast
    next
      case 3
      then show ?thesis using q directory_entry_node [OF 3(1)]
        by (cases n) (auto simp: disk_def view_def grants_allows split: if_splits)
    qed (use q in simp)
  qed (simp cong: node.case_cong)
qed

end
