(* ===== verification/File_Calls.thy ===== *)
theory File_Calls
  imports File_Views
begin

section \<open>The effect of the changing calls\<close>

text \<open>
  One lemma per kernel call that changes the tree: its effect on \<open>disk\<close> as an update of the
  map, and what a failure tells.  \<open>entry_refused\<close> is why a call on a directory entry refuses.
\<close>

abbreviation WX :: u32 where "WX \<equiv> or S_IWUSR S_IXUSR"

definition entry_refused :: "world \<Rightarrow> descriptor \<Rightarrow> u32 \<Rightarrow> io_error \<Rightarrow> bool" where
  \<comment> \<open>the directory itself is the reason\<close>
  "entry_refused w p bits e \<longleftrightarrow> e \<in> {ENOENT, ENOTDIR} \<and> (\<forall>m. disk w p \<noteq> Some (ItemDir m))
     \<or> e = EACCES \<and> (\<exists>m. disk w p = Some (ItemDir m) \<and> \<not> allows w m bits)"

lemma entry_refused_not:
  "disk w p = Some (ItemDir m) \<Longrightarrow> allows w m bits \<Longrightarrow> \<not> entry_refused w p bits e"
  by (auto simp: entry_refused_def)

lemma entry_refused_names [simp]:
  "\<not> entry_refused w p bits EEXIST" "\<not> entry_refused w p bits ENOTEMPTY" "\<not> entry_refused w p bits EISDIR"
  "\<not> entry_refused w p bits EINVAL" "\<not> entry_refused w p bits ELOOP" "\<not> entry_refused w p bits (OtherError n)"
  by (simp_all add: entry_refused_def)

lemma view_dir_children:
  "view (DirNode a cs) q = (case q of [] \<Rightarrow> Some (ItemDir (at_mode a))
     | d # r \<Rightarrow> (case map_of cs d of None \<Rightarrow> None | Some k \<Rightarrow> view k r))"
  by (cases q) (auto simp: view_def split: option.splits)

lemma view_leaf: "children n = [] \<Longrightarrow> view n q = (if q = [] then Some (item_of n) else None)"
  by (cases q) (auto simp: view_def)

lemma alter_tree_fields [simp]:
  "w_faults (alter_tree p f w) = w_faults w" "w_privileged (alter_tree p f w) = w_privileged w"
  "w_link_mode (alter_tree p f w) = w_link_mode w" "w_tree (alter_tree p f w) = alter p f (w_tree w)"
  by (simp_all add: alter_tree_def)

lemma now_field [simp]: "disk (w\<lparr>w_next_ino := i\<rparr>) = disk w" "tree_ok (w\<lparr>w_next_ino := i\<rparr>) = tree_ok w"
  "disk (counted w) = disk w" "tree_ok (counted w) = tree_ok w"
  by (simp_all add: disk_def tree_ok_def)

lemma disk_alter_tree: "disk (alter_tree p f w) = view (alter p f (w_tree w))"
  by (simp add: disk_def)

lemma node_ok_dir_at: "tree_ok w \<Longrightarrow> at (w_tree w) p = Some n \<Longrightarrow> node_ok n"
  unfolding tree_ok_def by (rule node_ok_at)

lemma tree_ok_alter_tree:
  "tree_ok w \<Longrightarrow> (\<And>m. at (w_tree w) p = Some m \<Longrightarrow> node_ok m \<Longrightarrow> node_ok (f m)) \<Longrightarrow> tree_ok (alter_tree p f w)"
  by (simp add: tree_ok_def node_ok_alter)

subsection \<open>Adding an entry\<close>

definition add_refused :: "world \<Rightarrow> descriptor \<Rightarrow> string \<Rightarrow> io_error \<Rightarrow> bool" where
  "add_refused w p c e \<longleftrightarrow> device w e \<or> entry_refused w p WX e \<or> e = EEXIST \<and> disk w (p @ [c]) \<noteq> None
     \<or> e = EINVAL \<and> \<not> name_ok c"

lemma directory_entry_missing:
  assumes "directory_entry bits p c w = Inl ENOENT" and "at (w_tree w) p \<noteq> None"
  shows "\<exists>a cs. at (w_tree w) p = Some (DirNode a cs) \<and> map_of cs c = None"
proof -
  obtain d where d: "at (w_tree w) p = Some d" using assms(2) by blast
  then show ?thesis using assms(1)
    by (cases d) (auto simp: directory_entry_def ok_or_Inl_iff split: if_splits)
qed

lemma directory_entry_exists: "directory_entry bits p c w = Inr n \<Longrightarrow> disk w (p @ [c]) = Some (item_of n)"
  by (drule directory_entry_node) (simp add: disk_def view_def)

lemma directory_entry_refused:
  assumes "directory_entry bits p c w = Inl e" and "e \<noteq> ENOENT \<or> at (w_tree w) p = None"
  shows "entry_refused w p bits e"
proof (cases "at (w_tree w) p")
  case None
  then show ?thesis using assms(1) by (simp add: directory_entry_def entry_refused_def disk_def view_def)
next
  case (Some d)
  then show ?thesis using directory_entry_Inl [OF assms(1)] assms(2) by (auto simp: entry_refused_def)
qed

lemma after_add_entry:
  assumes leaf: "\<And>a. children (build a) = []" "\<And>a. item_of (build a) = it (at_mode a)" "\<And>a. node_ok (build a)"
  shows "after (add_entry p c build mode)
    (\<lambda>_ w'. steady w w' \<and> name_ok c \<and> (\<exists>m. disk w p = Some (ItemDir m)) \<and> disk w (p @ [c]) = None
       \<and> disk w' = (disk w)(p @ [c] \<mapsto> it mode))
    (\<lambda>e w'. w' = w \<and> (entry_refused w p WX e \<or> e = EEXIST \<and> disk w (p @ [c]) \<noteq> None \<or> e = EINVAL \<and> \<not> name_ok c)) w"
proof (cases "directory_entry WX p c w")
  case (Inr n)
  then show ?thesis using directory_entry_exists [OF Inr] by (simp add: after_def add_entry_def)
next
  case (Inl e)
  show ?thesis
  proof (cases "e \<noteq> ENOENT \<or> at (w_tree w) p = None")
    case True
    then show ?thesis using directory_entry_refused [OF Inl True] Inl by (simp add: after_def add_entry_def)
  next
    case False
    then obtain a cs where d: "at (w_tree w) p = Some (DirNode a cs)" "map_of cs c = None"
      using directory_entry_missing [of WX p c w] Inl by auto
    show ?thesis
    proof (cases "name_ok c")
      case True
      define k where "k = build \<lparr>at_ino = w_next_ino w, at_mode = mode, at_modified = now w, at_changed = now w\<rparr>"
      define w' where "w' = alter_tree p (on_children (now w) (\<lambda>cs. cs @ [(c, k)])) (w\<lparr>w_next_ino := Suc (w_next_ino w)\<rparr>)"
      have run: "add_entry p c build mode w = (Inr (), w')"
        using Inl False True by (simp add: add_entry_def w'_def k_def)
      have none: "disk w (p @ [c]) = None" using d by (simp add: disk_def view_def at_append)
      have "view (alter p (on_children (now w) (\<lambda>cs. cs @ [(c, k)])) (w_tree w)) q = ((disk w)(p @ [c] \<mapsto> it mode)) q" for q
      proof (cases "prefix p q")
        case pre: True
        then obtain r where r: "q = p @ r" by (auto simp: prefix_def)
        have "view (alter p (on_children (now w) (\<lambda>cs. cs @ [(c, k)])) (w_tree w)) q
            = view (on_children (now w) (\<lambda>cs. cs @ [(c, k)]) (DirNode a cs)) r"
          unfolding r by (rule view_alter_below [OF d(1)])
        also have "\<dots> = (if r = [c] then Some (it mode) else view (DirNode a cs) r)"
          using d(2) leaf by (cases r) (auto simp: on_children_def view_dir_children view_leaf k_def split: option.splits)
        also have "\<dots> = ((disk w)(p @ [c] \<mapsto> it mode)) q"
          using view_append [OF d(1), of r] by (simp add: r disk_def)
        finally show ?thesis .
      next
        case False
        then have "q \<noteq> p @ [c]" by auto
        then show ?thesis using view_alter_other [OF False] by (simp add: disk_def)
      qed
      then have "disk w' = (disk w)(p @ [c] \<mapsto> it mode)"
        by (simp add: w'_def disk_alter_tree fun_eq_iff)
      moreover have "tree_ok w'" if "tree_ok w"
        unfolding w'_def
      proof (rule tree_ok_alter_tree)
        fix m assume "at (w_tree (w\<lparr>w_next_ino := Suc (w_next_ino w)\<rparr>)) p = Some m" "node_ok m"
        then have "m = DirNode a cs" "node_ok (DirNode a cs)" using d by auto
        then show "node_ok (on_children (now w) (\<lambda>cs. cs @ [(c, k)]) m)"
          using d(2) True leaf(3) by (auto simp: on_children_def map_of_eq_None_iff k_def)
      qed (use that in simp)
      ultimately show ?thesis using d True none
        by (simp add: after_def run steady_def w'_def disk_dir)
    next
      case bad: False
      have "add_entry p c build mode w = (Inl EINVAL, w)" using Inl False bad d by (simp add: add_entry_def)
      then show ?thesis using bad by (simp add: after_def)
    qed
  qed
qed

lemma after_kernel_change:
  \<comment> \<open>from the body's effect to the call's\<close>
  assumes "after body Q (\<lambda>e w'. w' = counted w \<and> P e) (counted w)"
  shows "after (kernel body) Q (\<lambda>e w'. quiet w w' \<and> (P e \<or> device w e)) w"
  using assms
  by (auto simp: after_kernel device_def faulty_not_calm elim!: after_mono split: option.splits)

lemma refused_counted [simp]:
  "entry_refused (counted w) = entry_refused w" "allows (counted w) = allows w" "steady (counted w) = steady w"
  by (simp_all add: entry_refused_def allows_def steady_def fun_eq_iff)

lemma mkdir_at_spec:
  "after (mkdir_at p c mode)
    (\<lambda>_ w'. steady w w' \<and> name_ok c \<and> (\<exists>m. disk w p = Some (ItemDir m)) \<and> disk w (p @ [c]) = None
       \<and> disk w' = (disk w)(p @ [c] \<mapsto> ItemDir mode))
    (\<lambda>e w'. quiet w w' \<and> add_refused w p c e) w"
  unfolding mkdir_at_def
  by (rule after_mono [OF after_kernel_change [OF after_add_entry [where it = ItemDir]]])
    (auto simp: add_refused_def)

lemma create_file_at_spec:
  "after (create_file_at p c mode)
    (\<lambda>fd w'. steady w w' \<and> name_ok c \<and> fd = p @ [c] \<and> (\<exists>m. disk w p = Some (ItemDir m)) \<and> disk w (p @ [c]) = None
       \<and> disk w' = (disk w)(p @ [c] \<mapsto> ItemFile mode []))
    (\<lambda>e w'. quiet w w' \<and> add_refused w p c e) w"
  unfolding create_file_at_def after_and_do
  by (rule after_mono [OF after_kernel_change [OF after_add_entry [where it = "\<lambda>m. ItemFile m []"]]])
    (auto simp: add_refused_def MAX_FILE_LEN_def)

lemma symlink_at_spec:
  assumes "target \<noteq> []"
  shows "after (symlink_at target p c)
    (\<lambda>_ w'. steady w w' \<and> name_ok c \<and> (\<exists>m. disk w p = Some (ItemDir m)) \<and> disk w (p @ [c]) = None
       \<and> disk w' = (disk w)(p @ [c] \<mapsto> ItemLink (w_link_mode w) target))
    (\<lambda>e w'. quiet w w' \<and> add_refused w p c e) w"
proof -
  let ?body = "\<lambda>w. if target = [] then (Inl ENOENT, w) else add_entry p c (\<lambda>a. LinkNode a target) (w_link_mode w) w"
  have b: "after ?body Q E v = after (add_entry p c (\<lambda>a. LinkNode a target) (w_link_mode v)) Q E v" for Q E v
    using assms by (simp add: after_def)
  have "after ?body
    (\<lambda>_ w'. steady w w' \<and> name_ok c \<and> (\<exists>m. disk w p = Some (ItemDir m)) \<and> disk w (p @ [c]) = None
       \<and> disk w' = (disk w)(p @ [c] \<mapsto> ItemLink (w_link_mode w) target))
    (\<lambda>e w'. w' = counted w \<and> (entry_refused w p WX e \<or> e = EEXIST \<and> disk w (p @ [c]) \<noteq> None \<or> e = EINVAL \<and> \<not> name_ok c))
    (counted w)"
    unfolding b
    by (rule after_mono [OF after_add_entry [where it = "\<lambda>m. ItemLink m target"]]) auto
  from after_kernel_change [OF this] show ?thesis
    unfolding symlink_at_def by (rule after_mono) (auto simp: add_refused_def)
qed

subsection \<open>Changing a node\<close>

fun chmod_item :: "u32 \<Rightarrow> item \<Rightarrow> item" where
  "chmod_item mode (ItemDir _) = ItemDir mode"
| "chmod_item mode (ItemFile _ bs) = ItemFile mode bs"
| "chmod_item mode (ItemLink _ t) = ItemLink mode t"
| "chmod_item mode (ItemOther _) = ItemOther mode"

lemma view_alter_node:
  \<comment> \<open>a change that keeps the children shows at the node only\<close>
  assumes n: "at t p = Some n" and c: "children (f n) = children n"
  shows "view (alter p f t) = (view t)(p \<mapsto> item_of (f n))"
proof
  fix q
  show "view (alter p f t) q = ((view t)(p \<mapsto> item_of (f n))) q"
  proof (cases "prefix p q")
    case True
    then obtain r where r: "q = p @ r" by (auto simp: prefix_def)
    have "view (f n) r = (if r = [] then Some (item_of (f n)) else view n r)"
      using c by (cases r) (simp_all add: view_def)
    then show ?thesis using view_alter_below [OF n, of f r] view_append [OF n, of r] r by simp
  next
    case False
    then have "q \<noteq> p" by auto
    then show ?thesis using view_alter_other [OF False] by simp
  qed
qed

lemma with_attributes_simps [simp]:
  "children (with_attributes f n) = children n" "node_ok (with_attributes f n) = node_ok n"
  "item_of (with_attributes (\<lambda>a. a\<lparr>at_mode := mode, at_changed := t\<rparr>) n) = chmod_item mode (item_of n)"
  by (cases n; simp)+

lemma after_change_body:
  "after (\<lambda>w. (Inr (), g w)) Q E w \<longleftrightarrow> Q () (g w)"
  by (simp add: after_def)

lemma set_permissions_spec:
  assumes "disk w fd = Some i"
  shows "after (set_permissions fd mode) (\<lambda>_ w'. steady w w' \<and> disk w' = (disk w)(fd \<mapsto> chmod_item mode i))
    (\<lambda>e w'. quiet w w' \<and> device w e) w"
proof -
  obtain n where n: "at (w_tree w) fd = Some n" and i: "i = item_of n"
    using assms by (auto simp: disk_def view_def)
  define g where "g = (\<lambda>w. alter_tree fd (with_attributes (\<lambda>a. a\<lparr>at_mode := mode, at_changed := now w\<rparr>)) w)"
  have "disk (g (counted w)) = (disk w)(fd \<mapsto> chmod_item mode i)"
    using n by (simp add: g_def disk_alter_tree view_alter_node [OF n] i) (simp add: disk_def)
  moreover have "steady w (g (counted w))"
    by (auto simp: steady_def g_def intro!: tree_ok_alter_tree)
  ultimately have "after (\<lambda>w. (Inr (), g w)) (\<lambda>_ w'. steady w w' \<and> disk w' = (disk w)(fd \<mapsto> chmod_item mode i))
    (\<lambda>e w'. w' = counted w \<and> False) (counted w)"
    by (simp add: after_change_body)
  from after_kernel_change [OF this] show ?thesis
    unfolding set_permissions_def g_def by (rule after_mono) auto
qed

lemma node_file_len: "tree_ok w \<Longrightarrow> at (w_tree w) fd = Some (FileNode a bs) \<Longrightarrow> length bs \<le> MAX_FILE_LEN"
  by (drule (1) node_ok_dir_at) simp

lemma write_all_spec:
  assumes "disk w fd = Some (ItemFile m old)"
  shows "after (write_all fd bytes) (\<lambda>_ w'. steady w w' \<and> disk w' = (disk w)(fd \<mapsto> ItemFile m (old @ bytes)))
    (\<lambda>e w'. steady w w' \<and> (device w e \<or> length old + length bytes > MAX_FILE_LEN)
       \<and> (\<exists>part. disk w' = (disk w)(fd \<mapsto> ItemFile m part))) w"
proof -
  obtain a where n: "at (w_tree w) fd = Some (FileNode a old)" and m: "m = at_mode a"
    using assms by (auto simp: disk_def view_def elim!: item_of.elims)
  define store where "store = (\<lambda>bs n. case n of
      FileNode a old \<Rightarrow> FileNode (a\<lparr>at_modified := now w, at_changed := now w\<rparr>) (old @ bs) | _ \<Rightarrow> n)"
  have d: "disk (alter_tree fd (store bs) (counted w)) = (disk w)(fd \<mapsto> ItemFile m (old @ bs))" for bs
    using view_alter_node [OF n, of "store bs"] m by (simp add: disk_def store_def)
  have st: "steady w (alter_tree fd (store bs) (counted w))"
    if "length old + length bs \<le> MAX_FILE_LEN \<or> \<not> tree_ok w" for bs
    using that n by (auto simp: steady_def store_def intro!: tree_ok_alter_tree)
  show ?thesis
  proof (cases "w_faults w (w_calls w)")
    case None
    then have "write_all fd bytes w = (if length old + length bytes > MAX_FILE_LEN then (Inl (OtherError 27), counted w)
        else (Inr (), alter_tree fd (store bytes) (counted w)))"
      using n by (simp add: write_all_def file_length_def store_def)
    moreover have "steady w (counted w) \<and> disk (counted w) = (disk w)(fd \<mapsto> ItemFile m old)"
      using assms by (simp add: quiet_steady fun_upd_idem)
    ultimately show ?thesis using d [of bytes] st [of bytes] by (auto simp: after_def)
  next
    case (Some x)
    obtain code written where x: "x = (code, written)" by (cases x)
    define part where "part = take (min written (MAX_FILE_LEN - length old)) bytes"
    have run: "write_all fd bytes w = (Inl (OtherError code), alter_tree fd (store part) (counted w))"
      using n Some x by (simp add: write_all_def file_length_def store_def part_def)
    have "length old + length part \<le> MAX_FILE_LEN \<or> \<not> tree_ok w"
      using node_file_len [OF _ n] by (auto simp: part_def)
    then show ?thesis using run d [of part] st [of part] Some
      by (auto simp: after_def device_def faulty_not_calm)
  qed
qed

lemma quiet_result_spec: "after (kernel (\<lambda>w. (Inr x, w))) (\<lambda>y w'. quiet w w' \<and> y = x) (\<lambda>e w'. quiet w w' \<and> device w e) w"
  using after_read [of "\<lambda>_. Inr x" w] by (auto elim!: after_mono)

lemma sync_all_spec: "after (sync_all fd) (\<lambda>_ w'. quiet w w') (\<lambda>e w'. quiet w w' \<and> device w e) w"
  unfolding sync_all_def by (rule after_mono [OF quiet_result_spec]) auto

lemma try_clone_spec: "after (try_clone fd) (\<lambda>fd' w'. quiet w w' \<and> fd' = fd) (\<lambda>e w'. quiet w w' \<and> device w e) w"
  unfolding try_clone_def by (rule quiet_result_spec)

lemma next_name_spec:
  "after (next_name names) (\<lambda>x w'. quiet w w' \<and> x = (case names of [] \<Rightarrow> None | n # _ \<Rightarrow> Some n))
     (\<lambda>e w'. quiet w w' \<and> device w e) w"
  unfolding next_name_def by (rule quiet_result_spec)

subsection \<open>Removing and renaming an entry\<close>

definition forget :: "string list \<Rightarrow> (string list \<Rightarrow> item option) \<Rightarrow> string list \<Rightarrow> item option" where
  "forget p d = (\<lambda>q. if prefix p q then None else d q)"

definition move :: "descriptor \<Rightarrow> string \<Rightarrow> string \<Rightarrow> (string list \<Rightarrow> item option) \<Rightarrow> string list \<Rightarrow> item option" where
  "move p old new d = (\<lambda>q. if prefix (p @ [new]) q then d (p @ old # drop (Suc (length p)) q)
     else if prefix (p @ [old]) q then None else d q)"

lemma map_of_without [simp]: "map_of (without c cs) d = (if d = c then None else map_of cs d)"
  by (induction cs) (auto simp: without_def)

lemma node_ok_without: "node_ok (DirNode a cs) \<Longrightarrow> node_ok (DirNode b (without c cs))"
proof -
  have s: "set (without c cs) \<subseteq> set cs" by (auto simp: without_def)
  have d: "distinct (map fst cs) \<Longrightarrow> distinct (map fst (without c cs))"
    by (simp add: without_def distinct_map_filter)
  show "node_ok (DirNode a cs) \<Longrightarrow> node_ok (DirNode b (without c cs))"
    using s d by (simp add: list_all_iff) blast
qed

lemma node_ok_add:
  "node_ok (DirNode a cs) \<Longrightarrow> name_ok c \<Longrightarrow> node_ok k \<Longrightarrow> map_of cs c = None
    \<Longrightarrow> node_ok (DirNode b (cs @ [(c, k)]))"
  by (simp add: map_of_eq_None_iff)

lemma children_view: "at t p = Some n \<Longrightarrow> children n \<noteq> [] \<longleftrightarrow> (\<exists>d. view t (p @ [d]) \<noteq> None)"
proof -
  assume n: "at t p = Some n"
  have "children n \<noteq> [] \<longleftrightarrow> (\<exists>d. map_of (children n) d \<noteq> None)"
    by (cases "children n") auto
  then show ?thesis using n by (simp add: view_def at_child)
qed

lemma prefix_child: "prefix (p @ [c]) q \<longleftrightarrow> (\<exists>r. q = p @ c # r)"
  by (auto simp: prefix_def)

definition unlink_refused :: "world \<Rightarrow> descriptor \<Rightarrow> string \<Rightarrow> bool \<Rightarrow> io_error \<Rightarrow> bool" where
  "unlink_refused w p c removedir e \<longleftrightarrow> device w e \<or> entry_refused w p WX e
     \<or> e = ENOENT \<and> disk w (p @ [c]) = None
     \<or> e = ENOTDIR \<and> removedir \<and> (\<forall>m. disk w (p @ [c]) \<noteq> Some (ItemDir m))
     \<or> e = ENOTEMPTY \<and> removedir \<and> (\<exists>d. disk w (p @ [c, d]) \<noteq> None)
     \<or> e = EISDIR \<and> \<not> removedir \<and> (\<exists>m. disk w (p @ [c]) = Some (ItemDir m))"

lemma directory_entry_Inl_cases:
  "directory_entry bits p c w = Inl e \<Longrightarrow> entry_refused w p bits e \<or> e = ENOENT \<and> disk w (p @ [c]) = None"
  by (drule directory_entry_Inl) (auto simp: entry_refused_def)

lemma not_dir_leaf: "\<not> is_dir n \<Longrightarrow> children n = []"
  by (cases n) auto

lemma on_children_view:
  assumes d: "at t p = Some (DirNode a cs)" and same: "\<And>x. x \<notin> X \<Longrightarrow> map_of (f cs) x = map_of cs x"
  shows "view (alter p (on_children n f) t) q =
    (if \<exists>x r. x \<in> X \<and> q = p @ x # r
     then (case map_of (f cs) (q ! length p) of None \<Rightarrow> None | Some k \<Rightarrow> view k (drop (Suc (length p)) q))
     else view t q)"
proof (cases "prefix p q")
  case True
  then obtain r where r: "q = p @ r" by (auto simp: prefix_def)
  have "view (alter p (on_children n f) t) q = view (on_children n f (DirNode a cs)) r"
    unfolding r by (rule view_alter_below [OF d])
  moreover have "view t q = view (DirNode a cs) r" unfolding r by (rule view_append [OF d])
  ultimately show ?thesis using same
    by (cases r) (auto simp: on_children_def view_dir_children r split: option.splits)
next
  case False
  then show ?thesis using view_alter_other [OF False, of "on_children n f" t] by auto
qed

lemma unlink_at_spec:
  "after (unlink_at p c removedir)
    (\<lambda>_ w'. steady w w' \<and> disk w (p @ [c]) \<noteq> None \<and> ((\<exists>m. disk w (p @ [c]) = Some (ItemDir m)) = removedir)
       \<and> (\<forall>d. disk w (p @ [c, d]) = None) \<and> disk w' = forget (p @ [c]) (disk w))
    (\<lambda>e w'. quiet w w' \<and> unlink_refused w p c removedir e) w"
proof -
  define g where "g = (\<lambda>w. alter_tree p (on_children (now w) (without c)) w)"
  let ?body = "\<lambda>w. case directory_entry WX p c w of
       Inl e \<Rightarrow> (Inl e, w)
     | Inr n \<Rightarrow>
         if removedir \<and> \<not> is_dir n then (Inl ENOTDIR, w)
         else if removedir \<and> children n \<noteq> [] then (Inl ENOTEMPTY, w)
         else if \<not> removedir \<and> is_dir n then (Inl EISDIR, w)
         else (Inr (), g w)"
  have "after ?body (\<lambda>_ w'. steady w w' \<and> disk w (p @ [c]) \<noteq> None
       \<and> ((\<exists>m. disk w (p @ [c]) = Some (ItemDir m)) = removedir)
       \<and> (\<forall>d. disk w (p @ [c, d]) = None) \<and> disk w' = forget (p @ [c]) (disk w))
     (\<lambda>e w'. w' = counted w \<and> unlink_refused w p c removedir e) (counted w)"
  proof (cases "directory_entry WX p c w")
    case (Inl e)
    then show ?thesis using directory_entry_Inl_cases [OF Inl]
      by (auto simp: after_def unlink_refused_def)
  next
    case (Inr n)
    then obtain a cs where d: "at (w_tree w) p = Some (DirNode a cs)" and n: "map_of cs c = Some n"
      by (auto simp: directory_entry_Inr)
    have at: "at (w_tree w) (p @ [c]) = Some n" using Inr by (rule directory_entry_node)
    have item: "disk w (p @ [c]) = Some (item_of n)" using at by (simp add: disk_def view_def)
    have kids: "children n \<noteq> [] \<longleftrightarrow> (\<exists>d. disk w (p @ [c, d]) \<noteq> None)"
      using children_view [OF at] by (simp add: disk_def)
    have "disk (g (counted w)) q = forget (p @ [c]) (disk w) q" for q
    proof -
      have "view (alter p (on_children (now (counted w)) (without c)) (w_tree w)) q =
          (if \<exists>x r. x \<in> {c} \<and> q = p @ x # r
           then (case map_of (without c cs) (q ! length p) of None \<Rightarrow> None | Some k \<Rightarrow> view k (drop (Suc (length p)) q))
           else view (w_tree w) q)"
        by (rule on_children_view [OF d]) simp
      then show ?thesis
        by (auto simp: g_def disk_alter_tree forget_def prefix_child) (simp_all add: disk_def)
    qed
    moreover have "steady w (g (counted w))"
      by (auto simp: steady_def g_def on_children_def simp del: node_ok.simps
          intro!: tree_ok_alter_tree node_ok_without split: node.splits)
    ultimately show ?thesis using Inr item kids not_dir_leaf [of n]
      by (auto simp: after_def unlink_refused_def is_dir_view fun_eq_iff)
  qed
  from after_kernel_change [OF this] show ?thesis
    unfolding unlink_at_def g_def by (rule after_mono) (auto simp: unlink_refused_def)
qed

definition rename_refused :: "world \<Rightarrow> descriptor \<Rightarrow> string \<Rightarrow> string \<Rightarrow> io_error \<Rightarrow> bool" where
  "rename_refused w p old new e \<longleftrightarrow> device w e \<or> entry_refused w p WX e
     \<or> e = ENOENT \<and> disk w (p @ [old]) = None
     \<or> e = EINVAL \<and> \<not> name_ok new
     \<or> e \<in> {ENOTDIR, ENOTEMPTY, EISDIR} \<and> disk w (p @ [new]) \<noteq> None"

lemma rename_at_spec:
  assumes "old \<noteq> new"
  shows "after (rename_at p old new)
    (\<lambda>_ w'. steady w w' \<and> disk w (p @ [old]) \<noteq> None
       \<and> (\<forall>i. disk w (p @ [new]) = Some i \<longrightarrow>
            ((\<exists>m. i = ItemDir m) \<longleftrightarrow> (\<exists>m. disk w (p @ [old]) = Some (ItemDir m)))
            \<and> (\<forall>d. disk w (p @ [new, d]) = None))
       \<and> disk w' = move p old new (disk w))
    (\<lambda>e w'. quiet w w' \<and> rename_refused w p old new e) w"
proof -
  define g where "g = (\<lambda>moved w. alter_tree p (on_children (now w) (\<lambda>cs. without new (without old cs) @ [(new, moved)])) w)"
  let ?body = "\<lambda>w. case directory_entry WX p old w of
       Inl e \<Rightarrow> (Inl e, w)
     | Inr moved \<Rightarrow>
         if old = new then (Inr (), w)
         else if \<not> name_ok new then (Inl EINVAL, w)
         else (case (case directory_entry WX p new w of Inl _ \<Rightarrow> Inr () | Inr existing \<Rightarrow> replaceable moved existing) of
              Inl e \<Rightarrow> (Inl e, w) | Inr _ \<Rightarrow> (Inr (), g moved w))"
  have "after ?body (\<lambda>_ w'. steady w w' \<and> disk w (p @ [old]) \<noteq> None
       \<and> (\<forall>i. disk w (p @ [new]) = Some i \<longrightarrow>
            ((\<exists>m. i = ItemDir m) \<longleftrightarrow> (\<exists>m. disk w (p @ [old]) = Some (ItemDir m)))
            \<and> (\<forall>d. disk w (p @ [new, d]) = None))
       \<and> disk w' = move p old new (disk w))
     (\<lambda>e w'. w' = counted w \<and> rename_refused w p old new e) (counted w)"
  proof (cases "directory_entry WX p old w")
    case (Inl e)
    then show ?thesis using directory_entry_Inl_cases [OF Inl] by (auto simp: after_def rename_refused_def)
  next
    case (Inr n)
    then obtain a cs where d: "at (w_tree w) p = Some (DirNode a cs)" and n: "map_of cs old = Some n"
        and allow: "allows w (at_mode a) WX"
      by (auto simp: directory_entry_Inr)
    have at: "at (w_tree w) (p @ [old]) = Some n" using Inr by (rule directory_entry_node)
    have item: "disk w (p @ [old]) = Some (item_of n)" using at by (simp add: disk_def view_def)
    have moved: "disk (g n (counted w)) = move p old new (disk w)"
    proof
      fix q
      let ?f = "\<lambda>cs. without new (without old cs) @ [(new, n)]"
      have f: "map_of (?f cs) x = (if x = new then Some n else if x = old then None else map_of cs x)" for x
        by (simp add: map_add_def split: option.splits)
      have "view (alter p (on_children (now (counted w)) ?f) (w_tree w)) q =
          (if \<exists>x r. x \<in> {old, new} \<and> q = p @ x # r
           then (case map_of (?f cs) (q ! length p) of None \<Rightarrow> None | Some k \<Rightarrow> view k (drop (Suc (length p)) q))
           else view (w_tree w) q)"
        by (rule on_children_view [OF d]) (subst f, simp)
      note this [unfolded f]
      moreover have "view n r = view (w_tree w) (p @ old # r)" for r
        using view_append [OF at, of r] by simp
      ultimately show "disk (g n (counted w)) q = move p old new (disk w) q"
        using assms by (auto simp: g_def disk_alter_tree move_def prefix_child disk_def)
    qed
    have st: "steady w (g n (counted w))" if "name_ok new"
    proof -
      have "node_ok n" if "tree_ok w" using that at by (rule node_ok_dir_at)
      then show ?thesis using that
        by (auto simp: steady_def g_def on_children_def simp del: node_ok.simps
            intro!: tree_ok_alter_tree node_ok_without node_ok_add split: node.splits)
    qed
    show ?thesis
    proof (cases "directory_entry WX p new w")
      case (Inl e)
      have "disk w (p @ [new]) = None"
        using Inl d allow by (auto simp: directory_entry_def grants_allows disk_def view_def at_child ok_or_Inl_iff split: if_splits)
      then show ?thesis using \<open>directory_entry WX p old w = Inr n\<close> Inl moved st item assms
        by (auto simp: after_def rename_refused_def)
    next
      case (Inr k)
      have atk: "at (w_tree w) (p @ [new]) = Some k" using Inr by (rule directory_entry_node)
      have itemk: "disk w (p @ [new]) = Some (item_of k)" using atk by (simp add: disk_def view_def)
      have kids: "children k \<noteq> [] \<longleftrightarrow> (\<exists>d. disk w (p @ [new, d]) \<noteq> None)"
        using children_view [OF atk] by (simp add: disk_def)
      show ?thesis
      proof (cases "replaceable n k")
        case (Inl e)
        then have "e \<in> {ENOTDIR, ENOTEMPTY, EISDIR}" by (auto simp: replaceable_def split: if_splits)
        then show ?thesis using \<open>directory_entry WX p old w = Inr n\<close> Inr Inl itemk assms
          by (auto simp: after_def rename_refused_def)
      next
        case (Inr u)
        then have "is_dir k = is_dir n" "children k = []"
          using not_dir_leaf [of k] by (auto simp: replaceable_def split: if_splits)
        then show ?thesis
          using \<open>directory_entry WX p old w = Inr n\<close> \<open>directory_entry WX p new w = Inr k\<close> Inr itemk item kids moved st assms
          by (auto simp: after_def rename_refused_def is_dir_view)
      qed
    qed
  qed
  from after_kernel_change [OF this] show ?thesis
    unfolding rename_at_def g_def by (rule after_mono) (auto simp: rename_refused_def)
qed

subsection \<open>Observing a tree that does not change\<close>

text \<open>
  A sequence of reading calls from a world \<open>w\<close> sees the tree of \<open>w\<close> throughout.  The rules of
  \<open>observe\<close> give the value of each call, and the reasons it can fail for.
\<close>

lemma after_read_from:
  assumes q: "quiet w v" and r: "\<And>u. quiet w u \<Longrightarrow> r u = r w"
    and ok: "\<And>x u. quiet w u \<Longrightarrow> r w = Inr x \<Longrightarrow> Q x u"
    and err: "\<And>e u. quiet w u \<Longrightarrow> r w = Inl e \<or> device w e \<Longrightarrow> E e u"
  shows "after (kernel (\<lambda>w. (r w, w))) Q E v"
proof -
  have "r (counted v) = r v" using r [OF q] r [OF quiet_trans [OF q quiet_counted]] by simp
  then show ?thesis
  proof (rule after_mono [OF after_read], goal_cases)
    case (1 x u)
    then show ?case using ok [of u x] quiet_trans [OF q, of u] r [OF q] by simp
  next
    case (2 e u)
    then show ?case using err [of u e] quiet_trans [OF q, of u] r [OF q] quiet_calm [OF q] by (auto simp: device_def)
  qed
qed

lemma quiet_directory_entry: "quiet w u \<Longrightarrow> directory_entry bits p c u = directory_entry bits p c w"
  by (simp add: directory_entry_def grants_allows quiet_allows [of w u] quiet_fields [of w u] split: option.splits)

lemma quiet_grants: "quiet w u \<Longrightarrow> grants bits n u = grants bits n w"
  by (simp add: grants_allows quiet_allows [of w u])

lemma observe_metadata:
  assumes "quiet w v" and "at (w_tree w) fd = Some n"
    and "\<And>u. quiet w u \<Longrightarrow> Q (stat_of n) u" and "\<And>e u. quiet w u \<Longrightarrow> device w e \<Longrightarrow> E e u"
  shows "after (metadata fd) Q E v"
  unfolding metadata_def
  by (rule after_read_from [OF assms(1)]) (use assms in \<open>auto simp: quiet_fields\<close>)

lemma observe_fstatat:
  assumes "quiet w v" and "directory_entry S_IXUSR p c w = Inr n"
    and "\<And>u. quiet w u \<Longrightarrow> Q (stat_of n) u" and "\<And>e u. quiet w u \<Longrightarrow> device w e \<Longrightarrow> E e u"
  shows "after (fstatat_entry p c) Q E v"
  unfolding fstatat_entry_def
  by (rule after_read_from [OF assms(1)]) (use assms quiet_directory_entry in auto)

lemma observe_open_directory:
  assumes "quiet w v" and "c \<noteq> ''.''" "c \<noteq> ''..''" and "directory_entry S_IXUSR p c w = Inr (DirNode a cs)"
    and "\<And>u. quiet w u \<Longrightarrow> Q (p @ [c]) u"
    and "\<And>e u. quiet w u \<Longrightarrow> device w e \<or> e = EACCES \<and> \<not> allows w (at_mode a) S_IRUSR \<Longrightarrow> E e u"
  shows "after (open_directory_at p c) Q E v"
  unfolding open_directory_at_def
proof (rule after_read_from [OF assms(1)], goal_cases)
  case (1 u)
  then show ?case using assms(2,3) quiet_directory_entry [OF 1] quiet_grants [OF 1] by (simp cong: node.case_cong)
next
  case (2 x u)
  then show ?case using assms by (auto simp: resolve_def split: if_splits)
next
  case (3 e u)
  then show ?case using assms by (auto simp: grants_allows split: if_splits)
qed

lemma observe_open_self:
  assumes "quiet w v" and "at (w_tree w) p = Some (DirNode a cs)"
    and "\<And>u. quiet w u \<Longrightarrow> Q p u"
    and "\<And>e u. quiet w u \<Longrightarrow> device w e \<or> e = EACCES \<and> \<not> allows w (at_mode a) S_IRUSR \<Longrightarrow> E e u"
  shows "after (open_directory_at p ''.'') Q E v"
  unfolding open_directory_at_def
proof (rule after_read_from [OF assms(1)], goal_cases)
  case (1 u)
  then show ?case using quiet_grants [OF 1] by (simp add: quiet_fields [OF 1] cong: node.case_cong)
next
  case (2 x u)
  then show ?case using assms by (auto simp: resolve_def split: if_splits)
next
  case (3 e u)
  then show ?case using assms by (auto simp: resolve_def grants_allows split: if_splits)
qed

lemma observe_open_file:
  assumes "quiet w v" and "directory_entry S_IXUSR p c w = Inr (FileNode a bs)"
    and "\<And>u. quiet w u \<Longrightarrow> Q (p @ [c]) u"
    and "\<And>e u. quiet w u \<Longrightarrow> device w e \<or> e = EACCES \<and> \<not> allows w (at_mode a) S_IRUSR \<Longrightarrow> E e u"
  shows "after (open_file_at p c) Q E v"
  unfolding open_file_at_def
proof (rule after_read_from [OF assms(1)], goal_cases)
  case (1 u)
  then show ?case using quiet_directory_entry [OF 1] quiet_grants [OF 1] by (simp cong: node.case_cong)
next
  case (2 x u)
  then show ?case using assms by (auto split: if_splits)
next
  case (3 e u)
  then show ?case using assms by (auto simp: grants_allows split: if_splits)
qed

lemma observe_open_stream:
  assumes "quiet w v" and "at (w_tree w) fd = Some (DirNode a cs)"
    and "\<And>u. quiet w u \<Longrightarrow> Q (''.'' # ''..'' # map fst cs) u" and "\<And>e u. quiet w u \<Longrightarrow> device w e \<Longrightarrow> E e u"
  shows "after (open_stream fd) Q E v"
  unfolding open_stream_def
  by (rule after_read_from [OF assms(1)]) (use assms in \<open>auto simp: quiet_fields\<close>)

lemma observe_next_name:
  assumes "quiet w v" and "\<And>x u. quiet w u \<Longrightarrow> Q x u" and "\<And>e u. quiet w u \<Longrightarrow> device w e \<Longrightarrow> E e u"
  shows "after (next_name names) Q E v"
  unfolding next_name_def
  by (rule after_read_from [OF assms(1)]) (use assms in auto)

lemma observe_try_clone:
  assumes "quiet w v" and "\<And>u. quiet w u \<Longrightarrow> Q fd u" and "\<And>e u. quiet w u \<Longrightarrow> device w e \<Longrightarrow> E e u"
  shows "after (try_clone fd) Q E v"
  unfolding try_clone_def
  by (rule after_read_from [OF assms(1)]) (use assms in auto)

lemma observe_read_bytes:
  assumes "quiet w v" and "at (w_tree w) fd = Some (FileNode a bs)"
    and "\<And>u. quiet w u \<Longrightarrow> Q (take k (drop offset bs)) u" and "\<And>e u. quiet w u \<Longrightarrow> device w e \<Longrightarrow> E e u"
  shows "after (read_bytes fd offset k) Q E v"
  unfolding read_bytes_def
  by (rule after_read_from [OF assms(1)]) (use assms in \<open>auto simp: quiet_fields\<close>)

lemma observe_read_link:
  assumes "quiet w v" and "directory_entry S_IXUSR p c w = Inr (LinkNode a t)"
    and "\<And>u. quiet w u \<Longrightarrow> Q (take k t) u" and "\<And>e u. quiet w u \<Longrightarrow> device w e \<Longrightarrow> E e u"
  shows "after (read_link p c k) Q E v"
  unfolding read_link_def
  by (rule after_read_from [OF assms(1)]) (use assms quiet_directory_entry in auto)

lemma observe_reserve:
  assumes "quiet w v" and "\<And>u. quiet w u \<Longrightarrow> Q () u" and "\<And>u. quiet w u \<Longrightarrow> \<not> calm w \<Longrightarrow> E () u"
  shows "after (reserve k) Q E v"
  unfolding reserve_def after_with_err
  by (rule after_read_from [OF assms(1)]) (use assms in \<open>auto simp: device_def\<close>)

end
