(* ===== verification/File_System.thy ===== *)
theory File_System
  imports File_Calls
begin

section \<open>Descriptor-relative operations\<close>

text \<open>
  The safe wrappers of \<open>rewind-platform/src/filesystem.rs\<close> over the kernel calls of
  \<open>File_Tree\<close>: operations beneath a pinned directory root (creation, renaming, removal, the
  state of a child) and the reading half (pinned directories, classified entries, bounded
  reads).  A \<open>PathBuf\<close> kept for display is the list of its components; \<open>io_err\<close> is the
  \<open>map_err\<close> to \<open>FileSystemError::Io\<close>.
\<close>

datatype fs_error =
    SourceNotDirectory "string list"
  | DestinationExists "string list"
  | RecursiveDestination "string list"
  | LinkedGitWorktree "string list"
  | InteriorNul string
  | InvalidRelativePath string
  | NotRegularFile "string list"
  | FileTooLarge "string list" u64 u64
  | AllocationFailed "string list" u64
  | SymlinkTargetTooLarge "string list" nat
  | ChangedDuringRead "string list"
  | RemovalDepthExceeded "string list"
  | DirectoryEntryLimit "string list" nat
  | FsIo string "string list" io_error

type_synonym 'a fs = "(world, fs_error, 'a) effect"

definition io_err :: "string \<Rightarrow> string list \<Rightarrow> (world, io_error, 'a) effect \<Rightarrow> 'a fs" where
  "io_err operation path m = with_err (FsIo operation path) m"

definition changed_or_io :: "string \<Rightarrow> string list \<Rightarrow> io_error \<Rightarrow> fs_error" where
  \<comment> \<open>\<open>ESTALE\<close> does not occur in the modelled file system\<close>
  "changed_or_io operation path e =
     (if e \<in> {ENOENT, ENOTDIR, ELOOP, EINVAL} then ChangedDuringRead path else FsIo operation path e)"

definition path_is_not_directory :: "io_error \<Rightarrow> bool" where
  "path_is_not_directory e \<longleftrightarrow> e \<in> {ENOTDIR, ELOOP}"

definition path_is_absent_or_not_directory :: "io_error \<Rightarrow> bool" where
  "path_is_absent_or_not_directory e \<longleftrightarrow> e = ENOENT \<or> path_is_not_directory e"

subsection \<open>Names\<close>

definition relative_component :: "string \<Rightarrow> string \<Rightarrow> (fs_error, string) result" where
  "relative_component relative c =
     (if c = [] \<or> c = ''.'' \<or> c = ''..'' then Inl (InvalidRelativePath relative)
      else if nul \<in> set c then Inl (InteriorNul relative) else Inr c)"

definition relative_components :: "string \<Rightarrow> (fs_error, string list) result" where
  "relative_components relative =
     (if relative = [] \<or> starts_with ''/'' relative then Inl (InvalidRelativePath relative)
      else map_result (relative_component relative) (split_on CHR ''/'' relative))"

definition single_component :: "string \<Rightarrow> (fs_error, string) result" where
  "single_component name =
     (if name = [] \<or> name = ''.'' \<or> name = ''..'' \<or> CHR ''/'' \<in> set name then Inl (InvalidRelativePath name)
      else if nul \<in> set name then Inl (InteriorNul name) else Inr name)"

subsection \<open>Comparing metadata\<close>

definition same_stat :: "stat \<Rightarrow> stat \<Rightarrow> bool" where
  \<comment> \<open>\<open>stat_matches_metadata\<close>, \<open>stat_snapshots_match\<close> and \<open>same_entry\<close> compare the same fields;
     the mode of the kernel includes the kind\<close>
  "same_stat s t \<longleftrightarrow> st_ino s = st_ino t \<and> st_kind s = st_kind t \<and> st_mode s = st_mode t
     \<and> st_size s = st_size t \<and> st_modified s = st_modified t \<and> st_changed s = st_changed t"

definition verify_stat :: "stat \<Rightarrow> stat \<Rightarrow> string list \<Rightarrow> unit fs" where
  "verify_stat expected actual path =
     (if same_stat expected actual then give () else stop (ChangedDuringRead path))"

subsection \<open>Operations beneath a pinned root\<close>

record directory_root =
  dr_directory :: descriptor
  dr_path :: "string list"

definition directory_root_open :: "string list \<Rightarrow> directory_root fs" where
  "directory_root_open path =
     and_do (io_err ''open workspace root without following symlinks'' path (open_directory_path path)) (\<lambda>fd.
     give \<lparr>dr_directory = fd, dr_path = path\<rparr>)"

fun open_components :: "(io_error \<Rightarrow> fs_error) \<Rightarrow> descriptor \<Rightarrow> string list \<Rightarrow> descriptor fs" where
  "open_components err directory [] = give directory"
| "open_components err directory (c # cs) =
     and_do (with_err err (open_directory_at directory c)) (\<lambda>next. open_components err next cs)"

definition open_parent_beneath :: "directory_root \<Rightarrow> string \<Rightarrow> (descriptor \<times> string \<times> string list) fs" where
  "open_parent_beneath root relative =
     and_do (lift (relative_components relative)) (\<lambda>components.
     let display = dr_path root @ components in
     and_do (io_err ''duplicate materialization root'' (dr_path root) (try_clone (dr_directory root))) (\<lambda>fd.
     and_do (open_components (changed_or_io ''open materialization ancestor'' display) fd (butlast components))
       (\<lambda>directory. give (directory, last components, display))))"

definition create_directory_beneath :: "directory_root \<Rightarrow> string \<Rightarrow> unit fs" where
  "create_directory_beneath root relative =
     and_do (open_parent_beneath root relative) (\<lambda>(directory, name, display).
       io_err ''create directory beneath root'' display (mkdir_at directory name 0x1C0))"

definition create_file_beneath :: "directory_root \<Rightarrow> string \<Rightarrow> u8 list \<Rightarrow> u32 \<Rightarrow> unit fs" where
  "create_file_beneath root relative bytes mode =
     and_do (open_parent_beneath root relative) (\<lambda>(directory, name, display).
     and_do (io_err ''create file beneath root'' display (create_file_at directory name 0x180)) (\<lambda>file.
     and_do (io_err ''write file beneath root'' display (write_all file bytes)) (\<lambda>_.
     and_do (io_err ''flush file beneath root'' display (sync_all file)) (\<lambda>_.
       io_err ''set file mode beneath root'' display (set_permissions file mode)))))"

definition create_symlink_beneath :: "directory_root \<Rightarrow> string \<Rightarrow> string \<Rightarrow> unit fs" where
  "create_symlink_beneath root relative target =
     and_do (open_parent_beneath root relative) (\<lambda>(directory, name, display).
       if nul \<in> set target then stop (InteriorNul target)
       else io_err ''create symbolic link beneath root'' display (symlink_at target directory name))"

definition finish_directory_beneath :: "directory_root \<Rightarrow> string \<Rightarrow> u32 \<Rightarrow> unit fs" where
  "finish_directory_beneath root relative mode =
     and_do (lift (relative_components relative)) (\<lambda>components.
     let display = dr_path root @ components in
     and_do (io_err ''duplicate materialization root'' (dr_path root) (try_clone (dr_directory root))) (\<lambda>fd.
     and_do (open_components (changed_or_io ''open materialized directory'' display) fd components) (\<lambda>directory.
     and_do (io_err ''set materialized directory mode'' display (set_permissions directory mode)) (\<lambda>_.
       io_err ''flush materialized directory'' display (sync_all directory)))))"

definition rename_child :: "directory_root \<Rightarrow> string \<Rightarrow> string \<Rightarrow> unit fs" where
  "rename_child root old new =
     and_do (lift (single_component old)) (\<lambda>from'.
     and_do (lift (single_component new)) (\<lambda>to.
       io_err ''rename directory child'' (dr_path root @ [to]) (rename_at (dr_directory root) from' to)))"

definition sync_root :: "directory_root \<Rightarrow> unit fs" where
  "sync_root root = io_err ''flush directory'' (dr_path root) (sync_all (dr_directory root))"

definition create_child_directory :: "directory_root \<Rightarrow> string \<Rightarrow> directory_root fs" where
  "create_child_directory root name' =
     and_do (lift (single_component name')) (\<lambda>name.
     let display = dr_path root @ [name] in
     and_do (io_err ''create directory child'' display (mkdir_at (dr_directory root) name 0x1C0)) (\<lambda>_.
     and_do (outcome (open_directory_at (dr_directory root) name)) (\<lambda>opened.
       case opened of
         Inr directory \<Rightarrow> give \<lparr>dr_directory = directory, dr_path = display\<rparr>
       | Inl e \<Rightarrow>
           and_do (outcome (unlink_at (dr_directory root) name True)) (\<lambda>_.
             stop (FsIo ''pin created directory child'' display e)))))"

datatype directory_child_state = Absent | EmptyDirectory | Occupied

fun any_child :: "string list \<Rightarrow> string list \<Rightarrow> bool fs" where
  "any_child display [] =
     and_do (io_err ''read directory child entry'' display (next_name [])) (\<lambda>_. give False)"
| "any_child display (c # names) =
     and_do (io_err ''read directory child entry'' display (next_name (c # names))) (\<lambda>_.
       if c = ''.'' \<or> c = ''..'' then any_child display names else give True)"

definition verify_named_entry :: "descriptor \<Rightarrow> string \<Rightarrow> stat \<Rightarrow> string list \<Rightarrow> unit fs" where
  "verify_named_entry parent name expected path =
     and_do (with_err (\<lambda>_. ChangedDuringRead path) (fstatat_entry parent name)) (\<lambda>current.
       verify_stat current expected path)"

definition child_state :: "directory_root \<Rightarrow> string \<Rightarrow> directory_child_state fs" where
  "child_state root name' =
     and_do (lift (single_component name')) (\<lambda>name.
     let display = dr_path root @ [name]; fd = dr_directory root in
     and_do (outcome (fstatat_entry fd name)) (\<lambda>inspected.
       case inspected of
         Inl e \<Rightarrow> if e = ENOENT then give Absent else stop (FsIo ''inspect directory child'' display e)
       | Inr stat \<Rightarrow>
           if st_kind stat \<noteq> KindDirectory then give Occupied
           else
             and_do (with_err (changed_or_io ''open directory child'' display) (open_directory_at fd name)) (\<lambda>directory.
             and_do (io_err ''inspect open directory child'' display (metadata directory)) (\<lambda>current.
             and_do (verify_stat stat current display) (\<lambda>_.
             and_do (io_err ''enumerate directory child'' display (open_stream directory)) (\<lambda>names.
             and_do (any_child display names) (\<lambda>found.
               if found then give Occupied
               else and_do (verify_named_entry fd name current display) (\<lambda>_. give EmptyDirectory))))))))"

subsection \<open>Recursive removal\<close>

definition MAX_REMOVAL_DEPTH :: nat where "MAX_REMOVAL_DEPTH = 256"

definition verify_named_directory :: "descriptor \<Rightarrow> string \<Rightarrow> descriptor \<Rightarrow> string list \<Rightarrow> unit fs" where
  "verify_named_directory parent name pinned display =
     and_do (io_err ''inspect open removal directory'' display (metadata pinned)) (\<lambda>p.
     and_do (with_err (\<lambda>_. ChangedDuringRead display)
       (and_do (open_directory_at parent name) metadata)) (\<lambda>named.
       if st_ino p = st_ino named \<and> st_kind named = KindDirectory then give ()
       else stop (ChangedDuringRead display)))"

fun each_name :: "string list \<Rightarrow> string \<Rightarrow> (string \<Rightarrow> unit fs) \<Rightarrow> string list \<Rightarrow> unit fs" where
  \<comment> \<open>the loop over a directory stream, skipping the dot entries\<close>
  "each_name display operation body [] = and_do (io_err operation display (next_name [])) (\<lambda>_. give ())"
| "each_name display operation body (c # names) =
     and_do (io_err operation display (next_name (c # names))) (\<lambda>_.
       if c = ''.'' \<or> c = ''..'' then each_name display operation body names
       else and_do (body c) (\<lambda>_. each_name display operation body names))"

definition remove_directory_contents ::
    "(descriptor \<Rightarrow> string \<Rightarrow> string list \<Rightarrow> unit fs) \<Rightarrow> descriptor \<Rightarrow> string list \<Rightarrow> unit fs" where
  \<comment> \<open>the first argument removes an entry one level deeper\<close>
  "remove_directory_contents remove_entry directory display =
     and_do (io_err ''open directory stream'' display (open_stream directory)) (\<lambda>names.
       each_name display ''read directory entry''
         (\<lambda>name. remove_entry directory name (display @ [name])) names)"

definition remove_non_directory :: "descriptor \<Rightarrow> string \<Rightarrow> string list \<Rightarrow> io_error \<Rightarrow> unit fs" where
  \<comment> \<open>the arms of \<open>remove_entry_at\<close> for a target that could not be opened as a directory\<close>
  "remove_non_directory parent name display e =
     (if e = ENOENT then give ()
      else if path_is_not_directory e then
        rescue (unlink_at parent name False)
          (\<lambda>u. if u = ENOENT then give () else stop (FsIo ''remove file or symlink'' display u))
      else stop (FsIo ''open removal target without following symlinks'' display e))"

primrec remove_entry_at :: "nat \<Rightarrow> descriptor \<Rightarrow> string \<Rightarrow> string list \<Rightarrow> unit fs" where
  \<comment> \<open>the first argument is the number of levels left below \<open>MAX_REMOVAL_DEPTH\<close>\<close>
  "remove_entry_at 0 = (\<lambda>parent name display.
     and_do (outcome (open_directory_at parent name)) (\<lambda>opened. case opened of
         Inr directory \<Rightarrow> stop (RemovalDepthExceeded display)
       | Inl e \<Rightarrow> remove_non_directory parent name display e))"
| "remove_entry_at (Suc levels) = (\<lambda>parent name display.
     and_do (outcome (open_directory_at parent name)) (\<lambda>opened. case opened of
         Inr directory \<Rightarrow>
           and_do (remove_directory_contents (remove_entry_at levels) directory display) (\<lambda>_.
           and_do (verify_named_directory parent name directory display) (\<lambda>_.
             io_err ''remove directory'' display (unlink_at parent name True)))
       | Inl e \<Rightarrow> remove_non_directory parent name display e))"

definition remove_child :: "directory_root \<Rightarrow> string \<Rightarrow> unit fs" where
  "remove_child root name' =
     and_do (lift (single_component name')) (\<lambda>name.
       remove_entry_at MAX_REMOVAL_DEPTH (dr_directory root) name (dr_path root @ [name]))"

fun open_present :: "string list \<Rightarrow> descriptor \<Rightarrow> string list \<Rightarrow> descriptor option fs" where
  \<comment> \<open>the ancestors of a removal: \<open>None\<close> when one of them is missing or no directory\<close>
  "open_present display directory [] = give (Some directory)"
| "open_present display directory (c # cs) =
     and_do (outcome (open_directory_at directory c)) (\<lambda>opened. case opened of
         Inr next \<Rightarrow> open_present display next cs
       | Inl e \<Rightarrow>
           if path_is_absent_or_not_directory e then give None
           else stop (FsIo ''open ancestor directory without following symlinks'' display e))"

definition remove_relative_entry :: "directory_root \<Rightarrow> string \<Rightarrow> unit fs" where
  "remove_relative_entry root relative =
     and_do (lift (relative_components relative)) (\<lambda>components.
     let display = dr_path root @ components in
     and_do (io_err ''duplicate workspace root descriptor'' (dr_path root) (try_clone (dr_directory root))) (\<lambda>fd.
     and_do (open_present display fd (butlast components)) (\<lambda>directory. case directory of
         None \<Rightarrow> give ()
       | Some d \<Rightarrow> remove_entry_at MAX_REMOVAL_DEPTH d (last components) display)))"

end
