(* ===== verification/File_Reading.thy ===== *)
theory File_Reading
  imports File_System
begin

section \<open>Reading a tree through pinned descriptors\<close>

text \<open>
  The reading half of \<open>rewind-platform/src/filesystem.rs\<close>: directories pinned by a descriptor
  with the metadata seen when they were opened, classified entries, bounded file reads and link
  targets, each followed by the checks that nothing changed meanwhile.
\<close>

record directory_entry =
  de_name :: string
  de_stat :: stat

record pinned_directory =
  pd_directory :: descriptor
  pd_path :: "string list"
  pd_before :: stat

record read_file =
  rf_bytes :: "u8 list"
  rf_mode :: u32

definition pinned_directory_of :: "directory_root \<Rightarrow> pinned_directory fs" where
  "pinned_directory_of root =
     and_do (io_err ''duplicate workspace root descriptor'' (dr_path root) (try_clone (dr_directory root))) (\<lambda>fd.
     and_do (io_err ''inspect open workspace root'' (dr_path root) (metadata fd)) (\<lambda>before.
       give \<lparr>pd_directory = fd, pd_path = dr_path root, pd_before = before\<rparr>))"

definition verify_open_entry :: "string list \<Rightarrow> stat \<Rightarrow> descriptor \<Rightarrow> file_kind \<Rightarrow> unit fs" where
  "verify_open_entry path expected fd kind =
     and_do (io_err ''inspect open file'' path (metadata fd)) (\<lambda>actual.
       let actual_kind = (if st_kind actual = KindDirectory then KindDirectory
             else if st_kind actual = KindFile then KindFile else KindOther) in
       if actual_kind = kind \<and> same_stat expected actual then give ()
       else stop (ChangedDuringRead path))"

definition verify_unchanged :: "pinned_directory \<Rightarrow> unit fs" where
  "verify_unchanged d = verify_open_entry (pd_path d) (pd_before d) (pd_directory d) KindDirectory"

fun read_entries :: "pinned_directory \<Rightarrow> nat \<Rightarrow> string list \<Rightarrow> directory_entry list \<Rightarrow> directory_entry list fs" where
  \<comment> \<open>the loop of \<open>entries_bounded\<close> over the directory stream\<close>
  "read_entries d maximum [] entries =
     and_do (io_err ''read directory entry'' (pd_path d) (next_name [])) (\<lambda>_. give entries)"
| "read_entries d maximum (c # names) entries =
     and_do (io_err ''read directory entry'' (pd_path d) (next_name (c # names))) (\<lambda>_.
       if c = ''.'' \<or> c = ''..'' then read_entries d maximum names entries
       else if length entries = maximum then stop (DirectoryEntryLimit (pd_path d) maximum)
       else
         and_do (with_err (changed_or_io ''inspect directory entry'' (pd_path d @ [c]))
           (fstatat_entry (pd_directory d) c)) (\<lambda>stat.
         read_entries d maximum names (entries @ [\<lparr>de_name = c, de_stat = stat\<rparr>])))"

definition entries_bounded :: "pinned_directory \<Rightarrow> nat \<Rightarrow> directory_entry list fs" where
  "entries_bounded d maximum =
     and_do (verify_unchanged d) (\<lambda>_.
     and_do (io_err ''duplicate directory for enumeration'' (pd_path d)
       (open_directory_at (pd_directory d) ''.'')) (\<lambda>enumeration.
     and_do (io_err ''open directory stream'' (pd_path d) (open_stream enumeration)) (\<lambda>names.
     and_do (read_entries d maximum names []) (\<lambda>entries.
     and_do (verify_unchanged d) (\<lambda>_.
       give (sort_key de_name entries))))))"

definition USIZE_MAX :: nat where
  \<comment> \<open>the targets are 64-bit\<close>
  "USIZE_MAX = 2 ^ 64 - 1"

definition entries :: "pinned_directory \<Rightarrow> directory_entry list fs" where
  "entries d = entries_bounded d USIZE_MAX"

definition open_directory :: "pinned_directory \<Rightarrow> directory_entry \<Rightarrow> pinned_directory fs" where
  "open_directory d entry =
     (let path = pd_path d @ [de_name entry] in
      if st_kind (de_stat entry) \<noteq> KindDirectory then stop (ChangedDuringRead path)
      else
        and_do (with_err (changed_or_io ''open directory entry'' path)
          (open_directory_at (pd_directory d) (de_name entry))) (\<lambda>fd.
        and_do (io_err ''inspect open directory'' path (metadata fd)) (\<lambda>before.
        and_do (verify_stat (de_stat entry) before path) (\<lambda>_.
          give \<lparr>pd_directory = fd, pd_path = path, pd_before = before\<rparr>))))"

definition READ_CHUNK :: nat where "READ_CHUNK = 64 * 1024"

function read_chunks :: "descriptor \<Rightarrow> string list \<Rightarrow> nat \<Rightarrow> u8 list \<Rightarrow> u8 list fs" where
  \<comment> \<open>the loop of \<open>read_open_regular_file\<close>; the offset is what has been read\<close>
  "read_chunks fd display remaining bytes =
     (if remaining = 0 then give bytes
      else
        and_do (io_err ''read file'' display (read_bytes fd (length bytes) (min remaining READ_CHUNK))) (\<lambda>chunk.
          if chunk = [] then give bytes
          else
            and_do (with_err (\<lambda>_. AllocationFailed display
                (saturating_add (of_nat (length bytes)) (of_nat (length chunk)))) (reserve (length chunk))) (\<lambda>_.
              read_chunks fd display (remaining - length chunk) (bytes @ chunk))))"
  by pat_completeness auto
termination
  by (relation "measure (\<lambda>(_, _, remaining, _). remaining)") auto

definition read_open_regular_file :: "descriptor \<Rightarrow> stat \<Rightarrow> u64 \<Rightarrow> string list \<Rightarrow> (u8 list \<times> stat) fs" where
  "read_open_regular_file fd before maximum display =
     (if st_kind before \<noteq> KindFile then stop (NotRegularFile display)
      else if st_size before > maximum then stop (FileTooLarge display (st_size before) maximum)
      else
        and_do (with_err (\<lambda>_. AllocationFailed display (st_size before)) (reserve (unat (st_size before)))) (\<lambda>_.
        and_do (read_chunks fd display (unat (saturating_add maximum 1)) []) (\<lambda>bytes.
          let actual = of_nat (length bytes) in
          if actual > maximum then stop (FileTooLarge display actual maximum)
          else
            and_do (io_err ''inspect read file'' display (metadata fd)) (\<lambda>after_read.
              if st_ino before \<noteq> st_ino after_read \<or> st_size before \<noteq> st_size after_read
                 \<or> st_modified before \<noteq> st_modified after_read \<or> st_changed before \<noteq> st_changed after_read
                 \<or> st_size after_read \<noteq> actual
              then stop (ChangedDuringRead display) else give (bytes, before)))))"

definition read_regular_file :: "pinned_directory \<Rightarrow> directory_entry \<Rightarrow> u64 \<Rightarrow> read_file fs" where
  "read_regular_file d entry maximum =
     (let path = pd_path d @ [de_name entry] in
      if st_kind (de_stat entry) \<noteq> KindFile then stop (NotRegularFile path)
      else
        and_do (with_err (changed_or_io ''open regular file entry'' path)
          (open_file_at (pd_directory d) (de_name entry))) (\<lambda>fd.
        and_do (io_err ''inspect open file'' path (metadata fd)) (\<lambda>before.
        and_do (verify_stat (de_stat entry) before path) (\<lambda>_.
        and_do (read_open_regular_file fd before maximum path) (\<lambda>(bytes, meta).
        and_do (verify_named_entry (pd_directory d) (de_name entry) meta path) (\<lambda>_.
          give \<lparr>rf_bytes = bytes, rf_mode = st_mode meta\<rparr>))))))"

definition read_regular_file_beneath :: "directory_root \<Rightarrow> string \<Rightarrow> u64 \<Rightarrow> read_file fs" where
  "read_regular_file_beneath root relative maximum =
     and_do (lift (relative_components relative)) (\<lambda>components.
     let display = dr_path root @ components; final_component = last components in
     and_do (io_err ''duplicate workspace root descriptor'' (dr_path root) (try_clone (dr_directory root))) (\<lambda>fd.
     and_do (open_components (FsIo ''open ancestor directory without following symlinks'' display) fd
       (butlast components)) (\<lambda>directory.
     and_do (io_err ''open file beneath workspace without following symlinks'' display
       (open_file_at directory final_component)) (\<lambda>file.
     and_do (io_err ''inspect open file'' display (metadata file)) (\<lambda>before.
       if st_kind before \<noteq> KindFile then stop (NotRegularFile display)
       else
         and_do (read_open_regular_file file before maximum display) (\<lambda>(bytes, meta).
         and_do (verify_named_entry directory final_component meta display) (\<lambda>_.
           give \<lparr>rf_bytes = bytes, rf_mode = st_mode meta\<rparr>)))))))"

definition MAX_SYMLINK_TARGET_BYTES :: nat where "MAX_SYMLINK_TARGET_BYTES = 1024 * 1024"

function read_link_loop :: "descriptor \<Rightarrow> string \<Rightarrow> stat \<Rightarrow> string list \<Rightarrow> nat \<Rightarrow> string fs" where
  \<comment> \<open>the loop of \<open>read_link_at\<close>; the capacity starts at 256 or more and never exceeds the
     maximum, so the first test is the \<open>==\<close> of the source\<close>
  "read_link_loop parent name expected path capacity =
     and_do (with_err (\<lambda>_. AllocationFailed path (of_nat capacity)) (reserve capacity)) (\<lambda>_.
     and_do (with_err (changed_or_io ''read source symlink without following it'' path)
       (read_link parent name capacity)) (\<lambda>bytes.
       if length bytes < capacity then
         and_do (with_err (\<lambda>_. ChangedDuringRead path) (fstatat_entry parent name)) (\<lambda>after_read.
           if \<not> same_stat expected after_read then stop (ChangedDuringRead path) else give bytes)
       else if capacity = 0 \<or> capacity \<ge> MAX_SYMLINK_TARGET_BYTES
         then stop (SymlinkTargetTooLarge path MAX_SYMLINK_TARGET_BYTES)
       else read_link_loop parent name expected path (min (capacity * 2) MAX_SYMLINK_TARGET_BYTES)))"
  by pat_completeness auto
termination
  by (relation "measure (\<lambda>(_, _, _, _, capacity). MAX_SYMLINK_TARGET_BYTES - capacity)") auto

definition read_link_at :: "descriptor \<Rightarrow> string \<Rightarrow> stat \<Rightarrow> string list \<Rightarrow> string fs" where
  "read_link_at parent name expected path =
     (let hinted = max (unat (st_size expected) + 1) 256 in
      read_link_loop parent name expected path (min hinted MAX_SYMLINK_TARGET_BYTES))"

definition read_symlink :: "pinned_directory \<Rightarrow> directory_entry \<Rightarrow> string fs" where
  "read_symlink d entry =
     (let path = pd_path d @ [de_name entry] in
      if st_kind (de_stat entry) \<noteq> KindSymlink then stop (ChangedDuringRead path)
      else read_link_at (pd_directory d) (de_name entry) (de_stat entry) path)"

definition verify_entry :: "pinned_directory \<Rightarrow> directory_entry \<Rightarrow> unit fs" where
  "verify_entry d entry =
     (let path = pd_path d @ [de_name entry] in
      and_do (with_err (changed_or_io ''reinspect directory entry'' path)
        (fstatat_entry (pd_directory d) (de_name entry))) (\<lambda>current.
        if same_stat (de_stat entry) current then give () else stop (ChangedDuringRead path)))"

end
