(* ===== verification/File_Effects.thy ===== *)
theory File_Effects
  imports File_System
begin

section \<open>What the operations beneath a root do\<close>

text \<open>
  Specifications of \<open>File_System\<close> over \<open>disk\<close>.  On success an operation makes exactly its
  documented change; a failure changes nothing outside the path it was given (\<open>touches\<close>); in a
  calm world an operation whose ancestors are directories that grant everything to their owner
  (\<open>open_way\<close>) does not fail.
\<close>

definition touches :: "string list \<Rightarrow> world \<Rightarrow> world \<Rightarrow> bool" where
  "touches P w w' \<longleftrightarrow> steady w w' \<and> (\<forall>q. \<not> prefix P q \<longrightarrow> disk w' q = disk w q)"

definition OWNER_ALL :: u32 where
  \<comment> \<open>octal 700\<close>
  "OWNER_ALL = 0x1C0"

definition open_way :: "world \<Rightarrow> descriptor \<Rightarrow> string list \<Rightarrow> bool" where
  "open_way w fd cs \<longleftrightarrow>
     (\<forall>k \<le> length cs. \<exists>m. disk w (fd @ take k cs) = Some (ItemDir m) \<and> allows w m OWNER_ALL)"

lemma all_le_Suc: "(\<forall>k \<le> Suc n. P k) \<longleftrightarrow> P 0 \<and> (\<forall>k \<le> n. P (Suc k))"
  by (metis Suc_le_mono not0_implies_Suc zero_le)

lemma open_way_Nil: "open_way w fd [] \<longleftrightarrow> (\<exists>m. disk w fd = Some (ItemDir m) \<and> allows w m OWNER_ALL)"
  by (simp add: open_way_def)

lemma open_way_Cons: "open_way w fd (c # cs) \<longleftrightarrow> open_way w fd [] \<and> open_way w (fd @ [c]) cs"
  by (simp add: open_way_def all_le_Suc)

lemma touches_refl [simp]: "touches P w w"
  by (simp add: touches_def)

lemma touches_trans: "touches P u v \<Longrightarrow> touches P v w \<Longrightarrow> touches P u w"
  by (auto simp: touches_def intro: steady_trans)

lemma touches_prefix: "touches P u v \<Longrightarrow> prefix Q P \<Longrightarrow> touches Q u v"
  by (auto simp: touches_def dest: prefix_order.trans)

lemma quiet_touches: "quiet w w' \<Longrightarrow> touches P w w'"
  by (simp add: touches_def quiet_disk quiet_steady)

lemma touches_update: "steady w w' \<Longrightarrow> disk w' = (disk w)(P @ r \<mapsto> i) \<Longrightarrow> touches P w w'"
  by (auto simp: touches_def)

lemma touches_forget: "steady w w' \<Longrightarrow> disk w' = forget P (disk w) \<Longrightarrow> touches P w w'"
  by (auto simp: touches_def forget_def)

lemma forget_touched: "touches P u v \<Longrightarrow> disk w = forget P (disk v) \<Longrightarrow> disk w = forget P (disk u)"
  by (auto simp: touches_def forget_def fun_eq_iff)

lemma and_mask: "and m b = b \<Longrightarrow> and b c = c \<Longrightarrow> and m c = (c :: u32)"
  by (metis and.assoc)

lemma allows_all:
  assumes "allows w m OWNER_ALL"
  shows "allows w m S_IRUSR" "allows w m S_IXUSR" "allows w m WX"
  using assms and_mask [of m OWNER_ALL]
  by (auto simp: allows_def OWNER_ALL_def S_IRUSR_def S_IXUSR_def S_IWUSR_def)

lemma allows_own [simp]: "allows w OWNER_ALL OWNER_ALL"
  by (simp add: allows_def)

lemma after_io_err [simp]: "after (io_err operation path m) Q E s \<longleftrightarrow> after m Q (\<lambda>e. E (FsIo operation path e)) s"
  by (simp add: io_err_def)

subsection \<open>Names\<close>

lemma relative_component_Inr [simp]: "relative_component r c = Inr d \<longleftrightarrow> d = c \<and> component_ok c \<and> nul \<notin> set c"
  by (auto simp: relative_component_def component_ok_def)

lemma split_on_chars: "c \<in> set (split_on d s) \<Longrightarrow> set c \<subseteq> set s"
proof (induction s arbitrary: c)
  case (Cons x s)
  show ?case
  proof (cases "split_on d s")
    case (Cons p ps)
    then show ?thesis using Cons.IH Cons.prems by (fastforce split: if_splits)
  qed simp
qed simp

lemma relative_components_path:
  assumes "path_ok p"
  shows "relative_components p = Inr (split_on CHR ''/'' p)" and "\<forall>c \<in> set (split_on CHR ''/'' p). name_ok c"
proof -
  have c: "component_ok c \<and> nul \<notin> set c \<and> CHR ''/'' \<notin> set c" if "c \<in> set (split_on CHR ''/'' p)" for c
    using assms that split_on_chars [OF that] split_on_no_sep [OF that] by (auto simp: path_ok_def)
  then have "map_result (relative_component p) (split_on CHR ''/'' p) = Inr (map id (split_on CHR ''/'' p))"
    by (intro map_result_all_ok) simp
  then show "relative_components p = Inr (split_on CHR ''/'' p)"
    using path_ok_not_Nil [OF assms] path_ok_not_absolute [OF assms] by (simp add: relative_components_def)
  show "\<forall>c \<in> set (split_on CHR ''/'' p). name_ok c" using c by (simp add: name_ok_def)
qed

lemma single_component_ok: "name_ok c \<Longrightarrow> single_component c = Inr c"
  by (auto simp: single_component_def name_ok_def component_ok_def)

lemma name_ok_dots: "name_ok c \<Longrightarrow> c \<noteq> ''.'' \<and> c \<noteq> ''..''"
  by (simp add: name_ok_def component_ok_def)

subsection \<open>Creating\<close>

lemma open_components_spec:
  assumes "\<forall>c \<in> set cs. c \<noteq> ''.'' \<and> c \<noteq> ''..''"
  shows "after (open_components err fd cs)
    (\<lambda>d w'. quiet w w' \<and> d = fd @ cs \<and> (cs \<noteq> [] \<longrightarrow> (\<exists>m. disk w d = Some (ItemDir m))))
    (\<lambda>e w'. quiet w w' \<and> \<not> (calm w \<and> open_way w fd cs)) w"
  using assms
proof (induction cs arbitrary: fd w)
  case (Cons c cs)
  have c: "c \<noteq> ''.''" "c \<noteq> ''..''" using Cons.prems by auto
  have head: "\<exists>m. disk w (fd @ [c]) = Some (ItemDir m) \<and> allows w m OWNER_ALL" if "open_way w (fd @ [c]) cs"
    using that by (cases cs) (auto simp: open_way_Cons open_way_Nil)
  show ?case
    unfolding open_components.simps after_and_do after_with_err
  proof (rule after_mono [OF open_directory_at_spec [OF c]], goal_cases)
    case (1 d v)
    then have q: "quiet w v" and d: "d = fd @ [c]" and dir: "\<exists>m. disk w d = Some (ItemDir m)" by auto
    show ?case
      unfolding d
    proof (rule after_mono [OF Cons.IH], goal_cases)
      case (2 x t)
      then show ?case using q dir d
        by (cases cs) (auto simp: quiet_disk intro: quiet_trans)
    next
      case (3 e t)
      have "open_way v (fd @ [c]) cs = open_way w (fd @ [c]) cs"
        using q by (simp add: open_way_def quiet_disk quiet_allows)
      then show ?case using 3 q by (auto simp: quiet_calm open_way_Cons intro: quiet_trans)
    qed (use Cons.prems in simp)
  next
    case (2 e v)
    have False if "calm w" "open_way w fd (c # cs)"
      using 2 that head allows_all [of w] by (fastforce simp: open_way_Cons open_way_Nil)
    then show ?case using 2 by blast
  qed
qed simp

lemma butlast_ne: "p \<noteq> [] \<Longrightarrow> fd @ p = (fd @ butlast p) @ [last p]"
  by simp

definition parent_open :: "world \<Rightarrow> descriptor \<Rightarrow> string list \<Rightarrow> bool" where
  "parent_open w fd cs \<longleftrightarrow> open_way w fd (butlast cs)"

lemma open_parent_beneath_spec:
  fixes root :: directory_root
  assumes "path_ok p"
  defines "cs \<equiv> split_on CHR ''/'' p"
  shows "after (open_parent_beneath root p)
    (\<lambda>(d, name, display) w'. quiet w w' \<and> d = dr_directory root @ butlast cs \<and> name = last cs)
    (\<lambda>e w'. quiet w w' \<and> \<not> (calm w \<and> parent_open w (dr_directory root) cs)) w"
proof -
  have dots: "\<forall>c \<in> set (butlast cs). c \<noteq> ''.'' \<and> c \<noteq> ''..''"
    using relative_components_path(2) [OF assms(1)] name_ok_dots unfolding cs_def by (blast dest: in_set_butlastD)
  show ?thesis
    unfolding open_parent_beneath_def after_and_do after_lift relative_components_path(1) [OF assms(1)]
      sum.case Let_def after_io_err cs_def [symmetric]
  proof (rule after_mono [OF try_clone_spec], goal_cases)
    case (1 fd v)
    then have q: "quiet w v" and fd: "fd = dr_directory root" by auto
    show ?case
      unfolding fd
      by (rule after_mono [OF open_components_spec [OF dots]])
        (use q in \<open>auto intro: quiet_trans simp: quiet_calm parent_open_def open_way_def quiet_disk quiet_allows\<close>)
  qed auto
qed

lemma split_last: "(fd @ butlast (split_on d p)) @ [last (split_on d p)] = fd @ split_on d p"
  by simp

lemma parent_open_dir:
  "parent_open w fd cs \<Longrightarrow> \<exists>m. disk w (fd @ butlast cs) = Some (ItemDir m) \<and> allows w m OWNER_ALL"
  by (auto simp: parent_open_def open_way_def)

lemma add_refused_cases:
  assumes "add_refused w p c e" and "calm w" and "name_ok c"
    and "disk w p = Some (ItemDir m)" and "allows w m OWNER_ALL"
  shows "disk w (p @ [c]) \<noteq> None"
  using assms entry_refused_not [OF assms(4) allows_all(3) [OF assms(5)]] by (auto simp: add_refused_def)

lemma add_beneath_refused:
  assumes q: "quiet w v" and e: "add_refused v (fd @ butlast (split_on d p)) (last (split_on d p)) e"
    and name: "name_ok (last (split_on d p))" and calm: "calm w" and way: "parent_open w fd (split_on d p)"
  shows "disk w (fd @ split_on d p) \<noteq> None"
proof -
  obtain m where "disk v (fd @ butlast (split_on d p)) = Some (ItemDir m)" "allows v m OWNER_ALL"
    using parent_open_dir [OF way] q by (auto simp: quiet_disk quiet_allows)
  from add_refused_cases [OF e _ name this] show ?thesis
    using q calm by (simp add: quiet_calm quiet_disk)
qed

lemma create_directory_beneath_spec:
  fixes root :: directory_root
  assumes "path_ok p"
  defines "P \<equiv> dr_directory root @ split_on CHR ''/'' p"
  shows "after (create_directory_beneath root p)
    (\<lambda>_ w'. steady w w' \<and> disk w P = None \<and> disk w' = (disk w)(P \<mapsto> ItemDir OWNER_ALL))
    (\<lambda>e w'. quiet w w' \<and> \<not> (calm w \<and> parent_open w (dr_directory root) (split_on CHR ''/'' p) \<and> disk w P = None)) w"
  unfolding create_directory_beneath_def after_and_do
proof (rule after_mono [OF open_parent_beneath_spec [OF assms(1)]], goal_cases)
  case (1 x v)
  let ?cs = "split_on CHR ''/'' p" and ?fd = "dr_directory root"
  obtain display where x: "x = (?fd @ butlast ?cs, last ?cs, display)" and q: "quiet w v"
    using 1 by (auto split: prod.splits)
  have name: "name_ok (last ?cs)" using relative_components_path(2) [OF assms(1)] by simp
  show ?case
    unfolding x prod.case after_io_err
  proof (rule after_mono [OF mkdir_at_spec], goal_cases)
    case (1 y t)
    then show ?case using q quiet_disk [OF q] quiet_steady [OF q] steady_trans
      unfolding split_last P_def [symmetric] by (auto simp: OWNER_ALL_def)
  next
    case (2 e t)
    then show ?case using add_beneath_refused [OF q _ name, of ?fd e] 2 q by (auto simp: P_def intro: quiet_trans)
  qed
qed auto

definition only_at :: "string list \<Rightarrow> world \<Rightarrow> world \<Rightarrow> bool" where
  "only_at P w w' \<longleftrightarrow> steady w w' \<and> (disk w' = disk w \<or> disk w P = None \<and> (\<exists>i. disk w' = (disk w)(P \<mapsto> i)))"

lemma quiet_only_at: "quiet w w' \<Longrightarrow> only_at P w w'"
  by (simp add: only_at_def quiet_disk quiet_steady)

lemma only_at_touches: "only_at P w w' \<Longrightarrow> touches P w w'"
  by (auto simp: only_at_def touches_def)

lemma create_file_beneath_spec:
  fixes root :: directory_root
  assumes "path_ok p"
  defines "P \<equiv> dr_directory root @ split_on CHR ''/'' p"
  shows "after (create_file_beneath root p bytes mode)
    (\<lambda>_ w'. steady w w' \<and> disk w P = None \<and> disk w' = (disk w)(P \<mapsto> ItemFile mode bytes))
    (\<lambda>e w'. only_at P w w' \<and> \<not> (calm w \<and> parent_open w (dr_directory root) (split_on CHR ''/'' p)
       \<and> disk w P = None \<and> length bytes \<le> MAX_FILE_LEN)) w"
  unfolding create_file_beneath_def after_and_do
proof (rule after_mono [OF open_parent_beneath_spec [OF assms(1)]], goal_cases)
  case (1 x v)
  let ?cs = "split_on CHR ''/'' p" and ?fd = "dr_directory root"
  obtain display where x: "x = (?fd @ butlast ?cs, last ?cs, display)" and q: "quiet w v"
    using 1 by (auto split: prod.splits)
  have name: "name_ok (last ?cs)" using relative_components_path(2) [OF assms(1)] by simp
  show ?case
    unfolding x prod.case after_io_err after_and_do
  proof (rule after_mono [OF create_file_at_spec], goal_cases)
    case (1 made u)
    then have none: "disk w P = None" and u: "disk u = (disk w)(P \<mapsto> ItemFile 0x180 [])"
      and made: "made = P" and wu: "steady w u" and cu: "calm u = calm w"
      using q quiet_disk [OF q] quiet_steady [OF q] steady_trans steady_calm
      unfolding split_last P_def [symmetric] by (auto simp: quiet_calm)
    have at: "disk u P = Some (ItemFile 0x180 [])" by (simp add: u)
    show ?case
      unfolding made
    proof (rule after_mono [OF write_all_spec [OF at]], goal_cases)
      case (1 y t)
      then have t: "disk t = (disk w)(P \<mapsto> ItemFile 0x180 bytes)" and wt: "steady w t" and ct: "calm t = calm w"
        using u wu steady_trans steady_calm cu by auto
      show ?case
      proof (rule after_mono [OF sync_all_spec], goal_cases)
        case (1 y s)
        then have s: "disk s = (disk w)(P \<mapsto> ItemFile 0x180 bytes)" and ws: "steady w s" and cs: "calm s = calm w"
          using t wt ct quiet_disk quiet_calm steady_trans [OF wt quiet_steady] by auto
        have at: "disk s P = Some (ItemFile 0x180 bytes)" by (simp add: s)
        show ?case
          by (rule after_mono [OF set_permissions_spec [OF at]])
            (use s ws cs none steady_trans in \<open>auto simp: only_at_def quiet_disk quiet_steady device_def\<close>)
      next
        case (2 e s)
        then show ?case using t wt ct none steady_trans [OF wt quiet_steady]
          by (auto simp: only_at_def quiet_disk device_def)
      qed
    next
      case (2 e t)
      then show ?case using u wu cu none steady_trans [OF wu] by (auto simp: only_at_def device_def)
    qed
  next
    case (2 e t)
    then show ?case using add_beneath_refused [OF q _ name, of ?fd e] 2 q quiet_only_at [OF quiet_trans [OF q], of t P]
      by (auto simp: P_def)
  qed
qed (auto simp: quiet_only_at)

lemma create_symlink_beneath_spec:
  fixes root :: directory_root
  assumes "path_ok p" and target: "target \<noteq> []" "nul \<notin> set target"
  defines "P \<equiv> dr_directory root @ split_on CHR ''/'' p"
  shows "after (create_symlink_beneath root p target)
    (\<lambda>_ w'. steady w w' \<and> disk w P = None \<and> disk w' = (disk w)(P \<mapsto> ItemLink (w_link_mode w) target))
    (\<lambda>e w'. quiet w w' \<and> \<not> (calm w \<and> parent_open w (dr_directory root) (split_on CHR ''/'' p) \<and> disk w P = None)) w"
  unfolding create_symlink_beneath_def after_and_do
proof (rule after_mono [OF open_parent_beneath_spec [OF assms(1)]], goal_cases)
  case (1 x v)
  let ?cs = "split_on CHR ''/'' p" and ?fd = "dr_directory root"
  obtain display where x: "x = (?fd @ butlast ?cs, last ?cs, display)" and q: "quiet w v"
    using 1 by (auto split: prod.splits)
  have name: "name_ok (last ?cs)" using relative_components_path(2) [OF assms(1)] by simp
  have n: "(nul \<in> set target) = False" using target by simp
  show ?case
    unfolding x prod.case after_io_err n if_False
  proof (rule after_mono [OF symlink_at_spec [OF target(1)]], goal_cases)
    case (1 y t)
    then show ?case using q quiet_disk [OF q] quiet_steady [OF q] quiet_fields(5) [OF q] steady_trans
      unfolding split_last P_def [symmetric] by auto
  next
    case (2 e t)
    then show ?case using add_beneath_refused [OF q _ name, of ?fd e] 2 q by (auto simp: P_def intro: quiet_trans)
  qed
qed auto

lemma finish_directory_beneath_spec:
  fixes root :: directory_root
  assumes "path_ok p"
  defines "cs \<equiv> split_on CHR ''/'' p"
  defines "P \<equiv> dr_directory root @ cs"
  shows "after (finish_directory_beneath root p mode)
    (\<lambda>_ w'. steady w w' \<and> (\<exists>m. disk w P = Some (ItemDir m)) \<and> disk w' = (disk w)(P \<mapsto> ItemDir mode))
    (\<lambda>e w'. touches P w w' \<and> \<not> (calm w \<and> open_way w (dr_directory root) cs)) w"
proof -
  have dots: "\<forall>c \<in> set cs. c \<noteq> ''.'' \<and> c \<noteq> ''..''"
    using relative_components_path(2) [OF assms(1)] name_ok_dots unfolding cs_def by blast
  have ne: "cs \<noteq> []" by (simp add: cs_def)
  show ?thesis
    unfolding finish_directory_beneath_def after_and_do after_lift relative_components_path(1) [OF assms(1)]
      sum.case Let_def after_io_err cs_def [symmetric]
  proof (rule after_mono [OF try_clone_spec], goal_cases)
    case (1 fd v)
    then have q: "quiet w v" and fd: "fd = dr_directory root" by auto
    have way: "open_way v fd cs = open_way w fd cs"
      using q by (simp add: open_way_def quiet_disk quiet_allows)
    show ?case
      unfolding after_with_err
    proof (rule after_mono [OF open_components_spec [OF dots]], goal_cases)
      case (1 d u)
      then have wu: "quiet w u" and d: "d = P" and dir: "\<exists>m. disk w P = Some (ItemDir m)"
        using q ne by (auto simp: P_def fd quiet_disk intro: quiet_trans)
      then obtain m where at: "disk u P = Some (ItemDir m)" using quiet_disk by auto
      show ?case
        unfolding d
      proof (rule after_mono [OF set_permissions_spec [OF at]], goal_cases)
        case (1 y t)
        then have t: "disk t = (disk w)(P \<mapsto> ItemDir mode)" and wt: "steady w t"
          using wu steady_trans [OF quiet_steady [OF wu], of t] by (auto simp: quiet_disk)
        have ct: "calm t = calm w" using wt by (rule steady_calm)
        show ?case
        proof (rule after_mono [OF sync_all_spec], goal_cases)
          case (1 y s)
          then show ?case using t dir steady_trans [OF wt quiet_steady, of s] by (simp add: quiet_disk)
        next
          case (2 e s)
          then have "steady w s" "disk s = (disk w)(P @ [] \<mapsto> ItemDir mode)"
            using t steady_trans [OF wt quiet_steady, of s] quiet_disk [of t s] by auto
          then have "touches P w s" by (rule touches_update)
          then show ?case using 2 ct device_calm by blast
        qed
      next
        case (2 e t)
        then show ?case using quiet_trans [OF wu, of t] quiet_calm [OF wu] by (auto simp: quiet_touches device_def)
      qed
    next
      case (2 e u)
      then show ?case using quiet_trans [OF q, of u] quiet_calm [OF q] way fd by (auto simp: quiet_touches)
    qed
  qed (auto simp: quiet_touches device_def)
qed

subsection \<open>Removing\<close>

lemma after_stream_step:
  \<comment> \<open>advancing a directory stream only reads\<close>
  assumes "\<And>v. quiet w v \<Longrightarrow> Q v" and "\<And>e v. quiet w v \<Longrightarrow> E (FsIo operation display e) v"
  shows "after (io_err operation display (next_name names)) (\<lambda>_. Q) E w"
  unfolding after_io_err by (rule after_mono [OF next_name_spec]) (use assms in auto)

lemma each_name_touches:
  assumes "\<And>c v. c \<noteq> ''.'' \<Longrightarrow> c \<noteq> ''..'' \<Longrightarrow> after (body c) (\<lambda>_. touches P v) (\<lambda>_. touches P v) v"
  shows "after (each_name display operation body names) (\<lambda>_. touches P w) (\<lambda>_. touches P w) w"
proof (induction names arbitrary: w)
  case Nil
  show ?case
    unfolding each_name.simps after_and_do by (rule after_stream_step) (auto simp: quiet_touches)
next
  case (Cons c names)
  show ?case
    unfolding each_name.simps after_and_do
  proof (rule after_stream_step, goal_cases)
    case (1 v)
    then have t: "touches P w v" by (rule quiet_touches)
    show ?case
    proof (cases "c = ''.'' \<or> c = ''..''")
      case True
      then show ?thesis using Cons.IH [of v] t by (auto elim!: after_mono intro: touches_trans)
    next
      case False
      then have "after (body c) (\<lambda>_. touches P v) (\<lambda>_. touches P v) v" using assms by blast
      then have "after (body c) (\<lambda>_. after (each_name display operation body names) (\<lambda>_. touches P w) (\<lambda>_. touches P w))
          (\<lambda>_. touches P w) v"
      proof (rule after_mono, goal_cases)
        case (1 x u)
        then have "touches P w u" using t touches_trans by blast
        then show ?case using Cons.IH [of u] by (auto elim!: after_mono intro: touches_trans)
      qed (use t touches_trans in blast)
      then show ?thesis using False by simp
    qed
  qed (rule quiet_touches)
qed

lemma verify_named_directory_quiet:
  assumes c: "c \<noteq> ''.''" "c \<noteq> ''..''"
  shows "after (verify_named_directory parent c pinned display) (\<lambda>_. quiet w) (\<lambda>_. quiet w) w"
  unfolding verify_named_directory_def after_and_do after_io_err after_with_err metadata_def
proof (rule after_mono [OF after_read], goal_cases)
  case (2 x v)
  then have q: "quiet w v" by simp
  show ?case
  proof (rule after_mono [OF open_directory_at_spec [OF c]], goal_cases)
    case (1 d u)
    then have u: "quiet w u" using quiet_trans [OF q] by blast
    show ?case
    proof (rule after_mono [OF after_read], goal_cases)
      case (2 y t)
      then show ?case using quiet_trans [OF u, of t] by simp
    qed (use quiet_trans [OF u] in auto)
  qed (use quiet_trans [OF q] in blast)
qed auto

lemma remove_non_directory_spec:
  assumes e: "e = ENOENT \<longrightarrow> disk w (parent @ [c]) = None"
  shows "after (remove_non_directory parent c display e)
    (\<lambda>_ w'. steady w w' \<and> disk w' = forget (parent @ [c]) (disk w)) (\<lambda>_ w'. quiet w w') w"
proof -
  have gone: "disk w = forget (parent @ [c]) (disk w)" if "disk w (parent @ [c]) = None"
    using that view_below_None [of "w_tree w" "parent @ [c]"] by (auto simp: forget_def fun_eq_iff prefix_def disk_def)
  show ?thesis
    unfolding remove_non_directory_def after_if after_rescue
  proof (split if_split, intro conjI impI, goal_cases)
    case 1
    then show ?case using e gone by simp
  next
    case 2
    have "after (unlink_at parent c False) (\<lambda>x w'. steady w w' \<and> disk w' = forget (parent @ [c]) (disk w))
      (\<lambda>u. after (if u = ENOENT then give () else stop (FsIo ''remove file or symlink'' display u))
         (\<lambda>_ w'. steady w w' \<and> disk w' = forget (parent @ [c]) (disk w)) (\<lambda>_ w'. quiet w w')) w"
    proof (rule after_mono [OF unlink_at_spec], goal_cases)
      case (2 u v)
      then have q: "quiet w v" and r: "unlink_refused w parent c False u" by auto
      have "disk w (parent @ [c]) = None" if "u = ENOENT"
        using r that view_parent_dir [of "w_tree w" parent c "[]"]
        by (cases "disk w (parent @ [c])") (auto simp: unlink_refused_def entry_refused_def disk_def)
      then show ?case using q gone quiet_disk [OF q] quiet_steady [OF q] by auto
    qed blast
    then show ?case by (auto elim!: after_mono split: if_splits)
  qed
qed

lemma remove_entry_at_spec:
  assumes c: "c \<noteq> ''.''" "c \<noteq> ''..''"
  shows "after (remove_entry_at levels parent c display)
    (\<lambda>_ w'. steady w w' \<and> disk w' = forget (parent @ [c]) (disk w)) (\<lambda>_. touches (parent @ [c]) w) w"
  using c
proof (induction levels arbitrary: parent c display w)
  case 0
  show ?case
    unfolding remove_entry_at.simps after_and_do after_outcome
  proof (rule after_mono [OF open_directory_at_spec [OF 0]], goal_cases)
    case (2 e v)
    then have q: "quiet w v" and e: "e = ENOENT \<longrightarrow> disk v (parent @ [c]) = None"
      using quiet_disk by auto
    show ?case
      unfolding sum.case
    proof (rule after_mono [OF remove_non_directory_spec [OF e]], goal_cases)
      case (1 x u)
      then show ?case using quiet_disk [OF q] steady_trans [OF quiet_steady [OF q]] by auto
    qed (use quiet_touches quiet_trans [OF q] in blast)
  qed (simp add: quiet_touches)
next
  case (Suc levels)
  let ?P = "parent @ [c]"
  show ?case
    unfolding remove_entry_at.simps after_and_do after_outcome
  proof (rule after_mono [OF open_directory_at_spec [OF Suc.prems]], goal_cases)
    case (2 e v)
    then have q: "quiet w v" and e: "e = ENOENT \<longrightarrow> disk v (parent @ [c]) = None"
      using quiet_disk by auto
    show ?case
      unfolding sum.case
    proof (rule after_mono [OF remove_non_directory_spec [OF e]], goal_cases)
      case (1 x u)
      then show ?case using quiet_disk [OF q] steady_trans [OF quiet_steady [OF q]] by auto
    qed (use quiet_touches quiet_trans [OF q] in blast)
  next
    case (1 d v)
    then have d: "d = ?P" and tv: "touches ?P w v" using quiet_touches by auto
    have contents: "after (remove_directory_contents (remove_entry_at levels) d display)
        (\<lambda>_. touches ?P w) (\<lambda>_. touches ?P w) v"
      unfolding remove_directory_contents_def after_and_do after_io_err open_stream_def
    proof (rule after_mono [OF after_read], goal_cases)
      case (2 names u)
      have tu: "touches ?P w u" using tv 2 quiet_touches touches_trans by blast
      have "after (remove_entry_at levels d n (display @ [n])) (\<lambda>_. touches ?P t) (\<lambda>_. touches ?P t) t"
        if "n \<noteq> ''.''" "n \<noteq> ''..''" for n t
      proof (rule after_mono [OF Suc.IH [OF that]], goal_cases)
        case (1 x s)
        then have "touches (d @ [n]) t s" using touches_forget by blast
        then show ?case unfolding d by (rule touches_prefix) simp
      next
        case (2 x s)
        then show ?case unfolding d by (rule touches_prefix) simp
      qed
      from each_name_touches [of "\<lambda>n. remove_entry_at levels d n (display @ [n])", OF this]
      show ?case by (rule after_mono) (use tu touches_trans in blast)+
    next
      case (3 e u)
      then show ?case using tv quiet_touches touches_trans by blast
    qed simp
    show ?case
      unfolding sum.case after_and_do after_io_err
    proof (rule after_mono [OF contents], goal_cases)
      case (1 x u)
      show ?case
      proof (rule after_mono [OF verify_named_directory_quiet [OF Suc.prems]], goal_cases)
        case (1 y t)
        then have tt: "touches ?P w t" using \<open>touches ?P w u\<close> quiet_touches touches_trans by blast
        show ?case
        proof (rule after_mono [OF unlink_at_spec], goal_cases)
          case (1 z s)
          then show ?case using forget_touched [OF tt] tt steady_trans by (auto simp: touches_def)
        next
          case (2 e s)
          then show ?case using tt quiet_touches touches_trans by blast
        qed
      next
        case (2 e t)
        then show ?case using \<open>touches ?P w u\<close> quiet_touches touches_trans by blast
      qed
    qed
  qed
qed

lemma remove_child_spec:
  fixes root :: directory_root
  assumes "name_ok c"
  defines "P \<equiv> dr_directory root @ [c]"
  shows "after (remove_child root c)
    (\<lambda>_ w'. steady w w' \<and> disk w' = forget P (disk w)) (\<lambda>_. touches P w) w"
  using remove_entry_at_spec name_ok_dots [OF assms(1)]
  by (simp add: remove_child_def after_lift single_component_ok [OF assms(1)] P_def)

subsection \<open>Renaming, child states and new directories\<close>

lemma rename_child_spec:
  fixes root :: directory_root
  assumes names: "name_ok old" "name_ok new" and ne: "old \<noteq> new"
  defines "d \<equiv> dr_directory root"
  shows "after (rename_child root old new)
    (\<lambda>_ w'. steady w w' \<and> disk w (d @ [old]) \<noteq> None
       \<and> (\<forall>i. disk w (d @ [new]) = Some i \<longrightarrow>
            ((\<exists>m. i = ItemDir m) \<longleftrightarrow> (\<exists>m. disk w (d @ [old]) = Some (ItemDir m)))
            \<and> (\<forall>x. disk w (d @ [new, x]) = None))
       \<and> disk w' = move d old new (disk w))
    (\<lambda>_ w'. quiet w w' \<and> \<not> (calm w \<and> open_way w d [] \<and> disk w (d @ [old]) \<noteq> None \<and> disk w (d @ [new]) = None)) w"
proof -
  have refused: "\<not> (calm w \<and> open_way w d [] \<and> disk w (d @ [old]) \<noteq> None \<and> disk w (d @ [new]) = None)"
    if "rename_refused w d old new e" for e
    using that names entry_refused_not allows_all(3)
    by (fastforce simp: rename_refused_def open_way_Nil)
  show ?thesis
    unfolding rename_child_def after_and_do after_lift after_io_err single_component_ok [OF names(1)]
      single_component_ok [OF names(2)] sum.case d_def [symmetric]
    by (rule after_mono [OF rename_at_spec [OF ne]]) (use refused in blast)+
qed

lemma after_verify_stat: "after (verify_stat s t path) Q E w \<longleftrightarrow> (if same_stat s t then Q () w else E (ChangedDuringRead path) w)"
  by (simp add: verify_stat_def)

lemma same_stat_refl [simp]: "same_stat s s = True"
  by (simp add: same_stat_def)

definition child_is :: "world \<Rightarrow> string list \<Rightarrow> directory_child_state \<Rightarrow> bool" where
  "child_is w P s \<longleftrightarrow> (case s of
       Absent \<Rightarrow> disk w P = None
     | EmptyDirectory \<Rightarrow> (\<exists>m. disk w P = Some (ItemDir m)) \<and> (\<forall>x. disk w (P @ [x]) = None)
     | Occupied \<Rightarrow> disk w P \<noteq> None \<and> \<not> ((\<exists>m. disk w P = Some (ItemDir m)) \<and> (\<forall>x. disk w (P @ [x]) = None)))"

lemma any_child_spec:
  "after (any_child display names)
     (\<lambda>b w'. quiet w w' \<and> (b \<longleftrightarrow> (\<exists>c \<in> set names. c \<noteq> ''.'' \<and> c \<noteq> ''..''))) (\<lambda>_ w'. quiet w w' \<and> \<not> calm w) w"
proof (induction names arbitrary: w)
  case Nil
  show ?case
    unfolding any_child.simps after_and_do after_io_err
    by (rule after_mono [OF next_name_spec]) (auto simp: device_def)
next
  case (Cons c names)
  show ?case
    unfolding any_child.simps after_and_do after_io_err
  proof (rule after_mono [OF next_name_spec], goal_cases)
    case (1 x v)
    then have q: "quiet w v" by simp
    show ?case
    proof (cases "c = ''.'' \<or> c = ''..''")
      case True
      then show ?thesis unfolding after_if
        by (simp only: if_True) (rule after_mono [OF Cons.IH], use quiet_trans [OF q] quiet_calm [OF q] in auto)
    qed (use q in auto)
  qed (auto simp: device_def)
qed

lemma stat_kind_dir: "st_kind (stat_of n) = KindDirectory \<longleftrightarrow> is_dir n"
  by (cases n) (simp_all add: stat_of_def)

lemma child_state_spec:
  fixes root :: directory_root
  assumes name: "name_ok c" and ok: "tree_ok w"
  defines "d \<equiv> dr_directory root"
  shows "after (child_state root c) (\<lambda>s w'. quiet w w' \<and> child_is w (d @ [c]) s)
    (\<lambda>_ w'. quiet w w' \<and> \<not> (calm w \<and> open_way w d []
       \<and> (\<forall>m. disk w (d @ [c]) = Some (ItemDir m) \<longrightarrow> allows w m OWNER_ALL))) w"
    (is "after _ ?Q ?E w")
proof -
  let ?r = "\<lambda>w. map_ok stat_of (directory_entry S_IXUSR d c w)"
  have dots: "c \<noteq> ''.''" "c \<noteq> ''..''" using name_ok_dots [OF name] by auto
  have device_err: "?E e u" if "quiet w u" "device w x" for e u x
    using that by (auto simp: device_def)
  show ?thesis
    unfolding child_state_def after_and_do after_lift single_component_ok [OF name] sum.case Let_def after_outcome
      d_def [symmetric] fstatat_entry_def
  proof (rule after_read_from [OF quiet_refl, of _ ?r], goal_cases)
    case (1 u)
    then show ?case by (simp add: quiet_directory_entry)
  next
    case (2 x v)
    then have q: "quiet w v" and "?r w = Inr x" by auto
    then obtain n where n: "directory_entry S_IXUSR d c w = Inr n" and x: "x = stat_of n"
      by (auto simp: map_ok_Inr_iff)
    have at: "at (w_tree w) (d @ [c]) = Some n" using n by (rule directory_entry_node)
    have item: "disk w (d @ [c]) = Some (item_of n)" using at by (simp add: disk_def view_def)
    show ?case
    proof (cases n)
      case (DirNode a cs)
      have names: "k \<noteq> ''.'' \<and> k \<noteq> ''..''" if "k \<in> fst ` set cs" for k
        using node_ok_dir_at [OF ok at] that DirNode name_ok_dots by (auto simp: list_all_iff)
      have kids: "cs \<noteq> [] \<longleftrightarrow> (\<exists>x. disk w (d @ [c, x]) \<noteq> None)"
        using children_view [OF at] DirNode by (simp add: disk_def)
      have found: "(\<exists>k \<in> set (''.'' # ''..'' # map fst cs). k \<noteq> ''.'' \<and> k \<noteq> ''..'') \<longleftrightarrow> cs \<noteq> []"
        using names by (cases cs) auto
      have occupied: "child_is w (d @ [c]) (if cs \<noteq> [] then Occupied else EmptyDirectory)"
        using kids item DirNode by (auto simp: child_is_def)
      have k: "st_kind x = KindDirectory" by (simp add: x DirNode stat_kind_dir)
      show ?thesis
        unfolding sum.case k simp_thms if_False after_and_do after_with_err after_io_err
      proof (rule observe_open_directory [OF q dots n [unfolded DirNode]], goal_cases)
        case (1 u)
        then show ?case
        proof (rule observe_metadata [OF _ at], goal_cases)
          case (1 t)
          then show ?case
            unfolding after_verify_stat x same_stat_refl if_True
          proof (rule observe_open_stream [OF _ at [unfolded DirNode]], goal_cases)
            case (1 s)
            show ?case
            proof (rule after_mono [OF any_child_spec], goal_cases)
              case (1 b r)
              then have wr: "quiet w r" and b: "b = (cs \<noteq> [])"
                using quiet_trans [OF \<open>quiet w s\<close>] found by auto
              show ?case
              proof (cases b)
                case True
                then show ?thesis using wr occupied b by simp
              next
                case False
                then show ?thesis
                  unfolding after_if if_False verify_named_entry_def after_and_do after_with_err
                  by (simp only: if_False) (rule observe_fstatat [OF wr n],
                      use occupied b in \<open>auto simp: after_verify_stat device_def\<close>)
              qed
            next
              case (2 e r)
              then show ?case using quiet_trans [OF \<open>quiet w s\<close>] quiet_calm [OF \<open>quiet w s\<close>] by auto
            qed
          qed (rule device_err)
        qed (rule device_err)
      next
        case (2 e u)
        then show ?case using item DirNode allows_all(1) by (auto simp: device_def)
      qed
    next
      case (FileNode a bs)
      then show ?thesis using q item by (simp add: x stat_of_def child_is_def)
    next
      case (LinkNode a t)
      then show ?thesis using q item by (simp add: x stat_of_def child_is_def)
    next
      case (OtherNode a)
      then show ?thesis using q item by (simp add: x stat_of_def child_is_def)
    qed
  next
    case (3 e v)
    then have q: "quiet w v" and e: "directory_entry S_IXUSR d c w = Inl e \<or> device w e" by auto
    show ?case
    proof (cases "e = ENOENT")
      case True
      then have "disk w (d @ [c]) = None" using e directory_entry_ENOENT by auto
      then show ?thesis using True q by (simp add: child_is_def)
    next
      case False
      have "\<not> (calm w \<and> open_way w d [])"
        using e False directory_entry_Inl [of S_IXUSR d c w e] allows_all(2) [of w]
        by (fastforce simp: open_way_Nil device_def)
      then show ?thesis using False q by auto
    qed
  qed
qed

lemma create_child_directory_spec:
  fixes root :: directory_root
  assumes name: "name_ok c"
  defines "d \<equiv> dr_directory root"
  defines "P \<equiv> d @ [c]"
  shows "after (create_child_directory root c)
    (\<lambda>r w'. dr_directory r = P \<and> steady w w' \<and> disk w P = None \<and> disk w' = (disk w)(P \<mapsto> ItemDir OWNER_ALL))
    (\<lambda>e w'. touches P w w' \<and> (disk w P \<noteq> None \<longrightarrow> quiet w w')
       \<and> ((\<exists>operation path. e = FsIo operation path EEXIST) \<longrightarrow> disk w P \<noteq> None)
       \<and> \<not> (calm w \<and> open_way w d [] \<and> disk w P = None)) w"
proof -
  have dots: "c \<noteq> ''.''" "c \<noteq> ''..''" using name_ok_dots [OF name] by auto
  show ?thesis
    unfolding create_child_directory_def after_and_do after_lift single_component_ok [OF name] sum.case Let_def
      after_io_err after_outcome d_def [symmetric]
  proof (rule after_mono [OF mkdir_at_spec], goal_cases)
    case (1 x v)
    then have v: "steady w v" "disk w P = None" "disk v = (disk w)(P \<mapsto> ItemDir OWNER_ALL)"
      by (auto simp: P_def OWNER_ALL_def)
    have dir: "disk v P = Some (ItemDir OWNER_ALL)" by (simp add: v)
    show ?case
    proof (rule after_mono [OF open_directory_at_spec [OF dots]], goal_cases)
      case (1 fd u)
      then show ?case using v quiet_disk [of v u] steady_trans [OF v(1) quiet_steady, of u] by (simp add: P_def)
    next
      case (2 e u)
      then have q: "quiet v u" by simp
      have tu: "touches P w u"
        by (rule touches_trans [OF touches_update [of w v P "[]"] quiet_touches [OF q]]) (simp_all add: v)
      have e: "e \<noteq> EEXIST" using 2 device_names(4) [of v] by auto
      have nc: "\<not> (calm w \<and> open_way w d [])"
      proof
        assume a: "calm w \<and> open_way w d []"
        then have "calm v" using steady_calm [OF v(1)] by simp
        obtain m where m: "disk v d = Some (ItemDir m)" "allows v m OWNER_ALL"
          using a v by (auto simp: open_way_Nil P_def steady_allows [OF v(1)])
        show False using 2 \<open>calm v\<close> dir m allows_all [OF m(2)] allows_all [OF allows_own, of v]
          by (auto simp: P_def)
      qed
      show ?case
        unfolding sum.case after_and_do after_outcome after_stop
        by (rule after_mono [OF unlink_at_spec])
          (use tu e nc v in \<open>auto simp: P_def intro: touches_trans quiet_touches dest: touches_forget\<close>)
    qed
  next
    case (2 e v)
    then show ?case using add_refused_cases [OF _ _ name, of w d e] by (auto simp: quiet_touches P_def open_way_Nil add_refused_def)
  qed
qed

end
