(* ===== verification/Lossy_Text.thy ===== *)
theory Lossy_Text
  imports Prelude
begin

section \<open>Lossy decoding of bytes\<close>

text \<open>
  \<open>String::from_utf8_lossy\<close> (and \<open>to_string_lossy\<close> of a Unix path): every maximal prefix of an
  ill-formed sequence becomes one replacement character U+FFFD.
\<close>

definition replacement :: "u8 list" where
  "replacement = [0xEF, 0xBF, 0xBD]"

definition utf8_width :: "u8 \<Rightarrow> nat" where
  \<comment> \<open>the length of the character a byte begins, 0 if it begins none\<close>
  "utf8_width a =
     (if a < 0x80 then 1 else if 0xC2 \<le> a \<and> a \<le> 0xDF then 2
      else if 0xE0 \<le> a \<and> a \<le> 0xEF then 3 else if 0xF0 \<le> a \<and> a \<le> 0xF4 then 4 else 0)"

definition utf8_second_ok :: "u8 \<Rightarrow> u8 \<Rightarrow> bool" where
  "utf8_second_ok a b \<longleftrightarrow> utf8_tail b \<and> (a = 0xE0 \<longrightarrow> 0xA0 \<le> b) \<and> (a = 0xED \<longrightarrow> b \<le> 0x9F)
     \<and> (a = 0xF0 \<longrightarrow> 0x90 \<le> b) \<and> (a = 0xF4 \<longrightarrow> b \<le> 0x8F)"

definition lossy_step :: "u8 list \<Rightarrow> u8 list \<times> nat" where
  \<comment> \<open>what the first character of a nonempty sequence becomes, and how much of it that covers\<close>
  "lossy_step bs =
     (let width = utf8_width (bs ! 0);
          tail_at = (\<lambda>i. i < length bs \<and> utf8_tail (bs ! i)) in
      if width = 0 then (replacement, 1)
      else if width = 1 then (take 1 bs, 1)
      else if \<not> (1 < length bs \<and> utf8_second_ok (bs ! 0) (bs ! 1)) then (replacement, 1)
      else if width = 2 then (take 2 bs, 2)
      else if \<not> tail_at 2 then (replacement, 2)
      else if width = 3 then (take 3 bs, 3)
      else if \<not> tail_at 3 then (replacement, 3)
      else (take 4 bs, 4))"

lemma lossy_step_progress: "0 < snd (lossy_step bs)"
  by (simp add: lossy_step_def Let_def)

lemma lossy_step_set: "set (fst (lossy_step bs)) \<subseteq> set bs \<union> set replacement"
  by (auto simp: lossy_step_def Let_def dest: in_set_takeD)

function utf8_lossy :: "u8 list \<Rightarrow> u8 list" where
  "utf8_lossy bs =
     (if bs = [] then [] else fst (lossy_step bs) @ utf8_lossy (drop (snd (lossy_step bs)) bs))"
  by pat_completeness auto
termination
  by (relation "measure length") (simp_all add: lossy_step_progress)

declare utf8_lossy.simps [simp del]

definition to_string_lossy :: "string \<Rightarrow> string" where
  "to_string_lossy s = of_bytes (utf8_lossy (as_bytes s))"

lemma utf8_lossy_set: "set (utf8_lossy bs) \<subseteq> set bs \<union> set replacement"
proof (induction bs rule: utf8_lossy.induct)
  case (1 bs)
  show ?case
  proof (cases "bs = []")
    case False
    then have "set (utf8_lossy (drop (snd (lossy_step bs)) bs)) \<subseteq> set bs \<union> set replacement"
      using 1 set_drop_subset [of "snd (lossy_step bs)" bs] by blast
    then show ?thesis
      using lossy_step_set [of bs] False by (subst utf8_lossy.simps) simp
  qed (simp add: utf8_lossy.simps)
qed

lemma to_string_lossy_chars: "c \<in> set (to_string_lossy s) \<Longrightarrow> c \<in> set s \<or> byte_of_char c \<in> set replacement"
proof -
  assume "c \<in> set (to_string_lossy s)"
  then have "byte_of_char c \<in> set (utf8_lossy (as_bytes s))"
    by (auto simp: to_string_lossy_def of_bytes_def)
  then have "byte_of_char c \<in> set (as_bytes s) \<or> byte_of_char c \<in> set replacement"
    using utf8_lossy_set [of "as_bytes s"] by blast
  then show ?thesis
    by (auto simp: as_bytes_def) (metis char_of_byte_of_char)
qed

end
