(* ===== verification/Restore.thy ===== *)
theory Restore
  imports File_Effects Lossy_Text Tree_Check Store_Objects
begin

section \<open>Materializing a snapshot\<close>

text \<open>
  \<open>rewind-snapshot/src/restore.rs\<close>, over the file system of \<open>File_Tree\<close> and the object store.
  The state is the world and the process-wide \<open>TEMP_SEQUENCE\<close>; a destination is its path with
  the links of its parent resolved.  The \<open>Drop\<close> of an active \<open>TemporaryTree\<close> is
  \<open>while_active\<close>: a failure before the tree is installed removes it again, ignoring the
  outcome of the removal.
\<close>

datatype snapshot_error =
    RootNotDirectory "string list"
  | NonUtf8Path "string list"
  | InvalidPath string snapshot_path_error
  | TreeInvalid tree_error
  | UnsupportedEntry "string list"
  | CanonicalEncoding
  | SnapshotIdentityMismatch snapshot_id snapshot_id
  | ManifestInvalid snapshot_manifest_error
  | Platform fs_error
  | SnapshotStore store_error
  | SnapshotIo string "string list" io_error
  | ObjectSizeMismatch snapshot_path u64 u64
  | RestoreFileTooLarge snapshot_path u64 u64
  | DestinationNotEmpty "string list"
  | InvalidDestination "string list"
  | InstallRollback "string list" fs_error fs_error
  | TemporaryNameExhausted "string list"

definition DEFAULT_MAX_FILE_SIZE :: u64 where
  "DEFAULT_MAX_FILE_SIZE = 64 * 1024 * 1024"

record materialize_options =
  mo_force :: bool
  mo_max_file_size :: u64

datatype materialize_warning = SymlinkPermissionsNotRestored snapshot_path u16

record materialize_report =
  mr_destination :: "string list"
  mr_files :: u64
  mr_directories :: u64
  mr_symlinks :: u64
  mr_logical_bytes :: u64
  mr_warnings :: "materialize_warning list"

record materializer =
  mz_world :: world
  mz_sequence :: u64

type_synonym 'a restoring = "(materializer, snapshot_error, 'a) effect"

definition on_world :: "(world, 'e, 'a) effect \<Rightarrow> (materializer, 'e, 'a) effect" where
  "on_world m = at_part mz_world (\<lambda>w s. s\<lparr>mz_world := w\<rparr>) m"

definition platform :: "'a fs \<Rightarrow> 'a restoring" where
  "platform m = with_err Platform (on_world m)"

subsection \<open>Preflight\<close>

definition validate_snapshot :: "'j env \<Rightarrow> (string \<Rightarrow> string) \<Rightarrow> snapshot \<Rightarrow> (snapshot_error, unit) result" where
  "validate_snapshot env lower s =
     and_then (map_err TreeInvalid (validate_manifest lower (snapshot_content s))) (\<lambda>_.
     and_then (ok_or CanonicalEncoding (env_manifest_json env (snapshot_content s))) (\<lambda>canonical.
       let actual = snapshot_id_digest (env_hash env) canonical in
       if actual = snapshot_identity s then Inr ()
       else Inl (SnapshotIdentityMismatch (snapshot_identity s) actual)))"

fun collect_objects :: "u64 \<Rightarrow> snapshot_entry list \<Rightarrow> (object_id \<times> u64 \<times> snapshot_path) list
    \<Rightarrow> (snapshot_error, (object_id \<times> u64 \<times> snapshot_path) list) result" where
  \<comment> \<open>the first loop of \<open>preflight_objects\<close>; the map holds each object once\<close>
  "collect_objects maximum [] objects = Inr objects"
| "collect_objects maximum (e # es) objects = (case entry_kind e of
       File object_id byte_size _ \<Rightarrow>
         if byte_size > maximum then Inl (RestoreFileTooLarge (entry_path e) byte_size maximum)
         else (case map_of objects object_id of
             Some (expected, first_path) \<Rightarrow>
               if expected \<noteq> byte_size then Inl (ObjectSizeMismatch (entry_path e) byte_size expected)
               else collect_objects maximum es objects
           | None \<Rightarrow> collect_objects maximum es (objects @ [(object_id, byte_size, entry_path e)]))
     | _ \<Rightarrow> collect_objects maximum es objects)"

definition load_exact ::
    "'j env \<Rightarrow> 'j store \<Rightarrow> object_id \<Rightarrow> u64 \<Rightarrow> snapshot_path \<Rightarrow> (snapshot_error, u8 list) result" where
  \<comment> \<open>loading an object whose length must be the one the manifest claims\<close>
  "load_exact env st object_id expected path =
     and_then (map_err SnapshotStore (load_object env st object_id expected)) (\<lambda>bytes.
       let actual = of_nat (length bytes) in
       if actual \<noteq> expected then Inl (ObjectSizeMismatch path expected actual) else Inr bytes)"

definition preflight_objects :: "'j env \<Rightarrow> 'j store \<Rightarrow> snapshot \<Rightarrow> u64 \<Rightarrow> (snapshot_error, unit) result" where
  \<comment> \<open>the second loop runs in the order of the \<open>BTreeMap\<close>\<close>
  "preflight_objects env st s maximum =
     and_then (collect_objects maximum (manifest_entries (snapshot_content s)) []) (\<lambda>objects.
       for_each (\<lambda>(object_id, expected, path). map_ok (\<lambda>_. ()) (load_exact env st object_id expected path))
         (sort_key fst objects))"

subsection \<open>Building\<close>

definition permission_mode :: "snapshot_entry \<Rightarrow> u32" where
  \<comment> \<open>\<open>u32::from(entry.permissions.bits())\<close>\<close>
  "permission_mode e = ucast (permission_bits (entry_permissions e))"

definition build_directory :: "directory_root \<Rightarrow> snapshot_entry \<Rightarrow> materialize_report \<Rightarrow> materialize_report restoring" where
  "build_directory root e report =
     (if entry_kind e = Directory then
        and_do (platform (create_directory_beneath root (entry_path e))) (\<lambda>_.
          give (report\<lparr>mr_directories := mr_directories report + 1\<rparr>))
      else give report)"

definition build_file :: "'j env \<Rightarrow> 'j store \<Rightarrow> directory_root \<Rightarrow> u64 \<Rightarrow> snapshot_entry
    \<Rightarrow> materialize_report \<Rightarrow> materialize_report restoring" where
  "build_file env st root maximum e report = (case entry_kind e of
       File object_id byte_size _ \<Rightarrow>
         if byte_size > maximum then stop (RestoreFileTooLarge (entry_path e) byte_size maximum)
         else
           and_do (lift (load_exact env st object_id byte_size (entry_path e))) (\<lambda>bytes.
           and_do (platform (create_file_beneath root (entry_path e) bytes (permission_mode e))) (\<lambda>_.
           and_do (lift (ok_or (ObjectSizeMismatch (entry_path e) byte_size (- 1))
               (checked_add (mr_logical_bytes report) byte_size))) (\<lambda>logical_bytes.
             give (report\<lparr>mr_files := mr_files report + 1, mr_logical_bytes := logical_bytes\<rparr>))))
     | _ \<Rightarrow> give report)"

definition build_symlink :: "directory_root \<Rightarrow> snapshot_entry \<Rightarrow> materialize_report \<Rightarrow> materialize_report restoring" where
  "build_symlink root e report = (case entry_kind e of
       Symlink target \<Rightarrow>
         and_do (platform (create_symlink_beneath root (entry_path e) target)) (\<lambda>_.
           give (report\<lparr>mr_symlinks := mr_symlinks report + 1,
             mr_warnings := mr_warnings report
               @ [SymlinkPermissionsNotRestored (entry_path e) (permission_bits (entry_permissions e))]\<rparr>))
     | _ \<Rightarrow> give report)"

definition finish_directory :: "directory_root \<Rightarrow> snapshot_entry \<Rightarrow> unit restoring" where
  "finish_directory root e =
     (if entry_kind e = Directory
      then platform (finish_directory_beneath root (entry_path e) (permission_mode e))
      else give ())"

definition build_tree :: "'j env \<Rightarrow> 'j store \<Rightarrow> snapshot \<Rightarrow> directory_root \<Rightarrow> u64 \<Rightarrow> materialize_report restoring" where
  "build_tree env st s root maximum =
     (let es = manifest_entries (snapshot_content s);
          start = \<lparr>mr_destination = [], mr_files = 0, mr_directories = 0, mr_symlinks = 0,
             mr_logical_bytes = 0, mr_warnings = []\<rparr> in
      and_do (fold_do (build_directory root) es start) (\<lambda>report.
      and_do (fold_do (build_file env st root maximum) es report) (\<lambda>report.
      and_do (fold_do (build_symlink root) es report) (\<lambda>report.
      and_do (each (finish_directory root) (rev es)) (\<lambda>_. give report)))))"

subsection \<open>Installing\<close>

definition unique_name :: "u32 \<Rightarrow> string \<Rightarrow> string \<Rightarrow> (materializer, 'e, string) effect" where
  \<comment> \<open>\<open>fetch_add\<close> wraps\<close>
  "unique_name process_id label destination_name =
     and_do (inspect mz_sequence) (\<lambda>sequence.
     and_do (change (\<lambda>s. s\<lparr>mz_sequence := sequence + 1\<rparr>)) (\<lambda>_.
       give (''.rewind-'' @ to_string_lossy destination_name @ ''.'' @ label @ ''-''
         @ dec_text (unat process_id) @ ''-'' @ dec_text (unat sequence))))"

primrec temporary_create :: "nat \<Rightarrow> u32 \<Rightarrow> directory_root \<Rightarrow> string \<Rightarrow> string \<Rightarrow> string list
    \<Rightarrow> (string \<times> directory_root) restoring" where
  \<comment> \<open>\<open>TemporaryTree::create\<close>; the first argument counts the attempts\<close>
  "temporary_create 0 process_id parent label destination_name destination =
     stop (TemporaryNameExhausted destination)"
| "temporary_create (Suc n) process_id parent label destination_name destination =
     and_do (unique_name process_id label destination_name) (\<lambda>name.
     and_do (outcome (on_world (create_child_directory parent name))) (\<lambda>created. case created of
         Inr root \<Rightarrow> give (name, root)
       | Inl e \<Rightarrow>
           (case e of
              FsIo _ _ source \<Rightarrow>
                if source = EEXIST then temporary_create n process_id parent label destination_name destination
                else stop (Platform e)
            | _ \<Rightarrow> stop (Platform e))))"

primrec unique_available_name :: "nat \<Rightarrow> u32 \<Rightarrow> directory_root \<Rightarrow> string \<Rightarrow> string \<Rightarrow> string list \<Rightarrow> string restoring" where
  "unique_available_name 0 process_id parent label destination_name destination =
     stop (TemporaryNameExhausted destination)"
| "unique_available_name (Suc n) process_id parent label destination_name destination =
     and_do (unique_name process_id label destination_name) (\<lambda>candidate.
     and_do (platform (child_state parent candidate)) (\<lambda>state.
       if state = Absent then give candidate
       else unique_available_name n process_id parent label destination_name destination))"

definition ATTEMPTS :: nat where "ATTEMPTS = 64"

definition while_active :: "directory_root \<Rightarrow> string \<Rightarrow> 'a restoring \<Rightarrow> 'a restoring" where
  \<comment> \<open>the drop of an active temporary tree\<close>
  "while_active parent name m =
     rescue m (\<lambda>e. and_do (outcome (platform (remove_child parent name))) (\<lambda>_. stop e))"

definition swap_in :: "u32 \<Rightarrow> directory_root \<Rightarrow> string \<Rightarrow> string \<Rightarrow> string list \<Rightarrow> string restoring" where
  \<comment> \<open>\<open>install_over_existing\<close> up to \<open>disarm\<close>; the result is the name of the backup\<close>
  "swap_in process_id parent temporary destination_name destination =
     and_do (unique_available_name ATTEMPTS process_id parent ''old'' destination_name destination) (\<lambda>backup.
     and_do (platform (rename_child parent destination_name backup)) (\<lambda>_.
     and_do (outcome (on_world (rename_child parent temporary destination_name))) (\<lambda>installed. case installed of
         Inr _ \<Rightarrow> give backup
       | Inl install \<Rightarrow>
           and_do (outcome (on_world (rename_child parent backup destination_name))) (\<lambda>restored. case restored of
               Inr _ \<Rightarrow> stop (Platform install)
             | Inl rollback \<Rightarrow> stop (InstallRollback destination install rollback)))))"

definition install :: "u32 \<Rightarrow> directory_root \<Rightarrow> string \<Rightarrow> string \<Rightarrow> string list \<Rightarrow> string option restoring" where
  \<comment> \<open>the name of the backup that is left to remove, if the destination existed\<close>
  "install process_id parent temporary destination_name destination =
     and_do (platform (child_state parent destination_name)) (\<lambda>state.
       if state = Absent then
         and_do (platform (rename_child parent temporary destination_name)) (\<lambda>_. give None)
       else
         and_do (swap_in process_id parent temporary destination_name destination) (\<lambda>backup. give (Some backup)))"

definition recheck :: "directory_root \<Rightarrow> bool \<Rightarrow> string \<Rightarrow> string list \<Rightarrow> directory_child_state \<Rightarrow> unit restoring" where
  "recheck parent force destination_name destination destination_state =
     (if \<not> force then
        and_do (platform (child_state parent destination_name)) (\<lambda>current.
          if current = Occupied \<or> destination_state = Absent \<and> current \<noteq> Absent
          then stop (DestinationNotEmpty destination) else give ())
      else give ())"

definition materialize :: "'j env \<Rightarrow> (string \<Rightarrow> string) \<Rightarrow> u32 \<Rightarrow> 'j store \<Rightarrow> snapshot \<Rightarrow> string list
    \<Rightarrow> materialize_options \<Rightarrow> materialize_report restoring" where
  "materialize env lower process_id st s destination options =
     and_do (lift (validate_snapshot env lower s)) (\<lambda>_.
     if destination = [] \<or> last destination = ''..'' then stop (InvalidDestination destination)
     else let destination_name = last destination in
     and_do (platform (directory_root_open (butlast destination))) (\<lambda>parent.
     and_do (platform (child_state parent destination_name)) (\<lambda>destination_state.
     if destination_state = Occupied \<and> \<not> mo_force options then stop (DestinationNotEmpty destination)
     else
     and_do (lift (preflight_objects env st s (mo_max_file_size options))) (\<lambda>_.
     and_do (temporary_create ATTEMPTS process_id parent ''tmp'' destination_name destination) (\<lambda>(name, root).
     and_do (while_active parent name
       (and_do (build_tree env st s root (mo_max_file_size options)) (\<lambda>report.
        and_do (platform (sync_root root)) (\<lambda>_.
        and_do (recheck parent (mo_force options) destination_name destination destination_state) (\<lambda>_.
        and_do (install process_id parent name destination_name destination) (\<lambda>backup.
          give (report, backup))))))) (\<lambda>(report, backup).
     and_do (case backup of None \<Rightarrow> give () | Some b \<Rightarrow> platform (remove_child parent b)) (\<lambda>_.
     and_do (platform (sync_root parent)) (\<lambda>_.
       give (report\<lparr>mr_destination := destination\<rparr>)))))))))"

end
