(* ===== verification/Scan.thy ===== *)
theory Scan
  imports File_Reading Restore Glob
begin

section \<open>Scanning a workspace\<close>

text \<open>
  \<open>rewind-snapshot/src/scan.rs\<close> over the file system of \<open>File_Tree\<close> and the object store.  The
  state of a scan is the world, the store and the two lists of the \<open>Scanner\<close>.  The recursion over
  directories is bounded by the length limit of snapshot paths: the path of a child is longer
  than that of its directory.
\<close>

record scan_options =
  sco_ignore :: "ignore_pattern list"
  sco_max_file_size :: u64

datatype exclusion_reason = Ignored (ignored_pattern: string) | TooLarge u64 u64

record exclusion =
  ex_path :: snapshot_path
  ex_reason :: exclusion_reason

record scan_report =
  srp_snapshot :: snapshot
  srp_exclusions :: "exclusion list"

record 'j scanner =
  sc_world :: world
  sc_store :: "'j store"
  sc_entries :: "snapshot_entry list"
  sc_exclusions :: "exclusion list"

type_synonym ('j, 'a) scanning = "('j scanner, snapshot_error, 'a) effect"

definition scan_files :: "'a fs \<Rightarrow> ('j, 'a) scanning" where
  "scan_files m = with_err Platform (at_part sc_world (\<lambda>w s. s\<lparr>sc_world := w\<rparr>) m)"

definition store_object :: "'j env \<Rightarrow> u8 list \<Rightarrow> int \<Rightarrow> ('j, stored_object) scanning" where
  "store_object env bytes created_unix_ms = with_err SnapshotStore
     (at_part sc_store (\<lambda>st s. s\<lparr>sc_store := st\<rparr>)
       (\<lambda>st. case put_object env st bytes created_unix_ms of (st', r) \<Rightarrow> (r, st')))"

definition push_entry :: "snapshot_entry \<Rightarrow> ('j, unit) scanning" where
  "push_entry e = change (\<lambda>s. s\<lparr>sc_entries := sc_entries s @ [e]\<rparr>)"

definition push_exclusion :: "exclusion \<Rightarrow> ('j, unit) scanning" where
  "push_exclusion x = change (\<lambda>s. s\<lparr>sc_exclusions := sc_exclusions s @ [x]\<rparr>)"

definition validate_relative_path :: "string \<Rightarrow> (snapshot_error, snapshot_path) result" where
  "validate_relative_path value = map_err (InvalidPath value) (snapshot_path_from_str value)"

definition scan_permissions :: "u32 \<Rightarrow> unix_permissions" where
  "scan_permissions mode = UnixPermissions (ucast (and mode 0xFFF))"

subsection \<open>Entries\<close>

definition scan_file :: "'j env \<Rightarrow> scan_options \<Rightarrow> int \<Rightarrow> pinned_directory \<Rightarrow> directory_entry
    \<Rightarrow> snapshot_path \<Rightarrow> ('j, unit) scanning" where
  "scan_file env options created_unix_ms directory entry path =
     and_do (outcome (at_part sc_world (\<lambda>w s. s\<lparr>sc_world := w\<rparr>)
       (read_regular_file directory entry (sco_max_file_size options)))) (\<lambda>read. case read of
         Inl (FileTooLarge _ actual maximum) \<Rightarrow>
           push_exclusion \<lparr>ex_path = path, ex_reason = TooLarge actual maximum\<rparr>
       | Inl source \<Rightarrow> stop (Platform source)
       | Inr read \<Rightarrow>
           and_do (store_object env (rf_bytes read) created_unix_ms) (\<lambda>stored.
             push_entry \<lparr>entry_path = path,
               entry_kind = File (so_id stored) (so_logical_size stored) (and (rf_mode read) 0x49 \<noteq> 0),
               entry_permissions = scan_permissions (rf_mode read)\<rparr>))"

definition scan_symlink :: "string list \<Rightarrow> pinned_directory \<Rightarrow> directory_entry \<Rightarrow> snapshot_path \<Rightarrow> ('j, unit) scanning" where
  "scan_symlink root directory entry path =
     and_do (scan_files (read_symlink directory entry)) (\<lambda>target.
     and_do (lift (ok_or (NonUtf8Path [target]) (str_from_utf8 (as_bytes target)))) (\<lambda>target.
       push_entry \<lparr>entry_path = path, entry_kind = Symlink target,
         entry_permissions = scan_permissions (st_mode (de_stat entry))\<rparr>))"

definition relative_text :: "string \<Rightarrow> string \<Rightarrow> string" where
  "relative_text relative name = (if relative = [] then name else relative @ ''/'' @ name)"

definition child_path :: "string list \<Rightarrow> string \<Rightarrow> directory_entry \<Rightarrow> (snapshot_error, snapshot_path) result" where
  \<comment> \<open>the checks on the name of a child\<close>
  "child_path root relative child =
     and_then (ok_or (NonUtf8Path (root @ (if relative = [] then [] else split_on CHR ''/'' relative) @ [de_name child]))
       (str_from_utf8 (as_bytes (de_name child)))) (\<lambda>name.
       validate_relative_path (relative_text relative name))"

definition ignoring_pattern :: "scan_options \<Rightarrow> snapshot_path \<Rightarrow> ignore_pattern option" where
  "ignoring_pattern options path = find (\<lambda>pattern. pattern_matches pattern path) (sco_ignore options)"

lemma snapshot_path_from_str_bounds:
  "snapshot_path_from_str s = Inr p \<Longrightarrow> p = s \<and> s \<noteq> [] \<and> length s \<le> MAX_SNAPSHOT_PATH_BYTES"
  by (auto simp: snapshot_path_from_str_def and_then_Inr_iff split: if_splits)

lemma child_path_bounds:
  "child_path root relative child = Inr path \<Longrightarrow> length relative < length path \<and> length path \<le> MAX_SNAPSHOT_PATH_BYTES"
  by (auto simp: child_path_def validate_relative_path_def and_then_Inr_iff map_err_Inr_iff relative_text_def
      dest!: snapshot_path_from_str_bounds split: if_splits)

subsection \<open>Directories\<close>

lemma lift_Inr: "lift r s = (Inr x, t) \<Longrightarrow> r = Inr x"
  by (simp add: lift_def)

function scan_directory :: "'j env \<Rightarrow> scan_options \<Rightarrow> int \<Rightarrow> string list \<Rightarrow> pinned_directory \<Rightarrow> string \<Rightarrow> ('j, unit) scanning"
  and scan_entry :: "'j env \<Rightarrow> scan_options \<Rightarrow> int \<Rightarrow> string list \<Rightarrow> pinned_directory \<Rightarrow> directory_entry
    \<Rightarrow> snapshot_path \<Rightarrow> ('j, unit) scanning" where
  "scan_directory env options created_unix_ms root directory relative =
     and_do (scan_files (entries directory)) (\<lambda>children.
     and_do (each (\<lambda>child.
       and_do (lift (child_path root relative child)) (\<lambda>path.
         case ignoring_pattern options path of
           Some pattern \<Rightarrow> push_exclusion \<lparr>ex_path = path, ex_reason = Ignored pattern\<rparr>
         | None \<Rightarrow> scan_entry env options created_unix_ms root directory child path)) children) (\<lambda>_.
       scan_files (verify_unchanged directory)))"
| "scan_entry env options created_unix_ms root directory entry path =
     (case st_kind (de_stat entry) of
        KindDirectory \<Rightarrow>
          and_do (scan_files (open_directory directory entry)) (\<lambda>child.
          and_do (push_entry \<lparr>entry_path = path, entry_kind = Directory,
            entry_permissions = scan_permissions (st_mode (pd_before child))\<rparr>) (\<lambda>_.
          and_do (scan_directory env options created_unix_ms root child path) (\<lambda>_.
            scan_files (verify_entry directory entry))))
      | KindFile \<Rightarrow> scan_file env options created_unix_ms directory entry path
      | KindSymlink \<Rightarrow> scan_symlink root directory entry path
      | KindOther \<Rightarrow> stop (UnsupportedEntry (root @ split_on CHR ''/'' path)))"
  by pat_completeness auto
termination
proof (relation "measure (case_sum (\<lambda>(_, _, _, _, _, relative). 2 * (MAX_SNAPSHOT_PATH_BYTES + 1 - length relative))
    (\<lambda>(_, _, _, _, _, _, path). 2 * (MAX_SNAPSHOT_PATH_BYTES + 1 - length path) + 1))", goal_cases)
  case 2
  then show ?case by (auto dest!: lift_Inr child_path_bounds)
qed auto

declare scan_directory.simps [simp del] scan_entry.simps [simp del]

definition scan_workspace :: "'j env \<Rightarrow> (string \<Rightarrow> string) \<Rightarrow> string list \<Rightarrow> scan_options \<Rightarrow> int \<Rightarrow> ('j, scan_report) scanning" where
  "scan_workspace env lower root options created_unix_ms =
     and_do (with_err (SnapshotIo ''inspect workspace root'' root)
       (at_part sc_world (\<lambda>w s. s\<lparr>sc_world := w\<rparr>) (symlink_metadata root))) (\<lambda>metadata.
     if st_kind metadata \<noteq> KindDirectory then stop (RootNotDirectory root)
     else
     and_do (scan_files (directory_root_open root)) (\<lambda>root_directory.
     and_do (scan_files (pinned_directory_of root_directory)) (\<lambda>pinned_root.
     and_do (change (\<lambda>s. s\<lparr>sc_entries := [], sc_exclusions := []\<rparr>)) (\<lambda>_.
     and_do (scan_directory env options created_unix_ms root pinned_root []) (\<lambda>_.
     and_do (inspect sc_entries) (\<lambda>entries.
     and_do (lift (map_err ManifestInvalid (manifest_new entries))) (\<lambda>manifest.
     and_do (lift (map_err TreeInvalid (validate_manifest lower manifest))) (\<lambda>_.
     and_do (lift (ok_or CanonicalEncoding (env_manifest_json env manifest))) (\<lambda>canonical.
     and_do (inspect sc_exclusions) (\<lambda>exclusions.
       give \<lparr>srp_snapshot = \<lparr>snapshot_identity = snapshot_id_digest (env_hash env) canonical,
               snapshot_content = manifest\<rparr>,
             srp_exclusions = sort_key ex_path exclusions\<rparr>))))))))))"

end
