(* ===== verification/File_Observe.thy ===== *)
theory File_Observe
  imports File_Reading File_Effects
begin

section \<open>Reading a tree that does not change\<close>

text \<open>
  \<open>reads w m x good\<close>: in the tree of \<open>w\<close> the operation \<open>m\<close> changes nothing, returns only \<open>x\<close>,
  and fails only when \<open>good\<close> does not hold (the device fails or a permission is missing).  With
  it the operations of \<open>File_Reading\<close> become functions of the tree.
\<close>

definition reads :: "world \<Rightarrow> (world, 'e, 'a) effect \<Rightarrow> 'a \<Rightarrow> bool \<Rightarrow> bool" where
  "reads w m x good \<longleftrightarrow>
     (\<forall>v. quiet w v \<longrightarrow> after m (\<lambda>y u. quiet w u \<and> y = x) (\<lambda>_ u. quiet w u \<and> \<not> good) v)"

definition refuses :: "world \<Rightarrow> (world, 'e, 'a) effect \<Rightarrow> 'e \<Rightarrow> bool \<Rightarrow> bool" where
  \<comment> \<open>the operation fails, with the given error if \<open>good\<close> holds\<close>
  "refuses w m x good \<longleftrightarrow>
     (\<forall>v. quiet w v \<longrightarrow> after m (\<lambda>_ _. False) (\<lambda>e u. quiet w u \<and> (e = x \<or> \<not> good)) v)"

subsection \<open>Composition\<close>

lemma reads_bind:
  assumes "reads w m x g" and "reads w (f x) y h" and "good \<Longrightarrow> g \<and> h"
  shows "reads w (and_do m f) y good"
  unfolding reads_def after_and_do
proof (intro allI impI)
  fix v assume "quiet w v"
  then have "after m (\<lambda>z u. quiet w u \<and> z = x) (\<lambda>_ u. quiet w u \<and> \<not> g) v" using assms(1) by (simp add: reads_def)
  then show "after m (\<lambda>z. after (f z) (\<lambda>z u. quiet w u \<and> z = y) (\<lambda>_ u. quiet w u \<and> \<not> good)) (\<lambda>_ u. quiet w u \<and> \<not> good) v"
  proof (rule after_mono, goal_cases)
    case (1 z u)
    then have "after (f x) (\<lambda>z u. quiet w u \<and> z = y) (\<lambda>_ u. quiet w u \<and> \<not> h) u" using assms(2) by (simp add: reads_def)
    then have "after (f x) (\<lambda>z u. quiet w u \<and> z = y) (\<lambda>_ u. quiet w u \<and> \<not> good) u"
      by (rule after_mono) (use assms(3) in auto)
    then show ?case using 1 by simp
  qed (use assms(3) in auto)
qed

lemma refuses_bind:
  assumes "reads w m x g" and "refuses w (f x) y h" and "good \<Longrightarrow> g \<and> h"
  shows "refuses w (and_do m f) y good"
  unfolding refuses_def after_and_do
proof (intro allI impI)
  fix v assume "quiet w v"
  then have "after m (\<lambda>z u. quiet w u \<and> z = x) (\<lambda>_ u. quiet w u \<and> \<not> g) v" using assms(1) by (simp add: reads_def)
  then show "after m (\<lambda>z. after (f z) (\<lambda>_ _. False) (\<lambda>e u. quiet w u \<and> (e = y \<or> \<not> good)))
      (\<lambda>e u. quiet w u \<and> (e = y \<or> \<not> good)) v"
  proof (rule after_mono, goal_cases)
    case (1 z u)
    then have "after (f x) (\<lambda>_ _. False) (\<lambda>e u. quiet w u \<and> (e = y \<or> \<not> h)) u" using assms(2) by (simp add: refuses_def)
    then have "after (f x) (\<lambda>_ _. False) (\<lambda>e u. quiet w u \<and> (e = y \<or> \<not> good)) u"
      by (rule after_mono) (use assms(3) in auto)
    then show ?case using 1 by simp
  qed (use assms(3) in auto)
qed

lemma reads_seq:
  "reads w m x g \<Longrightarrow> (good \<Longrightarrow> g) \<Longrightarrow> reads w (f x) y good \<Longrightarrow> reads w (and_do m f) y good"
  by (rule reads_bind [of w m x g f y good good]) auto

lemma refuses_seq:
  "reads w m x g \<Longrightarrow> (good \<Longrightarrow> g) \<Longrightarrow> refuses w (f x) y good \<Longrightarrow> refuses w (and_do m f) y good"
  by (rule refuses_bind [of w m x g f y good good]) auto

lemma refuses_first: "refuses w m y good \<Longrightarrow> refuses w (and_do m f) y good"
  by (auto simp: refuses_def elim!: after_mono)

lemma reads_give [simp]: "reads w (give x) y good \<longleftrightarrow> x = y"
  unfolding reads_def after_give using quiet_refl [of w] by blast

lemma reads_give_same: "reads w (give x) x good"
  by simp

lemma reads_with_err [simp]: "reads w (with_err f m) x good \<longleftrightarrow> reads w m x good"
  by (simp add: reads_def)

lemma reads_io_err [simp]: "reads w (io_err operation path m) x good \<longleftrightarrow> reads w m x good"
  by (simp add: io_err_def)

lemma reads_err: "reads w m x good \<Longrightarrow> reads w (with_err f m) x good"
  by simp

lemma reads_io: "reads w m x good \<Longrightarrow> reads w (io_err operation path m) x good"
  by simp

lemma reads_stop: "\<not> good \<Longrightarrow> reads w (stop e) x good"
  by (simp add: reads_def)

lemma refuses_stop: "refuses w (stop e) e good"
  by (simp add: refuses_def)

lemma reads_weaken: "reads w m x g \<Longrightarrow> (good \<Longrightarrow> g) \<Longrightarrow> reads w m x good"
  by (auto simp: reads_def elim!: after_mono)

lemma reads_quiet: "reads w m x good \<Longrightarrow> quiet w v \<Longrightarrow> after m (\<lambda>y u. quiet w u \<and> y = x) (\<lambda>_ u. quiet w u \<and> \<not> good) v"
  by (simp add: reads_def)

subsection \<open>Kernel calls\<close>

lemma reads_kernel:
  assumes "\<And>u. quiet w u \<Longrightarrow> r u = r w" and "r w = Inr x \<or> (\<exists>e. r w = Inl e \<and> (good \<longrightarrow> \<not> calm w))" and "good \<Longrightarrow> calm w"
  shows "reads w (kernel (\<lambda>w. (r w, w))) x good"
  unfolding reads_def
proof (intro allI impI)
  fix v assume "quiet w v"
  then show "after (kernel (\<lambda>w. (r w, w))) (\<lambda>y u. quiet w u \<and> y = x) (\<lambda>_ u. quiet w u \<and> \<not> good) v"
  proof (rule after_read_from, goal_cases)
    case (1 u)
    then show ?case by (rule assms(1))
  next
    case (2 y u)
    then show ?case using assms(2) by auto
  next
    case (3 e u)
    then show ?case using assms(2,3) device_calm [of w e] by auto
  qed
qed

lemma reads_metadata: "at (w_tree w) p = Some n \<Longrightarrow> reads w (metadata p) (stat_of n) (calm w)"
  unfolding metadata_def by (rule reads_kernel) (auto simp: quiet_fields)

lemma reads_try_clone: "reads w (try_clone p) p (calm w)"
  unfolding try_clone_def by (rule reads_kernel) auto

lemma reads_open_stream:
  "at (w_tree w) p = Some n \<Longrightarrow> is_dir n \<Longrightarrow> reads w (open_stream p) (''.'' # ''..'' # map fst (children n)) (calm w)"
  unfolding open_stream_def by (rule reads_kernel) (auto simp: quiet_fields elim!: is_dir.elims)

lemma reads_next_name: "reads w (next_name names) (case names of [] \<Rightarrow> None | n # _ \<Rightarrow> Some n) (calm w)"
  unfolding next_name_def by (rule reads_kernel) auto

lemma reads_reserve: "reads w (reserve k) () (calm w)"
  unfolding reserve_def reads_with_err by (rule reads_kernel) auto

lemma reads_read_bytes:
  "at (w_tree w) p = Some (FileNode a bs) \<Longrightarrow> reads w (read_bytes p offset k) (take k (drop offset bs)) (calm w)"
  unfolding read_bytes_def by (rule reads_kernel) (auto simp: quiet_fields)

definition searchable :: "world \<Rightarrow> node \<Rightarrow> bool" where
  "searchable w n \<longleftrightarrow> allows w (at_mode (node_attributes n)) S_IXUSR"

definition readable :: "world \<Rightarrow> node \<Rightarrow> bool" where
  "readable w n \<longleftrightarrow> allows w (at_mode (node_attributes n)) S_IRUSR"

lemma directory_entry_cases:
  assumes "at (w_tree w) p = Some n" and "map_of (children n) c = Some k"
  shows "directory_entry S_IXUSR p c w = (if searchable w n then Inr k else Inl EACCES)"
  using assms by (cases n) (auto simp: directory_entry_def searchable_def grants_allows)

lemma reads_fstatat:
  assumes "at (w_tree w) p = Some n" and "map_of (children n) c = Some k"
  shows "reads w (fstatat_entry p c) (stat_of k) (calm w \<and> searchable w n)"
  unfolding fstatat_entry_def
  by (rule reads_kernel) (use directory_entry_cases [OF assms] quiet_directory_entry in auto)

lemma reads_open_directory:
  assumes "at (w_tree w) p = Some n" and "map_of (children n) c = Some k" and "is_dir k" and "c \<noteq> ''.''" "c \<noteq> ''..''"
  shows "reads w (open_directory_at p c) (p @ [c]) (calm w \<and> searchable w n \<and> readable w k)"
  unfolding open_directory_at_def
proof (rule reads_kernel, goal_cases)
  case (1 u)
  then show ?case using assms(4,5) quiet_directory_entry [OF 1] quiet_grants [OF 1] by (simp cong: node.case_cong)
qed (use assms directory_entry_cases [OF assms(1,2)] in \<open>auto simp: resolve_def grants_allows readable_def is_dir.simps split: node.splits\<close>)

lemma reads_open_self:
  assumes "at (w_tree w) p = Some n" and "is_dir n"
  shows "reads w (open_directory_at p ''.'') p (calm w \<and> readable w n)"
  unfolding open_directory_at_def
proof (rule reads_kernel, goal_cases)
  case (1 u)
  then show ?case using quiet_grants [OF 1] by (simp add: quiet_fields [OF 1] cong: node.case_cong)
qed (use assms in \<open>auto simp: resolve_def grants_allows readable_def split: node.splits\<close>)

lemma reads_open_file:
  assumes "at (w_tree w) p = Some n" and "map_of (children n) c = Some (FileNode a bs)"
  shows "reads w (open_file_at p c) (p @ [c]) (calm w \<and> searchable w n \<and> readable w (FileNode a bs))"
  unfolding open_file_at_def
proof (rule reads_kernel, goal_cases)
  case (1 u)
  then show ?case using quiet_directory_entry [OF 1] quiet_grants [OF 1] by (simp cong: node.case_cong)
qed (use directory_entry_cases [OF assms] in \<open>auto simp: grants_allows readable_def\<close>)

lemma reads_read_link:
  assumes "at (w_tree w) p = Some n" and "map_of (children n) c = Some (LinkNode a t)"
  shows "reads w (read_link p c k) (take k t) (calm w \<and> searchable w n)"
  unfolding read_link_def
proof (rule reads_kernel, goal_cases)
  case (1 u)
  then show ?case using quiet_directory_entry [OF 1] by (simp cong: node.case_cong)
qed (use directory_entry_cases [OF assms] in auto)

subsection \<open>Pinned directories\<close>

definition pinned :: "world \<Rightarrow> pinned_directory \<Rightarrow> node \<Rightarrow> bool" where
  "pinned w d n \<longleftrightarrow> at (w_tree w) (pd_directory d) = Some n \<and> is_dir n \<and> pd_before d = stat_of n"

definition entry_of :: "string \<times> node \<Rightarrow> directory_entry" where
  "entry_of c = \<lparr>de_name = fst c, de_stat = stat_of (snd c)\<rparr>"

lemma entry_of_simps [simp]: "de_name (entry_of c) = fst c" "de_stat (entry_of c) = stat_of (snd c)"
  by (simp_all add: entry_of_def)

lemma stat_kind_cases:
  "st_kind (stat_of n) = KindDirectory \<longleftrightarrow> is_dir n"
  "st_kind (stat_of (FileNode a bs)) = KindFile" "st_kind (stat_of (LinkNode a t)) = KindSymlink"
  by (cases n) (simp_all add: stat_of_def)

lemma reads_verify_unchanged: "pinned w d n \<Longrightarrow> reads w (verify_unchanged d) () (calm w)"
  unfolding verify_unchanged_def verify_open_entry_def
  by (rule reads_seq [OF reads_io [OF reads_metadata]]) (auto simp: pinned_def Let_def stat_kind_cases)

lemma reads_verify_stat: "reads w (verify_stat s s path) () good"
  by (simp add: verify_stat_def)

lemma reads_read_entries:
  assumes d: "pinned w d n" and names: "\<And>c k. (c, k) \<in> set cs \<Longrightarrow> map_of (children n) c = Some k \<and> c \<noteq> ''.'' \<and> c \<noteq> ''..''"
  shows "reads w (read_entries d maximum (map fst cs) es) (es @ map entry_of cs)
    (calm w \<and> (cs = [] \<or> searchable w n) \<and> length es + length cs \<le> maximum)"
  using names
proof (induction cs arbitrary: es)
  case Nil
  then show ?case
    by (auto intro!: reads_seq [OF reads_io [OF reads_next_name]])
next
  case (Cons ck cs)
  obtain c k where ck: "ck = (c, k)" by force
  have c: "map_of (children n) c = Some k" "c \<noteq> ''.''" "c \<noteq> ''..''" using Cons.prems ck by auto
  have at: "at (w_tree w) (pd_directory d) = Some n" using d by (simp add: pinned_def)
  have rest: "reads w (read_entries d maximum (map fst cs) (es @ [entry_of ck])) ((es @ [entry_of ck]) @ map entry_of cs)
      (calm w \<and> (cs = [] \<or> searchable w n) \<and> length (es @ [entry_of ck]) + length cs \<le> maximum)"
    by (rule Cons.IH) (use Cons.prems in auto)
  show ?case
    unfolding ck list.map fst_conv read_entries.simps
    by (rule reads_seq [OF reads_io [OF reads_next_name]], simp)
      (use c rest in \<open>auto simp: ck entry_of_def intro!: reads_stop reads_seq [OF reads_err [OF reads_fstatat [OF at c(1)]]] elim!: reads_weaken\<close>)
qed

lemma tree_ok_names:
  assumes "tree_ok w" and "at (w_tree w) p = Some n" and "(c, k) \<in> set (children n)"
  shows "map_of (children n) c = Some k" "name_ok c"
proof -
  have "node_ok n" using assms(1,2) node_ok_at by (simp add: tree_ok_def)
  then show "map_of (children n) c = Some k" "name_ok c" using assms(3) by (cases n; auto simp: list_all_iff)+
qed

definition listing :: "node \<Rightarrow> (string \<times> node) list" where
  "listing n = sort_key fst (children n)"

lemma sort_map: "sort_key f (map g xs) = map g (sort_key (f \<circ> g) xs)"
proof (induction xs)
  case (Cons x xs)
  have "insort_key f (g x) (map g ys) = map g (insort_key (\<lambda>a. f (g a)) x ys)" for ys
    by (induction ys) auto
  then show ?case using Cons by (simp add: comp_def)
qed simp

lemma reads_entries_bounded:
  assumes ok: "tree_ok w" and d: "pinned w d n"
  shows "reads w (entries_bounded d maximum) (map entry_of (listing n))
    (calm w \<and> readable w n \<and> searchable w n \<and> length (children n) \<le> maximum)"
proof -
  have at: "at (w_tree w) (pd_directory d) = Some n" and dir: "is_dir n" using d by (simp_all add: pinned_def)
  have "reads w (read_entries d maximum (map fst (children n)) []) ([] @ map entry_of (children n))
      (calm w \<and> (children n = [] \<or> searchable w n) \<and> length ([] :: directory_entry list) + length (children n) \<le> maximum)"
    by (rule reads_read_entries [OF d]) (use tree_ok_names [OF ok at] name_ok_dots in auto)
  then have step: "reads w (read_entries d maximum (''.'' # ''..'' # map fst (children n)) []) (map entry_of (children n)) (calm w \<and> searchable w n \<and> length (children n) \<le> maximum)"
    by (auto intro!: reads_seq [OF reads_io [OF reads_next_name]] elim!: reads_weaken)
  have sorted: "sort_key de_name (map entry_of (children n)) = map entry_of (listing n)"
    by (simp add: sort_map listing_def comp_def)
  show ?thesis
    unfolding entries_bounded_def
    by (rule reads_seq [OF reads_verify_unchanged [OF d]], simp,
        rule reads_seq [OF reads_io [OF reads_open_self [OF at dir]]], simp,
        rule reads_seq [OF reads_io [OF reads_open_stream [OF at dir]]], simp,
        rule reads_seq [OF step], simp, rule reads_seq [OF reads_verify_unchanged [OF d]], simp)
      (simp add: sorted)
qed

subsection \<open>Entries of a pinned directory\<close>

lemma reads_pinned_directory_of:
  assumes "at (w_tree w) (dr_directory root) = Some n"
  shows "reads w (pinned_directory_of root)
    \<lparr>pd_directory = dr_directory root, pd_path = dr_path root, pd_before = stat_of n\<rparr> (calm w)"
  unfolding pinned_directory_of_def
  by (rule reads_seq [OF reads_io [OF reads_try_clone]], simp, rule reads_seq [OF reads_io [OF reads_metadata [OF assms]]], simp) simp

lemma reads_verify_entry:
  assumes "pinned w d n" and "map_of (children n) c = Some k"
  shows "reads w (verify_entry d (entry_of (c, k))) () (calm w \<and> searchable w n)"
  using assms unfolding verify_entry_def Let_def
  by (auto simp: pinned_def intro!: reads_seq [OF reads_err [OF reads_fstatat]])

lemma at_pinned_child:
  "pinned w d n \<Longrightarrow> map_of (children n) c = Some k \<Longrightarrow> at (w_tree w) (pd_directory d @ [c]) = Some k"
  by (auto simp: pinned_def at_append split: option.splits)

lemma reads_pd_open:
  assumes d: "pinned w d n" and c: "map_of (children n) c = Some k" "name_ok c" and k: "is_dir k"
  shows "reads w (open_directory d (entry_of (c, k)))
    \<lparr>pd_directory = pd_directory d @ [c], pd_path = pd_path d @ [c], pd_before = stat_of k\<rparr> (calm w \<and> searchable w n \<and> readable w k)"
proof -
  have at: "at (w_tree w) (pd_directory d) = Some n" using d by (simp add: pinned_def)
  have kind: "\<not> st_kind (stat_of k) \<noteq> KindDirectory" using k by (simp add: stat_kind_cases)
  have dots: "c \<noteq> ''.''" "c \<noteq> ''..''" using name_ok_dots [OF c(2)] by auto
  show ?thesis
    unfolding open_directory_def Let_def entry_of_simps fst_conv snd_conv if_not_P [OF kind]
    by (rule reads_seq [OF reads_err [OF reads_open_directory [OF at c(1) k dots]]], simp,
        rule reads_seq [OF reads_io [OF reads_metadata [OF at_pinned_child [OF d c(1)]]]], simp,
        rule reads_seq [OF reads_verify_stat]) auto
qed

lemma reads_read_chunks:
  assumes at: "at (w_tree w) fd = Some (FileNode a bs)"
  shows "n \<le> length bs \<Longrightarrow> reads w (read_chunks fd path remaining (take n bs)) (take (n + remaining) bs) (calm w)"
proof (induction remaining arbitrary: n rule: less_induct)
  case (less remaining)
  show ?case
  proof (cases "remaining = 0")
    case False
    let ?k = "min remaining READ_CHUNK"
    let ?c = "take ?k (drop n bs)"
    have rest: "reads w (if ?c = [] then give (take n bs) else and_do (with_err f (reserve (length ?c)))
        (\<lambda>_. read_chunks fd path (remaining - length ?c) (take n bs @ ?c))) (take (n + remaining) bs) (calm w)" for f
    proof (cases "?c = []")
      case True
      then have "length bs \<le> n" using False by (auto simp: READ_CHUNK_def)
      then show ?thesis using True by simp
    next
      case False
      have "reads w (read_chunks fd path (remaining - length ?c) (take (n + length ?c) bs)) (take (n + length ?c + (remaining - length ?c)) bs) (calm w)"
        by (rule less.IH) (use False less.prems in auto)
      moreover have "take n bs @ ?c = take (n + length ?c) bs"
        by (simp add: take_add [symmetric]) (simp add: min_def)
      moreover have "n + length ?c + (remaining - length ?c) = n + remaining" by auto
      ultimately show ?thesis
        using False by (auto intro!: reads_seq [OF reads_err [OF reads_reserve]])
    qed
    show ?thesis
      using less.prems False rest
      by (subst read_chunks.simps) (auto intro!: reads_seq [OF reads_io [OF reads_read_bytes [OF at]]])
  qed (subst read_chunks.simps, simp)
qed

definition read_of :: "node \<Rightarrow> read_file" where
  "read_of n = \<lparr>rf_bytes = (case n of FileNode _ bs \<Rightarrow> bs | _ \<Rightarrow> []), rf_mode = at_mode (node_attributes n)\<rparr>"

lemma unat_of_nat64: "length bs < 2 ^ 64 \<Longrightarrow> unat (of_nat (length bs) :: u64) = length bs"
  by (simp add: unat_of_nat)

lemma reads_open_regular_file:
  assumes at: "at (w_tree w) fd = Some (FileNode a bs)" and small: "length bs \<le> unat maximum"
  shows "reads w (read_open_regular_file fd (stat_of (FileNode a bs)) maximum path) (bs, stat_of (FileNode a bs)) (calm w)"
proof -
  have len: "(of_nat (length bs) :: u64) \<le> maximum" "unat (of_nat (length bs) :: u64) = length bs"
    using small unat_of_nat64 [of bs] unat_lt_bounds(4) [of maximum] by (auto simp: word_le_nat_alt)
  have "unat maximum \<le> unat (saturating_add maximum 1)"
    using unat_lt_bounds(4) [of maximum]
    by (simp add: saturating_add_def unat_word_ariths unsigned_minus_1_eq_mask mask_eq_exp_minus_1)
  then have "length bs \<le> unat (saturating_add maximum 1)" using small by simp
  then have chunks: "reads w (read_chunks fd path (unat (saturating_add maximum 1)) []) bs (calm w)"
    using reads_read_chunks [OF at, of 0 path "unat (saturating_add maximum 1)"] by simp
  have conds: "\<not> st_kind (stat_of (FileNode a bs)) \<noteq> KindFile" "\<not> maximum < st_size (stat_of (FileNode a bs))"
    "\<not> maximum < (of_nat (length bs) :: u64)"
    using len by (simp_all add: stat_of_def)
  show ?thesis
    unfolding read_open_regular_file_def if_not_P [OF conds(1)] if_not_P [OF conds(2)] Let_def
    by (rule reads_seq [OF reads_err [OF reads_reserve]], simp, rule reads_seq [OF chunks], simp,
        unfold if_not_P [OF conds(3)], rule reads_seq [OF reads_io [OF reads_metadata [OF at]]], simp)
      (simp add: stat_of_def)
qed

lemma reads_verify_named:
  assumes "at (w_tree w) p = Some n" and "map_of (children n) c = Some k"
  shows "reads w (verify_named_entry p c (stat_of k) path) () (calm w \<and> searchable w n)"
  unfolding verify_named_entry_def
  by (rule reads_seq [OF reads_err [OF reads_fstatat [OF assms]]], simp, rule reads_verify_stat)

lemma reads_regular_file:
  assumes d: "pinned w d n" and c: "map_of (children n) c = Some (FileNode a bs)" and small: "length bs \<le> unat maximum"
  shows "reads w (read_regular_file d (entry_of (c, FileNode a bs)) maximum) (read_of (FileNode a bs))
    (calm w \<and> searchable w n \<and> readable w (FileNode a bs))"
proof -
  have at: "at (w_tree w) (pd_directory d) = Some n" using d by (simp add: pinned_def)
  have kind: "\<not> st_kind (stat_of (FileNode a bs)) \<noteq> KindFile" by (simp add: stat_kind_cases)
  show ?thesis
    unfolding read_regular_file_def Let_def entry_of_simps fst_conv snd_conv if_not_P [OF kind]
    by (rule reads_seq [OF reads_err [OF reads_open_file [OF at c]]], simp,
        rule reads_seq [OF reads_io [OF reads_metadata [OF at_pinned_child [OF d c]]]], simp,
        rule reads_seq [OF reads_verify_stat], simp,
        rule reads_seq [OF reads_open_regular_file [OF at_pinned_child [OF d c] small]], simp,
        unfold prod.case, rule reads_seq [OF reads_verify_named [OF at c]], simp) (simp add: read_of_def stat_of_def)
qed

lemma refuses_read_open:
  assumes "length bs > unat maximum" and "length bs \<le> MAX_FILE_LEN"
  shows "refuses w (read_open_regular_file fd (stat_of (FileNode a bs)) maximum path) (FileTooLarge path (of_nat (length bs)) maximum) good"
proof -
  have "(of_nat (length bs) :: u64) > maximum"
    using assms unat_of_nat64 [of bs] by (auto simp: word_less_nat_alt MAX_FILE_LEN_def)
  then show ?thesis by (simp add: read_open_regular_file_def stat_of_def refuses_stop)
qed

lemma refuses_regular_file:
  assumes ok: "tree_ok w" and d: "pinned w d n" and c: "map_of (children n) c = Some (FileNode a bs)" and big: "length bs > unat maximum"
  shows "refuses w (read_regular_file d (entry_of (c, FileNode a bs)) maximum)
    (FileTooLarge (pd_path d @ [c]) (of_nat (length bs)) maximum) (calm w \<and> searchable w n \<and> readable w (FileNode a bs))"
proof -
  have at: "at (w_tree w) (pd_directory d) = Some n" using d by (simp add: pinned_def)
  have kind: "\<not> st_kind (stat_of (FileNode a bs)) \<noteq> KindFile" by (simp add: stat_kind_cases)
  have "length bs \<le> MAX_FILE_LEN"
    using ok node_ok_at at_pinned_child [OF d c] by (fastforce simp: tree_ok_def)
  then show ?thesis
    unfolding read_regular_file_def Let_def entry_of_simps fst_conv snd_conv if_not_P [OF kind]
    by (rule_tac refuses_seq [OF reads_err [OF reads_open_file [OF at c]]], simp,
        rule_tac refuses_seq [OF reads_io [OF reads_metadata [OF at_pinned_child [OF d c]]]], simp,
        rule_tac refuses_seq [OF reads_verify_stat], simp, rule_tac refuses_first [OF refuses_read_open [OF big]])
qed

lemma reads_read_link_loop:
  assumes at: "at (w_tree w) p = Some n" and c: "map_of (children n) c = Some (LinkNode a t)"
  shows "256 \<le> capacity \<Longrightarrow> reads w (read_link_loop p c (stat_of (LinkNode a t)) path capacity) t
    (calm w \<and> searchable w n \<and> length t < MAX_SYMLINK_TARGET_BYTES)"
proof (induction "MAX_SYMLINK_TARGET_BYTES - capacity" arbitrary: capacity rule: less_induct)
  case less
  let ?good = "calm w \<and> searchable w n \<and> length t < MAX_SYMLINK_TARGET_BYTES"
  have whole: "reads w (and_do (with_err f (fstatat_entry p c)) (\<lambda>s. if \<not> same_stat (stat_of (LinkNode a t)) s then stop e else give (take capacity t))) t ?good"
    if "length t < capacity" for f :: "io_error \<Rightarrow> fs_error" and e
    by (rule reads_seq [OF reads_err [OF reads_fstatat [OF at c]]]) (use that in auto)
  have more: "reads w (read_link_loop p c (stat_of (LinkNode a t)) path (min (capacity * 2) MAX_SYMLINK_TARGET_BYTES)) t ?good"
    if "capacity < MAX_SYMLINK_TARGET_BYTES"
    by (rule less.hyps) (use that less.prems in \<open>auto simp: MAX_SYMLINK_TARGET_BYTES_def\<close>)
  show ?case
    by (subst read_link_loop.simps, rule reads_seq [OF reads_err [OF reads_reserve]], simp,
        rule reads_seq [OF reads_err [OF reads_read_link [OF at c]]], simp)
      (use whole more less.prems in \<open>auto intro!: reads_stop\<close>)
qed

lemma reads_symlink:
  assumes d: "pinned w d n" and c: "map_of (children n) c = Some (LinkNode a t)"
  shows "reads w (read_symlink d (entry_of (c, LinkNode a t))) t (calm w \<and> searchable w n \<and> length t < MAX_SYMLINK_TARGET_BYTES)"
proof -
  have at: "at (w_tree w) (pd_directory d) = Some n" using d by (simp add: pinned_def)
  have kind: "\<not> st_kind (stat_of (LinkNode a t)) \<noteq> KindSymlink" by (simp add: stat_kind_cases)
  show ?thesis
    unfolding read_symlink_def Let_def entry_of_simps fst_conv snd_conv if_not_P [OF kind] read_link_at_def
    by (rule reads_read_link_loop [OF at c]) (simp add: MAX_SYMLINK_TARGET_BYTES_def)
qed

subsection \<open>When the size limit is reported\<close>

definition limits :: "world \<Rightarrow> 'a fs \<Rightarrow> fs_error set \<Rightarrow> bool" where
  \<comment> \<open>an error about the size of a file is one of \<open>X\<close>\<close>
  "limits w m X \<longleftrightarrow>
     (\<forall>v. quiet w v \<longrightarrow> after m (\<lambda>_ _. True) (\<lambda>e _. (\<exists>p a b. e = FileTooLarge p a b) \<longrightarrow> e \<in> X) v)"

lemma limits_seq:
  assumes "reads w m x g" and "limits w m X" and "limits w (f x) X"
  shows "limits w (and_do m f) X"
  unfolding limits_def after_and_do
proof (intro allI impI)
  fix v assume v: "quiet w v"
  have "after m (\<lambda>y u. (quiet w u \<and> y = x) \<and> True) (\<lambda>e u. (quiet w u \<and> \<not> g) \<and> ((\<exists>p a b. e = FileTooLarge p a b) \<longrightarrow> e \<in> X)) v"
    by (rule after_conj) (use assms(1,2) v in \<open>simp_all add: reads_def limits_def\<close>)
  then show "after m (\<lambda>y. after (f y) (\<lambda>_ _. True) (\<lambda>e _. (\<exists>p a b. e = FileTooLarge p a b) \<longrightarrow> e \<in> X))
      (\<lambda>e _. (\<exists>p a b. e = FileTooLarge p a b) \<longrightarrow> e \<in> X) v"
    by (rule after_mono) (use assms(3) in \<open>auto simp: limits_def\<close>)
qed

lemma limits_refused:
  assumes "refuses w m x g" and "limits w m X"
  shows "limits w (and_do m f) X"
  unfolding limits_def after_and_do
proof (intro allI impI)
  fix v assume v: "quiet w v"
  have "after m (\<lambda>_ _. False \<and> True) (\<lambda>e u. (quiet w u \<and> (e = x \<or> \<not> g)) \<and> ((\<exists>p a b. e = FileTooLarge p a b) \<longrightarrow> e \<in> X)) v"
    by (rule after_conj) (use assms v in \<open>simp_all add: refuses_def limits_def\<close>)
  then show "after m (\<lambda>y. after (f y) (\<lambda>_ _. True) (\<lambda>e _. (\<exists>p a b. e = FileTooLarge p a b) \<longrightarrow> e \<in> X))
      (\<lambda>e _. (\<exists>p a b. e = FileTooLarge p a b) \<longrightarrow> e \<in> X) v"
    by (rule after_mono) auto
qed

lemma limits_with_err: "(\<And>e p a b. f e \<noteq> FileTooLarge p a b) \<Longrightarrow> limits w (with_err f m) X"
  by (auto simp: limits_def intro: after_okI)

lemma limits_io_err: "limits w (io_err operation path m) X"
  unfolding io_err_def by (rule limits_with_err) simp

lemma limits_give [simp]: "limits w (give x) X"
  by (simp add: limits_def)

lemma limits_stop [simp]: "limits w (stop e) X \<longleftrightarrow> (\<exists>p a b. e = FileTooLarge p a b) \<longrightarrow> e \<in> X"
  unfolding limits_def after_stop using quiet_refl [of w] by blast

lemmas limits_err_seq = limits_seq [OF reads_err limits_with_err]
lemmas limits_io_seq = limits_seq [OF reads_io limits_io_err]

lemma limits_read_chunks:
  assumes at: "at (w_tree w) fd = Some (FileNode a bs)"
  shows "limits w (read_chunks fd path remaining bytes) X"
proof (induction remaining arbitrary: bytes rule: less_induct)
  case (less remaining)
  let ?k = "min remaining READ_CHUNK"
  let ?c = "take ?k (drop (length bytes) bs)"
  show ?case
  proof (cases "remaining = 0 \<or> ?c = []")
    case True
    then show ?thesis
      by (subst read_chunks.simps) (auto intro!: limits_io_seq [OF reads_read_bytes [OF at]])
  next
    case False
    then have "limits w (read_chunks fd path (remaining - length ?c) (bytes @ ?c)) X"
      by (intro less) auto
    then have "limits w (and_do (with_err (\<lambda>_. AllocationFailed path n) (reserve (length ?c)))
        (\<lambda>_. read_chunks fd path (remaining - length ?c) (bytes @ ?c))) X" for n
      by (rule limits_err_seq [OF reads_reserve, rotated]) simp
    then show ?thesis
      using False by (subst read_chunks.simps) (simp, rule limits_io_seq [OF reads_read_bytes [OF at]], simp)
  qed
qed

lemma changed_or_io_limit: "changed_or_io operation path e \<noteq> FileTooLarge p a b"
  by (simp add: changed_or_io_def)

lemma limits_verify_stat: "limits w (verify_stat s t path) X"
  by (simp add: verify_stat_def)

lemma limits_read_open:
  assumes at: "at (w_tree w) fd = Some (FileNode a bs)" and len: "length bs \<le> MAX_FILE_LEN"
  shows "limits w (read_open_regular_file fd (stat_of (FileNode a bs)) maximum path)
    (if length bs > unat maximum then {FileTooLarge path (of_nat (length bs)) maximum} else {})"
proof (cases "length bs > unat maximum")
  case True
  then have "(of_nat (length bs) :: u64) > maximum"
    using len unat_of_nat64 [of bs] by (auto simp: word_less_nat_alt MAX_FILE_LEN_def)
  then show ?thesis using True by (simp add: read_open_regular_file_def stat_of_def)
next
  case False
  then have small: "length bs \<le> unat maximum" by simp
  have "unat maximum \<le> unat (saturating_add maximum 1)"
    using unat_lt_bounds(4) [of maximum]
    by (simp add: saturating_add_def unat_word_ariths unsigned_minus_1_eq_mask mask_eq_exp_minus_1)
  then have chunks: "reads w (read_chunks fd path (unat (saturating_add maximum 1)) []) bs (calm w)"
    using small reads_read_chunks [OF at, of 0 path "unat (saturating_add maximum 1)"] by simp
  have le: "(of_nat (length bs) :: u64) \<le> maximum"
    using small unat_of_nat64 [of bs] unat_lt_bounds(4) [of maximum] by (auto simp: word_le_nat_alt)
  have conds: "\<not> st_kind (stat_of (FileNode a bs)) \<noteq> KindFile" "\<not> maximum < st_size (stat_of (FileNode a bs))"
    "\<not> maximum < (of_nat (length bs) :: u64)" "\<not> unat maximum < length bs"
    using le small by (simp_all add: stat_of_def)
  show ?thesis
    unfolding read_open_regular_file_def if_not_P [OF conds(1)] if_not_P [OF conds(2)] if_not_P [OF conds(4)] Let_def
    by (rule limits_err_seq [OF reads_reserve], simp, rule limits_seq [OF chunks limits_read_chunks [OF at]],
        unfold if_not_P [OF conds(3)], rule limits_io_seq [OF reads_metadata [OF at]])
      simp
qed

lemma limits_regular_file:
  assumes ok: "tree_ok w" and d: "pinned w d n" and c: "map_of (children n) c = Some (FileNode a bs)"
  shows "limits w (read_regular_file d (entry_of (c, FileNode a bs)) maximum)
    (if length bs > unat maximum then {FileTooLarge (pd_path d @ [c]) (of_nat (length bs)) maximum} else {})"
proof -
  have at: "at (w_tree w) (pd_directory d) = Some n" using d by (simp add: pinned_def)
  have kind: "\<not> st_kind (stat_of (FileNode a bs)) \<noteq> KindFile" by (simp add: stat_kind_cases)
  have len: "length bs \<le> MAX_FILE_LEN"
    using ok node_ok_at at_pinned_child [OF d c] by (fastforce simp: tree_ok_def)
  let ?X = "if length bs > unat maximum then {FileTooLarge (pd_path d @ [c]) (of_nat (length bs)) maximum} else {}"
  have tail: "limits w (case x of (bytes, meta) \<Rightarrow> and_do (verify_named_entry (pd_directory d) c meta (pd_path d @ [c]))
      (\<lambda>_. give \<lparr>rf_bytes = bytes, rf_mode = st_mode meta\<rparr>)) ?X"
    if "x = (bs, stat_of (FileNode a bs))" for x
    unfolding that prod.case
    by (rule limits_seq [OF reads_verify_named [OF at c]])
      (auto simp: verify_named_entry_def intro!: limits_err_seq [OF reads_fstatat [OF at c]] limits_verify_stat)
  have body: "limits w (and_do (read_open_regular_file (pd_directory d @ [c]) (stat_of (FileNode a bs)) maximum (pd_path d @ [c]))
      (\<lambda>(bytes, meta). and_do (verify_named_entry (pd_directory d) c meta (pd_path d @ [c]))
        (\<lambda>_. give \<lparr>rf_bytes = bytes, rf_mode = st_mode meta\<rparr>))) ?X"
    using limits_read_open [OF at_pinned_child [OF d c] len, of maximum "pd_path d @ [c]"]
      reads_open_regular_file [OF at_pinned_child [OF d c], of maximum "pd_path d @ [c]"] tail
      refuses_read_open [OF _ len, of maximum w "pd_directory d @ [c]" a "pd_path d @ [c]" True]
    by (cases "length bs > unat maximum") (auto intro: limits_seq limits_refused)
  show ?thesis
    unfolding read_regular_file_def Let_def entry_of_simps fst_conv snd_conv if_not_P [OF kind]
    by (rule limits_err_seq [OF reads_open_file [OF at c]], simp add: changed_or_io_limit,
        rule limits_io_seq [OF reads_metadata [OF at_pinned_child [OF d c]]],
        rule limits_seq [OF reads_verify_stat limits_verify_stat], rule body)
qed

end
