(* ===== verification/Scan_Spec.thy ===== *)
theory Scan_Spec
  imports Scan File_Observe
begin

section \<open>What a scan finds\<close>

text \<open>
  A scan of a tree that does not change is compared with \<open>survey\<close>, which walks the tree itself.
  \<open>scanned\<close> relates the states before and after: the findings appended to the two lists, the
  world's tree unchanged, and the store grown by the objects of the files found.
\<close>

subsection \<open>Storing contents\<close>

definition store_grown :: "'j env \<Rightarrow> 'j store \<Rightarrow> 'j store \<Rightarrow> bool" where
  \<comment> \<open>what could be loaded still can\<close>
  "store_grown env st st' \<longleftrightarrow> st_writer st' = st_writer st \<and> (index_ok env st \<longrightarrow> index_ok env st')
     \<and> (\<forall>i bs. holds_object (env_hash env) (st_files st) i bs \<longrightarrow> holds_object (env_hash env) (st_files st') i bs)"

definition store_accepts :: "'j env \<Rightarrow> u8 list set \<Rightarrow> 'j store \<Rightarrow> bool" where
  \<comment> \<open>the contents \<open>K\<close> fit, have different digests, and what the directory already has under
     these digests is intact\<close>
  "store_accepts env K st \<longleftrightarrow> st_writer st \<and> index_ok env st \<and> inj_on (env_hash env) K
     \<and> (\<forall>bs \<in> K. HEADER_LEN + length bs < 2 ^ 63 \<and>
          (st_files st (path_for (ObjectId (env_hash env bs))) = None
           \<or> holds_object (env_hash env) (st_files st) (ObjectId (env_hash env bs)) bs))"

lemma store_grown_refl [simp]: "store_grown env st st"
  by (simp add: store_grown_def)

lemma store_grown_trans: "store_grown env a b \<Longrightarrow> store_grown env b c \<Longrightarrow> store_grown env a c"
  by (simp add: store_grown_def)

lemma put_object_grown:
  assumes "hash_ok (env_hash env)" and put: "put_object env st bs created = (st', r)"
  shows "store_grown env st st'"
proof -
  have "st_writer st' = st_writer st
    \<and> (\<forall>i cs. holds_object (env_hash env) (st_files st) i cs \<longrightarrow> holds_object (env_hash env) (st_files st') i cs)"
    using put holds_object_mono
    by (auto simp: put_object_eq_import import_object_def finish_put_def split: if_splits sum.splits prod.splits)
  then show ?thesis using put_object_index_ok [OF _ assms] by (auto simp: store_grown_def)
qed

lemma put_object_Inr:
  "put_object env st bs created = (st', Inr so) \<Longrightarrow>
    so = stored_metadata (ObjectId (env_hash env bs)) bs \<and> holds_object (env_hash env) (st_files st') (ObjectId (env_hash env bs)) bs"
  using import_object_Inr by (fastforce simp: put_object_eq_import split: if_splits)

lemma record_object_accepts:
  assumes h: "hash_ok (env_hash env)" and ix: "index_ok env st" and i: "i = ObjectId (env_hash env bs)"
    and put: "put_verified (env_hash env) (st_files st) i bs = Inr (files, so)" and len: "HEADER_LEN + length bs < 2 ^ 63"
  shows "\<exists>db'. record_object (st_db st) so created = Inr db'"
proof -
  have holds: "holds_object (env_hash env) files i bs" and so: "so = stored_metadata i bs"
    using put by (simp_all add: put_verified_Inr_iff)
  have sizes: "uint (so_logical_size so) = int (length bs)" "uint (so_stored_size so) = int (HEADER_LEN + length bs)"
    using sizes_uint [OF holds] by (simp_all add: so)
  have iok: "object_id_ok i" using h by (simp add: i object_id_ok_def hash_ok_def)
  have width: "length (object_id_text i) = 64" using iok by (cases i) (simp add: object_id_text_def object_id_ok_def)
  show ?thesis
  proof (cases "object_id_text i \<in> ob_id ` set (tb_objects (st_db st))")
    case True
    then obtain r where sel: "select_row ob_id (object_id_text i) (tb_objects (st_db st)) = Some r"
      by (metis not_Some_eq select_row_None)
    then have "r \<in> set (tb_objects (st_db st))" "ob_id r = object_id_text i" by (auto dest: select_row_Some)
    then obtain cs where cs: "holds_object (env_hash env) (st_files st) i cs" "ob_logical_size r = int (length cs)"
      "ob_stored_size r = int (HEADER_LEN + length cs)" "ob_compression r = ''none''"
      using ix iok object_id_form.display_inj by (fastforce simp: index_ok_def object_indexed_def)
    then have "cs = bs" using holds_object_mono [OF put] holds holds_object_unique by blast
    then show ?thesis
      using True sel cs sizes len width
      by (auto simp: record_object_def so stored_metadata_def sql_u64_def insert_object_or_ignore_def)
  next
    case False
    then have "select_row ob_id (object_id_text i) (tb_objects (st_db st)) = None" by (simp add: select_row_None)
    then show ?thesis
      using False sizes len width
      by (auto simp: record_object_def so stored_metadata_def sql_u64_def insert_object_or_ignore_def insert_object_def select_row_append)
  qed
qed

lemma put_object_accepts:
  assumes h: "hash_ok (env_hash env)" and ok: "store_accepts env K st" and bs: "bs \<in> K"
  shows "\<exists>st' so. put_object env st bs created = (st', Inr so) \<and> store_accepts env K st'"
proof -
  let ?i = "ObjectId (env_hash env bs)"
  have len: "HEADER_LEN + length bs < 2 ^ 63"
    and free: "st_files st (path_for ?i) = None \<or> holds_object (env_hash env) (st_files st) ?i bs"
    using ok bs by (auto simp: store_accepts_def)
  obtain files so where put: "put_verified (env_hash env) (st_files st) ?i bs = Inr (files, so)"
  proof -
    let ?files = "(st_files st)(path_for ?i \<mapsto> envelope_header (of_nat (length bs)) @ bs)"
    have "holds_object (env_hash env) ?files ?i bs" using len by (simp add: holds_object_def)
    then show thesis
      using free that [of "st_files st" "stored_metadata ?i bs"] that [of ?files "stored_metadata ?i bs"]
      by (auto simp: put_verified_Inr_iff)
  qed
  obtain db where "record_object (st_db st) so created = Inr db"
    using record_object_accepts [OF h _ refl put len] ok by (auto simp: store_accepts_def)
  then have res: "put_object env st bs created = (st\<lparr>st_files := files, st_db := db\<rparr>, Inr so)"
    using put ok by (simp add: put_object_def store_accepts_def require_writer_def finish_put_def object_put_def object_id_digest_def)
  have "store_accepts env K (st\<lparr>st_files := files, st_db := db\<rparr>)"
    unfolding store_accepts_def
  proof (intro conjI ballI, goal_cases)
    case 2
    show ?case using put_object_index_ok [OF _ h res] ok by (simp add: store_accepts_def)
  next
    case (5 cs)
    have old: "st_files st (path_for (ObjectId (env_hash env cs))) = None
        \<or> holds_object (env_hash env) (st_files st) (ObjectId (env_hash env cs)) cs"
      using ok 5 by (auto simp: store_accepts_def)
    show ?case
    proof (cases "cs = bs")
      case True
      then show ?thesis using put by (simp add: put_verified_Inr_iff)
    next
      case False
      then have "env_hash env cs \<noteq> env_hash env bs" using ok bs 5 by (auto simp: store_accepts_def inj_on_def)
      then show ?thesis using old holds_object_mono [OF put] put by (auto simp: put_verified_Inr_iff)
    qed
  qed (use ok in \<open>auto simp: store_accepts_def\<close>)
  then show ?thesis using res by blast
qed

subsection \<open>The survey of a tree\<close>

datatype finding = Found snapshot_path node | Omitted exclusion

lemma child_smaller: "(c, k) \<in> set (listing n) \<Longrightarrow> size k < size n"
proof -
  assume "(c, k) \<in> set (listing n)"
  then obtain a cs where n: "n = DirNode a cs" and m: "(c, k) \<in> set cs" by (cases n) (auto simp: listing_def)
  from m have "size k < Suc (size_list (size_prod (\<lambda>_. 0) size) cs)"
    by (induction cs) auto
  then show ?thesis by (simp add: n)
qed

function survey :: "scan_options \<Rightarrow> string \<Rightarrow> node \<Rightarrow> finding list"
  and survey_entry :: "scan_options \<Rightarrow> snapshot_path \<Rightarrow> node \<Rightarrow> finding list" where
  "survey options r n = concat (map (\<lambda>(c, k).
     case ignoring_pattern options (relative_text r c) of
       Some pattern \<Rightarrow> [Omitted \<lparr>ex_path = relative_text r c, ex_reason = Ignored pattern\<rparr>]
     | None \<Rightarrow> survey_entry options (relative_text r c) k) (listing n))"
| "survey_entry options p k = (case k of
       DirNode _ _ \<Rightarrow> Found p k # survey options p k
     | FileNode _ bs \<Rightarrow>
         if length bs > unat (sco_max_file_size options)
         then [Omitted \<lparr>ex_path = p, ex_reason = TooLarge (of_nat (length bs)) (sco_max_file_size options)\<rparr>]
         else [Found p k]
     | _ \<Rightarrow> [Found p k])"
  by pat_completeness auto
termination
  by (relation "measure (case_sum (\<lambda>(_, _, n). 2 * size n) (\<lambda>(_, _, k). 2 * size k + 1))")
    (use child_smaller in fastforce)+

function scannable :: "world \<Rightarrow> scan_options \<Rightarrow> string \<Rightarrow> node \<Rightarrow> bool"
  and entry_scannable :: "world \<Rightarrow> scan_options \<Rightarrow> snapshot_path \<Rightarrow> node \<Rightarrow> bool" where
  \<comment> \<open>everything not ignored is supported, accessible and has a valid name\<close>
  "scannable w options r n \<longleftrightarrow> readable w n \<and> searchable w n \<and> length (children n) \<le> USIZE_MAX
     \<and> list_all (\<lambda>(c, k). is_str c \<and> is_ok (snapshot_path_from_str (relative_text r c))
          \<and> (ignoring_pattern options (relative_text r c) = None \<longrightarrow> entry_scannable w options (relative_text r c) k)) (listing n)"
| "entry_scannable w options p k \<longleftrightarrow> (case k of
       DirNode _ _ \<Rightarrow> scannable w options p k
     | FileNode _ _ \<Rightarrow> readable w k
     | LinkNode _ t \<Rightarrow> length t < MAX_SYMLINK_TARGET_BYTES \<and> is_str t
     | OtherNode _ \<Rightarrow> False)"
  by pat_completeness auto
termination
  by (relation "measure (case_sum (\<lambda>(_, _, _, n). 2 * size n) (\<lambda>(_, _, _, k). 2 * size k + 1))")
    (use child_smaller in fastforce)+

declare survey.simps [simp del] survey_entry.simps [simp del] scannable.simps [simp del] entry_scannable.simps [simp del]

definition entry_for :: "'j env \<Rightarrow> snapshot_path \<Rightarrow> node \<Rightarrow> snapshot_entry option" where
  "entry_for env p k =
     (let kind = (case k of
            DirNode _ _ \<Rightarrow> Some Directory
          | FileNode a bs \<Rightarrow> Some (File (ObjectId (env_hash env bs)) (of_nat (length bs)) (and (at_mode a) 0x49 \<noteq> 0))
          | LinkNode _ t \<Rightarrow> Some (Symlink t)
          | OtherNode _ \<Rightarrow> None) in
      map_option (\<lambda>kind. \<lparr>entry_path = p, entry_kind = kind,
        entry_permissions = scan_permissions (at_mode (node_attributes k))\<rparr>) kind)"

definition found_entries :: "'j env \<Rightarrow> finding list \<Rightarrow> snapshot_entry list" where
  "found_entries env fs = List.map_filter (\<lambda>f. case f of Found p k \<Rightarrow> entry_for env p k | Omitted _ \<Rightarrow> None) fs"

definition omissions :: "finding list \<Rightarrow> exclusion list" where
  "omissions fs = List.map_filter (\<lambda>f. case f of Found p k \<Rightarrow> None | Omitted x \<Rightarrow> Some x) fs"

definition found_contents :: "finding list \<Rightarrow> u8 list set" where
  "found_contents fs = {bs. \<exists>p a. Found p (FileNode a bs) \<in> set fs}"

lemma findings_append [simp]:
  "found_entries env (fs @ gs) = found_entries env fs @ found_entries env gs"
  "omissions (fs @ gs) = omissions fs @ omissions gs"
  "found_contents (fs @ gs) = found_contents fs \<union> found_contents gs"
  by (auto simp: found_entries_def omissions_def found_contents_def List.map_filter_def)

lemma findings_Nil [simp]: "found_entries env [] = []" "omissions [] = []" "found_contents [] = {}"
  by (simp_all add: found_entries_def omissions_def found_contents_def List.map_filter_def)

lemma findings_single [simp]:
  "found_entries env [Found p k] = (case entry_for env p k of None \<Rightarrow> [] | Some e \<Rightarrow> [e])"
  "found_entries env [Omitted x] = []" "omissions [Found p k] = []" "omissions [Omitted x] = [x]"
  "found_contents [Omitted x] = {}" "found_contents [Found p k] = (case k of FileNode a bs \<Rightarrow> {bs} | _ \<Rightarrow> {})"
  by (auto simp: found_entries_def omissions_def found_contents_def List.map_filter_def split: option.splits node.splits)

subsection \<open>States of a scan\<close>

definition supported :: "finding \<Rightarrow> bool" where
  "supported f \<longleftrightarrow> (case f of Found _ (OtherNode _) \<Rightarrow> False | _ \<Rightarrow> True)"

definition scanned :: "'j env \<Rightarrow> u8 list set \<Rightarrow> world \<Rightarrow> finding list \<Rightarrow> 'j scanner \<Rightarrow> 'j scanner \<Rightarrow> bool" where
  "scanned env K w fs z z' \<longleftrightarrow> quiet w (sc_world z') \<and> store_grown env (sc_store z) (sc_store z')
     \<and> sc_entries z' = sc_entries z @ found_entries env fs \<and> sc_exclusions z' = sc_exclusions z @ omissions fs
     \<and> list_all supported fs
     \<and> (\<forall>bs \<in> found_contents fs. holds_object (env_hash env) (st_files (sc_store z')) (ObjectId (env_hash env bs)) bs)
     \<and> (store_accepts env K (sc_store z) \<and> found_contents fs \<subseteq> K \<longrightarrow> store_accepts env K (sc_store z'))"

definition scan_stopped :: "'j env \<Rightarrow> world \<Rightarrow> 'j scanner \<Rightarrow> 'j scanner \<Rightarrow> bool" where
  "scan_stopped env w z z' \<longleftrightarrow> quiet w (sc_world z') \<and> store_grown env (sc_store z) (sc_store z')"

lemma scanned_Nil: "quiet w (sc_world z) \<Longrightarrow> scanned env K w [] z z"
  by (simp add: scanned_def)

lemma scanned_append:
  assumes a: "scanned env K w fs z z1" and b: "scanned env K w gs z1 z2"
  shows "scanned env K w (fs @ gs) z z2"
proof -
  have "holds_object (env_hash env) (st_files (sc_store z2)) (ObjectId (env_hash env bs)) bs"
    if "bs \<in> found_contents fs \<union> found_contents gs" for bs
    using that a b by (auto simp: scanned_def store_grown_def)
  then show ?thesis
    using a b store_grown_trans [of env "sc_store z" "sc_store z1" "sc_store z2"] by (auto simp: scanned_def)
qed

lemma scanned_stopped: "scanned env K w fs z z1 \<Longrightarrow> scan_stopped env w z1 z2 \<Longrightarrow> scan_stopped env w z z2"
  using store_grown_trans [of env "sc_store z" "sc_store z1" "sc_store z2"] by (auto simp: scanned_def scan_stopped_def)

lemma scanned_world: "scanned env K w fs z z' \<Longrightarrow> quiet w v \<Longrightarrow> scanned env K w fs z (z'\<lparr>sc_world := v\<rparr>)"
  by (simp add: scanned_def)

lemma after_scan_files [simp]:
  "after (scan_files m) Q E z \<longleftrightarrow>
     after m (\<lambda>x w. Q x (z\<lparr>sc_world := w\<rparr>)) (\<lambda>e w. E (Platform e) (z\<lparr>sc_world := w\<rparr>)) (sc_world z)"
  by (simp add: scan_files_def)

lemma reads_scan:
  assumes "reads w m x good" and "quiet w (sc_world z)"
    and "\<And>v. quiet w v \<Longrightarrow> Q x (z\<lparr>sc_world := v\<rparr>)" and "\<And>e v. quiet w v \<Longrightarrow> \<not> good \<Longrightarrow> E (Platform e) (z\<lparr>sc_world := v\<rparr>)"
  shows "after (scan_files m) Q E z"
  unfolding after_scan_files by (rule after_mono [OF reads_quiet [OF assms(1,2)]]) (use assms in auto)

subsection \<open>Files and links\<close>

lemma after_store_object:
  assumes h: "hash_ok (env_hash env)"
    and ok: "\<And>st. store_grown env (sc_store z) st \<Longrightarrow> holds_object (env_hash env) (st_files st) (ObjectId (env_hash env bs)) bs \<Longrightarrow>
      (\<forall>K. store_accepts env K (sc_store z) \<and> bs \<in> K \<longrightarrow> store_accepts env K st) \<Longrightarrow>
      Q (stored_metadata (ObjectId (env_hash env bs)) bs) (z\<lparr>sc_store := st\<rparr>)"
    and err: "\<And>e st. store_grown env (sc_store z) st \<Longrightarrow> (\<forall>K. \<not> (store_accepts env K (sc_store z) \<and> bs \<in> K)) \<Longrightarrow>
      E (SnapshotStore e) (z\<lparr>sc_store := st\<rparr>)"
  shows "after (store_object env bs created) Q E z"
proof -
  obtain st r where put: "put_object env (sc_store z) bs created = (st, r)" by force
  have grown: "store_grown env (sc_store z) st" using put_object_grown [OF h put] .
  show ?thesis
  proof (cases r)
    case (Inl e)
    then have "\<forall>K. \<not> (store_accepts env K (sc_store z) \<and> bs \<in> K)"
      using put_object_accepts [OF h, of _ "sc_store z" bs created] put by fastforce
    then show ?thesis using put Inl err [OF grown] by (simp add: store_object_def after_def with_err_def at_part_def)
  next
    case (Inr so)
    then have "\<forall>K. store_accepts env K (sc_store z) \<and> bs \<in> K \<longrightarrow> store_accepts env K st"
      using put_object_accepts [OF h, of _ "sc_store z" bs created] put by fastforce
    then show ?thesis
      using put Inr ok [OF grown] put_object_Inr [of env "sc_store z" bs created st so]
      by (simp add: store_object_def after_def with_err_def at_part_def)
  qed
qed

lemma scan_file_spec:
  assumes h: "hash_ok (env_hash env)" and tree: "tree_ok w" and d: "pinned w d n"
    and c: "map_of (children n) c = Some (FileNode a bs)" and z: "quiet w (sc_world z)"
  shows "after (scan_file env options created d (entry_of (c, FileNode a bs)) p)
    (\<lambda>_ z'. scanned env K w (survey_entry options p (FileNode a bs)) z z')
    (\<lambda>_ z'. scan_stopped env w z z' \<and> \<not> (calm w \<and> searchable w n \<and> readable w (FileNode a bs)
       \<and> store_accepts env K (sc_store z) \<and> found_contents (survey_entry options p (FileNode a bs)) \<subseteq> K)) z"
proof (cases "length bs > unat (sco_max_file_size options)")
  case True
  have "after (read_regular_file d (entry_of (c, FileNode a bs)) (sco_max_file_size options)) (\<lambda>_ _. False \<and> True)
      (\<lambda>e u. (quiet w u \<and> (e = FileTooLarge (pd_path d @ [c]) (of_nat (length bs)) (sco_max_file_size options)
         \<or> \<not> (calm w \<and> searchable w n \<and> readable w (FileNode a bs))))
         \<and> ((\<exists>p a b. e = FileTooLarge p a b) \<longrightarrow> e = FileTooLarge (pd_path d @ [c]) (of_nat (length bs)) (sco_max_file_size options))) (sc_world z)"
    by (rule after_conj)
      (use refuses_regular_file [OF tree d c True] limits_regular_file [OF tree d c, of "sco_max_file_size options"] z True
        in \<open>simp_all add: refuses_def limits_def\<close>)
  then show ?thesis
    unfolding scan_file_def after_and_do after_outcome after_at_part
    by (rule after_mono)
      (use True in \<open>auto simp: push_exclusion_def scanned_def scan_stopped_def survey_entry.simps supported_def split: fs_error.splits\<close>)
next
  case False
  then have small: "length bs \<le> unat (sco_max_file_size options)" by simp
  have sv: "survey_entry options p (FileNode a bs) = [Found p (FileNode a bs)]" using False by (simp add: survey_entry.simps)
  have "after (read_regular_file d (entry_of (c, FileNode a bs)) (sco_max_file_size options))
      (\<lambda>y u. (quiet w u \<and> y = read_of (FileNode a bs)) \<and> True)
      (\<lambda>e u. (quiet w u \<and> \<not> (calm w \<and> searchable w n \<and> readable w (FileNode a bs)))
         \<and> ((\<exists>p a b. e = FileTooLarge p a b) \<longrightarrow> False)) (sc_world z)"
    by (rule after_conj)
      (use reads_regular_file [OF d c small] limits_regular_file [OF tree d c, of "sco_max_file_size options"] z False
        in \<open>simp_all add: reads_def limits_def\<close>)
  then show ?thesis
    unfolding scan_file_def after_and_do after_outcome after_at_part
  proof (rule after_mono, goal_cases)
    case (1 r v)
    then have r: "r = read_of (FileNode a bs)" and v: "quiet w v" by auto
    show ?case
      unfolding r sum.case after_and_do
    proof (rule after_store_object [OF h], goal_cases)
      case (1 st)
      then show ?case
        using v by (auto simp: push_entry_def scanned_def sv read_of_def entry_for_def supported_def stored_metadata_def)
    next
      case (2 e st)
      then show ?case using v by (auto simp: scan_stopped_def sv read_of_def)
    qed
  next
    case (2 e v)
    then show ?case by (auto simp: scan_stopped_def split: fs_error.splits)
  qed
qed

lemma scan_symlink_spec:
  assumes d: "pinned w d n" and c: "map_of (children n) c = Some (LinkNode a t)" and z: "quiet w (sc_world z)"
  shows "after (scan_symlink root d (entry_of (c, LinkNode a t)) p)
    (\<lambda>_ z'. scanned env K w (survey_entry options p (LinkNode a t)) z z')
    (\<lambda>_ z'. scan_stopped env w z z' \<and> \<not> (calm w \<and> searchable w n \<and> length t < MAX_SYMLINK_TARGET_BYTES \<and> is_str t)) z"
  unfolding scan_symlink_def after_and_do
proof (rule reads_scan [OF reads_symlink [OF d c] z], goal_cases)
  case (1 v)
  then show ?case
    by (auto simp: after_lift push_entry_def scanned_def scan_stopped_def survey_entry.simps entry_for_def supported_def
        str_from_utf8_def is_str_def stat_of_def split: sum.splits option.splits)
next
  case (2 e v)
  then show ?case by (auto simp: scan_stopped_def)
qed

subsection \<open>Directories\<close>

definition scan_good :: "'j env \<Rightarrow> u8 list set \<Rightarrow> world \<Rightarrow> finding list \<Rightarrow> 'j scanner \<Rightarrow> bool" where
  \<comment> \<open>the device works and the store accepts the contents that are found\<close>
  "scan_good env K w fs z \<longleftrightarrow> calm w \<and> store_accepts env K (sc_store z) \<and> found_contents fs \<subseteq> K"

lemma each_map: "each f (map g xs) = each (\<lambda>x. f (g x)) xs"
  by (induction xs) simp_all

lemma found_contents_Cons: "found_contents (f # fs) = found_contents [f] \<union> found_contents fs"
  by (simp add: found_contents_def) blast

lemma child_path_Inr:
  "is_str c \<Longrightarrow> is_ok (snapshot_path_from_str (relative_text r c)) \<Longrightarrow> child_path root r (entry_of (c, k)) = Inr (relative_text r c)"
  by (auto simp: child_path_def validate_relative_path_def is_ok_iff and_then_Inr_iff dest: snapshot_path_from_str_bounds)

lemma child_path_Inr_eq:
  "child_path root r (entry_of (c, k)) = Inr p \<Longrightarrow> p = relative_text r c"
  by (auto simp: child_path_def validate_relative_path_def and_then_Inr_iff map_err_Inr_iff ok_or_Inr_iff str_from_utf8_Some_iff
      dest!: snapshot_path_from_str_bounds) (metis of_bytes_as_bytes)

lemma listing_child:
  assumes "tree_ok w" and "pinned w d n" and "(c, k) \<in> set (listing n)"
  shows "map_of (children n) c = Some k" "name_ok c"
  using tree_ok_names [OF assms(1), of "pd_directory d" n c k] assms(2,3) by (auto simp: pinned_def listing_def)

lemma scan_entry_spec:
  assumes h: "hash_ok (env_hash env)" and tree: "tree_ok w" and d: "pinned w d n" and z: "quiet w (sc_world z)"
    and c: "map_of (children n) c = Some k" "name_ok c"
    and sub: "\<And>child z. is_dir k \<Longrightarrow> pinned w child k \<Longrightarrow> quiet w (sc_world z) \<Longrightarrow>
      after (scan_directory env options created root child p)
        (\<lambda>_ z'. scanned env K w (survey options p k) z z')
        (\<lambda>_ z'. scan_stopped env w z z' \<and> \<not> (scan_good env K w (survey options p k) z \<and> scannable w options p k)) z"
  shows "after (scan_entry env options created root d (entry_of (c, k)) p)
      (\<lambda>_ z'. scanned env K w (survey_entry options p k) z z')
      (\<lambda>_ z'. scan_stopped env w z z' \<and> \<not> (scan_good env K w (survey_entry options p k) z \<and> searchable w n \<and> entry_scannable w options p k)) z"
proof (cases k)
  case (FileNode a bs)
  have "after (scan_file env options created d (entry_of (c, FileNode a bs)) p)
    (\<lambda>_ z'. scanned env K w (survey_entry options p (FileNode a bs)) z z')
    (\<lambda>_ z'. scan_stopped env w z z' \<and> \<not> (scan_good env K w (survey_entry options p (FileNode a bs)) z
       \<and> searchable w n \<and> entry_scannable w options p (FileNode a bs))) z"
    by (rule after_mono [OF scan_file_spec [OF h tree d _ z]])
      (use c FileNode in \<open>auto simp: scan_good_def entry_scannable.simps\<close>)
  then show ?thesis by (simp add: scan_entry.simps FileNode stat_of_def entry_of_def)
next
  case (LinkNode a t)
  have "after (scan_symlink root d (entry_of (c, LinkNode a t)) p)
    (\<lambda>_ z'. scanned env K w (survey_entry options p (LinkNode a t)) z z')
    (\<lambda>_ z'. scan_stopped env w z z' \<and> \<not> (scan_good env K w (survey_entry options p (LinkNode a t)) z
       \<and> searchable w n \<and> entry_scannable w options p (LinkNode a t))) z"
    by (rule after_mono [OF scan_symlink_spec [OF d _ z]])
      (use c LinkNode in \<open>auto simp: scan_good_def entry_scannable.simps\<close>)
  then show ?thesis by (simp add: scan_entry.simps LinkNode stat_of_def entry_of_def)
next
  case (OtherNode a)
  then show ?thesis
    using z by (simp add: scan_entry.simps stat_of_def scan_stopped_def entry_scannable.simps)
next
  case (DirNode a cs)
  then have dir: "is_dir k" and kind: "st_kind (de_stat (entry_of (c, k))) = KindDirectory"
    by (simp_all add: stat_of_def)
  have sv: "survey_entry options p k = Found p k # survey options p k" by (simp add: DirNode survey_entry.simps)
  have fc: "found_contents (survey_entry options p k) = found_contents (survey options p k)"
    unfolding sv found_contents_Cons [of "Found p k" "survey options p k"] by (simp add: DirNode)
  have good: "entry_scannable w options p k \<longleftrightarrow> scannable w options p k" by (simp add: DirNode entry_scannable.simps)
  let ?child = "\<lparr>pd_directory = pd_directory d @ [c], pd_path = pd_path d @ [c], pd_before = stat_of k\<rparr>"
  have child: "pinned w ?child k" using at_pinned_child [OF d c(1)] dir by (simp add: pinned_def)
  let ?E = "\<lambda>_ z'. scan_stopped env w z z' \<and> \<not> (scan_good env K w (survey_entry options p k) z \<and> searchable w n \<and> entry_scannable w options p k)"
  have read: "\<not> (scan_good env K w (survey_entry options p k) z \<and> searchable w n \<and> entry_scannable w options p k)"
    if "\<not> (calm w \<and> searchable w n \<and> readable w k)"
    using that good by (auto simp: scan_good_def scannable.simps [of w options p k])
  have eq: "scan_entry env options created root d (entry_of (c, k)) p =
      and_do (scan_files (open_directory d (entry_of (c, k)))) (\<lambda>child.
      and_do (push_entry \<lparr>entry_path = p, entry_kind = Directory,
        entry_permissions = scan_permissions (st_mode (pd_before child))\<rparr>) (\<lambda>_.
      and_do (scan_directory env options created root child p) (\<lambda>_.
        scan_files (verify_entry d (entry_of (c, k))))))"
    by (subst scan_entry.simps) (simp only: kind file_kind.case)
  show ?thesis
    unfolding eq after_and_do
  proof (rule reads_scan [OF reads_pd_open [OF d c dir] z], goal_cases)
    case (1 v)
    let ?z1 = "z\<lparr>sc_world := v, sc_entries := sc_entries (z\<lparr>sc_world := v\<rparr>) @ [\<lparr>entry_path = p,
      entry_kind = Directory, entry_permissions = scan_permissions (st_mode (pd_before ?child))\<rparr>]\<rparr>"
    have s1: "scanned env K w [Found p k] z ?z1"
      using 1 DirNode by (simp add: scanned_def entry_for_def supported_def stat_of_def)
    have q1: "quiet w (sc_world ?z1)" using 1 by simp
    show ?case
      unfolding push_entry_def after_change
    proof (rule after_mono [OF sub [OF dir child q1]], goal_cases)
      case (1 x z2)
      then have s2: "scanned env K w (survey_entry options p k) z z2"
        using scanned_append [OF s1] by (simp add: sv)
      then have q2: "quiet w (sc_world z2)" by (simp add: scanned_def)
      show ?case
      proof (rule reads_scan [OF reads_verify_entry [OF d c(1)] q2], goal_cases)
        case (1 v)
        then show ?case using scanned_world [OF s2] by simp
      next
        case (2 e v)
        then show ?case using s2 read by (auto simp: scan_stopped_def scanned_def scan_good_def)
      qed
    next
      case (2 e z2)
      then have "scan_stopped env w z z2" using scanned_stopped [OF s1, of z2] by simp
      moreover have "\<not> (scan_good env K w (survey_entry options p k) z \<and> entry_scannable w options p k)"
        using 2 good fc by (simp add: scan_good_def)
      ultimately show ?case by blast
    qed
  next
    case (2 e v)
    then show ?case using read by (auto simp: scan_stopped_def)
  qed
qed

definition child_findings :: "scan_options \<Rightarrow> string \<Rightarrow> string \<times> node \<Rightarrow> finding list" where
  "child_findings options r = (\<lambda>(c, k). case ignoring_pattern options (relative_text r c) of
       Some pattern \<Rightarrow> [Omitted \<lparr>ex_path = relative_text r c, ex_reason = Ignored pattern\<rparr>]
     | None \<Rightarrow> survey_entry options (relative_text r c) k)"

lemma survey_children: "survey options r n = concat (map (child_findings options r) (listing n))"
  by (simp add: survey.simps child_findings_def)

lemma found_contents_concat: "fs \<in> set fss \<Longrightarrow> found_contents fs \<subseteq> found_contents (concat fss)"
  by (auto simp: found_contents_def)

lemma scan_directory_spec:
  assumes h: "hash_ok (env_hash env)" and tree: "tree_ok w"
  shows "pinned w d n \<Longrightarrow> quiet w (sc_world z) \<Longrightarrow> after (scan_directory env options created root d r)
      (\<lambda>_ z'. scanned env K w (survey options r n) z z')
      (\<lambda>_ z'. scan_stopped env w z z' \<and> \<not> (scan_good env K w (survey options r n) z \<and> scannable w options r n)) z"
proof (induction n arbitrary: d r z rule: measure_induct_rule [of size])
  case (less n)
  note d = less.prems(1) and z = less.prems(2)
  let ?E = "\<lambda>_ z'. scan_stopped env w z z' \<and> \<not> (scan_good env K w (survey options r n) z \<and> scannable w options r n)"
  let ?body = "\<lambda>child. and_do (lift (child_path root r child)) (\<lambda>path. case ignoring_pattern options path of
           Some pattern \<Rightarrow> push_exclusion \<lparr>ex_path = path, ex_reason = Ignored pattern\<rparr>
         | None \<Rightarrow> scan_entry env options created root d child path)"
  have parts: "list_all (\<lambda>(c, k). is_str c \<and> is_ok (snapshot_path_from_str (relative_text r c))
          \<and> (ignoring_pattern options (relative_text r c) = None \<longrightarrow> entry_scannable w options (relative_text r c) k)) (listing n)"
    "searchable w n" "readable w n" "length (children n) \<le> USIZE_MAX" if "scannable w options r n"
    using that by (simp_all add: scannable.simps [of w options r n])
  have loop: "after (each ?body (map entry_of (listing n)))
      (\<lambda>_ z'. scanned env K w (survey options r n) z z') ?E z1" if z1: "scanned env K w [] z z1" for z1
    unfolding each_map survey_children
  proof (rule after_each [where I = "\<lambda>passed z'. scanned env K w (concat (map (child_findings options r) passed)) z z'"], goal_cases)
    case 1
    then show ?case using z1 by simp
  next
    case (2 passed ck rest z2)
    obtain c k where ck: "ck = (c, k)" by force
    have mem: "(c, k) \<in> set (listing n)" using 2(1) ck by simp
    have s2: "scanned env K w (concat (map (child_findings options r) passed)) z z2" using 2(2) .
    have q2: "quiet w (sc_world z2)" using s2 by (simp add: scanned_def)
    have sub: "found_contents (child_findings options r ck) \<subseteq> found_contents (survey options r n)"
      "found_contents (concat (map (child_findings options r) passed)) \<subseteq> found_contents (survey options r n)"
      unfolding survey_children 2(1) by auto
    have here: "is_str c" "is_ok (snapshot_path_from_str (relative_text r c))"
      "ignoring_pattern options (relative_text r c) = None \<Longrightarrow> entry_scannable w options (relative_text r c) k"
      if "scannable w options r n"
      using parts(1) [OF that] mem by (auto simp: list_all_iff)
    show ?case
    proof (cases "child_path root r (entry_of (c, k))")
      case (Inl e)
      then have "\<not> scannable w options r n" using here child_path_Inr by fastforce
      then show ?thesis using s2 Inl by (simp add: ck after_lift scan_stopped_def scanned_def)
    next
      case (Inr p)
      have p: "p = relative_text r c" using child_path_Inr_eq [OF Inr] .
      show ?thesis
      proof (cases "ignoring_pattern options p")
        case (Some pattern)
        then show ?thesis
          using s2 Inr by (auto simp: ck after_lift push_exclusion_def scanned_def child_findings_def p supported_def)
      next
        case None
        have "after (scan_entry env options created root d (entry_of (c, k)) p)
          (\<lambda>_ z'. scanned env K w (survey_entry options p k) z2 z')
          (\<lambda>_ z'. scan_stopped env w z2 z' \<and> \<not> (scan_good env K w (survey_entry options p k) z2 \<and> searchable w n \<and> entry_scannable w options p k)) z2"
          by (rule scan_entry_spec [OF h tree d q2 listing_child [OF tree d mem]])
            (use less.IH [OF child_smaller [OF mem]] in blast)
        then have "after (scan_entry env options created root d (entry_of (c, k)) p)
          (\<lambda>_ z'. scanned env K w (concat (map (child_findings options r) (passed @ [ck]))) z z') ?E z2"
        proof (rule after_mono, goal_cases)
          case (1 x z3)
          then show ?case using scanned_append [OF s2] None by (simp add: child_findings_def ck p)
        next
          case (2 e z3)
          have "found_contents (survey_entry options p k) \<subseteq> found_contents (survey options r n)"
            using sub(1) None by (simp add: child_findings_def ck p)
          then have "\<not> (scan_good env K w (survey options r n) z \<and> scannable w options r n)"
            using 2 s2 sub(2) here(3) None parts(2) by (auto simp: scan_good_def scanned_def p)
          then show ?case using 2 scanned_stopped [OF s2] by blast
        qed
        then show ?thesis using Inr None by (simp add: ck after_lift survey_children)
      qed
    qed
  qed
  show ?case
    unfolding scan_directory.simps [of env options created root d r] after_and_do
  proof (rule reads_scan [OF reads_entries_bounded [OF tree d, of USIZE_MAX, folded entries_def] z], goal_cases)
    case (1 v)
    have z1: "scanned env K w [] z (z\<lparr>sc_world := v\<rparr>)" using 1 by (simp add: scanned_def)
    show ?case
    proof (rule after_mono [OF loop [OF z1]], goal_cases)
      case (1 x z2)
      then have q2: "quiet w (sc_world z2)" by (simp add: scanned_def)
      show ?case
      proof (rule reads_scan [OF reads_verify_unchanged [OF d] q2], goal_cases)
        case (1 v)
        then show ?case using scanned_world [OF \<open>scanned env K w (survey options r n) z z2\<close>] by simp
      next
        case (2 e v)
        then show ?case using \<open>scanned env K w (survey options r n) z z2\<close> by (auto simp: scan_stopped_def scanned_def scan_good_def)
      qed
    qed
  next
    case (2 e v)
    then show ?case using parts by (auto simp: scan_stopped_def scan_good_def)
  qed
qed

end
