(* ===== verification/Restore_Build.thy ===== *)
theory Restore_Build
  imports Restore
begin

section \<open>The tree a restore builds\<close>

text \<open>
  \<open>build_tree\<close> in a private empty directory: whatever fails, only that directory is touched; if
  it succeeds the directory shows exactly the entries of the manifest, with the permissions and
  contents recorded; and in a calm world it succeeds when the manifest is accepted and its
  objects load.  \<open>pic\<close> says which entries a directory shows, and nothing else.
\<close>

definition parts :: "snapshot_entry \<Rightarrow> string list" where
  "parts e = split_on CHR ''/'' (entry_path e)"

definition content_of :: "'j env \<Rightarrow> 'j store \<Rightarrow> object_id \<Rightarrow> u64 \<Rightarrow> u8 list" where
  "content_of env st i byte_size = (case load_object env st i byte_size of Inr bs \<Rightarrow> bs | Inl _ \<Rightarrow> [])"

definition expected_item :: "'j env \<Rightarrow> 'j store \<Rightarrow> u32 \<Rightarrow> snapshot_entry \<Rightarrow> item" where
  "expected_item env st link_mode e = (case entry_kind e of
       Directory \<Rightarrow> ItemDir (permission_mode e)
     | File i byte_size _ \<Rightarrow> ItemFile (permission_mode e) (content_of env st i byte_size)
     | Symlink target \<Rightarrow> ItemLink link_mode target)"

definition unfinished_item :: "'j env \<Rightarrow> 'j store \<Rightarrow> u32 \<Rightarrow> snapshot_entry \<Rightarrow> item" where
  "unfinished_item env st link_mode e =
     (if entry_kind e = Directory then ItemDir OWNER_ALL else expected_item env st link_mode e)"

definition pic :: "string list \<Rightarrow> snapshot_entry set \<Rightarrow> (snapshot_entry \<Rightarrow> item) \<Rightarrow> (string list \<Rightarrow> item option) \<Rightarrow> bool" where
  "pic P A it d \<longleftrightarrow> d P = Some (ItemDir OWNER_ALL) \<and> (\<forall>e \<in> A. d (P @ parts e) = Some (it e))
     \<and> (\<forall>q. q \<noteq> [] \<longrightarrow> d (P @ q) \<noteq> None \<longrightarrow> q \<in> parts ` A)"

definition entries_typed :: "snapshot_entry list \<Rightarrow> bool" where
  "entries_typed es \<longleftrightarrow> (\<forall>e \<in> set es. path_ok (entry_path e))"

lemma parts_inj: "parts a = parts b \<Longrightarrow> entry_path a = entry_path b"
  unfolding parts_def by (metis join_split_on)

lemma parts_not_Nil [simp]: "parts e \<noteq> []"
  by (simp add: parts_def)

lemma manifest_parts_inj:
  assumes "manifest_ok m" and "a \<in> set (manifest_entries m)" and "b \<in> set (manifest_entries m)" and "parts a = parts b"
  shows "a = b"
  using assms parts_inj [OF assms(4)]
  by (auto simp: manifest_ok_def strictly_sorted_iff distinct_map dest: inj_onD)

lemma pic_empty:
  "disk w P = Some (ItemDir OWNER_ALL) \<Longrightarrow> (\<And>q. q \<noteq> [] \<Longrightarrow> disk w (P @ q) = None) \<Longrightarrow> pic P {} it (disk w)"
  by (auto simp: pic_def)

lemma pic_insert:
  assumes "pic P A it d" and "d (P @ parts e) = None" and "d' = d(P @ parts e \<mapsto> it e)"
  shows "pic P (insert e A) it d'"
  using assms by (auto simp: pic_def)

lemma pic_finish:
  assumes pic: "pic P A it d" and e: "e \<in> A" and inj: "inj_on parts A" and d': "d' = d(P @ parts e \<mapsto> i)"
  shows "pic P A (it(e := i)) d'"
proof -
  have "P @ parts x \<noteq> P @ parts e" if "x \<in> A" "x \<noteq> e" for x
    using inj_onD [OF inj _ that(1) e] that by auto
  then show ?thesis using pic e d' by (fastforce simp: pic_def)
qed

lemma pic_shown: "pic P A it d \<Longrightarrow> d (P @ parts e) \<noteq> None \<Longrightarrow> parts e \<in> parts ` A"
  by (simp add: pic_def)

lemma pic_cong: "pic P A it d \<Longrightarrow> (\<And>e. e \<in> A \<Longrightarrow> it e = it' e) \<Longrightarrow> pic P A it' d"
  by (simp add: pic_def)

lemma after_platform [simp]:
  "after (platform m) Q E z \<longleftrightarrow>
     after m (\<lambda>x w. Q x (z\<lparr>mz_world := w\<rparr>)) (\<lambda>e w. E (Platform e) (z\<lparr>mz_world := w\<rparr>)) (mz_world z)"
  by (simp add: platform_def on_world_def)

lemma after_on_world [simp]:
  "after (on_world m) Q E z \<longleftrightarrow>
     after m (\<lambda>x w. Q x (z\<lparr>mz_world := w\<rparr>)) (\<lambda>e w. E e (z\<lparr>mz_world := w\<rparr>)) (mz_world z)"
  by (simp add: on_world_def)

lemma mz_world_update_same [simp]: "z\<lparr>mz_world := mz_world z\<rparr> = z"
  by simp

subsection \<open>Ancestors\<close>

lemma split_on_append: "split_on d (u @ d # v) = split_on d u @ split_on d v"
  by (induction u) (auto split: list.splits)

lemma split_on_single: "d \<notin> set z \<Longrightarrow> split_on d z = [z]"
  by (induction z) auto

lemma split_on_join: "zs \<noteq> [] \<Longrightarrow> \<forall>z \<in> set zs. d \<notin> set z \<Longrightarrow> split_on d (join_with d zs) = zs"
proof (induction zs)
  case (Cons z zs)
  have z: "split_on d z = [z]" using Cons.prems split_on_single by simp
  show ?case
  proof (cases zs)
    case Nil
    then show ?thesis using z by simp
  next
    case (Cons y ys)
    then have "split_on d (join_with d zs) = zs" using Cons.IH Cons.prems by simp
    then show ?thesis using Cons z by (simp add: split_on_append)
  qed
qed simp

lemma split_on_take:
  assumes "0 < k" and "k < length (split_on d p)"
  shows "\<exists>u v. p = u @ d # v \<and> split_on d u = take k (split_on d p)"
proof -
  have join: "join_with d (xs @ ys) = join_with d xs @ d # join_with d ys" if "xs \<noteq> []" "ys \<noteq> []" for xs ys
    using that
  proof (induction xs)
    case (Cons x xs)
    show ?case
    proof (cases xs)
      case Nil
      then show ?thesis using Cons.prems by (cases ys) auto
    next
      case (Cons y zs)
      then show ?thesis using Cons.IH Cons.prems by simp
    qed
  qed simp
  define xs ys where "xs = take k (split_on d p)" and "ys = drop k (split_on d p)"
  have ne: "xs \<noteq> []" "ys \<noteq> []" and s: "split_on d p = xs @ ys" using assms by (auto simp: xs_def ys_def)
  have "p = join_with d (xs @ ys)" using s join_split_on [of d p] by simp
  then have p: "p = join_with d xs @ d # join_with d ys" using join ne by simp
  have "split_on d (join_with d zs) = zs" if "zs \<noteq> []" "\<forall>z \<in> set zs. d \<notin> set z" for zs
    using that by (rule split_on_join)
  moreover have "\<forall>z \<in> set xs. d \<notin> set z"
    using split_on_no_sep [of _ d p] by (auto simp: xs_def dest: in_set_takeD)
  ultimately have "split_on d (join_with d xs) = take k (split_on d p)" using ne xs_def by simp
  then show ?thesis using p by (intro exI [of _ "join_with d xs"] exI [of _ "join_with d ys"]) simp
qed

lemma ancestor_entry:
  assumes m: "manifest_ok m" and present: "parents_present (manifest_entries m)"
    and e: "e \<in> set (manifest_entries m)" and k: "0 < k" "k < length (parts e)"
  shows "\<exists>a \<in> set (manifest_entries m). entry_kind a = Directory \<and> parts a = take k (parts e)
    \<and> entry_path a < entry_path e"
proof -
  obtain u v where uv: "entry_path e = u @ CHR ''/'' # v" and u: "split_on CHR ''/'' u = take k (parts e)"
    using split_on_take [of k "CHR ''/''" "entry_path e"] k by (auto simp: parts_def)
  obtain a where a: "tree (manifest_entries m) u = Some a" "entry_kind a = Directory"
    using present e uv by (auto simp: parents_present_def)
  then have "a \<in> set (manifest_entries m)" "entry_path a = u"
    by (auto simp: tree_def dest!: map_of_SomeD)
  moreover have "u < u @ CHR ''/'' # v" by (simp add: list_less_def lexord_append_rightI)
  ultimately show ?thesis using a u uv by (auto simp: parts_def)
qed

subsection \<open>One pass over the manifest\<close>

definition kept :: "u64 \<Rightarrow> string list \<Rightarrow> world \<Rightarrow> materializer \<Rightarrow> bool" where
  \<comment> \<open>the sequence is not consumed and only the private directory is touched\<close>
  "kept n P w z \<longleftrightarrow> mz_sequence z = n \<and> touches P w (mz_world z)"

lemma kept_trans: "kept n P w z \<Longrightarrow> mz_sequence z' = mz_sequence z \<Longrightarrow> touches P (mz_world z) (mz_world z') \<Longrightarrow> kept n P w z'"
  by (auto simp: kept_def intro: touches_trans)

lemma kept_steady: "kept n P w z \<Longrightarrow> steady w (mz_world z)"
  by (simp add: kept_def touches_def)

lemma pic_parent_open:
  assumes pic: "pic P A it (disk w)"
    and anc: "\<And>k. 0 < k \<Longrightarrow> k < length (parts e) \<Longrightarrow> \<exists>a \<in> A. parts a = take k (parts e) \<and> it a = ItemDir OWNER_ALL"
  shows "parent_open w P (parts e)"
proof -
  have "\<exists>m. disk w (P @ take k (butlast (parts e))) = Some (ItemDir m) \<and> allows w m OWNER_ALL"
    if "k \<le> length (butlast (parts e))" for k
  proof (cases "k = 0")
    case True
    then show ?thesis using pic by (auto simp: pic_def intro: allows_own)
  next
    case False
    have "0 < length (parts e)" by simp
    then have k: "k < length (parts e)" using that unfolding length_butlast by arith
    then obtain a where "a \<in> A" "parts a = take k (parts e)" "it a = ItemDir OWNER_ALL" using anc False by blast
    moreover have "take k (butlast (parts e)) = take k (parts e)" using that by (simp add: take_butlast k)
    ultimately show ?thesis using pic by (metis pic_def allows_own)
  qed
  then show ?thesis by (simp add: parent_open_def open_way_def)
qed

lemma stage_loop:
  assumes m: "manifest_ok m" and es: "es = manifest_entries m"
    and body: "\<And>passed e rest r z. es = passed @ e # rest \<Longrightarrow> want e \<Longrightarrow> J passed r \<Longrightarrow> steady w (mz_world z) \<Longrightarrow>
      after (f e r)
        (\<lambda>r' z'. mz_sequence z' = mz_sequence z \<and> steady (mz_world z) (mz_world z') \<and> J (passed @ [e]) r'
           \<and> disk (mz_world z) (P @ parts e) = None \<and> disk (mz_world z') = (disk (mz_world z))(P @ parts e \<mapsto> it e))
        (\<lambda>_ z'. mz_sequence z' = mz_sequence z \<and> touches P (mz_world z) (mz_world z')
           \<and> \<not> (good \<and> calm (mz_world z) \<and> parent_open (mz_world z) P (parts e) \<and> disk (mz_world z) (P @ parts e) = None)) z"
    and skip: "\<And>passed e r. \<not> want e \<Longrightarrow> f e r = give r \<and> (J passed r \<longrightarrow> J (passed @ [e]) r)"
    and A: "A \<subseteq> set es" "\<forall>e \<in> A. \<not> want e"
    and anc: "\<And>e k. good \<Longrightarrow> e \<in> set es \<Longrightarrow> want e \<Longrightarrow> 0 < k \<Longrightarrow> k < length (parts e) \<Longrightarrow>
       \<exists>a \<in> A \<union> {x \<in> set es. want x \<and> entry_path x < entry_path e}. parts a = take k (parts e) \<and> it a = ItemDir OWNER_ALL"
    and good: "good \<Longrightarrow> calm w"
    and start: "J [] r" "kept n P w z" "pic P A it (disk (mz_world z))"
  shows "after (fold_do f es r)
    (\<lambda>r' z'. J es r' \<and> kept n P w z' \<and> pic P (A \<union> {e \<in> set es. want e}) it (disk (mz_world z')))
    (\<lambda>_ z'. kept n P w z' \<and> \<not> good) z"
proof -
  define I where "I = (\<lambda>passed r z. J passed r \<and> kept n P w z \<and> pic P (A \<union> {e \<in> set passed. want e}) it (disk (mz_world z)))"
  have "after (fold_do f es r) (I es) (\<lambda>_ z'. kept n P w z' \<and> \<not> good) z"
  proof (rule after_fold_do)
    show "I [] r z" using start by (simp add: I_def)
    fix passed e rest r z
    assume split: "es = passed @ e # rest" and inv: "I passed r z"
    then have kz: "kept n P w z" and pz: "pic P (A \<union> {e \<in> set passed. want e}) it (disk (mz_world z))" and J: "J passed r"
      by (simp_all add: I_def)
    have inj: "inj_on parts (set es)" using manifest_parts_inj [OF m] es by (auto intro: inj_onI)
    have sorted: "\<forall>x \<in> set passed. entry_path x < entry_path e" "\<forall>x \<in> set rest. entry_path e < entry_path x"
      using m split es by (auto simp: manifest_ok_def strictly_sorted_append)
    show "after (f e r) (I (passed @ [e])) (\<lambda>_ z'. kept n P w z' \<and> \<not> good) z"
    proof (cases "want e")
      case False
      then have "{x \<in> set (passed @ [e]). want x} = {x \<in> set passed. want x}" by auto
      then have "I (passed @ [e]) r z" using skip [OF False, of r passed] inv unfolding I_def by metis
      then show ?thesis using skip [OF False, of r passed] by simp
    next
      case True
      show ?thesis
      proof (rule after_mono [OF body [OF split True J kept_steady [OF kz]]], goal_cases)
        case (1 r' z')
        then have "touches P (mz_world z) (mz_world z')" using touches_update by blast
        then have "kept n P w z'" using kept_trans [OF kz] 1 by blast
        moreover have "pic P (insert e (A \<union> {e \<in> set passed. want e})) it (disk (mz_world z'))"
          using 1 pic_insert [OF pz] by blast
        moreover have "insert e (A \<union> {e \<in> set passed. want e}) = A \<union> {x \<in> set (passed @ [e]). want x}"
          using True by auto
        ultimately show ?case using 1 by (simp add: I_def)
      next
        case (2 x z')
        have "\<not> good"
        proof
          assume g: good
          have "calm (mz_world z)" using good [OF g] steady_calm [OF kept_steady [OF kz]] by simp
          moreover have "parent_open (mz_world z) P (parts e)"
          proof (rule pic_parent_open [OF pz])
            fix k assume "0 < k" "k < length (parts e)"
            then obtain a where a: "a \<in> A \<union> {x \<in> set es. want x \<and> entry_path x < entry_path e}"
                "parts a = take k (parts e)" "it a = ItemDir OWNER_ALL"
              using anc [OF g _ True] split by auto
            then have "a \<in> A \<union> {e \<in> set passed. want e}" using split sorted(2) by auto
            then show "\<exists>a \<in> A \<union> {e \<in> set passed. want e}. parts a = take k (parts e) \<and> it a = ItemDir OWNER_ALL"
              using a by blast
          qed
          moreover have "disk (mz_world z) (P @ parts e) = None"
          proof (rule ccontr)
            assume "\<not> ?thesis"
            then have "parts e \<in> parts ` (A \<union> {e \<in> set passed. want e})" by (rule pic_shown [OF pz])
            then obtain a where a: "a \<in> A \<union> {e \<in> set passed. want e}" "parts a = parts e" by force
            then have "a \<in> set es" using A split by auto
            then have "a = e" using inj_onD [OF inj a(2)] split by auto
            then show False using a A sorted(1) True by auto
          qed
          ultimately show False using 2 g by blast
        qed
        then show ?case using 2 kept_trans [OF kz] by blast
      qed
    qed
  qed
  then show ?thesis by (simp add: I_def)
qed

subsection \<open>The four passes\<close>

abbreviation is_directory :: "snapshot_entry \<Rightarrow> bool" where "is_directory e \<equiv> entry_kind e = Directory"

definition is_file :: "snapshot_entry \<Rightarrow> bool" where
  "is_file e = (case entry_kind e of File _ _ _ \<Rightarrow> True | _ \<Rightarrow> False)"

definition is_symlink :: "snapshot_entry \<Rightarrow> bool" where
  "is_symlink e = (case entry_kind e of Symlink _ \<Rightarrow> True | _ \<Rightarrow> False)"

definition entry_bytes :: "snapshot_entry \<Rightarrow> nat" where
  "entry_bytes e = (case entry_kind e of File _ n _ \<Rightarrow> unat n | _ \<Rightarrow> 0)"

definition file_bytes :: "snapshot_entry list \<Rightarrow> nat" where
  "file_bytes es = sum_list (map entry_bytes es)"

definition report_is :: "snapshot_entry list \<Rightarrow> snapshot_entry list \<Rightarrow> snapshot_entry list \<Rightarrow> materialize_report \<Rightarrow> bool" where
  \<comment> \<open>the report after the passes over directories, files and symbolic links\<close>
  "report_is ds fs ls r \<longleftrightarrow> mr_destination r = []
     \<and> mr_directories r = of_nat (length (filter is_directory ds))
     \<and> mr_files r = of_nat (length (filter is_file fs))
     \<and> unat (mr_logical_bytes r) = file_bytes fs
     \<and> mr_symlinks r = of_nat (length (filter is_symlink ls))
     \<and> mr_warnings r = map (\<lambda>e. SymlinkPermissionsNotRestored (entry_path e) (permission_bits (entry_permissions e)))
          (filter is_symlink ls)"

definition objects_load :: "'j env \<Rightarrow> 'j store \<Rightarrow> u64 \<Rightarrow> snapshot_entry list \<Rightarrow> bool" where
  \<comment> \<open>every file of the manifest can be restored\<close>
  "objects_load env st maximum es \<longleftrightarrow> (\<forall>e \<in> set es. \<forall>i n x. entry_kind e = File i n x \<longrightarrow>
     n \<le> maximum \<and> unat n \<le> MAX_FILE_LEN \<and> (\<exists>bs. load_object env st i n = Inr bs \<and> of_nat (length bs) = n))
     \<and> file_bytes es < 2 ^ 64"

lemma load_exact_Inr_iff:
  "load_exact env st i n p = Inr bs \<longleftrightarrow> load_object env st i n = Inr bs \<and> of_nat (length bs) = n"
  by (auto simp: load_exact_def Let_def and_then_Inr_iff)

lemma load_exact_length: "load_exact env st i n p = Inr bs \<Longrightarrow> length bs = unat n"
  by (auto simp: load_exact_Inr_iff load_object_Inr_iff unat_of_nat holds_object_def)

lemma file_bytes_snoc: "file_bytes (es @ [e]) = file_bytes es + entry_bytes e"
  by (simp add: file_bytes_def)

lemma file_bytes_prefix: "es = passed @ e # rest \<Longrightarrow> file_bytes passed + entry_bytes e \<le> file_bytes es"
  by (simp add: file_bytes_def)

lemma build_directories:
  assumes m: "manifest_ok m" and es: "es = manifest_entries m" and typed: "entries_typed es"
    and P: "dr_directory root = P"
    and start: "report_is [] [] [] r" "kept n P w z" "pic P {} (unfinished_item env st (w_link_mode w)) (disk (mz_world z))"
  shows "after (fold_do (build_directory root) es r)
    (\<lambda>r' z'. report_is es [] [] r' \<and> kept n P w z'
       \<and> pic P {e \<in> set es. is_directory e} (unfinished_item env st (w_link_mode w)) (disk (mz_world z')))
    (\<lambda>_ z'. kept n P w z' \<and> \<not> (calm w \<and> parents_present es)) z"
proof (rule after_mono [OF stage_loop [OF m es, where want = is_directory and A = "{}" and w = w and z = z and r = r
        and J = "\<lambda>passed. report_is passed [] []" and good = "calm w \<and> parents_present es"
        and it = "unfinished_item env st (w_link_mode w)" and P = P and n = n and f = "build_directory root"]], goal_cases)
  case (1 passed e rest r z)
  then have path: "path_ok (entry_path e)" using typed by (simp add: entries_typed_def)
  have step: "build_directory root e r = and_do (platform (create_directory_beneath root (entry_path e)))
      (\<lambda>_. give (r\<lparr>mr_directories := mr_directories r + 1\<rparr>))"
    using 1 by (simp add: build_directory_def)
  have item: "unfinished_item env st (w_link_mode w) e = ItemDir OWNER_ALL" using 1 by (simp add: unfinished_item_def)
  have J: "report_is (passed @ [e]) [] [] (r\<lparr>mr_directories := mr_directories r + 1\<rparr>)"
    using 1 by (simp add: report_is_def algebra_simps)
  show ?case
    unfolding step item after_and_do after_platform
    by (rule after_mono [OF create_directory_beneath_spec [OF path]])
      (use J in \<open>auto simp: P parts_def [symmetric] quiet_touches\<close>)
next
  case (2 passed e r)
  then show ?case by (simp add: build_directory_def report_is_def)
next
  case (5 e k)
  then have pp: "parents_present (manifest_entries m)" and e: "e \<in> set (manifest_entries m)" using es by auto
  from ancestor_entry [OF m pp e 5(4,5)] show ?case using es by (auto simp: unfinished_item_def)
qed (use start in auto)

lemma build_files:
  assumes m: "manifest_ok m" and es: "es = manifest_entries m" and typed: "entries_typed es"
    and P: "dr_directory root = P"
    and start: "report_is es [] [] r" "kept n P w z"
      "pic P {e \<in> set es. is_directory e} (unfinished_item env st (w_link_mode w)) (disk (mz_world z))"
  shows "after (fold_do (build_file env st root maximum) es r)
    (\<lambda>r' z'. report_is es es [] r' \<and> kept n P w z'
       \<and> pic P ({e \<in> set es. is_directory e} \<union> {e \<in> set es. is_file e}) (unfinished_item env st (w_link_mode w)) (disk (mz_world z')))
    (\<lambda>_ z'. kept n P w z' \<and> \<not> (calm w \<and> parents_present es \<and> objects_load env st maximum es)) z"
proof (rule stage_loop [OF m es, where want = is_file and A = "{e \<in> set es. is_directory e}" and w = w and z = z and r = r
        and J = "\<lambda>passed. report_is es passed []" and good = "calm w \<and> parents_present es \<and> objects_load env st maximum es"
        and it = "unfinished_item env st (w_link_mode w)" and P = P and n = n and f = "build_file env st root maximum"], goal_cases)
  case (1 passed e rest r z)
  then have path: "path_ok (entry_path e)" using typed by (simp add: entries_typed_def)
  obtain i k x where kind: "entry_kind e = File i k x" using 1 by (auto simp: is_file_def split: snapshot_entry_kind.splits)
  have ok: "k \<le> maximum \<and> unat k \<le> MAX_FILE_LEN \<and> (\<exists>bs. load_exact env st i k (entry_path e) = Inr bs)
      \<and> file_bytes passed + unat k < 2 ^ 64" if "objects_load env st maximum es"
    using that 1 kind file_bytes_prefix [OF 1(1)] by (fastforce simp: objects_load_def load_exact_Inr_iff entry_bytes_def)
  show ?case
  proof (cases "k > maximum")
    case True
    then have "\<not> objects_load env st maximum es" using ok by auto
    then show ?thesis using True kind by (simp add: build_file_def)
  next
    case False
    show ?thesis
    proof (cases "load_exact env st i k (entry_path e)")
      case (Inl a)
      then have "\<not> objects_load env st maximum es" using ok by auto
      then show ?thesis using False kind Inl by (simp add: build_file_def after_lift)
    next
      case (Inr bs)
      have item: "unfinished_item env st (w_link_mode w) e = ItemFile (permission_mode e) bs"
        using Inr kind by (simp add: unfinished_item_def expected_item_def content_of_def load_exact_Inr_iff)
      have len: "length bs = unat k" using load_exact_length [OF Inr] .
      have step: "build_file env st root maximum e r =
        and_do (lift (Inr bs)) (\<lambda>bytes.
        and_do (platform (create_file_beneath root (entry_path e) bytes (permission_mode e))) (\<lambda>_.
        and_do (lift (ok_or (ObjectSizeMismatch (entry_path e) k (- 1)) (checked_add (mr_logical_bytes r) k)))
          (\<lambda>logical_bytes. give (r\<lparr>mr_files := mr_files r + 1, mr_logical_bytes := logical_bytes\<rparr>))))"
        using False kind Inr by (simp add: build_file_def)
      show ?thesis
        unfolding step item after_and_do after_platform after_lift sum.case
      proof (rule after_mono [OF create_file_beneath_spec [OF path]], goal_cases)
        case (1 y v)
        have t: "touches P (mz_world z) v"
          using 1 touches_update [of "mz_world z" v P] by (simp add: P)
        show ?case
        proof (cases "checked_add (mr_logical_bytes r) k")
          case None
          then have "\<not> objects_load env st maximum es"
            using ok \<open>report_is es passed [] r\<close> by (auto simp: checked_add_None_iff report_is_def)
          then show ?thesis using None t by simp
        next
          case (Some total)
          then have "report_is es (passed @ [e]) [] (r\<lparr>mr_files := mr_files r + 1, mr_logical_bytes := total\<rparr>)"
            using \<open>report_is es passed [] r\<close> \<open>is_file e\<close> kind
            by (simp add: report_is_def checked_add_Some_iff file_bytes_snoc entry_bytes_def algebra_simps)
          then show ?thesis using Some 1 by (simp add: P parts_def)
        qed
      next
        case (2 y v)
        then show ?case using only_at_touches touches_prefix [of "P @ parts e" "mz_world z" v P] ok len
          by (auto simp: P parts_def)
      qed
    qed
  qed
next
  case (2 passed e r)
  then show ?case by (auto simp: build_file_def report_is_def file_bytes_snoc entry_bytes_def is_file_def
        split: snapshot_entry_kind.splits)
next
  case (5 e k)
  then have pp: "parents_present (manifest_entries m)" and e: "e \<in> set (manifest_entries m)" using es by auto
  from ancestor_entry [OF m pp e 5(4,5)] show ?case using es by (auto simp: unfinished_item_def)
qed (use start in \<open>auto simp: is_file_def\<close>)

lemma build_symlinks:
  assumes m: "manifest_ok m" and es: "es = manifest_entries m" and typed: "entries_typed es"
    and P: "dr_directory root = P"
    and start: "report_is es es [] r" "kept n P w z"
      "pic P ({e \<in> set es. is_directory e} \<union> {e \<in> set es. is_file e}) (unfinished_item env st (w_link_mode w)) (disk (mz_world z))"
  shows "after (fold_do (build_symlink root) es r)
    (\<lambda>r' z'. report_is es es es r' \<and> kept n P w z'
       \<and> pic P (({e \<in> set es. is_directory e} \<union> {e \<in> set es. is_file e}) \<union> {e \<in> set es. is_symlink e})
           (unfinished_item env st (w_link_mode w)) (disk (mz_world z')))
    (\<lambda>_ z'. kept n P w z' \<and> \<not> (calm w \<and> parents_present es)) z"
proof (rule stage_loop [OF m es, where want = is_symlink and w = w and z = z and r = r
        and A = "{e \<in> set es. is_directory e} \<union> {e \<in> set es. is_file e}"
        and J = "\<lambda>passed. report_is es es passed" and good = "calm w \<and> parents_present es"
        and it = "unfinished_item env st (w_link_mode w)" and P = P and n = n and f = "build_symlink root"], goal_cases)
  case (1 passed e rest r z)
  then have path: "path_ok (entry_path e)" using typed by (simp add: entries_typed_def)
  obtain target where kind: "entry_kind e = Symlink target"
    using 1 by (auto simp: is_symlink_def split: snapshot_entry_kind.splits)
  have "e \<in> set (manifest_entries m)" using 1 unfolding es [symmetric] by simp
  then have "entry_ok e" using m by (simp add: manifest_ok_def)
  then have target: "target \<noteq> []" "nul \<notin> set target" using kind by (auto simp: entry_ok_def)
  have lm: "w_link_mode (mz_world z) = w_link_mode w" using 1 by (simp add: steady_def)
  have item: "unfinished_item env st (w_link_mode w) e = ItemLink (w_link_mode (mz_world z)) target"
    using kind lm by (simp add: unfinished_item_def expected_item_def)
  let ?r = "r\<lparr>mr_symlinks := mr_symlinks r + 1, mr_warnings := mr_warnings r
      @ [SymlinkPermissionsNotRestored (entry_path e) (permission_bits (entry_permissions e))]\<rparr>"
  have step: "build_symlink root e r = and_do (platform (create_symlink_beneath root (entry_path e) target)) (\<lambda>_. give ?r)"
    using kind by (simp add: build_symlink_def)
  have J: "report_is es es (passed @ [e]) ?r"
    using 1 by (simp add: report_is_def algebra_simps)
  show ?case
    unfolding step item after_and_do after_platform
    by (rule after_mono [OF create_symlink_beneath_spec [OF path target]])
      (use J in \<open>auto simp: P parts_def [symmetric] quiet_touches\<close>)
next
  case (2 passed e r)
  then show ?case by (auto simp: build_symlink_def report_is_def is_symlink_def split: snapshot_entry_kind.splits)
next
  case (5 e k)
  then have pp: "parents_present (manifest_entries m)" and e: "e \<in> set (manifest_entries m)" using es by auto
  from ancestor_entry [OF m pp e 5(4,5)] show ?case using es by (auto simp: unfinished_item_def)
qed (use start in \<open>auto simp: is_symlink_def is_file_def split: snapshot_entry_kind.splits\<close>)

lemma finish_directories:
  assumes m: "manifest_ok m" and es: "es = manifest_entries m" and typed: "entries_typed es"
    and P: "dr_directory root = P"
    and start: "kept n P w z" "pic P (set es) (unfinished_item env st (w_link_mode w)) (disk (mz_world z))"
  shows "after (each (finish_directory root) (rev es))
    (\<lambda>_ z'. kept n P w z' \<and> pic P (set es) (expected_item env st (w_link_mode w)) (disk (mz_world z')))
    (\<lambda>_ z'. kept n P w z' \<and> \<not> (calm w \<and> parents_present es)) z"
proof -
  define mid where "mid = (\<lambda>passed e. if e \<in> set passed then expected_item env st (w_link_mode w) e
      else unfinished_item env st (w_link_mode w) e)"
  define I where "I = (\<lambda>passed z. kept n P w z \<and> pic P (set es) (mid passed) (disk (mz_world z)))"
  have inj: "inj_on parts (set es)" using manifest_parts_inj [OF m] es by (auto intro: inj_onI)
  have "after (each (finish_directory root) (rev es)) (\<lambda>_. I (rev es))
    (\<lambda>_ z'. kept n P w z' \<and> \<not> (calm w \<and> parents_present es)) z"
  proof (rule after_each)
    show "I [] z" using start by (simp add: I_def mid_def)
    fix passed e rest z
    assume split: "rev es = passed @ e # rest" and "I passed z"
    then have kz: "kept n P w z" and pz: "pic P (set es) (mid passed) (disk (mz_world z))" by (simp_all add: I_def)
    have order: "es = rev rest @ e # rev passed" using arg_cong [OF split, of rev] by simp
    then have e: "e \<in> set es" by simp
    have "strictly_sorted (map entry_path (rev rest @ e # rev passed))"
      using m unfolding order [symmetric] es by (simp add: manifest_ok_def)
    then have larger: "\<forall>x \<in> set passed. entry_path e < entry_path x" by (auto simp: strictly_sorted_append)
    show "after (finish_directory root e) (\<lambda>_. I (passed @ [e])) (\<lambda>_ z'. kept n P w z' \<and> \<not> (calm w \<and> parents_present es)) z"
    proof (cases "is_directory e")
      case False
      then have "mid (passed @ [e]) = mid passed" by (auto simp: mid_def unfinished_item_def)
      then have "I (passed @ [e]) z" using \<open>I passed z\<close> by (simp add: I_def)
      then show ?thesis using False by (simp add: finish_directory_def)
    next
      case True
      have path: "path_ok (entry_path e)" using typed e by (simp add: entries_typed_def)
      have item: "expected_item env st (w_link_mode w) e = ItemDir (permission_mode e)"
        using True by (simp add: expected_item_def)
      have next_mid: "(mid passed)(e := ItemDir (permission_mode e)) = mid (passed @ [e])"
        using item by (auto simp: mid_def)
      have step: "finish_directory root e = platform (finish_directory_beneath root (entry_path e) (permission_mode e))"
        using True by (simp add: finish_directory_def)
      show ?thesis
        unfolding step after_platform
      proof (rule after_mono [OF finish_directory_beneath_spec [OF path]], goal_cases)
        case (1 y v)
        then have d: "disk v = (disk (mz_world z))(P @ parts e \<mapsto> ItemDir (permission_mode e))" and s: "steady (mz_world z) v"
          by (simp_all add: P parts_def)
        have "touches P (mz_world z) v" using touches_update [OF s d] .
        moreover have "pic P (set es) (mid (passed @ [e])) (disk v)"
          using pic_finish [OF pz e inj d] unfolding next_mid .
        ultimately show ?case using kept_trans [OF kz] by (simp add: I_def)
      next
        case (2 y v)
        have "\<not> (calm w \<and> parents_present es)"
        proof
          assume g: "calm w \<and> parents_present es"
          have "open_way (mz_world z) P (parts e)"
            unfolding open_way_def
          proof (intro allI impI)
            fix k assume k: "k \<le> length (parts e)"
            consider "k = 0" | "k = length (parts e)" | "0 < k" "k < length (parts e)" using k by linarith
            then show "\<exists>m. disk (mz_world z) (P @ take k (parts e)) = Some (ItemDir m) \<and> allows (mz_world z) m OWNER_ALL"
            proof cases
              case 1
              then show ?thesis using pz by (auto simp: pic_def intro: allows_own)
            next
              case 2
              have "e \<notin> set passed" using larger by auto
              then have "mid passed e = ItemDir OWNER_ALL" using True by (simp add: mid_def unfinished_item_def)
              then show ?thesis using pz e 2 by (metis allows_own pic_def take_all_iff order_refl)
            next
              case 3
              then obtain a where a: "a \<in> set es" "is_directory a" "parts a = take k (parts e)" "entry_path a < entry_path e"
                using ancestor_entry [OF m, of e k] g e es by auto
              then have "a \<notin> set passed" using larger by auto
              then have "mid passed a = ItemDir OWNER_ALL" using a by (simp add: mid_def unfinished_item_def)
              then show ?thesis using pz a by (metis allows_own pic_def)
            qed
          qed
          then show False using 2 g steady_calm [OF kept_steady [OF kz]] by (simp add: P parts_def)
        qed
        then show ?case using 2 kept_trans [OF kz] touches_prefix [of "P @ parts e" "mz_world z" v P]
          by (simp add: P parts_def)
      qed
    qed
  qed
  moreover have "mid (rev es) e = expected_item env st (w_link_mode w) e" if "e \<in> set es" for e
    using that by (simp add: mid_def)
  ultimately show ?thesis
    by (auto simp: I_def elim!: after_mono intro: pic_cong)
qed

lemma build_tree_spec:
  assumes m: "manifest_ok (snapshot_content s)" and es: "es = manifest_entries (snapshot_content s)" and typed: "entries_typed es"
    and P: "dr_directory root = P" and n: "mz_sequence z = n" and w: "mz_world z = w"
    and empty: "disk w P = Some (ItemDir OWNER_ALL)" "\<And>q. q \<noteq> [] \<Longrightarrow> disk w (P @ q) = None"
  shows "after (build_tree env st s root maximum)
    (\<lambda>r z'. report_is es es es r \<and> kept n P w z'
       \<and> pic P (set es) (expected_item env st (w_link_mode w)) (disk (mz_world z')))
    (\<lambda>_ z'. kept n P w z' \<and> \<not> (calm w \<and> parents_present es \<and> objects_load env st maximum es)) z"
proof -
  have all: "{e \<in> set es. is_directory e} \<union> {e \<in> set es. is_file e} \<union> {e \<in> set es. is_symlink e} = set es"
  proof (intro set_eqI iffI)
    fix x assume "x \<in> set es"
    then show "x \<in> {e \<in> set es. is_directory e} \<union> {e \<in> set es. is_file e} \<union> {e \<in> set es. is_symlink e}"
      by (cases "entry_kind x") (simp_all add: is_file_def is_symlink_def)
  qed auto
  have start: "report_is [] [] [] \<lparr>mr_destination = [], mr_files = 0, mr_directories = 0, mr_symlinks = 0,
      mr_logical_bytes = 0, mr_warnings = []\<rparr>" "kept n P w z"
      "pic P {} (unfinished_item env st (w_link_mode w)) (disk (mz_world z))"
    using n w pic_empty [OF empty] by (auto simp: report_is_def file_bytes_def kept_def)
  show ?thesis
    unfolding build_tree_def Let_def after_and_do es [symmetric]
  proof (rule after_mono [OF build_directories [OF m es typed P start]], goal_cases)
    case (1 r1 z1)
    then have h1: "report_is es [] [] r1" "kept n P w z1"
      "pic P {e \<in> set es. is_directory e} (unfinished_item env st (w_link_mode w)) (disk (mz_world z1))" by auto
    show ?case
    proof (rule after_mono [OF build_files [OF m es typed P h1]], goal_cases)
      case (1 r2 z2)
      then have h2: "report_is es es [] r2" "kept n P w z2" "pic P ({e \<in> set es. is_directory e} \<union> {e \<in> set es. is_file e})
          (unfinished_item env st (w_link_mode w)) (disk (mz_world z2))" by auto
      show ?case
      proof (rule after_mono [OF build_symlinks [OF m es typed P h2]], goal_cases)
        case (1 r3 z3)
        then have h3: "kept n P w z3" "pic P (set es) (unfinished_item env st (w_link_mode w)) (disk (mz_world z3))"
          unfolding all by auto
        show ?case
          by (rule after_mono [OF finish_directories [OF m es typed P h3]]) (use 1 in auto)
      qed auto
    qed auto
  qed auto
qed

end
