(* ===== verification/Restore_Install.thy ===== *)
theory Restore_Install
  imports Restore_Build
begin

section \<open>Installing a built tree\<close>

text \<open>
  The private names, the exchange of the destination with the built tree, and the outcome of
  \<open>materialize\<close> as a whole: what it leaves at the destination and elsewhere on success and
  after each failure.
\<close>

subsection \<open>Private names\<close>

definition unique_text :: "u32 \<Rightarrow> string \<Rightarrow> string \<Rightarrow> u64 \<Rightarrow> string" where
  "unique_text process_id label destination_name sequence =
     ''.rewind-'' @ to_string_lossy destination_name @ ''.'' @ label @ ''-''
       @ dec_text (unat process_id) @ ''-'' @ dec_text (unat sequence)"

lemma unique_name_eq:
  "unique_name pid label dn z = (Inr (unique_text pid label dn (mz_sequence z)), z\<lparr>mz_sequence := mz_sequence z + 1\<rparr>)"
  by (simp add: unique_name_def and_do_def inspect_def change_def give_def unique_text_def)

lemma after_unique_name [simp]:
  "after (unique_name pid label dn) Q E z \<longleftrightarrow>
     Q (unique_text pid label dn (mz_sequence z)) (z\<lparr>mz_sequence := mz_sequence z + 1\<rparr>)"
  by (simp add: after_def unique_name_eq)

lemma lossy_step_length: "bs \<noteq> [] \<Longrightarrow> min (length bs) (snd (lossy_step bs)) \<le> length (fst (lossy_step bs))"
  by (auto simp: lossy_step_def Let_def replacement_def)

lemma utf8_lossy_length: "length bs \<le> length (utf8_lossy bs)"
proof (induction bs rule: utf8_lossy.induct)
  case (1 bs)
  show ?case
  proof (cases "bs = []")
    case False
    then have "length (drop (snd (lossy_step bs)) bs) \<le> length (utf8_lossy (drop (snd (lossy_step bs)) bs))" using 1 by simp
    then show ?thesis using lossy_step_length [OF False] False by (subst utf8_lossy.simps) (simp add: min_def split: if_splits)
  qed simp
qed

lemma unique_text_longer: "unique_text pid label dn s \<noteq> dn"
proof
  assume "unique_text pid label dn s = dn"
  from arg_cong [OF this, of length] have "length (to_string_lossy dn) < length dn"
    by (simp add: unique_text_def)
  then show False using utf8_lossy_length [of "as_bytes dn"] by (simp add: to_string_lossy_def of_bytes_def)
qed

lemma unique_text_labels: "unique_text pid ''old'' dn s \<noteq> unique_text pid ''tmp'' dn t"
  by (simp add: unique_text_def)

lemma dec_text_chars: "c \<in> set (dec_text n) \<Longrightarrow> is_ascii_digit c"
proof (induction n rule: dec_text.induct)
  case (1 n)
  have "is_ascii_digit (digit_char (n mod 10))" for n
    by (simp add: digit_char_def is_ascii_digit_def)
  then show ?case using 1 by (subst (asm) dec_text.simps) (auto split: if_splits simp: digit_char_def is_ascii_digit_def)
qed

lemma unique_text_ok:
  assumes "name_ok dn" and label: "CHR ''/'' \<notin> set label" "nul \<notin> set label"
  shows "name_ok (unique_text pid label dn s)"
proof -
  have dec: "CHR ''/'' \<notin> set (dec_text n)" "nul \<notin> set (dec_text n)" for n
    using dec_text_chars [of "CHR ''/''" n] dec_text_chars [of nul n]
    by (auto simp: is_ascii_digit_def nul_def)
  have lossy: "CHR ''/'' \<notin> set (to_string_lossy dn)" "nul \<notin> set (to_string_lossy dn)"
    using assms(1) to_string_lossy_chars [of "CHR ''/''" dn] to_string_lossy_chars [of nul dn]
    by (auto simp: name_ok_def replacement_def byte_of_char_def nul_def)
  have nul: "nul \<noteq> CHR ''.''" "nul \<noteq> CHR ''r''" "nul \<noteq> CHR ''e''" "nul \<noteq> CHR ''w''" "nul \<noteq> CHR ''i''"
    "nul \<noteq> CHR ''n''" "nul \<noteq> CHR ''d''" "nul \<noteq> CHR ''-''"
    by (simp_all add: special_chars)
  show ?thesis
    using dec lossy label nul by (simp add: name_ok_def component_ok_def unique_text_def)
qed

lemma label_chars:
  "CHR ''/'' \<notin> set ''old''" "nul \<notin> set ''old''" "CHR ''/'' \<notin> set ''tmp''" "nul \<notin> set ''tmp''"
  by (simp_all add: special_chars)

subsection \<open>Moving a tree\<close>

lemma prefix_diverge: "a \<noteq> b \<Longrightarrow> prefix (d @ [a]) q \<Longrightarrow> \<not> prefix (d @ [b]) q"
  by (auto simp: prefix_def)

lemma move_at [simp]: "move d old new f (d @ new # r) = f (d @ old # r)"
  by (auto simp: move_def prefix_def)

lemma move_gone: "old \<noteq> new \<Longrightarrow> move d old new f (d @ old # r) = None"
  by (auto simp: move_def prefix_def)

lemma move_other: "\<not> prefix (d @ [old]) q \<Longrightarrow> \<not> prefix (d @ [new]) q \<Longrightarrow> move d old new f q = f q"
  by (simp add: move_def)

lemma disk_below: "disk w P = None \<Longrightarrow> disk w (P @ r) = None"
  by (simp add: disk_def view_below_None)

lemma disk_below_child: "disk w (d @ [c]) = None \<Longrightarrow> disk w (d @ c # r) = None"
  using disk_below [of w "d @ [c]" r] by simp

lemma move_back:
  assumes "a \<noteq> b" and "disk w (d @ [b]) = None"
  shows "move d b a (move d a b (disk w)) = disk w"
proof
  fix q
  consider r where "q = d @ a # r" | r where "q = d @ b # r" | "\<not> prefix (d @ [a]) q" "\<not> prefix (d @ [b]) q"
    by (auto simp: prefix_def)
  then show "move d b a (move d a b (disk w)) q = disk w q"
    by cases (use assms in \<open>simp_all add: move_gone move_other disk_below_child\<close>)
qed

subsection \<open>The steps of an installation\<close>

definition littered :: "u32 \<Rightarrow> string list \<Rightarrow> string \<Rightarrow> string \<Rightarrow> world \<Rightarrow> world \<Rightarrow> bool" where
  \<comment> \<open>at most the remains of a private tree, under a name that was free\<close>
  "littered pid d label dn w w' \<longleftrightarrow> steady w w' \<and> (disk w' = disk w
     \<or> (\<exists>s. disk w (d @ [unique_text pid label dn s]) = None \<and> touches (d @ [unique_text pid label dn s]) w w'))"

lemma quiet_littered: "quiet w w' \<Longrightarrow> littered pid d label dn w w'"
  by (simp add: littered_def quiet_steady quiet_disk [of w w'])

lemma quiet_littered_trans:
  "quiet u v \<Longrightarrow> littered pid d label dn v w \<Longrightarrow> littered pid d label dn u w"
  using quiet_disk [of u v] steady_trans [OF quiet_steady, of u v w] touches_trans [OF quiet_touches, of u v _ w]
  by (auto simp: littered_def)

lemma temporary_create_spec:
  assumes names: "name_ok dn" "CHR ''/'' \<notin> set label" "nul \<notin> set label" and d: "dr_directory parent = d"
  shows "after (temporary_create k pid parent label dn dest)
    (\<lambda>(name, root) z'. (\<exists>s. name = unique_text pid label dn s) \<and> dr_directory root = d @ [name]
       \<and> disk (mz_world z) (d @ [name]) = None \<and> steady (mz_world z) (mz_world z')
       \<and> disk (mz_world z') = (disk (mz_world z))(d @ [name] \<mapsto> ItemDir OWNER_ALL))
    (\<lambda>_ z'. littered pid d label dn (mz_world z) (mz_world z')
       \<and> \<not> (0 < k \<and> calm (mz_world z) \<and> open_way (mz_world z) d []
            \<and> disk (mz_world z) (d @ [unique_text pid label dn (mz_sequence z)]) = None)) z"
proof (induction k arbitrary: z)
  case 0
  show ?case by (simp add: quiet_littered)
next
  case (Suc k)
  let ?n = "unique_text pid label dn (mz_sequence z)"
  let ?z = "z\<lparr>mz_sequence := mz_sequence z + 1\<rparr>"
  have ok: "name_ok ?n" using unique_text_ok names by blast
  show ?case
    unfolding temporary_create.simps after_and_do after_unique_name after_outcome after_on_world
  proof (rule after_mono [OF create_child_directory_spec [OF ok]], goal_cases)
    case (1 root v)
    then show ?case by (auto simp: d)
  next
    case (2 e v)
    then have t: "littered pid d label dn (mz_world z) v"
      using quiet_littered [of "mz_world z" v] by (cases "disk (mz_world z) (d @ [?n]) = None") (auto simp: d littered_def touches_def)
    have no: "\<not> (calm (mz_world z) \<and> open_way (mz_world z) d [] \<and> disk (mz_world z) (d @ [?n]) = None)"
      using 2 by (simp add: d)
    show ?case
    proof (cases "\<exists>operation path. e = FsIo operation path EEXIST")
      case True
      then obtain operation path where e: "e = FsIo operation path EEXIST" by blast
      have q: "quiet (mz_world z) v" using 2 True by (simp add: d)
      show ?thesis
        unfolding sum.case e fs_error.case if_P [OF refl]
      proof (rule after_mono [OF Suc.IH [of "?z\<lparr>mz_world := v\<rparr>"]], goal_cases)
        case (1 x z')
        then show ?case using quiet_disk [OF q] steady_trans [OF quiet_steady [OF q]] by auto
      next
        case (2 x z')
        then show ?case using quiet_littered_trans [OF q] no by auto
      qed
    next
      case False
      then show ?thesis using t no by (auto split: fs_error.splits)
    qed
  qed
qed

lemma unique_available_name_spec:
  assumes names: "name_ok dn" "CHR ''/'' \<notin> set label" "nul \<notin> set label" and d: "dr_directory parent = d"
    and "tree_ok (mz_world z)"
  shows "after (unique_available_name k pid parent label dn dest)
    (\<lambda>name z'. (\<exists>s. name = unique_text pid label dn s) \<and> disk (mz_world z) (d @ [name]) = None \<and> quiet (mz_world z) (mz_world z'))
    (\<lambda>_ z'. quiet (mz_world z) (mz_world z')) z"
  using assms(5)
proof (induction k arbitrary: z)
  case 0
  show ?case by simp
next
  case (Suc k)
  let ?n = "unique_text pid label dn (mz_sequence z)"
  let ?z = "z\<lparr>mz_sequence := mz_sequence z + 1\<rparr>"
  have ok: "name_ok ?n" using unique_text_ok names by blast
  have tree: "tree_ok (mz_world ?z)" using Suc.prems by simp
  show ?case
    unfolding unique_available_name.simps after_and_do after_unique_name after_platform
  proof (rule after_mono [OF child_state_spec [OF ok tree]], goal_cases)
    case (1 s v)
    then have q: "quiet (mz_world z) v" by simp
    show ?case
    proof (cases "s = Absent")
      case True
      then show ?thesis using 1 by (auto simp: child_is_def d)
    next
      case False
      have "tree_ok v" using q Suc.prems quiet_steady [OF q] by (simp add: steady_def)
      then have "after (unique_available_name k pid parent label dn dest)
        (\<lambda>name z'. (\<exists>s. name = unique_text pid label dn s) \<and> disk v (d @ [name]) = None \<and> quiet v (mz_world z'))
        (\<lambda>_ z'. quiet v (mz_world z')) (?z\<lparr>mz_world := v\<rparr>)"
        using Suc.IH [of "?z\<lparr>mz_world := v\<rparr>"] by simp
      then show ?thesis using False quiet_disk [OF q] quiet_trans [OF q] by (auto elim!: after_mono)
    qed
  qed simp
qed

definition backup_name :: "u32 \<Rightarrow> string \<Rightarrow> string \<Rightarrow> bool" where
  "backup_name pid dn b \<longleftrightarrow> (\<exists>s. b = unique_text pid ''old'' dn s)"

lemma quiet_tree_ok: "quiet w v \<Longrightarrow> tree_ok w \<Longrightarrow> tree_ok v"
  using quiet_steady [of w v] by (simp add: steady_def)

lemma swap_in_spec:
  assumes dn: "name_ok dn" and t: "name_ok t" "t \<noteq> dn" "\<exists>s. t = unique_text pid ''tmp'' dn s"
    and d: "dr_directory parent = d" and tree: "tree_ok (mz_world z)" and v: "mz_world z = v"
  shows "after (swap_in pid parent t dn dest)
    (\<lambda>b z'. backup_name pid dn b \<and> disk v (d @ [b]) = None \<and> steady v (mz_world z')
       \<and> disk (mz_world z') = move d t dn (move d dn b (disk v)))
    (\<lambda>e z'. steady v (mz_world z') \<and> (disk (mz_world z') = disk v
       \<or> (\<exists>b x y. e = InstallRollback dest x y \<and> backup_name pid dn b \<and> disk v (d @ [b]) = None
            \<and> disk (mz_world z') = move d dn b (disk v)))) z"
  unfolding swap_in_def after_and_do
proof (rule after_mono [OF unique_available_name_spec [OF dn _ _ d tree]], goal_cases)
  case (3 b z1)
  then have b: "backup_name pid dn b" and none: "disk v (d @ [b]) = None" and q: "quiet v (mz_world z1)"
    by (auto simp: backup_name_def v)
  have bok: "name_ok b" using b unique_text_ok [OF dn label_chars(1,2)] by (auto simp: backup_name_def)
  have ne: "dn \<noteq> b" "t \<noteq> b"
    using b t(3) unique_text_longer unique_text_labels by (auto simp: backup_name_def) metis+
  show ?case
    unfolding after_platform
  proof (rule after_mono [OF rename_child_spec [OF dn bok ne(1)]], goal_cases)
    case (1 x v2)
    then have d2: "disk v2 = move d dn b (disk v)" and s2: "steady v v2"
      using quiet_disk [OF q] steady_trans [OF quiet_steady [OF q]] by (auto simp: d)
    show ?case
      unfolding after_outcome after_on_world
    proof (rule after_mono [OF rename_child_spec [OF t(1) dn t(2)]], goal_cases)
      case (1 y v3)
      then show ?case using b none s2 d2 steady_trans [OF s2, of v3] by (simp add: d)
    next
      case (2 e v3)
      then have q3: "quiet v2 v3" by simp
      have d3: "disk v3 = move d dn b (disk v)" and s3: "steady v v3"
        using quiet_disk [OF q3] d2 steady_trans [OF s2 quiet_steady [OF q3]] by simp_all
      show ?case
        unfolding sum.case after_and_do after_outcome after_on_world
      proof (rule after_mono [OF rename_child_spec [OF bok dn ne(1) [symmetric]]], goal_cases)
        case (1 y v4)
        then have "disk v4 = disk v" "steady v v4"
          using move_back [OF ne(1) none] d3 steady_trans [OF s3] by (auto simp: d)
        then show ?case by simp
      next
        case (2 e2 v4)
        then have "quiet v3 v4" by simp
        then have "disk v4 = move d dn b (disk v)" "steady v v4"
          using quiet_disk [of v3 v4] d3 steady_trans [OF s3 quiet_steady, of v4] by simp_all
        then show ?case using b none by simp blast
      qed
    qed
  next
    case (2 e v2)
    then have "quiet v v2" using quiet_trans [OF q] by simp
    then show ?case by (simp add: quiet_disk [of v v2] quiet_steady)
  qed
next
  case (4 e z1)
  then show ?case using quiet_disk [of v "mz_world z1"] quiet_steady by (simp add: v)
qed (simp_all add: special_chars)

lemma install_spec:
  assumes dn: "name_ok dn" and t: "name_ok t" "t \<noteq> dn" "\<exists>s. t = unique_text pid ''tmp'' dn s"
    and d: "dr_directory parent = d" and tree: "tree_ok (mz_world z)" and v: "mz_world z = v"
    and built: "\<exists>m. disk v (d @ [t]) = Some (ItemDir m)"
  shows "after (install pid parent t dn dest)
    (\<lambda>b z'. steady v (mz_world z') \<and> (case b of
         None \<Rightarrow> disk v (d @ [dn]) = None \<and> disk (mz_world z') = move d t dn (disk v)
       | Some k \<Rightarrow> backup_name pid dn k \<and> disk v (d @ [k]) = None
           \<and> disk (mz_world z') = move d t dn (move d dn k (disk v)) \<and> disk v (d @ [dn]) \<noteq> None))
    (\<lambda>e z'. steady v (mz_world z') \<and> (disk (mz_world z') = disk v
       \<or> (\<exists>b x y. e = InstallRollback dest x y \<and> backup_name pid dn b \<and> disk v (d @ [b]) = None
            \<and> disk (mz_world z') = move d dn b (disk v)))
       \<and> \<not> (calm v \<and> open_way v d [] \<and> disk v (d @ [dn]) = None)) z"
  unfolding install_def after_and_do after_platform
proof (rule after_mono [OF child_state_spec [OF dn tree]], goal_cases)
  case (1 s v1)
  then have q: "quiet v v1" and s: "child_is v (d @ [dn]) s" by (simp_all add: d v)
  show ?case
  proof (cases "s = Absent")
    case True
    then have none: "disk v (d @ [dn]) = None" using s by (simp add: child_is_def)
    show ?thesis
      unfolding if_P [OF True] after_and_do after_platform
    proof (rule after_mono [OF rename_child_spec [OF t(1) dn t(2)]], goal_cases)
      case (1 x v2)
      then show ?case using none quiet_disk [OF q] steady_trans [OF quiet_steady [OF q]] by (auto simp: d)
    next
      case (2 x v2)
      then have q2: "quiet v v2" using quiet_trans [OF q] by simp
      have "\<not> (calm v \<and> open_way v d [])"
        using 2 none built quiet_calm [OF q] quiet_disk [OF q] quiet_allows [OF q] by (auto simp: d open_way_Nil)
      then show ?case using quiet_disk [OF q2] quiet_steady [OF q2] by auto
    qed
  next
    case False
    then have some: "disk v (d @ [dn]) \<noteq> None" using s by (cases s) (auto simp: child_is_def)
    have tree1: "tree_ok v1" using quiet_tree_ok [OF q] tree v by simp
    show ?thesis
      unfolding if_not_P [OF False] after_and_do
    proof (rule after_mono [OF swap_in_spec [OF dn t d, where v = v1]], goal_cases)
      case (3 b z')
      then show ?case using some quiet_disk [OF q] steady_trans [OF quiet_steady [OF q]] by auto
    next
      case (4 e z')
      then show ?case using some quiet_disk [OF q] steady_trans [OF quiet_steady [OF q]] by auto
    qed (use tree1 in auto)
  qed
next
  case (2 e v1)
  then have q: "quiet v v1" by (simp add: v)
  have "\<not> (calm v \<and> open_way v d [] \<and> disk v (d @ [dn]) = None)" using 2 by (auto simp: v d)
  then show ?case using quiet_disk [OF q] quiet_steady [OF q] by auto
qed

subsection \<open>The whole restore\<close>

lemma reach_at: "reach w n p = Inr m \<Longrightarrow> at n p = Some m"
proof (induction p arbitrary: n)
  case (Cons c p)
  then obtain k where "map_of (children n) c = Some k" "reach w k p = Inr m"
    by (auto simp: and_then_Inr_iff split: if_splits)
  then show ?case using Cons.IH by simp
qed simp

definition reachable_dir :: "world \<Rightarrow> string list \<Rightarrow> bool" where
  "reachable_dir w p \<longleftrightarrow> (\<exists>a cs. reach w (w_tree w) p = Inr (DirNode a cs) \<and> allows w (at_mode a) S_IRUSR)"

lemma quiet_reach: "quiet w u \<Longrightarrow> reach u n p = reach w n p"
  by (induction p arbitrary: n) (simp_all add: quiet_grants [of w u] cong: if_cong)

lemma directory_root_open_spec:
  "after (directory_root_open p)
    (\<lambda>r w'. quiet w w' \<and> dr_directory r = p \<and> (\<exists>m. disk w p = Some (ItemDir m)))
    (\<lambda>_ w'. quiet w w' \<and> \<not> (calm w \<and> reachable_dir w p)) w"
  unfolding directory_root_open_def after_and_do after_io_err open_directory_path_def
proof (rule after_read_from [OF quiet_refl], goal_cases)
  case (1 u)
  then show ?case
    using quiet_grants [OF 1] quiet_reach [OF 1] by (simp add: quiet_fields [OF 1] cong: node.case_cong)
next
  case (2 x u)
  then obtain n where n: "reach w (w_tree w) p = Inr n" and "x = p" and "is_dir n"
  proof (cases "reach w (w_tree w) p")
    case (Inr m)
    with 2 that [of m] show thesis by (cases m) (auto split: if_splits)
  qed simp
  then show ?case using 2 reach_at [OF n] by (auto simp: disk_def view_def is_dir_view)
next
  case (3 e u)
  then show ?case by (auto simp: reachable_dir_def grants_allows device_def)
qed

lemma touches_not_under: "touches P w w' \<Longrightarrow> \<not> prefix P q \<Longrightarrow> disk w' q = disk w q"
  by (simp add: touches_def)

lemma touches_sibling: "touches (d @ [t]) w w' \<Longrightarrow> t \<noteq> c \<Longrightarrow> disk w' (d @ c # r) = disk w (d @ c # r)"
  by (rule touches_not_under) (auto simp: prefix_def)

lemma steady_open_way: "steady w w' \<Longrightarrow> touches (d @ [t]) w w' \<Longrightarrow> open_way w' d [] = open_way w d []"
  by (simp add: open_way_Nil steady_allows touches_not_under)

definition rolled_back :: "u32 \<Rightarrow> string \<Rightarrow> string \<Rightarrow> string list \<Rightarrow> world \<Rightarrow> world \<Rightarrow> snapshot_error \<Rightarrow> bool" where
  \<comment> \<open>neither the new tree nor the old one could be given the destination's name: the old tree
     is whole under a backup name\<close>
  "rolled_back pid dn t dest w w' e \<longleftrightarrow> (\<exists>b x y. e = InstallRollback dest x y \<and> backup_name pid dn b
     \<and> disk w (butlast dest @ [b]) = None \<and> (\<forall>r. disk w' (butlast dest @ dn # r) = None)
     \<and> (\<forall>r. disk w' (butlast dest @ b # r) = disk w (butlast dest @ dn # r))
     \<and> (\<forall>q. \<not> prefix (butlast dest @ [dn]) q \<longrightarrow> \<not> prefix (butlast dest @ [b]) q \<longrightarrow> \<not> prefix (butlast dest @ [t]) q
          \<longrightarrow> disk w' q = disk w q))"

lemma rolled_back_touch:
  assumes "rolled_back pid dn t (d @ [dn]) w v e" and "touches (d @ [t]) v v'" and "t \<noteq> dn" and "\<exists>s. t = unique_text pid ''tmp'' dn s"
  shows "rolled_back pid dn t (d @ [dn]) w v' e"
proof -
  have "b \<noteq> t" if "backup_name pid dn b" for b
    using that assms(4) unique_text_labels by (auto simp: backup_name_def)
  then show ?thesis
    using assms(1,3) touches_sibling [OF assms(2)] touches_not_under [OF assms(2)]
    unfolding rolled_back_def butlast_snoc by (metis (no_types, lifting))
qed

lemma build_and_install:
  fixes s :: snapshot
  assumes m: "manifest_ok (snapshot_content s)" and es: "es = manifest_entries (snapshot_content s)" and typed: "entries_typed es"
    and dn: "name_ok dn" and t: "name_ok t" "t \<noteq> dn" "\<exists>s. t = unique_text pid ''tmp'' dn s"
    and d: "dr_directory parent = d" and root: "dr_directory root = d @ [t]"
    and tree: "tree_ok (mz_world z)" and v: "mz_world z = v"
    and new: "disk v = (disk w)(d @ [t] \<mapsto> ItemDir OWNER_ALL)" "disk w (d @ [t]) = None" "steady w v"
  defines "D \<equiv> d @ [dn]"
  shows "after (and_do (build_tree env st s root maximum) (\<lambda>report.
        and_do (platform (sync_root root)) (\<lambda>_.
        and_do (recheck parent force dn D state) (\<lambda>_.
        and_do (install pid parent t dn D) (\<lambda>backup. give (report, backup))))))
    (\<lambda>(report, b) z'. report_is es es es report \<and> steady w (mz_world z')
       \<and> (\<exists>f. (\<forall>q. \<not> prefix (d @ [t]) q \<longrightarrow> f q = disk w q) \<and> pic (d @ [t]) (set es) (expected_item env st (w_link_mode w)) f
            \<and> (case b of None \<Rightarrow> disk (mz_world z') = move d t dn f
               | Some k \<Rightarrow> backup_name pid dn k \<and> f (d @ [k]) = None \<and> f D \<noteq> None
                   \<and> disk (mz_world z') = move d t dn (move d dn k f))))
    (\<lambda>e z'. steady w (mz_world z') \<and> (touches (d @ [t]) w (mz_world z') \<or> rolled_back pid dn t D w (mz_world z') e)
       \<and> \<not> (calm w \<and> parents_present es \<and> objects_load env st maximum es \<and> open_way w d [] \<and> disk w D = None)) z"
proof -
  let ?T = "d @ [t]"
  have wv: "touches ?T w v" using touches_update [OF new(3), of ?T "[]"] new(1) by simp
  have lm: "w_link_mode v = w_link_mode w" using new(3) by (simp add: steady_def)
  have empty: "disk v ?T = Some (ItemDir OWNER_ALL)" "disk v (?T @ q) = None" if "q \<noteq> []" for q
    using that new disk_below [of w ?T q] by auto
  have emptyT: "disk v ?T = Some (ItemDir OWNER_ALL)" using new by simp
  show ?thesis
    unfolding after_and_do
  proof (rule after_mono [OF build_tree_spec [OF m es typed root refl v emptyT]], goal_cases)
    case (1 q)
    then show ?case using empty by blast
  next
    case (2 report z1)
    define v1 where "v1 = mz_world z1"
    have r: "report_is es es es report" and t1: "touches ?T v v1" and pic: "pic ?T (set es) (expected_item env st (w_link_mode w)) (disk v1)"
      using 2 lm by (auto simp: kept_def v1_def)
    have w1: "touches ?T w v1" using touches_trans [OF wv t1] .
    show ?case
      unfolding after_platform sync_root_def after_io_err v1_def [symmetric]
    proof (rule after_mono [OF sync_all_spec], goal_cases)
      case (1 x v2)
      have w2: "touches ?T w v2" using touches_trans [OF w1 quiet_touches [OF 1]] .
      have d2: "disk v2 = disk v1" using quiet_disk [OF 1] .
      have s2: "steady w v2" using w2 by (simp add: touches_def)
      have ow: "open_way v2 d [] = open_way w d []" using steady_open_way [OF s2 w2] .
      have same_D: "disk v2 D = disk w D" using touches_sibling [OF w2 t(2), of "[]"] by (simp add: D_def)
      have tree2: "tree_ok v2" using s2 tree v new(3) t1 1 quiet_tree_ok by (auto simp: touches_def steady_def)
      have calm2: "calm v2 = calm w" using steady_calm [OF s2] .
      have re: "after (recheck parent force dn D state)
          (\<lambda>_ z'. quiet v2 (mz_world z'))
          (\<lambda>_ z'. quiet v2 (mz_world z') \<and> \<not> (calm w \<and> open_way w d [] \<and> disk w D = None)) (z1\<lparr>mz_world := v2\<rparr>)"
      proof (cases force)
        case True
        then show ?thesis by (simp add: recheck_def)
      next
        case False
        have tz: "tree_ok (mz_world (z1\<lparr>mz_world := v2\<rparr>))" using tree2 by simp
        show ?thesis
          unfolding recheck_def if_P [OF False] after_and_do after_platform
        proof (rule after_mono [OF child_state_spec [OF dn tz]], goal_cases)
          case (1 current v3)
          then show ?case using same_D by (auto simp: child_is_def d D_def [symmetric] split: directory_child_state.splits)
        next
          case (2 e v3)
          then show ?case using ow same_D calm2 by (auto simp: d D_def [symmetric])
        qed
      qed
      show ?case
      proof (rule after_mono [OF re], goal_cases)
        case (1 y z3)
        define v3 where "v3 = mz_world z3"
        have q3: "quiet v2 v3" using 1 by (simp add: v3_def)
        have w3: "touches ?T w v3" using touches_trans [OF w2 quiet_touches [OF q3]] .
        have s3: "steady w v3" using w3 by (simp add: touches_def)
        have d3: "disk v3 = disk v1" using quiet_disk [OF q3] d2 by simp
        have tree3: "tree_ok (mz_world z3)" using quiet_tree_ok [OF q3 tree2] by (simp add: v3_def)
        have built: "\<exists>m. disk v3 ?T = Some (ItemDir m)" using pic d3 by (auto simp: pic_def)
        show ?case
        proof (rule after_mono [OF install_spec [OF dn t d tree3 v3_def [symmetric] built]], goal_cases)
          case (1 b z4)
          then show ?case using r w3 d3 pic steady_trans [OF s3]
            by (auto simp: D_def touches_def intro!: exI [of _ "disk v1"] split: option.splits)
        next
          case (2 e z4)
          have rolled: "rolled_back pid dn t D w (mz_world z4) e" if "e = InstallRollback D x y" "backup_name pid dn b"
            "disk v3 (d @ [b]) = None" "disk (mz_world z4) = move d dn b (disk v3)" for b x y
          proof -
            have bt: "b \<noteq> t" "dn \<noteq> b" using that(2) t(3) unique_text_labels unique_text_longer
              by (auto simp: backup_name_def) metis+
            have "disk (mz_world z4) q = disk w q"
              if "\<not> prefix D q" "\<not> prefix (d @ [b]) q" "\<not> prefix ?T q" for q
              using that \<open>disk (mz_world z4) = move d dn b (disk v3)\<close> touches_not_under [OF w3, of q] by (simp add: move_other D_def)
            moreover have "disk (mz_world z4) (d @ b # r) = disk w (d @ dn # r)" for r
              using that(4) touches_sibling [OF w3 t(2), of r] by simp
            moreover have "disk (mz_world z4) (d @ dn # r) = None" for r
              using that(4) move_gone [OF bt(2)] by simp
            moreover have "disk w (d @ [b]) = None"
              using that(3) touches_sibling [OF w3 bt(1) [symmetric], of "[]"] by simp
            ultimately show ?thesis using that(1,2) unfolding rolled_back_def D_def butlast_snoc by blast
          qed
          have "steady w (mz_world z4)" using 2 steady_trans [OF s3] by blast
          moreover have "touches ?T w (mz_world z4)" if "disk (mz_world z4) = disk v3"
            using that w3 \<open>steady w (mz_world z4)\<close> by (simp add: touches_def)
          moreover have "\<not> (calm w \<and> open_way w d [] \<and> disk w D = None)"
            using 2 steady_open_way [OF s3 w3] steady_calm [OF s3] touches_sibling [OF w3 t(2), of "[]"] by (auto simp: D_def)
          ultimately show ?case using 2 rolled by (auto simp: D_def)
        qed
      next
        case (2 e z3)
        then have "touches ?T w (mz_world z3)" using touches_trans [OF w2 quiet_touches] by blast
        then show ?case using 2 by (auto simp: touches_def)
      qed
    next
      case (2 e v2)
      then have "touches ?T w v2" using touches_trans [OF w1 quiet_touches] by blast
      then show ?case using 2 steady_calm [of w v1] w1 by (auto simp: touches_def device_def)
    qed
  next
    case (3 e z1)
    then have "touches ?T w (mz_world z1)" using touches_trans [OF wv] by (simp add: kept_def)
    then show ?case using 3 steady_calm [OF new(3)] by (auto simp: touches_def)
  qed
qed

end
