(* ===== verification/Restore_Outcome.thy ===== *)
theory Restore_Outcome
  imports Restore_Install
begin

section \<open>Restoring a snapshot, as a whole\<close>

text \<open>
  What \<open>materialize\<close> leaves on the disk: on success exactly the snapshot at the destination,
  and after every failure the old tree, the new tree, or the old tree under a backup name.
\<close>

subsection \<open>Preflight\<close>

definition objects_available :: "'j env \<Rightarrow> 'j store \<Rightarrow> u64 \<Rightarrow> snapshot_entry list \<Rightarrow> bool" where
  "objects_available env st maximum es \<longleftrightarrow> (\<forall>e \<in> set es. \<forall>i n x. entry_kind e = File i n x \<longrightarrow>
     n \<le> maximum \<and> (\<exists>bs. load_object env st i n = Inr bs \<and> of_nat (length bs) = n))"

lemma map_le_Some: "m \<subseteq>\<^sub>m m' \<Longrightarrow> m k = Some v \<Longrightarrow> m' k = Some v"
  by (metis domI map_le_def)

definition file_check :: "(object_id \<Rightarrow> u64 \<Rightarrow> bool) \<Rightarrow> snapshot_entry \<Rightarrow> bool" where
  "file_check ok e = (case entry_kind e of File i n _ \<Rightarrow> ok i n | _ \<Rightarrow> True)"

lemma file_check_iff: "file_check ok e \<longleftrightarrow> (\<forall>i n x. entry_kind e = File i n x \<longrightarrow> ok i n)"
  by (simp add: file_check_def split: snapshot_entry_kind.split)

lemma collect_objects_Inr:
  "collect_objects maximum es objs = Inr objs' \<Longrightarrow> map_of objs \<subseteq>\<^sub>m map_of objs' \<and>
     list_all (file_check (\<lambda>i n. n \<le> maximum \<and> (\<exists>p. map_of objs' i = Some (n, p)))) es"
proof (induction es arbitrary: objs)
  case (Cons e es)
  show ?case
  proof (cases "entry_kind e")
    case (File i n x)
    show ?thesis
    proof (cases "map_of objs i")
      case None
      then have le: "n \<le> maximum" and c: "collect_objects maximum es (objs @ [(i, n, entry_path e)]) = Inr objs'"
        using Cons.prems File by (auto split: if_splits)
      have "map_of objs \<subseteq>\<^sub>m map_of (objs @ [(i, n, entry_path e)])"
        by (auto simp: map_le_def map_of_append map_add_def split: option.splits)
      moreover have "map_of (objs @ [(i, n, entry_path e)]) i = Some (n, entry_path e)"
        using None by (simp add: map_of_append map_add_def)
      ultimately have "map_of objs \<subseteq>\<^sub>m map_of objs'" "map_of objs' i = Some (n, entry_path e)"
        using map_le_trans [OF _ conjunct1 [OF Cons.IH [OF c]]] map_le_Some [OF conjunct1 [OF Cons.IH [OF c]]] by simp_all
      then show ?thesis using Cons.IH [OF c] le File by (simp add: file_check_def)
    next
      case (Some a)
      then obtain p where "a = (n, p)" and le: "n \<le> maximum" and c: "collect_objects maximum es objs = Inr objs'"
        using Cons.prems File Some by (cases a) (auto split: if_splits)
      then have "map_of objs' i = Some (n, p)" using Cons.IH [OF c] Some map_le_Some [OF conjunct1 [OF Cons.IH [OF c]]] by simp
      then show ?thesis using Cons.IH [OF c] le File by (simp add: file_check_def)
    qed
  qed (use Cons in \<open>simp_all add: file_check_def\<close>)
qed simp

lemma collect_objects_total:
  assumes "\<forall>e \<in> set es. \<forall>i n x. entry_kind e = File i n x \<longrightarrow> n \<le> maximum \<and> n = size_at i"
    and "\<forall>(i, n, p) \<in> set objs. n = size_at i"
  shows "\<exists>objs'. collect_objects maximum es objs = Inr objs' \<and>
     (\<forall>(i, n, p) \<in> set objs'. (i, n, p) \<in> set objs \<or> (\<exists>e \<in> set es. \<exists>x. entry_kind e = File i n x))"
  using assms
proof (induction es arbitrary: objs)
  case Nil
  then show ?case by auto
next
  case (Cons e es)
  show ?case
  proof (cases "entry_kind e")
    case (File i n x)
    have le: "n \<le> maximum" "n = size_at i" using Cons.prems(1) File by auto
    show ?thesis
    proof (cases "map_of objs i")
      case None
      have "\<exists>objs'. collect_objects maximum es (objs @ [(i, n, entry_path e)]) = Inr objs' \<and>
        (\<forall>(i', n', p) \<in> set objs'. (i', n', p) \<in> set (objs @ [(i, n, entry_path e)])
           \<or> (\<exists>e \<in> set es. \<exists>x. entry_kind e = File i' n' x))"
        by (rule Cons.IH) (use Cons.prems le in auto)
      then show ?thesis using None File le by fastforce
    next
      case (Some a)
      then obtain p where a: "a = (n, p)" using Cons.prems(2) le map_of_SomeD [OF Some] by (cases a) auto
      have "\<exists>objs'. collect_objects maximum es objs = Inr objs' \<and>
        (\<forall>(i, n, p) \<in> set objs'. (i, n, p) \<in> set objs \<or> (\<exists>e \<in> set es. \<exists>x. entry_kind e = File i n x))"
        by (rule Cons.IH) (use Cons.prems in auto)
      then show ?thesis using Some File le a by fastforce
    qed
  next
    case Directory
    have "\<exists>objs'. collect_objects maximum es objs = Inr objs' \<and>
      (\<forall>(i, n, p) \<in> set objs'. (i, n, p) \<in> set objs \<or> (\<exists>e \<in> set es. \<exists>x. entry_kind e = File i n x))"
      by (rule Cons.IH) (use Cons.prems in auto)
    then show ?thesis using Directory by fastforce
  next
    case (Symlink t)
    have "\<exists>objs'. collect_objects maximum es objs = Inr objs' \<and>
      (\<forall>(i, n, p) \<in> set objs'. (i, n, p) \<in> set objs \<or> (\<exists>e \<in> set es. \<exists>x. entry_kind e = File i n x))"
      by (rule Cons.IH) (use Cons.prems in auto)
    then show ?thesis using Symlink by fastforce
  qed
qed

lemma load_object_size:
  assumes "load_object env st i n = Inr bs"
  shows "length bs = length (the (st_files st (path_for i))) - HEADER_LEN"
  using assms by (auto simp: load_object_Inr_iff holds_object_def HEADER_LEN_def)

lemma preflight_objects_Inr_iff:
  "preflight_objects env st s maximum = Inr () \<longleftrightarrow>
     objects_available env st maximum (manifest_entries (snapshot_content s))"
proof -
  let ?es = "manifest_entries (snapshot_content s)"
  have loads: "map_ok (\<lambda>_. ()) (load_exact env st i n p) = Inr () \<longleftrightarrow>
      (\<exists>bs. load_object env st i n = Inr bs \<and> of_nat (length bs) = n)" for i n p
    by (simp add: map_ok_Inr_iff load_exact_Inr_iff)
  show ?thesis
  proof
    assume "preflight_objects env st s maximum = Inr ()"
    then obtain objs where c: "collect_objects maximum ?es [] = Inr objs"
      and l: "\<forall>(i, n, p) \<in> set objs. \<exists>bs. load_object env st i n = Inr bs \<and> of_nat (length bs) = n"
      by (auto simp: preflight_objects_def and_then_Inr_iff for_each_Inr_iff loads split_def)
    show "objects_available env st maximum ?es"
      using collect_objects_Inr [OF c] l
      by (fastforce simp: objects_available_def list_all_iff file_check_iff dest: map_of_SomeD)
  next
    assume a: "objects_available env st maximum ?es"
    define size_at where "size_at i = (of_nat (length (the (st_files st (path_for i))) - HEADER_LEN) :: u64)" for i
    have "\<forall>e \<in> set ?es. \<forall>i n x. entry_kind e = File i n x \<longrightarrow> n \<le> maximum \<and> n = size_at i"
      using a load_object_size by (fastforce simp: objects_available_def size_at_def)
    from collect_objects_total [OF this, of "[]"] obtain objs where c: "collect_objects maximum ?es [] = Inr objs"
      and l: "\<forall>(i, n, p) \<in> set objs. \<exists>e \<in> set ?es. \<exists>x. entry_kind e = File i n x" by auto
    have "\<exists>bs. load_object env st i n = Inr bs \<and> of_nat (length bs) = n" if "(i, n, p) \<in> set objs" for i n p
      using l that a by (fastforce simp: objects_available_def)
    then show "preflight_objects env st s maximum = Inr ()"
      by (auto simp: preflight_objects_def c for_each_Inr_iff loads)
  qed
qed

lemma objects_available_load:
  "objects_available env st maximum es \<Longrightarrow> unat maximum \<le> MAX_FILE_LEN \<Longrightarrow> file_bytes es < 2 ^ 64
    \<Longrightarrow> objects_load env st maximum es"
  unfolding objects_available_def objects_load_def word_le_nat_alt
  by (intro ballI allI impI conjI) (blast intro: order_trans | assumption)+

subsection \<open>Outcomes\<close>

definition occupied :: "world \<Rightarrow> string list \<Rightarrow> bool" where
  \<comment> \<open>something other than an empty directory is there\<close>
  "occupied w p \<longleftrightarrow> child_is w p Occupied"

definition restored :: "'j env \<Rightarrow> 'j store \<Rightarrow> snapshot_entry list \<Rightarrow> string list \<Rightarrow> world \<Rightarrow> world \<Rightarrow> bool" where
  \<comment> \<open>the destination is the tree of the manifest and nothing else has changed\<close>
  "restored env st es dest w w' \<longleftrightarrow> steady w w'
     \<and> pic dest (set es) (expected_item env st (w_link_mode w)) (disk w')
     \<and> (\<forall>q. \<not> prefix dest q \<longrightarrow> disk w' q = disk w q)"

definition restored_beside :: "u32 \<Rightarrow> 'j env \<Rightarrow> 'j store \<Rightarrow> snapshot_entry list \<Rightarrow> string list \<Rightarrow> world \<Rightarrow> world \<Rightarrow> bool" where
  \<comment> \<open>the same, but a backup of the old tree was not removed completely\<close>
  "restored_beside pid env st es dest w w' \<longleftrightarrow> steady w w'
     \<and> pic dest (set es) (expected_item env st (w_link_mode w)) (disk w')
     \<and> (\<exists>b. backup_name pid (last dest) b \<and> disk w (butlast dest @ [b]) = None
          \<and> (\<forall>q. \<not> prefix dest q \<longrightarrow> \<not> prefix (butlast dest @ [b]) q \<longrightarrow> disk w' q = disk w q))"

definition settled :: "u32 \<Rightarrow> 'j env \<Rightarrow> 'j store \<Rightarrow> snapshot_entry list \<Rightarrow> string list \<Rightarrow> world \<Rightarrow> world \<Rightarrow> snapshot_error \<Rightarrow> bool" where
  \<comment> \<open>what a failed restore may leave behind\<close>
  "settled pid env st es dest w w' e \<longleftrightarrow>
     littered pid (butlast dest) ''tmp'' (last dest) w w'
     \<or> restored env st es dest w w'
     \<or> restored_beside pid env st es dest w w'
     \<or> steady w w' \<and> (\<exists>s. disk w (butlast dest @ [unique_text pid ''tmp'' (last dest) s]) = None
          \<and> rolled_back pid (last dest) (unique_text pid ''tmp'' (last dest) s) dest w w' e)"

lemma pic_moved:
  assumes "pic (d @ [t]) A it f" and "\<And>r. g (d @ dn # r) = f (d @ t # r)"
  shows "pic (d @ [dn]) A it g"
  using assms(1) unfolding pic_def by (simp add: assms(2))

lemma moved_in:
  assumes t: "t \<noteq> dn" and free: "disk w (d @ [t]) = None"
    and f: "\<And>q. \<not> prefix (d @ [t]) q \<Longrightarrow> f q = disk w q"
    and p: "pic (d @ [t]) (set es) (expected_item env st (w_link_mode w)) f"
    and w': "steady w w'" "disk w' = move d t dn f"
  shows "restored env st es (d @ [dn]) w w'"
proof -
  have "disk w' q = disk w q" if "\<not> prefix (d @ [dn]) q" for q
  proof (cases "prefix (d @ [t]) q")
    case True
    then obtain r where "q = d @ t # r" by (auto simp: prefix_def)
    then show ?thesis using move_gone [OF t] disk_below_child [OF free] w' by simp
  next
    case False
    then show ?thesis using that w' f move_other by simp
  qed
  then show ?thesis using pic_moved [OF p, of "disk w'" dn] w' by (simp add: restored_def)
qed

lemma swapped_in:
  assumes names: "t \<noteq> dn" "t \<noteq> b" "dn \<noteq> b" and b: "backup_name pid dn b" and free: "disk w (d @ [t]) = None"
    and f: "\<And>q. \<not> prefix (d @ [t]) q \<Longrightarrow> f q = disk w q" and fb: "f (d @ [b]) = None"
    and p: "pic (d @ [t]) (set es) (expected_item env st (w_link_mode w)) f"
    and v: "steady w v" "disk v = move d t dn (move d dn b f)" and w': "touches (d @ [b]) v w'"
  shows "restored_beside pid env st es (d @ [dn]) w w'"
    and "disk w' = forget (d @ [b]) (disk v) \<Longrightarrow> restored env st es (d @ [dn]) w w'"
proof -
  have none: "disk w (d @ [b]) = None" using f [of "d @ [b]"] fb names(2) by (auto simp: prefix_def)
  have steady: "steady w w'" using w' v(1) steady_trans by (auto simp: touches_def)
  have new: "disk w' (d @ dn # r) = f (d @ t # r)" for r
    using touches_sibling [OF w' names(3) [symmetric], of r] v(2) names by (simp add: move_other prefix_def)
  have pic: "pic (d @ [dn]) (set es) (expected_item env st (w_link_mode w)) (disk w')"
    using p new by (rule pic_moved)
  have other: "disk w' q = disk w q" if q: "\<not> prefix (d @ [dn]) q" "\<not> prefix (d @ [b]) q" for q
  proof (cases "prefix (d @ [t]) q")
    case True
    then obtain r where "q = d @ t # r" by (auto simp: prefix_def)
    then show ?thesis
      using touches_sibling [OF w' names(2) [symmetric], of r] v(2) move_gone [OF names(1)] disk_below_child [OF free] by simp
  next
    case False
    then show ?thesis using q touches_not_under [OF w' q(2)] v(2) f by (simp add: move_other)
  qed
  show "restored_beside pid env st es (d @ [dn]) w w'"
    using steady pic b none other by (auto simp: restored_beside_def)
  show "restored env st es (d @ [dn]) w w'" if g: "disk w' = forget (d @ [b]) (disk v)"
  proof -
    have "disk w' q = disk w q" if "\<not> prefix (d @ [dn]) q" for q
    proof (cases "prefix (d @ [b]) q")
      case True
      then obtain r where "q = d @ b # r" by (auto simp: prefix_def)
      then show ?thesis using g disk_below_child [OF none] by (simp add: forget_def)
    next
      case False
      then show ?thesis using other that by blast
    qed
    then show ?thesis using steady pic by (simp add: restored_def)
  qed
qed

lemma restored_quiet: "restored env st es dest w v \<Longrightarrow> quiet v v' \<Longrightarrow> restored env st es dest w v'"
  using quiet_disk [of v v'] steady_trans [OF _ quiet_steady, of w v v'] by (simp add: restored_def)

lemma clean_up:
  fixes z :: materializer
  assumes dn: "name_ok dn" and t: "t \<noteq> dn" "\<exists>s. t = unique_text pid ''tmp'' dn s" and d: "dr_directory parent = d"
    and free: "disk w (d @ [t]) = None"
    and f: "\<And>q. \<not> prefix (d @ [t]) q \<Longrightarrow> f q = disk w q"
    and p: "pic (d @ [t]) (set es) (expected_item env st (w_link_mode w)) f"
    and v: "steady w (mz_world z)"
    and b: "case b of None \<Rightarrow> disk (mz_world z) = move d t dn f
       | Some k \<Rightarrow> backup_name pid dn k \<and> f (d @ [k]) = None \<and> f (d @ [dn]) \<noteq> None
           \<and> disk (mz_world z) = move d t dn (move d dn k f)"
  shows "after (and_do (case b of None \<Rightarrow> give () | Some b \<Rightarrow> platform (remove_child parent b)) (\<lambda>_.
        and_do (platform (sync_root parent)) (\<lambda>_. give r)))
    (\<lambda>r' z'. r' = r \<and> restored env st es (d @ [dn]) w (mz_world z'))
    (\<lambda>_ z'. (restored env st es (d @ [dn]) w (mz_world z') \<or> restored_beside pid env st es (d @ [dn]) w (mz_world z'))
       \<and> \<not> (calm w \<and> disk w (d @ [dn]) = None)) z"
proof -
  have rest: "after (and_do (platform (sync_root parent)) (\<lambda>_. give r))
      (\<lambda>r' z'. r' = r \<and> restored env st es (d @ [dn]) w (mz_world z'))
      (\<lambda>_ z'. (restored env st es (d @ [dn]) w (mz_world z') \<or> restored_beside pid env st es (d @ [dn]) w (mz_world z'))
         \<and> \<not> (calm w \<and> disk w (d @ [dn]) = None)) z1"
    if "restored env st es (d @ [dn]) w (mz_world z1)" for z1
    unfolding after_and_do after_platform sync_root_def after_io_err
  proof (rule after_mono [OF sync_all_spec], goal_cases)
    case (1 x u)
    then show ?case using restored_quiet [OF that] by simp
  next
    case (2 e u)
    then have "\<not> calm w" using steady_calm [of w "mz_world z1"] that by (auto simp: restored_def device_def)
    then show ?case using 2 restored_quiet [OF that] by simp
  qed
  show ?thesis
  proof (cases b)
    case None
    then have "restored env st es (d @ [dn]) w (mz_world z)" using moved_in [OF t(1) free f p v] b by simp
    then show ?thesis
      unfolding None option.case after_and_do [of "give ()"] after_give by (rule rest)
  next
    case (Some k)
    then have k: "backup_name pid dn k" "f (d @ [k]) = None" "disk (mz_world z) = move d t dn (move d dn k f)"
      and old: "f (d @ [dn]) \<noteq> None" using b by auto
    have kok: "name_ok k" using k(1) unique_text_ok [OF dn label_chars(1,2)] by (auto simp: backup_name_def)
    have ne: "t \<noteq> k" "dn \<noteq> k"
      using k(1) t(2) unique_text_labels unique_text_longer by (auto simp: backup_name_def) metis+
    have some: "disk w (d @ [dn]) \<noteq> None" using f [of "d @ [dn]"] old t(1) by (auto simp: prefix_def)
    show ?thesis
      unfolding Some option.case after_and_do [of "platform (remove_child parent k)"] after_platform
    proof (rule after_mono [OF remove_child_spec [OF kok]], goal_cases)
      case (1 x v)
      then have "touches (d @ [k]) (mz_world z) v" using touches_forget [of "mz_world z" v "d @ [k]"] by (simp add: d)
      then have "restored env st es (d @ [dn]) w v"
        using 1 swapped_in(2) [OF t(1) ne k(1) free f k(2) p v k(3)] by (simp add: d)
      then show ?case using rest [of "z\<lparr>mz_world := v\<rparr>"] by simp
    next
      case (2 e v)
      then show ?case using some swapped_in(1) [OF t(1) ne k(1) free f k(2) p v k(3), of v] by (simp add: d)
    qed
  qed
qed

definition restore_ready :: "'j env \<Rightarrow> (string \<Rightarrow> string) \<Rightarrow> u32 \<Rightarrow> 'j store \<Rightarrow> snapshot \<Rightarrow> u64 \<Rightarrow> string list \<Rightarrow> materializer \<Rightarrow> bool" where
  \<comment> \<open>the device works, the snapshot is intact, the parent directory may be read and changed,
     and the destination and the first private name are free\<close>
  "restore_ready env lower pid st s maximum dest z \<longleftrightarrow>
     (let w = mz_world z; d = butlast dest in
      calm w \<and> validate_snapshot env lower s = Inr ()
      \<and> preflight_objects env st s maximum = Inr ()
      \<and> unat maximum \<le> MAX_FILE_LEN \<and> file_bytes (manifest_entries (snapshot_content s)) < 2 ^ 64
      \<and> reachable_dir w d \<and> open_way w d [] \<and> disk w dest = None
      \<and> disk w (d @ [unique_text pid ''tmp'' (last dest) (mz_sequence z)]) = None)"

lemma rolled_back_settled:
  assumes "rolled_back pid dn t (d @ [dn]) w w' e" and "t = unique_text pid ''tmp'' dn s" and "disk w (d @ [t]) = None" and "steady w w'"
  shows "settled pid env st es (d @ [dn]) w w' e"
  using assms by (auto simp: settled_def)

lemma littered_settled:
  "littered pid d ''tmp'' dn w w' \<Longrightarrow> settled pid env st es (d @ [dn]) w w' e"
  by (simp add: settled_def)

lemma restored_settled:
  "restored env st es dest w w' \<or> restored_beside pid env st es dest w w' \<Longrightarrow> settled pid env st es dest w w' e"
  by (auto simp: settled_def)

lemma touches_settled:
  assumes "touches (d @ [t]) w w'" and "t = unique_text pid ''tmp'' dn s" and "disk w (d @ [t]) = None"
  shows "settled pid env st es (d @ [dn]) w w' e"
proof (rule littered_settled)
  show "littered pid d ''tmp'' dn w w'"
    using assms unfolding littered_def by (auto simp: touches_def)
qed

lemma active_part:
  fixes s :: snapshot
  assumes m: "manifest_ok (snapshot_content s)" and es: "es = manifest_entries (snapshot_content s)" and typed: "entries_typed es"
    and dn: "name_ok dn" and t: "t = unique_text pid ''tmp'' dn i"
    and d: "dr_directory parent = d" and root: "dr_directory root = d @ [t]"
    and tree: "tree_ok (mz_world z)" and v: "mz_world z = v"
    and new: "disk v = (disk w)(d @ [t] \<mapsto> ItemDir OWNER_ALL)" "disk w (d @ [t]) = None" "steady w v"
  shows "after (while_active parent t (and_do (build_tree env st s root maximum) (\<lambda>report.
        and_do (platform (sync_root root)) (\<lambda>_.
        and_do (recheck parent force dn (d @ [dn]) state) (\<lambda>_.
        and_do (install pid parent t dn (d @ [dn])) (\<lambda>backup. give (report, backup)))))))
    (\<lambda>(report, b) z'. report_is es es es report \<and> steady w (mz_world z')
       \<and> (\<exists>f. (\<forall>q. \<not> prefix (d @ [t]) q \<longrightarrow> f q = disk w q) \<and> pic (d @ [t]) (set es) (expected_item env st (w_link_mode w)) f
            \<and> (case b of None \<Rightarrow> disk (mz_world z') = move d t dn f
               | Some k \<Rightarrow> backup_name pid dn k \<and> f (d @ [k]) = None \<and> f (d @ [dn]) \<noteq> None
                   \<and> disk (mz_world z') = move d t dn (move d dn k f))))
    (\<lambda>e z'. settled pid env st es (d @ [dn]) w (mz_world z') e
       \<and> \<not> (calm w \<and> parents_present es \<and> objects_load env st maximum es \<and> open_way w d [] \<and> disk w (d @ [dn]) = None)) z"
proof -
  have tn: "name_ok t" "t \<noteq> dn" "\<exists>s. t = unique_text pid ''tmp'' dn s"
    using t unique_text_ok [OF dn label_chars(3,4)] unique_text_longer by auto
  show ?thesis
    unfolding while_active_def after_rescue
  proof (rule after_mono [OF build_and_install [OF m es typed dn tn d root tree v new, where env = env and st = st and maximum = maximum and force = force and state = state]], goal_cases)
    case (2 e z1)
    define v1 where "v1 = mz_world z1"
    have no: "\<not> (calm w \<and> parents_present es \<and> objects_load env st maximum es \<and> open_way w d [] \<and> disk w (d @ [dn]) = None)"
      using 2 by blast
    have fate: "settled pid env st es (d @ [dn]) w u e" if "touches (d @ [t]) v1 u" for u
    proof (cases "touches (d @ [t]) w v1")
      case True
      show ?thesis by (rule touches_settled [OF touches_trans [OF True that] t new(2)])
    next
      case False
      then have r: "rolled_back pid dn t (d @ [dn]) w v1 e" "steady w v1" using 2 by (auto simp: v1_def)
      then show ?thesis
        using rolled_back_settled [OF rolled_back_touch [OF r(1) that tn(2,3)] t new(2)] steady_trans [OF r(2)] that
        by (auto simp: touches_def)
    qed
    show ?case
      unfolding after_and_do after_outcome after_platform v1_def [symmetric]
    proof (rule after_mono [OF remove_child_spec [OF tn(1)]], goal_cases)
      case (1 x u)
      then show ?case using fate [of u] touches_forget [of v1 u "d @ [t]"] no by (simp add: d)
    next
      case (2 x u)
      then show ?case using fate [of u] no by (simp add: d)
    qed
  qed
qed

lemma child_is_quiet:
  assumes "quiet w v"
  shows "child_is v p s \<longleftrightarrow> child_is w p s"
  unfolding child_is_def quiet_disk [OF assms] ..

lemma child_is_unique: "child_is w p s \<Longrightarrow> child_is w p s' \<Longrightarrow> s = s'"
  by (cases s; cases s') (auto simp: child_is_def)

lemma quiet_settled: "quiet w w' \<Longrightarrow> settled pid env st es (d @ [dn]) w w' e"
  by (rule littered_settled [OF quiet_littered])

lemma materialize_spec:
  fixes s :: snapshot
  assumes m: "manifest_ok (snapshot_content s)" and es: "es = manifest_entries (snapshot_content s)" and typed: "entries_typed es"
    and dn: "name_ok dn" and tree: "tree_ok (mz_world z)" and w: "mz_world z = w" and dest: "dest = d @ [dn]"
  shows "after (materialize env lower pid st s dest options)
    (\<lambda>r z'. restored env st es dest w (mz_world z')
       \<and> (\<exists>r0. report_is es es es r0 \<and> r = r0\<lparr>mr_destination := dest\<rparr>)
       \<and> (mo_force options \<or> \<not> occupied w dest))
    (\<lambda>e z'. settled pid env st es dest w (mz_world z') e
       \<and> (\<not> mo_force options \<and> occupied w dest \<longrightarrow> disk (mz_world z') = disk w)
       \<and> \<not> restore_ready env lower pid st s (mo_max_file_size options) dest z) z"
proof -
  let ?ready = "restore_ready env lower pid st s (mo_max_file_size options) dest z"
  have ready: "calm w" "validate_snapshot env lower s = Inr ()" "preflight_objects env st s (mo_max_file_size options) = Inr ()"
    "unat (mo_max_file_size options) \<le> MAX_FILE_LEN" "file_bytes es < 2 ^ 64" "reachable_dir w d" "open_way w d []"
    "disk w (d @ [dn]) = None" "disk w (d @ [unique_text pid ''tmp'' dn (mz_sequence z)]) = None"
    "parents_present es" "objects_load env st (mo_max_file_size options) es" if ?ready
  proof -
    show r: "calm w" "validate_snapshot env lower s = Inr ()" "preflight_objects env st s (mo_max_file_size options) = Inr ()"
      "unat (mo_max_file_size options) \<le> MAX_FILE_LEN" "file_bytes es < 2 ^ 64" "reachable_dir w d" "open_way w d []"
      "disk w (d @ [dn]) = None" "disk w (d @ [unique_text pid ''tmp'' dn (mz_sequence z)]) = None"
      using that by (simp_all add: restore_ready_def Let_def dest w es)
    show "parents_present es"
      using r(2) validate_manifest_Inr_iff [OF m, of lower] es by (auto simp: validate_snapshot_def and_then_Inr_iff)
    show "objects_load env st (mo_max_file_size options) es"
      using objects_available_load r(3,4,5) es by (simp add: preflight_objects_Inr_iff)
  qed
  have fail: "settled pid env st es dest w u e \<and> (\<not> mo_force options \<and> occupied w dest \<longrightarrow> disk u = disk w)"
    if "quiet w u" for u e
    unfolding dest using quiet_settled [OF that] quiet_disk [OF that] by blast
  have name: "\<not> (dest = [] \<or> dn = ''..'')" "last dest = dn" "butlast dest = d"
    using dest name_ok_dots [OF dn] by auto
  show ?thesis
    unfolding materialize_def after_and_do after_lift
  proof (cases "validate_snapshot env lower s", goal_cases)
    case (1 e)
    then show ?case using fail [OF quiet_refl] ready(2) by (auto simp: w)
  next
    case (2 u)
    show ?case
      unfolding 2 sum.case Let_def name(2,3) if_not_P [OF name(1)] after_and_do after_platform
    proof (rule after_mono [OF directory_root_open_spec], goal_cases)
      case (1 parent v1)
      then have q1: "quiet w v1" and d: "dr_directory parent = d" by (simp_all add: w)
      have tree1: "tree_ok (mz_world (z\<lparr>mz_world := v1\<rparr>))" using quiet_tree_ok [OF q1] tree w by simp
      show ?case
      proof (rule after_mono [OF child_state_spec [OF dn tree1]], goal_cases)
        case (1 state v2)
        then have q2: "quiet w v2" using quiet_trans [OF q1] by simp
        have c: "child_is w dest state" using 1 child_is_quiet [OF q1] by (simp add: d dest)
        show ?case
        proof (cases "state = Occupied \<and> \<not> mo_force options")
          case True
          then have "\<not> ?ready" using c ready(8) by (auto simp: child_is_def dest)
          then show ?thesis
            unfolding if_P [OF True] after_stop using fail [OF q2] by simp
        next
          case False
          have free: "mo_force options \<or> \<not> occupied w dest"
            using False c child_is_unique [of w dest] by (auto simp: occupied_def)
          show ?thesis
            unfolding if_not_P [OF False] after_and_do [of "lift x" for x] after_lift
          proof (cases "preflight_objects env st s (mo_max_file_size options)", goal_cases)
            case (1 e)
            then show ?case using fail [OF q2] ready(3) by auto
          next
            case (2 u)
            show ?case
              unfolding 2 sum.case after_and_do [of "temporary_create a b c d e f" for a b c d e f]
            proof (rule after_mono [OF temporary_create_spec [OF dn label_chars(3,4) d]], goal_cases)
              case (1 x z3)
              then obtain t root i where x: "x = (t, root)" and t: "t = unique_text pid ''tmp'' dn i"
                and root: "dr_directory root = d @ [t]" and v3: "disk (mz_world z3) = (disk w)(d @ [t] \<mapsto> ItemDir OWNER_ALL)"
                "disk w (d @ [t]) = None" "steady w (mz_world z3)"
                using quiet_disk [OF q2] steady_trans [OF quiet_steady [OF q2]] by (cases x) auto
              have tree3: "tree_ok (mz_world z3)" using v3(3) tree w by (simp add: steady_def)
              show ?case
                unfolding x prod.case after_and_do [of "while_active a b c" for a b c] dest
              proof (rule after_mono [OF active_part [OF m es typed dn t d root tree3 refl v3,
                    where env = env and st = st and maximum = "mo_max_file_size options" and force = "mo_force options" and state = state]], goal_cases)
                case (1 y z4)
                then obtain report b f where y: "y = (report, b)" and r: "report_is es es es report" and s4: "steady w (mz_world z4)"
                  and f: "\<And>q. \<not> prefix (d @ [t]) q \<Longrightarrow> f q = disk w q"
                  and p: "pic (d @ [t]) (set es) (expected_item env st (w_link_mode w)) f"
                  and b: "case b of None \<Rightarrow> disk (mz_world z4) = move d t dn f
                    | Some k \<Rightarrow> backup_name pid dn k \<and> f (d @ [k]) = None \<and> f (d @ [dn]) \<noteq> None
                        \<and> disk (mz_world z4) = move d t dn (move d dn k f)"
                  by (cases y) auto
                have tn: "t \<noteq> dn" "\<exists>s. t = unique_text pid ''tmp'' dn s" using t unique_text_longer by auto
                show ?case
                  unfolding y prod.case
                proof (rule after_mono [OF clean_up [OF dn tn d v3(2) f p s4 b, where r = "report\<lparr>mr_destination := d @ [dn]\<rparr>"]], goal_cases)
                  case (2 x z5)
                  then show ?case using r free by (auto simp: dest)
                next
                  case (3 e z5)
                  then have "settled pid env st es (d @ [dn]) w (mz_world z5) e" using restored_settled by blast
                  moreover have "\<not> ?ready" using 3 ready(1,8) by blast
                  ultimately show ?case using free by (auto simp: dest)
                qed simp
              next
                case (2 e z4)
                then show ?case using ready free by (auto simp: dest)
              qed
            next
              case (2 e z3)
              then have "littered pid d ''tmp'' dn w (mz_world z3)"
                using quiet_littered_trans [OF q2] by simp
              moreover have "\<not> ?ready"
                using 2 ready(1,7,9) quiet_calm [OF q2] quiet_disk [OF q2] quiet_allows [OF q2]
                by (auto simp: open_way_Nil ATTEMPTS_def)
              ultimately show ?case using littered_settled free by (auto simp: dest)
            qed
          qed
        qed
      next
        case (2 e v2)
        then have q2: "quiet w v2" using quiet_trans [OF q1] by simp
        have "\<not> ?ready"
          using 2 ready(1,7,8) quiet_calm [OF q1] quiet_disk [OF q1] quiet_allows [OF q1] by (auto simp: d open_way_Nil)
        then show ?case using fail [OF q2] by simp
      qed
    next
      case (2 e v1)
      then show ?case using fail [of v1] ready(1,6) by (auto simp: w)
    qed
  qed
qed

end
