(* ===== verification/Scan_Outcome.thy ===== *)
theory Scan_Outcome
  imports Scan_Spec Restore_Outcome
begin

section \<open>The report of a scan\<close>

text \<open>
  The findings of a survey in terms of paths of the tree, and the report of \<open>scan_workspace\<close>.
\<close>

subsection \<open>Findings by path\<close>

fun text_of :: "string \<Rightarrow> string list \<Rightarrow> string" where
  "text_of r [] = r"
| "text_of r (c # q) = text_of (relative_text r c) q"

fun visible :: "scan_options \<Rightarrow> string \<Rightarrow> string list \<Rightarrow> bool" where
  \<comment> \<open>neither the path nor an ancestor matches an ignore pattern\<close>
  "visible options r [] = True"
| "visible options r (c # q) \<longleftrightarrow>
     ignoring_pattern options (relative_text r c) = None \<and> visible options (relative_text r c) q"

definition too_large :: "scan_options \<Rightarrow> node \<Rightarrow> bool" where
  "too_large options k \<longleftrightarrow> (case k of FileNode _ bs \<Rightarrow> length bs > unat (sco_max_file_size options) | _ \<Rightarrow> False)"

definition size_exclusion :: "scan_options \<Rightarrow> snapshot_path \<Rightarrow> node \<Rightarrow> exclusion" where
  "size_exclusion options p k = \<lparr>ex_path = p, ex_reason = TooLarge
     (of_nat (case k of FileNode _ bs \<Rightarrow> length bs | _ \<Rightarrow> 0)) (sco_max_file_size options)\<rparr>"

definition omitted_as :: "scan_options \<Rightarrow> snapshot_path \<Rightarrow> node \<Rightarrow> exclusion \<Rightarrow> bool" where
  \<comment> \<open>why the node at a path is left out\<close>
  "omitted_as options p k x \<longleftrightarrow> (case ignoring_pattern options p of
       Some pattern \<Rightarrow> x = \<lparr>ex_path = p, ex_reason = Ignored pattern\<rparr>
     | None \<Rightarrow> too_large options k \<and> x = size_exclusion options p k)"

lemma survey_entry_Found:
  "Found p k \<in> set (survey_entry options p' k') \<longleftrightarrow>
     p = p' \<and> k = k' \<and> \<not> too_large options k' \<or> is_dir k' \<and> Found p k \<in> set (survey options p' k')"
  by (cases k') (auto simp: survey_entry.simps too_large_def)

lemma survey_entry_Omitted:
  "Omitted x \<in> set (survey_entry options p' k') \<longleftrightarrow>
     too_large options k' \<and> x = size_exclusion options p' k' \<or> is_dir k' \<and> Omitted x \<in> set (survey options p' k')"
  by (cases k') (auto simp: survey_entry.simps too_large_def size_exclusion_def)

lemma child_findings_Found:
  "Found p k \<in> set (child_findings options r (c, k')) \<longleftrightarrow>
     ignoring_pattern options (relative_text r c) = None
     \<and> (p = relative_text r c \<and> k = k' \<and> \<not> too_large options k' \<or> is_dir k' \<and> Found p k \<in> set (survey options (relative_text r c) k'))"
  by (auto simp: child_findings_def survey_entry_Found split: option.splits)

lemma child_findings_Omitted:
  "Omitted x \<in> set (child_findings options r (c, k')) \<longleftrightarrow>
     omitted_as options (relative_text r c) k' x
     \<or> ignoring_pattern options (relative_text r c) = None \<and> is_dir k' \<and> Omitted x \<in> set (survey options (relative_text r c) k')"
  by (auto simp: child_findings_def survey_entry_Omitted omitted_as_def split: option.splits)

lemma node_ok_child:
  "node_ok n \<Longrightarrow> (c, k) \<in> set (listing n) \<longleftrightarrow> map_of (children n) c = Some k"
  "node_ok n \<Longrightarrow> map_of (children n) c = Some k \<Longrightarrow> node_ok k \<and> name_ok c"
  by (cases n; auto simp: listing_def list_all_iff dest: map_of_SomeD)+

lemma survey_Found:
  "node_ok n \<Longrightarrow> Found p k \<in> set (survey options r n) \<longleftrightarrow>
     (\<exists>q. q \<noteq> [] \<and> at n q = Some k \<and> p = text_of r q \<and> visible options r q \<and> \<not> too_large options k)"
proof (induction n arbitrary: r rule: measure_induct_rule [of size])
  case (less n)
  have sub: "Found p k \<in> set (survey options (relative_text r c) k') \<longleftrightarrow> (\<exists>q. q \<noteq> [] \<and> at k' q = Some k
      \<and> p = text_of (relative_text r c) q \<and> visible options (relative_text r c) q \<and> \<not> too_large options k)"
    if "map_of (children n) c = Some k'" for c k'
    using less.IH [of k'] child_smaller [of c k' n] node_ok_child [OF less.prems, of c k'] that by auto
  have "Found p k \<in> set (survey options r n) \<longleftrightarrow>
      (\<exists>c k'. map_of (children n) c = Some k' \<and> Found p k \<in> set (child_findings options r (c, k')))"
    using node_ok_child(1) [OF less.prems] by (auto simp: survey_children)
  also have "\<dots> \<longleftrightarrow> (\<exists>c q. at n (c # q) = Some k \<and> p = text_of r (c # q) \<and> visible options r (c # q) \<and> \<not> too_large options k)"
  proof
    assume "\<exists>c k'. map_of (children n) c = Some k' \<and> Found p k \<in> set (child_findings options r (c, k'))"
    then obtain c k' where m: "map_of (children n) c = Some k'" and f: "Found p k \<in> set (child_findings options r (c, k'))" by blast
    then consider "p = relative_text r c" "k = k'" "\<not> too_large options k'" | "Found p k \<in> set (survey options (relative_text r c) k')"
      by (auto simp: child_findings_Found)
    then show "\<exists>c q. at n (c # q) = Some k \<and> p = text_of r (c # q) \<and> visible options r (c # q) \<and> \<not> too_large options k"
    proof cases
      case 1
      then show ?thesis using m f by (intro exI [of _ c] exI [of _ "[]"]) (simp add: child_findings_Found)
    next
      case 2
      then obtain q where "at k' q = Some k" "p = text_of (relative_text r c) q" "visible options (relative_text r c) q" "\<not> too_large options k"
        using sub [OF m] by blast
      then show ?thesis using m f by (intro exI [of _ c] exI [of _ q]) (simp add: child_findings_Found)
    qed
  next
    assume "\<exists>c q. at n (c # q) = Some k \<and> p = text_of r (c # q) \<and> visible options r (c # q) \<and> \<not> too_large options k"
    then obtain c q k' where m: "map_of (children n) c = Some k'" and k: "at k' q = Some k" "p = text_of (relative_text r c) q"
      "visible options r (c # q)" "\<not> too_large options k" by (auto split: option.splits)
    show "\<exists>c k'. map_of (children n) c = Some k' \<and> Found p k \<in> set (child_findings options r (c, k'))"
    proof (cases "q = []")
      case True
      then show ?thesis using m k by (intro exI [of _ c] exI [of _ k']) (simp add: child_findings_Found)
    next
      case False
      then have "is_dir k'" using k(1) by (cases q; cases k') auto
      then show ?thesis using m k False sub [OF m] by (intro exI [of _ c] exI [of _ k']) (auto simp: child_findings_Found)
    qed
  qed
  also have "\<dots> \<longleftrightarrow> (\<exists>q. q \<noteq> [] \<and> at n q = Some k \<and> p = text_of r q \<and> visible options r q \<and> \<not> too_large options k)"
    by (metis list.distinct(1) list.exhaust)
  finally show ?case .
qed

lemma survey_Omitted:
  "node_ok n \<Longrightarrow> Omitted x \<in> set (survey options r n) \<longleftrightarrow>
     (\<exists>q k. q \<noteq> [] \<and> at n q = Some k \<and> visible options r (butlast q) \<and> omitted_as options (text_of r q) k x)"
proof (induction n arbitrary: r rule: measure_induct_rule [of size])
  case (less n)
  have sub: "Omitted x \<in> set (survey options (relative_text r c) k') \<longleftrightarrow> (\<exists>q k. q \<noteq> [] \<and> at k' q = Some k
      \<and> visible options (relative_text r c) (butlast q) \<and> omitted_as options (text_of (relative_text r c) q) k x)"
    if "map_of (children n) c = Some k'" for c k'
    using less.IH [of k'] child_smaller [of c k' n] node_ok_child [OF less.prems, of c k'] that by auto
  have "Omitted x \<in> set (survey options r n) \<longleftrightarrow>
      (\<exists>c k'. map_of (children n) c = Some k' \<and> Omitted x \<in> set (child_findings options r (c, k')))"
    using node_ok_child(1) [OF less.prems] by (auto simp: survey_children)
  also have "\<dots> \<longleftrightarrow> (\<exists>c q k. at n (c # q) = Some k \<and> visible options r (butlast (c # q)) \<and> omitted_as options (text_of r (c # q)) k x)"
  proof
    assume "\<exists>c k'. map_of (children n) c = Some k' \<and> Omitted x \<in> set (child_findings options r (c, k'))"
    then obtain c k' where m: "map_of (children n) c = Some k'" and f: "Omitted x \<in> set (child_findings options r (c, k'))" by blast
    then consider "omitted_as options (relative_text r c) k' x"
      | "ignoring_pattern options (relative_text r c) = None" "Omitted x \<in> set (survey options (relative_text r c) k')"
      by (auto simp: child_findings_Omitted)
    then show "\<exists>c q k. at n (c # q) = Some k \<and> visible options r (butlast (c # q)) \<and> omitted_as options (text_of r (c # q)) k x"
    proof cases
      case 1
      then show ?thesis using m by (intro exI [of _ c] exI [of _ "[]"] exI [of _ k']) simp
    next
      case 2
      then obtain q k where "q \<noteq> []" "at k' q = Some k" "visible options (relative_text r c) (butlast q)"
        "omitted_as options (text_of (relative_text r c) q) k x" using sub [OF m] by blast
      then show ?thesis using m 2(1) by (intro exI [of _ c] exI [of _ q] exI [of _ k]) simp
    qed
  next
    assume "\<exists>c q k. at n (c # q) = Some k \<and> visible options r (butlast (c # q)) \<and> omitted_as options (text_of r (c # q)) k x"
    then obtain c q k k' where m: "map_of (children n) c = Some k'" and k: "at k' q = Some k" "omitted_as options (text_of (relative_text r c) q) k x"
      "visible options r (butlast (c # q))" by (auto split: option.splits)
    show "\<exists>c k'. map_of (children n) c = Some k' \<and> Omitted x \<in> set (child_findings options r (c, k'))"
    proof (cases "q = []")
      case True
      then show ?thesis using m k by (intro exI [of _ c] exI [of _ k']) (simp add: child_findings_Omitted)
    next
      case False
      then have "is_dir k'" using k(1) by (cases q; cases k') auto
      then show ?thesis using m k False sub [OF m] by (intro exI [of _ c] exI [of _ k']) (auto simp: child_findings_Omitted)
    qed
  qed
  also have "\<dots> \<longleftrightarrow> (\<exists>q k. q \<noteq> [] \<and> at n q = Some k \<and> visible options r (butlast q) \<and> omitted_as options (text_of r q) k x)"
    by (metis list.distinct(1) list.exhaust)
  finally show ?case .
qed

subsection \<open>Paths of findings\<close>

lemma text_of_join: "q \<noteq> [] \<Longrightarrow> [] \<notin> set q \<Longrightarrow> text_of r q = (if r = [] then join_with CHR ''/'' q else r @ CHR ''/'' # join_with CHR ''/'' q)"
proof (induction q arbitrary: r)
  case (Cons c q)
  then show ?case
    by (cases q) (auto simp: relative_text_def)
qed simp

lemma text_of_root: "q \<noteq> [] \<Longrightarrow> [] \<notin> set q \<Longrightarrow> text_of [] q = join_with CHR ''/'' q"
  using text_of_join [of q "[]"] by simp

lemma name_ok_list:
  assumes "\<forall>c \<in> set q. name_ok c"
  shows "[] \<notin> set q" "\<forall>c \<in> set q. CHR ''/'' \<notin> set c"
  using assms by (auto simp: name_ok_def component_ok_def)

lemma text_of_inj:
  assumes "text_of [] q = text_of [] q'" and "q \<noteq> []" "q' \<noteq> []" and "\<forall>c \<in> set q. name_ok c" "\<forall>c \<in> set q'. name_ok c"
  shows "q = q'"
proof -
  have "join_with CHR ''/'' q = join_with CHR ''/'' q'"
    using assms text_of_root name_ok_list by metis
  then show ?thesis
    using split_on_join [of q "CHR ''/''"] split_on_join [of q' "CHR ''/''"] assms name_ok_list by metis
qed

lemma at_names: "node_ok n \<Longrightarrow> at n q = Some k \<Longrightarrow> \<forall>c \<in> set q. name_ok c"
proof (induction q arbitrary: n)
  case (Cons c q)
  then obtain m where m: "map_of (children n) c = Some m" "at m q = Some k" by (auto split: option.splits)
  then have "node_ok m \<and> name_ok c" using node_ok_child(2) [OF Cons.prems(1)] by blast
  then show ?case using Cons.IH m(2) by auto
qed simp

lemma entry_for_Some:
  "entry_for env p k = Some e \<Longrightarrow> entry_path e = p" "entry_for env p k = None \<longleftrightarrow> (\<exists>a. k = OtherNode a)"
  by (cases k; auto simp: entry_for_def Let_def)+

lemma found_entries_set: "e \<in> set (found_entries env fs) \<longleftrightarrow> (\<exists>p k. Found p k \<in> set fs \<and> entry_for env p k = Some e)"
proof (induction fs)
  case (Cons f fs)
  have "found_entries env (f # fs) = found_entries env [f] @ found_entries env fs"
    using findings_append(1) [of env "[f]" fs] by simp
  then show ?case using Cons by (cases f) (auto split: option.splits)
qed simp

lemma omissions_set: "x \<in> set (omissions fs) \<longleftrightarrow> Omitted x \<in> set fs"
proof (induction fs)
  case (Cons f fs)
  have "omissions (f # fs) = omissions [f] @ omissions fs" using findings_append(2) [of "[f]" fs] by simp
  then show ?case using Cons by (cases f) auto
qed simp

definition expected_entry :: "'j env \<Rightarrow> scan_options \<Rightarrow> node \<Rightarrow> snapshot_entry \<Rightarrow> bool" where
  \<comment> \<open>the entries a scan of a tree has to report\<close>
  "expected_entry env options n e \<longleftrightarrow> (\<exists>q k. q \<noteq> [] \<and> at n q = Some k \<and> visible options [] q \<and> \<not> too_large options k
     \<and> entry_for env (join_with CHR ''/'' q) k = Some e)"

definition expected_exclusion :: "scan_options \<Rightarrow> node \<Rightarrow> exclusion \<Rightarrow> bool" where
  "expected_exclusion options n x \<longleftrightarrow> (\<exists>q k. q \<noteq> [] \<and> at n q = Some k \<and> visible options [] (butlast q)
     \<and> omitted_as options (join_with CHR ''/'' q) k x)"

lemma survey_entries:
  assumes "node_ok n"
  shows "e \<in> set (found_entries env (survey options [] n)) \<longleftrightarrow> expected_entry env options n e"
  unfolding found_entries_set survey_Found [OF assms] expected_entry_def
  using at_names [OF assms] name_ok_list(1) text_of_root by metis

lemma survey_omissions:
  assumes "node_ok n"
  shows "x \<in> set (omissions (survey options [] n)) \<longleftrightarrow> expected_exclusion options n x"
  unfolding omissions_set survey_Omitted [OF assms] expected_exclusion_def
  using at_names [OF assms] name_ok_list(1) text_of_root by metis

lemma at_one_path:
  assumes "node_ok n" and "at n q = Some k" and "at n q' = Some k'" and "q \<noteq> []" "q' \<noteq> []"
    and "join_with CHR ''/'' q = join_with CHR ''/'' q'"
  shows "q = q'"
  using text_of_inj [of q q'] text_of_root at_names [OF assms(1)] name_ok_list(1) assms by metis

subsection \<open>Each path once\<close>

definition finding_path :: "finding \<Rightarrow> snapshot_path" where
  "finding_path f = (case f of Found p _ \<Rightarrow> p | Omitted x \<Rightarrow> ex_path x)"

lemma text_of_inj_from:
  assumes "text_of r q = text_of r q'" and "q \<noteq> []" "q' \<noteq> []" and "\<forall>c \<in> set q. name_ok c" "\<forall>c \<in> set q'. name_ok c"
  shows "q = q'"
proof (rule text_of_inj)
  show "text_of [] q = text_of [] q'"
    using assms text_of_join [OF assms(2) name_ok_list(1) [OF assms(4)]] text_of_join [OF assms(3) name_ok_list(1) [OF assms(5)]]
    by (auto split: if_splits)
qed (use assms in auto)

lemma text_of_longer: "q \<noteq> [] \<Longrightarrow> \<forall>c \<in> set q. name_ok c \<Longrightarrow> text_of r q \<noteq> r"
  using text_of_join [of q r] name_ok_list(1) [of q] by (cases q; cases "tl q") (auto simp: name_ok_def component_ok_def split: if_splits)

lemma omitted_as_path: "omitted_as options p k x \<Longrightarrow> ex_path x = p"
  by (auto simp: omitted_as_def size_exclusion_def split: option.splits)

lemma finding_path_text:
  assumes n: "node_ok n" and f: "f \<in> set (survey options r n)"
  shows "\<exists>q. q \<noteq> [] \<and> (\<forall>c \<in> set q. name_ok c) \<and> finding_path f = text_of r q"
proof (cases f)
  case (Found p k)
  then obtain q where "q \<noteq> []" "at n q = Some k" "p = text_of r q" using f survey_Found [OF n] by blast
  then show ?thesis using Found at_names [OF n, of q k] by (intro exI [of _ q]) (simp add: finding_path_def)
next
  case (Omitted x)
  then obtain q k where "q \<noteq> []" "at n q = Some k" "omitted_as options (text_of r q) k x"
    using f survey_Omitted [OF n] by blast
  then show ?thesis
    using Omitted at_names [OF n, of q k] omitted_as_path [of options "text_of r q" k x]
    by (intro exI [of _ q]) (simp add: finding_path_def)
qed

lemma child_findings_text:
  assumes n: "node_ok n" and m: "map_of (children n) c = Some k" and f: "f \<in> set (child_findings options r (c, k))"
  shows "\<exists>q. (\<forall>d \<in> set (c # q). name_ok d) \<and> finding_path f = text_of r (c # q)"
proof -
  have ok: "node_ok k" "name_ok c" using node_ok_child(2) [OF n m] by auto
  consider "finding_path f = relative_text r c" | "f \<in> set (survey options (relative_text r c) k)"
  proof (cases f)
    case (Found p k')
    then show thesis using f that by (auto simp: child_findings_Found finding_path_def)
  next
    case (Omitted x)
    then show thesis using f that omitted_as_path [of options "relative_text r c" k x]
      by (auto simp: child_findings_Omitted finding_path_def)
  qed
  then show ?thesis
  proof cases
    case 1
    then show ?thesis using ok by (intro exI [of _ "[]"]) simp
  next
    case 2
    then obtain q where "\<forall>d \<in> set q. name_ok d" "finding_path f = text_of (relative_text r c) q"
      using finding_path_text [OF ok(1)] by blast
    then show ?thesis using ok by (intro exI [of _ q]) simp
  qed
qed

lemma distinct_map_concat:
  assumes "distinct xs" and "\<And>x. x \<in> set xs \<Longrightarrow> distinct (map f (g x))"
    and "\<And>x y a b. x \<in> set xs \<Longrightarrow> y \<in> set xs \<Longrightarrow> a \<in> set (g x) \<Longrightarrow> b \<in> set (g y) \<Longrightarrow> f a = f b \<Longrightarrow> x = y"
  shows "distinct (map f (concat (map g xs)))"
  using assms
proof (induction xs)
  case (Cons x xs)
  have "distinct (map f (concat (map g xs)))" by (rule Cons.IH) (use Cons.prems in auto)
  moreover have "f a \<noteq> f b" if "a \<in> set (g x)" "y \<in> set xs" "b \<in> set (g y)" for a b y
    using Cons.prems(3) [of x y a b] Cons.prems(1) that by auto
  ultimately show ?case using Cons.prems(2) [of x] by fastforce
qed simp

lemma distinct_listing: "node_ok n \<Longrightarrow> distinct (listing n)"
  by (cases n) (auto simp: listing_def distinct_map)

lemma survey_distinct: "node_ok n \<Longrightarrow> distinct (map finding_path (survey options r n))"
proof (induction n arbitrary: r rule: measure_induct_rule [of size])
  case (less n)
  show ?case
    unfolding survey_children
  proof (rule distinct_map_concat [OF distinct_listing [OF less.prems]], goal_cases)
    case (1 ck)
    obtain c k where ck: "ck = (c, k)" by force
    have m: "map_of (children n) c = Some k" using node_ok_child(1) [OF less.prems] 1 ck by blast
    then have ok: "node_ok k" using node_ok_child(2) [OF less.prems] by blast
    let ?p = "relative_text r c"
    have sub: "distinct (map finding_path (survey options ?p k))"
      using less.IH [OF child_smaller ok] 1 ck by blast
    have "?p \<notin> finding_path ` set (survey options ?p k)"
    proof
      assume "?p \<in> finding_path ` set (survey options ?p k)"
      then obtain f where "f \<in> set (survey options ?p k)" "finding_path f = ?p" by auto
      then obtain q where "q \<noteq> []" "\<forall>x \<in> set q. name_ok x" "text_of ?p q = ?p" using finding_path_text [OF ok] by metis
      then show False using text_of_longer by blast
    qed
    then have "distinct (map finding_path (survey_entry options ?p k))"
      using sub by (cases k) (auto simp: survey_entry.simps finding_path_def)
    then show ?case by (simp add: ck child_findings_def split: option.split)
  next
    case (2 ck dk a b)
    obtain c k d l where eq: "ck = (c, k)" "dk = (d, l)" by force
    have m: "map_of (children n) c = Some k" "map_of (children n) d = Some l"
      using node_ok_child(1) [OF less.prems] 2(1,2) eq by blast+
    obtain q where q: "\<forall>x \<in> set (c # q). name_ok x" "finding_path a = text_of r (c # q)"
      using child_findings_text [OF less.prems m(1)] 2(3) eq by blast
    obtain q' where q': "\<forall>x \<in> set (d # q'). name_ok x" "finding_path b = text_of r (d # q')"
      using child_findings_text [OF less.prems m(2)] 2(4) eq by blast
    have "c # q = d # q'" using text_of_inj_from [of r "c # q" "d # q'"] q q' 2(5) by auto
    then show ?case using m eq by simp
  qed
qed

lemma found_entries_paths:
  "map entry_path (found_entries env fs) = map finding_path (filter (\<lambda>f. case f of Found p k \<Rightarrow> (\<exists>e. entry_for env p k = Some e) | _ \<Rightarrow> False) fs)"
proof (induction fs)
  case (Cons f fs)
  have "found_entries env (f # fs) = found_entries env [f] @ found_entries env fs"
    using findings_append(1) [of env "[f]" fs] by simp
  then show ?case using Cons by (cases f) (auto simp: finding_path_def entry_for_Some(1) split: option.splits)
qed simp

lemma found_entries_distinct: "node_ok n \<Longrightarrow> distinct (map entry_path (found_entries env (survey options r n)))"
  unfolding found_entries_paths by (rule distinct_map_filter [OF survey_distinct])

subsection \<open>The whole scan\<close>

definition scan_report_of :: "'j env \<Rightarrow> (string \<Rightarrow> string) \<Rightarrow> scan_options \<Rightarrow> node \<Rightarrow> scan_report \<Rightarrow> bool" where
  "scan_report_of env lower options n report \<longleftrightarrow>
     manifest_new (found_entries env (survey options [] n)) = Inr (snapshot_content (srp_snapshot report))
     \<and> Restore.validate_snapshot env lower (srp_snapshot report) = Inr ()
     \<and> srp_exclusions report = sort_key ex_path (omissions (survey options [] n))
     \<and> list_all supported (survey options [] n)"

definition scan_ready :: "'j env \<Rightarrow> (string \<Rightarrow> string) \<Rightarrow> u8 list set \<Rightarrow> scan_options \<Rightarrow> world \<Rightarrow> string list \<Rightarrow> 'j scanner \<Rightarrow> bool" where
  \<comment> \<open>the device works, the tree is supported and accessible, the store accepts its contents, and
     the manifest is valid and has an encoding\<close>
  "scan_ready env lower K options w root z \<longleftrightarrow> calm w \<and> reachable_dir w root
     \<and> (\<forall>n. at (w_tree w) root = Some n \<longrightarrow> scan_good env K w (survey options [] n) z \<and> scannable w options [] n
          \<and> (\<exists>m. manifest_new (found_entries env (survey options [] n)) = Inr m
               \<and> validate_manifest lower m = Inr () \<and> env_manifest_json env m \<noteq> None))"

lemma after_disk [simp]:
  "after (at_part sc_world (\<lambda>w s. s\<lparr>sc_world := w\<rparr>) m) Q E z \<longleftrightarrow>
     after m (\<lambda>x w. Q x (z\<lparr>sc_world := w\<rparr>)) (\<lambda>e w. E e (z\<lparr>sc_world := w\<rparr>)) (sc_world z)"
  by simp

lemma symlink_metadata_spec:
  "after (symlink_metadata p) (\<lambda>s u. quiet w u \<and> (\<exists>n. at (w_tree w) p = Some n \<and> s = stat_of n))
    (\<lambda>e u. quiet w u \<and> \<not> (calm w \<and> reachable_dir w p)) w"
  unfolding symlink_metadata_def
proof (rule after_read_from [OF quiet_refl], goal_cases)
  case (1 u)
  then show ?case using quiet_reach [OF 1] by (simp add: quiet_fields [OF 1])
next
  case (2 x u)
  then show ?case using reach_at by (auto simp: map_ok_Inr_iff)
next
  case (3 e u)
  then show ?case by (auto simp: reachable_dir_def device_def)
qed

lemma scan_workspace_spec:
  assumes h: "hash_ok (env_hash env)" and tree: "tree_ok w" and w: "sc_world z = w"
  shows "after (scan_workspace env lower root options created)
    (\<lambda>report z'. scan_stopped env w z z' \<and> (\<exists>n. at (w_tree w) root = Some n \<and> is_dir n \<and> scan_report_of env lower options n report
       \<and> (\<forall>bs \<in> found_contents (survey options [] n).
            holds_object (env_hash env) (st_files (sc_store z')) (ObjectId (env_hash env bs)) bs)))
    (\<lambda>_ z'. scan_stopped env w z z' \<and> \<not> scan_ready env lower K options w root z) z"
  unfolding scan_workspace_def after_and_do after_with_err after_disk w
proof (rule after_mono [OF symlink_metadata_spec], goal_cases)
  case (1 s v1)
  then obtain n where q1: "quiet w v1" and n: "at (w_tree w) root = Some n" "s = stat_of n" by auto
  show ?case
  proof (cases "is_dir n")
    case False
    then have "\<not> scan_ready env lower K options w root z"
      using n(1) reach_at by (fastforce simp: scan_ready_def reachable_dir_def)
    then show ?thesis using False n q1 by (simp add: stat_kind_cases scan_stopped_def)
  next
    case True
    then have kind: "\<not> st_kind s \<noteq> KindDirectory" using n by (simp add: stat_kind_cases)
    show ?thesis
      unfolding if_not_P [OF kind] after_and_do after_scan_files [of "directory_root_open root"]
    proof (rule after_mono [OF directory_root_open_spec], goal_cases)
      case (1 r v2)
      then have q2: "quiet w v2" and r: "dr_directory r = root" using quiet_trans [OF q1] by auto
      have at: "at (w_tree w) (dr_directory r) = Some n" using n(1) r by simp
      let ?d = "\<lparr>pd_directory = dr_directory r, pd_path = dr_path r, pd_before = stat_of n\<rparr>"
      have d: "pinned w ?d n" using at True by (simp add: pinned_def)
      have qz: "quiet w (sc_world (z\<lparr>sc_world := v1, sc_world := v2\<rparr>))" using q2 by simp
      show ?case
      proof (rule reads_scan [OF reads_pinned_directory_of [OF at] qz], goal_cases)
        case (1 v3)
        let ?z3 = "z\<lparr>sc_world := v1, sc_world := v2, sc_world := v3, sc_entries := [], sc_exclusions := []\<rparr>"
        have q3: "quiet w (sc_world ?z3)" using 1 by simp
        have good: "scan_good env K w fs ?z3 \<longleftrightarrow> scan_good env K w fs z" for fs by (simp add: scan_good_def)
        show ?case
          unfolding after_change
        proof (rule after_mono [OF scan_directory_spec [OF h tree d q3, where options = options and r = "[]" and K = K]], goal_cases)
          case (1 x z4)
          let ?fs = "survey options [] n"
          have s4: "sc_entries z4 = found_entries env ?fs" "sc_exclusions z4 = omissions ?fs" "list_all supported ?fs"
            "scan_stopped env w z z4"
            "\<forall>bs \<in> found_contents ?fs. holds_object (env_hash env) (st_files (sc_store z4)) (ObjectId (env_hash env bs)) bs"
            using 1 by (simp_all add: scanned_def scan_stopped_def)
          show ?case
          proof (cases "\<exists>m. manifest_new (found_entries env ?fs) = Inr m \<and> validate_manifest lower m = Inr () \<and> env_manifest_json env m \<noteq> None")
            case True
            then obtain m canonical where "manifest_new (found_entries env ?fs) = Inr m" "validate_manifest lower m = Inr ()"
              "env_manifest_json env m = Some canonical" by auto
            then show ?thesis
              using s4 n(1) \<open>is_dir n\<close> by (simp add: after_lift scan_report_of_def Restore.validate_snapshot_def)
          next
            case False
            then have "\<not> scan_ready env lower K options w root z" using n(1) by (auto simp: scan_ready_def)
            then show ?thesis
              using s4 False by (auto simp: after_lift split: sum.splits option.splits)
          qed
        next
          case (2 e z4)
          then show ?case using n(1) good by (auto simp: scan_stopped_def scan_ready_def)
        qed
      next
        case (2 e v3)
        then show ?case by (simp add: scan_stopped_def scan_ready_def)
      qed
    next
      case (2 e v2)
      have "reachable_dir v1 root \<longleftrightarrow> reachable_dir w root"
        using quiet_reach [OF q1] by (simp add: reachable_dir_def quiet_fields [OF q1] quiet_allows [OF q1])
      then have "quiet w v2" "\<not> (calm w \<and> reachable_dir w root)" using 2 quiet_trans [OF q1] quiet_calm [OF q1] by auto
      then show ?case by (auto simp: scan_stopped_def scan_ready_def)
    qed
  qed
next
  case (2 e v1)
  then show ?case by (auto simp: scan_stopped_def scan_ready_def)
qed

end
