(* ===== verification/Restore_Theorems.thy ===== *)
theory Restore_Theorems
  imports Restore_Outcome Store_Examples
begin

section \<open>Properties of a restore\<close>

text \<open>
  The example of this theory restores a directory and a file beside another file, with the
  store of \<open>Store_Examples\<close> that holds the file's object.
\<close>

subsection \<open>An example\<close>

definition ex_entries :: "snapshot_entry list" where
  "ex_entries =
     [\<lparr>entry_path = ''a'', entry_kind = Directory, entry_permissions = UnixPermissions 493\<rparr>,
      \<lparr>entry_path = ''a/b'', entry_kind = File ex_object_id 3 False, entry_permissions = UnixPermissions 420\<rparr>]"

definition ex_tree_snapshot :: snapshot where
  "ex_tree_snapshot = \<lparr>snapshot_identity = ex_snapshot_id,
     snapshot_content = \<lparr>manifest_schema_version = 1, manifest_entries = ex_entries\<rparr>\<rparr>"

definition ex_attributes :: "nat \<Rightarrow> u32 \<Rightarrow> attributes" where
  "ex_attributes ino mode = \<lparr>at_ino = ino, at_mode = mode, at_modified = 0, at_changed = 0\<rparr>"

definition ex_machine :: materializer where
  \<comment> \<open>a directory \<open>w\<close> that holds a file \<open>c\<close>\<close>
  "ex_machine = \<lparr>mz_world = \<lparr>w_tree = DirNode (ex_attributes 1 448)
       [(''w'', DirNode (ex_attributes 2 448) [(''c'', FileNode (ex_attributes 3 420) [7])])],
     w_calls = 0, w_faults = (\<lambda>_. None), w_next_ino = 4, w_privileged = False, w_link_mode = 511\<rparr>,
     mz_sequence = 0\<rparr>"

definition ex_options :: materialize_options where
  "ex_options = \<lparr>mo_force = False, mo_max_file_size = DEFAULT_MAX_FILE_SIZE\<rparr>"

lemma ex_names: "name_ok ''w''" "name_ok ''c''" "name_ok ''a''"
  by (simp_all add: name_ok_def component_ok_def special_chars)

lemma ex_tree_ok: "tree_ok (mz_world ex_machine)"
  by (simp add: tree_ok_def ex_machine_def ex_names MAX_FILE_LEN_def)

lemma ex_entries_ok: "manifest_ok (snapshot_content ex_tree_snapshot)" "entries_typed (manifest_entries (snapshot_content ex_tree_snapshot))"
  by (simp_all add: manifest_ok_def ex_tree_snapshot_def ex_entries_def entry_ok_def entries_typed_def
      SNAPSHOT_SCHEMA_VERSION_def is_executable_def permission_bits_def path_ok_def component_ok_def
      MAX_SNAPSHOT_PATH_BYTES_def special_chars)

lemma ex_dest_names: "name_ok ''out''"
  by (simp add: name_ok_def component_ok_def special_chars)

lemma ex_available: "preflight_objects ex_env ex_store3 ex_tree_snapshot DEFAULT_MAX_FILE_SIZE = Inr ()"
  by (simp add: preflight_objects_Inr_iff objects_available_def ex_tree_snapshot_def ex_entries_def DEFAULT_MAX_FILE_SIZE_def
      load_object_Inr_iff holds_object_def ex_store3_def HEADER_LEN_def ex_object_id_def)

lemma ex_valid: "Restore.validate_snapshot ex_env (\<lambda>c. c) ex_tree_snapshot = Inr ()"
  using validate_manifest_Inr_iff [OF ex_entries_ok(1), of "\<lambda>c. c"]
  by (simp add: Restore.validate_snapshot_def and_then_Inr_iff snapshot_id_digest_def ex_tree_snapshot_def ex_snapshot_id_def
      ex_entries_def no_aliases_def parents_present_def tree_def Cons_eq_append_conv case_fold_def)

lemma ex_disk:
  "disk (mz_world ex_machine) [''w''] = Some (ItemDir 448)" "disk (mz_world ex_machine) [''w'', ''c''] = Some (ItemFile 420 [7])"
  "n \<noteq> ''c'' \<Longrightarrow> disk (mz_world ex_machine) [''w'', n] = None"
  by (simp_all add: disk_def view_def ex_machine_def ex_attributes_def)

lemma ex_ready:
  "restore_ready ex_env (\<lambda>c. c) 1 ex_store3 ex_tree_snapshot DEFAULT_MAX_FILE_SIZE [''w'', ''out''] ex_machine"
proof -
  have "calm (mz_world ex_machine)" by (simp add: calm_def ex_machine_def)
  moreover have "unat DEFAULT_MAX_FILE_SIZE \<le> MAX_FILE_LEN" by (simp add: DEFAULT_MAX_FILE_SIZE_def MAX_FILE_LEN_def)
  moreover have "file_bytes (manifest_entries (snapshot_content ex_tree_snapshot)) < 2 ^ 64"
    by (simp add: file_bytes_def entry_bytes_def ex_tree_snapshot_def ex_entries_def)
  moreover have "reachable_dir (mz_world ex_machine) [''w'']"
    by (simp add: reachable_dir_def ex_machine_def allows_def grants_allows ex_attributes_def S_IXUSR_def S_IRUSR_def)
  moreover have "open_way (mz_world ex_machine) [''w''] []"
    by (simp add: open_way_Nil ex_disk allows_def OWNER_ALL_def)
  moreover have "unique_text 1 ''tmp'' ''out'' (mz_sequence ex_machine) \<noteq> ''c''"
    by (simp add: unique_text_def)
  ultimately show ?thesis
    by (simp add: restore_ready_def Let_def ex_available ex_valid ex_disk)
qed

definition names_ok :: "string list \<Rightarrow> bool" where
  \<comment> \<open>a path below the root, its links resolved\<close>
  "names_ok dest \<longleftrightarrow> dest \<noteq> [] \<and> list_all name_ok dest"

lemma materialize_outcome:
  fixes s :: snapshot
  assumes "manifest_ok (snapshot_content s)" and "entries_typed (manifest_entries (snapshot_content s))"
    and "names_ok dest" and "tree_ok (mz_world z)"
  shows "after (materialize env lower pid st s dest options)
    (\<lambda>r z'. restored env st (manifest_entries (snapshot_content s)) dest (mz_world z) (mz_world z')
       \<and> (\<exists>r0. report_is (manifest_entries (snapshot_content s)) (manifest_entries (snapshot_content s))
            (manifest_entries (snapshot_content s)) r0 \<and> r = r0\<lparr>mr_destination := dest\<rparr>)
       \<and> (mo_force options \<or> \<not> occupied (mz_world z) dest))
    (\<lambda>e z'. settled pid env st (manifest_entries (snapshot_content s)) dest (mz_world z) (mz_world z') e
       \<and> (\<not> mo_force options \<and> occupied (mz_world z) dest \<longrightarrow> disk (mz_world z') = disk (mz_world z))
       \<and> \<not> restore_ready env lower pid st s (mo_max_file_size options) dest z) z"
proof (rule materialize_spec [OF assms(1) refl assms(2) _ assms(4) refl])
  show "name_ok (last dest)" "dest = butlast dest @ [last dest]"
    using assms(3) by (simp_all add: names_ok_def list_all_iff)
qed

lemma ex_dest_ok: "names_ok [''w'', ''out'']" "names_ok [''w'']"
  by (simp_all add: names_ok_def ex_names ex_dest_names)

lemmas ex_outcome = materialize_outcome [OF ex_entries_ok _ ex_tree_ok]

lemma ex_restores:
  "\<exists>r z'. materialize ex_env (\<lambda>c. c) 1 ex_store3 ex_tree_snapshot [''w'', ''out''] ex_options ex_machine = (Inr r, z')"
  using ex_outcome [OF ex_dest_ok(1), of ex_env "\<lambda>c. c" 1 ex_store3 ex_options] ex_ready
  by (auto simp: after_def ex_options_def split: prod.splits sum.splits)

lemma ex_occupied: "occupied (mz_world ex_machine) [''w'']"
  using ex_disk(1,2) by (auto simp: occupied_def child_is_def)

lemma ex_refused:
  "\<exists>e z'. materialize ex_env (\<lambda>c. c) 1 ex_store3 ex_tree_snapshot [''w''] ex_options ex_machine = (Inl e, z')"
  using ex_outcome [OF ex_dest_ok(2), of ex_env "\<lambda>c. c" 1 ex_store3 ex_options] ex_occupied
  by (auto simp: after_def ex_options_def split: prod.splits sum.splits)

subsection \<open>Properties\<close>

text \<open>C8: a restore that succeeds, whatever the device did, leaves at the destination exactly the tree
  of the manifest (every entry with its kind, permissions, content or target, and nothing else), changes nothing
  outside the destination, and without force replaced nothing but an empty directory; the report
  counts what was created.\<close>
theorem restore_is_exact:
  fixes s :: snapshot
  assumes "manifest_ok (snapshot_content s)" and "entries_typed (manifest_entries (snapshot_content s))"
    and "names_ok dest" and "tree_ok (mz_world z)"
    and "materialize env lower pid st s dest options z = (Inr r, z')"
  defines "es \<equiv> manifest_entries (snapshot_content s)"
  shows "restored env st es dest (mz_world z) (mz_world z')
    \<and> (mo_force options \<or> \<not> occupied (mz_world z) dest)
    \<and> mr_destination r = dest \<and> report_is es es es (r\<lparr>mr_destination := []\<rparr>)"
  using after_ok [OF materialize_outcome [OF assms(1-4)] assms(5)]
  by (auto simp: es_def report_is_def)

theorem restore_is_exact_witness:
  "\<exists>z' :: materializer. pic [''w'', ''out''] (set ex_entries) (expected_item ex_env ex_store3 511) (disk (mz_world z'))
     \<and> disk (mz_world z') [''w'', ''c''] = Some (ItemFile 420 [7])"
proof -
  obtain r z' where z': "materialize ex_env (\<lambda>c. c) 1 ex_store3 ex_tree_snapshot [''w'', ''out''] ex_options ex_machine = (Inr r, z')"
    using ex_restores by blast
  have "restored ex_env ex_store3 ex_entries [''w'', ''out''] (mz_world ex_machine) (mz_world z')"
    using restore_is_exact [OF ex_entries_ok ex_dest_ok(1) ex_tree_ok z'] by (simp add: ex_tree_snapshot_def)
  then have "pic [''w'', ''out''] (set ex_entries) (expected_item ex_env ex_store3 511) (disk (mz_world z'))"
    "disk (mz_world z') [''w'', ''c''] = Some (ItemFile 420 [7])"
    using ex_disk(2) by (simp_all add: restored_def ex_machine_def [THEN arg_cong [of _ _ "\<lambda>z. w_link_mode (mz_world z)"]])
  then show ?thesis by blast
qed

text \<open>C9: after a failed restore, whatever the device did, the destination is the old tree (with at most the
  remains of a private tree beside it), or the complete new tree (with at most the remains of the
  backup beside it), or the restore reports a failed rollback and the old tree is whole under a
  backup name; nothing else has changed, and an occupied destination is untouched without force.\<close>
theorem failed_restore_is_confined:
  fixes s :: snapshot
  assumes "manifest_ok (snapshot_content s)" and "entries_typed (manifest_entries (snapshot_content s))"
    and "names_ok dest" and "tree_ok (mz_world z)"
    and "materialize env lower pid st s dest options z = (Inl e, z')"
  shows "settled pid env st (manifest_entries (snapshot_content s)) dest (mz_world z) (mz_world z') e
    \<and> (\<not> mo_force options \<and> occupied (mz_world z) dest \<longrightarrow> disk (mz_world z') = disk (mz_world z))"
  using after_err [OF materialize_outcome [OF assms(1-4)] assms(5)] by blast

theorem failed_restore_is_confined_witness:
  "\<exists>e z'. materialize ex_env (\<lambda>c. c) 1 ex_store3 ex_tree_snapshot [''w''] ex_options ex_machine = (Inl e, z')
     \<and> disk (mz_world z') = disk (mz_world ex_machine)"
proof -
  obtain e z' where z': "materialize ex_env (\<lambda>c. c) 1 ex_store3 ex_tree_snapshot [''w''] ex_options ex_machine = (Inl e, z')"
    using ex_refused by blast
  have "disk (mz_world z') = disk (mz_world ex_machine)"
    using failed_restore_is_confined [OF ex_entries_ok ex_dest_ok(2) ex_tree_ok z'] ex_occupied by (simp add: ex_options_def)
  with z' show ?thesis by blast
qed

text \<open>C10: a restore succeeds when the device does not fail, the snapshot validates and its objects load,
  the parent directory can be read and changed, and the destination is free.\<close>
theorem restore_succeeds:
  fixes s :: snapshot
  assumes "manifest_ok (snapshot_content s)" and "entries_typed (manifest_entries (snapshot_content s))"
    and "names_ok dest" and "tree_ok (mz_world z)"
    and "restore_ready env lower pid st s (mo_max_file_size options) dest z"
  shows "\<exists>r z'. materialize env lower pid st s dest options z = (Inr r, z')"
  using materialize_outcome [OF assms(1-4), of env lower pid st options] assms(5)
  by (auto simp: after_def split: prod.splits sum.splits)

theorem restore_succeeds_witness:
  "\<exists>r z'. materialize ex_env (\<lambda>c. c) 1 ex_store3 ex_tree_snapshot [''w'', ''out''] ex_options ex_machine = (Inr r, z')"
  by (rule restore_succeeds [OF ex_entries_ok ex_dest_ok(1) ex_tree_ok])
    (simp add: ex_options_def ex_ready)

text \<open>C11: the preflight of a restore accepts exactly the snapshots whose files are within the limit and
  whose objects are intact and as long as the manifest claims, however often an object is used.\<close>
theorem preflight_is_exact:
  fixes s :: snapshot
  shows "preflight_objects env st s maximum = Inr () \<longleftrightarrow>
    objects_available env st maximum (manifest_entries (snapshot_content s))"
  by (rule preflight_objects_Inr_iff)

end
