(* ===== verification/Scan_Theorems.thy ===== *)
theory Scan_Theorems
  imports Scan_Outcome Restore_Theorems
begin

section \<open>Properties of a scan\<close>

text \<open>
  A scan reports exactly the tree, and scanning what a restore has built gives the snapshot that
  was restored.
\<close>

subsection \<open>Exactness\<close>

definition scan_loads :: "'j env \<Rightarrow> node \<Rightarrow> 'j store \<Rightarrow> snapshot_entry \<Rightarrow> bool" where
  \<comment> \<open>the object of a file entry holds the bytes of the file\<close>
  "scan_loads env n st e \<longleftrightarrow> (\<forall>i size x. entry_kind e = File i size x \<longrightarrow>
     (\<exists>a bs. at n (parts e) = Some (FileNode a bs) \<and> load_object env st i size = Inr bs))"

lemma node_ok_file: "node_ok n \<Longrightarrow> at n q = Some (FileNode a bs) \<Longrightarrow> length bs < 2 ^ 64"
  using node_ok_at [of n q "FileNode a bs"] by (auto simp: MAX_FILE_LEN_def)

lemma expected_entry_loads:
  assumes n: "node_ok n" and e: "expected_entry env options n e"
    and held: "\<forall>bs \<in> found_contents (survey options [] n).
        holds_object (env_hash env) (st_files st) (ObjectId (env_hash env bs)) bs"
  shows "scan_loads env n st e"
  unfolding scan_loads_def
proof (intro allI impI)
  fix i size x assume kind: "entry_kind e = File i size x"
  obtain q k where q: "q \<noteq> []" "at n q = Some k" "visible options [] q" "\<not> too_large options k"
    and k: "entry_for env (join_with CHR ''/'' q) k = Some e"
    using e by (auto simp: expected_entry_def)
  then obtain a bs where leaf: "k = FileNode a bs" and i: "i = ObjectId (env_hash env bs)" "size = of_nat (length bs)"
    using kind by (cases k) (auto simp: entry_for_def Let_def)
  have len: "unat size = length bs"
    using node_ok_file [OF n, of q a bs] q(2) leaf i by (simp add: unat_of_nat64)
  have names: "\<forall>c \<in> set q. name_ok c" using at_names [OF n q(2)] .
  have "entry_path e = join_with CHR ''/'' q" using entry_for_Some(1) [OF k] .
  then have parts: "parts e = q"
    using split_on_join [OF q(1), of "CHR ''/''"] name_ok_list(2) [OF names] by (simp add: parts_def)
  have "Found (join_with CHR ''/'' q) k \<in> set (survey options [] n)"
    using survey_Found [OF n] q text_of_root [OF q(1) name_ok_list(1) [OF names]] by metis
  then have "bs \<in> found_contents (survey options [] n)" by (auto simp: found_contents_def leaf)
  then have "load_object env st i size = Inr bs" using held i len by (simp add: load_object_Inr_iff)
  then show "\<exists>a bs. at n (parts e) = Some (FileNode a bs) \<and> load_object env st i size = Inr bs"
    using q(2) leaf parts by blast
qed

subsection \<open>A restored tree\<close>

lemma materialize_checked:
  assumes "materialize env lower pid st s dest options z = (Inr r, z')"
  shows "Restore.validate_snapshot env lower s = Inr () \<and> preflight_objects env st s (mo_max_file_size options) = Inr ()"
proof -
  have "after (materialize env lower pid st s dest options)
    (\<lambda>_ _. Restore.validate_snapshot env lower s = Inr () \<and> preflight_objects env st s (mo_max_file_size options) = Inr ()) (\<lambda>_ _. True) z"
    unfolding materialize_def after_and_do after_lift
    by (cases "Restore.validate_snapshot env lower s"; cases "preflight_objects env st s (mo_max_file_size options)")
      (auto intro!: after_okI simp: Let_def and_do_def lift_def split: sum.splits prod.splits if_splits)
  from after_ok [OF this assms] show ?thesis .
qed

definition portable :: "world \<Rightarrow> scan_options \<Rightarrow> snapshot_entry \<Rightarrow> bool" where
  \<comment> \<open>the owner may read the entry, its texts are UTF-8, and the platform can give it its permissions\<close>
  "portable w options e \<longleftrightarrow> permissions_ok (entry_permissions e) \<and> (\<forall>c \<in> set (parts e). is_str c)
     \<and> (case entry_kind e of
          Directory \<Rightarrow> allows w (permission_mode e) S_IRUSR \<and> allows w (permission_mode e) S_IXUSR
        | File _ len _ \<Rightarrow> len \<le> sco_max_file_size options \<and> allows w (permission_mode e) S_IRUSR
        | Symlink t \<Rightarrow> is_str t \<and> entry_permissions e = scan_permissions (w_link_mode w))"

lemma scan_permissions_mask: "(ucast (and (ucast b :: u32) 0xFFF) :: u16) = and b 0xFFF"
proof -
  have masks: "(0xFFF :: u32) = mask 12" "(0xFFF :: u16) = mask 12" by (simp_all add: mask_eq_exp_minus_1)
  show ?thesis
    unfolding masks by (rule bit_word_eqI) (auto simp: bit_simps)
qed

lemma and_mask_same: "and (b :: u16) (not m) = 0 \<Longrightarrow> and b m = b"
  by (auto simp: bit_eq_iff bit_simps)

lemma scan_permissions_back:
  assumes "permissions_ok (entry_permissions e)"
  shows "scan_permissions (permission_mode e) = entry_permissions e"
proof -
  have "and (permission_bits (entry_permissions e)) 0xFFF = permission_bits (entry_permissions e)"
    using assms and_mask_same by (simp add: permissions_ok_def PERMISSIONS_MASK_def)
  then show ?thesis
    by (cases "entry_permissions e") (simp add: scan_permissions_def permission_mode_def scan_permissions_mask)
qed

lemma mode_executable: "and (permission_mode e) 0x49 \<noteq> 0 \<longleftrightarrow> is_executable (entry_permissions e)"
proof -
  have "and (ucast b :: u32) 0x49 = ucast (and b 0x49)" for b :: u16
    by (rule bit_word_eqI) (auto simp: bit_simps dest: bit_imp_le_length)
  moreover have "(ucast y :: u32) = 0 \<longleftrightarrow> y = 0" for y :: u16
  proof -
    have "bit y m \<Longrightarrow> m < 16 \<and> m < 32" for m using bit_imp_le_length [of y m] by simp
    then show ?thesis unfolding bit_eq_iff by (auto simp: bit_simps)
  qed
  ultimately show ?thesis
    by (cases "entry_permissions e") (simp add: permission_mode_def is_executable_def)
qed

lemma expected_item_entry:
  assumes i: "item_of k = expected_item env st (w_link_mode w) e" and ok: "entry_ok e" and p: "portable w options e"
    and loads: "\<And>i n x. entry_kind e = File i n x \<Longrightarrow> \<exists>bs. load_object env st i n = Inr bs \<and> of_nat (length bs) = n"
  shows "entry_for env (entry_path e) k = Some e \<and> \<not> too_large options k"
proof (cases "entry_kind e")
  case Directory
  then obtain a cs where k: "k = DirNode a cs" and m: "at_mode a = permission_mode e"
    using i by (cases k) (auto simp: expected_item_def)
  then show ?thesis
    using Directory p scan_permissions_back [of e] by (simp add: entry_for_def too_large_def portable_def)
next
  case (File j len x)
  then obtain a bs where k: "k = FileNode a bs" and m: "at_mode a = permission_mode e" and bs: "bs = content_of env st j len"
    using i by (cases k) (auto simp: expected_item_def)
  have l: "load_object env st j len = Inr bs" "of_nat (length bs) = len" using loads [OF File] bs by (auto simp: content_of_def)
  then have "length bs = unat len" "ObjectId (env_hash env bs) = j"
    by (auto simp: load_object_Inr_iff holds_object_def unat_of_nat HEADER_LEN_def)
  moreover have "len \<le> sco_max_file_size options" using p File by (simp add: portable_def)
  ultimately have "\<not> too_large options k" "ObjectId (env_hash env bs) = j" by (auto simp: k too_large_def word_le_nat_alt)
  moreover have "x = is_executable (entry_permissions e)" using ok File by (simp add: entry_ok_def)
  ultimately show ?thesis
    using File p l(2) m mode_executable [of e] scan_permissions_back [of e] by (simp add: k entry_for_def portable_def)
next
  case (Symlink t)
  then obtain a where k: "k = LinkNode a t" and m: "at_mode a = w_link_mode w"
    using i by (cases k) (auto simp: expected_item_def)
  then show ?thesis using Symlink p by (simp add: entry_for_def too_large_def portable_def)
qed

definition node_fine :: "world \<Rightarrow> node \<Rightarrow> bool" where
  "node_fine w k \<longleftrightarrow> (case k of
       DirNode _ cs \<Rightarrow> readable w k \<and> searchable w k \<and> length cs \<le> USIZE_MAX
     | FileNode _ _ \<Rightarrow> readable w k
     | LinkNode _ t \<Rightarrow> length t < MAX_SYMLINK_TARGET_BYTES \<and> is_str t
     | OtherNode _ \<Rightarrow> False)"

lemma scannable_fine:
  assumes "node_ok n" and "is_dir n"
    and "\<And>q k. at n q = Some k \<Longrightarrow> node_fine w k"
    and "\<And>q k. q \<noteq> [] \<Longrightarrow> at n q = Some k \<Longrightarrow> (\<forall>c \<in> set q. is_str c) \<and> is_ok (snapshot_path_from_str (text_of r q))"
  shows "scannable w options r n"
  using assms
proof (induction n arbitrary: r rule: measure_induct_rule [of size])
  case (less n)
  obtain a cs where n: "n = DirNode a cs" using less.prems(2) by (cases n) auto
  have "is_str c \<and> is_ok (snapshot_path_from_str (relative_text r c)) \<and> entry_scannable w options (relative_text r c) k"
    if "(c, k) \<in> set (listing n)" for c k
  proof -
    have m: "map_of (children n) c = Some k" using node_ok_child(1) [OF less.prems(1)] that by blast
    then have at: "at n (c # q) = at k q" for q by simp
    have c: "is_str c" "is_ok (snapshot_path_from_str (relative_text r c))" using less.prems(4) [of "[c]" k] m by auto
    have k: "node_fine w k" using less.prems(3) [of "[c]" k] m by simp
    have "scannable w options (relative_text r c) k" if "is_dir k"
    proof (rule less.IH [OF child_smaller [OF \<open>(c, k) \<in> set (listing n)\<close>] _ that])
      show "node_ok k" using node_ok_child(2) [OF less.prems(1) m] by blast
      show "node_fine w k'" if "at k q = Some k'" for q k' using less.prems(3) [of "c # q" k'] at that by simp
      show "(\<forall>d \<in> set q. is_str d) \<and> is_ok (snapshot_path_from_str (text_of (relative_text r c) q))" if "at k q = Some k'" for q k'
        using less.prems(4) [of "c # q" k'] at that by simp
    qed
    then show ?thesis using c k by (cases k) (auto simp: entry_scannable.simps node_fine_def)
  qed
  moreover have "node_fine w n" using less.prems(3) [of "[]" n] by simp
  ultimately show ?case
    unfolding scannable.simps [of w options r n] by (auto simp: list_all_iff node_fine_def n)
qed

definition file_contents :: "'j env \<Rightarrow> 'j store \<Rightarrow> snapshot_entry list \<Rightarrow> u8 list set" where
  "file_contents env st es = {bs. \<exists>e \<in> set es. \<exists>i n x. entry_kind e = File i n x \<and> bs = content_of env st i n}"

lemma no_ignore:
  assumes "sco_ignore options = []"
  shows "ignoring_pattern options p = None" "visible options r q"
proof -
  show i: "ignoring_pattern options p = None" for p using assms by (simp add: ignoring_pattern_def)
  show "visible options r q" by (induction q arbitrary: r) (simp_all add: i)
qed

definition rescannable :: "'j env \<Rightarrow> 'j store \<Rightarrow> snapshot \<Rightarrow> string list \<Rightarrow> world \<Rightarrow> scan_options \<Rightarrow> bool" where
  \<comment> \<open>the destination shows the snapshot, and nothing in it keeps a scan from reading it\<close>
  "rescannable env st s dest w options \<longleftrightarrow> (let es = manifest_entries (snapshot_content s) in
     manifest_ok (snapshot_content s) \<and> entries_typed es \<and> tree_ok w
     \<and> pic dest (set es) (expected_item env st (w_link_mode w)) (disk w)
     \<and> (\<exists>maximum. objects_available env st maximum es)
     \<and> (\<forall>e \<in> set es. portable w options e) \<and> length es \<le> USIZE_MAX \<and> sco_ignore options = [])"

lemma rescannable_node:
  assumes r: "rescannable env st s dest w options" and root: "at (w_tree w) dest = Some n"
  defines "es \<equiv> manifest_entries (snapshot_content s)"
  shows "node_ok n" "is_dir n"
    and "q \<noteq> [] \<Longrightarrow> at n q = Some k \<Longrightarrow> \<exists>e \<in> set es. q = parts e \<and> item_of k = expected_item env st (w_link_mode w) e"
    and "e \<in> set es \<Longrightarrow> \<exists>k. at n (parts e) = Some k \<and> item_of k = expected_item env st (w_link_mode w) e"
proof -
  have tree: "tree_ok w" and pic: "pic dest (set es) (expected_item env st (w_link_mode w)) (disk w)"
    using r by (simp_all add: rescannable_def Let_def es_def)
  show "node_ok n" using tree root node_ok_at by (auto simp: tree_ok_def)
  have disk: "disk w (dest @ q) = map_option item_of (at n q)" for q
    using root by (simp add: disk_def view_def at_append)
  have "item_of n = ItemDir OWNER_ALL" using pic disk [of "[]"] by (simp add: pic_def)
  then show "is_dir n" by (cases n) auto
  show "\<exists>e \<in> set es. q = parts e \<and> item_of k = expected_item env st (w_link_mode w) e" if "q \<noteq> []" "at n q = Some k"
    using that pic disk [of q] by (fastforce simp: pic_def)
  show "\<exists>k. at n (parts e) = Some k \<and> item_of k = expected_item env st (w_link_mode w) e" if "e \<in> set es"
  proof -
    have "map_option item_of (at n (parts e)) = Some (expected_item env st (w_link_mode w) e)"
      using that pic disk [of "parts e"] by (simp add: pic_def)
    then show ?thesis by auto
  qed
qed

lemma rescannable_entry:
  assumes r: "rescannable env st s dest w options"
  defines "es \<equiv> manifest_entries (snapshot_content s)"
  assumes e: "e \<in> set es" and k: "item_of k = expected_item env st (w_link_mode w) e"
  shows "entry_for env (entry_path e) k = Some e" "\<not> too_large options k"
proof -
  obtain maximum where a: "objects_available env st maximum es" using r by (auto simp: rescannable_def Let_def es_def)
  have "entry_for env (entry_path e) k = Some e \<and> \<not> too_large options k"
  proof (rule expected_item_entry [OF k])
    show "entry_ok e" "portable w options e" using r e by (auto simp: rescannable_def Let_def es_def manifest_ok_def)
    show "\<exists>bs. load_object env st i m = Inr bs \<and> of_nat (length bs) = m" if "entry_kind e = File i m x" for i m x
      using a e that by (auto simp: objects_available_def)
  qed
  then show "entry_for env (entry_path e) k = Some e" "\<not> too_large options k" by auto
qed

lemma join_parts: "join_with CHR ''/'' (parts e) = entry_path e"
  by (simp add: parts_def join_split_on)

lemma rescanned_entries:
  assumes r: "rescannable env st s dest w options" and root: "at (w_tree w) dest = Some n"
  shows "expected_entry env options n e \<longleftrightarrow> e \<in> set (manifest_entries (snapshot_content s))"
    and "\<not> expected_exclusion options n x"
proof -
  have all: "sco_ignore options = []" using r by (simp add: rescannable_def Let_def)
  show "expected_entry env options n e \<longleftrightarrow> e \<in> set (manifest_entries (snapshot_content s))"
  proof
    assume "expected_entry env options n e"
    then obtain q k where q: "q \<noteq> []" "at n q = Some k" and f: "entry_for env (join_with CHR ''/'' q) k = Some e"
      by (auto simp: expected_entry_def)
    then obtain d where d: "d \<in> set (manifest_entries (snapshot_content s))" "q = parts d"
      "item_of k = expected_item env st (w_link_mode w) d" using rescannable_node(3) [OF r root] by blast
    then show "e \<in> set (manifest_entries (snapshot_content s))"
      using rescannable_entry(1) [OF r d(1,3)] f by (simp add: join_parts)
  next
    assume e: "e \<in> set (manifest_entries (snapshot_content s))"
    then obtain k where k: "at n (parts e) = Some k" "item_of k = expected_item env st (w_link_mode w) e"
      using rescannable_node(4) [OF r root] by blast
    then show "expected_entry env options n e"
      unfolding expected_entry_def
      using rescannable_entry [OF r e k(2)] no_ignore(2) [OF all]
      by (intro exI [of _ "parts e"] exI [of _ k]) (simp add: join_parts)
  qed
  show "\<not> expected_exclusion options n x"
  proof
    assume "expected_exclusion options n x"
    then obtain q k where q: "q \<noteq> []" "at n q = Some k" "too_large options k"
      by (auto simp: expected_exclusion_def omitted_as_def no_ignore(1) [OF all])
    then show False using rescannable_node(3) [OF r root q(1,2)] rescannable_entry(2) [OF r] by blast
  qed
qed

lemma rescannable_children:
  assumes r: "rescannable env st s dest w options" and root: "at (w_tree w) dest = Some n"
    and k: "at n q = Some (DirNode a cs)"
  shows "length cs \<le> length (manifest_entries (snapshot_content s))"
proof -
  let ?es = "manifest_entries (snapshot_content s)"
  have ok: "node_ok (DirNode a cs)" using node_ok_at [OF rescannable_node(1) [OF r root] k] .
  have "(\<lambda>c. q @ [c]) ` set (map fst cs) \<subseteq> parts ` set ?es"
  proof (rule image_subsetI)
    fix c assume "c \<in> set (map fst cs)"
    then obtain m where "map_of cs c = Some m" by (metis list.set_map map_of_eq_None_iff not_Some_eq)
    then have "at n (q @ [c]) = Some m" using k by (simp add: at_append)
    then show "q @ [c] \<in> parts ` set ?es" using rescannable_node(3) [OF r root, of "q @ [c]" m] by auto
  qed
  then have "card ((\<lambda>c. q @ [c]) ` set (map fst cs)) \<le> card (parts ` set ?es)" by (rule card_mono [rotated]) simp
  moreover have "card ((\<lambda>c. q @ [c]) ` set (map fst cs)) = length cs"
    using ok distinct_card [of "map fst cs"] by (simp add: card_image inj_on_def del: set_map)
  moreover have "card (parts ` set ?es) \<le> length ?es"
    using card_image_le [of "set ?es" parts] card_length [of ?es] by simp
  ultimately show ?thesis by simp
qed

lemma rescannable_fine:
  assumes r: "rescannable env st s dest w options" and root: "at (w_tree w) dest = Some n" and k: "at n q = Some k"
  shows "node_fine w k"
proof (cases "q = []")
  case True
  have "disk w dest = Some (ItemDir OWNER_ALL)" using r by (auto simp: rescannable_def Let_def pic_def)
  then obtain a cs where n: "n = DirNode a cs" "at_mode a = OWNER_ALL" using root by (auto simp: disk_dir)
  have "length cs \<le> USIZE_MAX" using rescannable_children [OF r root, of "[]" a cs] n r by (auto simp: rescannable_def Let_def)
  then show ?thesis using True k n
    by (auto simp: node_fine_def readable_def searchable_def allows_def OWNER_ALL_def S_IRUSR_def S_IXUSR_def)
next
  case False
  then obtain e where e: "e \<in> set (manifest_entries (snapshot_content s))" "item_of k = expected_item env st (w_link_mode w) e"
    using rescannable_node(3) [OF r root False k] by blast
  have p: "portable w options e" and ok: "entry_ok e" using r e(1) by (auto simp: rescannable_def Let_def manifest_ok_def)
  show ?thesis
  proof (cases k)
    case (DirNode a cs)
    then have "length cs \<le> USIZE_MAX" using rescannable_children [OF r root, of q a cs] k r by (auto simp: rescannable_def Let_def)
    then show ?thesis using DirNode e(2) p
      by (auto simp: node_fine_def readable_def searchable_def portable_def expected_item_def split: snapshot_entry_kind.splits)
  next
    case (LinkNode a t)
    then have "entry_kind e = Symlink t" using e(2) by (auto simp: expected_item_def split: snapshot_entry_kind.splits)
    then show ?thesis using LinkNode p ok
      by (auto simp: node_fine_def portable_def entry_ok_def MAX_SNAPSHOT_PATH_BYTES_def MAX_SYMLINK_TARGET_BYTES_def)
  qed (use e(2) p in \<open>auto simp: node_fine_def readable_def portable_def expected_item_def split: snapshot_entry_kind.splits\<close>)
qed

lemma rescannable_scannable:
  assumes r: "rescannable env st s dest w options" and root: "at (w_tree w) dest = Some n"
  shows "scannable w options [] n"
proof (rule scannable_fine [OF rescannable_node(1,2) [OF r root] rescannable_fine [OF r root]])
  fix q k assume q: "q \<noteq> []" "at n q = Some k"
  then obtain e where e: "e \<in> set (manifest_entries (snapshot_content s))" "q = parts e"
    using rescannable_node(3) [OF r root] by blast
  have "text_of [] q = entry_path e"
    using text_of_root [OF q(1)] name_ok_list(1) [OF at_names [OF rescannable_node(1) [OF r root] q(2)]] by (simp add: e(2) join_parts)
  moreover have "snapshot_path_from_str (entry_path e) = Inr (entry_path e)"
    using r e(1) by (simp add: rescannable_def Let_def entries_typed_def snapshot_path_from_str_Inr_iff)
  moreover have "portable w options e" using r e(1) by (simp add: rescannable_def Let_def)
  ultimately show "(\<forall>c \<in> set q. is_str c) \<and> is_ok (snapshot_path_from_str (text_of [] q))"
    by (simp add: portable_def e(2))
qed

lemma rescanned_contents:
  assumes r: "rescannable env st s dest w options" and root: "at (w_tree w) dest = Some n"
  shows "found_contents (survey options [] n) \<subseteq> file_contents env st (manifest_entries (snapshot_content s))"
proof
  fix bs assume "bs \<in> found_contents (survey options [] n)"
  then obtain p a where "Found p (FileNode a bs) \<in> set (survey options [] n)" by (auto simp: found_contents_def)
  then obtain q where q: "q \<noteq> []" "at n q = Some (FileNode a bs)" using survey_Found [OF rescannable_node(1) [OF r root]] by blast
  then obtain e where "e \<in> set (manifest_entries (snapshot_content s))" "ItemFile (at_mode a) bs = expected_item env st (w_link_mode w) e"
    using rescannable_node(3) [OF r root q] by auto
  then show "bs \<in> file_contents env st (manifest_entries (snapshot_content s))"
    by (fastforce simp: expected_item_def file_contents_def split: snapshot_entry_kind.splits)
qed

lemma rescan:
  assumes r: "rescannable env st s dest w options" and h: "hash_ok (env_hash env)"
    and valid: "Restore.validate_snapshot env lower s = Inr ()"
    and device: "calm w" "reachable_dir w dest" and z: "sc_world z = w"
    and accepts: "store_accepts env (file_contents env st (manifest_entries (snapshot_content s))) (sc_store z)"
  shows "\<exists>report z'. scan_workspace env lower dest options created z = (Inr report, z')
    \<and> srp_snapshot report = s \<and> srp_exclusions report = []"
proof -
  let ?es = "manifest_entries (snapshot_content s)"
  let ?K = "file_contents env st ?es"
  have tree: "tree_ok w" and m: "manifest_ok (snapshot_content s)" using r by (simp_all add: rescannable_def Let_def)
  have new: "manifest_new (found_entries env (survey options [] n)) = Inr (snapshot_content s)"
    if root: "at (w_tree w) dest = Some n" for n
  proof -
    let ?found = "found_entries env (survey options [] n)"
    have ok: "node_ok n" using rescannable_node(1) [OF r root] .
    have set: "set ?found = set ?es" using survey_entries [OF ok] rescanned_entries(1) [OF r root] by blast
    have d: "distinct (map entry_path ?found)" using found_entries_distinct [OF ok] .
    have "sort_key entry_path ?found = ?es"
      by (rule sorted_key_unique [where key = entry_path])
        (use m d set in \<open>simp_all add: strictly_sorted_sort_key manifest_ok_def\<close>)
    then show ?thesis
      using m d set by (cases "snapshot_content s") (auto simp: manifest_new_Inr_iff manifest_ok_def)
  qed
  have json: "validate_manifest lower (snapshot_content s) = Inr ()" "env_manifest_json env (snapshot_content s) \<noteq> None"
    using valid by (auto simp: Restore.validate_snapshot_def and_then_Inr_iff)
  have ready: "scan_ready env lower ?K options w dest z"
    unfolding scan_ready_def scan_good_def
    using device accepts rescanned_contents [OF r] rescannable_scannable [OF r] new json by blast
  have none: "omissions (survey options [] n) = []" if root: "at (w_tree w) dest = Some n" for n
    using survey_omissions [OF rescannable_node(1) [OF r root]] rescanned_entries(2) [OF r root] by (metis list.set_intros(1) neq_Nil_conv)
  have "after (scan_workspace env lower dest options created)
      (\<lambda>report _. srp_snapshot report = s \<and> srp_exclusions report = []) (\<lambda>_ _. False) z"
  proof (rule after_mono [OF scan_workspace_spec [OF h tree z, where K = ?K]], goal_cases)
    case (1 report z')
    then obtain n where root: "at (w_tree w) dest = Some n" and rep: "scan_report_of env lower options n report" by blast
    have content: "snapshot_content (srp_snapshot report) = snapshot_content s"
      using rep new [OF root] by (simp add: scan_report_of_def)
    have "snapshot_identity (srp_snapshot report) = snapshot_identity s"
      using rep valid content by (auto simp: scan_report_of_def Restore.validate_snapshot_def and_then_Inr_iff Let_def split: if_splits)
    then have "srp_snapshot report = s" using content by (simp add: snapshot.equality)
    then show ?case using rep none [OF root] by (simp add: scan_report_of_def)
  next
    case (2 e z')
    then show ?case using ready by blast
  qed
  from after_total [OF this] show ?thesis by blast
qed

subsection \<open>An example\<close>

definition ex_scanner :: "world \<Rightarrow> event_payload scanner" where
  "ex_scanner w = \<lparr>sc_world = w, sc_store = ex_store3, sc_entries = [], sc_exclusions = []\<rparr>"

definition ex_scan_options :: scan_options where
  "ex_scan_options = \<lparr>sco_ignore = [], sco_max_file_size = DEFAULT_MAX_FILE_SIZE\<rparr>"

lemma ex_str: "is_str ''a''" "is_str ''b''"
  by (simp_all add: is_str_def as_bytes_def byte_of_char_def)

lemma ex_contents: "file_contents ex_env ex_store3 ex_entries = {[1, 2, 3]}"
proof -
  have "load_object ex_env ex_store3 ex_object_id 3 = Inr [1, 2, 3]"
    by (simp add: load_object_Inr_iff holds_object_def ex_store3_def HEADER_LEN_def ex_object_id_def)
  then show ?thesis by (auto simp: file_contents_def ex_entries_def content_of_def)
qed

lemma ex_accepts: "store_accepts ex_env (file_contents ex_env ex_store3 ex_entries) ex_store3"
proof -
  have "index_ok ex_env ex_store3" using ex_store_ok(3) by (simp add: store_ok_iff)
  moreover have "st_writer ex_store3" by (simp add: ex_store3_def ex_store2_def ex_store1_def)
  ultimately show ?thesis
    unfolding store_accepts_def ex_contents by (simp add: HEADER_LEN_def holds_object_def ex_store3_def ex_object_id_def)
qed

lemma ex_portable: "w_privileged w = False \<Longrightarrow> e \<in> set ex_entries \<Longrightarrow> portable w ex_scan_options e"
  by (auto simp: ex_entries_def portable_def permissions_ok_def PERMISSIONS_MASK_def parts_def ex_str permission_mode_def
      allows_def S_IRUSR_def S_IXUSR_def ex_scan_options_def DEFAULT_MAX_FILE_SIZE_def)

lemma reach_open:
  assumes "at n p = Some k" and "\<And>j. j < length p \<Longrightarrow> \<exists>a cs. at n (take j p) = Some (DirNode a cs) \<and> allows w (at_mode a) S_IXUSR"
  shows "reach w n p = Inr k"
  using assms
proof (induction p arbitrary: n)
  case (Cons c p)
  obtain a cs where n: "n = DirNode a cs" "allows w (at_mode a) S_IXUSR" using Cons.prems(2) [of 0] by auto
  obtain m where m: "map_of cs c = Some m" "at m p = Some k" using Cons.prems(1) n by (auto split: option.splits)
  have "reach w m p = Inr k"
    by (rule Cons.IH [OF m(2)]) (use Cons.prems(2) [of "Suc j" for j] n m in force)
  then show ?case using n m by (simp add: grants_allows)
qed simp

lemma reachable_dirI:
  assumes "disk w p = Some (ItemDir m)" and "allows w m S_IRUSR"
    and "\<And>j. j < length p \<Longrightarrow> \<exists>m. disk w (take j p) = Some (ItemDir m) \<and> allows w m S_IXUSR"
  shows "reachable_dir w p"
proof -
  obtain a cs where k: "at (w_tree w) p = Some (DirNode a cs)" "at_mode a = m" using assms(1) by (auto simp: disk_dir)
  have "\<exists>a cs. at (w_tree w) (take j p) = Some (DirNode a cs) \<and> allows w (at_mode a) S_IXUSR" if "j < length p" for j
    using assms(3) [OF that] by (force simp: disk_dir)
  then have "reach w (w_tree w) p = Inr (DirNode a cs)" by (rule reach_open [OF k(1)])
  then show ?thesis using assms(2) k by (auto simp: reachable_dir_def)
qed

lemma ex_disk_root: "disk (mz_world ex_machine) [] = Some (ItemDir 448)"
  by (simp add: disk_def view_def ex_machine_def ex_attributes_def)

lemma ex_restored:
  "\<exists>r z1. materialize ex_env (\<lambda>c. c) 1 ex_store3 ex_tree_snapshot [''w'', ''out''] ex_options ex_machine = (Inr r, z1)
     \<and> calm (mz_world z1) \<and> reachable_dir (mz_world z1) [''w'', ''out''] \<and> tree_ok (mz_world z1)
     \<and> w_privileged (mz_world z1) = False
     \<and> rescannable ex_env ex_store3 ex_tree_snapshot [''w'', ''out''] (mz_world z1) ex_scan_options"
proof -
  obtain r z1 where z1: "materialize ex_env (\<lambda>c. c) 1 ex_store3 ex_tree_snapshot [''w'', ''out''] ex_options ex_machine = (Inr r, z1)"
    using ex_restores by blast
  have es: "manifest_entries (snapshot_content ex_tree_snapshot) = ex_entries" by (simp add: ex_tree_snapshot_def)
  have res: "restored ex_env ex_store3 ex_entries [''w'', ''out''] (mz_world ex_machine) (mz_world z1)"
    using after_ok [OF materialize_outcome [OF ex_entries_ok ex_dest_ok(1) ex_tree_ok] z1] es by simp
  then have st: "steady (mz_world ex_machine) (mz_world z1)" by (simp add: restored_def)
  have calm: "calm (mz_world z1)" using steady_calm [OF st] by (simp add: calm_def ex_machine_def)
  have user: "w_privileged (mz_world z1) = False" using st by (simp add: steady_def ex_machine_def)
  have tree: "tree_ok (mz_world z1)" using st ex_tree_ok by (simp add: steady_def)
  have same: "disk (mz_world z1) q = disk (mz_world ex_machine) q" if "\<not> prefix [''w'', ''out''] q" for q
    using res that by (simp add: restored_def)
  have d: "disk (mz_world z1) [] = Some (ItemDir 448)" "disk (mz_world z1) [''w''] = Some (ItemDir 448)"
    using same [of "[]"] same [of "[''w'']"] ex_disk(1) ex_disk_root by simp_all
  have top: "disk (mz_world z1) [''w'', ''out''] = Some (ItemDir OWNER_ALL)"
    using res by (simp add: restored_def pic_def)
  have "reachable_dir (mz_world z1) [''w'', ''out'']"
    by (rule reachable_dirI [OF top])
      (auto simp: allows_def OWNER_ALL_def S_IRUSR_def S_IXUSR_def less_Suc_eq numeral_2_eq_2 d)
  moreover have "rescannable ex_env ex_store3 ex_tree_snapshot [''w'', ''out''] (mz_world z1) ex_scan_options"
    using ex_entries_ok tree res st ex_portable [OF user] preflight_objects_Inr_iff [of ex_env ex_store3 ex_tree_snapshot] ex_available
    by (auto simp: rescannable_def Let_def es restored_def steady_def ex_entries_def USIZE_MAX_def ex_scan_options_def)
  ultimately show ?thesis using z1 calm tree user by blast
qed

subsection \<open>Properties\<close>

text \<open>C12: a scan that succeeds, whatever the device did, changes nothing on the disk, keeps every stored
  object, and reports a valid snapshot whose entries are exactly the visible nodes below the root
  with their kinds, permissions, contents and targets, whose files have loadable objects with the
  bytes read, and whose exclusions are exactly the ignored paths and the files over the limit.\<close>
theorem scan_is_exact:
  assumes "hash_ok (env_hash env)" and "tree_ok (sc_world z)"
    and "scan_workspace env lower root options created z = (Inr report, z')"
  defines "es \<equiv> manifest_entries (snapshot_content (srp_snapshot report))"
  shows "disk (sc_world z') = disk (sc_world z) \<and> store_grown env (sc_store z) (sc_store z')
    \<and> Restore.validate_snapshot env lower (srp_snapshot report) = Inr ()
    \<and> (\<exists>n. at (w_tree (sc_world z)) root = Some n
         \<and> set es = {e. expected_entry env options n e} \<and> distinct (map entry_path es)
         \<and> list_all (scan_loads env n (sc_store z')) es
         \<and> set (srp_exclusions report) = {x. expected_exclusion options n x})"
proof -
  obtain n where n: "at (w_tree (sc_world z)) root = Some n" and rep: "scan_report_of env lower options n report"
    and stopped: "scan_stopped env (sc_world z) z z'"
    and held: "\<forall>bs \<in> found_contents (survey options [] n).
        holds_object (env_hash env) (st_files (sc_store z')) (ObjectId (env_hash env bs)) bs"
    using after_ok [OF scan_workspace_spec [OF assms(1,2) refl] assms(3)] by blast
  have ok: "node_ok n" using assms(2) n node_ok_at by (auto simp: tree_ok_def)
  have set: "set es = {e. expected_entry env options n e}" and d: "distinct (map entry_path es)"
    using rep survey_entries [OF ok, of _ env options] manifest_new_ok [of "found_entries env (survey options [] n)"]
    by (auto simp: scan_report_of_def es_def manifest_ok_def strictly_sorted_iff)
  have "list_all (scan_loads env n (sc_store z')) es"
    using set expected_entry_loads [OF ok _ held] by (simp add: list_all_iff)
  moreover have "set (srp_exclusions report) = {x. expected_exclusion options n x}"
    using rep survey_omissions [OF ok] by (auto simp: scan_report_of_def)
  ultimately show ?thesis
    using stopped rep n set d quiet_disk by (auto simp: scan_stopped_def scan_report_of_def)
qed

theorem scan_is_exact_witness:
  "\<exists>w report y'. scan_workspace ex_env (\<lambda>c. c) [''w'', ''out''] ex_scan_options 0 (ex_scanner w) = (Inr report, y')
     \<and> disk (sc_world y') = disk w \<and> Restore.validate_snapshot ex_env (\<lambda>c. c) (srp_snapshot report) = Inr ()"
proof -
  obtain z1 :: materializer where z1: "calm (mz_world z1)" "reachable_dir (mz_world z1) [''w'', ''out'']" "tree_ok (mz_world z1)"
    "rescannable ex_env ex_store3 ex_tree_snapshot [''w'', ''out''] (mz_world z1) ex_scan_options"
    using ex_restored by blast
  have hash: "hash_ok (env_hash ex_env)" using ex_env_ok by (simp add: env_ok_def)
  have tree: "tree_ok (sc_world (ex_scanner (mz_world z1)))" using z1(3) by (simp add: ex_scanner_def)
  have acc: "store_accepts ex_env (file_contents ex_env ex_store3 (manifest_entries (snapshot_content ex_tree_snapshot)))
      (sc_store (ex_scanner (mz_world z1)))" and here: "sc_world (ex_scanner (mz_world z1)) = mz_world z1"
    using ex_accepts by (simp_all add: ex_tree_snapshot_def ex_scanner_def)
  obtain report y' where y': "scan_workspace ex_env (\<lambda>c. c) [''w'', ''out''] ex_scan_options 0 (ex_scanner (mz_world z1)) = (Inr report, y')"
    using rescan [OF z1(4) hash ex_valid z1(1,2) here acc, where created = 0] by blast
  show ?thesis
    using scan_is_exact [OF hash tree y'] y' by (auto simp: ex_scanner_def)
qed

text \<open>C13: restoring a snapshot and scanning the destination gives the same snapshot, identity included, if
  the device works, the owner may read the restored files, the texts are UTF-8 and the platform can
  represent the permissions of the links.\<close>
theorem restore_scan_roundtrip:
  fixes s :: snapshot
  assumes "manifest_ok (snapshot_content s)" and "entries_typed (manifest_entries (snapshot_content s))"
    and "names_ok dest" and "tree_ok (mz_world z)" and "hash_ok (env_hash env)"
    and "materialize env lower pid st s dest restore_options z = (Inr r, z1)"
    and "sc_world y = mz_world z1" and "calm (mz_world z1)" and "reachable_dir (mz_world z1) dest"
    and "\<forall>e \<in> set (manifest_entries (snapshot_content s)). portable (mz_world z1) options e"
    and "length (manifest_entries (snapshot_content s)) \<le> USIZE_MAX" and "sco_ignore options = []"
    and "store_accepts env (file_contents env st (manifest_entries (snapshot_content s))) (sc_store y)"
  shows "\<exists>report y'. scan_workspace env lower dest options created y = (Inr report, y')
    \<and> srp_snapshot report = s \<and> srp_exclusions report = []"
proof -
  have restored: "restored env st (manifest_entries (snapshot_content s)) dest (mz_world z) (mz_world z1)"
    using after_ok [OF materialize_outcome [OF assms(1-4)] assms(6)] by blast
  then have "rescannable env st s dest (mz_world z1) options"
    using assms(1,2,4,10-12) materialize_checked [OF assms(6)]
    by (auto simp: rescannable_def Let_def restored_def steady_def preflight_objects_Inr_iff)
  then show ?thesis
    using rescan [OF _ assms(5) _ assms(8,9,7,13)] materialize_checked [OF assms(6)] by blast
qed

theorem restore_scan_roundtrip_witness:
  "\<exists>w report y'. scan_workspace ex_env (\<lambda>c. c) [''w'', ''out''] ex_scan_options 0 (ex_scanner w) = (Inr report, y')
     \<and> srp_snapshot report = ex_tree_snapshot"
proof -
  obtain r z1 where run: "materialize ex_env (\<lambda>c. c) 1 ex_store3 ex_tree_snapshot [''w'', ''out''] ex_options ex_machine = (Inr r, z1)"
    and z1: "calm (mz_world z1)" "reachable_dir (mz_world z1) [''w'', ''out'']"
      "rescannable ex_env ex_store3 ex_tree_snapshot [''w'', ''out''] (mz_world z1) ex_scan_options"
    using ex_restored by blast
  have hash: "hash_ok (env_hash ex_env)" using ex_env_ok by (simp add: env_ok_def)
  have fine: "\<forall>e \<in> set (manifest_entries (snapshot_content ex_tree_snapshot)). portable (mz_world z1) ex_scan_options e"
    "length (manifest_entries (snapshot_content ex_tree_snapshot)) \<le> USIZE_MAX" "sco_ignore ex_scan_options = []"
    using z1(3) by (simp_all add: rescannable_def Let_def)
  have acc: "store_accepts ex_env (file_contents ex_env ex_store3 (manifest_entries (snapshot_content ex_tree_snapshot)))
      (sc_store (ex_scanner (mz_world z1)))" and here: "sc_world (ex_scanner (mz_world z1)) = mz_world z1"
    using ex_accepts by (simp_all add: ex_tree_snapshot_def ex_scanner_def)
  show ?thesis
    using restore_scan_roundtrip [OF ex_entries_ok ex_dest_ok(1) ex_tree_ok hash run here z1(1,2) fine acc] by blast
qed

end
