(* ===== verification/Capture.thy ===== *)
theory Capture
  imports Scan Events Run_Model
begin

section \<open>Options, errors and helpers of the recorder\<close>

text \<open>
  \<open>rewind-capture/src/lib.rs\<close> and the functions of \<open>recorder.rs\<close> that have no state: the limits a
  capture is started with, its errors, where the store may lie, which terminal input is
  recorded, and how diagnostics are cut to the length an event may carry.

  A \<open>Duration\<close> is its number of nanoseconds.  The clocks and the generator of record ids are a
  \<open>host\<close>: the answer to each of its calls is arbitrary.  The texts of errors are written by a
  derive macro that is not part of the repository, so \<open>displays\<close>, the functions that print them,
  is an argument.
\<close>

subsection \<open>Limits\<close>

definition MAX_TERMINAL_CHUNK_BYTES :: nat where "MAX_TERMINAL_CHUNK_BYTES = 1024 * 1024"
definition MAX_CHANNEL_CAPACITY :: nat where "MAX_CHANNEL_CAPACITY = 65536"
definition MAX_EVENT_BATCH_SIZE :: nat where "MAX_EVENT_BATCH_SIZE = 10000"
definition MAX_PENDING_DIRTY_PATHS :: nat where "MAX_PENDING_DIRTY_PATHS = 1000000"

type_synonym duration = nat

definition from_millis :: "nat \<Rightarrow> duration" where
  "from_millis n = n * 1000000"

definition from_secs :: "nat \<Rightarrow> duration" where
  "from_secs n = n * 1000000000"

record pty_size =
  ps_rows :: u16
  ps_columns :: u16
  ps_pixel_width :: u16
  ps_pixel_height :: u16

record capture_options =
  co_record_input :: input_recording_policy
  co_capture_environment :: bool
  co_terminal_chunk_size :: nat
  co_terminal_max_bytes :: u64
  co_max_run_bytes :: u64
  co_channel_capacity :: nat
  co_event_batch_size :: nat
  co_process_poll_interval :: duration
  co_checkpoint_debounce :: duration
  co_checkpoint_min_interval :: duration
  co_checkpoint_max_interval :: duration
  co_maximum_pending_dirty_paths :: nat
  co_snapshot :: scan_options
  co_fallback_terminal_size :: pty_size

definition default_capture_options :: capture_options where
  "default_capture_options =
     \<lparr>co_record_input = PolicyAuto, co_capture_environment = False,
      co_terminal_chunk_size = 64 * 1024,
      co_terminal_max_bytes = 2 * 1024 * 1024 * 1024,
      co_max_run_bytes = 10 * 1024 * 1024 * 1024,
      co_channel_capacity = 64, co_event_batch_size = 32,
      co_process_poll_interval = from_millis 250, co_checkpoint_debounce = from_millis 750,
      co_checkpoint_min_interval = from_secs 2, co_checkpoint_max_interval = from_secs 60,
      co_maximum_pending_dirty_paths = 10000,
      co_snapshot = \<lparr>sco_ignore = [], sco_max_file_size = DEFAULT_MAX_FILE_SIZE\<rparr>,
      co_fallback_terminal_size = \<lparr>ps_rows = 24, ps_columns = 80, ps_pixel_width = 0, ps_pixel_height = 0\<rparr>\<rparr>"

subsection \<open>Errors\<close>

datatype io_source =
  \<comment> \<open>an \<open>io::Error\<close>: of the system, or made from a kind and a text or an error\<close>
    OsError io_error
  | InvalidInputError string
  | InvalidDataError string
  | AlreadyExistsError string
  | WrappedError fs_error

datatype pty_error =
    PtyOpen string
  | PtySpawn string string
  | PtyStream string string
  | PtyChildError string io_source
  | PtyResize string

datatype terminal_error = TerminalIo string io_source

datatype capture_error =
    InvalidCommand
  | InvalidArgument nat
  | InvalidOptions string
  | RecursiveStore "string list" "string list"
  | CaptureIo string "string list" io_source
  | CaptureWorkspace fs_error
  | CapturePty pty_error
  | CaptureTerminal terminal_error
  | TerminalRestoreAfterFailure capture_error terminal_error
  | CaptureStore store_error
  | CaptureSnapshot snapshot_error
  | ProducerError string string
  | WorkerPanicked string
  | ClockOutOfRange
  | TerminalOutputLimit u64
  | RunStorageLimit u64
  | ControlFailed string
  | InvalidProcessId
  | EventSequenceExhausted
  | CaptureInvalidEvent string
  | PrivacyCleanup nat io_source

record displays =
  dp_capture :: "capture_error \<Rightarrow> string"
  dp_io :: "io_source \<Rightarrow> string"
  dp_event :: "event_validation_error \<Rightarrow> string"
  dp_payload :: "event_payload_error \<Rightarrow> string"
  dp_path :: "snapshot_path_error \<Rightarrow> string"
  dp_pty :: "pty_error \<Rightarrow> string"

definition checkpoint_error_is_nonfatal :: "capture_error \<Rightarrow> bool" where
  "checkpoint_error_is_nonfatal e = (case e of
     CaptureSnapshot s \<Rightarrow> (case s of SnapshotStore _ \<Rightarrow> False | _ \<Rightarrow> True) | _ \<Rightarrow> False)"

definition is_store_failure :: "capture_error \<Rightarrow> bool" where
  "is_store_failure e = (case e of
     CaptureStore _ \<Rightarrow> True
   | CaptureSnapshot s \<Rightarrow> (case s of SnapshotStore _ \<Rightarrow> True | _ \<Rightarrow> False)
   | _ \<Rightarrow> False)"

definition ensure_option :: "bool \<Rightarrow> string \<Rightarrow> (capture_error, unit) result" where
  "ensure_option condition text = ensure condition (InvalidOptions text)"

definition validate_options :: "capture_options \<Rightarrow> (capture_error, unit) result" where
  "validate_options o' =
     and_then (ensure_option (\<not> (co_terminal_chunk_size o' = 0 \<or> co_terminal_chunk_size o' > MAX_TERMINAL_CHUNK_BYTES))
       (''terminal_chunk_size must be in 1..='' @ dec_text MAX_TERMINAL_CHUNK_BYTES @ '' bytes'')) (\<lambda>_.
     and_then (ensure_option (co_terminal_max_bytes o' \<noteq> 0) ''terminal_max_bytes must be greater than zero'') (\<lambda>_.
     and_then (ensure_option (co_max_run_bytes o' \<noteq> 0) ''max_run_bytes must be greater than zero'') (\<lambda>_.
     and_then (ensure_option (\<not> (co_channel_capacity o' = 0 \<or> co_channel_capacity o' > MAX_CHANNEL_CAPACITY))
       (''channel_capacity must be in 1..='' @ dec_text MAX_CHANNEL_CAPACITY)) (\<lambda>_.
     and_then (ensure_option (\<not> (co_event_batch_size o' = 0 \<or> co_event_batch_size o' > MAX_EVENT_BATCH_SIZE))
       (''event_batch_size must be in 1..='' @ dec_text MAX_EVENT_BATCH_SIZE)) (\<lambda>_.
     and_then (ensure_option (co_process_poll_interval o' \<noteq> 0) ''process_poll_interval must be greater than zero'') (\<lambda>_.
     and_then (ensure_option (\<not> (co_checkpoint_debounce o' = 0 \<or> co_checkpoint_min_interval o' = 0
         \<or> co_checkpoint_max_interval o' = 0)) ''checkpoint intervals must be greater than zero'') (\<lambda>_.
     and_then (ensure_option (\<not> co_checkpoint_min_interval o' > co_checkpoint_max_interval o')
       ''checkpoint_min_interval must not exceed checkpoint_max_interval'') (\<lambda>_.
     and_then (ensure_option (\<not> co_checkpoint_debounce o' > co_checkpoint_max_interval o')
       ''checkpoint_debounce must not exceed checkpoint_max_interval'') (\<lambda>_.
     and_then (ensure_option (\<not> (co_maximum_pending_dirty_paths o' = 0
         \<or> co_maximum_pending_dirty_paths o' > MAX_PENDING_DIRTY_PATHS))
       (''maximum_pending_dirty_paths must be in 1..='' @ dec_text MAX_PENDING_DIRTY_PATHS)) (\<lambda>_.
     and_then (ensure_option (sco_max_file_size (co_snapshot o') \<noteq> 0)
       ''snapshot max_file_size must be greater than zero'') (\<lambda>_.
       ensure_option (\<not> (ps_rows (co_fallback_terminal_size o') = 0 \<or> ps_columns (co_fallback_terminal_size o') = 0))
         ''fallback terminal rows and columns must be greater than zero'')))))))))))"

definition options_policy :: "capture_options \<Rightarrow> capture_policy" where
  "options_policy o' = \<lparr>record_input = co_record_input o', capture_environment = co_capture_environment o'\<rparr>"

definition options_ok :: "capture_options \<Rightarrow> bool" where
  "options_ok o' \<longleftrightarrow> validate_options o' = Inr ()"

lemma options_ok_batch: "options_ok o' \<Longrightarrow> 0 < co_event_batch_size o' \<and> co_event_batch_size o' \<le> MAX_EVENT_BATCH_SIZE"
  by (auto simp: options_ok_def validate_options_def and_then_Inr_iff ensure_option_def ensure_def split: if_splits)

lemma default_options_ok: "options_ok default_capture_options"
  by (simp add: options_ok_def validate_options_def default_capture_options_def ensure_option_def ensure_def
      MAX_TERMINAL_CHUNK_BYTES_def MAX_CHANNEL_CAPACITY_def MAX_EVENT_BATCH_SIZE_def MAX_PENDING_DIRTY_PATHS_def
      from_millis_def from_secs_def DEFAULT_MAX_FILE_SIZE_def)

subsection \<open>Where the store may lie\<close>

record path_lookup =
  \<comment> \<open>\<open>Path::exists\<close>, \<open>fs::canonicalize\<close> and \<open>env::current_dir\<close>; a path is the list of its
     components, and whether it is absolute\<close>
  pl_exists :: "bool \<times> string list \<Rightarrow> bool"
  pl_canonical :: "bool \<times> string list \<Rightarrow> (io_error, string list) result"
  pl_current :: "(io_error, string list) result"

fun existing_ancestor :: "(string list \<Rightarrow> bool) \<Rightarrow> string list \<Rightarrow> string list \<Rightarrow> (string list \<times> string list) option" where
  \<comment> \<open>the deepest existing ancestor, searched from the end of the reversed path, and the
     components below it; a path that is the root or ends in two dots has no file name\<close>
  "existing_ancestor exists' [] below = (if exists' [] then Some ([], below) else None)"
| "existing_ancestor exists' (c # up) below =
     (if exists' (rev (c # up)) then Some (rev (c # up), below)
      else if c = ''..'' then None
      else existing_ancestor exists' up (below @ [c]))"

fun resolve_suffix :: "string list \<Rightarrow> string list \<Rightarrow> string list" where
  "resolve_suffix resolved [] = resolved"
| "resolve_suffix resolved (c # cs) =
     resolve_suffix (if c = ''.'' then resolved else if c = ''..'' then butlast resolved else resolved @ [c]) cs"

definition resolve_future_path :: "path_lookup \<Rightarrow> bool \<times> string list \<Rightarrow> (capture_error, string list) result" where
  "resolve_future_path l path =
     (if pl_exists l path then map_err (\<lambda>e. CaptureIo ''canonicalize store'' (snd path) (OsError e)) (pl_canonical l path)
      else
        and_then (if fst path then Inr (snd path)
                  else map_ok (\<lambda>here. here @ snd path)
                    (map_err (\<lambda>e. CaptureIo ''resolve current directory for'' (snd path) (OsError e)) (pl_current l))) (\<lambda>absolute.
        and_then (ok_or (CaptureIo ''resolve future store path'' absolute (InvalidInputError ''path has no existing ancestor''))
          (existing_ancestor (\<lambda>p. pl_exists l (True, p)) (rev absolute) [])) (\<lambda>(ancestor, below).
        and_then (map_err (\<lambda>e. CaptureIo ''canonicalize store ancestor'' ancestor (OsError e)) (pl_canonical l (True, ancestor))) (\<lambda>resolved.
          Inr (resolve_suffix resolved (rev below))))))"

definition check_store_outside :: "string list \<Rightarrow> string list \<Rightarrow> (capture_error, unit) result" where
  "check_store_outside store workspace =
     (if store = workspace \<or> prefix workspace store then Inl (RecursiveStore store workspace) else Inr ())"

definition preflight_store_location ::
    "path_lookup \<Rightarrow> bool \<times> string list \<Rightarrow> bool \<times> string list \<Rightarrow> (capture_error, unit) result" where
  "preflight_store_location l store workspace =
     and_then (map_err (\<lambda>e. CaptureIo ''canonicalize source workspace'' (snd workspace) (OsError e)) (pl_canonical l workspace)) (\<lambda>workspace.
     and_then (resolve_future_path l store) (\<lambda>store.
       check_store_outside store workspace))"

subsection \<open>Terminal input\<close>

definition input_redaction :: "input_recording_policy \<Rightarrow> bool option \<Rightarrow> input_redaction_reason option" where
  "input_redaction policy echo_enabled = (case (policy, echo_enabled) of
       (PolicyAlways, _) \<Rightarrow> None
     | (PolicyAuto, Some True) \<Rightarrow> None
     | (PolicyNever, _) \<Rightarrow> Some RedactPolicyNever
     | (PolicyAuto, Some False) \<Rightarrow> Some EchoDisabled
     | (PolicyAuto, None) \<Rightarrow> Some EchoDetectionUnavailable)"

subsection \<open>Diagnostics\<close>

definition is_char_boundary :: "string \<Rightarrow> nat \<Rightarrow> bool" where
  \<comment> \<open>\<open>str::is_char_boundary\<close>\<close>
  "is_char_boundary s i \<longleftrightarrow> i = 0 \<or> i = length s \<or> i < length s \<and> \<not> utf8_tail (byte_of_char (s ! i))"

primrec boundary_below :: "string \<Rightarrow> nat \<Rightarrow> nat" where
  "boundary_below s 0 = 0"
| "boundary_below s (Suc n) = (if is_char_boundary s (Suc n) then Suc n else boundary_below s n)"

definition sanitize_text :: "string \<Rightarrow> string" where
  "sanitize_text message =
     (if message = [] then ''Recorder operation failed without a diagnostic.''
      else if length message \<le> MAX_EVENT_TEXT_BYTES then message
      else take (boundary_below message MAX_EVENT_TEXT_BYTES) message)"

subsection \<open>The child and the platform\<close>

record child_exit =
  cx_code :: u32
  cx_signal :: "string option"
  cx_signal_number :: "int option"

definition domain_exit :: "child_exit \<Rightarrow> process_exit_status" where
  "domain_exit e = (case cx_signal_number e of
       Some signal \<Rightarrow> ExitSignal signal
     | None \<Rightarrow>
         if cx_signal e \<noteq> None then ExitUnknown
         else if uint (cx_code e) < 2 ^ 31 then ExitCode (uint (cx_code e)) else ExitUnknown)"

definition set_environment :: "(string \<times> string) list \<Rightarrow> string \<Rightarrow> string \<Rightarrow> (string \<times> string) list" where
  "set_environment environment key value = filter (\<lambda>(candidate, _). candidate \<noteq> key) environment @ [(key, value)]"

definition current_platform :: "string \<Rightarrow> string \<Rightarrow> (capture_error, platform) result" where
  "current_platform operating_system architecture =
     (if (operating_system, architecture) = (''macos'', ''aarch64'') then Inr MacOsAarch64
      else if (operating_system, architecture) = (''linux'', ''x86_64'') then Inr LinuxX86_64
      else if (operating_system, architecture) = (''linux'', ''aarch64'') then Inr LinuxAarch64
      else Inl (ProducerError ''platform detection''
        (''unsupported host '' @ operating_system @ '' '' @ architecture)))"

definition combine_terminal_restore ::
    "(capture_error, 'a) result \<Rightarrow> (terminal_error, unit) result \<Rightarrow> (capture_error, 'a) result" where
  "combine_terminal_restore result restore = (case restore of
       Inr _ \<Rightarrow> result
     | Inl error \<Rightarrow>
         (case result of Inr _ \<Rightarrow> Inl (CaptureTerminal error)
          | Inl primary \<Rightarrow> Inl (TerminalRestoreAfterFailure primary error)))"

subsection \<open>Clocks and fresh identifiers\<close>

record host =
  ht_calls :: nat
  ht_wall :: "nat \<Rightarrow> int"
  ht_elapsed :: "nat \<Rightarrow> nat"
  ht_ids :: "nat \<Rightarrow> uuid"

definition host_ok :: "host \<Rightarrow> bool" where
  \<comment> \<open>documented: \<open>Uuid::now_v7\<close> gives version 7 identifiers\<close>
  "host_ok h \<longleftrightarrow> (\<forall>n. record_uuid_ok (ht_ids h n))"

definition ask :: "(host \<Rightarrow> nat \<Rightarrow> 'a) \<Rightarrow> (host, 'e, 'a) effect" where
  "ask reading h = (Inr (reading h (ht_calls h)), h\<lparr>ht_calls := Suc (ht_calls h)\<rparr>)"

definition timestamp_now :: "(host, capture_error, timestamp) effect" where
  "timestamp_now = and_do (ask ht_wall) (\<lambda>milliseconds.
     if i64_range milliseconds then give (Timestamp milliseconds) else stop ClockOutOfRange)"

definition same_host :: "host \<Rightarrow> host \<Rightarrow> bool" where
  \<comment> \<open>later in the life of the same host\<close>
  "same_host h h' \<longleftrightarrow> ht_wall h' = ht_wall h \<and> ht_elapsed h' = ht_elapsed h \<and> ht_ids h' = ht_ids h"

lemma same_host_refl [simp]: "same_host h h"
  and same_host_trans: "same_host h h' \<Longrightarrow> same_host h' h'' \<Longrightarrow> same_host h h''"
  and same_host_ok: "same_host h h' \<Longrightarrow> host_ok h' = host_ok h"
  by (auto simp: same_host_def host_ok_def)

lemma after_ask [simp]: "after (ask reading) Q E h \<longleftrightarrow> Q (reading h (ht_calls h)) (h\<lparr>ht_calls := Suc (ht_calls h)\<rparr>)"
  by (simp add: after_def ask_def)

subsection \<open>Facts\<close>

text \<open>Cutting a valid text at a character boundary leaves a valid text.\<close>

lemma utf8_first:
  assumes "utf8_valid (a # rest)"
  shows "\<exists>w r. rest = w @ r \<and> length w \<le> 3 \<and> list_all utf8_tail w \<and> utf8_valid r \<and> (\<forall>r'. utf8_valid r' \<longrightarrow> utf8_valid (a # w @ r'))"
proof -
  let ?P = "\<lambda>w r. rest = w @ r \<and> length w \<le> 3 \<and> list_all utf8_tail w \<and> utf8_valid r
    \<and> (\<forall>r'. utf8_valid r' \<longrightarrow> utf8_valid (a # w @ r'))"
  have "?P [] rest" if "a < 0x80"
    using assms that by (simp only: utf8_valid.simps if_P) simp
  moreover have "\<exists>w r. ?P w r" if "\<not> a < 0x80" "0xC2 \<le> a \<and> a \<le> 0xDF"
  proof -
    note eq = utf8_valid.simps(2) [of a, unfolded if_not_P [OF that(1)] if_P [OF that(2)]]
    obtain b r where "rest = b # r" using assms by (auto simp only: eq split: list.splits)
    then show ?thesis using assms by (intro exI [of _ "[b]"] exI [of _ r]) (simp add: eq del: utf8_valid.simps)
  qed
  moreover have "\<exists>w r. ?P w r" if "\<not> a < 0x80" "\<not> (0xC2 \<le> a \<and> a \<le> 0xDF)" "0xE0 \<le> a \<and> a \<le> 0xEF"
  proof -
    note eq = utf8_valid.simps(2) [of a, unfolded if_not_P [OF that(1)] if_not_P [OF that(2)] if_P [OF that(3)]]
    obtain b c r where "rest = b # c # r" using assms by (auto simp only: eq split: list.splits)
    then show ?thesis using assms by (intro exI [of _ "[b, c]"] exI [of _ r]) (simp add: eq del: utf8_valid.simps)
  qed
  moreover have "\<exists>w r. ?P w r"
    if "\<not> a < 0x80" "\<not> (0xC2 \<le> a \<and> a \<le> 0xDF)" "\<not> (0xE0 \<le> a \<and> a \<le> 0xEF)" "0xF0 \<le> a \<and> a \<le> 0xF4"
  proof -
    note eq = utf8_valid.simps(2) [of a, unfolded if_not_P [OF that(1)] if_not_P [OF that(2)] if_not_P [OF that(3)] if_P [OF that(4)]]
    obtain b c d r where "rest = b # c # d # r" using assms by (auto simp only: eq split: list.splits)
    then show ?thesis using assms by (intro exI [of _ "[b, c, d]"] exI [of _ r]) (simp add: eq del: utf8_valid.simps)
  qed
  moreover have False
    if "\<not> a < 0x80" "\<not> (0xC2 \<le> a \<and> a \<le> 0xDF)" "\<not> (0xE0 \<le> a \<and> a \<le> 0xEF)" "\<not> (0xF0 \<le> a \<and> a \<le> 0xF4)"
    using assms by (simp only: utf8_valid.simps if_not_P [OF that(1)] if_not_P [OF that(2)] if_not_P [OF that(3)] if_not_P [OF that(4)])
  ultimately show ?thesis by blast
qed

lemma utf8_valid_cut:
  assumes "utf8_valid bs" and "i < length bs" and "\<not> utf8_tail (bs ! i)"
  shows "utf8_valid (take i bs)"
  using assms
proof (induction bs arbitrary: i rule: length_induct)
  case (1 bs)
  obtain a rest where bs: "bs = a # rest" using 1(3) by (cases bs) auto
  obtain w r where w: "rest = w @ r" "list_all utf8_tail w" "utf8_valid r"
    and again: "\<And>r'. utf8_valid r' \<Longrightarrow> utf8_valid (a # w @ r')"
    using utf8_first 1(2) bs by blast
  show ?case
  proof (cases i)
    case (Suc j)
    have "\<not> j < length w"
    proof
      assume j: "j < length w"
      then have "utf8_tail (w ! j)" using w(2) by (simp add: list_all_length)
      then show False using 1(4) j by (simp add: bs Suc w(1) nth_append)
    qed
    then obtain k where k: "j = length w + k" using le_Suc_ex not_le by blast
    have "utf8_valid (take k r)" using 1 w(3) by (simp add: bs w(1) Suc k)
    from again [OF this] show ?thesis by (simp add: bs w(1) Suc k del: utf8_valid.simps)
  qed simp
qed

lemma boundary_below_bounds: "boundary_below s n \<le> n"
  by (induction n) auto

lemma boundary_below_boundary: "n \<le> length s \<Longrightarrow> is_char_boundary s (boundary_below s n)"
  by (induction n) (auto simp: is_char_boundary_def)

lemma is_str_cut:
  assumes "is_str s" and "is_char_boundary s i"
  shows "is_str (take i s)"
proof -
  consider "i = 0" | "i = length s" | "i < length s" "\<not> utf8_tail (byte_of_char (s ! i))"
    using assms(2) by (auto simp: is_char_boundary_def)
  then show ?thesis
  proof cases
    case 3
    then have "utf8_valid (take i (as_bytes s))"
      using assms(1) by (intro utf8_valid_cut) (simp_all add: is_str_def as_bytes_def)
    then show ?thesis by (simp add: is_str_def as_bytes_def take_map)
  qed (use assms in \<open>simp_all add: is_str_def as_bytes_def\<close>)
qed

lemma utf8_head: "utf8_valid (b # r) \<Longrightarrow> \<not> utf8_tail b"
  by (auto simp: utf8_tail_def word_le_nat_alt word_less_nat_alt split: if_splits)

lemma boundary_below_ge: "is_char_boundary s i \<Longrightarrow> i \<le> n \<Longrightarrow> i \<le> boundary_below s n"
  by (induction n) (auto simp: le_Suc_eq)

lemma boundary_below_pos:
  assumes "is_str s" and "4 \<le> n" and "n < length s"
  shows "0 < boundary_below s n"
proof -
  obtain a rest where bs: "as_bytes s = a # rest" using assms(3) by (cases s) (auto simp: as_bytes_def)
  obtain w r where w: "rest = w @ r" "length w \<le> 3" "utf8_valid r"
    using utf8_first [of a rest] assms(1) bs by (auto simp: is_str_def simp del: utf8_valid.simps)
  have "length (as_bytes s) = Suc (length w + length r)" by (simp add: bs w(1))
  then have "r \<noteq> []" using assms(2,3) w(2) by (auto simp: as_bytes_def)
  then obtain b r' where r: "r = b # r'" by (cases r) auto
  have "byte_of_char (s ! Suc (length w)) = as_bytes s ! Suc (length w)"
    using w(2) assms(2,3) by (simp add: as_bytes_def)
  also have "\<dots> = b" by (simp add: bs w(1) r)
  finally have "is_char_boundary s (Suc (length w))"
    using utf8_head w r assms(2,3) by (simp add: is_char_boundary_def del: utf8_valid.simps)
  then show ?thesis using boundary_below_ge [of s "Suc (length w)" n] w(2) assms(2) by simp
qed

lemma sanitize_text_ok:
  assumes "is_str s"
  shows "text_ok (sanitize_text s)" and "is_str (sanitize_text s)"
proof -
  have "is_str ''Recorder operation failed without a diagnostic.''" by (simp add: is_str_def as_bytes_def byte_of_char_def)
  then show "is_str (sanitize_text s)"
    using assms boundary_below_boundary [of MAX_EVENT_TEXT_BYTES s] by (simp add: sanitize_text_def is_str_cut)
  show "text_ok (sanitize_text s)"
    using boundary_below_pos [OF assms, of MAX_EVENT_TEXT_BYTES] boundary_below_bounds [of s MAX_EVENT_TEXT_BYTES]
    by (auto simp: sanitize_text_def text_ok_def MAX_EVENT_TEXT_BYTES_def)
qed

end
