(* ===== verification/Recorder.thy ===== *)
theory Recorder
  imports Capture Store_Snapshots
begin

section \<open>The recorder\<close>

text \<open>
  \<open>Recorder\<close> and \<open>Sequencer\<close> of \<open>rewind-capture/src/recorder.rs\<close>: every event of a run gets the
  next sequence number and an offset that never decreases, waits in \<open>rc_pending\<close> until a batch
  is full, and is then appended to the store in one transaction.  A checkpoint is announced,
  scanned, charged to the storage budget of the run and committed together with its event.
  The state is the recorder with the store, the file system and the host it uses; a failing
  operation keeps what it did before.  A \<open>BTreeSet\<close> is a set, a \<open>BTreeMap\<close> the list of its
  bindings in key order.
\<close>

record sequencer =
  sq_run :: run_id
  sq_next :: event_sequence
  sq_last_offset :: monotonic_duration

record 'j recorder =
  rc_store :: "'j store"
  rc_world :: world
  rc_host :: host
  rc_run :: run_id
  rc_stream :: terminal_stream_id
  rc_workspace :: "string list"
  rc_options :: capture_options
  rc_sequencer :: sequencer
  rc_pending :: "event list"
  rc_checkpoint_count :: u64
  rc_excluded :: "snapshot_path set"
  rc_accounted :: "object_id set"
  rc_logical_bytes :: u64

type_synonym ('j, 'a) recording = "('j recorder, capture_error, 'a) effect"

record 'j tools =
  \<comment> \<open>the code that is not part of the repository\<close>
  tl_env :: "'j env"
  tl_lower :: "string \<Rightarrow> string"
  tl_shown :: displays

definition on_host :: "(host, 'e, 'a) effect \<Rightarrow> ('j recorder, 'e, 'a) effect" where
  "on_host m = at_part rc_host (\<lambda>h s. s\<lparr>rc_host := h\<rparr>) m"

definition on_files :: "(world, 'e, 'a) effect \<Rightarrow> ('j recorder, 'e, 'a) effect" where
  "on_files m = at_part rc_world (\<lambda>w s. s\<lparr>rc_world := w\<rparr>) m"

definition on_store :: "('j store \<Rightarrow> (store_error, 'j store) result) \<Rightarrow> ('j, unit) recording" where
  \<comment> \<open>a transaction of the store\<close>
  "on_store f s = (case f (rc_store s) of
       Inl e \<Rightarrow> (Inl (CaptureStore e), s) | Inr st \<Rightarrow> (Inr (), s\<lparr>rc_store := st\<rparr>))"

definition ignoring :: "('s, 'e, 'a) effect \<Rightarrow> ('s, 'f, unit) effect" where
  \<comment> \<open>\<open>let _ = ..\<close>\<close>
  "ignoring m = and_do (outcome m) (\<lambda>_. give ())"

subsection \<open>The sequencer\<close>

definition sequencer_new :: "run_id \<Rightarrow> sequencer" where
  "sequencer_new run = \<lparr>sq_run = run, sq_next = event_sequence_first, sq_last_offset = MonotonicDuration 0\<rparr>"

definition recorder_new ::
    "'j store \<Rightarrow> world \<Rightarrow> host \<Rightarrow> run_id \<Rightarrow> terminal_stream_id \<Rightarrow> string list \<Rightarrow> capture_options \<Rightarrow> 'j recorder" where
  "recorder_new st w h run stream workspace options =
     \<lparr>rc_store = st, rc_world = w, rc_host = h, rc_run = run, rc_stream = stream, rc_workspace = workspace,
      rc_options = options, rc_sequencer = sequencer_new run, rc_pending = [], rc_checkpoint_count = 0,
      rc_excluded = {}, rc_accounted = {}, rc_logical_bytes = 0\<rparr>"

definition sequencer_now :: "('j, timestamp \<times> monotonic_duration) recording" where
  "sequencer_now = and_do (on_host (ask ht_elapsed)) (\<lambda>nanoseconds.
     if nanoseconds < 2 ^ 64 then
       and_do (on_host timestamp_now) (\<lambda>wall. give (wall, MonotonicDuration (of_nat nanoseconds)))
     else stop ClockOutOfRange)"

definition next_at :: "displays \<Rightarrow> timestamp \<Rightarrow> monotonic_duration \<Rightarrow> event_payload \<Rightarrow> ('j, event) recording" where
  "next_at d wall_clock monotonic_offset payload =
     and_do (inspect rc_sequencer) (\<lambda>sq.
       let offset = max monotonic_offset (sq_last_offset sq) in
       and_do (on_host (ask ht_ids)) (\<lambda>fresh.
       and_do (lift (map_err (\<lambda>e. CaptureInvalidEvent (dp_event d e))
         (event_new (EventId fresh) (sq_run sq) (sq_next sq) wall_clock offset payload))) (\<lambda>e.
       and_do (lift (ok_or EventSequenceExhausted (checked_next (sq_next sq)))) (\<lambda>next.
       and_do (change (\<lambda>s. s\<lparr>rc_sequencer := sq\<lparr>sq_next := next, sq_last_offset := offset\<rparr>\<rparr>)) (\<lambda>_.
         give e)))))"

definition sequencer_next :: "displays \<Rightarrow> event_payload \<Rightarrow> ('j, event) recording" where
  "sequencer_next d payload = and_do sequencer_now (\<lambda>(wall, offset). next_at d wall offset payload)"

subsection \<open>Queueing events\<close>

definition flush_events :: "'j tools \<Rightarrow> ('j, unit) recording" where
  "flush_events t = and_do (inspect rc_pending) (\<lambda>pending.
     if pending = [] then give ()
     else and_do (on_store (\<lambda>st. append_event_batch (tl_env t) st pending)) (\<lambda>_.
       change (\<lambda>s. s\<lparr>rc_pending := []\<rparr>)))"

definition queue_event :: "'j tools \<Rightarrow> event_payload \<Rightarrow> ('j, event_sequence) recording" where
  "queue_event t payload = and_do (sequencer_next (tl_shown t) payload) (\<lambda>e.
     and_do (change (\<lambda>s. s\<lparr>rc_pending := rc_pending s @ [e]\<rparr>)) (\<lambda>_. give (ev_sequence e)))"

definition emit :: "'j tools \<Rightarrow> event_payload \<Rightarrow> ('j, event_sequence) recording" where
  "emit t payload = and_do (queue_event t payload) (\<lambda>sequence.
     and_do (inspect (\<lambda>s. co_event_batch_size (rc_options s) \<le> length (rc_pending s))) (\<lambda>full.
     and_do (if full then flush_events t else give ()) (\<lambda>_. give sequence)))"

definition warning :: "'j tools \<Rightarrow> recorder_warning_code \<Rightarrow> string \<Rightarrow> ('j, unit) recording" where
  "warning t code message = and_do
     (emit t (RecorderWarningEvent \<lparr>warning_code = code, warning_message = sanitize_text message\<rparr>)) (\<lambda>_. give ())"

subsection \<open>The storage budget\<close>

fun add_sizes :: "u64 \<Rightarrow> u64 list \<Rightarrow> u64 option" where
  "add_sizes acc [] = Some acc"
| "add_sizes acc (n # ns) = (case checked_add acc n of None \<Rightarrow> None | Some acc \<Rightarrow> add_sizes acc ns)"

definition projected_object_bytes :: "'j recorder \<Rightarrow> (object_id \<times> u64) list \<Rightarrow> (capture_error, u64) result" where
  "projected_object_bytes s candidates =
     (let limit = RunStorageLimit (co_max_run_bytes (rc_options s)) in
      and_then (ok_or limit (add_sizes 0
        (map snd (filter (\<lambda>(i, _). i \<notin> rc_accounted s) candidates)))) (\<lambda>additional.
      and_then (ok_or limit (checked_add (rc_logical_bytes s) additional)) (\<lambda>projected.
        if projected > co_max_run_bytes (rc_options s) then Inl limit else Inr projected)))"

definition account_objects :: "(object_id \<times> u64) list \<Rightarrow> u64 \<Rightarrow> ('j, unit) recording" where
  "account_objects candidates projected = change (\<lambda>s.
     s\<lparr>rc_accounted := rc_accounted s \<union> fst ` set candidates, rc_logical_bytes := projected\<rparr>)"

definition warn_run_storage_limit :: "'j tools \<Rightarrow> ('j, unit) recording" where
  "warn_run_storage_limit t = and_do (inspect (\<lambda>s. co_max_run_bytes (rc_options s))) (\<lambda>maximum.
     warning t WarnStorageLimit (''Run objects reached the configured '' @ dec_text (unat maximum)
       @ ''-byte unique logical storage limit; capture was stopped.''))"

definition within_budget ::
    "'j tools \<Rightarrow> (object_id \<times> u64) list \<Rightarrow> ('j, unit) recording \<Rightarrow> ('j, u64) recording" where
  \<comment> \<open>the projected size, or the warning and what else the caller records before it fails\<close>
  "within_budget t candidates on_limit = and_do (inspect (\<lambda>s. projected_object_bytes s candidates)) (\<lambda>projected.
     case projected of
       Inr projected \<Rightarrow> give projected
     | Inl error \<Rightarrow>
         and_do (warn_run_storage_limit t) (\<lambda>_.
         and_do on_limit (\<lambda>_.
         and_do (flush_events t) (\<lambda>_. stop error))))"

definition emit_object_reference :: "'j tools \<Rightarrow> object_id \<Rightarrow> u64 \<Rightarrow> event_payload \<Rightarrow> ('j, event_sequence) recording" where
  "emit_object_reference t object_id logical_size payload =
     (let candidates = [(object_id, logical_size)] in
      and_do (within_budget t candidates (give ())) (\<lambda>projected.
      and_do (emit t payload) (\<lambda>sequence.
      and_do (account_objects candidates projected) (\<lambda>_.
        give sequence))))"

definition warn_exclusions :: "'j tools \<Rightarrow> nat \<Rightarrow> ('j, unit) recording" where
  "warn_exclusions t excluded =
     (if excluded = 0 then give ()
      else warning t WarnOther (''Snapshot policy excluded '' @ dec_text excluded
        @ '' workspace path(s); replay will show incomplete content and the retained workspace entry will be removed after finalization.''))"

subsection \<open>Checkpoints\<close>

record checkpoint_commit =
  cc_id :: checkpoint_id
  cc_snapshot_id :: snapshot_id
  cc_exclusions :: nat

definition collect_map :: "('k::linorder \<times> 'v) list \<Rightarrow> ('k \<times> 'v) list" where
  \<comment> \<open>\<open>collect::<BTreeMap<_, _>>\<close>: the last binding of a key counts\<close>
  "collect_map bindings = map (\<lambda>k. (k, the (map_of (rev bindings) k))) (sorted_list_of_set (fst ` set bindings))"

definition snapshot_objects :: "snapshot \<Rightarrow> (object_id \<times> u64) list" where
  "snapshot_objects s = collect_map (List.map_filter
     (\<lambda>e. case entry_kind e of File i n _ \<Rightarrow> Some (i, n) | _ \<Rightarrow> None) (manifest_entries (snapshot_content s)))"

definition emit_checkpoint_failed :: "'j tools \<Rightarrow> checkpoint_id \<Rightarrow> recorder_failure_kind \<Rightarrow> string \<Rightarrow> ('j, unit) recording" where
  "emit_checkpoint_failed t checkpoint_id kind message =
     and_do (emit t (CheckpointFailed checkpoint_id \<lparr>failure_kind = kind, failure_message = message\<rparr>)) (\<lambda>_. give ())"

definition commit_scanned ::
    "'j tools \<Rightarrow> checkpoint_id \<Rightarrow> checkpoint_reason \<Rightarrow> string option \<Rightarrow> scan_report \<Rightarrow> ('j, checkpoint_commit) recording" where
  "commit_scanned t checkpoint_id reason label report =
     (let objects = snapshot_objects (srp_snapshot report); snapshot = srp_snapshot report in
      and_do (change (\<lambda>s. s\<lparr>rc_excluded := rc_excluded s \<union> ex_path ` set (srp_exclusions report)\<rparr>)) (\<lambda>_.
      and_do (within_budget t objects (emit_checkpoint_failed t checkpoint_id FailResourceLimit
        ''Run storage limit prevented this checkpoint from committing.'')) (\<lambda>projected.
      and_do (sequencer_next (tl_shown t) (CheckpointCommitted checkpoint_id (snapshot_identity snapshot))) (\<lambda>committed.
      and_do (inspect rc_run) (\<lambda>run.
      and_do (on_store (\<lambda>st. commit_checkpoint_with_event (tl_env t) st
        \<lparr>ck_id = checkpoint_id, ck_run = run, ck_sequence = ev_sequence committed, ck_label = label, ck_reason = reason,
         ck_snapshot = snapshot_identity snapshot, ck_created_at = ev_wall_clock committed,
         ck_offset = ev_offset committed\<rparr> snapshot committed)) (\<lambda>_.
      and_do (account_objects objects projected) (\<lambda>_.
      and_do (inspect rc_checkpoint_count) (\<lambda>before.
      and_do (lift (ok_or ClockOutOfRange (checked_add before 1))) (\<lambda>counted.
      and_do (change (\<lambda>s. s\<lparr>rc_checkpoint_count := counted\<rparr>)) (\<lambda>_.
        give \<lparr>cc_id = checkpoint_id, cc_snapshot_id = snapshot_identity snapshot,
              cc_exclusions = length (srp_exclusions report)\<rparr>))))))))))"

definition scan_now :: "'j tools \<Rightarrow> timestamp \<Rightarrow> ('j recorder, snapshot_error, scan_report) effect" where
  "scan_now t created s = at_part
     (\<lambda>s. \<lparr>sc_world = rc_world s, sc_store = rc_store s, sc_entries = [], sc_exclusions = []\<rparr>)
     (\<lambda>z s. s\<lparr>rc_world := sc_world z, rc_store := sc_store z\<rparr>)
     (scan_workspace (tl_env t) (tl_lower t) (rc_workspace s) (co_snapshot (rc_options s)) (as_unix_milliseconds created)) s"

definition checkpoint_allocated ::
    "'j tools \<Rightarrow> checkpoint_id \<Rightarrow> checkpoint_reason \<Rightarrow> string option \<Rightarrow> ('j, checkpoint_commit) recording" where
  "checkpoint_allocated t checkpoint_id reason label =
     and_do (emit t (CheckpointStarted checkpoint_id reason)) (\<lambda>_.
     and_do (flush_events t) (\<lambda>_.
     and_do (on_host timestamp_now) (\<lambda>created.
     and_do (outcome (scan_now t created)) (\<lambda>report. case report of
         Inr report \<Rightarrow> commit_scanned t checkpoint_id reason label report
       | Inl error \<Rightarrow>
           and_do (emit_checkpoint_failed t checkpoint_id FailSnapshot
             ''Authoritative workspace scan failed; no checkpoint was committed.'') (\<lambda>_.
           and_do (flush_events t) (\<lambda>_. stop (CaptureSnapshot error)))))))"

definition take_checkpoint :: "'j tools \<Rightarrow> checkpoint_reason \<Rightarrow> string option \<Rightarrow> ('j, checkpoint_commit) recording" where
  "take_checkpoint t reason label = and_do (on_host (ask ht_ids)) (\<lambda>fresh.
     checkpoint_allocated t (CheckpointId fresh) reason label)"

definition manual_checkpoint :: "'j tools \<Rightarrow> string option \<Rightarrow> ('j, checkpoint_id) recording" where
  "manual_checkpoint t label = (case label of
       Some label \<Rightarrow>
         and_do (on_host (ask ht_ids)) (\<lambda>fresh.
         and_do (emit t (MarkerCreated (CheckpointId fresh) label)) (\<lambda>_.
         and_do (checkpoint_allocated t (CheckpointId fresh) ReasonManual (Some label)) (\<lambda>commit.
           give (cc_id commit))))
     | None \<Rightarrow> and_do (take_checkpoint t ReasonManual None) (\<lambda>commit. give (cc_id commit)))"

subsection \<open>Removing what must not be retained\<close>

fun remove_tree :: "node \<Rightarrow> descriptor \<Rightarrow> string \<Rightarrow> (world, io_error, unit) effect" where
  \<comment> \<open>the recursion of \<open>fs::remove_dir_all\<close>: a directory is opened without following links, its
     entries are read one by one and removed, then the directory itself\<close>
  "remove_tree (DirNode _ cs) parent name =
     and_do (open_directory_at parent name) (\<lambda>fd.
     and_do (open_stream fd) (\<lambda>_.
     and_do (each (\<lambda>c. and_do (next_name [fst c]) (\<lambda>_. remove_tree (snd c) fd (fst c))) cs) (\<lambda>_.
     and_do (next_name []) (\<lambda>_.
       unlink_at parent name True))))"
| "remove_tree _ parent name = unlink_at parent name False"

definition remove_dir_all :: "string list \<Rightarrow> (world, io_error, unit) effect" where
  "remove_dir_all path = and_do (inspect (\<lambda>w. at (w_tree w) path)) (\<lambda>n. case n of
       Some n \<Rightarrow> remove_tree n (butlast path) (last path) | None \<Rightarrow> stop ENOENT)"

definition remove_path_no_follow :: "string list \<Rightarrow> (world, io_error, unit) effect" where
  "remove_path_no_follow path = and_do (outcome (symlink_metadata path)) (\<lambda>metadata. case metadata of
       Inr s \<Rightarrow> if st_kind s = KindDirectory then remove_dir_all path
                 else unlink_at (butlast path) (last path) False
     | Inl error \<Rightarrow> if error = ENOENT then give () else stop error)"

definition record_cleanup_failure :: "'j tools \<Rightarrow> nat \<Rightarrow> io_source \<Rightarrow> ('j recorder, 'e, unit) effect" where
  "record_cleanup_failure t failed source = ignoring (warning t WarnPrivacyCleanupFailed
     (''Could not remove '' @ dec_text failed @ '' excluded path(s) from the retained run workspace: ''
      @ dp_io (tl_shown t) source @ ''. Inspect or remove that workspace before sharing it.''))"

definition remove_excluded ::
    "directory_root \<Rightarrow> snapshot_path \<Rightarrow> nat \<times> io_source option \<Rightarrow> ('j recorder, capture_error, nat \<times> io_source option) effect" where
  "remove_excluded root path counts = and_do (outcome (on_files (remove_relative_entry root path))) (\<lambda>removed.
     case removed of
       Inr _ \<Rightarrow> and_do (change (\<lambda>s. s\<lparr>rc_excluded := rc_excluded s - {path}\<rparr>)) (\<lambda>_. give counts)
     | Inl error \<Rightarrow> give (fst counts + 1, Some (case snd counts of None \<Rightarrow> WrappedError error | Some first \<Rightarrow> first)))"

definition cleanup_exclusions_for_retention :: "'j tools \<Rightarrow> ('j, unit) recording" where
  "cleanup_exclusions_for_retention t = and_do (inspect (\<lambda>s. rev (sorted_list_of_set (rc_excluded s)))) (\<lambda>paths.
     if paths = [] then give ()
     else and_do (inspect rc_workspace) (\<lambda>workspace.
       and_do (outcome (on_files (directory_root_open workspace))) (\<lambda>opened. case opened of
           Inl error \<Rightarrow>
             and_do (record_cleanup_failure t (length paths) (WrappedError error)) (\<lambda>_.
               stop (PrivacyCleanup (length paths) (WrappedError error)))
         | Inr root \<Rightarrow>
             and_do (fold_do (remove_excluded root) paths (0, None)) (\<lambda>(failed, first_error).
               case first_error of
                 None \<Rightarrow> give ()
               | Some source \<Rightarrow> and_do (record_cleanup_failure t failed source) (\<lambda>_.
                   stop (PrivacyCleanup failed source))))))"

subsection \<open>The end of a run\<close>

definition commit_finish :: "'j tools \<Rightarrow> run_finish \<Rightarrow> ('j, unit) recording" where
  "commit_finish t summary = and_do (inspect (\<lambda>s. (rc_run s, rc_pending s))) (\<lambda>(run, pending).
     and_do (on_store (\<lambda>st. finish_run_with_events (tl_env t) st run summary pending)) (\<lambda>_.
       change (\<lambda>s. s\<lparr>rc_pending := []\<rparr>)))"

definition finish_recording :: "'j tools \<Rightarrow> run_status \<Rightarrow> process_exit_status \<Rightarrow> snapshot_id option \<Rightarrow> ('j, unit) recording" where
  "finish_recording t status exit_status final_snapshot =
     and_do (queue_event t (RunCompleted status (Some exit_status))) (\<lambda>_.
     and_do sequencer_now (\<lambda>(finished_at, duration).
       commit_finish t \<lparr>rf_status = status, rf_finished_at = finished_at, rf_monotonic_duration = duration,
         rf_final_snapshot = final_snapshot, rf_exit_status = Some exit_status\<rparr>))"

definition finish_failed :: "'j tools \<Rightarrow> snapshot_id option \<Rightarrow> ('j recorder, 'e, unit) effect" where
  \<comment> \<open>the common end of the two operations below\<close>
  "finish_failed t final_snapshot =
     and_do (ignoring (queue_event t (RunCompleted Failed None))) (\<lambda>_.
     and_do (outcome sequencer_now) (\<lambda>time. case time of
         Inr (finished_at, duration) \<Rightarrow>
           ignoring (commit_finish t \<lparr>rf_status = Failed, rf_finished_at = finished_at, rf_monotonic_duration = duration,
             rf_final_snapshot = final_snapshot, rf_exit_status = None\<rparr>)
       | Inl _ \<Rightarrow> give ()))"

definition finish_preparation_failure :: "'j tools \<Rightarrow> string \<Rightarrow> ('j recorder, 'e, unit) effect" where
  "finish_preparation_failure t message =
     and_do (ignoring (warning t WarnOther (sanitize_text message))) (\<lambda>_.
     and_do (inspect rc_workspace) (\<lambda>workspace.
     and_do (outcome (on_files (remove_path_no_follow workspace))) (\<lambda>removed.
     and_do (case removed of Inr _ \<Rightarrow> give () | Inl error \<Rightarrow> record_cleanup_failure t 1 (OsError error)) (\<lambda>_.
       finish_failed t None))))"

definition finish_running_without_child :: "'j tools \<Rightarrow> snapshot_id \<Rightarrow> string \<Rightarrow> ('j recorder, 'e, unit) effect" where
  "finish_running_without_child t initial_snapshot message =
     and_do (ignoring (warning t WarnOther (sanitize_text message))) (\<lambda>_.
     and_do (outcome (take_checkpoint t ReasonFinal None)) (\<lambda>final.
     and_do (case final of
         Inr commit \<Rightarrow> and_do (ignoring (warn_exclusions t (cc_exclusions commit))) (\<lambda>_. give (cc_snapshot_id commit))
       | Inl _ \<Rightarrow> give initial_snapshot) (\<lambda>final_snapshot.
     and_do (ignoring (cleanup_exclusions_for_retention t)) (\<lambda>_.
       finish_failed t (Some final_snapshot)))))"

end
