(* ===== verification/Scan_Stores.thy ===== *)
theory Scan_Stores
  imports Scan_Spec Store_Theorems
begin

section \<open>What a scan does to the store\<close>

text \<open>
  Whatever the file system and the device do, a scan changes the store only by storing objects,
  and the entries it collects are well typed and refer to indexed objects of the size they name.
  Hence a scan is a sequence of steps of the store's state machine, and the snapshot of a report
  may be committed.
\<close>

definition object_size :: "'j store \<Rightarrow> object_id \<Rightarrow> int option" where
  "object_size st i = map_option ob_logical_size (select_row ob_id (object_id_text i) (tb_objects (st_db st)))"

definition sizes_kept :: "'j store \<Rightarrow> 'j store \<Rightarrow> bool" where
  "sizes_kept st st' \<longleftrightarrow> (\<forall>i n. object_size st i = Some n \<longrightarrow> object_size st' i = Some n)"

lemma sizes_kept_refl [simp]: "sizes_kept st st"
  and sizes_kept_trans: "sizes_kept st st' \<Longrightarrow> sizes_kept st' st'' \<Longrightarrow> sizes_kept st st''"
  and sizes_kept_objects: "tb_objects (st_db st') = tb_objects (st_db st) \<Longrightarrow> sizes_kept st st'"
  by (simp_all add: sizes_kept_def object_size_def)

inductive store_put :: "'j env \<Rightarrow> 'j store \<Rightarrow> 'j store \<Rightarrow> bool" for env where
  "put_object env st bs created = (st', r) \<Longrightarrow> store_put env st st'"

lemma record_object_sizes:
  assumes "record_object db so created = Inr db'"
  shows "sizes_kept (st\<lparr>st_db := db\<rparr>) (st'\<lparr>st_db := db'\<rparr>)"
  using record_object_Inr [OF assms]
  by (auto simp: sizes_kept_def object_size_def select_row_append split: option.splits if_splits)

lemma record_object_size:
  "record_object db so created = Inr db' \<Longrightarrow> object_size (st\<lparr>st_db := db'\<rparr>) (so_id so) = Some (uint (so_logical_size so))"
  using record_object_Inr [of db so created db'] by (auto simp: object_size_def)

lemma put_object_cases:
  assumes "put_object env st bs created = (st', r)"
  obtains "st_db st' = st_db st" "\<forall>so. r \<noteq> Inr so"
  | so where "record_object (st_db st) so created = Inr (st_db st')" "r = Inr so"
  using assms
  by (auto simp: put_object_def require_writer_def ensure_def finish_put_def split: if_splits sum.splits prod.splits)

lemma put_object_sizes:
  assumes "put_object env st bs created = (st', r)"
  shows "sizes_kept st st'" and "r = Inr so \<Longrightarrow> object_size st' (so_id so) = Some (uint (so_logical_size so))"
  by (rule put_object_cases [OF assms];
      use record_object_sizes [of "st_db st" _ created "st_db st'" st st'] in \<open>simp add: sizes_kept_objects\<close>)
    (rule put_object_cases [OF assms];
      use record_object_size [of "st_db st" _ created "st_db st'" st'] in simp)

lemma store_put_sizes: "store_put env st st' \<Longrightarrow> sizes_kept st st'"
  by (auto elim!: store_put.cases dest: put_object_sizes(1))

lemma store_put_step: "store_put env st st' \<Longrightarrow> store_step env js st st'"
  by (auto elim!: store_put.cases intro: store_step.put)

definition puts :: "'j env \<Rightarrow> 'j store \<Rightarrow> 'j store \<Rightarrow> bool" where
  "puts env = (store_put env)\<^sup>*\<^sup>*"

lemma puts_sizes: "puts env st st' \<Longrightarrow> sizes_kept st st'"
  unfolding puts_def by (induction rule: rtranclp_induct) (auto intro: sizes_kept_trans store_put_sizes)

lemma puts_steps: "puts env st st' \<Longrightarrow> (store_step env js)\<^sup>*\<^sup>* st st'"
  unfolding puts_def by (rule rtranclp_mono [THEN predicate2D, rotated]) (auto intro: store_put_step)

definition entry_indexed :: "'j store \<Rightarrow> snapshot_entry \<Rightarrow> bool" where
  "entry_indexed st e \<longleftrightarrow> (\<forall>i n x. entry_kind e = File i n x \<longrightarrow> object_size st i = Some (uint n))"

lemma after_seq:
  assumes "after m R E s" and "\<And>x s'. R x s' \<Longrightarrow> after (f x) Q E s'"
  shows "after (and_do m f) Q E s"
  unfolding after_and_do by (rule after_mono [OF assms(1)]) (use assms(2) in blast)+

lemma after_always: "(\<And>x t. Q x t) \<Longrightarrow> (\<And>e t. E e t) \<Longrightarrow> after m Q E s"
  by (simp add: after_def split: prod.splits sum.splits)

definition scan_inv :: "'j env \<Rightarrow> 'j store \<Rightarrow> 'j scanner \<Rightarrow> bool" where
  "scan_inv env st0 z \<longleftrightarrow> puts env st0 (sc_store z) \<and> list_all entry_typed (sc_entries z)
     \<and> list_all (entry_indexed (sc_store z)) (sc_entries z)"

lemma entry_indexed_kept: "entry_indexed st e \<Longrightarrow> sizes_kept st st' \<Longrightarrow> entry_indexed st' e"
  by (auto simp: entry_indexed_def sizes_kept_def)

lemma scan_inv_put:
  assumes z: "scan_inv env st0 z" and put: "put_object env (sc_store z) bs created = (st', r)"
  shows "scan_inv env st0 (z\<lparr>sc_store := st'\<rparr>)"
proof -
  have "puts env st0 st'"
    using z store_put.intros [OF put] unfolding scan_inv_def puts_def by (meson rtranclp.rtrancl_into_rtrancl)
  moreover have "list_all (entry_indexed st') (sc_entries z)"
    using z put_object_sizes(1) [OF put] entry_indexed_kept by (fastforce simp: scan_inv_def list_all_iff)
  ultimately show ?thesis using z by (simp add: scan_inv_def)
qed

lemma scan_inv_files: "scan_inv env st0 z \<Longrightarrow> after (scan_files m) (\<lambda>_. scan_inv env st0) (\<lambda>_. scan_inv env st0) z"
  unfolding after_scan_files by (intro after_always) (simp_all add: scan_inv_def)

lemma scan_inv_store:
  assumes h: "hash_ok (env_hash env)" and z: "scan_inv env st0 z"
  shows "after (store_object env bs created)
    (\<lambda>so z'. scan_inv env st0 z' \<and> object_id_ok (so_id so) \<and> object_size (sc_store z') (so_id so) = Some (uint (so_logical_size so)))
    (\<lambda>_. scan_inv env st0) z"
proof -
  obtain st' r where put: "put_object env (sc_store z) bs created = (st', r)" by force
  have "object_id_ok (so_id so)" if "r = Inr so" for so
    using put_object_Inr [of env "sc_store z" bs created st' so] put that h
    by (simp add: object_id_ok_def hash_ok_def stored_metadata_def)
  then show ?thesis
    using put scan_inv_put [OF z put] put_object_sizes(2) [OF put]
    by (cases r) (simp_all add: store_object_def after_def with_err_def at_part_def)
qed

lemma scan_inv_push:
  "scan_inv env st0 z \<Longrightarrow> entry_typed e \<Longrightarrow> entry_indexed (sc_store z) e \<Longrightarrow>
     after (push_entry e) (\<lambda>_. scan_inv env st0) (\<lambda>_. scan_inv env st0) z"
  by (simp add: push_entry_def scan_inv_def)

lemma scan_inv_exclude: "scan_inv env st0 z \<Longrightarrow> after (push_exclusion x) (\<lambda>_. scan_inv env st0) (\<lambda>_. scan_inv env st0) z"
  by (simp add: push_exclusion_def scan_inv_def)

lemma scan_permissions_ok: "permissions_ok (scan_permissions mode)"
  unfolding permissions_ok_def scan_permissions_def PERMISSIONS_MASK_def unix_permissions.sel
  by (rule bit_word_eqI) (auto simp: bit_simps)

lemma scan_inv_file:
  assumes h: "hash_ok (env_hash env)" and z: "scan_inv env st0 z" and p: "path_ok p"
  shows "after (scan_file env options created d child p) (\<lambda>_. scan_inv env st0) (\<lambda>_. scan_inv env st0) z"
  unfolding scan_file_def
proof (rule after_seq [where R = "\<lambda>_. scan_inv env st0"], goal_cases)
  case 1
  have "scan_inv env st0 (z\<lparr>sc_world := w\<rparr>)" for w using z by (simp add: scan_inv_def)
  then show ?case unfolding after_outcome after_at_part by (intro after_always)
next
  case (2 r z1)
  show ?case
  proof (cases r)
    case (Inl e)
    then show ?thesis using 2 scan_inv_exclude [OF 2] by (simp split: fs_error.splits)
  next
    case (Inr read)
    show ?thesis
      unfolding Inr sum.case
      by (rule after_seq [OF scan_inv_store [OF h 2]])
        (rule scan_inv_push, use p in \<open>simp_all add: entry_typed_def entry_indexed_def scan_permissions_ok\<close>)
  qed
qed

lemma scan_inv_symlink:
  assumes "scan_inv env st0 z" and p: "path_ok p"
  shows "after (scan_symlink root d child p) (\<lambda>_. scan_inv env st0) (\<lambda>_. scan_inv env st0) z"
  unfolding scan_symlink_def
proof (rule after_seq [OF scan_inv_files [OF assms(1)]], goal_cases)
  case (1 target z1)
  have "after (push_entry \<lparr>entry_path = p, entry_kind = Symlink target',
      entry_permissions = scan_permissions (st_mode (de_stat child))\<rparr>) (\<lambda>_. scan_inv env st0) (\<lambda>_. scan_inv env st0) z1" for target'
    by (rule scan_inv_push [OF 1]) (use p in \<open>simp_all add: entry_typed_def entry_indexed_def scan_permissions_ok\<close>)
  then show ?case using 1 by (simp add: after_lift split: sum.splits)
qed

lemma child_path_ok: "child_path root relative child = Inr p \<Longrightarrow> path_ok p"
  by (auto simp: child_path_def validate_relative_path_def and_then_Inr_iff map_err_Inr_iff snapshot_path_from_str_Inr_iff)

lemma scan_inv_directory:
  assumes h: "hash_ok (env_hash env)"
  shows "scan_inv env st0 z \<Longrightarrow>
      after (scan_directory env options created root d relative) (\<lambda>_. scan_inv env st0) (\<lambda>_. scan_inv env st0) z"
    and "scan_inv env st0 z \<Longrightarrow> path_ok p \<Longrightarrow>
      after (Scan.scan_entry env options created root d child p) (\<lambda>_. scan_inv env st0) (\<lambda>_. scan_inv env st0) z"
  using h
proof (induction env options created root d relative and env options created root d child p
    arbitrary: z and z rule: scan_directory_scan_entry.induct)
  case (1 env options created root d relative)
  note h = \<open>hash_ok (env_hash env)\<close>
  have files: "after (scan_files (entries d)) (\<lambda>_. scan_inv env st0) (\<lambda>_. scan_inv env st0) z"
    by (rule scan_inv_files [OF "1.prems"(1)])
  have start: "after (scan_files (entries d)) (\<lambda>children z1. scan_inv env st0 z1 \<and> scan_files (entries d) z = (Inr children, z1))
      (\<lambda>_. scan_inv env st0) z"
    by (rule after_okI) (simp_all add: after_ok [OF files] after_err [OF files])
  show ?case
    unfolding scan_directory.simps [of env options created root d relative]
  proof (rule after_seq [OF start], rule after_seq [where R = "\<lambda>_. scan_inv env st0"], rule after_each_keeps, elim conjE, assumption, goal_cases)
    case (1 children z1 child z2)
    show ?case
    proof (cases "child_path root relative child")
      case (Inl e)
      then show ?thesis using 1(3) by (simp add: after_lift)
    next
      case (Inr path)
      have "after (Scan.scan_entry env options created root d child path) (\<lambda>_. scan_inv env st0) (\<lambda>_. scan_inv env st0) z2"
        if "ignoring_pattern options path = None"
        by (rule "1.IH" [of z children z1 child z2 path z2])
          (use 1 Inr that h child_path_ok [OF Inr] in \<open>simp_all add: lift_def\<close>)
      then show ?thesis
        using scan_inv_exclude [OF 1(3)] Inr by (simp add: after_lift split: option.split)
    qed
  next
    case (2 children z1 u z2)
    then show ?case by (intro scan_inv_files)
  qed
next
  case (2 env options created root d child p)
  note h = \<open>hash_ok (env_hash env)\<close> and z = \<open>scan_inv env st0 z\<close> and p = \<open>path_ok p\<close>
  have directory: "after (and_do (scan_files (open_directory d child)) (\<lambda>child'.
          and_do (push_entry \<lparr>entry_path = p, entry_kind = Directory,
            entry_permissions = scan_permissions (st_mode (pd_before child'))\<rparr>) (\<lambda>_.
          and_do (scan_directory env options created root child' p) (\<lambda>_.
            scan_files (verify_entry d child))))) (\<lambda>_. scan_inv env st0) (\<lambda>_. scan_inv env st0) z"
    if k: "st_kind (de_stat child) = KindDirectory"
  proof (rule after_seq [where R = "\<lambda>child' z1. scan_inv env st0 z1 \<and> scan_files (open_directory d child) z = (Inr child', z1)"],
      goal_cases)
    case 1
    have files: "after (scan_files (open_directory d child)) (\<lambda>_. scan_inv env st0) (\<lambda>_. scan_inv env st0) z"
      by (rule scan_inv_files [OF z])
    show ?case by (rule after_okI) (simp_all add: after_ok [OF files] after_err [OF files])
  next
    case (2 child' z1)
    let ?push = "push_entry \<lparr>entry_path = p, entry_kind = Directory,
        entry_permissions = scan_permissions (st_mode (pd_before child'))\<rparr> :: ('a, unit) scanning"
    have push: "?push z1 = (Inr (), snd (?push z1))" by (simp add: push_entry_def change_def)
    show ?case
    proof (rule after_seq [where R = "\<lambda>_. scan_inv env st0"], goal_cases)
      case 1
      show ?case using 2 p by (intro scan_inv_push) (simp_all add: entry_typed_def entry_indexed_def scan_permissions_ok)
    next
      case (2 u z2)
      have "after (scan_directory env options created root child' p) (\<lambda>_. scan_inv env st0) (\<lambda>_. scan_inv env st0) z2"
        by (rule "2.IH" [OF k _ push 2 h]) (use \<open>scan_inv env st0 z1 \<and> _\<close> in blast)
      then show ?case by (rule after_seq) (rule scan_inv_files)
    qed
  qed
  show ?case
    unfolding scan_entry.simps [of env options created root d child p]
    using directory scan_inv_file [OF h z p] scan_inv_symlink [OF z p] z by (simp split: file_kind.split)
qed

lemma report_typed:
  assumes m: "manifest_new es = Inr m" and es: "list_all entry_typed es" "list_all (entry_indexed st) es" and h: "hash_ok hash"
  shows "snapshot_typed \<lparr>snapshot_identity = snapshot_id_digest hash canonical, snapshot_content = m\<rparr>"
    and "list_all (entry_indexed st) (manifest_entries m)"
proof -
  have "set (manifest_entries m) = set es" using m by (auto simp: manifest_new_Inr_iff)
  then show "list_all (entry_indexed st) (manifest_entries m)"
    and "snapshot_typed \<lparr>snapshot_identity = snapshot_id_digest hash canonical, snapshot_content = m\<rparr>"
    using es h manifest_new_ok [OF m]
    by (simp_all add: snapshot_typed_def list_all_iff snapshot_id_ok_def snapshot_id_digest_def hash_ok_def)
qed

lemma scan_workspace_store:
  assumes h: "hash_ok (env_hash env)"
  shows "after (scan_workspace env lower root options created)
    (\<lambda>report z'. puts env (sc_store z) (sc_store z') \<and> snapshot_typed (srp_snapshot report)
       \<and> list_all (entry_indexed (sc_store z')) (manifest_entries (snapshot_content (srp_snapshot report))))
    (\<lambda>_ z'. puts env (sc_store z) (sc_store z')) z"
proof -
  let ?E = "\<lambda>_ z'. puts env (sc_store z) (sc_store z')" and ?same = "\<lambda>_ z'. sc_store z' = sc_store z"
  have start: "puts env (sc_store z) (sc_store z)" by (simp add: puts_def)
  have files: "after (scan_files m) ?same ?E z'" if "sc_store z' = sc_store z" for m :: "'b fs" and z'
    unfolding after_scan_files by (intro after_always) (use that start in simp_all)
  have first: "after (with_err g (at_part sc_world (\<lambda>w s. s\<lparr>sc_world := w\<rparr>) m)) ?same ?E z" for g :: "io_error \<Rightarrow> snapshot_error" and m :: "(world, io_error, stat) effect"
    unfolding after_with_err after_at_part by (intro after_always) (use start in simp_all)
  have fresh: "scan_inv env (sc_store z) (z'\<lparr>sc_entries := [], sc_exclusions := []\<rparr>)" if "sc_store z' = sc_store z" for z'
    using that start by (simp add: scan_inv_def)
  show ?thesis
    unfolding scan_workspace_def
  proof (rule after_seq [OF first], goal_cases)
    case (1 s z1)
    show ?case
    proof (cases "st_kind s \<noteq> KindDirectory")
      case True
      then show ?thesis using 1 start by simp
    next
      case False
      show ?thesis
        unfolding if_not_P [OF False]
      proof (rule after_seq [OF files [OF 1]], rule after_seq [OF files], assumption,
          rule after_seq [where R = "\<lambda>_. scan_inv env (sc_store z)"], goal_cases)
        case (1 r z2 p z3)
        then show ?case using fresh by simp
      next
        case (2 r z2 p z3 u z4)
        show ?case
          by (rule after_seq [OF scan_inv_directory(1) [OF h 2(3), THEN after_mono]])
            (auto simp: scan_inv_def after_lift report_typed [OF _ _ _ h] split: sum.split)
      qed
    qed
  qed
qed

end
