(* ===== verification/Recorder_Spec.thy ===== *)
theory Recorder_Spec
  imports Recorder Scan_Stores
begin

section \<open>What every recorder operation keeps\<close>

text \<open>
  \<open>recorder_ok\<close> is the invariant of a recorder: its store is reachable, so all invariants of the
  store hold; the events it still holds back are valid events of its run; the bytes it has
  charged to the run are the sizes of the charged objects and within the limit.  \<open>history\<close> is the
  recorded timeline followed by the events held back; \<open>in_step\<close> says that it is numbered without a
  gap up to the next number.  \<open>later\<close> orders the states of a recorder: the store made steps, and
  the history only grew.  \<open>preserves I F m\<close> says that an effect keeps an invariant, unless it fails
  with an error in \<open>F\<close>; its rules follow the structure of the operations.
\<close>

definition preserves :: "('s \<Rightarrow> bool) \<Rightarrow> ('e \<Rightarrow> bool) \<Rightarrow> ('s, 'e, 'a) effect \<Rightarrow> bool" where
  "preserves I F m \<longleftrightarrow> (\<forall>s. I s \<longrightarrow> after m (\<lambda>_. I) (\<lambda>e s'. F e \<or> I s') s)"

named_theorems keeping

lemma preservesI: "(\<And>s. I s \<Longrightarrow> after m (\<lambda>_. I) (\<lambda>e s'. F e \<or> I s') s) \<Longrightarrow> preserves I F m"
  by (simp add: preserves_def)

lemma preservesD: "preserves I F m \<Longrightarrow> I s \<Longrightarrow> after m (\<lambda>_. I) (\<lambda>e s'. F e \<or> I s') s"
  by (simp add: preserves_def)

lemma preserves_state:
  fixes m :: "('s, 'e, 'a) effect"
  shows "preserves I (\<lambda>_. False) m \<Longrightarrow> I s \<Longrightarrow> I (snd (m s))"
  using preservesD [of I "\<lambda>_. False" m s] by (simp add: after_def split: prod.splits sum.splits)

lemma preserves_weaken: "preserves I F m \<Longrightarrow> (\<And>e. F e \<Longrightarrow> G e) \<Longrightarrow> preserves I G m"
  unfolding preserves_def by (auto elim!: after_mono)

lemma preserves_simple [keeping]: "preserves I F (give x)" "preserves I F (stop e)" "preserves I F (inspect g)"
    "preserves I F (lift r)"
  by (simp_all add: preserves_def after_lift split: sum.splits)

lemma preserves_and_do [keeping]:
  assumes m: "preserves I F m" and f: "\<And>x. preserves I F (f x)"
  shows "preserves I F (and_do m f)"
proof (rule preservesI)
  fix s assume "I s"
  from preservesD [OF m this] show "after (and_do m f) (\<lambda>_. I) (\<lambda>e s'. F e \<or> I s') s"
    unfolding after_and_do by (rule after_mono) (use preservesD [OF f] in blast)+
qed

lemma preserves_outcome [keeping]: "preserves I (\<lambda>_. False) m \<Longrightarrow> preserves I F (outcome m)"
  by (simp add: preserves_def)

lemma preserves_ignoring [keeping]: "preserves I (\<lambda>_. False) m \<Longrightarrow> preserves I F (ignoring m)"
  unfolding ignoring_def by (intro keeping)

lemma preserves_cases [keeping]:
  shows "(b \<Longrightarrow> preserves I F m) \<Longrightarrow> (\<not> b \<Longrightarrow> preserves I F n) \<Longrightarrow> preserves I F (if b then m else n)"
    and "(\<And>e. preserves I F (h e)) \<Longrightarrow> (\<And>x. preserves I F (g x)) \<Longrightarrow> preserves I F (case r of Inl e \<Rightarrow> h e | Inr x \<Rightarrow> g x)"
    and "preserves I F m \<Longrightarrow> (\<And>y. preserves I F (k y)) \<Longrightarrow> preserves I F (case q of None \<Rightarrow> m | Some y \<Rightarrow> k y)"
    and "(\<And>y z. preserves I F (l y z)) \<Longrightarrow> preserves I F (case p of (y, z) \<Rightarrow> l y z)"
  by (simp_all split: sum.split option.split prod.split)

lemma preserves_fold_do [keeping]: "(\<And>x r. preserves I F (f x r)) \<Longrightarrow> preserves I F (fold_do f xs r)"
  by (induction xs arbitrary: r) (auto intro: keeping)

lemma preserves_change: "(\<And>s. I s \<Longrightarrow> I (g s)) \<Longrightarrow> preserves I F (change g)"
  by (simp add: preserves_def)

subsection \<open>The invariant\<close>

definition budget_ok :: "'j recorder \<Rightarrow> bool" where
  "budget_ok s \<longleftrightarrow> finite (rc_accounted s) \<and> (\<forall>i \<in> rc_accounted s. object_size (rc_store s) i \<noteq> None)
     \<and> uint (rc_logical_bytes s) = (\<Sum>i \<in> rc_accounted s. the (object_size (rc_store s) i))
     \<and> rc_logical_bytes s \<le> co_max_run_bytes (rc_options s)"

definition history :: "'j tools \<Rightarrow> 'j recorder \<Rightarrow> event list" where
  "history t s = timeline (tl_env t) (st_db (rc_store s)) (rc_run s) @ rc_pending s"

definition own_event :: "run_id \<Rightarrow> event \<Rightarrow> bool" where
  "own_event run e \<longleftrightarrow> event_typed e \<and> event_ok e \<and> ev_run e = run"

definition recorder_ok :: "'j tools \<Rightarrow> 'j json_lib \<Rightarrow> 'j recorder \<Rightarrow> bool" where
  "recorder_ok t js s \<longleftrightarrow> env_ok (tl_env t) \<and> reachable_store (tl_env t) js (rc_store s) \<and> host_ok (rc_host s)
     \<and> run_id_ok (rc_run s) \<and> sq_run (rc_sequencer s) = rc_run s \<and> event_sequence_ok (sq_next (rc_sequencer s))
     \<and> list_all (own_event (rc_run s)) (rc_pending s) \<and> budget_ok s"

definition numbers :: "event list \<Rightarrow> nat list" where
  "numbers es = map (\<lambda>e. unat (sequence_get (ev_sequence e))) es"

definition in_step :: "'j tools \<Rightarrow> 'j recorder \<Rightarrow> bool" where
  "in_step t s \<longleftrightarrow> numbers (history t s) = [1..<unat (sequence_get (sq_next (rc_sequencer s)))]"

definition later :: "'j tools \<Rightarrow> 'j json_lib \<Rightarrow> 'j recorder \<Rightarrow> 'j recorder \<Rightarrow> bool" where
  "later t js s s' \<longleftrightarrow> rc_run s' = rc_run s \<and> rc_stream s' = rc_stream s \<and> rc_workspace s' = rc_workspace s
     \<and> rc_options s' = rc_options s \<and> same_host (rc_host s) (rc_host s')
     \<and> (store_step (tl_env t) js)\<^sup>*\<^sup>* (rc_store s) (rc_store s') \<and> sizes_kept (rc_store s) (rc_store s')
     \<and> prefix (history t s) (history t s')"

definition track :: "'j tools \<Rightarrow> 'j json_lib \<Rightarrow> 'j recorder \<Rightarrow> bool \<Rightarrow> 'j recorder \<Rightarrow> bool" where
  \<comment> \<open>a sound state later than another; the flag says whether the numbering is followed too\<close>
  "track t js s0 b s \<longleftrightarrow> recorder_ok t js s \<and> later t js s0 s \<and> (b \<longrightarrow> in_step t s)"

lemma later_refl [simp]: "later t js s s"
  by (simp add: later_def)

lemma later_trans: "later t js s s' \<Longrightarrow> later t js s' s'' \<Longrightarrow> later t js s s''"
  unfolding later_def by (auto intro: same_host_trans rtranclp_trans prefix_order.trans sizes_kept_trans)

lemma track_start: "recorder_ok t js s \<Longrightarrow> (b \<Longrightarrow> in_step t s) \<Longrightarrow> track t js s b s"
  by (simp add: track_def)

lemma track_trans: "track t js s0 b s \<Longrightarrow> track t js s b s' \<Longrightarrow> track t js s0 b s'"
  using later_trans by (auto simp: track_def)

lemma track_preserves:
  \<comment> \<open>it is enough to look at the steps that begin now\<close>
  assumes "\<And>s. recorder_ok t js s \<Longrightarrow> (b \<Longrightarrow> in_step t s) \<Longrightarrow>
      after m (\<lambda>_. track t js s b) (\<lambda>e s'. F e \<or> track t js s b s') s"
  shows "preserves (track t js s0 b) F m"
proof (rule preservesI)
  fix s assume s: "track t js s0 b s"
  then have "after m (\<lambda>_. track t js s b) (\<lambda>e s'. F e \<or> track t js s b s') s"
    by (intro assms) (simp_all add: track_def)
  then show "after m (\<lambda>_. track t js s0 b) (\<lambda>e s'. F e \<or> track t js s0 b s') s"
    by (rule after_mono) (use track_trans [OF s] in blast)+
qed

lemma budget_kept:
  assumes "budget_ok s" and "sizes_kept (rc_store s) (rc_store s')" and "rc_accounted s' = rc_accounted s"
    and "rc_logical_bytes s' = rc_logical_bytes s" and "rc_options s' = rc_options s"
  shows "budget_ok s'"
proof -
  have "object_size (rc_store s') i = object_size (rc_store s) i" if "i \<in> rc_accounted s" for i
    using assms(1,2) that by (auto simp: budget_ok_def sizes_kept_def)
  then show ?thesis using assms by (simp add: budget_ok_def)
qed

subsection \<open>The store\<close>

lemma reachable_steps:
  "reachable_store env js st \<Longrightarrow> (store_step env js)\<^sup>*\<^sup>* st st' \<Longrightarrow> reachable_store env js st'"
  by (simp add: reachable_store_def)

lemma recorder_store_ok: "recorder_ok t js s \<Longrightarrow> store_ok (tl_env t) (rc_store s)"
  using reachable_ok by (auto simp: recorder_ok_def)

lemma store_change:
  \<comment> \<open>a change of the store and of the pending events\<close>
  assumes s: "recorder_ok t js s" and steps: "(store_step (tl_env t) js)\<^sup>*\<^sup>* (rc_store s) st" and sizes: "sizes_kept (rc_store s) st"
    and grown: "prefix (history t s) (history t (s\<lparr>rc_store := st, rc_pending := es\<rparr>))" and own: "list_all (own_event (rc_run s)) es"
    and step: "b \<Longrightarrow> numbers (history t (s\<lparr>rc_store := st, rc_pending := es\<rparr>)) = [1..<unat (sequence_get (sq_next (rc_sequencer s)))]"
  shows "track t js s b (s\<lparr>rc_store := st, rc_pending := es\<rparr>)"
proof -
  let ?s = "s\<lparr>rc_store := st, rc_pending := es\<rparr>"
  have "budget_ok ?s" by (rule budget_kept [of s]) (use s sizes in \<open>simp_all add: recorder_ok_def\<close>)
  then show ?thesis
    using assms reachable_steps [OF _ steps] by (simp add: track_def recorder_ok_def later_def in_step_def)
qed

lemma append_batch_history:
  assumes env: "env_ok env" and ok: "store_ok env st" and typed: "\<forall>e \<in> set es. event_typed e" and ne: "es \<noteq> []"
    and a: "append_event_batch_in env (st_db st) es = Inr db"
  shows "timeline env db (ev_run (hd es)) = timeline env (st_db st) (ev_run (hd es)) @ es" and "tb_objects db = tb_objects (st_db st)"
proof -
  have "timeline_ok env (st_db st)" using ok by (simp add: store_ok_def)
  from append_then_timeline [OF env this typed a ne]
  show "timeline env db (ev_run (hd es)) = timeline env (st_db st) (ev_run (hd es)) @ es" .
  show "tb_objects db = tb_objects (st_db st)" by (subst append_batch_Inr(6) [OF a ne]) simp
qed

lemma own_events:
  "list_all (own_event run) es \<Longrightarrow> (\<forall>e \<in> set es. event_typed e) \<and> (es \<noteq> [] \<longrightarrow> ev_run (hd es) = run \<and> ev_run (last es) = run)"
  by (auto simp: list_all_iff own_event_def dest: hd_in_set last_in_set)

lemma after_on_store [simp]:
  "after (on_store f) Q E s \<longleftrightarrow> (case f (rc_store s) of Inl e \<Rightarrow> E (CaptureStore e) s | Inr st \<Rightarrow> Q () (s\<lparr>rc_store := st\<rparr>))"
  by (simp add: after_def on_store_def split: sum.splits)

lemma flush_events_spec:
  assumes s: "recorder_ok t js s" and b: "b \<Longrightarrow> in_step t s"
  shows "after (flush_events t) (\<lambda>_ s'. track t js s b s' \<and> history t s' = history t s \<and> (\<exists>st. s' = s\<lparr>rc_store := st, rc_pending := []\<rparr>))
    (\<lambda>e s'. s' = s \<and> rc_pending s \<noteq> [] \<and> (\<exists>x. e = CaptureStore x \<and> append_event_batch (tl_env t) (rc_store s) (rc_pending s) = Inl x)) s"
proof (cases "rc_pending s = []")
  case True
  then have "s\<lparr>rc_store := rc_store s, rc_pending := []\<rparr> = s" by simp
  then show ?thesis using s b True by (auto simp: flush_events_def track_start intro!: exI [of _ "rc_store s"])
next
  case False
  have own: "list_all (own_event (rc_run s)) (rc_pending s)" and env: "env_ok (tl_env t)" using s by (simp_all add: recorder_ok_def)
  have *: "track t js s b (s\<lparr>rc_store := st, rc_pending := []\<rparr>) \<and> history t (s\<lparr>rc_store := st, rc_pending := []\<rparr>) = history t s"
    if a: "append_event_batch (tl_env t) (rc_store s) (rc_pending s) = Inr st" for st
  proof -
    obtain db where db: "append_event_batch_in (tl_env t) (st_db (rc_store s)) (rc_pending s) = Inr db" "st = (rc_store s)\<lparr>st_db := db\<rparr>"
      using a False by (auto simp: append_event_batch_def and_then_Inr_iff map_ok_Inr_iff)
    have t: "timeline (tl_env t) db (rc_run s) = timeline (tl_env t) (st_db (rc_store s)) (rc_run s) @ rc_pending s"
      and o': "tb_objects db = tb_objects (st_db (rc_store s))"
      using append_batch_history [OF env recorder_store_ok [OF s] _ False db(1)] own_events [OF own] False by auto
    have h: "history t (s\<lparr>rc_store := st, rc_pending := []\<rparr>) = history t s" by (simp add: history_def db(2) t)
    have "store_step (tl_env t) js (rc_store s) st" by (rule store_step.append [OF a]) (use own_events [OF own] in blast)
    moreover have "sizes_kept (rc_store s) st" by (simp add: db(2) sizes_kept_objects o')
    ultimately have "track t js s b (s\<lparr>rc_store := st, rc_pending := []\<rparr>)"
      using b by (intro store_change [OF s]) (simp_all add: h r_into_rtranclp in_step_def)
    then show ?thesis using h by blast
  qed
  then show ?thesis using False by (auto simp: flush_events_def split: sum.splits)
qed

subsection \<open>The sequencer\<close>

definition clocked :: "'j recorder \<Rightarrow> 'j recorder \<Rightarrow> bool" where
  \<comment> \<open>only the host was asked\<close>
  "clocked s s' \<longleftrightarrow> (\<exists>h. same_host (rc_host s) h \<and> s' = s\<lparr>rc_host := h\<rparr>)"

lemma clockedI [intro]: "same_host (rc_host s) h \<Longrightarrow> clocked s (s\<lparr>rc_host := h\<rparr>)"
  by (auto simp: clocked_def)

lemma same_host_calls [simp]: "same_host h (h\<lparr>ht_calls := n\<rparr>)"
  by (simp add: same_host_def)

lemma clocked_track: "clocked s s' \<Longrightarrow> recorder_ok t js s \<Longrightarrow> (b \<Longrightarrow> in_step t s) \<Longrightarrow> track t js s b s'"
  by (auto simp: clocked_def track_def recorder_ok_def later_def history_def in_step_def same_host_ok budget_ok_def)

lemma clocked_trans: "clocked s s' \<Longrightarrow> clocked s' s'' \<Longrightarrow> clocked s s''"
  using same_host_trans by (fastforce simp: clocked_def)

lemma after_on_host [simp]:
  "after (on_host m) Q E s \<longleftrightarrow> after m (\<lambda>x h. Q x (s\<lparr>rc_host := h\<rparr>)) (\<lambda>e h. E e (s\<lparr>rc_host := h\<rparr>)) (rc_host s)"
  by (simp add: on_host_def)

lemma clocked_ask: "after (on_host (ask reading)) (\<lambda>x s'. clocked s s' \<and> x = reading (rc_host s) (ht_calls (rc_host s))) (\<lambda>_ _. False) s"
  by (simp add: clockedI)

lemma clocked_timestamp: "after (on_host timestamp_now) (\<lambda>_. clocked s) (\<lambda>e s'. clocked s s' \<and> e = ClockOutOfRange) s"
  by (simp add: timestamp_now_def clockedI)

lemma clocked_now: "after sequencer_now (\<lambda>_. clocked s) (\<lambda>e s'. clocked s s' \<and> e = ClockOutOfRange) s"
  by (simp add: sequencer_now_def timestamp_now_def clockedI)

definition stamped :: "displays \<Rightarrow> event_payload \<Rightarrow> 'j recorder \<Rightarrow> event \<Rightarrow> 'j recorder \<Rightarrow> bool" where
  \<comment> \<open>the sequencer gave out its next number\<close>
  "stamped d payload s e s' \<longleftrightarrow>
     (\<exists>h next offset. same_host (rc_host s) h \<and> checked_next (sq_next (rc_sequencer s)) = Some next
        \<and> sq_last_offset (rc_sequencer s) \<le> offset \<and> ev_offset e = offset
        \<and> s' = s\<lparr>rc_host := h, rc_sequencer := (rc_sequencer s)\<lparr>sq_next := next, sq_last_offset := offset\<rparr>\<rparr>)
     \<and> ev_payload e = payload \<and> ev_sequence e = sq_next (rc_sequencer s) \<and> payload_ok payload
     \<and> (\<forall>t js. recorder_ok t js s \<longrightarrow> own_event (rc_run s) e)"

lemma checked_next_Some:
  assumes "checked_next s = Some n"
  shows "event_sequence_ok n" and "unat (sequence_get n) = Suc (unat (sequence_get s))"
proof -
  have "checked_add (sequence_get s) 1 = Some (sequence_get n)" and ne: "sequence_get n \<noteq> 0"
    using assms by (auto simp: checked_next_def event_sequence_new_def split: option.splits if_splits)
  then have n: "sequence_get n = sequence_get s + 1" "unat (sequence_get s) + 1 < 2 ^ 64"
    by (auto simp: checked_add_def split: if_splits)
  show "event_sequence_ok n" using ne by (simp add: event_sequence_ok_def)
  show "unat (sequence_get n) = Suc (unat (sequence_get s))"
    unfolding n(1) using n(2) by (simp add: unat_word_ariths)
qed

lemma sequencer_next_spec:
  fixes s :: "'j recorder"
  shows "after (sequencer_next d payload) (\<lambda>e s'. stamped d payload s e s')
     (\<lambda>e s'. clocked s s' \<and> \<not> is_store_failure e) s"
  unfolding sequencer_next_def after_and_do
proof (rule after_mono [OF clocked_now], goal_cases)
  case (1 time s1)
  obtain wall offset where time: "time = (wall, offset)" by force
  obtain h where h: "same_host (rc_host s) h" "s1 = s\<lparr>rc_host := h\<rparr>" using 1 by (auto simp: clocked_def)
  let ?sq = "rc_sequencer s" and ?h = "h\<lparr>ht_calls := Suc (ht_calls h)\<rparr>"
  have host: "same_host (rc_host s) ?h" using same_host_trans [OF h(1)] by simp
  let ?e = "event_new (EventId (ht_ids h (ht_calls h))) (sq_run ?sq) (sq_next ?sq) wall (max offset (sq_last_offset ?sq)) payload"
  have own: "own_event (rc_run s) e"
    if "recorder_ok t js s" "?e = Inr e" for t :: "'j tools" and js e
  proof -
    have "record_uuid_ok (ht_ids h n)" for n
      using that(1) h(1) by (simp add: recorder_ok_def host_ok_def same_host_def)
    then show ?thesis using that by (auto simp: own_event_def event_typed_def event_ok_def event_id_ok_def event_new_Inr_iff recorder_ok_def)
  qed
  show ?case
  proof (cases ?e)
    case (Inl x)
    then show ?thesis using host
      by (simp add: time next_at_def h(2) Let_def after_lift clockedI is_store_failure_def)
  next
    case (Inr e)
    show ?thesis
    proof (cases "checked_next (sq_next ?sq)")
      case None
      then show ?thesis using Inr host
        by (simp add: time next_at_def h(2) Let_def after_lift clockedI is_store_failure_def)
    next
      case (Some n)
      then show ?thesis using Inr host own [OF _ Inr]
        by (simp add: time next_at_def h(2) Let_def after_lift)
          (auto simp: stamped_def event_new_Inr_iff intro!: exI [of _ ?h])
    qed
  qed
next
  case (2 e s')
  then show ?case by (simp add: is_store_failure_def)
qed

subsection \<open>Queueing\<close>

definition queued :: "'j tools \<Rightarrow> event_payload \<Rightarrow> 'j recorder \<Rightarrow> event \<Rightarrow> 'j recorder \<Rightarrow> bool" where
  "queued t payload s e s' \<longleftrightarrow>
     (\<exists>s1. stamped (tl_shown t) payload s e s1 \<and> s' = s1\<lparr>rc_pending := rc_pending s1 @ [e]\<rparr>)"

lemma queued_history: "queued t payload s e s' \<Longrightarrow> history t s' = history t s @ [e]"
  by (auto simp: queued_def stamped_def history_def)

lemma queued_track:
  assumes q: "queued t payload s e s'" and s: "recorder_ok t js s" and b: "b \<Longrightarrow> in_step t s"
  shows "track t js s b s'"
proof -
  obtain h nx offset where n: "checked_next (sq_next (rc_sequencer s)) = Some nx" and h: "same_host (rc_host s) h"
    and s': "s' = s\<lparr>rc_host := h, rc_sequencer := (rc_sequencer s)\<lparr>sq_next := nx, sq_last_offset := offset\<rparr>,
        rc_pending := rc_pending s @ [e]\<rparr>"
    and e: "ev_sequence e = sq_next (rc_sequencer s)" and own: "own_event (rc_run s) e"
    using q s by (auto simp: queued_def stamped_def)
  note nx = checked_next_Some [OF n]
  have pos: "1 \<le> unat (sequence_get (sq_next (rc_sequencer s)))"
    using s by (simp add: recorder_ok_def event_sequence_ok_def unat_gt_0 Suc_le_eq)
  have hist: "history t s' = history t s @ [e]" using queued_history [OF q] .
  have "budget_ok s'" by (rule budget_kept [of s]) (use s in \<open>simp_all add: recorder_ok_def s'\<close>)
  then have "recorder_ok t js s'" using s nx own h by (simp add: recorder_ok_def s' same_host_ok)
  moreover have "later t js s s'" using h hist by (simp add: later_def) (simp add: s')
  moreover have "in_step t s'" if b
    using b [OF that] hist pos nx(2) by (simp add: in_step_def numbers_def e) (simp add: s')
  ultimately show ?thesis by (simp add: track_def)
qed

lemma queue_event_spec:
  "after (queue_event t payload) (\<lambda>n s'. \<exists>e. queued t payload s e s' \<and> n = ev_sequence e)
     (\<lambda>e s'. clocked s s' \<and> \<not> is_store_failure e) s"
  unfolding queue_event_def after_and_do
  by (rule after_mono [OF sequencer_next_spec]) (auto simp: queued_def)

definition emitted :: "'j tools \<Rightarrow> event_payload \<Rightarrow> 'j recorder \<Rightarrow> event \<Rightarrow> 'j recorder \<Rightarrow> bool" where
  \<comment> \<open>the event is queued, and the batch is written if it was full\<close>
  "emitted t payload s e s' \<longleftrightarrow> (\<exists>s1. queued t payload s e s1
     \<and> (if co_event_batch_size (rc_options s) \<le> length (rc_pending s1)
        then (\<exists>st. s' = s1\<lparr>rc_store := st, rc_pending := []\<rparr>) else s' = s1))"

lemma queued_options: "queued t payload s e s' \<Longrightarrow> rc_options s' = rc_options s"
  by (auto simp: queued_def stamped_def)

lemma emit_spec:
  assumes s: "recorder_ok t js s" and b: "b \<Longrightarrow> in_step t s"
  shows "after (emit t payload)
     (\<lambda>n s'. \<exists>e. emitted t payload s e s' \<and> n = ev_sequence e \<and> track t js s b s' \<and> history t s' = history t s @ [e])
     (\<lambda>x s'. clocked s s' \<and> \<not> is_store_failure x \<or> (\<exists>e. queued t payload s e s') \<and> is_store_failure x) s"
  unfolding emit_def after_and_do
proof (rule after_mono [OF queue_event_spec], goal_cases)
  case (1 n s1)
  then obtain e where q: "queued t payload s e s1" and n: "n = ev_sequence e" by blast
  have tr: "track t js s b s1" by (rule queued_track [OF q s b])
  then have ok: "recorder_ok t js s1" and step: "b \<Longrightarrow> in_step t s1" by (simp_all add: track_def)
  show ?case
  proof (cases "co_event_batch_size (rc_options s1) \<le> length (rc_pending s1)")
    case True
    have "after (flush_events t) (\<lambda>_ s'. \<exists>e. emitted t payload s e s' \<and> n = ev_sequence e \<and> track t js s b s' \<and> history t s' = history t s @ [e])
      (\<lambda>x s'. (\<exists>e. queued t payload s e s') \<and> is_store_failure x) s1"
    proof (rule after_mono [OF flush_events_spec [where b = b, OF ok step]], goal_cases)
      case (2 u s')
      then show ?case using q n True queued_history [OF q] track_trans [OF tr] queued_options [OF q]
        by (auto simp: emitted_def intro!: exI [of _ e])
    next
      case (3 x s')
      then show ?case using q by (auto simp: is_store_failure_def)
    qed
    then show ?thesis using True by (simp add: after_mono)
  next
    case False
    then show ?thesis using q n tr queued_history [OF q] queued_options [OF q] by (auto simp: emitted_def)
  qed
next
  case (2 x s')
  then show ?case by blast
qed

subsection \<open>Invariants of a recording\<close>

text \<open>
  What an invariant must survive for every operation that records events to keep it: the flush,
  the queueing of one event that refers to no object, calls of the host, and changes of what is
  not part of the record.
\<close>

lemma on_files_after [simp]:
  "after (on_files m) Q E s \<longleftrightarrow> after m (\<lambda>x w. Q x (s\<lparr>rc_world := w\<rparr>)) (\<lambda>e w. E e (s\<lparr>rc_world := w\<rparr>)) (rc_world s)"
  by (simp add: on_files_def)

locale recorder_invariant =
  fixes t :: "'j tools" and I :: "'j recorder \<Rightarrow> bool"
  assumes flush: "preserves I (\<lambda>_. False) (flush_events t)"
    and queue: "referenced_object payload = None \<Longrightarrow> preserves I (\<lambda>_. False) (queue_event t payload)"
    and clock: "clocked s s' \<Longrightarrow> I s \<Longrightarrow> I s'"
    and neutral: "I s \<Longrightarrow> I (s\<lparr>rc_excluded := X\<rparr>)" "I s \<Longrightarrow> I (s\<lparr>rc_world := w\<rparr>)" "I s \<Longrightarrow> I (s\<lparr>rc_checkpoint_count := n\<rparr>)"
begin

lemma keeps_flush [keeping]: "preserves I F (flush_events t)"
  by (rule preserves_weaken [OF flush]) simp

lemma keeps_queue [keeping]: "referenced_object payload = None \<Longrightarrow> preserves I F (queue_event t payload)"
  by (rule preserves_weaken [OF queue]) simp_all

lemma keeps_clocked:
  assumes "\<And>s. after m (\<lambda>_. clocked s) (\<lambda>_. clocked s) s"
  shows "preserves I F m"
  by (rule preservesI) (rule after_mono [OF assms], auto intro: clock)

lemma keeps_ask [keeping]: "preserves I F (on_host (ask reading))"
  by (rule keeps_clocked) (simp add: clockedI)

lemma keeps_timestamp [keeping]: "preserves I F (on_host timestamp_now)"
  by (rule keeps_clocked) (rule after_mono [OF clocked_timestamp], simp_all)

lemma keeps_now [keeping]: "preserves I F sequencer_now"
  by (rule keeps_clocked) (rule after_mono [OF clocked_now], simp_all)

lemma keeps_files [keeping]: "preserves I F (on_files m)"
  by (rule preservesI) (simp add: after_always neutral)

lemma keeps_excluded [keeping]: "preserves I F (change (\<lambda>s. s\<lparr>rc_excluded := f s\<rparr>))"
  by (rule preserves_change) (rule neutral)

lemma keeps_emit [keeping]: "referenced_object payload = None \<Longrightarrow> preserves I F (emit t payload)"
  unfolding emit_def by (intro keeping)

lemma keeps_warning [keeping]: "preserves I F (warning t code message)"
  unfolding warning_def by (intro keeping) simp

lemma keeps_within_budget [keeping]:
  "preserves I F m \<Longrightarrow> preserves I F (within_budget t candidates m)"
  unfolding within_budget_def warn_run_storage_limit_def by (intro keeping)

lemma keeps_warn_exclusions [keeping]: "preserves I F (warn_exclusions t excluded)"
  unfolding warn_exclusions_def by (intro keeping)

lemma keeps_checkpoint_failed [keeping]: "preserves I F (emit_checkpoint_failed t c kind message)"
  unfolding emit_checkpoint_failed_def by (intro keeping) simp

lemma keeps_cleanup_failure [keeping]: "preserves I F (record_cleanup_failure t failed source)"
  unfolding record_cleanup_failure_def by (intro keeping)

lemma keeps_remove_excluded [keeping]: "preserves I F (remove_excluded root path counts)"
  unfolding remove_excluded_def by (intro keeping)

lemma keeps_cleanup [keeping]: "preserves I F (cleanup_exclusions_for_retention t)"
  unfolding cleanup_exclusions_for_retention_def by (intro keeping)

end

lemma track_fields:
  \<comment> \<open>what is neither counted nor recorded\<close>
  fixes s :: "'j recorder"
  assumes "track t js s0 b s"
  shows "track t js s0 b (s\<lparr>rc_checkpoint_count := n\<rparr>)" and "track t js s0 b (s\<lparr>rc_excluded := X\<rparr>)" and "track t js s0 b (s\<lparr>rc_world := w\<rparr>)"
proof -
  have "recorder_ok t js s' = recorder_ok t js s \<and> later t js s0 s' = later t js s0 s \<and> in_step t s' = in_step t s"
    if "s' \<in> {s\<lparr>rc_checkpoint_count := n\<rparr>, s\<lparr>rc_excluded := X\<rparr>, s\<lparr>rc_world := w\<rparr>}" for s'
    using that by (auto simp: recorder_ok_def budget_ok_def later_def history_def in_step_def)
  then show "track t js s0 b (s\<lparr>rc_checkpoint_count := n\<rparr>)" "track t js s0 b (s\<lparr>rc_excluded := X\<rparr>)" "track t js s0 b (s\<lparr>rc_world := w\<rparr>)"
    using assms by (simp_all add: track_def)
qed

interpretation tracked: recorder_invariant t "track t js s0 b" for t js s0 b
proof
  show "preserves (track t js s0 b) (\<lambda>_. False) (flush_events t)"
    by (rule track_preserves) (rule after_mono [OF flush_events_spec [where b = b]], auto simp: track_start)
  show "preserves (track t js s0 b) (\<lambda>_. False) (queue_event t payload)" for payload
    by (rule track_preserves) (rule after_mono [OF queue_event_spec], auto simp: clocked_track queued_track)
  show "track t js s0 b s'" if "clocked s s'" and "track t js s0 b s" for s s'
    using track_trans [OF that(2) clocked_track [OF that(1)]] that(2) by (simp add: track_def)
qed (simp_all add: track_fields)

subsection \<open>The budget\<close>

lemma checked_add_uint: "checked_add a b = Some c \<Longrightarrow> uint c = uint a + uint b"
proof -
  assume "checked_add a b = Some c"
  then have "unat c = unat a + unat b" by (simp only: checked_add_Some_iff)
  then have "int (unat c) = int (unat a) + int (unat b)" by simp
  then show ?thesis by (simp only: uint_nat)
qed

lemma add_sizes_sum: "add_sizes acc ns = Some r \<Longrightarrow> uint r = uint acc + sum_list (map uint ns)"
proof (induction ns arbitrary: acc)
  case (Cons n ns)
  then obtain a where a: "checked_add acc n = Some a" "add_sizes a ns = Some r" by (auto split: option.splits)
  show ?case using Cons.IH [OF a(2)] checked_add_uint [OF a(1)] by simp
qed simp

definition indexed_sizes :: "'j store \<Rightarrow> (object_id \<times> u64) list \<Rightarrow> bool" where
  "indexed_sizes st candidates \<longleftrightarrow> distinct (map fst candidates) \<and> (\<forall>(i, n) \<in> set candidates. object_size st i = Some (uint n))"

lemma projected_budget:
  assumes budget: "budget_ok s" and c: "indexed_sizes (rc_store s) candidates" and p: "projected_object_bytes s candidates = Inr r"
  shows "budget_ok (s\<lparr>rc_accounted := rc_accounted s \<union> fst ` set candidates, rc_logical_bytes := r\<rparr>)"
proof -
  let ?A = "rc_accounted s" and ?size = "\<lambda>i. the (object_size (rc_store s) i)"
  let ?new = "filter (\<lambda>(i, _). i \<notin> ?A) candidates"
  obtain extra where extra: "add_sizes 0 (map snd ?new) = Some extra" "checked_add (rc_logical_bytes s) extra = Some r"
    and max: "r \<le> co_max_run_bytes (rc_options s)"
    using p by (auto simp: projected_object_bytes_def Let_def and_then_Inr_iff split: if_splits)
  have r: "uint r = uint (rc_logical_bytes s) + uint extra"
    by (rule checked_add_uint [OF extra(2)])
  have sizes: "object_size (rc_store s) (fst c) = Some (uint (snd c))" if "c \<in> set candidates" for c
    using c that by (cases c) (auto simp: indexed_sizes_def)
  have dist: "distinct (map fst ?new)" using c by (simp add: indexed_sizes_def distinct_map_filter)
  have "uint extra = sum_list (map (\<lambda>c. uint (snd c)) ?new)" using add_sizes_sum [OF extra(1)] by (simp add: comp_def)
  also have "map (\<lambda>c. uint (snd c)) ?new = map ?size (map fst ?new)" using sizes by simp
  also have "sum_list (map ?size (map fst ?new)) = (\<Sum>i \<in> set (map fst ?new). ?size i)"
    by (rule sum.distinct_set_conv_list [OF dist, symmetric])
  finally have extra': "uint extra = (\<Sum>i \<in> set (map fst ?new). ?size i)" .
  have new: "set (map fst ?new) = fst ` set candidates - ?A" by force
  have fin: "finite ?A" and old: "uint (rc_logical_bytes s) = (\<Sum>i \<in> ?A. ?size i)" using budget by (auto simp: budget_ok_def)
  have "(\<Sum>i \<in> ?A \<union> (fst ` set candidates - ?A). ?size i) = (\<Sum>i \<in> ?A. ?size i) + (\<Sum>i \<in> fst ` set candidates - ?A. ?size i)"
    using fin by (intro sum.union_disjoint) auto
  then have total: "uint r = (\<Sum>i \<in> ?A \<union> fst ` set candidates. ?size i)" by (simp only: Un_Diff_cancel r old extra' new)
  have "object_size (rc_store s) i \<noteq> None" if "i \<in> fst ` set candidates" for i using that sizes by auto
  then show ?thesis using budget total max fin by (auto simp: budget_ok_def)
qed

lemma projected_cong:
  "rc_accounted s' = rc_accounted s \<Longrightarrow> rc_logical_bytes s' = rc_logical_bytes s \<Longrightarrow> rc_options s' = rc_options s
     \<Longrightarrow> projected_object_bytes s' candidates = projected_object_bytes s candidates"
  by (simp add: projected_object_bytes_def)

lemma indexed_sizes_kept: "indexed_sizes st candidates \<Longrightarrow> sizes_kept st st' \<Longrightarrow> indexed_sizes st' candidates"
  by (fastforce simp: indexed_sizes_def sizes_kept_def)

lemma collect_map_facts:
  "map fst (collect_map bs) = sorted_list_of_set (fst ` set bs)" "set (collect_map bs) \<subseteq> set bs"
proof -
  show "map fst (collect_map bs) = sorted_list_of_set (fst ` set bs)" by (simp add: collect_map_def comp_def)
  show "set (collect_map bs) \<subseteq> set bs"
  proof
    fix x assume "x \<in> set (collect_map bs)"
    then obtain k where k: "k \<in> fst ` set bs" "x = (k, the (map_of (rev bs) k))" by (auto simp: collect_map_def)
    then obtain v where "map_of (rev bs) k = Some v" by (metis domD dom_map_of_conv_image_fst set_rev)
    then show "x \<in> set bs" using map_of_SomeD [of "rev bs" k v] k by simp
  qed
qed

lemma snapshot_objects_indexed:
  assumes "list_all (entry_indexed st) (manifest_entries (snapshot_content s))"
  shows "indexed_sizes st (snapshot_objects s)"
proof -
  let ?bs = "List.map_filter (\<lambda>e. case entry_kind e of File i n _ \<Rightarrow> Some (i, n) | _ \<Rightarrow> None) (manifest_entries (snapshot_content s))"
  have "object_size st i = Some (uint n)" if "(i, n) \<in> set ?bs" for i n
    using that assms
    by (auto simp: List.map_filter_def list_all_iff entry_indexed_def split: snapshot_entry_kind.splits)
  then show ?thesis
    using collect_map_facts [of ?bs] by (auto simp: indexed_sizes_def snapshot_objects_def)
qed

lemma account_track:
  assumes tr: "track t js s0 b s" and c: "indexed_sizes (rc_store s) candidates" and p: "projected_object_bytes s candidates = Inr r"
  shows "track t js s0 b (s\<lparr>rc_accounted := rc_accounted s \<union> fst ` set candidates, rc_logical_bytes := r\<rparr>)"
  using tr projected_budget [OF _ c p] by (auto simp: track_def recorder_ok_def later_def history_def in_step_def)

end
