(* ===== verification/Recorder_Effects.thy ===== *)
theory Recorder_Effects
  imports Recorder_Spec
begin

section \<open>Checkpoints, clean-up and the end of a run\<close>

text \<open>
  The operations of the recorder above \<open>emit\<close>: every one of them keeps the invariant and only
  extends the history, and all but a failed commit keep the numbering.
\<close>

lemma and_do_assoc: "and_do (and_do m f) g = and_do m (\<lambda>x. and_do (f x) g)"
  by (rule ext) (simp add: and_do_def split: prod.split sum.split)

lemma after_last: "(\<And>x s'. after (f x) Q (\<lambda>_ _. True) s') \<Longrightarrow> after (and_do m f) Q (\<lambda>_ _. True) s"
  unfolding after_and_do by (simp add: after_def split: prod.splits sum.splits)

subsection \<open>References to objects\<close>

lemma within_budget_spec:
  assumes s: "recorder_ok t js s" and b: "b \<Longrightarrow> in_step t s"
    and m: "\<And>s0. preserves (track t js s0 b) (\<lambda>_. False) on_limit"
  shows "after (within_budget t candidates on_limit)
    (\<lambda>r s'. s' = s \<and> projected_object_bytes s candidates = Inr r) (\<lambda>_. track t js s b) s"
proof -
  have "after (within_budget t candidates on_limit) (\<lambda>_. track t js s b) (\<lambda>e s'. False \<or> track t js s b s') s"
    by (rule preservesD [OF tracked.keeps_within_budget [OF m]]) (use s b in \<open>simp add: track_start\<close>)
  then have kept: "after (within_budget t candidates on_limit) (\<lambda>_. track t js s b) (\<lambda>_. track t js s b) s" by simp
  have "after (within_budget t candidates on_limit) (\<lambda>r s'. s' = s \<and> projected_object_bytes s candidates = Inr r) (\<lambda>_ _. True) s"
  proof (cases "projected_object_bytes s candidates")
    case (Inl e)
    have "after (and_do (warn_run_storage_limit t) (\<lambda>_. and_do on_limit (\<lambda>_. and_do (flush_events t) (\<lambda>_. stop e))))
        (\<lambda>_ _. False) (\<lambda>_ _. True) s"
      by (intro after_last) simp
    then show ?thesis unfolding within_budget_def after_and_do [of "inspect _"] after_inspect by (simp add: Inl)
  qed (simp add: within_budget_def)
  from after_conj [OF kept this] show ?thesis by (rule after_mono) simp_all
qed

lemma emit_object_reference_spec:
  assumes s: "recorder_ok t js s" and b: "b \<Longrightarrow> in_step t s" and size: "object_size (rc_store s) i = Some (uint n)"
  shows "after (emit_object_reference t i n payload)
    (\<lambda>q s'. track t js s b s' \<and> i \<in> rc_accounted s' \<and> (\<exists>e. history t s' = history t s @ [e] \<and> ev_payload e = payload \<and> ev_sequence e = q))
    (\<lambda>_. track t js s b) s"
  unfolding emit_object_reference_def Let_def
proof (rule after_seq [OF within_budget_spec [where b = b, OF s b keeping(1)]], assumption, goal_cases)
  case (1 r s1)
  then have s1: "s1 = s" and r: "projected_object_bytes s [(i, n)] = Inr r" by simp_all
  show ?case
    unfolding s1
  proof (rule after_seq [OF after_mono [OF emit_spec [where b = b, OF s b]]], assumption, assumption, goal_cases)
    case (1 x s')
    then show ?case using s b by (auto simp: clocked_track queued_track)
  next
    case (2 q s2)
    then obtain e where e: "emitted t payload s e s2" "q = ev_sequence e" and tr: "track t js s b s2" and h: "history t s2 = history t s @ [e]"
      by blast
    have same: "rc_accounted s2 = rc_accounted s" "rc_logical_bytes s2 = rc_logical_bytes s" "rc_options s2 = rc_options s"
      using e(1) by (auto simp: emitted_def queued_def stamped_def split: if_splits)
    have "indexed_sizes (rc_store s2) [(i, n)]"
      using tr size by (auto simp: indexed_sizes_def track_def later_def sizes_kept_def)
    from account_track [OF tr this] r projected_cong [OF same]
    have "track t js s b (s2\<lparr>rc_accounted := rc_accounted s2 \<union> fst ` set [(i, n)], rc_logical_bytes := r\<rparr>)" by simp
    moreover have "ev_payload e = payload" using e(1) by (auto simp: emitted_def queued_def stamped_def)
    ultimately show ?case using h e(2) by (auto simp: account_objects_def history_def)
  qed
qed

subsection \<open>Checkpoints\<close>

lemma puts_timeline:
  assumes "puts env st st'" and env: "env_ok env" and "store_ok env st"
  shows "timeline env (st_db st') run = timeline env (st_db st) run"
proof -
  have "store_ok env st' \<and> timeline env (st_db st') run = timeline env (st_db st) run"
    using assms(1,3) unfolding puts_def
  proof (induction rule: rtranclp_induct)
    case (step st1 st2)
    then obtain bs created r where put: "put_object env st1 bs created = (st2, r)" by (auto elim: store_put.cases)
    have ok: "store_ok env st1" using step by blast
    then have schema: "schema_ok (st_db st1)" by (simp add: store_ok_def)
    have "tb_events (st_db st2) = tb_events (st_db st1)" using put_object_frame [OF put schema] by auto
    then have "timeline env (st_db st2) run = timeline env (st_db st1) run" by (rule timeline_cong(2))
    moreover have "store_ok env st2" using store_step_ok [OF store_step.put [OF put] env ok] by blast
    ultimately show ?case using step by simp
  qed simp
  then show ?thesis ..
qed

lemma after_scan_now:
  "after (scan_now t created) Q E s \<longleftrightarrow>
     after (scan_workspace (tl_env t) (tl_lower t) (rc_workspace s) (co_snapshot (rc_options s)) (as_unix_milliseconds created))
       (\<lambda>x z. Q x (s\<lparr>rc_world := sc_world z, rc_store := sc_store z\<rparr>)) (\<lambda>e z. E e (s\<lparr>rc_world := sc_world z, rc_store := sc_store z\<rparr>))
       \<lparr>sc_world = rc_world s, sc_store = rc_store s, sc_entries = [], sc_exclusions = []\<rparr>"
  by (simp add: after_def scan_now_def at_part_def split: prod.splits sum.splits)

lemma scan_now_spec:
  assumes s: "recorder_ok t js s" and b: "b \<Longrightarrow> in_step t s"
  shows "after (scan_now t created)
    (\<lambda>report s'. track t js s b s' \<and> history t s' = history t s \<and> (\<exists>w st. s' = s\<lparr>rc_world := w, rc_store := st\<rparr>)
       \<and> snapshot_typed (srp_snapshot report)
       \<and> list_all (entry_indexed (rc_store s')) (manifest_entries (snapshot_content (srp_snapshot report))))
    (\<lambda>_ s'. track t js s b s' \<and> history t s' = history t s) s"
proof -
  have env: "env_ok (tl_env t)" and hash: "hash_ok (env_hash (tl_env t))" using s by (simp_all add: recorder_ok_def env_ok_def)
  have *: "track t js s b (s\<lparr>rc_world := w, rc_store := st\<rparr>) \<and> history t (s\<lparr>rc_world := w, rc_store := st\<rparr>) = history t s"
    if puts: "puts (tl_env t) (rc_store s) st" for w st
  proof -
    let ?s = "s\<lparr>rc_world := w\<rparr>"
    have ok: "recorder_ok t js ?s" using s by (simp add: recorder_ok_def budget_ok_def)
    have steps: "(store_step (tl_env t) js)\<^sup>*\<^sup>* (rc_store s) st" by (rule puts_steps [OF puts])
    have time: "timeline (tl_env t) (st_db st) run = timeline (tl_env t) (st_db (rc_store s)) run" for run
      using puts_timeline [OF puts env recorder_store_ok [OF s]] .
    have h: "history t (?s\<lparr>rc_store := st, rc_pending := rc_pending s\<rparr>) = history t ?s" by (simp add: history_def time)
    have same: "history t ?s = history t s" by (simp add: history_def)
    have "track t js ?s b (?s\<lparr>rc_store := st, rc_pending := rc_pending s\<rparr>)"
      using ok b steps h same s
      by (intro store_change [OF ok]) (simp_all add: puts_sizes [OF puts] in_step_def recorder_ok_def)
    moreover have "track t js s b ?s" using ok b by (simp add: track_def later_def in_step_def history_def)
    moreover have "?s\<lparr>rc_store := st, rc_pending := rc_pending s\<rparr> = s\<lparr>rc_world := w, rc_store := st\<rparr>" by simp
    ultimately show ?thesis using track_trans h same by metis
  qed
  have "after (scan_workspace (tl_env t) (tl_lower t) (rc_workspace s) (co_snapshot (rc_options s)) (as_unix_milliseconds created))
      (\<lambda>report z. puts (tl_env t) (rc_store s) (sc_store z) \<and> snapshot_typed (srp_snapshot report)
         \<and> list_all (entry_indexed (sc_store z)) (manifest_entries (snapshot_content (srp_snapshot report))))
      (\<lambda>_ z. puts (tl_env t) (rc_store s) (sc_store z))
      \<lparr>sc_world = rc_world s, sc_store = rc_store s, sc_entries = [], sc_exclusions = []\<rparr>"
    by (rule after_mono [OF scan_workspace_store [OF hash]]) simp_all
  then show ?thesis
    unfolding after_scan_now by (rule after_mono) (use * in auto)
qed

lemma commit_event_objects:
  assumes "commit_checkpoint_with_event env st c s e = Inr st'" and "schema_ok (st_db st)" and "snapshot_typed s"
  shows "tb_objects (st_db st') = tb_objects (st_db st)"
proof -
  obtain db1 db2 where v: "validate_checkpoint_snapshot env c s = Inr ()" and db1: "commit_checkpoint_in env (st_db st) c s = Inr db1"
    and db2: "append_event_batch_in env db1 [e] = Inr db2" and st': "st' = st\<lparr>st_db := db2\<rparr>"
    using assms(1) unfolding commit_checkpoint_with_event_def by (auto simp: and_then_Inr_iff map_ok_Inr_iff)
  have "tb_objects db2 = tb_objects db1" by (subst append_batch_Inr(6) [OF db2]) simp_all
  then show ?thesis using commit_checkpoint_in_tables [OF db1 assms(2,3) v] by (simp add: st')
qed

definition checkpoint_of :: "checkpoint_id \<Rightarrow> checkpoint_reason \<Rightarrow> string option \<Rightarrow> run_id \<Rightarrow> snapshot \<Rightarrow> event \<Rightarrow> checkpoint" where
  "checkpoint_of c reason label run snap e =
     \<lparr>ck_id = c, ck_run = run, ck_sequence = ev_sequence e, ck_label = label, ck_reason = reason,
      ck_snapshot = snapshot_identity snap, ck_created_at = ev_wall_clock e, ck_offset = ev_offset e\<rparr>"

definition checkpointed :: "'j tools \<Rightarrow> checkpoint_id \<Rightarrow> checkpoint_reason \<Rightarrow> string option \<Rightarrow> snapshot \<Rightarrow> event \<Rightarrow> 'j recorder \<Rightarrow> bool" where
  \<comment> \<open>the checkpoint and its snapshot are in the store, and its event ends the history\<close>
  "checkpointed t c reason label snap e s \<longleftrightarrow>
     load_snapshot (tl_env t) (rc_store s) (snapshot_identity snap) = Inr snap
     \<and> load_checkpoint (tl_env t) (st_db (rc_store s)) c = Inr (checkpoint_of c reason label (rc_run s) snap e)
     \<and> ev_payload e = CheckpointCommitted c (snapshot_identity snap)"

lemma commit_step:
  assumes s: "recorder_ok t js s" and b: "b \<Longrightarrow> in_step t s" and p: "rc_pending s = []"
    and st: "stamped d (CheckpointCommitted c (snapshot_identity snap)) s e s1"
    and typed: "snapshot_typed snap" "checkpoint_id_ok c"
    and commit: "commit_checkpoint_with_event (tl_env t) (rc_store s) (checkpoint_of c reason label (rc_run s) snap e) snap e = Inr st'"
  shows "track t js s b (s1\<lparr>rc_store := st'\<rparr>)" and "history t (s1\<lparr>rc_store := st'\<rparr>) = history t s @ [e]"
    and "checkpointed t c reason label snap e (s1\<lparr>rc_store := st'\<rparr>)"
proof -
  let ?s = "s1\<lparr>rc_store := st'\<rparr>"
  obtain h nx offset where n: "checked_next (sq_next (rc_sequencer s)) = Some nx" and h: "same_host (rc_host s) h"
    and s1: "s1 = s\<lparr>rc_host := h, rc_sequencer := (rc_sequencer s)\<lparr>sq_next := nx, sq_last_offset := offset\<rparr>\<rparr>"
    and e: "ev_sequence e = sq_next (rc_sequencer s)" "own_event (rc_run s) e" and pay: "ev_payload e = CheckpointCommitted c (snapshot_identity snap)"
    using st s by (auto simp: stamped_def)
  note nx = checked_next_Some [OF n]
  have env: "env_ok (tl_env t)" and store: "store_ok (tl_env t) (rc_store s)" using s recorder_store_ok by (auto simp: recorder_ok_def)
  have "checkpoint_typed (checkpoint_of c reason label (rc_run s) snap e)"
    using typed s e by (simp add: checkpoint_typed_def checkpoint_of_def recorder_ok_def snapshot_typed_def)
  moreover have "event_typed e" using e by (simp add: own_event_def)
  ultimately have loads: "load_snapshot (tl_env t) st' (snapshot_identity snap) = Inr snap"
      "load_checkpoint (tl_env t) (st_db st') c = Inr (checkpoint_of c reason label (rc_run s) snap e)"
      "timeline (tl_env t) (st_db st') (rc_run s) = timeline (tl_env t) (st_db (rc_store s)) (rc_run s) @ [e]"
    using commit_checkpoint_with_event_Inr [OF env _ _ typed(1) _ _ commit] store
    by (auto simp: store_ok_def checkpoint_of_def)
  then show hist: "history t ?s = history t s @ [e]" by (simp add: history_def s1 p)
  show "checkpointed t c reason label snap e ?s" using loads pay by (simp add: checkpointed_def s1)
  have "store_step (tl_env t) js (rc_store s) st'"
    by (rule store_step.checkpoint_event [OF commit typed(1)]) (use e in \<open>simp add: own_event_def\<close>)
  then have steps: "(store_step (tl_env t) js)\<^sup>*\<^sup>* (rc_store s) st'" by simp
  have sizes: "sizes_kept (rc_store s) st'"
    using commit_event_objects [OF commit _ typed(1)] store by (intro sizes_kept_objects) (simp add: store_ok_def)
  have "budget_ok ?s" by (rule budget_kept [of s]) (use s sizes in \<open>simp_all add: recorder_ok_def s1\<close>)
  then have "recorder_ok t js ?s"
    using s nx(1) h reachable_steps [OF _ steps] by (simp add: recorder_ok_def s1 same_host_ok)
  moreover have "later t js s ?s" using h hist steps sizes by (simp add: later_def) (simp add: s1)
  moreover have "in_step t ?s" if b
  proof -
    have "1 \<le> unat (sequence_get (sq_next (rc_sequencer s)))"
      using s by (simp add: recorder_ok_def event_sequence_ok_def unat_gt_0 Suc_le_eq)
    then show ?thesis using b [OF that] hist nx(2) by (simp add: in_step_def numbers_def e) (simp add: s1)
  qed
  ultimately show "track t js s b ?s" by (simp add: track_def)
qed

lemma stamped_track:
  assumes "stamped d payload s e s1" and s: "recorder_ok t js s"
  shows "track t js s False s1"
proof -
  obtain h nx offset where n: "checked_next (sq_next (rc_sequencer s)) = Some nx" and h: "same_host (rc_host s) h"
    and s1: "s1 = s\<lparr>rc_host := h, rc_sequencer := (rc_sequencer s)\<lparr>sq_next := nx, sq_last_offset := offset\<rparr>\<rparr>"
    using assms by (auto simp: stamped_def)
  have "budget_ok s1" by (rule budget_kept [of s]) (use s in \<open>simp_all add: recorder_ok_def s1\<close>)
  then show ?thesis
    using s h checked_next_Some(1) [OF n] by (simp add: track_def recorder_ok_def later_def history_def s1 same_host_ok)
qed

lemma commit_scanned_spec:
  assumes s: "recorder_ok t js s" and b: "b \<Longrightarrow> in_step t s" and p: "rc_pending s = []" and c: "checkpoint_id_ok c"
    and snap: "snapshot_typed (srp_snapshot report)"
    and indexed: "list_all (entry_indexed (rc_store s)) (manifest_entries (snapshot_content (srp_snapshot report)))"
  shows "after (commit_scanned t c reason label report)
    (\<lambda>commit s'. track t js s b s' \<and> rc_pending s' = [] \<and> cc_id commit = c
       \<and> cc_snapshot_id commit = snapshot_identity (srp_snapshot report)
       \<and> (\<exists>e. history t s' = history t s @ [e] \<and> checkpointed t c reason label (srp_snapshot report) e s'))
    (\<lambda>x s'. track t js s b s' \<or> is_store_failure x \<and> track t js s False s') s"
proof -
  let ?snap = "srp_snapshot report" and ?E = "\<lambda>x s'. track t js s b s' \<or> is_store_failure x \<and> track t js s False s'"
  let ?s = "s\<lparr>rc_excluded := rc_excluded s \<union> ex_path ` set (srp_exclusions report)\<rparr>"
  have ok: "recorder_ok t js ?s" and step: "b \<Longrightarrow> in_step t ?s" and hist0: "history t ?s = history t s"
    using s b by (simp_all add: recorder_ok_def budget_ok_def in_step_def history_def)
  have tr: "track t js s b ?s" using ok step hist0 by (simp add: track_def later_def)
  have "after (within_budget t (snapshot_objects ?snap) (emit_checkpoint_failed t c FailResourceLimit
        ''Run storage limit prevented this checkpoint from committing.''))
      (\<lambda>r s'. s' = ?s \<and> projected_object_bytes ?s (snapshot_objects ?snap) = Inr r) (\<lambda>x s'. ?E x s') ?s"
    by (rule after_mono [OF within_budget_spec [where b = b, OF ok step tracked.keeps_checkpoint_failed]]) (use track_trans [OF tr] in auto)
  then have budget: "after (within_budget t (snapshot_objects ?snap) (emit_checkpoint_failed t c FailResourceLimit
        ''Run storage limit prevented this checkpoint from committing.''))
      (\<lambda>r s'. s' = ?s \<and> projected_object_bytes ?s (snapshot_objects ?snap) = Inr r) ?E ?s" .
  show ?thesis
    unfolding commit_scanned_def Let_def after_and_do [of "change _"] after_change
  proof (rule after_seq [OF budget], goal_cases)
    case (1 r s1)
    then have s1: "s1 = ?s" and r: "projected_object_bytes ?s (snapshot_objects ?snap) = Inr r" by simp_all
    show ?case
      unfolding s1
    proof (rule after_seq [OF after_mono [OF sequencer_next_spec]], assumption, goal_cases)
      case (1 x s')
      then show ?case using track_trans [OF tr] clocked_track [of ?s s' t js b] ok step by blast
    next
      case (2 e s2)
      then have st: "stamped (tl_shown t) (CheckpointCommitted c (snapshot_identity ?snap)) ?s e s2" by simp
      then have same: "rc_store s2 = rc_store s" "rc_run s2 = rc_run s" by (auto simp: stamped_def)
      have weak: "track t js s False ?s" using tr by (simp add: track_def)
      have lost: "track t js s False s2" by (rule track_trans [OF weak stamped_track [OF st ok]])
      show ?case
      proof (cases "commit_checkpoint_with_event (tl_env t) (rc_store s) (checkpoint_of c reason label (rc_run s) ?snap e) ?snap e")
        case (Inl x)
        then show ?thesis using lost by (simp add: same checkpoint_of_def is_store_failure_def)
      next
        case (Inr st')
        let ?t = "s2\<lparr>rc_store := st'\<rparr>"
        have commit: "commit_checkpoint_with_event (tl_env t) (rc_store ?s) (checkpoint_of c reason label (rc_run ?s) ?snap e) ?snap e = Inr st'"
          using Inr by simp
        have pend: "rc_pending ?s = []" using p by simp
        note done' = commit_step [where b = b, OF ok step pend st snap c commit]
        have tr2: "track t js s b ?t" by (rule track_trans [OF tr done'(1)])
        have fields: "rc_accounted ?t = rc_accounted ?s" "rc_logical_bytes ?t = rc_logical_bytes ?s" "rc_options ?t = rc_options ?s"
            "rc_pending ?t = []" "rc_checkpoint_count ?t = rc_checkpoint_count ?s"
          using st p by (auto simp: stamped_def)
        have "indexed_sizes (rc_store ?t) (snapshot_objects ?snap)"
          using snapshot_objects_indexed [OF indexed] tr2 by (auto simp: track_def later_def intro: indexed_sizes_kept)
        from account_track [OF tr2 this] r projected_cong [OF fields(1-3)]
        have tr3: "track t js s b (?t\<lparr>rc_accounted := rc_accounted ?t \<union> fst ` set (snapshot_objects ?snap), rc_logical_bytes := r\<rparr>)"
          by simp
        let ?u = "?t\<lparr>rc_accounted := rc_accounted ?t \<union> fst ` set (snapshot_objects ?snap), rc_logical_bytes := r\<rparr>"
        have counted: "track t js s b (?u\<lparr>rc_checkpoint_count := n\<rparr>)" for n
          by (rule track_fields(1) [OF tr3])
        have end': "history t ?t = history t s @ [e]" using done'(2) hist0 by simp
        have "history t (?u\<lparr>rc_checkpoint_count := n\<rparr>) = history t s @ [e]" for n using end' by (simp add: history_def)
        moreover have "checkpointed t c reason label ?snap e (?u\<lparr>rc_checkpoint_count := n\<rparr>)" for n
          using done'(3) by (simp add: checkpointed_def)
        ultimately show ?thesis
          using Inr tr3 counted fields(4)
          by (simp add: same checkpoint_of_def after_lift account_objects_def split: sum.split)
      qed
    qed
  qed
qed

abbreviation (input) step_failed :: "'j tools \<Rightarrow> 'j json_lib \<Rightarrow> 'j recorder \<Rightarrow> bool \<Rightarrow> capture_error \<Rightarrow> 'j recorder \<Rightarrow> bool" where
  \<comment> \<open>only a refused commit loses a number\<close>
  "step_failed t js s b x s' \<equiv> track t js s b s' \<or> is_store_failure x \<and> track t js s False s'"

lemma step_failed_from:
  assumes "track t js s b s1" and "step_failed t js s1 b x s'"
  shows "step_failed t js s b x s'"
proof -
  have "track t js s False s1" using assms(1) by (simp add: track_def)
  then show ?thesis using assms track_trans by blast
qed

lemma track_stop:
  assumes "track t js s b s1" and "\<And>s0. preserves (track t js s0 b) (\<lambda>_. False) m"
  shows "after (and_do m (\<lambda>_. stop x)) Q (\<lambda>_. track t js s b) s1"
proof -
  have "after m (\<lambda>_. track t js s b) (\<lambda>_. track t js s b) s1"
    using preservesD [OF assms(2) assms(1)] by simp
  then show ?thesis unfolding after_and_do after_stop .
qed

lemma checkpoint_allocated_spec:
  assumes s: "recorder_ok t js s" and b: "b \<Longrightarrow> in_step t s" and c: "checkpoint_id_ok c"
  shows "after (checkpoint_allocated t c reason label)
    (\<lambda>commit s'. track t js s b s' \<and> rc_pending s' = [] \<and> cc_id commit = c
       \<and> (\<exists>start e snap. history t s' = history t s @ [start, e] \<and> ev_payload start = CheckpointStarted c reason
            \<and> snapshot_identity snap = cc_snapshot_id commit \<and> checkpointed t c reason label snap e s'))
    (step_failed t js s b) s"
  unfolding checkpoint_allocated_def
proof (rule after_seq [OF after_mono [OF emit_spec [where b = b, OF s b]]], assumption, assumption, goal_cases)
  case (1 x s')
  then show ?case using s b by (auto simp: clocked_track queued_track)
next
  case (2 n s1)
  then obtain start where start: "emitted t (CheckpointStarted c reason) s start s1" and tr1: "track t js s b s1"
    and h1: "history t s1 = history t s @ [start]" by blast
  have pay: "ev_payload start = CheckpointStarted c reason" using start by (auto simp: emitted_def queued_def stamped_def)
  have ok1: "recorder_ok t js s1" and step1: "b \<Longrightarrow> in_step t s1" using tr1 by (simp_all add: track_def)
  show ?case
  proof (rule after_seq [OF after_mono [OF flush_events_spec [where b = b, OF ok1 step1]]], assumption, assumption, goal_cases)
    case (1 x s')
    then show ?case using tr1 by blast
  next
    case (2 _ s2)
    then have tr2: "track t js s b s2" and h2: "history t s2 = history t s @ [start]" and p2: "rc_pending s2 = []"
      using track_trans [OF tr1] h1 by auto
    show ?case
    proof (rule after_seq [OF after_mono [OF clocked_timestamp]], assumption, goal_cases)
      case (1 x s')
      then show ?case using track_trans [OF tr2] clocked_track [of s2 s' t js b] tr2 by (auto simp: track_def)
    next
      case (2 created s3)
      then have tr3: "track t js s b s3" using track_trans [OF tr2] clocked_track [of s2 s3 t js b] tr2 by (auto simp: track_def)
      have h3: "history t s3 = history t s @ [start]" and p3: "rc_pending s3 = []" using 2 h2 p2 by (auto simp: clocked_def history_def)
      have ok3: "recorder_ok t js s3" and step3: "b \<Longrightarrow> in_step t s3" using tr3 by (simp_all add: track_def)
      show ?case
        unfolding after_and_do [of "outcome _"] after_outcome
      proof (rule after_mono [OF scan_now_spec [where b = b, OF ok3 step3]], assumption, goal_cases)
        case (1 report s4)
        then have tr34: "track t js s3 b s4" and h4: "history t s4 = history t s @ [start]" and p4: "rc_pending s4 = []"
          and rep: "snapshot_typed (srp_snapshot report)"
            "list_all (entry_indexed (rc_store s4)) (manifest_entries (snapshot_content (srp_snapshot report)))"
          using h3 p3 by auto
        have tr4: "track t js s b s4" by (rule track_trans [OF tr3 tr34])
        have ok4: "recorder_ok t js s4" and step4: "b \<Longrightarrow> in_step t s4" using tr4 by (simp_all add: track_def)
        show ?case
          unfolding sum.case
        proof (rule after_mono [OF commit_scanned_spec [where b = b, OF ok4 step4 p4 c rep]], assumption, goal_cases)
          case (1 commit s')
          then obtain e where e: "history t s' = history t s4 @ [e]" "checkpointed t c reason label (srp_snapshot report) e s'" by blast
          have "history t s' = history t s @ [start, e]" using e h4 by simp
          then show ?case using 1 e(2) pay track_trans [OF tr4] by metis
        next
          case (2 x s')
          then show ?case by (rule step_failed_from [OF tr4])
        qed
      next
        case (2 x s4)
        then have tr4: "track t js s b s4" using track_trans [OF tr3] by blast
        have "after (and_do (and_do (emit_checkpoint_failed t c FailSnapshot
             ''Authoritative workspace scan failed; no checkpoint was committed.'') (\<lambda>_. flush_events t)) (\<lambda>_. stop (CaptureSnapshot x)))
           (\<lambda>_ _. False) (\<lambda>_. track t js s b) s4"
          by (rule track_stop [OF tr4]) (intro keeping)
        then have "after (and_do (emit_checkpoint_failed t c FailSnapshot
             ''Authoritative workspace scan failed; no checkpoint was committed.'') (\<lambda>_. and_do (flush_events t) (\<lambda>_. stop (CaptureSnapshot x))))
           (\<lambda>_ _. False) (\<lambda>_. track t js s b) s4" by (simp only: and_do_assoc)
        then show ?case unfolding sum.case by (rule after_mono) simp_all
      qed
    qed
  qed
qed

lemma host_id: "recorder_ok t js s \<Longrightarrow> checkpoint_id_ok (CheckpointId (ht_ids (rc_host s) n))"
  by (simp add: recorder_ok_def host_ok_def checkpoint_id_ok_def)

lemma take_checkpoint_spec:
  assumes s: "recorder_ok t js s" and b: "b \<Longrightarrow> in_step t s"
  shows "after (take_checkpoint t reason label)
    (\<lambda>commit s'. track t js s b s' \<and> rc_pending s' = []
       \<and> (\<exists>start e snap. history t s' = history t s @ [start, e] \<and> ev_payload start = CheckpointStarted (cc_id commit) reason
            \<and> snapshot_identity snap = cc_snapshot_id commit \<and> checkpointed t (cc_id commit) reason label snap e s'))
    (step_failed t js s b) s"
  unfolding take_checkpoint_def
proof (rule after_seq [OF after_mono [OF clocked_ask]], assumption, goal_cases)
  case (2 fresh s1)
  then have tr: "track t js s b s1" and same: "history t s1 = history t s" and c: "checkpoint_id_ok (CheckpointId fresh)"
    using clocked_track [of s s1 t js b] s b host_id [OF s] by (auto simp: clocked_def history_def)
  have ok: "recorder_ok t js s1" and step: "b \<Longrightarrow> in_step t s1" using tr by (simp_all add: track_def)
  show ?case
  proof (rule after_mono [OF checkpoint_allocated_spec [where b = b, OF ok step c]], assumption, goal_cases)
    case (1 commit s')
    then show ?case using track_trans [OF tr] same by auto
  next
    case (2 x s')
    then show ?case by (rule step_failed_from [OF tr])
  qed
qed simp

lemma manual_checkpoint_spec:
  assumes s: "recorder_ok t js s" and b: "b \<Longrightarrow> in_step t s"
  shows "after (manual_checkpoint t label)
    (\<lambda>c s'. track t js s b s' \<and> rc_pending s' = []
       \<and> (\<exists>marks start e snap. history t s' = history t s @ marks @ [start, e]
            \<and> map ev_payload marks = (case label of None \<Rightarrow> [] | Some l \<Rightarrow> [MarkerCreated c l])
            \<and> ev_payload start = CheckpointStarted c ReasonManual \<and> checkpointed t c ReasonManual label snap e s'))
    (step_failed t js s b) s"
proof (cases label)
  case None
  show ?thesis
    unfolding manual_checkpoint_def None option.case
  proof (rule after_seq [OF take_checkpoint_spec [where b = b, OF s b]], assumption, goal_cases)
    case (1 commit s1)
    then show ?case unfolding after_give by (auto intro!: exI [of _ "[]"])
  qed
next
  case (Some l)
  show ?thesis
    unfolding manual_checkpoint_def Some option.case
  proof (rule after_seq [OF after_mono [OF clocked_ask]], assumption, goal_cases)
    case (2 fresh s1)
    then have tr1: "track t js s b s1" and same: "history t s1 = history t s" and c: "checkpoint_id_ok (CheckpointId fresh)"
      using clocked_track [of s s1 t js b] s b host_id [OF s] by (auto simp: clocked_def history_def)
    have ok: "recorder_ok t js s1" and step: "b \<Longrightarrow> in_step t s1" using tr1 by (simp_all add: track_def)
    show ?case
    proof (rule after_seq [OF after_mono [OF emit_spec [where b = b, OF ok step]]], assumption, assumption, goal_cases)
      case (1 x s')
      then have "track t js s1 b s'" using ok step by (auto simp: clocked_track queued_track)
      then show ?case using track_trans [OF tr1] by blast
    next
      case (2 n s2)
      then obtain m where m: "emitted t (MarkerCreated (CheckpointId fresh) l) s1 m s2" "history t s2 = history t s @ [m]"
        and tr12: "track t js s1 b s2" using same by auto
      have tr2: "track t js s b s2" by (rule track_trans [OF tr1 tr12])
      have pay: "ev_payload m = MarkerCreated (CheckpointId fresh) l" using m(1) by (auto simp: emitted_def queued_def stamped_def)
      have ok2: "recorder_ok t js s2" and step2: "b \<Longrightarrow> in_step t s2" using tr2 by (simp_all add: track_def)
      show ?case
      proof (rule after_seq [OF after_mono [OF checkpoint_allocated_spec [where b = b, OF ok2 step2 c]]], assumption, assumption, goal_cases)
        case (1 x s')
        then show ?case by (rule step_failed_from [OF tr2])
      next
        case (2 commit s3)
        then obtain start e snap where e: "history t s3 = history t s2 @ [start, e]" "ev_payload start = CheckpointStarted (CheckpointId fresh) ReasonManual"
            "checkpointed t (CheckpointId fresh) ReasonManual (Some l) snap e s3" by blast
        have "history t s3 = history t s @ [m] @ [start, e]" using m(2) e(1) by simp
        moreover have "track t js s b s3" using 2 track_trans [OF tr2] by blast
        moreover have "map ev_payload [m] = [MarkerCreated (CheckpointId fresh) l]" using pay by simp
        ultimately show ?case unfolding after_give using 2 e(2,3) by metis
      qed
    qed
  qed simp
qed

subsection \<open>The end of a run\<close>

lemma finish_events_facts:
  assumes env: "env_ok env" and ok: "store_ok env st" and typed: "\<forall>e \<in> set es. event_typed e"
    and f: "finish_run_with_events env st run summary es = Inr st'"
  shows "timeline env (st_db st') run = timeline env (st_db st) run @ es" and "tb_objects (st_db st') = tb_objects (st_db st)"
    and "status_of (st_db st') (run_id_text (env_uuid env) run) = Some (run_status_as_str (rf_status summary))"
    and "is_terminal (rf_status summary)"
proof -
  have db: "db_ok env (st_db st)" and time: "timeline_ok env (st_db st)" using ok by (simp_all add: store_ok_iff db_ok_def)
  obtain d1 d where ne: "es \<noteq> []" and check: "check_terminal_event env run summary (last es) = Inr ()"
    and d1: "append_event_batch_in env (st_db st) es = Inr d1" and d: "finish_run_in env d1 run summary = Inr d"
    and st': "st' = st\<lparr>st_db := d\<rparr>"
    using f by (auto simp: finish_run_with_events_def and_then_Inr_iff map_ok_Inr_iff split: if_splits)
  have run: "ev_run (hd es) = run"
    using check append_batch_Inr(1) [OF d1 ne] last_in_set [OF ne] by (auto simp: check_terminal_event_def split: event_payload.splits)
  have "db_ok env d1" using append_step [OF env db typed d1] by blast
  then have schema: "schema_ok d1" by (simp add: db_ok_def)
  note f = finish_run_in_Inr [OF d schema]
  have same: "timeline env d run = timeline env d1 run" "tb_objects d = tb_objects d1"
    using f timeline_cong(2) [of d d1] by auto
  show "timeline env (st_db st') run = timeline env (st_db st) run @ es" "tb_objects (st_db st') = tb_objects (st_db st)"
    using append_batch_history [OF env ok typed ne d1] same by (simp_all add: st' run)
  show "status_of (st_db st') (run_id_text (env_uuid env) run) = Some (run_status_as_str (rf_status summary))" "is_terminal (rf_status summary)"
    using f by (simp_all add: st')
qed

definition closed_as :: "'j tools \<Rightarrow> 'j recorder \<Rightarrow> run_status \<Rightarrow> bool" where
  "closed_as t s status \<longleftrightarrow> is_terminal status
     \<and> status_of (st_db (rc_store s)) (run_id_text (env_uuid (tl_env t)) (rc_run s)) = Some (run_status_as_str status)"

lemma commit_finish_spec:
  assumes s: "recorder_ok t js s" and b: "b \<Longrightarrow> in_step t s"
  shows "after (commit_finish t summary)
    (\<lambda>_ s'. track t js s b s' \<and> history t s' = history t s \<and> rc_pending s' = [] \<and> closed_as t s' (rf_status summary))
    (\<lambda>x s'. s' = s \<and> is_store_failure x) s"
proof (cases "finish_run_with_events (tl_env t) (rc_store s) (rc_run s) summary (rc_pending s)")
  case (Inr st)
  have typed: "\<forall>e \<in> set (rc_pending s). event_typed e"
    using s own_events [of "rc_run s" "rc_pending s"] by (simp add: recorder_ok_def)
  have env: "env_ok (tl_env t)" using s by (simp add: recorder_ok_def)
  note facts = finish_events_facts [OF env recorder_store_ok [OF s] typed Inr]
  let ?s = "s\<lparr>rc_store := st, rc_pending := []\<rparr>"
  have h: "history t ?s = history t s" by (simp add: history_def facts)
  have "track t js s b ?s"
    using b store_step.finish_events [OF Inr typed]
    by (intro store_change [OF s]) (simp_all add: h in_step_def r_into_rtranclp sizes_kept_objects facts)
  then show ?thesis using Inr h facts(3,4) by (simp add: commit_finish_def closed_as_def)
qed (simp add: commit_finish_def is_store_failure_def)

lemma finish_recording_spec:
  assumes s: "recorder_ok t js s" and b: "b \<Longrightarrow> in_step t s"
  shows "after (finish_recording t status exit final)
    (\<lambda>_ s'. track t js s b s' \<and> rc_pending s' = [] \<and> closed_as t s' status
       \<and> (\<exists>e. history t s' = history t s @ [e] \<and> ev_payload e = RunCompleted status (Some exit)))
    (\<lambda>_. track t js s b) s"
  unfolding finish_recording_def
proof (rule after_seq [OF after_mono [OF queue_event_spec]], assumption, goal_cases)
  case (1 x s')
  then show ?case using clocked_track [of s s' t js b] s b by blast
next
  case (2 n s1)
  then obtain e where q: "queued t (RunCompleted status (Some exit)) s e s1" by blast
  have pay: "ev_payload e = RunCompleted status (Some exit)" using q by (auto simp: queued_def stamped_def)
  have tr1: "track t js s b s1" by (rule queued_track [OF q s b])
  show ?case
  proof (rule after_seq [OF after_mono [OF clocked_now]], assumption, goal_cases)
    case (1 x s')
    then have "track t js s1 b s'" using clocked_track [of s1 s' t js b] tr1 by (auto simp: track_def)
    then show ?case by (rule track_trans [OF tr1])
  next
    case (2 time s2)
    obtain wall offset where time: "time = (wall, offset)" by force
    have tr12: "track t js s1 b s2" and h2: "history t s2 = history t s @ [e]"
      using 2 clocked_track [of s1 s2 t js b] tr1 queued_history [OF q] by (auto simp: track_def clocked_def history_def)
    have tr2: "track t js s b s2" by (rule track_trans [OF tr1 tr12])
    have ok: "recorder_ok t js s2" and step: "b \<Longrightarrow> in_step t s2" using tr2 by (simp_all add: track_def)
    show ?case
      unfolding time prod.case
      by (rule after_mono [OF commit_finish_spec [where b = b, OF ok step]]) (use track_trans [OF tr2] tr2 h2 pay in auto)
  qed
qed

subsection \<open>Invariants of a whole recording\<close>

locale recording_invariant = recorder_invariant t I for t :: "'j tools" and I :: "'j recorder \<Rightarrow> bool" +
  fixes lost :: "capture_error \<Rightarrow> bool"
  assumes take: "preserves I lost (take_checkpoint t reason label)"
    and manual: "preserves I lost (manual_checkpoint t label)"
    and finish: "preserves I (\<lambda>_. False) (commit_finish t summary)"
begin

lemma keeps_checkpoint [keeping]: "preserves I lost (take_checkpoint t reason label)" "preserves I lost (manual_checkpoint t label)"
  by (rule take) (rule manual)

lemma keeps_commit_finish [keeping]: "preserves I F (commit_finish t summary)"
  by (rule preserves_weaken [OF finish]) simp

lemma keeps_finish [keeping]: "preserves I F (finish_recording t status exit final)"
  unfolding finish_recording_def by (intro keeping) simp

lemma keeps_end [keeping]:
  "preserves I F (finish_failed t snap)"
  "preserves I F (finish_preparation_failure t message)"
  unfolding finish_failed_def finish_preparation_failure_def by (intro keeping; simp)+

lemma keeps_last_checkpoint:
  assumes "\<And>e. \<not> lost e"
  shows "preserves I F (finish_running_without_child t initial message)"
proof -
  have "preserves I (\<lambda>_. False) (take_checkpoint t reason label)" for reason label
    by (rule preserves_weaken [OF take]) (simp add: assms)
  then show ?thesis unfolding finish_running_without_child_def by (intro keeping) simp_all
qed

end

interpretation tracked: recording_invariant t "track t js s0 False" "\<lambda>_. False" for t js s0
proof
  show "preserves (track t js s0 False) (\<lambda>_. False) (take_checkpoint t reason label)" for reason label
    by (rule track_preserves) (rule after_mono [OF take_checkpoint_spec [where b = False]], auto)
  show "preserves (track t js s0 False) (\<lambda>_. False) (manual_checkpoint t label)" for label
    by (rule track_preserves) (rule after_mono [OF manual_checkpoint_spec [where b = False]], auto)
  show "preserves (track t js s0 False) (\<lambda>_. False) (commit_finish t summary)" for summary
    by (rule track_preserves) (rule after_mono [OF commit_finish_spec [where b = False]], auto simp: track_start)
qed

end
