(* ===== verification/Recorder_Blocked.thy ===== *)
theory Recorder_Blocked
  imports Recorder_Effects
begin

section \<open>A recorder that has lost a number\<close>

text \<open>
  The sequence number of a checkpoint is taken before the checkpoint is committed.  When the
  store refuses the commit the number is gone: the store accepts only the successor of the last
  recorded event, so from then on it refuses every batch, every checkpoint and the end of the
  run.  \<open>blocked\<close> describes these states; all operations of the recorder stay in it.
\<close>

definition run_record :: "'j tools \<Rightarrow> 'j recorder \<Rightarrow> event list \<times> string option" where
  \<comment> \<open>what the store says of the run\<close>
  "run_record t s = (timeline (tl_env t) (st_db (rc_store s)) (rc_run s),
     status_of (st_db (rc_store s)) (run_id_text (env_uuid (tl_env t)) (rc_run s)))"

definition out_of_step :: "'j tools \<Rightarrow> 'j recorder \<Rightarrow> bool" where
  \<comment> \<open>the number the store expects will not be given out any more\<close>
  "out_of_step t s \<longleftrightarrow> (let expected = Suc (length (fst (run_record t s))) in
     list_all (\<lambda>e. expected < unat (sequence_get (ev_sequence e))) (rc_pending s)
     \<and> expected < unat (sequence_get (sq_next (rc_sequencer s))))"

definition blocked :: "'j tools \<Rightarrow> 'j json_lib \<Rightarrow> 'j recorder \<Rightarrow> 'j recorder \<Rightarrow> bool" where
  "blocked t js s0 s \<longleftrightarrow> track t js s0 False s \<and> out_of_step t s \<and> run_record t s = run_record t s0"

lemma accepted_batch_number:
  assumes ok: "store_ok env st" and a: "append_event_batch_in env (st_db st) es = Inr db" and ne: "es \<noteq> []"
  shows "unat (sequence_get (ev_sequence (hd es))) = Suc (length (timeline env (st_db st) (ev_run (hd es))))"
proof -
  have t: "timeline_ok env (st_db st)" using ok by (simp add: store_ok_def)
  show ?thesis
    using append_batch_Inr(4) [OF a ne] expected_sequence_timeline [OF t] list_all2_lengthD [OF timeline_rows [OF t]] by metis
qed

lemma blocked_batch:
  assumes s: "recorder_ok t js s" and out: "out_of_step t s" and pending: "rc_pending s \<noteq> []"
  shows "append_event_batch_in (tl_env t) (st_db (rc_store s)) (rc_pending s) \<noteq> Inr db"
proof
  assume a: "append_event_batch_in (tl_env t) (st_db (rc_store s)) (rc_pending s) = Inr db"
  have "ev_run (hd (rc_pending s)) = rc_run s"
    using s own_events [of "rc_run s" "rc_pending s"] pending by (simp add: recorder_ok_def)
  then show False
    using accepted_batch_number [OF recorder_store_ok [OF s] a pending] out hd_in_set [OF pending]
    by (auto simp: out_of_step_def run_record_def list_all_iff)
qed

lemma blocked_track: "blocked t js s0 s \<Longrightarrow> recorder_ok t js s"
  by (simp add: blocked_def track_def)

lemma blocked_step:
  \<comment> \<open>nothing new is recorded, and numbers only grow\<close>
  assumes "blocked t js s0 s" and "track t js s False s'" and "run_record t s' = run_record t s"
    and "list_all (\<lambda>e. e \<in> set (rc_pending s)
       \<or> unat (sequence_get (sq_next (rc_sequencer s))) \<le> unat (sequence_get (ev_sequence e))) (rc_pending s')"
    and "unat (sequence_get (sq_next (rc_sequencer s))) \<le> unat (sequence_get (sq_next (rc_sequencer s')))"
  shows "blocked t js s0 s'"
  using assms track_trans by (fastforce simp: blocked_def out_of_step_def list_all_iff Let_def)

lemma refl_pending: "list_all (\<lambda>e. e \<in> set es \<or> P e) es"
  by (simp add: list_all_iff)

lemma blocked_flush: "blocked t js s0 s \<Longrightarrow> rc_pending s \<noteq> [] \<Longrightarrow> \<exists>x. flush_events t s = (Inl (CaptureStore x), s)"
  using blocked_batch [of t js s] blocked_track [of t js s0 s]
  by (auto simp: blocked_def flush_events_def append_event_batch_def and_do_def inspect_def on_store_def
      and_then_def map_ok_def require_writer_def ensure_def split: sum.splits if_splits)

lemma stamped_next: "stamped d p s e s' \<Longrightarrow> unat (sequence_get (sq_next (rc_sequencer s'))) = Suc (unat (sequence_get (sq_next (rc_sequencer s))))"
  using checked_next_Some(2) by (auto simp: stamped_def)

lemma blocked_queued:
  assumes b: "blocked t js s0 s" and q: "queued t payload s e s'"
  shows "blocked t js s0 s'"
proof -
  have ok: "recorder_ok t js s" using b by (rule blocked_track)
  obtain s1 where s1: "stamped (tl_shown t) payload s e s1" "s' = s1\<lparr>rc_pending := rc_pending s1 @ [e]\<rparr>"
    using q by (auto simp: queued_def)
  show ?thesis
  proof (rule blocked_step [OF b])
    show "track t js s False s'" by (rule queued_track [OF q ok]) simp
    show "run_record t s' = run_record t s" using s1 by (auto simp: stamped_def run_record_def)
    show "list_all (\<lambda>e. e \<in> set (rc_pending s) \<or> unat (sequence_get (sq_next (rc_sequencer s))) \<le> unat (sequence_get (ev_sequence e))) (rc_pending s')"
      using s1 by (auto simp: stamped_def list_all_iff)
    show "unat (sequence_get (sq_next (rc_sequencer s))) \<le> unat (sequence_get (sq_next (rc_sequencer s')))"
      using stamped_next [OF s1(1)] s1(2) by simp
  qed
qed

lemma blocked_clocked: "clocked s s' \<Longrightarrow> blocked t js s0 s \<Longrightarrow> blocked t js s0 s'"
  by (rule blocked_step [where s = s])
    (auto simp: clocked_def run_record_def list_all_iff dest: blocked_track intro!: clocked_track [where s = s] clockedI)

lemma blocked_fields:
  "run_record t (s\<lparr>rc_excluded := X\<rparr>) = run_record t s" "run_record t (s\<lparr>rc_world := w\<rparr>) = run_record t s"
  "run_record t (s\<lparr>rc_checkpoint_count := n\<rparr>) = run_record t s"
  "out_of_step t (s\<lparr>rc_excluded := X\<rparr>) = out_of_step t s" "out_of_step t (s\<lparr>rc_world := w\<rparr>) = out_of_step t s"
  "out_of_step t (s\<lparr>rc_checkpoint_count := n\<rparr>) = out_of_step t s"
  by (simp_all add: out_of_step_def run_record_def)

interpretation lost: recorder_invariant t "blocked t js s0" for t js s0
proof
  show "preserves (blocked t js s0) (\<lambda>_. False) (flush_events t)"
  proof (rule preservesI)
    fix s assume b: "blocked t js s0 s"
    show "after (flush_events t) (\<lambda>_. blocked t js s0) (\<lambda>e s'. False \<or> blocked t js s0 s') s"
    proof (cases "rc_pending s = []")
      case False
      then show ?thesis using blocked_flush [OF b] b by (auto simp: after_def)
    qed (use b in \<open>simp add: flush_events_def\<close>)
  qed
  show "preserves (blocked t js s0) (\<lambda>_. False) (queue_event t payload)" for payload
    by (rule preservesI) (rule after_mono [OF queue_event_spec], auto dest: blocked_queued blocked_clocked)
  show "blocked t js s0 s \<Longrightarrow> blocked t js s0 (s\<lparr>rc_excluded := X\<rparr>)" "blocked t js s0 s \<Longrightarrow> blocked t js s0 (s\<lparr>rc_world := w\<rparr>)"
    "blocked t js s0 s \<Longrightarrow> blocked t js s0 (s\<lparr>rc_checkpoint_count := n\<rparr>)" for s X w n
    unfolding blocked_def blocked_fields by (simp_all add: track_fields)
qed (rule blocked_clocked)

subsection \<open>Checkpoints and the end of the run\<close>

lemma blocked_emit:
  assumes b: "blocked t js s0 s"
  shows "after (emit t payload) (\<lambda>_ s'. blocked t js s0 s' \<and> rc_pending s' \<noteq> []) (\<lambda>_. blocked t js s0) s"
  unfolding emit_def after_and_do
proof (rule after_mono [OF queue_event_spec], goal_cases)
  case (1 n s1)
  then obtain e where q: "queued t payload s e s1" by blast
  have b1: "blocked t js s0 s1" and p: "rc_pending s1 \<noteq> []" using blocked_queued [OF b q] q by (auto simp: queued_def)
  have "after (flush_events t) Q (\<lambda>_. blocked t js s0) s1" for Q using blocked_flush [OF b1 p] b1 by (auto simp: after_def)
  then show ?case using b1 p by simp
next
  case (2 x s')
  then show ?case using b blocked_clocked by blast
qed

lemma blocked_checkpoint:
  assumes b: "blocked t js s0 s"
  shows "after (checkpoint_allocated t c reason label) (\<lambda>_ _. False) (\<lambda>_. blocked t js s0) s"
  unfolding checkpoint_allocated_def
proof (rule after_seq [OF blocked_emit [OF b]], goal_cases)
  case (1 n s1)
  then have b1: "blocked t js s0 s1" and p: "rc_pending s1 \<noteq> []" by simp_all
  obtain x where "flush_events t s1 = (Inl (CaptureStore x), s1)" using blocked_flush [OF b1 p] by blast
  then show ?case using b1 by (simp add: after_def and_do_def)
qed

lemma blocked_take:
  assumes b: "blocked t js s0 s"
  shows "after (take_checkpoint t reason label) (\<lambda>_ _. False) (\<lambda>_. blocked t js s0) s"
  unfolding take_checkpoint_def
proof (rule after_seq [OF after_mono [OF clocked_ask]], assumption, goal_cases)
  case (2 fresh s1)
  then have "blocked t js s0 s1" using b blocked_clocked by blast
  then show ?case by (rule blocked_checkpoint)
qed simp

lemma blocked_manual:
  assumes b: "blocked t js s0 s"
  shows "after (manual_checkpoint t label) (\<lambda>_ _. False) (\<lambda>_. blocked t js s0) s"
proof (cases label)
  case None
  show ?thesis unfolding manual_checkpoint_def None option.case
    by (rule after_seq [OF blocked_take [OF b]]) simp
next
  case (Some l)
  show ?thesis unfolding manual_checkpoint_def Some option.case
  proof (rule after_seq [OF after_mono [OF clocked_ask]], assumption, goal_cases)
    case (2 fresh s1)
    then have b1: "blocked t js s0 s1" using b blocked_clocked by blast
    show ?case
    proof (rule after_seq [OF after_mono [OF blocked_emit [OF b1]]], assumption, assumption, goal_cases)
      case (1 n s2)
      then show ?case by (intro after_seq [OF blocked_checkpoint]) auto
    qed
  qed simp
qed

lemma blocked_commit_finish:
  assumes b: "blocked t js s0 s"
  shows "after (commit_finish t summary) (\<lambda>_ _. False) (\<lambda>_. blocked t js s0) s"
proof -
  have "finish_run_with_events (tl_env t) (rc_store s) (rc_run s) summary (rc_pending s) \<noteq> Inr st" for st
    using blocked_batch [OF blocked_track [OF b]] b
    by (auto simp: finish_run_with_events_def and_then_Inr_iff map_ok_Inr_iff blocked_def split: if_splits)
  then obtain x where "finish_run_with_events (tl_env t) (rc_store s) (rc_run s) summary (rc_pending s) = Inl x"
    by (cases "finish_run_with_events (tl_env t) (rc_store s) (rc_run s) summary (rc_pending s)") auto
  then show ?thesis using b by (simp add: commit_finish_def)
qed

lemma blocked_finish:
  assumes b: "blocked t js s0 s"
  shows "after (finish_recording t status exit final) (\<lambda>_ _. False) (\<lambda>_. blocked t js s0) s"
  unfolding finish_recording_def
proof (rule after_seq [OF after_mono [OF queue_event_spec]], assumption, goal_cases)
  case (1 x s')
  then show ?case using b blocked_clocked by blast
next
  case (2 n s1)
  then have b1: "blocked t js s0 s1" using b blocked_queued by blast
  show ?case
  proof (rule after_seq [OF after_mono [OF clocked_now]], assumption, goal_cases)
    case (1 x s')
    then show ?case using b1 blocked_clocked by blast
  next
    case (2 time s2)
    then have "blocked t js s0 s2" using b1 blocked_clocked by blast
    then show ?case by (cases time) (simp add: blocked_commit_finish)
  qed
qed

interpretation lost: recording_invariant t "blocked t js s0" "\<lambda>_. False" for t js s0
  by unfold_locales
    (auto intro!: preservesI after_mono [OF blocked_take] after_mono [OF blocked_manual] after_mono [OF blocked_commit_finish])

subsection \<open>How a number is lost\<close>

lemma in_step_length:
  assumes s: "recorder_ok t js s" and step: "in_step t s"
  shows "unat (sequence_get (sq_next (rc_sequencer s))) = Suc (length (history t s))"
proof -
  have "length (numbers (history t s)) = length [1..<unat (sequence_get (sq_next (rc_sequencer s)))]"
    using step by (simp add: in_step_def)
  then have "Suc (length (history t s)) = unat (sequence_get (sq_next (rc_sequencer s)))"
    using s by (simp add: numbers_def recorder_ok_def event_sequence_ok_def unat_gt_0)
  then show ?thesis by simp
qed

lemma refused_commit_blocks:
  assumes s: "recorder_ok t js s" and step: "in_step t s" and pending: "rc_pending s = []"
    and st: "stamped d payload s e s1"
  shows "blocked t js s1 s1"
proof -
  have "Suc (length (history t s)) = unat (sequence_get (sq_next (rc_sequencer s)))"
    using in_step_length [OF s step] by simp
  moreover have "history t s1 = fst (run_record t s1)" "history t s1 = history t s" "rc_pending s1 = []"
    using pending st by (auto simp: history_def run_record_def stamped_def)
  ultimately have "out_of_step t s1" using stamped_next [OF st] by (simp add: out_of_step_def)
  moreover have "recorder_ok t js s1" using stamped_track [OF st s] by (simp add: track_def)
  ultimately show ?thesis by (simp add: blocked_def track_def)
qed

end
