(* ===== verification/Recorder_Theorems.thy ===== *)
theory Recorder_Theorems
  imports Recorder_Blocked Store_Theorems
begin

section \<open>Properties of the recorder\<close>

text \<open>
  The recorder's contract, each with a recorder of the example session of \<open>Store_Examples\<close> in
  which the hypotheses hold.
\<close>

definition ex_host :: host where
  "ex_host = \<lparr>ht_calls = 0, ht_wall = (\<lambda>n. 1000 + int n), ht_elapsed = (\<lambda>n. 5 + n),
     ht_ids = (\<lambda>n. if n = 2 then 0x70000000000000000011 else 0x70000000000000000010)\<rparr>"

definition ex_tools :: "event_payload tools" where
  "ex_tools = \<lparr>tl_env = ex_env, tl_lower = (\<lambda>c. c),
     tl_shown = \<lparr>dp_capture = (\<lambda>_. ''e''), dp_io = (\<lambda>_. ''e''), dp_event = (\<lambda>_. ''e''), dp_payload = (\<lambda>_. ''e''),
       dp_path = (\<lambda>_. ''e''), dp_pty = (\<lambda>_. ''e'')\<rparr>\<rparr>"

definition ex_world :: world where
  "ex_world = \<lparr>w_tree = DirNode \<lparr>at_ino = 1, at_mode = 448, at_modified = 0, at_changed = 0\<rparr> [],
     w_calls = 0, w_faults = (\<lambda>_. None), w_next_ino = 4, w_privileged = False, w_link_mode = 511\<rparr>"

definition ex_recorder :: "event_payload recorder" where
  "ex_recorder = recorder_new ex_store1 ex_world ex_host ex_run_id ex_stream_id [''w''] default_capture_options"

lemma ex_tools_simps [simp]: "tl_env ex_tools = ex_env"
  by (simp add: ex_tools_def)

lemma ex_recorder_simps [simp]: "rc_store ex_recorder = ex_store1" "rc_run ex_recorder = ex_run_id" "rc_pending ex_recorder = []"
  "rc_sequencer ex_recorder = sequencer_new ex_run_id" "rc_host ex_recorder = ex_host"
  "rc_options ex_recorder = default_capture_options" "rc_accounted ex_recorder = {}" "rc_logical_bytes ex_recorder = 0"
  "rc_excluded ex_recorder = {}" "rc_checkpoint_count ex_recorder = 0"
  by (simp_all add: ex_recorder_def recorder_new_def)

lemma ex_history: "history ex_tools ex_recorder = []"
  by (simp add: history_def timeline_def run_events_def ex_store1_def empty_db_def)

lemma ex_recorder_ok: "recorder_ok ex_tools ex_js ex_recorder" "in_step ex_tools ex_recorder"
proof -
  have "reachable_store ex_env ex_js ex_store1" using ex_reachable(1) ex_js_ok by (simp add: reachable_store_def)
  moreover have "host_ok ex_host" by (simp add: host_ok_def ex_host_def record_uuid_ok_def uuid_version_num_def)
  moreover have "budget_ok ex_recorder" by (simp add: budget_ok_def default_capture_options_def)
  ultimately show "recorder_ok ex_tools ex_js ex_recorder"
    using ex_env_ok ex_ids_ok(1) by (simp add: recorder_ok_def sequencer_new_def event_sequence_first_def event_sequence_ok_def)
  show "in_step ex_tools ex_recorder"
    by (simp add: in_step_def numbers_def ex_history sequencer_new_def event_sequence_first_def)
qed

lemma queued_numbers:
  "queued t payload s e s' \<Longrightarrow> recorder_ok t js s \<Longrightarrow> ev_run e = rc_run s \<and> ev_sequence e = sq_next (rc_sequencer s)
     \<and> ev_payload e = payload \<and> sq_last_offset (rc_sequencer s) \<le> ev_offset e"
  by (auto simp: queued_def stamped_def own_event_def)

text \<open>C14: recording an event appends exactly that event to the history, with the next number in sequence and an offset
  that does not decrease, and never holds back a full batch; when it fails, the history is as it was, or has
  gained the event and the store could not be written.\<close>
theorem emit_records_one_event:
  assumes "recorder_ok t js s" and "in_step t s"
  shows "case emit t payload s of
     (Inr n, s') \<Rightarrow> recorder_ok t js s' \<and> in_step t s' \<and> unat (sequence_get n) = Suc (length (history t s))
       \<and> (\<exists>e. history t s' = history t s @ [e] \<and> ev_payload e = payload \<and> ev_sequence e = n \<and> ev_run e = rc_run s
            \<and> sq_last_offset (rc_sequencer s) \<le> ev_offset e)
       \<and> (rc_pending s' = [] \<or> length (rc_pending s') < co_event_batch_size (rc_options s'))
   | (Inl x, s') \<Rightarrow> recorder_ok t js s' \<and> in_step t s'
       \<and> (history t s' = history t s \<and> \<not> is_store_failure x
          \<or> is_store_failure x \<and> (\<exists>e. history t s' = history t s @ [e] \<and> ev_payload e = payload))"
proof -
  have "after (emit t payload)
    (\<lambda>n s'. recorder_ok t js s' \<and> in_step t s' \<and> unat (sequence_get n) = Suc (length (history t s))
       \<and> (\<exists>e. history t s' = history t s @ [e] \<and> ev_payload e = payload \<and> ev_sequence e = n \<and> ev_run e = rc_run s
            \<and> sq_last_offset (rc_sequencer s) \<le> ev_offset e)
       \<and> (rc_pending s' = [] \<or> length (rc_pending s') < co_event_batch_size (rc_options s')))
    (\<lambda>x s'. recorder_ok t js s' \<and> in_step t s'
       \<and> (history t s' = history t s \<and> \<not> is_store_failure x
          \<or> is_store_failure x \<and> (\<exists>e. history t s' = history t s @ [e] \<and> ev_payload e = payload))) s"
  proof (rule after_mono [OF emit_spec [where b = True, OF assms]], goal_cases)
    case (1 n s')
    then obtain e where em: "emitted t payload s e s'" and e': "n = ev_sequence e" "history t s' = history t s @ [e]"
      and tr: "track t js s True s'" by blast
    from em obtain s1 where e: "queued t payload s e s1"
      and "if co_event_batch_size (rc_options s) \<le> length (rc_pending s1)
           then (\<exists>st. s' = s1\<lparr>rc_store := st, rc_pending := []\<rparr>) else s' = s1" by (auto simp: emitted_def)
    then have full: "rc_pending s' = [] \<or> s' = s1 \<and> length (rc_pending s1) < co_event_batch_size (rc_options s)"
      by (auto split: if_splits)
    note facts = queued_numbers [OF e assms(1)]
    show ?case
      using tr e' facts full in_step_length [OF assms] queued_options [OF e]
      by (auto simp: track_def)
  next
    case (2 x s')
    then show ?case
    proof
      assume c: "clocked s s' \<and> \<not> is_store_failure x"
      then have "track t js s True s'" "history t s' = history t s"
        using clocked_track [of s s' t js True] assms by (auto simp: clocked_def history_def)
      then show ?thesis using c by (simp add: track_def)
    next
      assume "(\<exists>e. queued t payload s e s') \<and> is_store_failure x"
      then obtain e where q: "queued t payload s e s'" "is_store_failure x" by blast
      show ?thesis
        using queued_track [OF q(1) assms(1), of True] queued_history [OF q(1)] queued_numbers [OF q(1) assms(1)] assms(2) q(2)
        by (auto simp: track_def)
    qed
  qed
  then show ?thesis by (simp add: after_def split: prod.splits sum.splits)
qed

theorem emit_records_one_event_witness:
  "\<exists>n s'. emit ex_tools (MarkerCreated ex_checkpoint_id ''m'') ex_recorder = (Inr n, s')
     \<and> (\<exists>e. history ex_tools s' = [e] \<and> ev_payload e = MarkerCreated ex_checkpoint_id ''m'' \<and> ev_sequence e = n)"
proof -
  have "fst (emit ex_tools (MarkerCreated ex_checkpoint_id ''m'') ex_recorder) = Inr (EventSequence 1)"
    by (simp add: emit_def queue_event_def sequencer_next_def sequencer_now_def next_at_def and_do_def on_host_def at_part_def ask_def
        timestamp_now_def give_def inspect_def lift_def change_def Let_def ex_host_def event_new_def sequencer_new_def
        event_sequence_first_def checked_next_def checked_add_def event_sequence_new_def default_capture_options_def
        event_validate_def is_str_def i64_range_def MAX_EVENT_TEXT_BYTES_def)
  then show ?thesis
    using emit_records_one_event [OF ex_recorder_ok, of "MarkerCreated ex_checkpoint_id ''m''"] ex_history
    by (auto split: prod.splits sum.splits)
qed

text \<open>C15: a checkpoint that succeeds appends its start and its commit to the history, both recorded when it returns, and
  the checkpoint and the snapshot it names load from the store; one that fails still keeps a sound recorder and
  every event recorded before, and only a store failure may disturb the numbering.\<close>
theorem checkpoint_is_committed:
  assumes "recorder_ok t js s" and "in_step t s"
  shows "case take_checkpoint t reason label s of
     (Inr c, s') \<Rightarrow> recorder_ok t js s' \<and> in_step t s' \<and> rc_pending s' = []
       \<and> (\<exists>start e snap. timeline (tl_env t) (st_db (rc_store s')) (rc_run s') = history t s @ [start, e]
            \<and> ev_payload start = CheckpointStarted (cc_id c) reason \<and> ev_payload e = CheckpointCommitted (cc_id c) (cc_snapshot_id c)
            \<and> load_snapshot (tl_env t) (rc_store s') (cc_snapshot_id c) = Inr snap
            \<and> load_checkpoint (tl_env t) (st_db (rc_store s')) (cc_id c) = Inr (checkpoint_of (cc_id c) reason label (rc_run s') snap e))
   | (Inl x, s') \<Rightarrow> recorder_ok t js s' \<and> prefix (history t s) (history t s') \<and> (in_step t s' \<or> is_store_failure x)"
proof -
  have "after (take_checkpoint t reason label)
    (\<lambda>c s'. recorder_ok t js s' \<and> in_step t s' \<and> rc_pending s' = []
       \<and> (\<exists>start e snap. timeline (tl_env t) (st_db (rc_store s')) (rc_run s') = history t s @ [start, e]
            \<and> ev_payload start = CheckpointStarted (cc_id c) reason \<and> ev_payload e = CheckpointCommitted (cc_id c) (cc_snapshot_id c)
            \<and> load_snapshot (tl_env t) (rc_store s') (cc_snapshot_id c) = Inr snap
            \<and> load_checkpoint (tl_env t) (st_db (rc_store s')) (cc_id c) = Inr (checkpoint_of (cc_id c) reason label (rc_run s') snap e)))
    (\<lambda>x s'. recorder_ok t js s' \<and> prefix (history t s) (history t s') \<and> (in_step t s' \<or> is_store_failure x)) s"
  proof (rule after_mono [OF take_checkpoint_spec [where b = True, OF assms]], goal_cases)
    case (1 c s')
    then obtain start e snap where e: "history t s' = history t s @ [start, e]" "ev_payload start = CheckpointStarted (cc_id c) reason"
        "snapshot_identity snap = cc_snapshot_id c" "checkpointed t (cc_id c) reason label snap e s'" by blast
    have "timeline (tl_env t) (st_db (rc_store s')) (rc_run s') = history t s @ [start, e]"
      using e(1) 1 by (simp add: history_def)
    then show ?case using 1 e by (auto simp: track_def checkpointed_def)
  qed (auto simp: track_def later_def)
  then show ?thesis by (simp add: after_def split: prod.splits sum.splits)
qed

theorem checkpoint_is_committed_witness:
  "recorder_ok ex_tools ex_js (snd (take_checkpoint ex_tools ReasonInitial None ex_recorder))"
  using checkpoint_is_committed [OF ex_recorder_ok, of ReasonInitial None] by (simp split: prod.splits sum.splits)



subsection \<open>A refused commit\<close>

definition held :: "('j, 'a) recording \<Rightarrow> bool" where
  \<comment> \<open>the store refuses only what is kept for later\<close>
  "held m \<longleftrightarrow> (\<forall>s. after m (\<lambda>_ _. True) (\<lambda>x s'. (\<exists>y. x = CaptureStore y) \<longrightarrow> rc_pending s' \<noteq> []) s)"

lemma heldD: "held m \<Longrightarrow> after m (\<lambda>_ _. True) (\<lambda>x s'. (\<exists>y. x = CaptureStore y) \<longrightarrow> rc_pending s' \<noteq> []) s"
  by (simp add: held_def)

lemma held_do: "held m \<Longrightarrow> (\<And>x. held (f x)) \<Longrightarrow> held (and_do m f)"
  unfolding held_def by (intro allI after_seq [where R = "\<lambda>_ _. True"]) (auto elim: after_mono)

lemma held_simple: "held (give x)" "held (inspect g)"
  by (simp_all add: held_def)

lemma held_flush: "held (flush_events t)"
  unfolding held_def by (auto simp: flush_events_def split: sum.split)

lemma held_emit: "held (emit t payload)"
proof -
  have "held (queue_event t payload)"
    unfolding held_def by (intro allI) (rule after_mono [OF queue_event_spec], auto simp: is_store_failure_def)
  then show ?thesis unfolding emit_def by (intro held_do) (simp_all add: held_simple held_flush)
qed

lemma held_budget:
  assumes "held m"
  shows "held (within_budget t candidates m)"
proof -
  have "held (warn_run_storage_limit t)"
    unfolding warn_run_storage_limit_def warning_def by (intro held_do held_simple held_emit)
  moreover have "held (stop (RunStorageLimit n))" for n by (simp add: held_def)
  moreover have "x = RunStorageLimit (co_max_run_bytes (rc_options s))" if "projected_object_bytes s candidates = Inl x" for x and s :: "'a recorder"
    using that by (auto simp: projected_object_bytes_def Let_def and_then_def ok_or_def split: option.splits if_splits)
  ultimately have "after (case projected_object_bytes s candidates of Inr p \<Rightarrow> give p
      | Inl x \<Rightarrow> and_do (warn_run_storage_limit t) (\<lambda>_. and_do m (\<lambda>_. and_do (flush_events t) (\<lambda>_. stop x))))
      (\<lambda>_ _. True) (\<lambda>x s'. (\<exists>y. x = CaptureStore y) \<longrightarrow> rc_pending s' \<noteq> []) s" for s
    using assms held_flush [of t] held_simple(1)
    by (cases "projected_object_bytes s candidates") (auto intro!: heldD held_do simp del: after_and_do)
  then show ?thesis unfolding held_def within_budget_def by (intro allI) (subst after_and_do, subst after_inspect)
qed

lemma refused_commit:
  assumes s: "recorder_ok t js s" and step: "in_step t s" and p: "rc_pending s = []"
  shows "after (commit_scanned t c reason label report) (\<lambda>_ _. True)
    (\<lambda>x s'. (\<exists>y. x = CaptureStore y) \<and> rc_pending s' = [] \<longrightarrow> blocked t js s' s') s"
proof -
  let ?s = "s\<lparr>rc_excluded := rc_excluded s \<union> ex_path ` set (srp_exclusions report)\<rparr>"
  let ?E = "\<lambda>x s'. (\<exists>y. x = CaptureStore y) \<and> rc_pending s' = [] \<longrightarrow> blocked t js s' s'"
  let ?limit = "emit_checkpoint_failed t c FailResourceLimit ''Run storage limit prevented this checkpoint from committing.''"
  have tr: "track t js s True ?s" by (rule track_fields(2)) (simp add: track_start s step)
  then have ok: "recorder_ok t js ?s" and step': "in_step t ?s" by (simp_all add: track_def)
  have limit: "held ?limit" unfolding emit_checkpoint_failed_def by (intro held_do held_simple held_emit)
  have "after (within_budget t (snapshot_objects (srp_snapshot report)) ?limit) (\<lambda>_ s'. s' = ?s) (\<lambda>_ _. True) ?s"
    by (rule after_mono [OF within_budget_spec [where b = True, OF ok step' tracked.keeps_checkpoint_failed]]) simp_all
  from after_conj [OF this heldD [OF held_budget [OF limit]]]
  have budget: "after (within_budget t (snapshot_objects (srp_snapshot report)) ?limit) (\<lambda>_ s'. s' = ?s) ?E ?s"
    by (rule after_mono) auto
  show ?thesis
    unfolding commit_scanned_def Let_def after_and_do [of "change _"] after_change
  proof (rule after_seq [OF budget], goal_cases)
    case (1 r s1)
    then have s1: "s1 = ?s" by simp
    show ?case
      unfolding s1
    proof (rule after_seq [OF after_mono [OF sequencer_next_spec]], assumption, goal_cases)
      case (1 x s')
      then show ?case by (auto simp: is_store_failure_def)
    next
      case (2 e s2)
      then have st: "stamped (tl_shown t) (CheckpointCommitted c (snapshot_identity (srp_snapshot report))) ?s e s2" by simp
      have "rc_pending ?s = []" using p by simp
      from refused_commit_blocks [OF ok step' this st] have "blocked t js s2 s2" .
      then show ?case by (auto simp: after_lift account_objects_def ok_or_def split: sum.split option.split)
    qed
  qed
qed


definition ex_report :: scan_report where
  \<comment> \<open>a snapshot that the store refuses\<close>
  "ex_report = \<lparr>srp_snapshot = \<lparr>snapshot_identity = SnapshotId (replicate 32 1), snapshot_content = snapshot_content ex_snapshot\<rparr>,
     srp_exclusions = []\<rparr>"

lemma ex_commit_refused:
  "\<exists>x s1. commit_scanned ex_tools ex_checkpoint_id ReasonFinal None ex_report ex_recorder = (Inl (CaptureStore x), s1) \<and> rc_pending s1 = []"
proof -
  have "snapshot_objects (srp_snapshot ex_report) = []"
    by (simp add: snapshot_objects_def ex_report_def ex_snapshot_def collect_map_def List.map_filter_def)
  moreover have "\<not> is_ok (commit_checkpoint_with_event ex_env ex_store1 c (srp_snapshot ex_report) e)"
    if "ck_snapshot c = SnapshotId (replicate 32 1)" for c e
    using that
    by (auto simp: commit_checkpoint_with_event_def is_ok_iff and_then_Inr_iff validate_checkpoint_snapshot_def Let_def
        validate_snapshot_def ex_report_def snapshot_id_digest_def)
  ultimately show ?thesis
    by (auto simp: commit_scanned_def within_budget_def projected_object_bytes_def sequencer_next_def sequencer_now_def next_at_def
        and_do_def on_host_def at_part_def ask_def timestamp_now_def give_def inspect_def lift_def change_def Let_def ex_host_def
        event_new_def sequencer_new_def event_sequence_first_def checked_next_def checked_add_def event_sequence_new_def
        default_capture_options_def i64_range_def on_store_def is_ok_iff ex_report_def event_validate_def
        split: sum.split prod.split)
qed


end
