(* ===== verification/Dirty.thy ===== *)
theory Dirty
  imports Capture File_Reading
begin

section \<open>Hints about changed files\<close>

text \<open>
  \<open>FileStamp\<close>, the workspace walk and the pure part of \<open>DirtyTracker\<close> in
  \<open>rewind-capture/src/recorder.rs\<close>: between checkpoints the recorder compares the metadata of all
  entries with what it saw before.  The walk is bounded by a number of entries.  A \<open>BTreeMap\<close> is
  the list of its bindings in key order, an \<open>Instant\<close> its distance in nanoseconds from the start
  of the recorder's clock.
\<close>

definition MAX_DIRTY_SCAN_ENTRIES :: nat where "MAX_DIRTY_SCAN_ENTRIES = 1000000"

record file_stamp =
  \<comment> \<open>as in \<open>stat\<close>, seconds and nanoseconds of a time are one number\<close>
  fp_kind :: u8
  fp_mode :: u32
  fp_size :: u64
  fp_modified :: int
  fp_changed :: int
  fp_symlink_target :: "u8 list option"

type_synonym stamps = "(snapshot_path \<times> file_stamp) list"

fun btree_insert :: "'k::linorder \<Rightarrow> 'v \<Rightarrow> ('k \<times> 'v) list \<Rightarrow> ('k \<times> 'v) list" where
  "btree_insert k v [] = [(k, v)]"
| "btree_insert k v ((k', v') # m) =
     (if k < k' then (k, v) # (k', v') # m
      else if k = k' then (k, v) # m
      else (k', v') # btree_insert k v m)"

fun contains_text :: "string \<Rightarrow> string \<Rightarrow> bool" where
  "contains_text p [] = (p = [])"
| "contains_text p (c # s) = (prefix p (c # s) \<or> contains_text p s)"

subsection \<open>The walk\<close>

definition dirty_scan_limit :: "nat \<Rightarrow> capture_error" where
  "dirty_scan_limit maximum_entries = ProducerError ''dirty-path scanner''
     (''workspace exceeds the '' @ dec_text maximum_entries @ ''-entry hint scan budget'')"

definition is_dirty_scan_limit :: "capture_error \<Rightarrow> bool" where
  "is_dirty_scan_limit e = (case e of
       CaptureWorkspace (DirectoryEntryLimit _ _) \<Rightarrow> True
     | ProducerError producer message \<Rightarrow>
         producer = ''dirty-path scanner'' \<and> contains_text ''entry hint scan budget'' message
     | _ \<Rightarrow> False)"

definition walk_files :: "'a fs \<Rightarrow> (world, capture_error, 'a) effect" where
  "walk_files m = with_err CaptureWorkspace m"

definition walk_path :: "displays \<Rightarrow> string list \<Rightarrow> string \<Rightarrow> directory_entry \<Rightarrow> (capture_error, snapshot_path) result" where
  \<comment> \<open>the name of an entry, and its path below the root\<close>
  "walk_path d root relative entry =
     and_then (ok_or (CaptureIo ''represent workspace path beneath''
         (root @ (if relative = [] then [] else split_on CHR ''/'' relative) @ [de_name entry]) (InvalidDataError ''path is not valid UTF-8''))
       (str_from_utf8 (as_bytes (de_name entry)))) (\<lambda>name.
     map_err (\<lambda>error. ProducerError ''dirty-path scanner'' (dp_path d error))
       (snapshot_path_from_str (if relative = [] then name else relative @ ''/'' @ name)))"

definition stamp_of :: "stat \<Rightarrow> u8 list option \<Rightarrow> file_stamp" where
  "stamp_of meta target =
     \<lparr>fp_kind = (case st_kind meta of KindFile \<Rightarrow> 1 | KindDirectory \<Rightarrow> 2 | KindSymlink \<Rightarrow> 3 | KindOther \<Rightarrow> 4),
      fp_mode = st_mode meta, fp_size = st_size meta, fp_modified = st_modified meta,
      fp_changed = st_changed meta, fp_symlink_target = target\<rparr>"

lemma fold_do_cong [fundef_cong]:
  "xs = ys \<Longrightarrow> r = r' \<Longrightarrow> (\<And>x s. x \<in> set ys \<Longrightarrow> f x s = g x s) \<Longrightarrow> fold_do f xs r = fold_do g ys r'"
proof (induction xs arbitrary: ys r r')
  case (Cons x xs)
  then have "fold_do f xs = fold_do g xs" by auto
  then show ?case using Cons.prems by auto
qed simp

lemma walk_path_bounds:
  "walk_path d root relative entry = Inr path \<Longrightarrow> length relative < length path \<and> length path \<le> MAX_SNAPSHOT_PATH_BYTES"
  by (auto simp: walk_path_def and_then_Inr_iff map_err_Inr_iff snapshot_path_from_str_def split: if_splits)

lemma lift_gives: "lift r s = (Inr x, t) \<Longrightarrow> r = Inr x"
  by (simp add: lift_def)

function walk_state ::
    "displays \<Rightarrow> string list \<Rightarrow> pinned_directory \<Rightarrow> string \<Rightarrow> stamps \<Rightarrow> nat \<Rightarrow> (world, capture_error, stamps) effect" where
  "walk_state d root directory relative state maximum_entries =
     and_do (walk_files (entries_bounded directory (maximum_entries - length state))) (\<lambda>children.
     and_do (fold_do (\<lambda>entry state.
       if length state = maximum_entries then stop (dirty_scan_limit maximum_entries)
       else
         and_do (lift (walk_path d root relative entry)) (\<lambda>path.
         and_do (if st_kind (de_stat entry) = KindSymlink
                 then and_do (walk_files (read_symlink directory entry)) (\<lambda>target. give (Some (as_bytes target)))
                 else give None) (\<lambda>target.
         let state = btree_insert path (stamp_of (de_stat entry) target) state in
         if st_kind (de_stat entry) = KindDirectory then
           and_do (walk_files (open_directory directory entry)) (\<lambda>child.
           and_do (walk_state d root child path state maximum_entries) (\<lambda>state.
           and_do (walk_files (verify_entry directory entry)) (\<lambda>_. give state)))
         else if st_kind (de_stat entry) \<noteq> KindSymlink then
           and_do (walk_files (verify_entry directory entry)) (\<lambda>_. give state)
         else give state))) children state) (\<lambda>state.
     and_do (walk_files (verify_unchanged directory)) (\<lambda>_. give state)))"
  by pat_completeness auto
termination
  by (relation "measure (\<lambda>(_, _, _, relative, _). MAX_SNAPSHOT_PATH_BYTES + 1 - length relative)")
    (auto dest!: lift_gives walk_path_bounds)

declare walk_state.simps [simp del]

definition workspace_state_bounded :: "displays \<Rightarrow> string list \<Rightarrow> nat \<Rightarrow> (world, capture_error, stamps) effect" where
  "workspace_state_bounded d root maximum_entries =
     and_do (walk_files (directory_root_open root)) (\<lambda>directory_root.
     and_do (walk_files (pinned_directory_of directory_root)) (\<lambda>directory.
       walk_state d root directory [] [] maximum_entries))"

definition workspace_state :: "displays \<Rightarrow> string list \<Rightarrow> (world, capture_error, stamps) effect" where
  "workspace_state d root = workspace_state_bounded d root MAX_DIRTY_SCAN_ENTRIES"

subsection \<open>The tracker\<close>

type_synonym instant = nat

record dirty_tracker =
  dt_observed :: stamps
  dt_pending :: "snapshot_path set"
  dt_last_change :: "instant option"
  dt_last_checkpoint :: instant
  dt_next_poll :: instant
  dt_poll_interval :: duration
  dt_maximum_pending :: nat
  dt_deferred_error :: "capture_error option"
  dt_disabled :: bool

definition dirty_poll_interval :: "capture_options \<Rightarrow> duration" where
  "dirty_poll_interval options = min (max (co_checkpoint_debounce options div 2) (from_millis 25)) (from_millis 250)"

definition tracker_new :: "instant \<Rightarrow> (capture_error, stamps) result \<Rightarrow> capture_options \<Rightarrow> (capture_error, dirty_tracker) result" where
  \<comment> \<open>from the time and the outcome of the first walk\<close>
  "tracker_new time scanned options =
     and_then (case scanned of
         Inr state \<Rightarrow> Inr (state, None)
       | Inl error \<Rightarrow> if is_dirty_scan_limit error then Inr ([], Some error) else Inl error) (\<lambda>(observed, deferred).
     Inr \<lparr>dt_observed = observed, dt_pending = {}, dt_last_change = None, dt_last_checkpoint = time,
          dt_next_poll = time + dirty_poll_interval options, dt_poll_interval = dirty_poll_interval options,
          dt_maximum_pending = co_maximum_pending_dirty_paths options, dt_deferred_error = deferred, dt_disabled = False\<rparr>)"

definition note_change :: "nat \<Rightarrow> snapshot_path \<Rightarrow> snapshot_path set \<times> snapshot_path list \<Rightarrow> snapshot_path set \<times> snapshot_path list" where
  "note_change maximum path acc = (case acc of (pending, changed) \<Rightarrow>
     if card pending < maximum \<and> path \<notin> pending then (insert path pending, changed @ [path]) else (pending, changed))"

definition differing :: "stamps \<Rightarrow> stamps \<Rightarrow> snapshot_path list" where
  \<comment> \<open>the paths of the two loops: changed or gone, and new\<close>
  "differing observed next =
     map fst (filter (\<lambda>(path, previous). map_of next path \<noteq> Some previous) observed)
     @ filter (\<lambda>path. path \<notin> fst ` set observed) (map fst next)"

definition compare_states :: "instant \<Rightarrow> stamps \<Rightarrow> dirty_tracker \<Rightarrow> snapshot_path list \<times> dirty_tracker" where
  \<comment> \<open>the end of \<open>observe\<close>\<close>
  "compare_states time next d =
     (let paths = differing (dt_observed d) next;
          (pending, changed) = fold (note_change (dt_maximum_pending d)) paths (dt_pending d, [])
      in (changed, d\<lparr>dt_pending := pending, dt_observed := next,
            dt_last_change := (if paths \<noteq> [] then Some time else dt_last_change d)\<rparr>))"

definition should_checkpoint :: "instant \<Rightarrow> capture_options \<Rightarrow> dirty_tracker \<Rightarrow> bool" where
  "should_checkpoint time options d =
     (if dt_pending d = {} then False
      else card (dt_pending d) \<ge> co_maximum_pending_dirty_paths options
        \<or> time - dt_last_checkpoint d \<ge> co_checkpoint_max_interval options
        \<or> (case dt_last_change d of None \<Rightarrow> False | Some changed \<Rightarrow> time - changed \<ge> co_checkpoint_debounce options)
          \<and> time - dt_last_checkpoint d \<ge> co_checkpoint_min_interval options)"

subsection \<open>What a comparison finds\<close>

lemma set_differing:
  assumes "distinct (map fst observed)" and "distinct (map fst next)"
  shows "set (differing observed next) = {p. map_of observed p \<noteq> map_of next p}"
proof (intro set_eqI iffI)
  fix p assume "p \<in> set (differing observed next)"
  then consider v where "(p, v) \<in> set observed" "map_of next p \<noteq> Some v" | "p \<notin> fst ` set observed" "p \<in> fst ` set next"
    by (auto simp: differing_def)
  then show "p \<in> {p. map_of observed p \<noteq> map_of next p}"
  proof cases
    case 1
    then show ?thesis using assms(1) by auto
  next
    case 2
    then have "map_of observed p = None" "map_of next p \<noteq> None" by (simp_all add: map_of_eq_None_iff)
    then show ?thesis by auto
  qed
next
  fix p assume p: "p \<in> {p. map_of observed p \<noteq> map_of next p}"
  show "p \<in> set (differing observed next)"
  proof (cases "map_of observed p")
    case None
    then have "p \<in> fst ` set next" using p by (cases "map_of next p") (auto dest!: map_of_SomeD intro: rev_image_eqI)
    then show ?thesis using None by (auto simp: differing_def map_of_eq_None_iff)
  next
    case (Some v)
    then show ?thesis using p map_of_SomeD [OF Some] by (force simp: differing_def)
  qed
qed

lemma distinct_differing:
  "distinct (map fst observed) \<Longrightarrow> distinct (map fst next) \<Longrightarrow> distinct (differing observed next)"
  by (auto simp: differing_def distinct_map_filter)

lemma note_change_taken: "card pending < m \<and> p \<notin> pending \<Longrightarrow> note_change m p (pending, changed) = (insert p pending, changed @ [p])"
  and note_change_left: "\<not> (card pending < m \<and> p \<notin> pending) \<Longrightarrow> note_change m p (pending, changed) = (pending, changed)"
  by (auto simp: note_change_def)

lemma fold_note_change:
  assumes "finite pending"
  shows "fold (note_change m) paths (pending, changed) = (pending', changed') \<Longrightarrow>
     \<exists>new. changed' = changed @ new \<and> pending' = pending \<union> set new \<and> distinct new \<and> set new \<inter> pending = {}
       \<and> set new \<subseteq> set paths \<and> card pending' \<le> max m (card pending)
       \<and> (card (pending \<union> set paths) \<le> m \<longrightarrow> set new = set paths - pending)"
  using assms
proof (induction paths arbitrary: pending changed)
  case (Cons p paths)
  show ?case
  proof (cases "card pending < m \<and> p \<notin> pending")
    case True
    then have "fold (note_change m) paths (insert p pending, changed @ [p]) = (pending', changed')"
      using Cons.prems True by (simp add: note_change_taken)
    from Cons.IH [OF this] Cons.prems(2) obtain new where new: "changed' = changed @ p # new" "pending' = insert p pending \<union> set new"
        "distinct new" "set new \<inter> insert p pending = {}" "set new \<subseteq> set paths" "card pending' \<le> max m (card (insert p pending))"
        "card (insert p pending \<union> set paths) \<le> m \<Longrightarrow> set new = set paths - insert p pending" by auto
    have "card (insert p pending) \<le> m" using True Cons.prems(2) by simp
    moreover have "insert p pending \<union> set paths = pending \<union> set (p # paths)" by auto
    ultimately show ?thesis using new True by (intro exI [of _ "p # new"]) auto
  next
    case False
    then have "fold (note_change m) paths (pending, changed) = (pending', changed')"
      using Cons.prems False by (simp add: note_change_left del: de_Morgan_conj)
    from Cons.IH [OF this Cons.prems(2)] obtain new where new: "changed' = changed @ new" "pending' = pending \<union> set new" "distinct new"
        "set new \<inter> pending = {}" "set new \<subseteq> set paths" "card pending' \<le> max m (card pending)"
        "card (pending \<union> set paths) \<le> m \<Longrightarrow> set new = set paths - pending" by blast
    have "set new = set (p # paths) - pending" if c: "card (pending \<union> set (p # paths)) \<le> m"
    proof -
      have "card (pending \<union> set paths) \<le> card (pending \<union> set (p # paths))"
        using Cons.prems(2) by (intro card_mono) auto
      moreover have "p \<in> pending"
      proof (rule ccontr)
        assume p: "p \<notin> pending"
        then have "card (insert p pending) \<le> card (pending \<union> set (p # paths))" using Cons.prems(2) by (intro card_mono) auto
        then show False using p False c Cons.prems(2) by simp
      qed
      ultimately show ?thesis using new(7) c by auto
    qed
    then show ?thesis using new by (intro exI [of _ new]) auto
  qed
qed simp

end
