(* ===== verification/Coordinator.thy ===== *)
theory Coordinator
  imports Recorder Dirty
begin

section \<open>The coordinator of a recording\<close>

text \<open>
  \<open>Coordinator\<close> of \<open>rewind-capture/src/recorder.rs\<close> and \<open>PtyChild\<close> of
  \<open>rewind-platform/src/pty.rs\<close>.  The producer threads send what they observe over one channel;
  the coordinator handles the observations one after the other, and between them it polls the
  child, the terminal that may outlive it, and the workspace.  The answers of the operating
  system about the child and the terminal are a \<open>child\<close>: each call gets an arbitrary answer.  The
  replies to marker requests are collected in \<open>cn_replies\<close>.
\<close>

definition COORDINATOR_TICK :: duration where "COORDINATOR_TICK = from_millis 20"
definition SIGNAL_GRACE_PERIOD :: duration where "SIGNAL_GRACE_PERIOD = from_secs 2"
definition POST_ROOT_DRAIN_GRACE :: duration where "POST_ROOT_DRAIN_GRACE = from_secs 2"
definition POST_KILL_DRAIN_GRACE :: duration where "POST_KILL_DRAIN_GRACE = from_secs 1"

definition ESRCH :: io_error where "ESRCH = OtherError 3"
definition EPERM :: io_error where "EPERM = OtherError 1"
definition SIGKILL :: int where "SIGKILL = 9"
definition SIGWINCH :: int where "SIGWINCH = 28"

subsection \<open>The child\<close>

record portable_exit =
  \<comment> \<open>\<open>portable_pty::ExitStatus\<close>\<close>
  px_code :: u32
  px_signal :: "string option"

record child =
  ch_calls :: nat
  ch_sent :: "int list"
  ch_pid :: "u32 option"
  ch_try_wait :: "nat \<Rightarrow> (io_error, portable_exit option) result"
  ch_wait :: "nat \<Rightarrow> (io_error, portable_exit) result"
  ch_kill :: "nat \<Rightarrow> (io_error, unit) result"
  ch_signal :: "nat \<Rightarrow> int \<Rightarrow> io_error option"
  ch_size :: "nat \<Rightarrow> (io_error, pty_size) result"
  ch_resize :: "nat \<Rightarrow> (string, unit) result"
  ch_strsignal :: "int \<Rightarrow> string option"

type_synonym 'a on_child = "(child, pty_error, 'a) effect"

definition ask_child :: "(child \<Rightarrow> nat \<Rightarrow> 'a) \<Rightarrow> (child, 'e, 'a) effect" where
  "ask_child reading c = (Inr (reading c (ch_calls c)), c\<lparr>ch_calls := Suc (ch_calls c)\<rparr>)"

definition signal_number :: "(int \<Rightarrow> string option) \<Rightarrow> string \<Rightarrow> int option" where
  "signal_number names description = find (\<lambda>signal. names signal = Some description) (map int [1..<65])"

definition child_exit_of :: "(int \<Rightarrow> string option) \<Rightarrow> portable_exit \<Rightarrow> child_exit" where
  "child_exit_of names status = \<lparr>cx_code = px_code status, cx_signal = px_signal status,
     cx_signal_number = Option.bind (px_signal status) (signal_number names)\<rparr>"

definition try_wait :: "child_exit option on_child" where
  "try_wait = and_do (ask_child ch_try_wait) (\<lambda>answer.
     and_do (inspect ch_strsignal) (\<lambda>names.
     lift (map_ok (map_option (child_exit_of names))
       (map_err (\<lambda>e. PtyChildError ''poll'' (OsError e)) answer))))"

definition wait_child :: "child_exit on_child" where
  "wait_child = and_do (ask_child ch_wait) (\<lambda>answer.
     and_do (inspect ch_strsignal) (\<lambda>names.
     lift (map_ok (child_exit_of names) (map_err (\<lambda>e. PtyChildError ''wait'' (OsError e)) answer))))"

definition kill_child :: "unit on_child" where
  "kill_child = and_do (ask_child ch_kill) (\<lambda>answer. lift (map_err (\<lambda>e. PtyChildError ''kill'' (OsError e)) answer))"

definition process_group_id :: "child \<Rightarrow> (pty_error, int) result" where
  "process_group_id c =
     and_then (ok_or (PtyChildError ''inspect process group'' (InvalidDataError ''child PID is unavailable'')) (ch_pid c)) (\<lambda>pid.
       if uint pid < 2 ^ 31 then Inr (uint pid)
       else Inl (PtyChildError ''inspect process group'' (InvalidDataError ''child PID exceeds i32'')))"

definition send_signal :: "int \<Rightarrow> (child, 'e, io_error option) effect" where
  \<comment> \<open>\<open>libc::kill(-pid, signal)\<close>\<close>
  "send_signal signal = and_do (change (\<lambda>c. c\<lparr>ch_sent := ch_sent c @ [signal]\<rparr>)) (\<lambda>_.
     ask_child (\<lambda>c n. ch_signal c n signal))"

definition signal_process_group :: "int \<Rightarrow> unit on_child" where
  "signal_process_group signal = and_do (inspect process_group_id) (\<lambda>group. and_do (lift group) (\<lambda>_.
     and_do (send_signal signal) (\<lambda>answer. case answer of
         None \<Rightarrow> give ()
       | Some source \<Rightarrow> if source = ESRCH then give () else stop (PtyChildError ''signal process group'' (OsError source)))))"

definition process_group_exists :: "bool on_child" where
  "process_group_exists = and_do (inspect process_group_id) (\<lambda>group. and_do (lift group) (\<lambda>_.
     and_do (ask_child (\<lambda>c n. ch_signal c n 0)) (\<lambda>answer. case answer of
         None \<Rightarrow> give True
       | Some source \<Rightarrow>
           if source = ESRCH then give False else if source = EPERM then give True
           else stop (PtyChildError ''inspect process group'' (OsError source)))))"

definition kill_process_group :: "unit on_child" where
  "kill_process_group = signal_process_group SIGKILL"

definition resize :: "pty_size \<Rightarrow> unit on_child" where
  "resize dims = and_do (ask_child ch_resize) (\<lambda>answer. lift (map_err PtyResize answer))"

definition terminal_size :: "(child, terminal_error, pty_size) effect" where
  "terminal_size = and_do (ask_child ch_size) (\<lambda>answer. case answer of
       Inl source \<Rightarrow> stop (TerminalIo ''read window size'' (OsError source))
     | Inr dims \<Rightarrow>
         if ps_rows dims = 0 \<or> ps_columns dims = 0
         then stop (TerminalIo ''read window size'' (InvalidDataError ''terminal reported a zero dimension''))
         else give dims)"

subsection \<open>Observations and state\<close>

record process_info =
  pi_pid :: u32
  pi_parent_pid :: "u32 option"
  pi_executable :: "string option"
  pi_command :: string

datatype observation =
    ObTerminalOutput "u8 list"
  | ObTerminalInput "u8 list" "bool option"
  | ObOutputEof
  | ObProcessSnapshot "(string, process_info list) result"
  | ObSignal int
  | ObMarker "string option"
  | ObProducerFailed string string

record 'j coordinator =
  cn_recorder :: "'j recorder"
  cn_child :: child
  cn_root_pid :: process_id
  cn_interactive_stdin :: bool
  cn_output_eof :: bool
  cn_output_abandoned :: bool
  cn_child_exit :: "child_exit option"
  cn_interrupted_signal :: "int option"
  cn_termination_deadline :: "instant option"
  cn_drain_deadline :: "instant option"
  cn_kill_requested :: bool
  cn_output_bytes :: u64
  cn_observed :: "process_id set"
  cn_process_warning :: bool
  cn_echo_warning :: bool
  cn_dirty_warning :: bool
  cn_fatal :: "capture_error option"
  cn_dirty :: dirty_tracker
  cn_replies :: "(string, checkpoint_id) result list"

type_synonym ('j, 'e, 'a) coordinating = "('j coordinator, 'e, 'a) effect"

definition recording :: "('j recorder, 'e, 'a) effect \<Rightarrow> ('j, 'e, 'a) coordinating" where
  "recording m = at_part cn_recorder (\<lambda>r s. s\<lparr>cn_recorder := r\<rparr>) m"

definition childing :: "'a on_child \<Rightarrow> ('j, pty_error, 'a) coordinating" where
  "childing m = at_part cn_child (\<lambda>c s. s\<lparr>cn_child := c\<rparr>) m"

definition instant_now :: "('j, 'e, instant) coordinating" where
  "instant_now = recording (on_host (ask ht_elapsed))"

definition coordinator_new ::
    "'j recorder \<Rightarrow> child \<Rightarrow> process_id \<Rightarrow> bool \<Rightarrow> dirty_tracker \<Rightarrow> 'j coordinator" where
  "coordinator_new r child root_pid interactive dirty =
     \<lparr>cn_recorder = r, cn_child = child, cn_root_pid = root_pid, cn_interactive_stdin = interactive,
      cn_output_eof = False, cn_output_abandoned = False, cn_child_exit = None, cn_interrupted_signal = None,
      cn_termination_deadline = None, cn_drain_deadline = None, cn_kill_requested = False, cn_output_bytes = 0,
      cn_observed = {}, cn_process_warning = False, cn_echo_warning = False, cn_dirty_warning = False,
      cn_fatal = None, cn_dirty = dirty, cn_replies = []\<rparr>"

definition fail :: "capture_error \<Rightarrow> ('j, 'e, unit) coordinating" where
  "fail error = and_do (inspect (\<lambda>s. (cn_fatal s, cn_child_exit s))) (\<lambda>(fatal, exited).
     if fatal \<noteq> None then give ()
     else
       and_do (change (\<lambda>s. s\<lparr>cn_fatal := Some error\<rparr>)) (\<lambda>_.
         if exited \<noteq> None then give ()
         else and_do (outcome (childing kill_process_group)) (\<lambda>killed.
           if is_ok killed then give () else ignoring (childing kill_child))))"

definition fail_on :: "('j, capture_error, unit) coordinating \<Rightarrow> ('j, 'e, unit) coordinating" where
  \<comment> \<open>\<open>if let Err(error) = .. { self.fail(error) }\<close>\<close>
  "fail_on m = and_do (outcome m) (\<lambda>r. case r of Inr _ \<Rightarrow> give () | Inl error \<Rightarrow> fail error)"

definition reply :: "(string, checkpoint_id) result \<Rightarrow> ('j, 'e, unit) coordinating" where
  "reply answer = change (\<lambda>s. s\<lparr>cn_replies := cn_replies s @ [answer]\<rparr>)"

subsection \<open>Terminal bytes\<close>

definition len_u64 :: "u8 list \<Rightarrow> (capture_error, u64) result" where
  "len_u64 bytes = ok_or ClockOutOfRange (word_of_len (length bytes))"

definition store_and_refer :: "'j tools \<Rightarrow> u8 list \<Rightarrow> (object_id \<Rightarrow> event_payload) \<Rightarrow> ('j, unit) recording" where
  \<comment> \<open>the common end of \<open>record_output\<close> and \<open>record_retained_input\<close>\<close>
  "store_and_refer t bytes payload =
     and_do (on_host timestamp_now) (\<lambda>time.
     and_do (with_err CaptureStore (at_part rc_store (\<lambda>st s. s\<lparr>rc_store := st\<rparr>)
       (\<lambda>st. case put_object (tl_env t) st bytes (as_unix_milliseconds time) of (st', r) \<Rightarrow> (r, st')))) (\<lambda>stored.
     and_do (emit_object_reference t (so_id stored) (so_logical_size stored) (payload (so_id stored))) (\<lambda>_.
       give ())))"

definition record_output :: "'j tools \<Rightarrow> u8 list \<Rightarrow> ('j, capture_error, unit) coordinating" where
  "record_output t bytes =
     and_do (lift (len_u64 bytes)) (\<lambda>byte_len.
     and_do (inspect (\<lambda>s. (cn_output_bytes s, co_terminal_max_bytes (rc_options (cn_recorder s)), rc_stream (cn_recorder s)))) (\<lambda>(before, maximum, stream).
     and_do (lift (ok_or (TerminalOutputLimit maximum) (checked_add before byte_len))) (\<lambda>next.
       if next > maximum then
         and_do (recording (warning t WarnStorageLimit (''Terminal output reached the configured ''
           @ dec_text (unat maximum) @ ''-byte limit; capture was stopped.''))) (\<lambda>_.
         and_do (recording (flush_events t)) (\<lambda>_.
           stop (TerminalOutputLimit maximum)))
       else
         and_do (recording (store_and_refer t bytes (\<lambda>i. TerminalOutput stream i byte_len))) (\<lambda>_.
           change (\<lambda>s. s\<lparr>cn_output_bytes := next\<rparr>)))))"

definition record_retained_input :: "'j tools \<Rightarrow> u8 list \<Rightarrow> u64 \<Rightarrow> ('j, capture_error, unit) coordinating" where
  "record_retained_input t bytes byte_len = recording (and_do (inspect rc_stream) (\<lambda>stream.
     store_and_refer t bytes (\<lambda>i. TerminalInput stream i byte_len)))"

definition record_input :: "'j tools \<Rightarrow> u8 list \<Rightarrow> bool option \<Rightarrow> ('j, capture_error, unit) coordinating" where
  "record_input t bytes echo_enabled =
     and_do (lift (len_u64 bytes)) (\<lambda>byte_len.
     and_do (inspect (\<lambda>s. (co_record_input (rc_options (cn_recorder s)), cn_echo_warning s, rc_stream (cn_recorder s)))) (\<lambda>(policy, warned, stream).
     case input_redaction policy echo_enabled of
       None \<Rightarrow> record_retained_input t bytes byte_len
     | Some reason \<Rightarrow>
         and_do (if reason = EchoDetectionUnavailable \<and> \<not> warned then
             and_do (recording (warning t WarnInputEchoDetectionUncertain
               ''Terminal echo state could not be read beside the input read; input bytes were redacted.'')) (\<lambda>_.
             change (\<lambda>s. s\<lparr>cn_echo_warning := True\<rparr>))
           else give ()) (\<lambda>_.
         and_do (recording (emit t (TerminalInputRedacted stream byte_len reason))) (\<lambda>_. give ()))))"

subsection \<open>Processes\<close>

definition observe_process :: "'j tools \<Rightarrow> process_info \<Rightarrow> process_id set \<Rightarrow> ('j, capture_error, process_id set) coordinating" where
  "observe_process t p present = (case process_id_new (pi_pid p) of
       None \<Rightarrow> give present
     | Some process_id \<Rightarrow>
         and_do (inspect (\<lambda>s. (process_id \<in> cn_observed s, cn_root_pid s))) (\<lambda>(known, root_pid).
         and_do (change (\<lambda>s. s\<lparr>cn_observed := insert process_id (cn_observed s)\<rparr>)) (\<lambda>_.
         and_do (if known then give () else
           and_do (recording (emit t (ProcessObserved
             \<lparr>obs_process_id = process_id,
              obs_parent_process_id = Option.bind (pi_parent_pid p) process_id_new,
              obs_executable = Option.bind (pi_executable p) (\<lambda>path. str_from_utf8 (as_bytes path)),
              obs_command = sanitize_text (pi_command p),
              obs_relationship = (if process_id = root_pid then RootProcess else DescendantProcess)\<rparr>))) (\<lambda>_. give ())) (\<lambda>_.
           give (insert process_id present)))))"

definition process_order :: "process_id set \<Rightarrow> process_id list" where
  \<comment> \<open>the iteration order of the \<open>BTreeSet\<close>\<close>
  "process_order ps = map ProcessId (sorted_list_of_set (process_id_get ` ps))"

definition record_exit :: "'j tools \<Rightarrow> process_id \<Rightarrow> ('j, capture_error, unit) coordinating" where
  "record_exit t process_id =
     and_do (change (\<lambda>s. s\<lparr>cn_observed := cn_observed s - {process_id}\<rparr>)) (\<lambda>_.
     and_do (recording (emit t (ProcessExited process_id ExitUnknown))) (\<lambda>_. give ()))"

definition record_processes :: "'j tools \<Rightarrow> (string, process_info list) result \<Rightarrow> ('j, capture_error, unit) coordinating" where
  "record_processes t result = (case result of
       Inl message \<Rightarrow>
         and_do (inspect cn_process_warning) (\<lambda>warned.
           if warned then give ()
           else
             and_do (recording (warning t WarnProcessObservationIncomplete
               (sanitize_text (''Process observation is incomplete: '' @ message)))) (\<lambda>_.
             change (\<lambda>s. s\<lparr>cn_process_warning := True\<rparr>)))
     | Inr processes \<Rightarrow>
         and_do (fold_do (observe_process t) processes {}) (\<lambda>present.
         and_do (inspect (\<lambda>s. filter (\<lambda>p. p \<noteq> cn_root_pid s \<and> p \<notin> present) (process_order (cn_observed s)))) (\<lambda>exited.
           each (record_exit t) exited)))"

subsection \<open>Signals\<close>

definition durable_post_root_warning :: "'j tools \<Rightarrow> string \<Rightarrow> ('j, 'e, unit) coordinating" where
  "durable_post_root_warning t message =
     fail_on (recording (and_do (warning t WarnOther message) (\<lambda>_. flush_events t)))"

definition shorten_post_root_deadline :: "duration \<Rightarrow> ('j, 'e, unit) coordinating" where
  "shorten_post_root_deadline grace = and_do instant_now (\<lambda>t0.
     change (\<lambda>s. if (case cn_drain_deadline s of None \<Rightarrow> True | Some current \<Rightarrow> t0 + grace < current)
       then s\<lparr>cn_drain_deadline := Some (t0 + grace)\<rparr> else s))"

definition set_drain_deadline :: "duration \<Rightarrow> ('j, 'e, unit) coordinating" where
  "set_drain_deadline grace = and_do instant_now (\<lambda>t0. change (\<lambda>s. s\<lparr>cn_drain_deadline := Some (t0 + grace)\<rparr>))"

definition handle_resize :: "'j tools \<Rightarrow> ('j, capture_error, unit) coordinating" where
  "handle_resize t =
     and_do (outcome (and_do (with_err CaptureTerminal (at_part cn_child (\<lambda>c s. s\<lparr>cn_child := c\<rparr>) terminal_size)) (\<lambda>dims.
       and_do (with_err CapturePty (childing (resize dims))) (\<lambda>_. give dims)))) (\<lambda>resized. case resized of
         Inr dims \<Rightarrow> and_do (inspect (\<lambda>s. rc_stream (cn_recorder s))) (\<lambda>stream.
           and_do (recording (emit t (TerminalResized stream (ps_columns dims) (ps_rows dims)))) (\<lambda>_. give ()))
       | Inl error \<Rightarrow> recording (warning t WarnOther
           (sanitize_text (''Terminal resize was not propagated: '' @ dp_capture (tl_shown t) error))))"

definition handle_signal :: "'j tools \<Rightarrow> int \<Rightarrow> ('j, capture_error, unit) coordinating" where
  "handle_signal t signal =
     (if signal = SIGWINCH then
        and_do (inspect (\<lambda>s. cn_child_exit s = None \<and> cn_interactive_stdin s)) (\<lambda>live.
          if live then handle_resize t else give ())
      else
        and_do (inspect (\<lambda>s. (cn_interrupted_signal s = None, cn_child_exit s \<noteq> None))) (\<lambda>(first_signal, exited).
        and_do (if first_signal then
            and_do (change (\<lambda>s. s\<lparr>cn_interrupted_signal := Some signal\<rparr>)) (\<lambda>_.
            and_do (recording (emit t (RunInterrupted (Some signal)))) (\<lambda>_. recording (flush_events t)))
          else give ()) (\<lambda>_.
        if exited then
          if first_signal then
            and_do (shorten_post_root_deadline SIGNAL_GRACE_PERIOD) (\<lambda>_.
            and_do (outcome (childing (signal_process_group signal))) (\<lambda>sent. case sent of
                Inr _ \<Rightarrow> give ()
              | Inl error \<Rightarrow> durable_post_root_warning t
                  (''Signal '' @ int_text signal @ '' could not be forwarded to the remaining PTY process group after the root exited: ''
                   @ dp_pty (tl_shown t) error @ ''. Rewind will continue bounded shutdown.'')))
          else
            and_do (change (\<lambda>s. s\<lparr>cn_kill_requested := True\<rparr>)) (\<lambda>_.
            and_do (set_drain_deadline POST_KILL_DRAIN_GRACE) (\<lambda>_.
            and_do (outcome (childing kill_process_group)) (\<lambda>sent. case sent of
                Inr _ \<Rightarrow> give ()
              | Inl error \<Rightarrow> durable_post_root_warning t
                  (''The remaining PTY process group could not be force-terminated after a repeated signal: ''
                   @ dp_pty (tl_shown t) error @ ''. Rewind will stop waiting after one final bounded drain.''))))
        else if first_signal then
          and_do (with_err CapturePty (childing (signal_process_group signal))) (\<lambda>_.
          and_do instant_now (\<lambda>t0. change (\<lambda>s. s\<lparr>cn_termination_deadline := Some (t0 + SIGNAL_GRACE_PERIOD)\<rparr>)))
        else
          and_do (with_err CapturePty (childing kill_process_group)) (\<lambda>_.
            change (\<lambda>s. s\<lparr>cn_termination_deadline := None\<rparr>)))))"

end
