(* ===== verification/Supervision.thy ===== *)
theory Supervision
  imports Coordinator
begin

section \<open>Supervising a run\<close>

text \<open>
  \<open>Coordinator::handle\<close>, the polls, the loop of \<open>supervise\<close> and the end of a run, from
  \<open>rewind-capture/src/recorder.rs\<close>.  What the coordinator receives from its channel is a list of
  answers to \<open>recv_timeout\<close>; a loop that is still waiting when the list ends gives \<open>None\<close>.  The
  producer threads and the control server are outside: they are asked to stop, and how they ended
  is an argument.
\<close>

subsection \<open>The workspace\<close>

definition walk_workspace :: "'j tools \<Rightarrow> ('j, capture_error, stamps) coordinating" where
  "walk_workspace t = recording (and_do (inspect rc_workspace) (\<lambda>workspace.
     on_files (workspace_state (tl_shown t) workspace)))"

definition change_dirty :: "(dirty_tracker \<Rightarrow> dirty_tracker) \<Rightarrow> ('j, 'e, unit) coordinating" where
  "change_dirty f = change (\<lambda>s. s\<lparr>cn_dirty := f (cn_dirty s)\<rparr>)"

definition poll_due :: "('j, 'e, bool) coordinating" where
  "poll_due = and_do (inspect cn_dirty) (\<lambda>d.
     if dt_disabled d then give False
     else and_do instant_now (\<lambda>t0. give (t0 \<ge> dt_next_poll d)))"

definition observe :: "'j tools \<Rightarrow> ('j, capture_error, snapshot_path list) coordinating" where
  "observe t = and_do (inspect (\<lambda>s. dt_deferred_error (cn_dirty s))) (\<lambda>deferred. case deferred of
       Some error \<Rightarrow>
         and_do (change_dirty (\<lambda>d. d\<lparr>dt_deferred_error := None, dt_disabled := True\<rparr>)) (\<lambda>_. stop error)
     | None \<Rightarrow>
         and_do instant_now (\<lambda>t0.
         and_do (change_dirty (\<lambda>d. d\<lparr>dt_next_poll := t0 + dt_poll_interval d\<rparr>)) (\<lambda>_.
         and_do (outcome (walk_workspace t)) (\<lambda>scanned. case scanned of
             Inl error \<Rightarrow>
               if is_dirty_scan_limit error
               then and_do (change_dirty (\<lambda>d. d\<lparr>dt_disabled := True\<rparr>)) (\<lambda>_. stop error)
               else stop error
           | Inr next \<Rightarrow>
               and_do (inspect (\<lambda>s. compare_states t0 next (cn_dirty s))) (\<lambda>(changed, d).
               and_do (change_dirty (\<lambda>_. d)) (\<lambda>_. give changed))))))"

definition clear_after_checkpoint :: "'j tools \<Rightarrow> ('j, 'e, unit) coordinating" where
  "clear_after_checkpoint t =
     and_do (inspect (\<lambda>s. dt_disabled (cn_dirty s))) (\<lambda>disabled.
     and_do (if disabled then give ()
       else and_do (outcome (walk_workspace t)) (\<lambda>scanned. case scanned of
           Inr state \<Rightarrow> change_dirty (\<lambda>d. d\<lparr>dt_observed := state\<rparr>)
         | Inl error \<Rightarrow>
             if is_dirty_scan_limit error
             then and_do (change_dirty (\<lambda>d. d\<lparr>dt_deferred_error := Some error\<rparr>)) (\<lambda>_.
               and_do instant_now (\<lambda>t0. change_dirty (\<lambda>d. d\<lparr>dt_next_poll := t0\<rparr>)))
             else give ())) (\<lambda>_.
     and_do (change_dirty (\<lambda>d. d\<lparr>dt_pending := {}, dt_last_change := None\<rparr>)) (\<lambda>_.
     and_do instant_now (\<lambda>t0.
     and_do (change_dirty (\<lambda>d. d\<lparr>dt_last_checkpoint := t0\<rparr>)) (\<lambda>_.
     and_do instant_now (\<lambda>t1. change_dirty (\<lambda>d. d\<lparr>dt_next_poll := t1 + dt_poll_interval d\<rparr>)))))))"

definition checkpoint_due :: "('j, 'e, bool) coordinating" where
  "checkpoint_due = and_do (inspect (\<lambda>s. (cn_dirty s, rc_options (cn_recorder s)))) (\<lambda>(d, options).
     if dt_pending d = {} then give False
     else and_do instant_now (\<lambda>t0. give (should_checkpoint t0 options d)))"

fun chunks :: "nat \<Rightarrow> 'a list \<Rightarrow> 'a list list" where
  \<comment> \<open>\<open>slice::chunks\<close> for a positive size\<close>
  "chunks n [] = []"
| "chunks n (x # xs) = (x # take (n - 1) xs) # chunks n (drop (n - 1) xs)"

definition emit_dirty :: "'j tools \<Rightarrow> snapshot_path list \<Rightarrow> ('j, capture_error, unit) coordinating" where
  "emit_dirty t paths =
     and_do (lift (map_err (\<lambda>e. CaptureInvalidEvent (dp_payload (tl_shown t) e)) (filesystem_paths_dirtied paths))) (\<lambda>payload.
     and_do (recording (emit t payload)) (\<lambda>_. give ()))"

definition poll_workspace :: "'j tools \<Rightarrow> ('j, 'e, unit) coordinating" where
  "poll_workspace t = and_do (inspect (\<lambda>s. cn_child_exit s \<noteq> None \<or> cn_fatal s \<noteq> None)) (\<lambda>over.
     and_do (if over then give False else poll_due) (\<lambda>due.
     if \<not> due then give ()
     else and_do (outcome (observe t)) (\<lambda>observed. case observed of
         Inr paths \<Rightarrow>
           and_do (change (\<lambda>s. s\<lparr>cn_dirty_warning := False\<rparr>)) (\<lambda>_.
           and_do (outcome (each (emit_dirty t) (chunks MAX_DIRTY_PATHS_PER_EVENT paths))) (\<lambda>emitted. case emitted of
               Inl error \<Rightarrow> fail error
             | Inr _ \<Rightarrow>
                 and_do checkpoint_due (\<lambda>due.
                   if \<not> due then give ()
                   else and_do (outcome (recording (take_checkpoint t ReasonFilesystemQuiescence None))) (\<lambda>taken. case taken of
                       Inr _ \<Rightarrow> clear_after_checkpoint t
                     | Inl error \<Rightarrow> if checkpoint_error_is_nonfatal error then give () else fail error))))
       | Inl error \<Rightarrow>
           and_do (inspect (\<lambda>s. (cn_dirty_warning s, dt_disabled (cn_dirty s)))) (\<lambda>(warned, disabled).
           if warned then give ()
           else
             and_do (fail_on (recording (warning t WarnFilesystemRace (sanitize_text
               ((if disabled
                 then ''Dirty-path hint scanning is disabled for this run; final checkpoint scanning remains authoritative''
                 else ''Dirty-path scan will retry'') @ '': '' @ dp_capture (tl_shown t) error))))) (\<lambda>_.
             change (\<lambda>s. s\<lparr>cn_dirty_warning := True\<rparr>))))))"

subsection \<open>Handling observations\<close>

definition end_of_output :: "('j, 'e, unit) coordinating" where
  "end_of_output = change (\<lambda>s. s\<lparr>cn_output_eof := True, cn_drain_deadline := None\<rparr>)"

definition handle_marker :: "'j tools \<Rightarrow> string option \<Rightarrow> ('j, capture_error, unit) coordinating" where
  "handle_marker t label = and_do (outcome (recording (manual_checkpoint t label))) (\<lambda>result. case result of
       Inr checkpoint \<Rightarrow> and_do (reply (Inr checkpoint)) (\<lambda>_. clear_after_checkpoint t)
     | Inl error \<Rightarrow> and_do (reply (Inl (dp_capture (tl_shown t) error))) (\<lambda>_.
         if checkpoint_error_is_nonfatal error then give () else stop error))"

definition handle_live :: "'j tools \<Rightarrow> observation \<Rightarrow> ('j, capture_error, unit) coordinating" where
  "handle_live t ob = (case ob of
       ObTerminalOutput bytes \<Rightarrow> record_output t bytes
     | ObTerminalInput bytes echo_enabled \<Rightarrow> record_input t bytes echo_enabled
     | ObOutputEof \<Rightarrow> end_of_output
     | ObProcessSnapshot result \<Rightarrow> record_processes t result
     | ObSignal signal \<Rightarrow> handle_signal t signal
     | ObMarker label \<Rightarrow> and_do (inspect cn_child_exit) (\<lambda>exited.
         if exited \<noteq> None then reply (Inl ''run is already stopping'') else handle_marker t label)
     | ObProducerFailed producer message \<Rightarrow> stop (ProducerError producer message))"

definition handle_stopping :: "observation \<Rightarrow> ('j, 'e, unit) coordinating" where
  \<comment> \<open>after a failure\<close>
  "handle_stopping ob = (case ob of
       ObOutputEof \<Rightarrow> end_of_output
     | ObMarker _ \<Rightarrow> reply (Inl ''recorder is stopping after a failure'')
     | _ \<Rightarrow> give ())"

definition handle :: "'j tools \<Rightarrow> observation \<Rightarrow> ('j, 'e, unit) coordinating" where
  "handle t ob = and_do (inspect cn_fatal) (\<lambda>fatal.
     if fatal \<noteq> None then handle_stopping ob else fail_on (handle_live t ob))"

subsection \<open>Polling\<close>

definition note_exit :: "child_exit option \<Rightarrow> ('j, 'e, unit) coordinating" where
  "note_exit exit = change (\<lambda>s. s\<lparr>cn_child_exit := exit\<rparr>)"

definition start_drain :: "('j, 'e, unit) coordinating" where
  "start_drain = and_do (inspect cn_output_eof) (\<lambda>eof. if eof then give () else set_drain_deadline POST_ROOT_DRAIN_GRACE)"

definition unobserved_exit :: child_exit where
  "unobserved_exit = \<lparr>cx_code = 1, cx_signal = Some ''unobserved termination'', cx_signal_number = None\<rparr>"

definition poll_child :: "('j, 'e, unit) coordinating" where
  "poll_child = and_do (inspect cn_child_exit) (\<lambda>exited.
     if exited \<noteq> None then give ()
     else and_do (outcome (childing try_wait)) (\<lambda>polled. case polled of
         Inr (Some exit) \<Rightarrow>
           and_do (note_exit (Some exit)) (\<lambda>_.
           and_do (change (\<lambda>s. s\<lparr>cn_termination_deadline := None\<rparr>)) (\<lambda>_. start_drain))
       | Inr None \<Rightarrow>
           and_do (inspect cn_termination_deadline) (\<lambda>deadline. case deadline of
               None \<Rightarrow> give ()
             | Some deadline \<Rightarrow>
                 and_do instant_now (\<lambda>t0.
                   if t0 \<ge> deadline then
                     and_do (fail_on (with_err CapturePty (childing kill_process_group))) (\<lambda>_.
                       change (\<lambda>s. s\<lparr>cn_termination_deadline := None\<rparr>))
                   else give ()))
       | Inl error \<Rightarrow>
           and_do (fail (CapturePty error)) (\<lambda>_.
           and_do (outcome (childing wait_child)) (\<lambda>waited.
           and_do (note_exit (Some (case waited of Inr exit \<Rightarrow> exit | Inl _ \<Rightarrow> unobserved_exit))) (\<lambda>_.
             start_drain)))))"

definition poll_post_root_drain :: "'j tools \<Rightarrow> ('j, 'e, unit) coordinating" where
  "poll_post_root_drain t = and_do (inspect (\<lambda>s.
       if cn_child_exit s = None \<or> cn_output_eof s \<or> cn_output_abandoned s then None else cn_drain_deadline s)) (\<lambda>waiting. case waiting of
     None \<Rightarrow> give ()
   | Some deadline \<Rightarrow>
       and_do instant_now (\<lambda>t0.
       if t0 < deadline then give ()
       else and_do (inspect cn_kill_requested) (\<lambda>killed.
         if killed then
           and_do (change (\<lambda>s. s\<lparr>cn_drain_deadline := None, cn_output_abandoned := True\<rparr>)) (\<lambda>_.
           durable_post_root_warning t
             ''The terminal remained open after process-group termination was requested; Rewind stopped waiting and the terminal tail may be incomplete.'')
         else
           and_do (change (\<lambda>s. s\<lparr>cn_kill_requested := True\<rparr>)) (\<lambda>_.
           and_do (set_drain_deadline POST_KILL_DRAIN_GRACE) (\<lambda>_.
           and_do (outcome (childing kill_process_group)) (\<lambda>sent. case sent of
               Inr _ \<Rightarrow> durable_post_root_warning t
                 ''The root process exited while the PTY remained open; Rewind requested forced termination of its process group after the bounded drain period.''
             | Inl error \<Rightarrow> durable_post_root_warning t
                 (''The root process exited while the PTY remained open; process-group termination failed after the bounded drain period: ''
                  @ dp_pty (tl_shown t) error @ ''. Rewind will stop waiting after one final bounded drain.'')))))))"

subsection \<open>The loop\<close>

datatype received = RecvObservation observation | RecvTimeout | RecvDisconnected

definition still_running :: "'j coordinator \<Rightarrow> bool" where
  "still_running s \<longleftrightarrow> cn_child_exit s = None \<or> \<not> cn_output_eof s \<and> \<not> cn_output_abandoned s"

definition receive :: "'j tools \<Rightarrow> received \<Rightarrow> ('j, 'e, unit) coordinating" where
  "receive t r = (case r of
       RecvObservation ob \<Rightarrow> handle t ob
     | RecvTimeout \<Rightarrow> give ()
     | RecvDisconnected \<Rightarrow> and_do (inspect cn_output_eof) (\<lambda>eof.
         if eof then give ()
         else fail (ProducerError ''channel'' ''all producer handles disconnected before PTY output ended'')))"

definition supervise_step :: "'j tools \<Rightarrow> received \<Rightarrow> ('j, 'e, unit) coordinating" where
  "supervise_step t r =
     and_do (receive t r) (\<lambda>_. and_do poll_child (\<lambda>_. and_do (poll_post_root_drain t) (\<lambda>_. poll_workspace t)))"

fun supervise_loop :: "'j tools \<Rightarrow> received list \<Rightarrow> ('j, 'e, received list option) coordinating" where
  "supervise_loop t [] = and_do (inspect still_running) (\<lambda>running. give (if running then None else Some []))"
| "supervise_loop t (r # rs) = and_do (inspect still_running) (\<lambda>running.
     if running then and_do (supervise_step t r) (\<lambda>_. supervise_loop t rs) else give (Some (r # rs)))"

definition group_failure :: "'j tools \<Rightarrow> string \<Rightarrow> capture_error \<Rightarrow> ('j, 'e, bool) coordinating" where
  "group_failure t message error =
     and_do (durable_post_root_warning t message) (\<lambda>_. and_do (fail error) (\<lambda>_. give False))"

definition drain_one :: "'j tools \<Rightarrow> received \<Rightarrow> ('j, 'e, unit) coordinating" where
  "drain_one t r = (case r of RecvObservation ob \<Rightarrow> handle t ob | _ \<Rightarrow> give ())"

fun await_group :: "'j tools \<Rightarrow> instant \<Rightarrow> received list \<Rightarrow> ('j, 'e, (bool \<times> received list) option) coordinating" where
  \<comment> \<open>the loop of \<open>terminate_remaining_process_group\<close>\<close>
  "await_group t deadline rs = and_do (outcome (childing process_group_exists)) (\<lambda>exists. case exists of
       Inl error \<Rightarrow>
         and_do (group_failure t (''The PTY process group could not be checked after forced termination: ''
           @ dp_pty (tl_shown t) error @ ''. No final checkpoint will be committed.'') (CapturePty error)) (\<lambda>stopped.
         give (Some (stopped, rs)))
     | Inr False \<Rightarrow> give (Some (True, rs))
     | Inr True \<Rightarrow>
         and_do instant_now (\<lambda>t0.
           if t0 < deadline then
             (case rs of [] \<Rightarrow> give None
              | r # rs \<Rightarrow> and_do (drain_one t r) (\<lambda>_. await_group t deadline rs))
           else
             and_do (group_failure t ''The PTY process group remained after forced termination; no final checkpoint will be committed.''
               (ProducerError ''process group shutdown'' ''processes remained after forced termination'')) (\<lambda>stopped.
             give (Some (stopped, rs)))))"

definition terminate_remaining_process_group ::
    "'j tools \<Rightarrow> received list \<Rightarrow> ('j, 'e, (bool \<times> received list) option) coordinating" where
  "terminate_remaining_process_group t rs =
     and_do (outcome (childing process_group_exists)) (\<lambda>exists. case exists of
         Inr False \<Rightarrow> give (Some (True, rs))
       | Inl error \<Rightarrow>
           and_do (group_failure t (''The PTY process group could not be checked before the final workspace scan: ''
             @ dp_pty (tl_shown t) error @ ''. No final checkpoint will be committed.'') (CapturePty error)) (\<lambda>stopped.
           give (Some (stopped, rs)))
       | Inr True \<Rightarrow>
           and_do (outcome (childing kill_process_group)) (\<lambda>killed. case killed of
               Inl error \<Rightarrow>
                 and_do (group_failure t (''The PTY process group could not be terminated before the final workspace scan: ''
                   @ dp_pty (tl_shown t) error @ ''. No final checkpoint will be committed.'') (CapturePty error)) (\<lambda>stopped.
                 give (Some (stopped, rs)))
             | Inr _ \<Rightarrow>
                 and_do (durable_post_root_warning t
                   ''The root process exited while descendants remained in its process group; Rewind terminated them before the final workspace scan.'') (\<lambda>_.
                 and_do instant_now (\<lambda>t0. await_group t (t0 + POST_KILL_DRAIN_GRACE) rs))))"

subsection \<open>The end\<close>

record capture_outcome =
  ou_run :: run_id
  ou_workspace :: "string list"
  ou_strategy :: workspace_clone_strategy
  ou_initial_snapshot :: snapshot_id
  ou_final_snapshot :: snapshot_id
  ou_status :: run_status
  ou_exit_status :: process_exit_status
  ou_checkpoint_count :: u64
  ou_output_bytes :: u64

definition store_failed :: "'j coordinator \<Rightarrow> bool" where
  "store_failed s = (case cn_fatal s of None \<Rightarrow> False | Some error \<Rightarrow> is_store_failure error)"

definition final_checkpoint :: "'j tools \<Rightarrow> bool \<Rightarrow> ('j, 'e, snapshot_id option) coordinating" where
  "final_checkpoint t process_group_stopped = and_do (inspect store_failed) (\<lambda>failed.
     if failed \<or> \<not> process_group_stopped then give None
     else and_do (outcome (recording (take_checkpoint t ReasonFinal None))) (\<lambda>taken. case taken of
         Inr commit \<Rightarrow>
           and_do (fail_on (recording (warn_exclusions t (cc_exclusions commit)))) (\<lambda>_.
             give (Some (cc_snapshot_id commit)))
       | Inl error \<Rightarrow> and_do (fail error) (\<lambda>_. give None)))"

definition run_outcome :: "'j coordinator \<Rightarrow> process_exit_status \<Rightarrow> run_status" where
  "run_outcome s exit_status =
     (if cn_interrupted_signal s \<noteq> None then Interrupted
      else if cn_fatal s \<noteq> None then Failed
      else if exit_success exit_status = Some True then Completed
      else Failed)"

definition conclude ::
    "'j tools \<Rightarrow> workspace_clone_strategy \<Rightarrow> snapshot_id \<Rightarrow> bool \<Rightarrow> ('j, capture_error, capture_outcome) coordinating" where
  "conclude t strategy initial_snapshot process_group_stopped =
     and_do (inspect (\<lambda>s. case cn_child_exit s of Some exit \<Rightarrow> domain_exit exit | None \<Rightarrow> ExitUnknown)) (\<lambda>exit_status.
     and_do (inspect (\<lambda>s. (store_failed s, cn_root_pid s))) (\<lambda>(failed, root_pid).
     and_do (if failed then give ()
             else fail_on (recording (and_do (emit t (ProcessExited root_pid exit_status)) (\<lambda>_. give ())))) (\<lambda>_.
     and_do (final_checkpoint t process_group_stopped) (\<lambda>final_snapshot.
     and_do (fail_on (recording (cleanup_exclusions_for_retention t))) (\<lambda>_.
     and_do (inspect (\<lambda>s. run_outcome s exit_status)) (\<lambda>status.
     and_do (fail_on (recording (finish_recording t status exit_status final_snapshot))) (\<lambda>_.
     and_do (inspect cn_fatal) (\<lambda>fatal. case fatal of
         Some error \<Rightarrow> stop error
       | None \<Rightarrow>
           and_do (lift (ok_or (ProducerError ''checkpoint'' ''final authoritative snapshot was not committed'') final_snapshot)) (\<lambda>final_snapshot.
           and_do (inspect (\<lambda>s. (cn_recorder s, cn_output_bytes s))) (\<lambda>(r, output_bytes).
             give \<lparr>ou_run = rc_run r, ou_workspace = rc_workspace r, ou_strategy = strategy,
               ou_initial_snapshot = initial_snapshot, ou_final_snapshot = final_snapshot, ou_status = status,
               ou_exit_status = exit_status, ou_checkpoint_count = rc_checkpoint_count r,
               ou_output_bytes = output_bytes\<rparr>))))))))))"

definition supervise ::
    "'j tools \<Rightarrow> workspace_clone_strategy \<Rightarrow> snapshot_id \<Rightarrow> received list \<Rightarrow> (capture_error, unit) result list
     \<Rightarrow> ('j, capture_error, capture_outcome option) coordinating" where
  \<comment> \<open>the received observations, and how the producer threads ended\<close>
  "supervise t strategy initial_snapshot rs joined =
     and_do (supervise_loop t rs) (\<lambda>left. case left of None \<Rightarrow> give None | Some rs \<Rightarrow>
     and_do (terminate_remaining_process_group t rs) (\<lambda>ended. case ended of None \<Rightarrow> give None | Some (stopped, rs) \<Rightarrow>
     and_do (each (drain_one t) rs) (\<lambda>_.
     and_do (each (\<lambda>j. fail_on (lift j)) joined) (\<lambda>_.
     and_do (conclude t strategy initial_snapshot stopped) (\<lambda>result. give (Some result))))))"

definition after_supervision ::
    "'j tools \<Rightarrow> snapshot_id \<Rightarrow> (capture_error, 'a) result \<Rightarrow> ('j recorder, 'e, unit) effect" where
  \<comment> \<open>what \<open>capture_with_store\<close> does when \<open>supervise\<close> failed\<close>
  "after_supervision t initial_snapshot result = (case result of
       Inr _ \<Rightarrow> give ()
     | Inl error \<Rightarrow>
         and_do (inspect (\<lambda>r. case load_run (tl_env t) (st_db (rc_store r)) (rc_run r) of
             Inr run \<Rightarrow> run_state run = Running | Inl _ \<Rightarrow> False)) (\<lambda>running.
         and_do (if running then finish_running_without_child t initial_snapshot (dp_capture (tl_shown t) error) else give ()) (\<lambda>_.
           ignoring (cleanup_exclusions_for_retention t))))"

subsection \<open>The beginning\<close>

definition startup_events ::
    "'j tools \<Rightarrow> process_id \<Rightarrow> workspace_clone_strategy \<Rightarrow> pty_size \<Rightarrow> string \<Rightarrow> bool \<Rightarrow> nat \<Rightarrow> ('j, unit) recording" where
  "startup_events t root_pid strategy dims command size_uncertain excluded =
     and_do (inspect rc_stream) (\<lambda>stream_id.
     and_do (emit t (RunStarted root_pid stream_id)) (\<lambda>_.
     and_do (emit t (WorkspaceIsolated strategy)) (\<lambda>_.
     and_do (emit t (TerminalResized stream_id (ps_columns dims) (ps_rows dims))) (\<lambda>_.
     and_do (emit t (ProcessObserved \<lparr>obs_process_id = root_pid, obs_parent_process_id = None, obs_executable = None,
       obs_command = command, obs_relationship = RootProcess\<rparr>)) (\<lambda>_.
     and_do (case strategy of
         MixedClone \<Rightarrow> warning t WarnCloneFallback
           ''Workspace isolation used a mix of copy-on-write clones and byte copies; large workspaces may take longer.''
       | RecursiveCopy \<Rightarrow> warning t WarnCloneFallback
           ''Workspace isolation used a recursive byte copy; large workspaces may take longer.''
       | _ \<Rightarrow> give ()) (\<lambda>_.
     and_do (if size_uncertain then warning t WarnOther
         ''Could not read the parent terminal size; the configured fallback was used.'' else give ()) (\<lambda>_.
     and_do (warn_exclusions t excluded) (\<lambda>_.
       flush_events t))))))))"

end
