(* ===== verification/Session_Growth.thy ===== *)
theory Session_Growth
  imports Recorder_Effects Supervision
begin

section \<open>Which events an operation adds\<close>

text \<open>
  Only terminal input and output refer to objects.  \<open>grown\<close> strengthens \<open>track\<close>: all events added
  to the history are of the other kinds.  Every operation of the recorder but the recording of
  terminal bytes keeps it.
\<close>

definition plain :: "event \<Rightarrow> bool" where
  "plain e \<longleftrightarrow> referenced_object (ev_payload e) = None"

definition grown :: "'j tools \<Rightarrow> 'j json_lib \<Rightarrow> 'j recorder \<Rightarrow> bool \<Rightarrow> 'j recorder \<Rightarrow> bool" where
  "grown t js s0 b s \<longleftrightarrow> track t js s0 b s \<and> (\<exists>es. history t s = history t s0 @ es \<and> list_all plain es)"

lemma grown_track: "grown t js s0 b s \<Longrightarrow> track t js s0 b s"
  by (simp add: grown_def)

lemma grownI: "track t js s0 b s \<Longrightarrow> history t s = history t s0 @ es \<Longrightarrow> list_all plain es \<Longrightarrow> grown t js s0 b s"
  by (auto simp: grown_def)

lemma grown_same: "track t js s0 b s \<Longrightarrow> history t s = history t s0 \<Longrightarrow> grown t js s0 b s"
  by (rule grownI [where es = "[]"]) simp_all

lemma grown_trans: "grown t js s0 b s \<Longrightarrow> grown t js s b s' \<Longrightarrow> grown t js s0 b s'"
  unfolding grown_def using track_trans by fastforce

lemma grown_weak: "grown t js s0 b s \<Longrightarrow> grown t js s0 False s"
  by (auto simp: grown_def track_def)

lemma grown_start: "recorder_ok t js s \<Longrightarrow> (b \<Longrightarrow> in_step t s) \<Longrightarrow> grown t js s b s"
  by (rule grown_same) (simp_all add: track_start)

lemma grown_preserves:
  assumes "\<And>s. recorder_ok t js s \<Longrightarrow> (b \<Longrightarrow> in_step t s) \<Longrightarrow>
      after m (\<lambda>_. grown t js s b) (\<lambda>e s'. F e \<or> grown t js s b s') s"
  shows "preserves (grown t js s0 b) F m"
proof (rule preservesI)
  fix s assume s: "grown t js s0 b s"
  then have "after m (\<lambda>_. grown t js s b) (\<lambda>e s'. F e \<or> grown t js s b s') s"
    by (intro assms) (simp_all add: grown_def track_def)
  then show "after m (\<lambda>_. grown t js s0 b) (\<lambda>e s'. F e \<or> grown t js s0 b s') s"
    by (rule after_mono) (use grown_trans [OF s] in blast)+
qed

lemma clocked_grown: "clocked s s' \<Longrightarrow> recorder_ok t js s \<Longrightarrow> (b \<Longrightarrow> in_step t s) \<Longrightarrow> grown t js s b s'"
  by (rule grown_same [OF clocked_track]) (auto simp: clocked_def history_def)

lemma queued_plain: "queued t payload s e s' \<Longrightarrow> referenced_object payload = None \<Longrightarrow> plain e"
  by (auto simp: queued_def stamped_def plain_def)

interpretation grown: recorder_invariant t "grown t js s0 b" for t js s0 b
proof
  show "preserves (grown t js s0 b) (\<lambda>_. False) (flush_events t)"
    by (rule grown_preserves) (rule after_mono [OF flush_events_spec [where b = b]], auto simp: grown_start intro: grown_same)
  show "preserves (grown t js s0 b) (\<lambda>_. False) (queue_event t payload)" if "referenced_object payload = None" for payload
    by (rule grown_preserves, rule after_mono [OF queue_event_spec])
      (auto simp: clocked_grown dest: queued_plain [OF _ that] queued_history intro!: grownI queued_track)
  show "grown t js s0 b s'" if "clocked s s'" and "grown t js s0 b s" for s s'
    using grown_trans [OF that(2) clocked_grown [OF that(1)]] that(2) by (simp add: grown_def track_def)
  show "grown t js s0 b s \<Longrightarrow> grown t js s0 b (s\<lparr>rc_excluded := X\<rparr>)" "grown t js s0 b s \<Longrightarrow> grown t js s0 b (s\<lparr>rc_world := w\<rparr>)"
    "grown t js s0 b s \<Longrightarrow> grown t js s0 b (s\<lparr>rc_checkpoint_count := n\<rparr>)" for s X w n
    by (simp_all add: grown_def track_fields) (simp_all add: history_def)
qed

subsection \<open>Checkpoints\<close>

lemma stamped_history: "stamped d payload s e s' \<Longrightarrow> history t s' = history t s"
  by (auto simp: stamped_def history_def)

lemma commit_scanned_grown:
  assumes s: "recorder_ok t js s" and p: "rc_pending s = []" and c: "checkpoint_id_ok c" and snap: "snapshot_typed (srp_snapshot report)"
  shows "after (commit_scanned t c reason label report) (\<lambda>_ _. True)
    (\<lambda>_ s'. \<exists>es. history t s' = history t s @ es \<and> list_all plain es) s"
proof -
  let ?E = "\<lambda>(_ :: capture_error) s'. \<exists>es. history t s' = history t s @ es \<and> list_all plain es"
  let ?s = "s\<lparr>rc_excluded := rc_excluded s \<union> ex_path ` set (srp_exclusions report)\<rparr>"
  let ?limit = "emit_checkpoint_failed t c FailResourceLimit ''Run storage limit prevented this checkpoint from committing.''"
  have tr: "track t js s False ?s" by (rule track_fields(2)) (simp add: track_start s)
  then have ok: "recorder_ok t js ?s" by (simp add: track_def)
  have start: "grown t js ?s False ?s" by (rule grown_start) (simp_all add: ok)
  have "after (within_budget t (snapshot_objects (srp_snapshot report)) ?limit) (\<lambda>_. grown t js ?s False)
      (\<lambda>e s'. False \<or> grown t js ?s False s') ?s"
    by (rule preservesD [OF grown.keeps_within_budget [OF grown.keeps_checkpoint_failed] start])
  moreover have "after (within_budget t (snapshot_objects (srp_snapshot report)) ?limit) (\<lambda>_ s'. s' = ?s) (\<lambda>_. track t js ?s False) ?s"
    by (rule after_mono [OF within_budget_spec [where b = False, OF ok _ tracked.keeps_checkpoint_failed]]) simp_all
  ultimately have budget: "after (within_budget t (snapshot_objects (srp_snapshot report)) ?limit) (\<lambda>_ s'. s' = ?s) ?E ?s"
    by (rule after_mono [OF after_conj]) (auto simp: grown_def history_def)
  show ?thesis
    unfolding commit_scanned_def Let_def after_and_do [of "change _"] after_change
  proof (rule after_seq [OF budget], goal_cases)
    case (1 r s1)
    then have s1: "s1 = ?s" by simp
    show ?case
      unfolding s1
    proof (rule after_seq [OF after_mono [OF sequencer_next_spec]], assumption, goal_cases)
      case (1 x s')
      then show ?case by (auto simp: clocked_def history_def)
    next
      case (2 e s2)
      then have st: "stamped (tl_shown t) (CheckpointCommitted c (snapshot_identity (srp_snapshot report))) ?s e s2" by simp
      then have same: "rc_store s2 = rc_store s" "rc_run s2 = rc_run s" and pay: "plain e" by (auto simp: stamped_def plain_def)
      have h2: "history t s2 = history t s" using stamped_history [OF st] by (simp add: history_def)
      show ?case
      proof (cases "commit_checkpoint_with_event (tl_env t) (rc_store s) (checkpoint_of c reason label (rc_run s) (srp_snapshot report) e) (srp_snapshot report) e")
        case (Inl x)
        then show ?thesis using h2 by (simp add: same checkpoint_of_def)
      next
        case (Inr st')
        have commit: "commit_checkpoint_with_event (tl_env t) (rc_store ?s) (checkpoint_of c reason label (rc_run ?s) (srp_snapshot report) e) (srp_snapshot report) e = Inr st'"
          using Inr by simp
        have pend: "rc_pending ?s = []" using p by simp
        have "history t (s2\<lparr>rc_store := st'\<rparr>) = history t s @ [e]"
          using commit_step(2) [where b = False, OF ok _ pend st snap c commit] by (simp add: history_def)
        then have "history t (s2\<lparr>rc_store := st', rc_accounted := A, rc_logical_bytes := n\<rparr>) = history t s @ [e]" for A n
          by (simp add: history_def)
        then show ?thesis using Inr pay
          by (simp add: same checkpoint_of_def after_lift account_objects_def split: sum.split)
      qed
    qed
  qed
qed

lemma checkpoint_allocated_grown:
  assumes s: "recorder_ok t js s" and c: "checkpoint_id_ok c"
  shows "after (checkpoint_allocated t c reason label) (\<lambda>_ _. True)
    (\<lambda>_ s'. \<exists>es. history t s' = history t s @ es \<and> list_all plain es) s"
proof -
  let ?E = "\<lambda>(_ :: capture_error) s'. \<exists>es. history t s' = history t s @ es \<and> list_all plain es"
  have start: "grown t js s False s" by (rule grown_start) (simp_all add: s)
  have step: "after m (\<lambda>_. grown t js s False) ?E s1"
    if "\<And>s0. preserves (grown t js s0 False) (\<lambda>_. False) m" and "grown t js s False s1" for m :: "('a, 'x) recording" and s1
    using preservesD [OF that] by (rule after_mono) (auto simp: grown_def)
  have emit: "\<And>s0. preserves (grown t js s0 False) (\<lambda>_. False) (emit t (CheckpointStarted c reason))"
    by (rule grown.keeps_emit) simp
  show ?thesis
    unfolding checkpoint_allocated_def
  proof (rule after_seq [OF step [OF emit start]], goal_cases)
    case (1 n s1)
    then have ok1: "recorder_ok t js s1" by (simp add: grown_def track_def)
    have "after (flush_events t) (\<lambda>_ s'. grown t js s False s' \<and> rc_pending s' = []) (\<lambda>_. grown t js s False) s1"
      by (rule after_mono [OF flush_events_spec [where b = False, OF ok1]])
        (auto intro: grown_trans [OF 1] grown_same 1)
    then have "after (flush_events t) (\<lambda>_ s'. grown t js s False s' \<and> rc_pending s' = []) ?E s1"
      by (rule after_mono) (auto simp: grown_def)
    then show ?case
    proof (rule after_seq, goal_cases)
      case (1 u s2)
      note two = 1
      show ?case
    proof (rule after_seq [OF after_mono [OF clocked_timestamp]], assumption, goal_cases)
      case (1 x s')
      then show ?case using two by (auto simp: grown_def clocked_def history_def)
    next
      case (2 created s3)
      then have g3: "grown t js s False s3" and p3: "rc_pending s3 = []"
        using two grown.clock [of s2 s3] by (auto simp: clocked_def)
      then have ok3: "recorder_ok t js s3" by (simp add: grown_def track_def)
      show ?case
        unfolding after_and_do [of "outcome _"] after_outcome
      proof (rule after_mono [OF scan_now_spec [where b = False, OF ok3 FalseE]], assumption, goal_cases)
        case (1 report s4)
        then have ok4: "recorder_ok t js s4" and p4: "rc_pending s4 = []" and h4: "history t s4 = history t s3"
          and typed: "snapshot_typed (srp_snapshot report)" using p3 by (auto simp: track_def)
        show ?case
          unfolding sum.case
          by (rule after_mono [OF commit_scanned_grown [OF ok4 p4 c typed]]) (use g3 h4 in \<open>auto simp: grown_def\<close>)
      next
        case (2 x s4)
        then have "grown t js s3 False s4" by (intro grown_same) simp_all
        then have g4: "grown t js s False s4" by (rule grown_trans [OF g3])
        have "after (and_do (and_do (emit_checkpoint_failed t c FailSnapshot
             ''Authoritative workspace scan failed; no checkpoint was committed.'') (\<lambda>_. flush_events t)) (\<lambda>_. stop (CaptureSnapshot x)))
           (\<lambda>_. grown t js s False) ?E s4"
          by (rule step [OF _ g4]) (intro keeping)
        then show ?case unfolding sum.case and_do_assoc by (rule after_mono) simp_all
      qed
    qed
  qed
  qed
qed

lemma take_checkpoint_growth:
  assumes s: "recorder_ok t js s"
  shows "after (take_checkpoint t reason label) (\<lambda>_ _. True) (\<lambda>_ s'. \<exists>es. history t s' = history t s @ es \<and> list_all plain es) s"
  unfolding take_checkpoint_def
proof (rule after_seq [OF after_mono [OF clocked_ask]], assumption, goal_cases)
  case (2 fresh s1)
  then have ok: "recorder_ok t js s1" and h: "history t s1 = history t s" and c: "checkpoint_id_ok (CheckpointId fresh)"
    using clocked_track [of s s1 t js False] s host_id [OF s] by (auto simp: clocked_def history_def track_def)
  then show ?case by (intro after_mono [OF checkpoint_allocated_grown [OF ok c]]) auto
qed simp

lemma manual_checkpoint_growth:
  assumes s: "recorder_ok t js s"
  shows "after (manual_checkpoint t label) (\<lambda>_ _. True) (\<lambda>_ s'. \<exists>es. history t s' = history t s @ es \<and> list_all plain es) s"
proof (cases label)
  case None
  show ?thesis
    unfolding manual_checkpoint_def None option.case
    by (rule after_seq [OF take_checkpoint_growth [OF s]]) simp
next
  case (Some l)
  show ?thesis
    unfolding manual_checkpoint_def Some option.case
  proof (rule after_seq [OF after_mono [OF clocked_ask]], assumption, goal_cases)
    case (2 fresh s1)
    then have g: "grown t js s False s1" and c: "checkpoint_id_ok (CheckpointId fresh)"
      using clocked_grown [of s s1 t js False] s host_id [OF s] by auto
    have "preserves (grown t js s False) (\<lambda>_. False) (emit t (MarkerCreated (CheckpointId fresh) l))"
      by (rule grown.keeps_emit) simp
    note marked = preservesD [OF this g]
    show ?case
    proof (rule after_seq [OF after_mono [OF marked]], assumption, goal_cases)
      case (1 x s2)
      then show ?case by (auto simp: grown_def)
    next
      case (2 n s2)
      then have ok: "recorder_ok t js s2" by (simp add: grown_def track_def)
      show ?case
      proof (rule after_seq [OF after_mono [OF checkpoint_allocated_grown [OF ok c]]], assumption, goal_cases)
        case (1 x s3)
        then show ?case using 2 by (auto simp: grown_def)
      qed simp
    qed
  qed simp
qed

lemma take_checkpoint_keeps:
  assumes s: "recorder_ok t js s" and b: "b \<Longrightarrow> in_step t s"
  shows "after (take_checkpoint t reason label) (\<lambda>_. grown t js s b)
    (\<lambda>x s'. grown t js s b s' \<or> is_store_failure x \<and> grown t js s False s') s"
  by (rule after_mono [OF after_conj [OF take_checkpoint_spec [where b = b, OF s b] take_checkpoint_growth [OF s]]])
    (auto simp: checkpointed_def plain_def intro: grownI)

lemma manual_checkpoint_keeps:
  assumes s: "recorder_ok t js s" and b: "b \<Longrightarrow> in_step t s"
  shows "after (manual_checkpoint t label) (\<lambda>_. grown t js s b)
    (\<lambda>x s'. grown t js s b s' \<or> is_store_failure x \<and> grown t js s False s') s"
proof (rule after_mono [OF after_conj [OF manual_checkpoint_spec [where b = b, OF s b] manual_checkpoint_growth [OF s]]], assumption, goal_cases)
  case (1 c s')
  then obtain marks start e snap where e: "history t s' = history t s @ marks @ [start, e]"
      "map ev_payload marks = (case label of None \<Rightarrow> [] | Some l \<Rightarrow> [MarkerCreated c l])"
      "ev_payload start = CheckpointStarted c ReasonManual" "checkpointed t c ReasonManual label snap e s'" by blast
  then have "list_all plain marks" by (cases label) (auto simp: plain_def)
  then show ?case using 1 e by (intro grownI [where es = "marks @ [start, e]"]) (auto simp: checkpointed_def plain_def)
next
  case (2 x s')
  then show ?case by (auto intro: grownI)
qed

lemma commit_finish_keeps:
  assumes s: "recorder_ok t js s" and b: "b \<Longrightarrow> in_step t s"
  shows "after (commit_finish t summary) (\<lambda>_. grown t js s b) (\<lambda>x s'. False \<or> grown t js s b s') s"
  by (rule after_mono [OF commit_finish_spec [where b = b, OF s b]]) (auto intro: grown_same grown_start s b)

interpretation in_step: recording_invariant t "grown t js s0 True" is_store_failure for t js s0
proof
  show "preserves (grown t js s0 True) is_store_failure (take_checkpoint t reason label)" for reason label
    by (rule grown_preserves) (rule after_mono [OF take_checkpoint_keeps [where b = True]], auto)
  show "preserves (grown t js s0 True) is_store_failure (manual_checkpoint t label)" for label
    by (rule grown_preserves) (rule after_mono [OF manual_checkpoint_keeps [where b = True]], auto)
  show "preserves (grown t js s0 True) (\<lambda>_. False) (commit_finish t summary)" for summary
    by (rule grown_preserves) (rule commit_finish_keeps)
qed

interpretation grown: recording_invariant t "grown t js s0 False" "\<lambda>_. False" for t js s0
proof
  show "preserves (grown t js s0 False) (\<lambda>_. False) (take_checkpoint t reason label)" for reason label
    by (rule grown_preserves) (rule after_mono [OF take_checkpoint_keeps [where b = False]], auto)
  show "preserves (grown t js s0 False) (\<lambda>_. False) (manual_checkpoint t label)" for label
    by (rule grown_preserves) (rule after_mono [OF manual_checkpoint_keeps [where b = False]], auto)
  show "preserves (grown t js s0 False) (\<lambda>_. False) (commit_finish t summary)" for summary
    by (rule grown_preserves) (rule commit_finish_keeps, simp_all)
qed

subsection \<open>Terminal bytes\<close>

lemma put_object_spec:
  assumes s: "recorder_ok t js s" and b: "b \<Longrightarrow> in_step t s" and put: "put_object (tl_env t) (rc_store s) bytes created = (st, r)"
  shows "grown t js s b (s\<lparr>rc_store := st\<rparr>)" and "history t (s\<lparr>rc_store := st\<rparr>) = history t s"
    and "r = Inr so \<Longrightarrow> object_size st (so_id so) = Some (uint (so_logical_size so))"
proof -
  have env: "env_ok (tl_env t)" using s by (simp add: recorder_ok_def)
  have puts: "puts (tl_env t) (rc_store s) st" using put by (auto simp: puts_def intro: store_put.intros)
  have h: "history t (s\<lparr>rc_store := st\<rparr>) = history t s"
    using puts_timeline [OF puts env recorder_store_ok [OF s]] by (simp add: history_def)
  have "track t js s b (s\<lparr>rc_store := st, rc_pending := rc_pending s\<rparr>)"
    using b puts_steps [OF puts] s h
    by (intro store_change [OF s]) (simp_all add: puts_sizes [OF puts] in_step_def recorder_ok_def)
  then show "grown t js s b (s\<lparr>rc_store := st\<rparr>)" using h by (intro grown_same) simp_all
  show "history t (s\<lparr>rc_store := st\<rparr>) = history t s" by (rule h)
  show "object_size st (so_id so) = Some (uint (so_logical_size so))" if "r = Inr so"
    using put_object_sizes(2) [OF put that] .
qed

lemma emit_object_reference_growth:
  assumes s: "recorder_ok t js s" and b: "b \<Longrightarrow> in_step t s" and size: "object_size (rc_store s) i = Some (uint n)"
  shows "after (emit_object_reference t i n payload)
    (\<lambda>q s'. track t js s b s' \<and> i \<in> rc_accounted s' \<and> (\<exists>e. history t s' = history t s @ [e] \<and> ev_payload e = payload))
    (\<lambda>x s'. track t js s b s' \<and> (is_store_failure x \<or> grown t js s b s')) s"
proof -
  have start: "grown t js s b s" by (rule grown_start) (use s b in auto)
  have "after (within_budget t [(i, n)] (give ())) (\<lambda>_. grown t js s b) (\<lambda>x s'. False \<or> grown t js s b s') s"
    by (rule preservesD [OF grown.keeps_within_budget [OF keeping(1)] start])
  from after_conj [OF within_budget_spec [where b = b and candidates = "[(i, n)]", OF s b keeping(1)] this]
  have budget: "after (within_budget t [(i, n)] (give ())) (\<lambda>_ s'. s' = s) (\<lambda>x s'. is_store_failure x \<or> grown t js s b s') s"
    by (rule after_mono) auto
  have "after (emit_object_reference t i n payload) (\<lambda>_ _. True) (\<lambda>x s'. is_store_failure x \<or> grown t js s b s') s"
    unfolding emit_object_reference_def Let_def
  proof (rule after_seq [OF budget], goal_cases)
    case (1 r s1)
    then have s1: "s1 = s" by simp
    show ?case
      unfolding s1
    proof (rule after_seq [OF after_mono [OF emit_spec [where b = b, OF s b]]], assumption, assumption, goal_cases)
      case (1 x s')
      then show ?case using clocked_grown [where b = b, OF _ s b] by blast
    qed (simp add: account_objects_def)
  qed
  from after_conj [OF emit_object_reference_spec [where b = b, OF s b size] this] show ?thesis
    by (rule after_mono) auto
qed

lemma store_and_refer_spec:
  assumes s: "recorder_ok t js s" and b: "b \<Longrightarrow> in_step t s"
  shows "after (store_and_refer t bytes payload)
    (\<lambda>_ s'. track t js s b s' \<and> (\<exists>e i. history t s' = history t s @ [e] \<and> ev_payload e = payload i \<and> i \<in> rc_accounted s'))
    (\<lambda>x s'. track t js s b s' \<and> (is_store_failure x \<or> grown t js s b s')) s"
  unfolding store_and_refer_def
proof (rule after_seq [OF after_mono [OF clocked_timestamp]], assumption, goal_cases)
  case (1 x s')
  then show ?case using clocked_grown [of s s' t js b] s b by (auto simp: grown_def)
next
  case (2 at s1)
  then have g1: "grown t js s b s1" using clocked_grown [of s s1 t js b] s b by blast
  then have ok: "recorder_ok t js s1" and step: "b \<Longrightarrow> in_step t s1" by (simp_all add: grown_def track_def)
  obtain st r where put: "put_object (tl_env t) (rc_store s1) bytes (as_unix_milliseconds at) = (st, r)" by force
  have g2: "grown t js s b (s1\<lparr>rc_store := st\<rparr>)"
    by (rule grown_trans [OF g1 put_object_spec(1) [where b = b, OF ok step put]])
  then have ok2: "recorder_ok t js (s1\<lparr>rc_store := st\<rparr>)" and step2: "b \<Longrightarrow> in_step t (s1\<lparr>rc_store := st\<rparr>)"
    by (simp_all add: grown_def track_def)
  have same: "history t (s1\<lparr>rc_store := st\<rparr>) = history t s"
    using put_object_spec(2) [where b = b, OF ok step put] 2 by (auto simp: clocked_def history_def)
  show ?case
  proof (cases r)
    case (Inl x)
    then show ?thesis using g2 put by (simp add: after_def and_do_def with_err_def at_part_def grown_def is_store_failure_def)
  next
    case (Inr so)
    have size: "object_size (rc_store (s1\<lparr>rc_store := st\<rparr>)) (so_id so) = Some (uint (so_logical_size so))"
      using put_object_spec(3) [where b = b, OF ok step put Inr] by simp
    have "after (emit_object_reference t (so_id so) (so_logical_size so) (payload (so_id so)))
      (\<lambda>_ s'. track t js s b s' \<and> (\<exists>e i. history t s' = history t s @ [e] \<and> ev_payload e = payload i \<and> i \<in> rc_accounted s'))
      (\<lambda>x s'. track t js s b s' \<and> (is_store_failure x \<or> grown t js s b s')) (s1\<lparr>rc_store := st\<rparr>)"
    proof (rule after_mono [OF emit_object_reference_growth [where b = b, OF ok2 step2 size]], assumption, goal_cases)
      case (1 q s')
      then show ?case using track_trans [OF grown_track [OF g2]] same by auto
    next
      case (2 x s')
      then show ?case using track_trans [OF grown_track [OF g2]] grown_trans [OF g2] by blast
    qed
    then show ?thesis using put Inr by (simp add: after_def and_do_def with_err_def at_part_def give_def split: prod.splits sum.splits)
  qed
qed

end
