(* ===== verification/Session_Spec.thy ===== *)
theory Session_Spec
  imports Session_Growth
begin

section \<open>What a supervised run keeps\<close>

text \<open>
  \<open>supervised\<close> is the invariant of the coordinator: the recorder is sound and only adds to its
  history, the terminal bytes counted stay within the limit, and as long as nothing has failed
  the history is numbered without a gap and its output events add up to the counted bytes.  A
  step whose error will be made fatal need only keep \<open>confined\<close>, the part without the condition:
  \<open>steps m\<close> says that \<open>m\<close> keeps \<open>supervised\<close> unless it fails with an error of the store.
\<close>

definition output_total :: "event list \<Rightarrow> int" where
  "output_total es = sum_list (map (\<lambda>e. case ev_payload e of TerminalOutput _ _ n \<Rightarrow> uint n | _ \<Rightarrow> 0) es)"

lemma output_total_append [simp]: "output_total (es @ es') = output_total es + output_total es'"
  by (simp add: output_total_def)

lemma output_total_plain: "list_all plain es \<Longrightarrow> output_total es = 0"
  by (induction es) (auto simp: output_total_def plain_def split: event_payload.splits)

definition confined :: "'j tools \<Rightarrow> 'j json_lib \<Rightarrow> 'j coordinator \<Rightarrow> 'j coordinator \<Rightarrow> bool" where
  "confined t js c0 s \<longleftrightarrow> track t js (cn_recorder c0) False (cn_recorder s)
     \<and> cn_output_bytes s \<le> co_terminal_max_bytes (rc_options (cn_recorder c0))"

definition exact :: "'j tools \<Rightarrow> 'j coordinator \<Rightarrow> bool" where
  "exact t s \<longleftrightarrow> in_step t (cn_recorder s) \<and> output_total (history t (cn_recorder s)) = uint (cn_output_bytes s)"

definition supervised :: "'j tools \<Rightarrow> 'j json_lib \<Rightarrow> 'j coordinator \<Rightarrow> 'j coordinator \<Rightarrow> bool" where
  "supervised t js c0 s \<longleftrightarrow> confined t js c0 s \<and> (cn_fatal s = None \<longrightarrow> exact t s)"

definition steps :: "'j tools \<Rightarrow> 'j json_lib \<Rightarrow> 'j coordinator \<Rightarrow> ('j, capture_error, 'a) coordinating \<Rightarrow> bool" where
  "steps t js c0 m \<longleftrightarrow> (\<forall>s. supervised t js c0 s \<longrightarrow>
     after m (\<lambda>_. supervised t js c0) (\<lambda>x s'. confined t js c0 s' \<and> (is_store_failure x \<or> supervised t js c0 s')) s)"

named_theorems stepping

lemma stepsI: "(\<And>s. supervised t js c0 s \<Longrightarrow>
     after m (\<lambda>_. supervised t js c0) (\<lambda>x s'. confined t js c0 s' \<and> (is_store_failure x \<or> supervised t js c0 s')) s) \<Longrightarrow> steps t js c0 m"
  by (simp add: steps_def)

lemma stepsD: "steps t js c0 m \<Longrightarrow> supervised t js c0 s \<Longrightarrow>
     after m (\<lambda>_. supervised t js c0) (\<lambda>x s'. confined t js c0 s' \<and> (is_store_failure x \<or> supervised t js c0 s')) s"
  by (simp add: steps_def)

lemma supervised_confined: "supervised t js c0 s \<Longrightarrow> confined t js c0 s"
  by (simp add: supervised_def)

lemma steps_preserves: "preserves (supervised t js c0) (\<lambda>_. False) m \<Longrightarrow> steps t js c0 m"
  by (rule stepsI) (erule (1) after_mono [OF preservesD], auto dest: supervised_confined)

lemma steps_simple [stepping]: "steps t js c0 (give y)" "steps t js c0 (stop x)" "steps t js c0 (inspect g)" "steps t js c0 (lift r)"
  by (intro steps_preserves keeping)+

lemma steps_and_do [stepping]:
  assumes m: "steps t js c0 m" and f: "\<And>x. steps t js c0 (f x)"
  shows "steps t js c0 (and_do m f)"
  by (rule stepsI, rule after_seq [OF stepsD [OF m]]) (auto intro: stepsD [OF f])

lemma steps_cases [stepping]:
  shows "(b \<Longrightarrow> steps t js c0 m) \<Longrightarrow> (\<not> b \<Longrightarrow> steps t js c0 n) \<Longrightarrow> steps t js c0 (if b then m else n)"
    and "(\<And>e. steps t js c0 (h e)) \<Longrightarrow> (\<And>x. steps t js c0 (g x)) \<Longrightarrow> steps t js c0 (case r of Inl e \<Rightarrow> h e | Inr x \<Rightarrow> g x)"
    and "steps t js c0 m \<Longrightarrow> (\<And>y. steps t js c0 (k y)) \<Longrightarrow> steps t js c0 (case q of None \<Rightarrow> m | Some y \<Rightarrow> k y)"
    and "(\<And>y z. steps t js c0 (l y z)) \<Longrightarrow> steps t js c0 (case p of (y, z) \<Rightarrow> l y z)"
  by (simp_all split: sum.split option.split prod.split)

lemma steps_each [stepping]: "(\<And>x. steps t js c0 (f x)) \<Longrightarrow> steps t js c0 (each f xs)"
  by (induction xs) (auto intro!: stepping)

lemma steps_fold_do [stepping]: "(\<And>x r. steps t js c0 (f x r)) \<Longrightarrow> steps t js c0 (fold_do f xs r)"
  by (induction xs arbitrary: r) (auto intro!: stepping)

subsection \<open>The parts of the state\<close>

lemma after_recording [simp]:
  "after (recording m) Q E s \<longleftrightarrow> after m (\<lambda>x r. Q x (s\<lparr>cn_recorder := r\<rparr>)) (\<lambda>e r. E e (s\<lparr>cn_recorder := r\<rparr>)) (cn_recorder s)"
  by (simp add: recording_def)

lemma after_childing [simp]:
  "after (childing m) Q E s \<longleftrightarrow> after m (\<lambda>x c. Q x (s\<lparr>cn_child := c\<rparr>)) (\<lambda>e c. E e (s\<lparr>cn_child := c\<rparr>)) (cn_child s)"
  by (simp add: childing_def)

lemma supervised_grown:
  assumes s: "supervised t js c0 s" and weak: "grown t js (cn_recorder s) False r"
    and strong: "cn_fatal s = None \<Longrightarrow> in_step t r"
  shows "supervised t js c0 (s\<lparr>cn_recorder := r\<rparr>)"
proof -
  have "track t js (cn_recorder c0) False r"
    using s grown_track [OF weak] track_trans by (auto simp: supervised_def confined_def)
  moreover have "output_total (history t r) = output_total (history t (cn_recorder s))"
    using weak by (auto simp: grown_def output_total_plain)
  ultimately show ?thesis using s strong by (simp add: supervised_def confined_def exact_def)
qed

lemma confined_track:
  assumes s: "confined t js c0 s" and weak: "track t js (cn_recorder s) False r"
  shows "confined t js c0 (s\<lparr>cn_recorder := r\<rparr>)"
  using assms track_trans by (auto simp: confined_def)

lemma supervised_recorder: "supervised t js c0 s \<Longrightarrow> recorder_ok t js (cn_recorder s) \<and> (cn_fatal s = None \<longrightarrow> in_step t (cn_recorder s))"
  by (simp add: supervised_def confined_def track_def exact_def)

lemma after_recorder:
  \<comment> \<open>an operation of the recorder, in a supervised run\<close>
  assumes s: "supervised t js c0 s"
    and strong: "\<And>r0. preserves (grown t js r0 True) lost m" and weak: "\<And>r0. preserves (grown t js r0 False) (\<lambda>_. False) m"
  shows "after (recording m) (\<lambda>_. supervised t js c0) (\<lambda>x s'. confined t js c0 s' \<and> (lost x \<or> supervised t js c0 s')) s"
proof -
  note ok = supervised_recorder [OF s]
  have start: "grown t js (cn_recorder s) False (cn_recorder s)" by (rule grown_start) (use ok in auto)
  note w = preservesD [OF weak start]
  have "after m (\<lambda>_ r. grown t js (cn_recorder s) False r \<and> (cn_fatal s = None \<longrightarrow> in_step t r))
      (\<lambda>x r. grown t js (cn_recorder s) False r \<and> (lost x \<or> cn_fatal s \<noteq> None \<or> in_step t r)) (cn_recorder s)"
  proof (cases "cn_fatal s = None")
    case True
    then have "grown t js (cn_recorder s) True (cn_recorder s)" using ok by (intro grown_start) simp_all
    from after_conj [OF w preservesD [OF strong this]] show ?thesis
      by (rule after_mono) (auto simp: grown_def track_def)
  next
    case False
    then show ?thesis using w by (elim after_mono) auto
  qed
  then show ?thesis
    unfolding after_recording
  proof (rule after_mono, goal_cases)
    case (1 x r)
    then show ?case by (intro supervised_grown [OF s]) simp_all
  next
    case (2 x r)
    then have "confined t js c0 (s\<lparr>cn_recorder := r\<rparr>)"
      using confined_track [OF supervised_confined [OF s]] grown_track by blast
    moreover have "supervised t js c0 (s\<lparr>cn_recorder := r\<rparr>)" if "\<not> lost x"
      using 2 that by (intro supervised_grown [OF s]) auto
    ultimately show ?case by blast
  qed
qed

lemma steps_recorder:
  assumes "\<And>r0. preserves (grown t js r0 True) is_store_failure m" and "\<And>r0. preserves (grown t js r0 False) (\<lambda>_. False) m"
  shows "steps t js c0 (recording m)"
  by (rule stepsI) (rule after_recorder [OF _ assms])

lemma keeps_recorder:
  assumes "\<And>r0. preserves (grown t js r0 True) (\<lambda>_. False) m" and "\<And>r0. preserves (grown t js r0 False) (\<lambda>_. False) m"
  shows "preserves (supervised t js c0) F (recording m)"
  by (rule preservesI) (rule after_mono [OF after_recorder [OF _ assms]], auto)

lemma keeps_change:
  assumes "\<And>s. cn_recorder (f s) = cn_recorder s \<and> cn_output_bytes (f s) = cn_output_bytes s \<and> cn_fatal (f s) = cn_fatal s"
  shows "preserves (supervised t js c0) F (change f)"
  by (rule preserves_change) (simp add: supervised_def confined_def exact_def assms)

lemma keeps_childing [keeping]: "preserves (supervised t js c0) F (childing m)"
  by (rule preservesI) (simp add: after_always supervised_def confined_def exact_def)

lemma preserves_with_err [keeping]: "preserves I (\<lambda>_. False) m \<Longrightarrow> preserves I F (with_err g m)"
  by (rule preservesI) (auto dest: preservesD elim!: after_mono)

lemma keeps_instant [keeping]: "preserves (supervised t js c0) F instant_now"
  unfolding instant_now_def by (rule keeps_recorder) (rule keeping)+

lemma after_fail:
  assumes "confined t js c0 s" and "cn_fatal s \<noteq> None \<longrightarrow> supervised t js c0 s"
  shows "after (fail x) (\<lambda>_. supervised t js c0) (\<lambda>_. supervised t js c0) s"
proof (cases "cn_fatal s = None")
  case True
  let ?s = "s\<lparr>cn_fatal := Some x\<rparr>"
  have start: "supervised t js c0 ?s" using assms(1) by (simp add: supervised_def confined_def)
  have "preserves (supervised t js c0) (\<lambda>_. False) (if cn_child_exit s \<noteq> None then give ()
      else and_do (outcome (childing kill_process_group)) (\<lambda>killed. if is_ok killed then give () else ignoring (childing kill_child)))"
    by (intro keeping)
  from preservesD [OF this start] show ?thesis using True by (simp add: fail_def)
qed (use assms in \<open>simp add: fail_def\<close>)

lemma keeps_fail [keeping]: "preserves (supervised t js c0) F (fail x)"
  by (rule preservesI) (rule after_mono [OF after_fail], auto simp: supervised_confined)

lemma confined_supervised: "confined t js c0 s \<Longrightarrow> cn_fatal s \<noteq> None \<Longrightarrow> supervised t js c0 s"
  by (auto simp: supervised_def)

lemma keeps_fail_on [keeping]:
  assumes "steps t js c0 m"
  shows "preserves (supervised t js c0) F (fail_on m)"
proof (rule preservesI)
  fix s assume s: "supervised t js c0 s"
  show "after (fail_on m) (\<lambda>_. supervised t js c0) (\<lambda>e s'. F e \<or> supervised t js c0 s') s"
    unfolding fail_on_def after_and_do after_outcome
  proof (rule after_mono [OF stepsD [OF assms s]], goal_cases)
    case (2 x s')
    then show ?case
      unfolding sum.case by (intro after_mono [OF after_fail]) (auto dest: confined_supervised)
  qed simp
qed

subsection \<open>Terminal bytes\<close>

lemma after_refer:
  assumes s: "supervised t js c0 s"
  shows "after (recording (store_and_refer t bytes payload))
    (\<lambda>_ s'. \<exists>r e i. s' = s\<lparr>cn_recorder := r\<rparr> \<and> track t js (cn_recorder s) (cn_fatal s = None) r
       \<and> history t r = history t (cn_recorder s) @ [e] \<and> ev_payload e = payload i)
    (\<lambda>x s'. confined t js c0 s' \<and> (is_store_failure x \<or> supervised t js c0 s')) s"
proof -
  have ok: "recorder_ok t js (cn_recorder s)" and step: "cn_fatal s = None \<Longrightarrow> in_step t (cn_recorder s)"
    using supervised_recorder [OF s] by auto
  show ?thesis
    unfolding after_recording
proof (rule after_mono [OF store_and_refer_spec [where b = "cn_fatal s = None", OF ok step]], assumption, goal_cases)
  case (1 x r)
  then show ?case by blast
next
  case (2 x r)
  then have "track t js (cn_recorder s) False r" by (simp add: track_def)
  then have "confined t js c0 (s\<lparr>cn_recorder := r\<rparr>)" by (rule confined_track [OF supervised_confined [OF s]])
  moreover have "supervised t js c0 (s\<lparr>cn_recorder := r\<rparr>)" if "\<not> is_store_failure x"
    using 2 that by (intro supervised_grown [OF s]) (auto simp: grown_def track_def)
  ultimately show ?case by blast
qed
qed

lemma supervised_event:
  assumes s: "supervised t js c0 s" and r: "track t js (cn_recorder s) (cn_fatal s = None) r"
    and h: "history t r = history t (cn_recorder s) @ [e]" and sum: "uint n = uint (cn_output_bytes s) + output_total [e]"
    and max: "n \<le> co_terminal_max_bytes (rc_options (cn_recorder c0))"
  shows "supervised t js c0 (s\<lparr>cn_recorder := r, cn_output_bytes := n\<rparr>)"
proof -
  have "track t js (cn_recorder s) False r" using r by (simp add: track_def)
  then have "track t js (cn_recorder c0) False r" using s track_trans by (auto simp: supervised_def confined_def)
  then show ?thesis using s r h sum max by (auto simp: supervised_def confined_def exact_def track_def)
qed

lemma supervised_options: "supervised t js c0 s \<Longrightarrow> rc_options (cn_recorder s) = rc_options (cn_recorder c0)"
  by (simp add: supervised_def confined_def track_def later_def)

lemma steps_output [stepping]: "steps t js c0 (record_output t bytes)"
proof (rule stepsI)
  fix s assume s: "supervised t js c0 s"
  let ?E = "\<lambda>x s'. confined t js c0 s' \<and> (is_store_failure x \<or> supervised t js c0 s')"
  let ?max = "co_terminal_max_bytes (rc_options (cn_recorder s))"
  have here: "confined t js c0 s" by (rule supervised_confined [OF s])
  show "after (record_output t bytes) (\<lambda>_. supervised t js c0) ?E s"
  proof (cases "len_u64 bytes")
    case (Inl x)
    then show ?thesis using s here by (simp add: record_output_def after_lift)
  next
    case (Inr n)
    show ?thesis
    proof (cases "checked_add (cn_output_bytes s) n")
      case None
      then show ?thesis using s here Inr by (simp add: record_output_def after_lift)
    next
      case (Some total_bytes)
      have over: "steps t js c0 (and_do (recording (warning t WarnStorageLimit message)) (\<lambda>_.
          and_do (recording (flush_events t)) (\<lambda>_. stop (TerminalOutputLimit m))))" for message m
        by (intro stepping; intro steps_preserves keeps_recorder keeping)
      have "after (and_do (recording (store_and_refer t bytes (\<lambda>i. TerminalOutput (rc_stream (cn_recorder s)) i n))) (\<lambda>_.
          change (\<lambda>s. s\<lparr>cn_output_bytes := total_bytes\<rparr>))) (\<lambda>_. supervised t js c0) ?E s" if max: "\<not> ?max < total_bytes"
      proof (rule after_seq [OF after_refer [OF s]], goal_cases)
        case (1 u s1)
        then obtain r e i where r: "s1 = s\<lparr>cn_recorder := r\<rparr>" "track t js (cn_recorder s) (cn_fatal s = None) r"
          "history t r = history t (cn_recorder s) @ [e]" "ev_payload e = TerminalOutput (rc_stream (cn_recorder s)) i n" by blast
        have "uint total_bytes = uint (cn_output_bytes s) + output_total [e]"
          using checked_add_uint [OF Some] r(4) by (simp add: output_total_def)
        then show ?case
          using supervised_event [OF s r(2,3)] max supervised_options [OF s] by (simp add: r(1) not_less)
      qed
      then show ?thesis using stepsD [OF over s] Inr Some by (simp add: record_output_def after_lift)
    qed
  qed
qed

lemma same_bytes: "s\<lparr>cn_recorder := r, cn_output_bytes := cn_output_bytes s\<rparr> = s\<lparr>cn_recorder := r\<rparr>"
  by (cases s) simp

lemma steps_retained_input [stepping]: "steps t js c0 (record_retained_input t bytes n)"
proof (rule stepsI)
  fix s assume s: "supervised t js c0 s"
  have "after (recording (store_and_refer t bytes (\<lambda>i. TerminalInput (rc_stream (cn_recorder s)) i n))) (\<lambda>_. supervised t js c0)
      (\<lambda>x s'. confined t js c0 s' \<and> (is_store_failure x \<or> supervised t js c0 s')) s"
  proof (rule after_mono [OF after_refer [OF s]], goal_cases)
    case (1 u s1)
    then obtain r e i where r: "s1 = s\<lparr>cn_recorder := r\<rparr>" "track t js (cn_recorder s) (cn_fatal s = None) r"
      "history t r = history t (cn_recorder s) @ [e]" "ev_payload e = TerminalInput (rc_stream (cn_recorder s)) i n" by blast
    have "uint (cn_output_bytes s) = uint (cn_output_bytes s) + output_total [e]" using r(4) by (simp add: output_total_def)
    then show ?case
      using supervised_event [OF s r(2,3), of "cn_output_bytes s"] supervised_confined [OF s]
      by (simp only: r(1) confined_def same_bytes)
  qed
  then show "after (record_retained_input t bytes n) (\<lambda>_. supervised t js c0)
      (\<lambda>x s'. confined t js c0 s' \<and> (is_store_failure x \<or> supervised t js c0 s')) s"
    by (simp add: record_retained_input_def)
qed

lemmas keeps_events = keeps_recorder keeping
  \<comment> \<open>operations of the recorder whose events refer to no object\<close>

lemma keeps_plain_event [keeping]: "referenced_object payload = None \<Longrightarrow> preserves (supervised t js c0) F (recording (emit t payload))"
  by (intro keeps_recorder keeping)

lemma keeps_flag [keeping]:
  "preserves (supervised t js c0) F (change (\<lambda>s. s\<lparr>cn_echo_warning := b\<rparr>))"
  "preserves (supervised t js c0) F (change (\<lambda>s. s\<lparr>cn_process_warning := b\<rparr>))"
  "preserves (supervised t js c0) F (change (\<lambda>s. s\<lparr>cn_dirty_warning := b\<rparr>))"
  "preserves (supervised t js c0) F (change (\<lambda>s. s\<lparr>cn_kill_requested := b\<rparr>))"
  "preserves (supervised t js c0) F (change (\<lambda>s. s\<lparr>cn_observed := f s\<rparr>))"
  "preserves (supervised t js c0) F (change (\<lambda>s. s\<lparr>cn_interrupted_signal := g\<rparr>))"
  "preserves (supervised t js c0) F (change (\<lambda>s. s\<lparr>cn_termination_deadline := d\<rparr>))"
  "preserves (supervised t js c0) F (change (\<lambda>s. s\<lparr>cn_drain_deadline := d\<rparr>))"
  "preserves (supervised t js c0) F (change (\<lambda>s. s\<lparr>cn_drain_deadline := d, cn_output_abandoned := b\<rparr>))"
  "preserves (supervised t js c0) F (change (\<lambda>s. s\<lparr>cn_child_exit := x\<rparr>))"
  by (simp_all add: keeps_change)

lemma steps_input [stepping]: "steps t js c0 (record_input t bytes echo)"
  unfolding record_input_def
  by (intro stepping; (intro steps_preserves keeping keeps_recorder)?; simp)

subsection \<open>Processes and signals\<close>

lemma keeps_durable_warning [keeping]: "preserves (supervised t js c0) F (durable_post_root_warning t message)"
  unfolding durable_post_root_warning_def by (intro keeping steps_preserves keeps_recorder)

lemma keeps_deadlines [keeping]:
  "preserves (supervised t js c0) F (set_drain_deadline grace)" "preserves (supervised t js c0) F (shorten_post_root_deadline grace)"
  unfolding set_drain_deadline_def shorten_post_root_deadline_def by (intro keeping keeps_change; simp)+

lemma steps_observe_process [stepping]: "steps t js c0 (observe_process t p present)"
  unfolding observe_process_def by (intro stepping; (intro steps_preserves keeping; simp)?)

lemma steps_record_exit [stepping]: "steps t js c0 (record_exit t p)"
  unfolding record_exit_def by (intro stepping; (intro steps_preserves keeping; simp)?)

lemma steps_processes [stepping]: "steps t js c0 (record_processes t result)"
  unfolding record_processes_def by (intro stepping; (intro steps_preserves keeping keeps_recorder; simp)?)

lemma steps_with_child [stepping]: "steps t js c0 (with_err CapturePty (childing m))"
  by (intro steps_preserves keeping)

lemma keeps_child_part [keeping]: "preserves (supervised t js c0) F (at_part cn_child (\<lambda>c s. s\<lparr>cn_child := c\<rparr>) m)"
  by (rule preservesI) (simp add: after_always supervised_def confined_def exact_def)

lemma steps_resize [stepping]: "steps t js c0 (handle_resize t)"
  unfolding handle_resize_def by (intro steps_preserves keeping keeps_recorder; simp)

lemma steps_signal [stepping]: "steps t js c0 (handle_signal t signal)"
  unfolding handle_signal_def
  by (intro stepping; (intro steps_preserves keeping keeps_recorder; simp)?)

subsection \<open>Markers and the workspace\<close>

lemma keeps_reply [keeping]: "preserves (supervised t js c0) F (reply answer)"
  unfolding reply_def by (rule keeps_change) simp

lemma keeps_dirty [keeping]: "preserves (supervised t js c0) F (change_dirty f)"
  unfolding change_dirty_def by (rule keeps_change) simp

lemma keeps_walk [keeping]: "preserves (supervised t js c0) F (walk_workspace t)"
  unfolding walk_workspace_def by (intro keeps_recorder keeping)

lemma keeps_clear [keeping]: "preserves (supervised t js c0) F (clear_after_checkpoint t)"
  unfolding clear_after_checkpoint_def by (intro keeping)

lemma keeps_observe [keeping]: "preserves (supervised t js c0) F (observe t)"
  unfolding observe_def by (intro keeping)

lemma keeps_due [keeping]: "preserves (supervised t js c0) F poll_due" "preserves (supervised t js c0) F checkpoint_due"
  unfolding poll_due_def checkpoint_due_def by (intro keeping)+

lemma keeps_emit_dirty [keeping]: "preserves (supervised t js c0) F (emit_dirty t paths)"
proof -
  have "preserves (supervised t js c0) F (case filesystem_paths_dirtied paths of
      Inl e \<Rightarrow> stop (CaptureInvalidEvent (dp_payload (tl_shown t) e))
    | Inr payload \<Rightarrow> and_do (recording (emit t payload)) (\<lambda>_. give ()))"
    by (cases "filesystem_paths_dirtied paths")
      (auto simp: filesystem_paths_dirtied_def Let_def and_then_def split: sum.splits intro!: keeping)
  then show ?thesis by (auto simp: emit_dirty_def preserves_def after_lift split: sum.split)
qed

lemma preserves_each [keeping]: "(\<And>x. preserves I F (f x)) \<Longrightarrow> preserves I F (each f xs)"
  by (induction xs) (auto intro: keeping)

lemma nonfatal_not_lost: "checkpoint_error_is_nonfatal x \<Longrightarrow> \<not> is_store_failure x"
  by (auto simp: checkpoint_error_is_nonfatal_def is_store_failure_def split: capture_error.splits snapshot_error.splits)

lemma keeps_outcome_then:
  \<comment> \<open>an error that is fatal whenever the store failed\<close>
  assumes m: "steps t js c0 m" and ok: "\<And>x. preserves (supervised t js c0) F (h (Inr x))"
    and bad: "\<And>x s. confined t js c0 s \<Longrightarrow> is_store_failure x \<or> supervised t js c0 s \<Longrightarrow>
      after (h (Inl x)) (\<lambda>_. supervised t js c0) (\<lambda>e s'. F e \<or> supervised t js c0 s') s"
  shows "preserves (supervised t js c0) F (and_do (outcome m) h)"
proof (rule preservesI)
  fix s assume s: "supervised t js c0 s"
  show "after (and_do (outcome m) h) (\<lambda>_. supervised t js c0) (\<lambda>e s'. F e \<or> supervised t js c0 s') s"
    unfolding after_and_do after_outcome
    by (rule after_mono [OF stepsD [OF m s]]) (use preservesD [OF ok] bad in blast)+
qed

lemma fail_after:
  assumes "confined t js c0 s"
  shows "after (fail x) (\<lambda>_. supervised t js c0) (\<lambda>e s'. F e \<or> supervised t js c0 s') s"
  by (rule after_mono [OF after_fail [OF assms]]) (use confined_supervised [OF assms] in auto)

lemma steps_checkpoint [stepping]:
  "steps t js c0 (recording (take_checkpoint t reason label))" "steps t js c0 (recording (manual_checkpoint t label))"
  by (rule steps_recorder, rule in_step.take, rule grown.take) (rule steps_recorder, rule in_step.manual, rule grown.manual)

lemma keeps_quiescence [keeping]:
  "preserves (supervised t js c0) F (and_do (outcome (recording (take_checkpoint t ReasonFilesystemQuiescence None))) (\<lambda>taken. case taken of
     Inr _ \<Rightarrow> clear_after_checkpoint t
   | Inl error \<Rightarrow> if checkpoint_error_is_nonfatal error then give () else fail error))"
proof (rule keeps_outcome_then [OF steps_checkpoint(1)], goal_cases)
  case (1 x)
  show ?case unfolding sum.case by (rule keeps_clear)
next
  case (2 x s)
  then show ?case
    using nonfatal_not_lost [of x] fail_after [of t js c0 s x F] by (cases "checkpoint_error_is_nonfatal x") (simp_all)
qed

lemma keeps_poll_workspace [keeping]: "preserves (supervised t js c0) F (poll_workspace t)"
proof -
  have emitted: "steps t js c0 (each (emit_dirty t) ps)" for ps
    by (intro steps_preserves preserves_each keeps_emit_dirty)
  have warned: "steps t js c0 (recording (warning t WarnFilesystemRace message))" for message
    by (intro steps_preserves keeps_recorder keeping)
  have fresh: "preserves (supervised t js c0) F (and_do (outcome (each (emit_dirty t) ps)) (\<lambda>emitted. case emitted of
       Inl error \<Rightarrow> fail error
     | Inr _ \<Rightarrow> and_do checkpoint_due (\<lambda>due. if \<not> due then give ()
         else and_do (outcome (recording (take_checkpoint t ReasonFilesystemQuiescence None))) (\<lambda>taken. case taken of
             Inr _ \<Rightarrow> clear_after_checkpoint t
           | Inl error \<Rightarrow> if checkpoint_error_is_nonfatal error then give () else fail error))))" for ps F
    by (intro preserves_and_do keeps_quiescence preserves_outcome preserves_each keeping)
  show ?thesis
    unfolding poll_workspace_def by (intro fresh warned keeping)
qed

lemma steps_marker [stepping]: "steps t js c0 (handle_marker t label)"
proof (rule stepsI)
  fix s assume s: "supervised t js c0 s"
  show "after (handle_marker t label) (\<lambda>_. supervised t js c0)
      (\<lambda>x s'. confined t js c0 s' \<and> (is_store_failure x \<or> supervised t js c0 s')) s"
    unfolding handle_marker_def after_and_do after_outcome
  proof (rule after_mono [OF stepsD [OF steps_checkpoint(2) s]], goal_cases)
    case (1 c s')
    have "steps t js c0 (and_do (reply (Inr c)) (\<lambda>_. clear_after_checkpoint t))"
      by (intro steps_preserves keeping)
    from stepsD [OF this 1] show ?case by simp
  next
    case (2 x s')
    then show ?case using nonfatal_not_lost [of x]
      by (auto simp: reply_def supervised_def confined_def exact_def)
  qed
qed

lemma steps_eof [stepping]: "steps t js c0 end_of_output"
  unfolding end_of_output_def by (intro steps_preserves keeps_change) simp

lemma steps_live [stepping]: "steps t js c0 (handle_live t ob)"
proof (cases ob)
  case (ObMarker label)
  have "steps t js c0 (reply answer)" for answer by (intro steps_preserves keeping)
  then show ?thesis unfolding handle_live_def ObMarker observation.case by (intro stepping)
qed (simp_all add: handle_live_def stepping)

lemma keeps_handle [keeping]: "preserves (supervised t js c0) F (handle t ob)"
proof -
  have "preserves (supervised t js c0) F (handle_stopping ob)"
    by (cases ob; simp add: handle_stopping_def end_of_output_def) (intro keeping keeps_change; simp)+
  then show ?thesis unfolding handle_def by (intro keeping stepping)
qed

end
