(* ===== verification/Session_End.thy ===== *)
theory Session_End
  imports Session_Spec
begin

section \<open>A whole supervised run\<close>

text \<open>
  The polls, the loop and the end of a run keep \<open>supervised\<close>.  \<open>concluded\<close> says what a run that
  returns an outcome has left behind: no event is held back, the timeline ends with the completion
  of the run, the final snapshot was committed before it, and the stored status is the outcome's.
\<close>

lemma preserves_bool [keeping]:
  "preserves I F m \<Longrightarrow> preserves I F n \<Longrightarrow> preserves I F (case b of True \<Rightarrow> m | False \<Rightarrow> n)"
  by (simp split: bool.split)

subsection \<open>Polling\<close>

lemma keeps_note_exit [keeping]: "preserves (supervised t js c0) F (note_exit exit)"
  unfolding note_exit_def by (rule keeping)

lemma keeps_start_drain [keeping]: "preserves (supervised t js c0) F start_drain"
  unfolding start_drain_def by (intro keeping)

lemma keeps_poll_child [keeping]: "preserves (supervised t js c0) F poll_child"
  unfolding poll_child_def by (intro keeping stepping)

lemma keeps_poll_drain [keeping]: "preserves (supervised t js c0) F (poll_post_root_drain t)"
  unfolding poll_post_root_drain_def by (intro keeping)

lemma keeps_receive [keeping]: "preserves (supervised t js c0) F (receive t r)"
  by (cases r) (auto simp: receive_def intro!: keeping)

lemma keeps_step [keeping]: "preserves (supervised t js c0) F (supervise_step t r)"
  unfolding supervise_step_def by (intro keeping)

lemma keeps_loop [keeping]: "preserves (supervised t js c0) F (supervise_loop t rs)"
proof (induction rs)
  case Nil
  show ?case unfolding supervise_loop.simps by (intro keeping)
next
  case (Cons r rs)
  show ?case unfolding supervise_loop.simps by (intro keeping Cons)
qed

lemma keeps_group_failure [keeping]: "preserves (supervised t js c0) F (group_failure t message error)"
  unfolding group_failure_def by (intro keeping)

lemma keeps_drain_one [keeping]: "preserves (supervised t js c0) F (drain_one t r)"
  by (cases r) (auto simp: drain_one_def intro!: keeping)

lemma keeps_await [keeping]: "preserves (supervised t js c0) F (await_group t deadline rs)"
proof (induction rs)
  case Nil
  show ?case unfolding await_group.simps [of t deadline "[]"] list.case by (intro keeping)
next
  case (Cons r rs)
  show ?case unfolding await_group.simps [of t deadline "r # rs"] list.case by (intro keeping Cons)
qed

lemma keeps_terminate [keeping]: "preserves (supervised t js c0) F (terminate_remaining_process_group t rs)"
  unfolding terminate_remaining_process_group_def by (intro keeping)

lemma keeps_joined [keeping]: "preserves (supervised t js c0) F (fail_on (lift j))"
  by (intro keeping stepping)

lemma steps_finish [stepping]: "steps t js c0 (recording (finish_recording t status exit final))"
  by (rule steps_recorder) (intro in_step.keeps_finish grown.keeps_finish)+

lemma steps_exclusions [stepping]: "steps t js c0 (recording (warn_exclusions t n))"
  by (intro steps_preserves keeps_recorder keeping)

lemma steps_cleanup [stepping]: "steps t js c0 (recording (cleanup_exclusions_for_retention t))"
  by (intro steps_preserves keeps_recorder keeping)

subsection \<open>Starting again from a later state\<close>

lemma supervised_restart: "supervised t js c0 s \<Longrightarrow> supervised t js s s"
  using supervised_options [of t js c0 s] track_start [of t js "cn_recorder s" False]
  by (auto simp: supervised_def confined_def track_def)

lemma supervised_trans:
  assumes "supervised t js c0 s" and "supervised t js s s'"
  shows "supervised t js c0 s'"
  using assms track_trans [of t js "cn_recorder c0" False "cn_recorder s" "cn_recorder s'"] supervised_options [OF assms(1)]
  by (auto simp: supervised_def confined_def)

lemma supervised_start:
  assumes "recorder_ok t js (cn_recorder s)" and "in_step t (cn_recorder s)"
    and "output_total (history t (cn_recorder s)) = uint (cn_output_bytes s)"
    and "cn_output_bytes s \<le> co_terminal_max_bytes (rc_options (cn_recorder s))"
  shows "supervised t js s s"
  using assms by (simp add: supervised_def confined_def exact_def track_start)

lemma supervised_prefix: "supervised t js s s' \<Longrightarrow> prefix (history t (cn_recorder s)) (history t (cn_recorder s'))"
  by (simp add: supervised_def confined_def track_def later_def)

lemma supervised_after:
  \<comment> \<open>a preserved operation, seen from the state in which it starts\<close>
  assumes s: "supervised t js c0 s" and m: "\<And>c0. preserves (supervised t js c0) (\<lambda>_. False) m"
  shows "after m (\<lambda>_ s'. supervised t js c0 s' \<and> prefix (history t (cn_recorder s)) (history t (cn_recorder s')))
    (\<lambda>_ s'. supervised t js c0 s' \<and> prefix (history t (cn_recorder s)) (history t (cn_recorder s'))) s"
  by (rule after_mono [OF preservesD [OF m supervised_restart [OF s]]])
    (use supervised_trans [OF s] supervised_prefix in auto)

subsection \<open>The end\<close>

definition has_commit :: "'j tools \<Rightarrow> snapshot_id \<Rightarrow> 'j coordinator \<Rightarrow> bool" where
  "has_commit t snap s \<longleftrightarrow> (\<exists>e c. e \<in> set (history t (cn_recorder s)) \<and> ev_payload e = CheckpointCommitted c snap)"

lemma has_commit_later: "has_commit t snap s \<Longrightarrow> prefix (history t (cn_recorder s)) (history t (cn_recorder s')) \<Longrightarrow> has_commit t snap s'"
  by (auto simp: has_commit_def dest: set_mono_prefix)

lemma child_keeps_fatal: "preserves (\<lambda>s. cn_fatal s \<noteq> None) F (childing m)"
  by (rule preservesI) (simp add: after_always)

lemma fail_sets: "after (fail x) (\<lambda>_ s'. cn_fatal s' \<noteq> None) (\<lambda>_ s'. cn_fatal s' \<noteq> None) s"
proof -
  have end_child: "preserves (\<lambda>s. cn_fatal s \<noteq> None) (\<lambda>_. False) (if b then give ()
      else and_do (outcome (childing kill_process_group)) (\<lambda>killed. if is_ok killed then give () else ignoring (childing kill_child)))" for b
    by (intro keeping child_keeps_fatal)
  show ?thesis
    by (cases "cn_fatal s")
      (use preservesD [OF end_child, of "s\<lparr>cn_fatal := Some x\<rparr>" "cn_child_exit s \<noteq> None"] in \<open>auto simp: fail_def elim: after_mono\<close>)
qed

lemma final_checkpoint_spec:
  assumes s: "supervised t js c0 s"
  shows "after (final_checkpoint t stopped)
    (\<lambda>snap s'. supervised t js c0 s' \<and> (\<forall>i. snap = Some i \<longrightarrow> has_commit t i s')) (\<lambda>_. supervised t js c0) s"
proof (cases "store_failed s \<or> \<not> stopped")
  case False
  have ok: "recorder_ok t js (cn_recorder s)" using supervised_recorder [OF s] by simp
  have commit: "after (recording (take_checkpoint t ReasonFinal None)) (\<lambda>c s'. has_commit t (cc_snapshot_id c) s') (\<lambda>_ _. True) s"
    unfolding after_recording
  proof (rule after_mono [OF take_checkpoint_spec [where b = False, OF ok FalseE]], assumption, goal_cases)
    case (1 c r)
    then show ?case by (auto simp: has_commit_def checkpointed_def)
  qed simp
  have taken: "after (recording (take_checkpoint t ReasonFinal None)) (\<lambda>c s'. supervised t js c0 s' \<and> has_commit t (cc_snapshot_id c) s')
      (\<lambda>x s'. confined t js c0 s') s"
    by (rule after_mono [OF after_conj [OF stepsD [OF steps_checkpoint(1) s] commit]]) auto
  have rest: "after (fail_on (recording (warn_exclusions t n))) (\<lambda>_ s'. supervised t js c0 s' \<and> has_commit t i s') (\<lambda>_. supervised t js c0) s'"
    if "supervised t js c0 s'" "has_commit t i s'" for n i s'
    by (rule after_mono [OF supervised_after [OF that(1)]])
      (use has_commit_later [OF that(2)] in \<open>auto intro!: keeping stepping\<close>)
  have go: "after (and_do (outcome (recording (take_checkpoint t ReasonFinal None))) (\<lambda>taken. case taken of
         Inr commit \<Rightarrow>
           and_do (fail_on (recording (warn_exclusions t (cc_exclusions commit)))) (\<lambda>_. give (Some (cc_snapshot_id commit)))
       | Inl error \<Rightarrow> and_do (fail error) (\<lambda>_. give None)))
    (\<lambda>snap s'. supervised t js c0 s' \<and> (\<forall>i. snap = Some i \<longrightarrow> has_commit t i s')) (\<lambda>_. supervised t js c0) s"
    unfolding after_and_do after_outcome
  proof (rule after_mono [OF taken], goal_cases)
    case (1 c s')
    then show ?case by (simp, intro after_mono [OF rest]) auto
  next
    case (2 x s')
    then show ?case by (simp, intro after_mono [OF fail_after [where F = "\<lambda>_. False"]]) auto
  qed
  show ?thesis using False go by (simp add: final_checkpoint_def)
qed (use s in \<open>auto simp: final_checkpoint_def\<close>)

definition concluded :: "'j tools \<Rightarrow> capture_outcome \<Rightarrow> 'j coordinator \<Rightarrow> bool" where
  "concluded t ou s \<longleftrightarrow> cn_fatal s = None \<and> rc_pending (cn_recorder s) = [] \<and> closed_as t (cn_recorder s) (ou_status ou)
     \<and> (\<exists>es e. history t (cn_recorder s) = es @ [e] \<and> ev_payload e = RunCompleted (ou_status ou) (Some (ou_exit_status ou)))
     \<and> has_commit t (ou_final_snapshot ou) s
     \<and> (ou_status ou = Completed \<longrightarrow> exit_success (ou_exit_status ou) = Some True)
     \<and> ou_run ou = rc_run (cn_recorder s) \<and> ou_output_bytes ou = cn_output_bytes s"

lemma finish_spec:
  assumes s: "supervised t js c0 s"
  shows "after (fail_on (recording (finish_recording t status exit final)))
    (\<lambda>_ s'. supervised t js c0 s' \<and> prefix (history t (cn_recorder s)) (history t (cn_recorder s'))
       \<and> (cn_fatal s' = None \<longrightarrow> rc_pending (cn_recorder s') = [] \<and> closed_as t (cn_recorder s') status
           \<and> (\<exists>es e. history t (cn_recorder s') = es @ [e] \<and> ev_payload e = RunCompleted status (Some exit))))
    (\<lambda>_. supervised t js c0) s"
proof -
  have ok: "recorder_ok t js (cn_recorder s)" using supervised_recorder [OF s] by simp
  have "after (fail_on (recording (finish_recording t status exit final)))
    (\<lambda>_ s'. cn_fatal s' = None \<longrightarrow> rc_pending (cn_recorder s') = [] \<and> closed_as t (cn_recorder s') status
        \<and> (\<exists>es e. history t (cn_recorder s') = es @ [e] \<and> ev_payload e = RunCompleted status (Some exit))) (\<lambda>_ _. True) s"
    unfolding fail_on_def after_and_do after_outcome after_recording
  proof (rule after_mono [OF finish_recording_spec [where b = False, OF ok FalseE]], assumption, goal_cases)
    case (2 x r)
    then show ?case unfolding sum.case by (intro after_mono [OF fail_sets]) auto
  qed auto
  from after_conj [OF supervised_after [OF s] this] show ?thesis
    by (rule after_mono) (auto intro!: keeping stepping)
qed

lemma conclude_spec:
  assumes s: "supervised t js c0 s"
  shows "after (conclude t strategy initial stopped) (\<lambda>ou s'. supervised t js c0 s' \<and> concluded t ou s') (\<lambda>_. supervised t js c0) s"
  unfolding conclude_def after_and_do after_inspect prod.case
proof (rule after_mono [where Q = "\<lambda>_. supervised t js c0" and E = "\<lambda>_. supervised t js c0"], goal_cases)
  case 1
  have "preserves (supervised t js c0) (\<lambda>_. False) (if store_failed s then give ()
      else fail_on (recording (and_do (emit t (ProcessExited (cn_root_pid s) status)) (\<lambda>_. give ()))))" for status
    by (intro keeping stepping steps_preserves keeps_recorder; simp)
  note first = this
  show ?case by (rule after_mono [OF preservesD [OF first s]]) simp_all
next
  case (2 u s1)
  show ?case
  proof (rule after_mono [OF final_checkpoint_spec [OF 2]], goal_cases)
    case (1 snap s2)
    show ?case
    proof (rule after_mono [OF supervised_after [OF conjunct1 [OF 1]]], goal_cases)
      case (1 c0)
      show ?case by (intro keeping stepping)
    next
      case (2 u s3)
      show ?case
      proof (rule after_mono [OF finish_spec [OF conjunct1 [OF 2]]], goal_cases)
        case (1 u s4)
        have commit: "has_commit t i s4" if "snap = Some i" for i
          using that \<open>_ \<and> (\<forall>i. snap = Some i \<longrightarrow> has_commit t i s2)\<close> 1 2 has_commit_later by blast
        show ?case
          using 1 commit
          by (auto simp: concluded_def run_outcome_def after_lift ok_or_def split: option.splits if_splits)
      qed simp
    qed simp
  qed simp
qed simp

end
