(* ===== verification/Session_Theorems.thy ===== *)
theory Session_Theorems
  imports Session_End Recorder_Theorems
begin

section \<open>Properties of a supervised run\<close>

text \<open>
  What holds of a run from the first observation to the outcome, whatever is observed, whatever
  the clock, the child and the kernel answer, and however the producers end.
\<close>

subsection \<open>The recorded timeline\<close>

lemma supervise_spec:
  assumes s: "supervised t js c0 s"
  shows "after (supervise t strategy initial rs joined)
    (\<lambda>result s'. supervised t js c0 s' \<and> (\<forall>ou. result = Some ou \<longrightarrow> concluded t ou s')) (\<lambda>_. supervised t js c0) s"
proof -
  have joining: "preserves (supervised t js c0) (\<lambda>_. False) (each (\<lambda>j. fail_on (lift j)) joined)"
    by (intro preserves_each keeps_joined)
  have draining: "preserves (supervised t js c0) (\<lambda>_. False) (each (drain_one t) rest)" for rest
    by (intro preserves_each keeps_drain_one)
  show ?thesis
    unfolding supervise_def after_and_do
  proof (rule after_mono [OF preservesD [OF keeps_loop [where F = "\<lambda>_. False"] s]], goal_cases)
    case (1 left s1)
    show ?case
    proof (cases left)
      case (Some rest)
      show ?thesis
        unfolding Some option.case after_and_do
      proof (rule after_mono [OF preservesD [OF keeps_terminate [where F = "\<lambda>_. False"] 1]], goal_cases)
        case (1 ended s2)
        show ?case
        proof (cases ended)
          case (Some p)
          obtain stopped rest where p: "p = (stopped, rest)" by force
          show ?thesis
            unfolding Some p option.case prod.case after_and_do
          proof (rule after_mono [OF preservesD [OF draining 1]], goal_cases)
            case (1 u s3)
            show ?case
            proof (rule after_mono [OF preservesD [OF joining 1]], goal_cases)
              case (1 u s4)
              show ?case by (rule after_mono [OF conclude_spec [OF 1]]) auto
            qed simp
          qed simp
        qed (use 1 in simp)
      qed simp
    qed (use 1 in simp)
  qed simp
qed

abbreviation recorded :: "'j tools \<Rightarrow> 'j coordinator \<Rightarrow> event list" where
  "recorded t s \<equiv> timeline (tl_env t) (st_db (rc_store (cn_recorder s))) (rc_run (cn_recorder s))"

lemma supervised_initial:
  assumes "recorder_ok t js r" and "in_step t r" and "output_total (history t r) = 0"
  shows "supervised t js (coordinator_new r child root_pid interactive dirty) (coordinator_new r child root_pid interactive dirty)"
  using assms by (intro supervised_start) (simp_all add: coordinator_new_def)

lemma numbers_upto:
  assumes "numbers es = [1..<n]"
  shows "numbers es = [1..<Suc (length es)]"
proof -
  have "length es = n - 1" using arg_cong [OF assms, of length] by (simp add: numbers_def)
  then have "[1..<Suc (length es)] = [1..<n]" by (cases n) simp_all
  then show ?thesis using assms by simp
qed

text \<open>C18: a run that returns an outcome has recorded all of it: the timeline in the store extends what was recorded when
  supervision began, is numbered from one without a gap, holds the final snapshot's commit and ends with the
  completion of the run, whose status is stored and is a success only if the process exited with success; the
  output events add up to exactly the number of bytes reported, which is within the limit.  Whenever supervision stops
  otherwise, or waits, the recorder is sound and nothing recorded is lost.\<close>
theorem outcome_is_recorded:
  assumes "recorder_ok t js r" and "in_step t r" and "output_total (history t r) = 0"
  shows "case supervise t strategy initial rs joined (coordinator_new r child root_pid interactive dirty) of
      (Inr (Some ou), s) \<Rightarrow> recorder_ok t js (cn_recorder s) \<and> prefix (history t r) (recorded t s)
        \<and> numbers (recorded t s) = [1..<Suc (length (recorded t s))]
        \<and> (\<exists>e c. e \<in> set (recorded t s) \<and> ev_payload e = CheckpointCommitted c (ou_final_snapshot ou))
        \<and> recorded t s \<noteq> [] \<and> ev_payload (last (recorded t s)) = RunCompleted (ou_status ou) (Some (ou_exit_status ou))
        \<and> closed_as t (cn_recorder s) (ou_status ou)
        \<and> (ou_status ou = Completed \<longrightarrow> exit_success (ou_exit_status ou) = Some True)
        \<and> output_total (recorded t s) = uint (ou_output_bytes ou) \<and> ou_output_bytes ou \<le> co_terminal_max_bytes (rc_options r)
    | (Inr None, s) \<Rightarrow> recorder_ok t js (cn_recorder s) \<and> prefix (history t r) (history t (cn_recorder s))
    | (Inl x, s) \<Rightarrow> recorder_ok t js (cn_recorder s) \<and> prefix (history t r) (history t (cn_recorder s))"
proof -
  let ?c0 = "coordinator_new r child root_pid interactive dirty"
  have r: "cn_recorder ?c0 = r" by (simp add: coordinator_new_def)
  have sound: "recorder_ok t js (cn_recorder s) \<and> prefix (history t r) (history t (cn_recorder s))" if "supervised t js ?c0 s" for s
    using that r by (simp add: supervised_def confined_def track_def later_def)
  have whole: "recorder_ok t js (cn_recorder s) \<and> prefix (history t r) (recorded t s)
        \<and> numbers (recorded t s) = [1..<Suc (length (recorded t s))]
        \<and> (\<exists>e c. e \<in> set (recorded t s) \<and> ev_payload e = CheckpointCommitted c (ou_final_snapshot ou))
        \<and> recorded t s \<noteq> [] \<and> ev_payload (last (recorded t s)) = RunCompleted (ou_status ou) (Some (ou_exit_status ou))
        \<and> closed_as t (cn_recorder s) (ou_status ou)
        \<and> (ou_status ou = Completed \<longrightarrow> exit_success (ou_exit_status ou) = Some True)
        \<and> output_total (recorded t s) = uint (ou_output_bytes ou) \<and> ou_output_bytes ou \<le> co_terminal_max_bytes (rc_options r)"
    if s: "supervised t js ?c0 s" and ou: "concluded t ou s" for s ou
  proof -
    have h: "history t (cn_recorder s) = recorded t s" using ou by (simp add: concluded_def history_def)
    have "exact t s" using s ou by (simp add: supervised_def concluded_def)
    then have step: "numbers (recorded t s) = [1..<unat (sequence_get (sq_next (rc_sequencer (cn_recorder s))))]"
      and bytes: "output_total (recorded t s) = uint (ou_output_bytes ou)"
      using ou by (simp_all add: exact_def in_step_def h concluded_def)
    have ends: "\<exists>es e. recorded t s = es @ [e] \<and> ev_payload e = RunCompleted (ou_status ou) (Some (ou_exit_status ou))"
      and commit: "\<exists>e c. e \<in> set (recorded t s) \<and> ev_payload e = CheckpointCommitted c (ou_final_snapshot ou)"
      using ou by (simp_all add: concluded_def has_commit_def h)
    have max: "ou_output_bytes ou \<le> co_terminal_max_bytes (rc_options r)"
      using s ou r by (simp add: supervised_def confined_def concluded_def)
    have rest: "closed_as t (cn_recorder s) (ou_status ou)" "ou_status ou = Completed \<longrightarrow> exit_success (ou_exit_status ou) = Some True"
      using ou by (simp_all add: concluded_def)
    have last: "recorded t s \<noteq> []" "ev_payload (last (recorded t s)) = RunCompleted (ou_status ou) (Some (ou_exit_status ou))"
      using ends by auto
    show ?thesis
      using sound [OF s, unfolded h] numbers_upto [OF step] commit last rest bytes max by blast
  qed
  obtain q s where run: "supervise t strategy initial rs joined ?c0 = (q, s)" by force
  have spec: "case q of Inr result \<Rightarrow> supervised t js ?c0 s \<and> (\<forall>ou. result = Some ou \<longrightarrow> concluded t ou s) | Inl _ \<Rightarrow> supervised t js ?c0 s"
    using supervise_spec [OF supervised_initial [OF assms], of strategy initial rs joined child root_pid interactive dirty]
    by (simp add: after_def run split: sum.splits)
  show ?thesis
  proof (cases q)
    case (Inl x)
    then show ?thesis using sound spec by (simp add: run)
  next
    case (Inr result)
    then show ?thesis
      using sound [of s] whole [of s] spec unfolding run by (cases result) auto
  qed
qed

definition ex_child :: child where
  "ex_child = \<lparr>ch_calls = 0, ch_sent = [], ch_pid = Some 7, ch_try_wait = (\<lambda>n. Inr (if n = 0 then None else Some \<lparr>px_code = 0, px_signal = None\<rparr>)),
     ch_wait = (\<lambda>_. Inr \<lparr>px_code = 0, px_signal = None\<rparr>), ch_kill = (\<lambda>_. Inr ()), ch_signal = (\<lambda>n signal. Some ESRCH),
     ch_size = (\<lambda>_. Inr \<lparr>ps_rows = 24, ps_columns = 80, ps_pixel_width = 0, ps_pixel_height = 0\<rparr>), ch_resize = (\<lambda>_. Inr ()),
     ch_strsignal = (\<lambda>_. None)\<rparr>"

definition ex_tracker :: dirty_tracker where
  "ex_tracker = \<lparr>dt_observed = [], dt_pending = {}, dt_last_change = None, dt_last_checkpoint = 0, dt_next_poll = 1000,
     dt_poll_interval = 100, dt_maximum_pending = 16, dt_deferred_error = None, dt_disabled = False\<rparr>"

definition ex_coordinator :: "event_payload coordinator" where
  "ex_coordinator = coordinator_new ex_recorder ex_child (ProcessId 7) False ex_tracker"

theorem outcome_is_recorded_witness:
  "recorder_ok ex_tools ex_js (cn_recorder (snd (supervise ex_tools RecursiveCopy ex_snapshot_id
     [RecvObservation (ObTerminalOutput [104, 105]), RecvObservation ObOutputEof] [Inr ()] ex_coordinator)))"
proof -
  have "output_total (history ex_tools ex_recorder) = 0" by (simp add: ex_history output_total_def)
  from outcome_is_recorded [OF ex_recorder_ok this, of RecursiveCopy ex_snapshot_id
      "[RecvObservation (ObTerminalOutput [104, 105]), RecvObservation ObOutputEof]" "[Inr ()]" ex_child "ProcessId 7" False ex_tracker]
  show ?thesis by (auto simp: ex_coordinator_def split: prod.splits sum.splits option.splits)
qed

end
