(* ===== verification/Session_Limits.thy ===== *)
theory Session_Limits
  imports Session_Theorems
begin

section \<open>Failures, redaction and shutdown\<close>

text \<open>
  What a failed run still does, that redacted input is never looked at, that a terminal nobody
  closes cannot keep a run alive, and what the dirty-path hints report.
\<close>

subsection \<open>Effects that never stop\<close>

definition never_stops :: "('s, 'e, 'a) effect \<Rightarrow> bool" where
  "never_stops m \<longleftrightarrow> (\<forall>s. after m (\<lambda>_ _. True) (\<lambda>_ _. False) s)"

named_theorems running_on

lemma never_stopsD: "never_stops m \<Longrightarrow> \<exists>x s'. m s = (Inr x, s')"
  by (cases "m s"; cases "fst (m s)") (auto simp: never_stops_def after_def dest!: spec [of _ s])

lemma never_stops_intros [running_on]:
  shows "never_stops (give x)" "never_stops (inspect g)" "never_stops (change f)" "never_stops (outcome m)"
    and "never_stops n \<Longrightarrow> (\<And>x. never_stops (k x)) \<Longrightarrow> never_stops (and_do n k)"
    and "never_stops a \<Longrightarrow> never_stops b \<Longrightarrow> never_stops (if c then a else b)"
    and "(\<And>e. never_stops (h e)) \<Longrightarrow> (\<And>x. never_stops (i x)) \<Longrightarrow> never_stops (case r of Inl e \<Rightarrow> h e | Inr x \<Rightarrow> i x)"
    and "never_stops a \<Longrightarrow> (\<And>y. never_stops (j y)) \<Longrightarrow> never_stops (case q of None \<Rightarrow> a | Some y \<Rightarrow> j y)"
    and "(\<And>y z. never_stops (l y z)) \<Longrightarrow> never_stops (case p of (y, z) \<Rightarrow> l y z)"
proof (goal_cases)
  case 5
  then show ?case unfolding never_stops_def after_and_do by (blast intro: after_mono)
qed (auto simp: never_stops_def after_always split: sum.splits option.splits prod.splits)

lemma never_stops_ignoring [running_on]: "never_stops (ignoring m)"
  unfolding ignoring_def by (intro running_on)

lemma never_stops_fail [running_on]: "never_stops (fail x)" "never_stops (fail_on m)"
  unfolding fail_on_def fail_def by (intro running_on)+

lemma never_stops_instant [running_on]: "never_stops instant_now"
  by (simp add: never_stops_def instant_now_def on_host_def at_part_def ask_def after_def recording_def)

lemma never_stops_drain [running_on]: "never_stops (poll_post_root_drain t)"
  unfolding poll_post_root_drain_def durable_post_root_warning_def set_drain_deadline_def by (intro running_on)

subsection \<open>A failure ends the recording\<close>

definition refusals :: "received list \<Rightarrow> (string, checkpoint_id) result list" where
  \<comment> \<open>the replies of a run that has failed\<close>
  "refusals rs = concat (map (\<lambda>r. case r of RecvObservation (ObMarker _) \<Rightarrow>
     [Inl ''recorder is stopping after a failure''] | _ \<Rightarrow> []) rs)"

definition only_stopping :: "'j coordinator \<Rightarrow> (string, checkpoint_id) result list \<Rightarrow> 'j coordinator \<Rightarrow> bool" where
  "only_stopping s answers s' \<longleftrightarrow> cn_fatal s' = cn_fatal s \<and> cn_recorder s' = cn_recorder s \<and> cn_dirty s' = cn_dirty s
     \<and> cn_child s' = cn_child s \<and> cn_child_exit s' = cn_child_exit s \<and> cn_replies s' = cn_replies s @ answers"

lemma stopping_one:
  assumes "cn_fatal s \<noteq> None"
  shows "\<exists>s'. drain_one t r s = (Inr (), s') \<and> only_stopping s (refusals [r]) s'"
proof (cases r)
  case (RecvObservation ob)
  then show ?thesis
    using assms
    by (cases ob) (simp_all add: drain_one_def handle_def handle_stopping_def and_do_def inspect_def end_of_output_def reply_def
        change_def give_def only_stopping_def refusals_def)
qed (simp_all add: drain_one_def give_def only_stopping_def refusals_def)

lemma stopping_all:
  "cn_fatal s \<noteq> None \<Longrightarrow> \<exists>s'. each (drain_one t) rs s = (Inr () :: ('e, unit) result, s') \<and> only_stopping s (refusals rs) s'"
proof (induction rs arbitrary: s)
  case Nil
  then show ?case by (simp add: give_def only_stopping_def refusals_def)
next
  case (Cons r rs)
  obtain s1 where s1: "drain_one t r s = (Inr () :: ('e, unit) result, s1)" "only_stopping s (refusals [r]) s1" using stopping_one [OF Cons.prems] by blast
  then have "cn_fatal s1 \<noteq> None" using Cons.prems by (simp add: only_stopping_def)
  from Cons.IH [OF this] obtain s2 where "each (drain_one t) rs s1 = (Inr () :: ('e, unit) result, s2)" "only_stopping s1 (refusals rs) s2" by blast
  then show ?case using s1 by (auto simp: and_do_def only_stopping_def refusals_def)
qed

lemma failure_kills:
  assumes "cn_fatal s = None"
  shows "\<exists>s'. fail x s = (Inr (), s') \<and> cn_fatal s' = Some x \<and> cn_recorder s' = cn_recorder s \<and> cn_dirty s' = cn_dirty s
    \<and> cn_replies s' = cn_replies s \<and> cn_child_exit s' = cn_child_exit s
    \<and> (cn_child_exit s = None \<and> is_ok (process_group_id (cn_child s)) \<longrightarrow> ch_sent (cn_child s') = ch_sent (cn_child s) @ [SIGKILL])"
  using assms
  by (cases "process_group_id (cn_child s)"; cases "ch_signal (cn_child s) (ch_calls (cn_child s)) SIGKILL";
      cases "ch_kill (cn_child s) (Suc (ch_calls (cn_child s)))"; cases "ch_kill (cn_child s) (ch_calls (cn_child s))")
    (auto simp: fail_def and_do_def inspect_def change_def give_def outcome_def childing_def at_part_def kill_process_group_def
      signal_process_group_def lift_def send_signal_def ask_child_def stop_def ignoring_def kill_child_def map_err_def)



subsection \<open>Redacted input\<close>

text \<open>C20: unless the policy asks for all input, or asks for input that is echoed and the terminal is known to echo, the
  bytes typed have no influence on the run: two inputs of the same length leave every part of the state the same,
  so nothing of them but their number can be in the store, in an event or in a warning.\<close>
theorem redacted_input_has_no_influence:
  fixes s :: "'j coordinator"
  assumes "length bytes = length bytes'"
    and "\<not> (policy = PolicyAlways \<or> policy = PolicyAuto \<and> echo_enabled = Some True)"
    and "co_record_input (rc_options (cn_recorder s)) = policy"
  shows "handle t (ObTerminalInput bytes echo_enabled) s = (handle t (ObTerminalInput bytes' echo_enabled) s :: (capture_error, unit) result \<times> _)"
proof -
  obtain reason where "input_redaction policy echo_enabled = Some reason"
    using assms(2) by (cases policy; cases echo_enabled) (auto simp: input_redaction_def)
  then have "record_input t bytes echo_enabled s = record_input t bytes' echo_enabled s"
    using assms(1,3) by (simp add: record_input_def and_do_def inspect_def lift_def len_u64_def split: sum.splits)
  then show ?thesis by (simp add: handle_def and_do_def inspect_def handle_live_def handle_stopping_def fail_on_def outcome_def)
qed

theorem redacted_input_has_no_influence_witness:
  "handle ex_tools (ObTerminalInput [104, 117, 110] (Some False)) ex_coordinator
     = (handle ex_tools (ObTerminalInput [116, 119, 111] (Some False)) ex_coordinator :: (capture_error, unit) result \<times> _)"
  by (rule redacted_input_has_no_influence [where policy = PolicyAuto])
    (simp_all add: ex_coordinator_def coordinator_new_def default_capture_options_def)

subsection \<open>A terminal that stays open\<close>

definition drain_fields :: "'j coordinator \<Rightarrow> bool \<times> bool \<times> bool \<times> instant option \<times> bool" where
  "drain_fields s = (cn_child_exit s = None, cn_output_eof s, cn_output_abandoned s, cn_drain_deadline s, cn_kill_requested s)"

definition draining :: "'j tools \<Rightarrow> 'j json_lib \<Rightarrow> 'j recorder \<Rightarrow> bool \<times> bool \<times> bool \<times> instant option \<times> bool \<Rightarrow> 'j coordinator \<Rightarrow> bool" where
  "draining t js r fs s \<longleftrightarrow> track t js r False (cn_recorder s) \<and> drain_fields s = fs"

lemma draining_child: "preserves (draining t js r fs) F (childing m)"
  by (rule preservesI) (simp add: after_always draining_def drain_fields_def)

lemma draining_fail: "preserves (draining t js r fs) F (fail x)"
  unfolding fail_def
  by (intro keeping draining_child preserves_change; simp add: draining_def drain_fields_def)

lemma draining_warning:
  fixes t :: "'j tools"
  shows "preserves (draining t js r fs) F (durable_post_root_warning t message)"
proof -
  have recorder: "preserves (draining t js r fs) G (recording m)"
    if "\<And>r0. preserves (track t js r0 False) (\<lambda>_. False) m" for G and m :: "('j, unit) recording"
  proof (rule preservesI)
    fix s assume s: "draining t js r fs s"
    then have "track t js r False (cn_recorder s)" by (simp add: draining_def)
    from preservesD [OF that this] show "after (recording m) (\<lambda>_. draining t js r fs) (\<lambda>e s'. G e \<or> draining t js r fs s') s"
      unfolding after_recording by (rule after_mono) (use s in \<open>auto simp: draining_def drain_fields_def\<close>)
  qed
  show ?thesis unfolding durable_post_root_warning_def fail_on_def
    by (intro keeping recorder draining_fail)
qed

lemma draining_elapsed: "draining t js r fs s \<Longrightarrow> ht_elapsed (rc_host (cn_recorder s)) = ht_elapsed (rc_host r)"
  by (simp add: draining_def track_def later_def same_host_def)

abbreviation asked :: "'j coordinator \<Rightarrow> nat" where
  "asked s \<equiv> ht_calls (rc_host (cn_recorder s))"

lemma after_instant:
  assumes s: "draining t js r fs s"
  shows "after instant_now (\<lambda>t0 s'. t0 = ht_elapsed (rc_host r) (asked s) \<and> draining t js r fs s' \<and> asked s' = Suc (asked s)) (\<lambda>_ _. False) s"
proof -
  have tr: "track t js r False (cn_recorder s)" using s by (simp add: draining_def)
  have "clocked (cn_recorder s) (cn_recorder s\<lparr>rc_host := (rc_host (cn_recorder s))\<lparr>ht_calls := Suc (asked s)\<rparr>\<rparr>)"
    unfolding clocked_def by (intro exI [of _ "(rc_host (cn_recorder s))\<lparr>ht_calls := Suc (asked s)\<rparr>"]) simp
  from track_trans [OF tr clocked_track [OF this, where b = False]]
  have "track t js r False (cn_recorder s\<lparr>rc_host := (rc_host (cn_recorder s))\<lparr>ht_calls := Suc (asked s)\<rparr>\<rparr>)"
    using tr by (simp add: track_def)
  then show ?thesis
    using s draining_elapsed [OF s]
    by (simp add: instant_now_def after_def recording_def on_host_def at_part_def ask_def draining_def drain_fields_def)
qed

definition waiting :: "'j tools \<Rightarrow> 'j json_lib \<Rightarrow> 'j recorder \<Rightarrow> instant \<Rightarrow> bool \<Rightarrow> 'j coordinator \<Rightarrow> bool" where
  \<comment> \<open>the root has exited, its terminal is open and a deadline is set\<close>
  "waiting t js r d killed = draining t js r (False, False, False, Some d, killed)"

lemma poll_waiting:
  assumes s: "waiting t js r d killed s"
  shows "after (poll_post_root_drain t) (\<lambda>_ s1.
      if ht_elapsed (rc_host r) (asked s) < d then waiting t js r d killed s1 \<and> asked s1 = Suc (asked s)
      else if killed then draining t js r (False, False, True, None, True) s1
      else \<exists>d'. waiting t js r d' True s1) (\<lambda>_ _. True) s"
proof -
  note st = s [unfolded waiting_def]
  have fields: "cn_child_exit s \<noteq> None" "\<not> cn_output_eof s" "\<not> cn_output_abandoned s" "cn_drain_deadline s = Some d" "cn_kill_requested s = killed"
    using st by (auto simp: draining_def drain_fields_def)
  have warned: "after (durable_post_root_warning t message) (\<lambda>_. draining t js r fs) (\<lambda>_ _. True) s'" if "draining t js r fs s'" for message fs s'
    by (rule after_mono [OF preservesD [OF draining_warning that]]) simp_all
  have abandons: "after (and_do (change (\<lambda>s. s\<lparr>cn_drain_deadline := None, cn_output_abandoned := True\<rparr>)) (\<lambda>_. durable_post_root_warning t message))
      (\<lambda>_. draining t js r (False, False, True, None, True)) (\<lambda>_ _. True) s'" if "waiting t js r d True s'" for message s'
    by (simp, rule warned) (use that in \<open>auto simp: waiting_def draining_def drain_fields_def\<close>)
  have kills: "after (and_do (change (\<lambda>s. s\<lparr>cn_kill_requested := True\<rparr>)) (\<lambda>_. and_do (set_drain_deadline grace) (\<lambda>_.
      and_do (outcome (childing kill_process_group)) (\<lambda>sent. case sent of
          Inr _ \<Rightarrow> durable_post_root_warning t message | Inl error \<Rightarrow> durable_post_root_warning t (other error)))))
      (\<lambda>_ s1. \<exists>d'. waiting t js r d' True s1) (\<lambda>_ _. True) s'" if s': "waiting t js r d False s'" for grace message other s'
  proof -
    have "draining t js r (False, False, False, Some d, True) (s'\<lparr>cn_kill_requested := True\<rparr>)"
      using s' by (simp add: waiting_def draining_def drain_fields_def)
    note clock = after_instant [OF this]
    show ?thesis
      unfolding after_and_do after_change set_drain_deadline_def
    proof (rule after_mono [OF clock], goal_cases)
      case (1 t0 s1)
      then have w: "waiting t js r (t0 + grace) True (s1\<lparr>cn_drain_deadline := Some (t0 + grace)\<rparr>)"
        by (simp add: waiting_def draining_def drain_fields_def)
      have "preserves (waiting t js r (t0 + grace) True) (\<lambda>_. False) (and_do (outcome (childing kill_process_group)) (\<lambda>sent. case sent of
          Inr _ \<Rightarrow> durable_post_root_warning t message | Inl error \<Rightarrow> durable_post_root_warning t (other error)))"
        unfolding waiting_def by (intro keeping draining_child draining_warning)
      from preservesD [OF this w] show ?case unfolding after_and_do after_change
        by (rule after_mono) (erule after_mono, auto)
    qed simp
  qed
  show ?thesis
    unfolding poll_post_root_drain_def
  proof (simp add: fields, rule after_mono [OF after_instant [OF st]], goal_cases)
    case (1 t0 s1)
    then have w: "waiting t js r d killed s1" by (simp add: waiting_def)
    then have "cn_kill_requested s1 = killed" by (auto simp: waiting_def draining_def drain_fields_def)
    then show ?case
      using 1 w abandons [of s1] kills [of s1] by (cases killed) (auto simp: not_less)
  qed simp
qed

lemma timeout_step:
  assumes "cn_child_exit s \<noteq> None" and "poll_post_root_drain t s = (Inr () :: (capture_error, unit) result, s1)" and "cn_child_exit s1 \<noteq> None"
  shows "supervise_step t RecvTimeout s = (Inr () :: (capture_error, unit) result, s1)"
  using assms by (auto simp: supervise_step_def receive_def and_do_def give_def poll_child_def inspect_def poll_workspace_def)

definition times_out :: "'j tools \<Rightarrow> 'j coordinator \<Rightarrow> bool" where
  "times_out t s \<longleftrightarrow> (\<exists>k. fst (supervise_loop t (replicate k RecvTimeout) s :: (capture_error, received list option) result \<times> _) = Inr (Some []))"

lemma times_out_now: "\<not> still_running s \<Longrightarrow> times_out t s"
  unfolding times_out_def by (intro exI [of _ 0]) (simp add: and_do_def inspect_def give_def)

lemma times_out_step:
  assumes "waiting t js r d killed s" and "poll_post_root_drain t s = (Inr () :: (capture_error, unit) result, s1)"
    and "cn_child_exit s1 \<noteq> None" and "times_out t s1"
  shows "times_out t s"
proof -
  have s: "cn_child_exit s \<noteq> None" "still_running s"
    using assms(1) by (auto simp: waiting_def draining_def drain_fields_def still_running_def)
  obtain k where k: "fst (supervise_loop t (replicate k RecvTimeout) s1 :: (capture_error, received list option) result \<times> _) = Inr (Some [])"
    using assms(4) by (auto simp: times_out_def)
  then show ?thesis
    unfolding times_out_def using timeout_step [OF s(1) assms(2,3)] s(2)
    by (intro exI [of _ "Suc k"]) (simp add: and_do_def inspect_def)
qed

lemma poll_result:
  assumes "after (poll_post_root_drain t) Q (\<lambda>(_ :: capture_error) _. True) s"
  shows "\<exists>s1. poll_post_root_drain t s = (Inr () :: (capture_error, unit) result, s1) \<and> Q () s1"
proof -
  obtain s1 where s1: "poll_post_root_drain t s = (Inr () :: (capture_error, unit) result, s1)"
    using never_stopsD [OF never_stops_drain, of t s] by auto
  then show ?thesis using assms by (simp add: after_def)
qed

lemma waiting_ends:
  \<comment> \<open>one deadline: by counting the readings of the clock that are left\<close>
  assumes over: "\<And>s1. (if killed then draining t js r (False, False, True, None, True) s1 else \<exists>d'. waiting t js r d' True s1) \<Longrightarrow> times_out t s1"
    and clock: "\<forall>m \<ge> n. d \<le> ht_elapsed (rc_host r) m"
  shows "waiting t js r d killed s \<Longrightarrow> times_out t s"
proof (induction "n - asked s" arbitrary: s rule: less_induct)
  case less
  note w = less.prems
  obtain s1 where s1: "poll_post_root_drain t s = (Inr () :: (capture_error, unit) result, s1)"
    and q: "if ht_elapsed (rc_host r) (asked s) < d then waiting t js r d killed s1 \<and> asked s1 = Suc (asked s)
      else if killed then draining t js r (False, False, True, None, True) s1 else \<exists>d'. waiting t js r d' True s1"
    using poll_result [OF poll_waiting [OF w]] by blast
  have exited: "cn_child_exit s1 \<noteq> None"
    using q by (auto simp: waiting_def draining_def drain_fields_def split: if_splits)
  have "times_out t s1"
  proof (cases "ht_elapsed (rc_host r) (asked s) < d")
    case True
    then have "asked s < n" using clock not_less by (metis leD)
    then show ?thesis using less.hyps [of s1] q True by auto
  next
    case False
    then show ?thesis using over [of s1] q by simp
  qed
  with times_out_step [OF w s1 exited] show ?case .
qed



subsection \<open>Dirty-path hints\<close>

text \<open>C22: comparing two walks of the workspace reports, without repetition, paths whose stamp changed, appeared or
  disappeared and that were not pending already; when the pending set has room for all of them it reports every
  one, it never grows past its limit, and the time of the last change is set exactly when something differs.\<close>
theorem dirty_hints_are_exact:
  assumes "distinct (map fst (dt_observed d))" and "distinct (map fst next)" and "finite (dt_pending d)"
  shows "case compare_states time next d of (changed, d') \<Rightarrow>
     (let dirty = {p. map_of (dt_observed d) p \<noteq> map_of next p} in
       distinct changed \<and> set changed \<subseteq> dirty - dt_pending d \<and> dt_pending d' = dt_pending d \<union> set changed
       \<and> (card (dt_pending d \<union> dirty) \<le> dt_maximum_pending d \<longrightarrow> set changed = dirty - dt_pending d)
       \<and> card (dt_pending d') \<le> max (dt_maximum_pending d) (card (dt_pending d))
       \<and> dt_observed d' = next \<and> dt_last_change d' = (if dirty = {} then dt_last_change d else Some time))"
proof -
  obtain pending changed where f: "fold (note_change (dt_maximum_pending d)) (differing (dt_observed d) next) (dt_pending d, []) = (pending, changed)"
    by force
  have dirty: "set (differing (dt_observed d) next) = {p. map_of (dt_observed d) p \<noteq> map_of next p}"
    by (rule set_differing [OF assms(1,2)])
  from fold_note_change [OF assms(3) f] show ?thesis
    unfolding dirty [symmetric] by (auto simp: compare_states_def f Let_def)
qed

definition ex_stamp :: "u64 \<Rightarrow> file_stamp" where
  "ex_stamp n = \<lparr>fp_kind = 1, fp_mode = 420, fp_size = n, fp_modified = 0, fp_changed = 0, fp_symlink_target = None\<rparr>"

theorem dirty_hints_are_exact_witness:
  "case compare_states 5 [(''a'', ex_stamp 2)] (ex_tracker\<lparr>dt_observed := [(''a'', ex_stamp 1)]\<rparr>) of
     (changed, d') \<Rightarrow> changed = [''a''] \<and> set changed \<subseteq> {p. map_of [(''a'', ex_stamp 1)] p \<noteq> map_of [(''a'', ex_stamp 2)] p}"
proof -
  let ?d = "ex_tracker\<lparr>dt_observed := [(''a'', ex_stamp 1)]\<rparr>"
  have "fst (compare_states 5 [(''a'', ex_stamp 2)] ?d) = [''a'']"
    by (simp add: compare_states_def differing_def note_change_def ex_tracker_def ex_stamp_def)
  moreover obtain changed d' where run: "compare_states 5 [(''a'', ex_stamp 2)] ?d = (changed, d')" by force
  moreover have given: "distinct (map fst (dt_observed ?d))" "distinct (map fst [(''a'', ex_stamp 2)])" "finite (dt_pending ?d)"
    and observed: "dt_observed ?d = [(''a'', ex_stamp 1)]" by (simp_all add: ex_tracker_def)
  have "set changed \<subseteq> {p. map_of (dt_observed ?d) p \<noteq> map_of [(''a'', ex_stamp 2)] p}"
    using dirty_hints_are_exact [OF given, of 5, unfolded run prod.case Let_def] by blast
  ultimately show ?thesis unfolding observed by (simp only: run prod.case fst_conv)
qed

end
