(* ===== verification/Process_Tree.thy ===== *)
theory Process_Tree
  imports Coordinator
begin

section \<open>The supervised process tree\<close>

text \<open>
  \<open>rewind-platform/src/process.rs\<close>: reading the process table of Linux and selecting the root
  process with its descendants.  The entries of \<open>/proc\<close>, with what reading \<open>stat\<close> and \<open>exe\<close> beneath
  each gives, are an argument.  The selection is a breadth-first search; it is shown to be exactly
  the processes that are reachable through parent links.
\<close>

subsection \<open>Lines of \<open>/proc/<pid>/stat\<close>\<close>

fun find_char :: "char \<Rightarrow> string \<Rightarrow> nat option" where
  "find_char c [] = None"
| "find_char c (x # xs) = (if x = c then Some 0 else map_option Suc (find_char c xs))"

definition rfind_char :: "char \<Rightarrow> string \<Rightarrow> nat option" where
  "rfind_char c s = map_option (\<lambda>n. length s - Suc n) (find_char c (rev s))"

fun whitespace_len :: "u8 list \<Rightarrow> nat" where
  \<comment> \<open>\<open>char::is_whitespace\<close>: the length of the white space character a UTF-8 text begins with\<close>
  "whitespace_len (a # b # c # _) =
     (if 9 \<le> a \<and> a \<le> 13 \<or> a = 32 then 1
      else if a = 0xC2 \<and> (b = 0x85 \<or> b = 0xA0) then 2
      else if a = 0xE1 \<and> b = 0x9A \<and> c = 0x80 then 3
      else if a = 0xE2 \<and> b = 0x80 \<and> (0x80 \<le> c \<and> c \<le> 0x8A \<or> c = 0xA8 \<or> c = 0xA9 \<or> c = 0xAF) then 3
      else if a = 0xE2 \<and> b = 0x81 \<and> c = 0x9F then 3
      else if a = 0xE3 \<and> b = 0x80 \<and> c = 0x80 then 3
      else 0)"
| "whitespace_len (a # bs) =
     (if 9 \<le> a \<and> a \<le> 13 \<or> a = 32 then 1
      else if a = 0xC2 \<and> (bs = [0x85] \<or> bs = [0xA0]) then 2
      else 0)"
| "whitespace_len [] = 0"

function split_fields :: "u8 list \<Rightarrow> u8 list \<Rightarrow> u8 list list" where
  \<comment> \<open>\<open>split_whitespace\<close>, with the field that is being read\<close>
  "split_fields field [] = (if field = [] then [] else [field])"
| "split_fields field (b # bs) =
     (if whitespace_len (b # bs) = 0 then split_fields (field @ [b]) bs
      else (if field = [] then [] else [field]) @ split_fields [] (drop (whitespace_len (b # bs)) (b # bs)))"
  by pat_completeness auto
termination by (relation "measure (\<lambda>(_, bs). length bs)") auto

definition parse_linux_stat :: "string \<Rightarrow> (u32 \<times> string) option" where
  \<comment> \<open>trimming first makes no difference to the fields\<close>
  "parse_linux_stat value =
     Option.bind (find_char CHR ''('' value) (\<lambda>open.
     Option.bind (rfind_char CHR '')'' value) (\<lambda>close.
     if close \<le> open then None
     else
       let command = take (close - (open + 1)) (drop (open + 1) value);
           fields = split_fields [] (as_bytes (drop (close + 1) value))
       in case fields of
           state # parent # _ \<Rightarrow> map_option (\<lambda>pid. (pid, command)) (parse_word (of_bytes parent))
         | _ \<Rightarrow> None))"

subsection \<open>The process table\<close>

datatype process_observation_error = ProcessIo string io_error

record proc_entry =
  \<comment> \<open>an entry of \<open>/proc\<close>, its \<open>stat\<close> when that is readable text, and the target of its \<open>exe\<close>\<close>
  pn_name :: string
  pn_stat :: "string option"
  pn_exe :: "string option"

type_synonym process_table = "(u32 \<times> process_info) list"
  \<comment> \<open>a \<open>BTreeMap\<close>: sorted by key\<close>

definition read_process :: "proc_entry \<Rightarrow> process_info option" where
  "read_process entry =
     Option.bind (if is_str (pn_name entry) then parse_word (pn_name entry) else None) (\<lambda>pid.
     Option.bind (pn_stat entry) (\<lambda>stat.
     Option.bind (parse_linux_stat stat) (\<lambda>(parent_pid, command).
       Some \<lparr>pi_pid = pid, pi_parent_pid = Some parent_pid, pi_executable = pn_exe entry, pi_command = command\<rparr>)))"

fun insert_processes :: "(io_error, proc_entry) result list \<Rightarrow> process_table \<Rightarrow> (process_observation_error, process_table) result" where
  "insert_processes [] processes = Inr processes"
| "insert_processes (Inl source # rest) processes = Inl (ProcessIo ''/proc'' source)"
| "insert_processes (Inr entry # rest) processes = insert_processes rest (case read_process entry of
     None \<Rightarrow> processes | Some p \<Rightarrow> btree_insert (pi_pid p) p processes)"

definition all_processes ::
    "(io_error, (io_error, proc_entry) result list) result \<Rightarrow> (process_observation_error, process_table) result" where
  "all_processes listing = (case listing of
     Inl source \<Rightarrow> Inl (ProcessIo ''/proc'' source) | Inr listed \<Rightarrow> insert_processes listed [])"

subsection \<open>The selection\<close>

definition add_child :: "process_info \<Rightarrow> (u32 \<Rightarrow> u32 list) \<Rightarrow> (u32 \<Rightarrow> u32 list)" where
  "add_child p kids = (case pi_parent_pid p of
     None \<Rightarrow> kids | Some parent \<Rightarrow> kids(parent := kids parent @ [pi_pid p]))"

definition children_of :: "process_table \<Rightarrow> u32 \<Rightarrow> u32 list" where
  \<comment> \<open>a process without an entry in the map has no children\<close>
  "children_of all = fold add_child (map snd all) (\<lambda>_. [])"

function select_processes :: "(u32 \<Rightarrow> u32 list) \<Rightarrow> u32 list \<Rightarrow> u32 set \<Rightarrow> u32 set" where
  "select_processes kids [] selected = selected"
| "select_processes kids (pid # queue) selected =
     (if pid \<in> selected then select_processes kids queue selected
      else select_processes kids (queue @ kids pid) (insert pid selected))"
  by pat_completeness auto
termination
proof (relation "measures [\<lambda>(_, _, selected). card (UNIV - selected), \<lambda>(_, queue, _). length queue]", goal_cases)
  case (3 kids pid queue selected)
  have "finite (UNIV - selected)" by simp
  then have "card (UNIV - insert pid selected) < card (UNIV - selected)"
    using 3 by (intro psubset_card_mono) auto
  then show ?case by simp
qed simp_all

definition supervised_processes :: "u32 \<Rightarrow> process_table \<Rightarrow> process_info list" where
  "supervised_processes root_pid all =
     List.map_filter (map_of all) (sorted_list_of_set (select_processes (children_of all) [root_pid] {}))"

subsection \<open>What it selects\<close>

lemma fold_add_child:
  "fold add_child ps kids pid = kids pid @ map pi_pid (filter (\<lambda>p. pi_parent_pid p = Some pid) ps)"
  by (induction ps arbitrary: kids) (auto simp: add_child_def split: option.splits)

lemma children_of: "set (children_of all pid) = pi_pid ` {p \<in> snd ` set all. pi_parent_pid p = Some pid}"
  by (auto simp: children_of_def fold_add_child)

lemma select_grows: "selected \<union> set queue \<subseteq> select_processes kids queue selected"
  by (induction kids queue selected rule: select_processes.induct) auto

lemma select_closed:
  "\<forall>a \<in> selected. set (kids a) \<subseteq> selected \<union> set queue \<Longrightarrow> a \<in> select_processes kids queue selected
     \<Longrightarrow> set (kids a) \<subseteq> select_processes kids queue selected"
proof (induction kids queue selected rule: select_processes.induct)
  case (2 kids pid queue selected)
  show ?case
  proof (cases "pid \<in> selected")
    case True
    then have "\<forall>a \<in> selected. set (kids a) \<subseteq> selected \<union> set queue" using 2(3) by auto
    then show ?thesis using 2(1,4) True by simp
  next
    case False
    have "\<forall>a \<in> insert pid selected. set (kids a) \<subseteq> insert pid selected \<union> set (queue @ kids pid)"
      using 2(3) by auto
    then show ?thesis using 2(2,4) False by simp
  qed
qed simp

definition descends :: "(u32 \<Rightarrow> u32 list) \<Rightarrow> u32 \<Rightarrow> u32 \<Rightarrow> bool" where
  "descends kids = (\<lambda>a b. b \<in> set (kids a))\<^sup>*\<^sup>*"

lemma select_reachable:
  "b \<in> select_processes kids queue selected \<Longrightarrow> b \<in> selected \<or> (\<exists>a \<in> set queue. descends kids a b)"
proof (induction kids queue selected rule: select_processes.induct)
  case (2 kids pid queue selected)
  show ?case
  proof (cases "pid \<in> selected")
    case False
    then have "b \<in> insert pid selected \<or> (\<exists>a \<in> set (queue @ kids pid). descends kids a b)" using 2 by simp
    then show ?thesis by (auto simp: descends_def intro: converse_rtranclp_into_rtranclp)
  qed (use 2 in auto)
qed simp

lemma select_exact: "select_processes kids [root] {} = {b. descends kids root b}"
proof (intro set_eqI iffI CollectI)
  fix b assume "b \<in> {b. descends kids root b}"
  then have "(\<lambda>a b. b \<in> set (kids a))\<^sup>*\<^sup>* root b" by (simp add: descends_def)
  then show "b \<in> select_processes kids [root] {}"
  proof (induction rule: rtranclp_induct)
    case base
    show ?case using select_grows [of "{}" "[root]" kids] by simp
  next
    case (step b c)
    then show ?case using select_closed [of "{}" kids "[root]" b] by auto
  qed
qed (use select_reachable [of _ kids "[root]" "{}"] in auto)

subsection \<open>The table\<close>

lemma btree_insert_keys: "set (map fst (btree_insert k v xs)) = insert k (set (map fst xs))"
  by (induction k v xs rule: btree_insert.induct) auto

lemma btree_insert_sorted: "sorted_wrt (<) (map fst xs) \<Longrightarrow> sorted_wrt (<) (map fst (btree_insert k v xs))"
proof (induction k v xs rule: btree_insert.induct)
  case (2 k v k' v' m)
  then show ?case
    using btree_insert_keys [of k v m] by (auto simp: not_less dest: order_le_less_trans order_less_trans) 
qed simp

definition table_ok :: "process_table \<Rightarrow> bool" where
  "table_ok all \<longleftrightarrow> sorted_wrt (<) (map fst all) \<and> (\<forall>(pid, p) \<in> set all. pi_pid p = pid)"

lemma btree_insert_table: "table_ok all \<Longrightarrow> table_ok (btree_insert (pi_pid p) p all)"
proof -
  have "(pid, q) \<in> set (btree_insert k v xs) \<Longrightarrow> (pid, q) = (k, v) \<or> (pid, q) \<in> set xs" for pid q k v and xs :: process_table
    by (induction k v xs rule: btree_insert.induct) (auto split: if_splits)
  then show "table_ok all \<Longrightarrow> table_ok (btree_insert (pi_pid p) p all)"
    using btree_insert_sorted by (fastforce simp: table_ok_def)
qed

lemma insert_processes_table: "insert_processes listed all = Inr all' \<Longrightarrow> table_ok all \<Longrightarrow> table_ok all'"
  by (induction listed all rule: insert_processes.induct) (auto simp: btree_insert_table split: option.splits)

lemma all_processes_table: "all_processes listing = Inr all \<Longrightarrow> table_ok all"
  by (auto simp: all_processes_def table_ok_def [of "[]"] split: sum.splits intro: insert_processes_table)

definition parent_link :: "process_table \<Rightarrow> u32 \<Rightarrow> u32 \<Rightarrow> bool" where
  \<comment> \<open>the second process is in the table, with the first as its parent\<close>
  "parent_link all a b \<longleftrightarrow> (\<exists>p. map_of all b = Some p \<and> pi_parent_pid p = Some a)"

lemma children_parent_link:
  assumes ok: "table_ok all"
  shows "b \<in> set (children_of all a) \<longleftrightarrow> parent_link all a b"
proof
  have distinct: "distinct (map fst all)" using ok by (simp add: table_ok_def strict_sorted_iff)
  assume "b \<in> set (children_of all a)"
  then obtain k p where p: "(k, p) \<in> set all" "pi_parent_pid p = Some a" "b = pi_pid p" by (auto simp: children_of)
  then have "b = k" using ok by (auto simp: table_ok_def)
  then show "parent_link all a b" using p map_of_is_SomeI [OF distinct p(1)] by (auto simp: parent_link_def)
next
  assume "parent_link all a b"
  then obtain p where p: "map_of all b = Some p" "pi_parent_pid p = Some a" by (auto simp: parent_link_def)
  then have "(b, p) \<in> set all" "pi_pid p = b" using ok map_of_SomeD [OF p(1)] by (auto simp: table_ok_def)
  then show "b \<in> set (children_of all a)" using p by (force simp: children_of)
qed

text \<open>C0: the processes observed for a run are exactly those of the process table that descend from the root process
  through parent links, the root included when it is there, each once and in the order of their numbers; the search
  ends even when the links, read while processes come and go, form a cycle.\<close>
theorem supervised_processes_are_the_descendants:
  assumes "all_processes listing = Inr all"
  shows "sorted_wrt (<) (map pi_pid (supervised_processes root_pid all))
    \<and> set (supervised_processes root_pid all) = {p. \<exists>pid. map_of all pid = Some p \<and> pi_pid p = pid \<and> (parent_link all)\<^sup>*\<^sup>* root_pid pid}"
proof -
  let ?sel = "select_processes (children_of all) [root_pid] {}"
  have ok: "table_ok all" by (rule all_processes_table [OF assms])
  have pids: "pi_pid p = pid" if "map_of all pid = Some p" for pid p
    using ok map_of_SomeD [OF that] by (auto simp: table_ok_def)
  have link: "(\<lambda>a b. b \<in> set (children_of all a)) = parent_link all"
    by (intro ext) (rule children_parent_link [OF ok])
  have sel: "?sel = {b. (parent_link all)\<^sup>*\<^sup>* root_pid b}"
    unfolding select_exact descends_def link ..
  have fin: "finite ?sel" by simp
  have keys: "map pi_pid (List.map_filter (map_of all) xs) = filter (\<lambda>pid. map_of all pid \<noteq> None) xs" for xs
    by (induction xs) (auto simp: List.map_filter_def pids)
  have "sorted_wrt (<) (filter (\<lambda>pid. map_of all pid \<noteq> None) (sorted_list_of_set ?sel))"
    by (intro sorted_wrt_filter) (simp add: strict_sorted_iff)
  then have sorted: "sorted_wrt (<) (map pi_pid (supervised_processes root_pid all))"
    by (simp add: supervised_processes_def keys)
  have "set (supervised_processes root_pid all) = {p. \<exists>pid \<in> ?sel. map_of all pid = Some p}"
    using fin by (auto simp: supervised_processes_def List.map_filter_def image_iff) force+
  then show ?thesis using sorted pids unfolding sel by auto
qed

definition ex_listing :: "(io_error, (io_error, proc_entry) result list) result" where
  "ex_listing = Inr [
     Inr \<lparr>pn_name = ''9'', pn_stat = Some ''9 (sh) S 7'', pn_exe = None\<rparr>,
     Inr \<lparr>pn_name = ''7'', pn_stat = Some ''7 (a)) S 1'', pn_exe = None\<rparr>,
     Inr \<lparr>pn_name = ''8'', pn_stat = None, pn_exe = None\<rparr>]"

definition ex_table :: process_table where
  "ex_table = [(7, \<lparr>pi_pid = 7, pi_parent_pid = Some 1, pi_executable = None, pi_command = ''a)''\<rparr>),
     (9, \<lparr>pi_pid = 9, pi_parent_pid = Some 7, pi_executable = None, pi_command = ''sh''\<rparr>)]"

lemma ex_parse: "(parse_word ''9'' :: u32 option) = Some 9" "(parse_word ''7'' :: u32 option) = Some 7"
  "(parse_word ''8'' :: u32 option) = Some 8" "(parse_word ''1'' :: u32 option) = Some 1"
  by (simp_all add: parse_word_def parse_unsigned_def is_ascii_digit_def digit_value_def word_of_len_def)

lemma ex_fields: "split_fields [] (as_bytes '' S 7'') = [[83], [55]]" "split_fields [] (as_bytes '' S 1'') = [[83], [49]]"
  "of_bytes [55] = ''7''" "of_bytes [49] = ''1''" "is_str ''9''" "is_str ''7''" "is_str ''8''"
  by code_simp+

lemma ex_stat: "parse_linux_stat ''9 (sh) S 7'' = Some (7, ''sh'')" "parse_linux_stat ''7 (a)) S 1'' = Some (1, ''a)'')"
  by (simp_all add: parse_linux_stat_def rfind_char_def Let_def ex_fields ex_parse)

lemma ex_all_processes: "all_processes ex_listing = Inr ex_table"
  by (simp add: all_processes_def ex_listing_def read_process_def ex_fields ex_parse ex_stat ex_table_def)

theorem supervised_processes_are_the_descendants_witness:
  "\<forall>p \<in> set (supervised_processes 7 ex_table). (parent_link ex_table)\<^sup>*\<^sup>* 7 (pi_pid p)"
  using supervised_processes_are_the_descendants [OF ex_all_processes, of 7] by auto

end
