(* ===== verification/Terminal_View.thy ===== *)
theory Terminal_View
  imports Lossy_Text Ids
begin

section \<open>Rendering recorded terminal output\<close>

text \<open>
  \<open>rewind-tui/src/terminal.rs\<close>: the parser that turns recorded bytes into lines of styled text.
  A character is the list of its bytes.  The style type and its operations belong to
  the \<open>ratatui\<close> library and are a parameter.
\<close>

definition MAX_RENDERED_LINES :: nat where "MAX_RENDERED_LINES = 5000"

datatype color =
    ColorReset | ColorBlack | ColorRed | ColorGreen | ColorYellow | ColorBlue | ColorMagenta | ColorCyan | ColorGray
  | ColorDarkGray | ColorLightRed | ColorLightGreen | ColorLightYellow | ColorLightBlue | ColorLightMagenta
  | ColorLightCyan | ColorWhite | ColorIndexed u8 | ColorRgb u8 u8 u8

datatype modifier = Bold | Dim | Italic | Underlined | Reversed

record 'st styling =
  sy_default :: 'st
  sy_add :: "modifier list \<Rightarrow> 'st \<Rightarrow> 'st"
  sy_remove :: "modifier list \<Rightarrow> 'st \<Rightarrow> 'st"
  sy_fg :: "color \<Rightarrow> 'st \<Rightarrow> 'st"
  sy_bg :: "color \<Rightarrow> 'st \<Rightarrow> 'st"
  sy_same :: "'st \<Rightarrow> 'st \<Rightarrow> bool"

type_synonym uchar = "u8 list"

record 'st styled_span =
  sp_text :: "uchar list"
  sp_style :: 'st

type_synonym 'st styled_line = "'st styled_span list"

record 'st terminal_document =
  td_lines :: "'st styled_line list"
  td_truncated :: bool

record 'st parser =
  pa_lines :: "'st styled_line list"
  pa_current :: "'st styled_line"
  pa_style :: 'st
  pa_text :: "u8 list"
  pa_discarded_lines :: bool

definition parser_default :: "'st styling \<Rightarrow> 'st parser" where
  "parser_default sy = \<lparr>pa_lines = [], pa_current = [], pa_style = sy_default sy, pa_text = [], pa_discarded_lines = False\<rparr>"

subsection \<open>Text\<close>

function chars_lossy :: "u8 list \<Rightarrow> uchar list" where
  \<comment> \<open>the characters of \<open>String::from_utf8_lossy\<close>\<close>
  "chars_lossy bs = (if bs = [] then [] else fst (lossy_step bs) # chars_lossy (drop (snd (lossy_step bs)) bs))"
  by pat_completeness auto
termination
  by (relation "measure length") (simp_all add: lossy_step_progress)

declare chars_lossy.simps [simp del]

definition is_control :: "uchar \<Rightarrow> bool" where
  \<comment> \<open>\<open>char::is_control\<close>: U+0000 to U+001F and U+007F to U+009F\<close>
  "is_control c = (case c of [b] \<Rightarrow> b < 0x20 \<or> b = 0x7F | [a, b] \<Rightarrow> a = 0xC2 \<and> b < 0xA0 | _ \<Rightarrow> False)"

definition visible :: "uchar \<Rightarrow> uchar" where
  "visible c = (if is_control c then replacement else c)"

definition flush_text :: "'st styling \<Rightarrow> 'st parser \<Rightarrow> 'st parser" where
  "flush_text sy p =
     (if pa_text p = [] then p
      else
        let text = map visible (chars_lossy (pa_text p)); p = p\<lparr>pa_text := []\<rparr> in
        if pa_current p \<noteq> [] \<and> sy_same sy (sp_style (last (pa_current p))) (pa_style p)
        then p\<lparr>pa_current := butlast (pa_current p) @ [(last (pa_current p))\<lparr>sp_text := sp_text (last (pa_current p)) @ text\<rparr>]\<rparr>
        else p\<lparr>pa_current := pa_current p @ [\<lparr>sp_text = text, sp_style = pa_style p\<rparr>]\<rparr>)"

definition push_line :: "'st parser \<Rightarrow> 'st parser" where
  \<comment> \<open>\<open>push_back\<close> of the current line, and forgetting the oldest line beyond the limit\<close>
  "push_line p =
     (let all = pa_lines p @ [pa_current p] in
      if length all > MAX_RENDERED_LINES then p\<lparr>pa_lines := tl all, pa_discarded_lines := True\<rparr> else p\<lparr>pa_lines := all\<rparr>)"

definition newline :: "'st parser \<Rightarrow> 'st parser" where
  "newline p = (push_line p)\<lparr>pa_current := []\<rparr>"

fun pop_char :: "'st styled_span list \<Rightarrow> 'st styled_span list" where
  \<comment> \<open>the spans of a line, the last one first\<close>
  "pop_char [] = []"
| "pop_char (sp # spans) =
     (if sp_text sp = [] then pop_char spans
      else if butlast (sp_text sp) = [] then spans
      else sp\<lparr>sp_text := butlast (sp_text sp)\<rparr> # spans)"

definition backspace :: "'st parser \<Rightarrow> 'st parser" where
  "backspace p = p\<lparr>pa_current := rev (pop_char (rev (pa_current p)))\<rparr>"

subsection \<open>Escape sequences\<close>

definition base_color :: "u16 \<Rightarrow> bool \<Rightarrow> color" where
  "base_color value bright =
     (if value = 0 then if bright then ColorDarkGray else ColorBlack
      else if value = 1 then if bright then ColorLightRed else ColorRed
      else if value = 2 then if bright then ColorLightGreen else ColorGreen
      else if value = 3 then if bright then ColorLightYellow else ColorYellow
      else if value = 4 then if bright then ColorLightBlue else ColorBlue
      else if value = 5 then if bright then ColorLightMagenta else ColorMagenta
      else if value = 6 then if bright then ColorLightCyan else ColorCyan
      else if value = 7 then if bright then ColorWhite else ColorGray
      else ColorReset)"

definition extended_color :: "u16 list \<Rightarrow> (color \<times> nat) option" where
  "extended_color parameters = (case parameters of
       mode # red # rest \<Rightarrow>
         if mode = 5 \<and> red \<le> 255 then Some (ColorIndexed (ucast red), 2)
         else if mode = 2 then (case rest of
             green # blue # _ \<Rightarrow>
               if red \<le> 255 \<and> green \<le> 255 \<and> blue \<le> 255
               then Some (ColorRgb (ucast red) (ucast green) (ucast blue), 4) else None
           | _ \<Rightarrow> None)
         else None
     | _ \<Rightarrow> None)"

definition simple_sgr :: "'st styling \<Rightarrow> u16 \<Rightarrow> 'st \<Rightarrow> 'st" where
  "simple_sgr sy value style =
     (if value = 0 then sy_default sy
      else if value = 1 then sy_add sy [Bold] style
      else if value = 2 then sy_add sy [Dim] style
      else if value = 3 then sy_add sy [Italic] style
      else if value = 4 then sy_add sy [Underlined] style
      else if value = 7 then sy_add sy [Reversed] style
      else if value = 22 then sy_remove sy [Bold, Dim] style
      else if value = 23 then sy_remove sy [Italic] style
      else if value = 24 then sy_remove sy [Underlined] style
      else if value = 27 then sy_remove sy [Reversed] style
      else if 30 \<le> value \<and> value \<le> 37 then sy_fg sy (base_color (value - 30) False) style
      else if value = 39 then sy_fg sy ColorReset style
      else if 40 \<le> value \<and> value \<le> 47 then sy_bg sy (base_color (value - 40) False) style
      else if value = 49 then sy_bg sy ColorReset style
      else if 90 \<le> value \<and> value \<le> 97 then sy_fg sy (base_color (value - 90) True) style
      else if 100 \<le> value \<and> value \<le> 107 then sy_bg sy (base_color (value - 100) True) style
      else style)"

function apply_sgr :: "'st styling \<Rightarrow> u16 list \<Rightarrow> 'st \<Rightarrow> 'st" where
  "apply_sgr sy [] style = style"
| "apply_sgr sy (value # rest) style =
     (if value = 38 \<or> value = 48 then
        (case extended_color rest of
           Some (color, consumed) \<Rightarrow>
             apply_sgr sy (drop consumed rest) (if value = 38 then sy_fg sy color style else sy_bg sy color style)
         | None \<Rightarrow> apply_sgr sy rest style)
      else apply_sgr sy rest (simple_sgr sy value style))"
  by pat_completeness auto
termination by (relation "measure (\<lambda>(_, parameters, _). length parameters)") auto

fun split_parts :: "u8 \<Rightarrow> u8 list \<Rightarrow> u8 list list" where
  \<comment> \<open>\<open>slice::split\<close>\<close>
  "split_parts d [] = [[]]"
| "split_parts d (b # bs) = (if b = d then [] # split_parts d bs
     else (case split_parts d bs of part # parts \<Rightarrow> (b # part) # parts | [] \<Rightarrow> [[b]]))"

definition sgr :: "'st styling \<Rightarrow> u8 list \<Rightarrow> 'st parser \<Rightarrow> 'st parser" where
  "sgr sy parameters p =
     (let values = (if parameters = [] then [0]
          else List.map_filter (\<lambda>part. Option.bind (str_from_utf8 part) parse_word) (split_parts 0x3B parameters))
      in p\<lparr>pa_style := apply_sgr sy values (pa_style p)\<rparr>)"

fun skip_osc :: "u8 list \<Rightarrow> u8 list" where
  "skip_osc [] = []"
| "skip_osc (b # bs) =
     (if b = 0x07 then bs
      else if b = 0x1B \<and> bs \<noteq> [] \<and> hd bs = 0x5C then tl bs
      else skip_osc bs)"

definition final_byte :: "u8 \<Rightarrow> bool" where
  "final_byte b \<longleftrightarrow> 0x40 \<le> b \<and> b \<le> 0x7E"

definition escape :: "'st styling \<Rightarrow> u8 list \<Rightarrow> 'st parser \<Rightarrow> 'st parser \<times> u8 list" where
  \<comment> \<open>what follows the escape character; the second result is what is left to read\<close>
  "escape sy rest p = (case rest of
       [] \<Rightarrow> (p, [])
     | kind # bs \<Rightarrow>
         if kind = 0x5B then
           (case dropWhile (\<lambda>b. \<not> final_byte b) bs of
              [] \<Rightarrow> (p, [])
            | final # left \<Rightarrow> (if final = 0x6D then sgr sy (takeWhile (\<lambda>b. \<not> final_byte b) bs) p else p, left))
         else if kind = 0x5D then (p, skip_osc bs)
         else (p, bs))"

lemma length_skip_osc: "length (skip_osc bs) \<le> length bs"
  by (induction bs rule: skip_osc.induct) auto

lemma length_escape: "length (snd (escape sy rest p)) \<le> length rest"
proof (cases rest)
  case (Cons kind bs)
  have "length (dropWhile (\<lambda>b. \<not> final_byte b) bs) \<le> length bs" by (rule length_dropWhile_le)
  then show ?thesis
    using Cons length_skip_osc [of bs] by (auto simp: escape_def split: list.split)
qed (simp add: escape_def)

subsection \<open>The parser\<close>

function parse_consume :: "'st styling \<Rightarrow> u8 list \<Rightarrow> 'st parser \<Rightarrow> 'st parser" where
  "parse_consume sy [] p = p"
| "parse_consume sy (b # bs) p =
     (if b = 0x1B then (case escape sy bs (flush_text sy p) of (p', left) \<Rightarrow> parse_consume sy left p')
      else if b = 0x0A then parse_consume sy bs (newline (flush_text sy p))
      else if b = 0x0D then parse_consume sy bs ((flush_text sy p)\<lparr>pa_current := []\<rparr>)
      else if b = 0x08 then parse_consume sy bs (backspace (flush_text sy p))
      else if b = 0x09 then parse_consume sy bs (p\<lparr>pa_text := pa_text p @ [32, 32, 32, 32]\<rparr>)
      else if b \<le> 0x1F \<or> b = 0x7F then parse_consume sy bs p
      else parse_consume sy bs (p\<lparr>pa_text := pa_text p @ [b]\<rparr>))"
  by pat_completeness auto
termination
proof (relation "measure (\<lambda>(_, bs, _). length bs)", goal_cases)
  case (2 sy b bs p x y)
  then show ?case using length_escape [of sy bs "flush_text sy p"] by (cases "escape sy bs (flush_text sy p)") simp
qed auto

definition parser_finish :: "'st styling \<Rightarrow> bool \<Rightarrow> 'st parser \<Rightarrow> 'st terminal_document" where
  "parser_finish sy truncated p =
     (let p = push_line (flush_text sy p) in \<lparr>td_lines = pa_lines p, td_truncated = truncated \<or> pa_discarded_lines p\<rparr>)"

definition terminal_parse :: "'st styling \<Rightarrow> u8 list \<Rightarrow> bool \<Rightarrow> 'st terminal_document" where
  "terminal_parse sy bytes truncated = parser_finish sy truncated (parse_consume sy bytes (parser_default sy))"

subsection \<open>Nothing that is shown controls the terminal\<close>

definition shown_char :: "uchar \<Rightarrow> bool" where
  "shown_char c \<longleftrightarrow> utf8_valid c \<and> \<not> is_control c"

definition shown_line :: "'st styled_line \<Rightarrow> bool" where
  "shown_line line \<longleftrightarrow> (\<forall>sp \<in> set line. \<forall>c \<in> set (sp_text sp). shown_char c)"

definition parser_ok :: "'st parser \<Rightarrow> bool" where
  "parser_ok p \<longleftrightarrow> (\<forall>line \<in> set (pa_lines p). shown_line line) \<and> shown_line (pa_current p)
     \<and> length (pa_lines p) \<le> MAX_RENDERED_LINES"

lemma utf8_one:
  "bs \<noteq> [] \<Longrightarrow> utf8_valid (fst (lossy_step bs))"
  apply (cases bs)
   apply simp
  subgoal for a r1
    apply (cases r1)
     apply (auto simp: lossy_step_def Let_def utf8_width_def replacement_def utf8_tail_def)[1]
    subgoal for b r2
      by (cases r2; cases "tl r2")
        (auto simp: lossy_step_def Let_def utf8_width_def utf8_second_ok_def replacement_def utf8_tail_def split: if_splits)
    done
  done

lemma visible_shown: "bs \<noteq> [] \<Longrightarrow> shown_char (visible (fst (lossy_step bs)))"
  using utf8_one [of bs] by (auto simp: shown_char_def visible_def replacement_def utf8_tail_def is_control_def)

lemma chars_shown: "\<forall>c \<in> set (chars_lossy bs). shown_char (visible c)"
proof (induction bs rule: chars_lossy.induct)
  case (1 bs)
  then show ?case using visible_shown [of bs] by (subst chars_lossy.simps) auto
qed

lemma flush_ok: "parser_ok p \<Longrightarrow> parser_ok (flush_text sy p)"
proof -
  assume p: "parser_ok p"
  have "shown_line (pa_current p) \<Longrightarrow> pa_current p \<noteq> [] \<Longrightarrow> shown_line (butlast (pa_current p))
      \<and> (\<forall>c \<in> set (sp_text (last (pa_current p))). shown_char c)"
    by (auto simp: shown_line_def dest: in_set_butlastD)
  then show ?thesis
    using p chars_shown [of "pa_text p"]
    by (auto simp: flush_text_def Let_def parser_ok_def shown_line_def)
qed

lemma push_ok: "parser_ok p \<Longrightarrow> parser_ok (push_line p)"
  by (cases "pa_lines p") (auto simp: parser_ok_def push_line_def Let_def)

lemma newline_ok: "parser_ok p \<Longrightarrow> parser_ok (newline p)"
  using push_ok [of p] by (auto simp: newline_def parser_ok_def shown_line_def)

lemma pop_char_shown: "shown_line line \<Longrightarrow> shown_line (pop_char line)"
  by (induction line rule: pop_char.induct) (auto simp: shown_line_def dest: in_set_butlastD)

lemma backspace_ok: "parser_ok p \<Longrightarrow> parser_ok (backspace p)"
  using pop_char_shown [of "rev (pa_current p)"] by (simp add: parser_ok_def backspace_def shown_line_def)

lemma escape_ok: "parser_ok p \<Longrightarrow> parser_ok (fst (escape sy rest p))"
  by (cases rest) (auto simp: escape_def sgr_def Let_def parser_ok_def split: list.split)

lemma parse_consume_ok: "parser_ok p \<Longrightarrow> parser_ok (parse_consume sy bs p)"
proof (induction sy bs p rule: parse_consume.induct)
  case (2 sy b bs p)
  have f: "parser_ok (flush_text sy p)" by (rule flush_ok [OF 2(8)])
  have r: "parser_ok ((flush_text sy p)\<lparr>pa_current := []\<rparr>)" and t: "parser_ok (p\<lparr>pa_text := x\<rparr>)" for x
    using f 2(8) by (simp_all add: parser_ok_def shown_line_def)
  show ?case
    using 2(1-8) r t newline_ok [OF f] backspace_ok [OF f] escape_ok [OF f, of sy bs]
    by (cases "escape sy bs (flush_text sy p)") simp
qed simp

text \<open>C0: whatever bytes a recorded command wrote, nothing the replay shows of them can act on the viewer's terminal: every
  shown character is a well-formed one and none is a control character, so no escape sequence survives; the
  document has at least one line and never more than the limit, and a document that was cut says so.\<close>
theorem shown_text_is_harmless:
  "(\<forall>line \<in> set (td_lines (terminal_parse sy bytes truncated)). \<forall>sp \<in> set line. \<forall>c \<in> set (sp_text sp). utf8_valid c \<and> \<not> is_control c)
     \<and> td_lines (terminal_parse sy bytes truncated) \<noteq> [] \<and> length (td_lines (terminal_parse sy bytes truncated)) \<le> MAX_RENDERED_LINES
     \<and> (truncated \<longrightarrow> td_truncated (terminal_parse sy bytes truncated))"
proof -
  have "parser_ok (parser_default sy)" by (simp add: parser_ok_def parser_default_def shown_line_def)
  then have p: "parser_ok (push_line (flush_text sy (parse_consume sy bytes (parser_default sy))))"
    by (intro push_ok flush_ok parse_consume_ok)
  have "pa_lines (push_line q) \<noteq> []" for q :: "'a parser"
    by (cases "pa_lines q") (auto simp: push_line_def Let_def MAX_RENDERED_LINES_def)
  then show ?thesis
    using p by (auto simp: terminal_parse_def parser_finish_def Let_def parser_ok_def shown_line_def shown_char_def)
qed

subsection \<open>Plain text is shown as it is\<close>

definition line_text :: "'st styled_line \<Rightarrow> u8 list" where
  "line_text line = concat (map (\<lambda>sp. concat (sp_text sp)) line)"

lemma line_text_Nil [simp]: "line_text [] = []"
  by (simp add: line_text_def)

definition last_lines :: "'a list \<Rightarrow> 'a list" where
  "last_lines xs = drop (length xs - MAX_RENDERED_LINES) xs"

definition glue :: "u8 list \<Rightarrow> u8 list list \<Rightarrow> u8 list list" where
  "glue c parts = (case parts of [] \<Rightarrow> [] | part # rest \<Rightarrow> (c @ part) # rest)"

definition printable :: "u8 \<Rightarrow> bool" where
  "printable b \<longleftrightarrow> 0x20 \<le> b \<and> b \<le> 0x7E"

lemma split_parts_nonempty [simp]: "split_parts d bs \<noteq> []"
  by (induction bs) (auto split: list.split)

lemma chars_printable: "list_all printable bs \<Longrightarrow> map visible (chars_lossy bs) = map (\<lambda>b. [b]) bs"
proof (induction bs)
  case (Cons b bs)
  have "b < 0x80" "visible [b] = [b]"
    using Cons.prems by (auto simp: printable_def visible_def is_control_def unat_arith_simps)
  then show ?case
    using Cons by (subst chars_lossy.simps) (simp add: lossy_step_def Let_def utf8_width_def)
qed (simp add: chars_lossy.simps)

lemma flush_plain:
  assumes "list_all printable (pa_text p)"
  shows "line_text (pa_current (flush_text sy p)) = line_text (pa_current p) @ pa_text p"
    and "pa_text (flush_text sy p) = []" and "pa_lines (flush_text sy p) = pa_lines p"
    and "pa_discarded_lines (flush_text sy p) = pa_discarded_lines p"
proof -
  have chars: "concat (map visible (chars_lossy (pa_text p))) = pa_text p"
    by (simp add: chars_printable [OF assms])
  show "line_text (pa_current (flush_text sy p)) = line_text (pa_current p) @ pa_text p"
    by (cases "pa_current p" rule: rev_cases) (auto simp: flush_text_def Let_def line_text_def chars)
qed (simp_all add: flush_text_def Let_def)

lemma last_lines_tl: "MAX_RENDERED_LINES < length (zs @ ws) \<Longrightarrow> zs \<noteq> [] \<Longrightarrow> last_lines (tl zs @ ws) = last_lines (zs @ ws)"
  by (cases zs) (simp_all add: last_lines_def Suc_diff_le)

lemma last_lines_push: "length xs \<le> MAX_RENDERED_LINES \<Longrightarrow>
    last_lines ((if length (xs @ [x]) > MAX_RENDERED_LINES then tl (xs @ [x]) else xs @ [x]) @ ys) = last_lines (xs @ x # ys)"
  using last_lines_tl [of "xs @ [x]" ys] by simp

lemma last_lines_short: "length xs \<le> MAX_RENDERED_LINES \<Longrightarrow>
    (if length (xs @ [x]) > MAX_RENDERED_LINES then tl (xs @ [x]) else xs @ [x]) = last_lines (xs @ [x])"
proof (cases "length xs = MAX_RENDERED_LINES")
  case True
  then show ?thesis by (simp add: last_lines_def Suc_diff_le drop_Suc del: drop_append)
qed (simp add: last_lines_def)

lemma push_plain:
  assumes "length (pa_lines p) \<le> MAX_RENDERED_LINES"
  shows "map line_text (pa_lines (push_line p)) = (let all = map line_text (pa_lines p) @ [line_text (pa_current p)] in
      if length all > MAX_RENDERED_LINES then tl all else all)"
    and "pa_discarded_lines (push_line p) \<longleftrightarrow> pa_discarded_lines p \<or> length (pa_lines p) = MAX_RENDERED_LINES"
    and "length (pa_lines (push_line p)) = min MAX_RENDERED_LINES (Suc (length (pa_lines p)))"
  using assms by (auto simp: push_line_def Let_def map_tl)

lemma consume_plain:
  assumes "list_all (\<lambda>b. printable b \<or> b = 0x0A) bs" and "list_all printable (pa_text p)"
    and "length (pa_lines p) \<le> MAX_RENDERED_LINES"
  shows "map line_text (td_lines (parser_finish sy truncated (parse_consume sy bs p)))
      = last_lines (map line_text (pa_lines p) @ glue (line_text (pa_current p) @ pa_text p) (split_parts 0x0A bs))
    \<and> (td_truncated (parser_finish sy truncated (parse_consume sy bs p)) \<longleftrightarrow>
        truncated \<or> pa_discarded_lines p \<or> length (pa_lines p) + length (split_parts 0x0A bs) > MAX_RENDERED_LINES)"
  using assms
proof (induction bs arbitrary: p)
  case Nil
  let ?q = "flush_text sy p"
  note f = flush_plain [OF Nil(2), of sy]
  have len: "length (pa_lines ?q) \<le> MAX_RENDERED_LINES" using Nil by (simp add: f)
  have "map line_text (pa_lines (push_line ?q)) = last_lines (map line_text (pa_lines p) @ [line_text (pa_current p) @ pa_text p])"
    using last_lines_short [of "map line_text (pa_lines p)" "line_text (pa_current p) @ pa_text p"] Nil(3)
    unfolding push_plain [OF len] by (simp add: f Let_def)
  then show ?case
    using Nil(3) by (auto simp: parser_finish_def Let_def push_plain [OF len] f glue_def)
next
  case (Cons b bs)
  let ?q = "flush_text sy p"
  note f = flush_plain [OF Cons.prems(2), of sy]
  show ?case
  proof (cases "b = 0x0A")
    case True
    let ?n = "newline ?q"
    have len: "length (pa_lines ?q) \<le> MAX_RENDERED_LINES" using Cons.prems by (simp add: f)
    have n: "pa_text ?n = []" "pa_current ?n = []" "length (pa_lines ?n) \<le> MAX_RENDERED_LINES"
      "map line_text (pa_lines ?n) = map line_text (pa_lines (push_line ?q))"
      "pa_discarded_lines ?n \<longleftrightarrow> pa_discarded_lines p \<or> length (pa_lines p) = MAX_RENDERED_LINES"
      "length (pa_lines ?n) = min MAX_RENDERED_LINES (Suc (length (pa_lines p)))"
      using len push_plain [OF len] by (simp_all add: newline_def f) (simp add: push_line_def Let_def f)
    obtain part parts where parts: "split_parts 0x0A bs = part # parts" by (cases "split_parts 0x0A bs") simp_all
    have step: "parse_consume sy (b # bs) p = parse_consume sy bs ?n" using True by simp
    have "map line_text (td_lines (parser_finish sy truncated (parse_consume sy bs ?n))) = last_lines (map line_text (pa_lines ?n) @ part # parts)
        \<and> (td_truncated (parser_finish sy truncated (parse_consume sy bs ?n)) \<longleftrightarrow>
          truncated \<or> pa_discarded_lines ?n \<or> length (pa_lines ?n) + length (part # parts) > MAX_RENDERED_LINES)"
      using Cons.IH [of ?n] Cons.prems n(1-3) by (simp add: parts glue_def)
    moreover have "last_lines (map line_text (pa_lines ?n) @ part # parts)
        = last_lines (map line_text (pa_lines p) @ (line_text (pa_current p) @ pa_text p) # part # parts)"
      unfolding n(4) push_plain(1) [OF len] Let_def f
      using last_lines_push [of "map line_text (pa_lines p)" "line_text (pa_current p) @ pa_text p" "part # parts"] Cons.prems(3)
      by (simp add: f split del: if_split)
    ultimately show ?thesis
      unfolding step using True Cons.prems(3) n(5,6) by (auto simp: parts glue_def)
  next
    case False
    have b: "printable b" using Cons.prems False by simp
    have "b \<noteq> 0x1B" "b \<noteq> 0x0D" "b \<noteq> 0x08" "b \<noteq> 0x09" "\<not> (b \<le> 0x1F \<or> b = 0x7F)"
      using b by (auto simp: printable_def unat_arith_simps)
    then have step: "parse_consume sy (b # bs) p = parse_consume sy bs (p\<lparr>pa_text := pa_text p @ [b]\<rparr>)"
      using False by simp
    show ?thesis
      unfolding step using Cons.IH [of "p\<lparr>pa_text := pa_text p @ [b]\<rparr>"] Cons.prems b False
      by (cases "split_parts 0x0A bs") (simp_all add: glue_def)
  qed
qed

text \<open>C0: printable text is shown exactly as it was written, line by line, up to the last lines that the limit allows, and
  the document is marked as cut exactly when lines are missing or it was marked so before.\<close>
theorem plain_text_is_shown:
  assumes "list_all (\<lambda>b. printable b \<or> b = 0x0A) bytes"
  shows "map line_text (td_lines (terminal_parse sy bytes truncated)) = last_lines (split_parts 0x0A bytes)
    \<and> (td_truncated (terminal_parse sy bytes truncated) \<longleftrightarrow> truncated \<or> length (split_parts 0x0A bytes) > MAX_RENDERED_LINES)"
proof -
  have "glue [] (split_parts 0x0A bytes) = split_parts 0x0A bytes"
    by (cases "split_parts 0x0A bytes") (simp_all add: glue_def)
  then show ?thesis
    using consume_plain [OF assms, of "parser_default sy" sy truncated]
    by (simp_all add: terminal_parse_def parser_default_def line_text_def)
qed

definition ex_styling :: "nat styling" where
  "ex_styling = \<lparr>sy_default = 0, sy_add = (\<lambda>_ s. s + 1), sy_remove = (\<lambda>_ s. s), sy_fg = (\<lambda>_ s. s + 2), sy_bg = (\<lambda>_ s. s),
     sy_same = (=)\<rparr>"

theorem plain_text_is_shown_witness:
  "map line_text (td_lines (terminal_parse ex_styling [104, 105, 10, 33] False)) = [[104, 105], [33]]"
  using plain_text_is_shown [of "[104, 105, 10, 33]" ex_styling False]
  by (simp add: printable_def last_lines_def MAX_RENDERED_LINES_def)

end
