(* ===== verification/Spec2Isabelle.thy ===== *)
theory Spec2Isabelle
  imports Events Comparison Glob Tree_Check Bundle Store_Upkeep Scan_Theorems Recorder_Theorems Session_Limits Process_Tree Terminal_View
begin

text \<open>
  Rewind records the execution of an agent: the commands' terminal output, events, and snapshots
  of the workspace, in a local SQLite database with a content-addressed object directory. This
  library models the code under \<open>src/crates\<close> that carries the program's own logic.

  \<^item> \<open>Prelude\<close>: results (\<open>Inl\<close> the error, \<open>Inr\<close> the value), guards, folds that stop at the
    first error, list and word lemmas.
  \<^item> \<open>rewind-domain\<close>: \<open>Ids\<close> (\<open>id.rs\<close>, \<open>time.rs\<close>), \<open>Paths\<close> and \<open>Manifest\<close> (\<open>snapshot.rs\<close>),
    \<open>Run_Model\<close> (\<open>run.rs\<close>), \<open>Events\<close> (\<open>event.rs\<close>), \<open>Comparison\<close> (\<open>comparison.rs\<close> and the
    relationship computation of \<open>rewind-cli/src/compare.rs\<close>).
  \<^item> \<open>rewind-snapshot\<close>: \<open>Diff\<close> (\<open>diff.rs\<close>), \<open>Glob\<close> (the pattern matcher of \<open>scan.rs\<close>),
    \<open>Tree_Check\<close> (the preconditions of materialization).
  \<^item> \<open>rewind-store\<close>: \<open>Codec\<close>, \<open>Objects\<close> (\<open>object.rs\<close>), \<open>Bundle\<close> (\<open>bundle.rs\<close>), and the
    metadata database: \<open>Store_Tables\<close> (the tables of \<open>schema.rs\<close> with their constraints as
    insert operations that may fail), \<open>Store_Objects\<close>, \<open>Store_Events\<close>, \<open>Store_Runs\<close>,
    \<open>Store_Snapshots\<close>, \<open>Store_Recovery\<close>, \<open>Store_Maintenance\<close> and \<open>Store_Orphans\<close>. \<open>Store_Schema\<close>,
    \<open>Store_Timeline\<close> and \<open>Store_Lifecycle\<close> hold the invariants of its parts, \<open>Store_Invariants\<close> and
    \<open>Store_Progress\<close> make the whole a step relation and lift them to every reachable store,
    \<open>Store_Examples\<close> is a concrete session, and \<open>Store_Theorems\<close> and \<open>Store_Upkeep\<close> state what
    the store promises its callers.
  \<^item> \<open>rewind-platform\<close>: \<open>Effects\<close> (operations that change a state and may fail, with weakest
    preconditions), \<open>File_Tree\<close> (the kernel calls of \<open>filesystem.rs\<close> over a tree of nodes, with
    a device error possible at every call), \<open>File_Views\<close> and \<open>File_Calls\<close> (each call as an update
    of a map from paths), \<open>File_System\<close> (the operations beneath a pinned root and recursive
    removal, whose 256 levels are the fuel), \<open>File_Effects\<close> (their specifications) and
    \<open>File_Reading\<close> (pinned directories, entries, bounded reads) and \<open>File_Observe\<close> (what reading
    returns, refuses and leaves alone).
  \<^item> \<open>restore.rs\<close> of \<open>rewind-snapshot\<close>: \<open>Lossy_Text\<close> (lossy names), \<open>Restore\<close> (preflight, the build
    in a private sibling, the exchange with the destination, clean-up), \<open>Restore_Build\<close> and
    \<open>Restore_Install\<close> (the specification of each stage, where every call may fail),
    \<open>Restore_Outcome\<close> (the stages composed) and \<open>Restore_Theorems\<close> (what a restore promises).
    \<open>TEMP_SEQUENCE\<close> is part of the state; the 64 attempts at a private name are the source's.
  \<^item> \<open>scan.rs\<close> of \<open>rewind-snapshot\<close>: \<open>Scan\<close> (the traversal; it ends because a child's path is
    longer than its directory's and paths have a maximal length), \<open>Scan_Spec\<close> (the reference: a
    survey of the tree, and the traversal against it), \<open>Scan_Outcome\<close> (the whole scan) and
    \<open>Scan_Theorems\<close> (what a scan reports; restoring and scanning are inverse).

  Not code of this repository, and so parameters: the BLAKE3 hash, the UUID text
  conversion, the JSON encoder. Threads, interference of other processes with the files, and
  rendering are not modelled.
\<close>

end
